(* ===== verification/Prelude.thy ===== *)
theory Prelude
  imports Main "HOL-Library.Word" "HOL-Library.AList"
begin

text \<open>
  Shared vocabulary of the development: machine integers, instants, the log of a
  bounded channel, the two map types of the Rust standard library, and the lemmas
  about them that the component theories use.

  \<^item> \<open>u8\<close>, \<open>u16\<close>, \<open>u32\<close>, \<open>u64\<close> are words, so \<open>+\<close> wraps as Rust's release
    arithmetic and \<open>fetch_add\<close> do. \<open>Instant\<close> and \<open>Duration\<close> are nanosecond counts;
    \<open>saturating_duration_since\<close> is the truncated difference of \<open>nat\<close>.
  \<^item> A bounded channel is an external object. Its state is the log of all \<open>try_send\<close>
    attempts with their outcome, and whether the next attempt succeeds is decided by a
    parameter \<open>acc\<close> (a function of the log and the message), over which every
    definition and every theorem is general.
  \<^item> A \<open>HashMap\<close> is an association list with distinct keys (the list order is the
    unspecified iteration order), a \<open>BTreeMap\<close> one with strictly increasing keys.
    Both provide the interface locale \<open>kv_map\<close>; the second also \<open>ordered_map\<close>.
\<close>

section \<open>Machine integers and time\<close>

type_synonym u8 = "8 word"
type_synonym u16 = "16 word"
type_synonym u32 = "32 word"
type_synonym u64 = "64 word"

text \<open>32-byte and 64-byte values of \<open>solana_sdk\<close>: only equality, order and the
  all-zero default are used.\<close>

type_synonym hash = "256 word"
type_synonym pubkey = "256 word"
type_synonym signature = "512 word"

type_synonym instant = nat
type_synonym duration = nat

definition saturating_duration_since :: "instant \<Rightarrow> instant \<Rightarrow> duration" where
  "saturating_duration_since a b = a - b"

definition as_micros :: "duration \<Rightarrow> nat" where
  "as_micros d = d div 1000"

definition u32_max :: nat where "u32_max = 4294967295"

definition u64_max :: nat where "u64_max = 18446744073709551615"

text \<open>\<open>d.as_micros().min(u32::MAX as u128) as u32\<close>\<close>

definition micros_u32 :: "duration \<Rightarrow> u32" where
  "micros_u32 d = of_nat (min (as_micros d) u32_max)"

definition saturating_add :: "'a::len word \<Rightarrow> 'a word \<Rightarrow> 'a word" where
  "saturating_add a b = (if unat a + unat b < 2 ^ LENGTH('a) then a + b else - 1)"

definition saturating_sub :: "'a::len word \<Rightarrow> 'a word \<Rightarrow> 'a word" where
  "saturating_sub a b = (if b \<le> a then a - b else 0)"

definition checked_sub :: "'a::len word \<Rightarrow> 'a word \<Rightarrow> 'a word option" where
  "checked_sub a b = (if b \<le> a then Some (a - b) else None)"

lemma unat_lt: "unat (w :: 'a::len word) < 2 ^ LENGTH('a)"
  by (rule unsigned_less)

lemma unat_saturating_sub [simp]: "unat (saturating_sub a b) = unat a - unat b"
  by (auto simp: saturating_sub_def unat_sub word_le_nat_alt)

lemma unat_saturating_add:
  "unat (saturating_add (a::'a::len word) b) = min (unat a + unat b) (2 ^ LENGTH('a) - 1)"
  by (auto simp: saturating_add_def unat_word_ariths unsigned_minus_1_eq_mask mask_eq_exp_minus_1)

lemma saturating_add_ge: "a \<le> saturating_add a b"
proof -
  have "unat a < 2 ^ LENGTH('a)" by (rule unsigned_less)
  then have "unat a \<le> 2 ^ LENGTH('a) - 1" by linarith
  then have "unat a \<le> min (unat a + unat b) (2 ^ LENGTH('a) - 1)" by simp
  then show ?thesis by (simp add: word_le_nat_alt unat_saturating_add)
qed

text \<open>Counts that stop at the largest value of their width.\<close>

definition sat32 :: "nat \<Rightarrow> u32" where "sat32 n = of_nat (min n u32_max)"

definition sat64 :: "nat \<Rightarrow> u64" where "sat64 n = of_nat (min n u64_max)"

lemma sat_zero [simp]: "sat32 0 = 0" "sat64 0 = 0"
  by (simp_all add: sat32_def sat64_def)

lemma unat_sat32: "unat (sat32 n) = min n u32_max"
  by (simp add: sat32_def u32_max_def unat_of_nat)

lemma unat_sat64: "unat (sat64 n) = min n u64_max"
  by (simp add: sat64_def u64_max_def unat_of_nat)

lemma saturating_add_sat32 [simp]: "saturating_add (sat32 n) x = sat32 (n + unat x)"
  by (rule word_unat_eq_iff [THEN iffD2])
    (simp add: unat_saturating_add unat_sat32 u32_max_def)

lemma saturating_add_sat64 [simp]: "saturating_add (sat64 n) x = sat64 (n + unat x)"
  by (rule word_unat_eq_iff [THEN iffD2])
    (simp add: unat_saturating_add unat_sat64 u64_max_def)

section \<open>Channels\<close>

type_synonym 'a chan = "('a \<times> bool) list"
type_synonym 'a accept = "'a chan \<Rightarrow> 'a \<Rightarrow> bool"

definition try_send :: "'a accept \<Rightarrow> 'a chan \<Rightarrow> 'a \<Rightarrow> 'a chan \<times> bool" where
  "try_send acc c x = (c @ [(x, acc c x)], acc c x)"

definition attempts :: "'a chan \<Rightarrow> 'a list" where
  "attempts c = map fst c"

definition delivered :: "'a chan \<Rightarrow> 'a list" where
  "delivered c = map fst (filter snd c)"

definition refused :: "'a chan \<Rightarrow> nat" where
  "refused c = length (filter (\<lambda>e. \<not> snd e) c)"

lemma attempts_simps [simp]:
  "attempts [] = []" "attempts (c @ d) = attempts c @ attempts d"
  "attempts (e # c) = fst e # attempts c"
  by (simp_all add: attempts_def)

lemma delivered_simps [simp]:
  "delivered [] = []" "delivered (c @ d) = delivered c @ delivered d"
  by (simp_all add: delivered_def)

lemma refused_simps [simp]:
  "refused [] = 0" "refused (c @ d) = refused c + refused d"
  "refused (e # c) = (if snd e then refused c else Suc (refused c))"
  by (simp_all add: refused_def)

lemma try_send_fst [simp]: "fst (try_send acc c x) = c @ [(x, acc c x)]"
  and try_send_snd [simp]: "snd (try_send acc c x) = acc c x"
  by (simp_all add: try_send_def)

lemma delivered_refused: "length (delivered c) + refused c = length (attempts c)"
  by (induction c) (auto simp: delivered_def)

lemma set_delivered: "set (delivered c) \<subseteq> set (attempts c)"
  by (auto simp: delivered_def attempts_def)

section \<open>Lists\<close>

lemma takeWhile_less_filter:
  "sorted (xs :: 'a::linorder list) \<Longrightarrow> takeWhile (\<lambda>x. x < c) xs = filter (\<lambda>x. x < c) xs"
proof (induction xs)
  case (Cons x xs)
  have "\<not> x < c \<Longrightarrow> \<forall>y\<in>set xs. \<not> y < c"
    using Cons.prems by (meson le_less_trans sorted_simps(2))
  with Cons show ?case by (cases "x < c") (auto simp: filter_empty_conv)
qed simp

section \<open>The map interface\<close>

locale kv_map =
  fixes empty :: 'm
    and lookup :: "'m \<Rightarrow> 'k \<Rightarrow> 'v option"
    and insert :: "'k \<Rightarrow> 'v \<Rightarrow> 'm \<Rightarrow> 'm"
    and remove :: "'k \<Rightarrow> 'm \<Rightarrow> 'm"
    and keys :: "'m \<Rightarrow> 'k list"
    and invar :: "'m \<Rightarrow> bool"
  assumes lookup_empty: "lookup empty k = None"
    and lookup_insert: "lookup (insert k v m) k' = (if k' = k then Some v else lookup m k')"
    and lookup_remove: "lookup (remove k m) k' = (if k' = k then None else lookup m k')"
    and set_keys: "set (keys m) = {k. lookup m k \<noteq> None}"
    and distinct_keys: "invar m \<Longrightarrow> distinct (keys m)"
    and invar_empty: "invar empty"
    and invar_insert: "invar m \<Longrightarrow> invar (insert k v m)"
    and invar_remove: "invar m \<Longrightarrow> invar (remove k m)"
begin

lemma set_keys_insert: "set (keys (insert k v m)) = {k} \<union> set (keys m)"
  by (auto simp: set_keys lookup_insert)

lemma set_keys_remove: "set (keys (remove k m)) = set (keys m) - {k}"
  by (auto simp: set_keys lookup_remove)

lemma in_keys: "k \<in> set (keys m) \<longleftrightarrow> lookup m k \<noteq> None"
  by (simp add: set_keys)

lemma length_keys: "invar m \<Longrightarrow> length (keys m) = card (set (keys m))"
  by (simp add: distinct_card distinct_keys)

lemma length_keys_insert:
  "invar m \<Longrightarrow> length (keys (insert k v m)) =
    (if lookup m k = None then Suc (length (keys m)) else length (keys m))"
  by (auto simp: length_keys invar_insert set_keys_insert in_keys insert_absorb)

lemma length_keys_remove:
  "invar m \<Longrightarrow> lookup m k \<noteq> None \<Longrightarrow> Suc (length (keys (remove k m))) = length (keys m)"
  by (auto simp: length_keys invar_remove set_keys_remove in_keys card_Suc_Diff1 simp del: card_Diff_insert card_Diff_singleton)

lemma lookup_fold_remove:
  "lookup (fold remove ks m) k = (if k \<in> set ks then None else lookup m k)"
  by (induction ks arbitrary: m) (auto simp: lookup_remove)

lemma invar_fold_remove: "invar m \<Longrightarrow> invar (fold remove ks m)"
  by (induction ks arbitrary: m) (auto simp: invar_remove)

end

locale ordered_map = kv_map empty lookup insert remove keys invar
  for empty :: 'm and lookup :: "'m \<Rightarrow> 'k::linorder \<Rightarrow> 'v option"
    and insert :: "'k \<Rightarrow> 'v \<Rightarrow> 'm \<Rightarrow> 'm" and remove :: "'k \<Rightarrow> 'm \<Rightarrow> 'm"
    and keys :: "'m \<Rightarrow> 'k list" and invar :: "'m \<Rightarrow> bool" +
  assumes sorted_keys: "invar m \<Longrightarrow> sorted (keys m)"
begin

text \<open>A scan of the keys in ascending order may stop at the first key that is not below
  the cutoff: it has seen all keys that are.\<close>

lemma takeWhile_less_keys:
  assumes "invar m"
  shows "set (takeWhile (\<lambda>k. k < c) (keys m)) = {k. lookup m k \<noteq> None \<and> k < c}"
proof -
  have "takeWhile (\<lambda>k. k < c) (keys m) = filter (\<lambda>k. k < c) (keys m)"
    using sorted_keys [OF assms] by (rule takeWhile_less_filter)
  then show ?thesis by (auto simp: set_keys)
qed

lemma first_key_least:
  assumes "invar m" "keys m = a # ks" "lookup m k \<noteq> None"
  shows "a \<le> k"
  using sorted_keys [OF assms(1)] assms(2,3) in_keys [of k m] by auto

end

section \<open>Hash maps and B-tree maps\<close>

text \<open>\<open>HashMap\<close>: \<open>insert\<close> overwrites, \<open>remove\<close> drops the key.\<close>

type_synonym ('k, 'v) hash_map = "('k \<times> 'v) list"

abbreviation hm_insert :: "'k \<Rightarrow> 'v \<Rightarrow> ('k, 'v) hash_map \<Rightarrow> ('k, 'v) hash_map" where
  "hm_insert \<equiv> AList.update"

abbreviation hm_remove :: "'k \<Rightarrow> ('k, 'v) hash_map \<Rightarrow> ('k, 'v) hash_map" where
  "hm_remove \<equiv> AList.delete"

abbreviation map_keys :: "('k \<times> 'v) list \<Rightarrow> 'k list" where
  "map_keys \<equiv> map fst"

definition hm_inv :: "('k, 'v) hash_map \<Rightarrow> bool" where
  "hm_inv m \<longleftrightarrow> distinct (map_keys m)"

lemma set_map_keys: "set (map_keys m) = {k. map_of m k \<noteq> None}"
  by (auto simp: map_of_eq_None_iff)

interpretation hm: kv_map "[]" map_of hm_insert hm_remove map_keys hm_inv
  by unfold_locales
    (auto simp: hm_inv_def update_conv' delete_conv' distinct_update distinct_delete set_map_keys [simplified])

text \<open>\<open>BTreeMap\<close>: the keys stay in ascending order.\<close>

type_synonym ('k, 'v) btree_map = "('k \<times> 'v) list"

fun bt_insert :: "'k::linorder \<Rightarrow> 'v \<Rightarrow> ('k, 'v) btree_map \<Rightarrow> ('k, 'v) btree_map" where
  "bt_insert k v [] = [(k, v)]"
| "bt_insert k v ((a, b) # m) =
     (if k < a then (k, v) # (a, b) # m
      else if k = a then (k, v) # m
      else (a, b) # bt_insert k v m)"

abbreviation bt_remove :: "'k::linorder \<Rightarrow> ('k, 'v) btree_map \<Rightarrow> ('k, 'v) btree_map" where
  "bt_remove \<equiv> AList.delete"

definition bt_inv :: "('k::linorder, 'v) btree_map \<Rightarrow> bool" where
  "bt_inv m \<longleftrightarrow> sorted_wrt (<) (map_keys m)"

lemma map_of_bt_insert: "map_of (bt_insert k v m) k' = (if k' = k then Some v else map_of m k')"
  by (induction k v m rule: bt_insert.induct) auto

lemma set_bt_insert: "set (map_keys (bt_insert k v m)) = {k} \<union> set (map_keys m)"
  by (induction k v m rule: bt_insert.induct) auto

lemma dom_bt_insert [simp]: "fst ` set (bt_insert k v m) = {k} \<union> fst ` set m"
  using set_bt_insert [of k v m] by simp

lemma set_bt_insert_subset: "set (bt_insert k v m) \<subseteq> {(k, v)} \<union> set m"
  by (induction k v m rule: bt_insert.induct) auto

lemma bt_inv_insert: "bt_inv m \<Longrightarrow> bt_inv (bt_insert k v m)"
  unfolding bt_inv_def
proof (induction k v m rule: bt_insert.induct)
  case (2 k v a b m)
  then show ?case using set_bt_insert [of k v m] by auto
qed simp

lemma bt_inv_remove: "bt_inv m \<Longrightarrow> bt_inv (bt_remove k m)"
  by (simp add: bt_inv_def AList.delete_eq sorted_wrt_map sorted_wrt_filter)

lemma bt_inv_empty: "bt_inv []"
  by (simp add: bt_inv_def)

lemma bt_inv_distinct: "bt_inv m \<Longrightarrow> distinct (map_keys m)"
  by (simp add: bt_inv_def strict_sorted_iff)

interpretation bt: ordered_map "[]" map_of bt_insert bt_remove map_keys bt_inv
proof unfold_locales
  show "\<And>m :: ('a \<times> 'b) list. bt_inv m \<Longrightarrow> sorted (map_keys m)"
    by (simp add: bt_inv_def strict_sorted_iff)
qed (auto simp: map_of_bt_insert bt_inv_empty delete_conv' bt_inv_distinct bt_inv_insert bt_inv_remove
      set_map_keys [simplified])

lemmas map_simps = hm.lookup_insert hm.lookup_remove bt.lookup_insert

text \<open>The first entry of a B-tree map (\<open>first_key_value\<close>), the last one
  (\<open>last_key_value\<close>).\<close>

lemma bt_inv_Cons:
  "bt_inv ((a, b) # m) \<longleftrightarrow> bt_inv m \<and> (\<forall>k \<in> set (map_keys m). a < k)"
  by (auto simp: bt_inv_def)

lemma bt_inv_Nil [simp]: "bt_inv []" "hm_inv []"
  by (simp_all add: bt_inv_def hm_inv_def)

lemma bt_remove_first:
  assumes "bt_inv ((a, b) # m)"
  shows "bt_remove a ((a, b) # m) = m"
proof -
  have "a \<notin> set (map_keys m)" using assms by (auto simp: bt_inv_Cons)
  then show ?thesis by simp
qed

lemma map_of_filter_keys:
  "distinct (map_keys m) \<Longrightarrow> map_of (filter P m) k =
    (case map_of m k of None \<Rightarrow> None | Some v \<Rightarrow> if P (k, v) then Some v else None)"
  by (induction m) (auto simp: map_of_eq_None_iff split: option.splits)

lemma map_of_filter_keysD:
  "distinct (map_keys m) \<Longrightarrow> map_of (filter P m) k = Some v \<Longrightarrow> map_of m k = Some v"
  by (auto simp: map_of_filter_keys split: option.splits if_splits)

lemma bt_inv_filter: "bt_inv m \<Longrightarrow> bt_inv (filter P m)"
  by (simp add: bt_inv_def sorted_wrt_map sorted_wrt_filter)

lemma bt_le_last: "bt_inv m \<Longrightarrow> k \<in> fst ` set m \<Longrightarrow> k \<le> fst (last m)"
proof (induction m)
  case (Cons a m)
  then show ?case by (cases a; cases "m = []") (auto simp: bt_inv_Cons intro: less_imp_le)
qed simp

lemma saturating_sub_mono: "a \<le> b \<Longrightarrow> saturating_sub a c \<le> saturating_sub b (c :: 'a::len word)"
  by (simp add: word_le_nat_alt)

end
