(* ===== verification/Observation.thy ===== *)
theory Observation
  imports Prelude
begin

text \<open>
  The message type every component consumes: \<open>EntryObservation\<close> of
  \<open>crates/entry-sources/src/observation.rs\<close>, one PoH entry as one of the two sources
  saw it.
\<close>

datatype source_kind = Yellowstone | ShredStream

record entry_observation =
  obs_source :: source_kind
  obs_observed_at :: instant
  obs_slot :: u64
  obs_entry_index :: u32
  obs_num_hashes :: u64
  obs_entry_hash :: hash
  obs_tx_count :: u32
  obs_signatures :: "signature list"
  obs_first_shred_at :: "instant option"
  obs_leader :: "pubkey option"

definition is_tick :: "entry_observation \<Rightarrow> bool" where
  "is_tick ob = (obs_tx_count ob = 0)"

text \<open>The deduplication key of the merger and of the comparator.\<close>

abbreviation obs_key :: "entry_observation \<Rightarrow> u64 \<times> hash" where
  "obs_key ob \<equiv> (obs_slot ob, obs_entry_hash ob)"

text \<open>Sample observations for the witnesses.\<close>

definition demo_obs :: "u64 \<Rightarrow> u32 \<Rightarrow> hash \<Rightarrow> u32 \<Rightarrow> entry_observation" where
  "demo_obs s i h n = \<lparr> obs_source = ShredStream, obs_observed_at = 0, obs_slot = s,
     obs_entry_index = i, obs_num_hashes = 62500, obs_entry_hash = h, obs_tx_count = n,
     obs_signatures = [], obs_first_shred_at = None, obs_leader = None \<rparr>"

end
