(* ===== verification/Correlator.thy ===== *)
theory Correlator
  imports Observation
begin

text \<open>
  \<open>crates/entry-comparator/src/correlator.rs\<close> and \<open>diff_record.rs\<close>: the thread that pairs the
  observations of the two sources by (slot, entry hash) and offers one comparison record per
  pair, or per observation whose partner did not come before the deadline.

  \<open>unreachable!\<close> and the two \<open>unwrap\<close>s are the result \<open>None\<close>. A turn is one round of the loop: the
  stop flag, what \<open>select!\<close> returns (the channel does not matter, \<open>handle\<close> reads the source from
  the observation) and the two clock readings. The leader lookup is a function of the slot.
\<close>

datatype diff_source = Both | YsOnly | SsOnly

definition diff_source_str :: "diff_source \<Rightarrow> string" where
  "diff_source_str s = (case s of Both \<Rightarrow> ''BOTH'' | YsOnly \<Rightarrow> ''YS_ONLY'' | SsOnly \<Rightarrow> ''SS_ONLY'')"

record diff_record =
  df_slot :: u64
  df_entry_index :: u32
  df_num_hashes :: u64
  df_source :: diff_source
  df_ys_observed_ns :: "u64 option"
  df_ss_first_shred_ns :: "u64 option"
  df_ss_fec_complete_ns :: "u64 option"
  df_ys_hash :: "hash option"
  df_ss_hash :: "hash option"
  df_ys_tx_count :: "u32 option"
  df_ss_tx_count :: "u32 option"
  df_hash_match :: bool
  df_sig_set_match :: "bool option"
  df_leader_pubkey :: "pubkey option"
  df_ys_signatures :: "signature list"
  df_ss_signatures :: "signature list"

record match_state =
  ms_yellowstone :: "entry_observation option"
  ms_shredstream :: "entry_observation option"
  ms_inserted_at :: instant

record correlator =
  co_map :: "(u64 \<times> hash, match_state) hash_map"
  co_diff_tx :: "diff_record chan"
  co_diff_dropped :: u64
  co_last_sweep :: instant

definition correlator_init :: "instant \<Rightarrow> correlator" where
  "correlator_init now = \<lparr> co_map = [], co_diff_tx = [], co_diff_dropped = 0, co_last_sweep = now \<rparr>"

section \<open>The comparison record\<close>

definition offset_ns :: "instant \<Rightarrow> instant \<Rightarrow> u64" where
  "offset_ns anchor t = of_nat (saturating_duration_since t anchor)"

definition source_of :: "entry_observation option \<Rightarrow> entry_observation option \<Rightarrow> diff_source option" where
  "source_of ys ss = (case (ys, ss) of
     (Some _, Some _) \<Rightarrow> Some Both | (Some _, None) \<Rightarrow> Some YsOnly | (None, Some _) \<Rightarrow> Some SsOnly
   | (None, None) \<Rightarrow> None)"

definition hashes_match :: "entry_observation option \<Rightarrow> entry_observation option \<Rightarrow> bool" where
  "hashes_match ys ss = (case (ys, ss) of
     (Some y, Some s) \<Rightarrow> obs_entry_hash y = obs_entry_hash s | _ \<Rightarrow> False)"

definition sigs_match :: "entry_observation option \<Rightarrow> entry_observation option \<Rightarrow> bool option" where
  "sigs_match ys ss = (case (ys, ss) of
     (Some y, Some s) \<Rightarrow> if obs_signatures y \<noteq> [] \<and> obs_signatures s \<noteq> []
       then Some (sort (obs_signatures y) = sort (obs_signatures s)) else None
   | _ \<Rightarrow> None)"

definition sigs_of :: "entry_observation option \<Rightarrow> signature list" where
  "sigs_of x = (case x of Some ob \<Rightarrow> obs_signatures ob | None \<Rightarrow> [])"

definition diff_of ::
  "(u64 \<Rightarrow> pubkey option) \<Rightarrow> instant \<Rightarrow> entry_observation option \<Rightarrow> entry_observation option \<Rightarrow> diff_record option" where
  "diff_of leader anchor ys ss = (case source_of ys ss of
     None \<Rightarrow> None
   | Some src \<Rightarrow> (let one = (case ys of Some y \<Rightarrow> y | None \<Rightarrow> the ss) in Some \<lparr>
       df_slot = obs_slot one, df_entry_index = obs_entry_index one,
       df_num_hashes = obs_num_hashes one, df_source = src,
       df_ys_observed_ns = map_option (\<lambda>y. offset_ns anchor (obs_observed_at y)) ys,
       df_ss_first_shred_ns = map_option (offset_ns anchor) (Option.bind ss obs_first_shred_at),
       df_ss_fec_complete_ns = map_option (\<lambda>s. offset_ns anchor (obs_observed_at s)) ss,
       df_ys_hash = map_option obs_entry_hash ys, df_ss_hash = map_option obs_entry_hash ss,
       df_ys_tx_count = map_option obs_tx_count ys, df_ss_tx_count = map_option obs_tx_count ss,
       df_hash_match = hashes_match ys ss, df_sig_set_match = sigs_match ys ss,
       df_leader_pubkey = leader (obs_slot one),
       df_ys_signatures = sigs_of ys, df_ss_signatures = sigs_of ss \<rparr>))"

definition emit_diff ::
  "diff_record accept \<Rightarrow> (u64 \<Rightarrow> pubkey option) \<Rightarrow> instant \<Rightarrow> match_state \<Rightarrow> correlator \<Rightarrow> correlator option" where
  "emit_diff acc leader anchor st co =
    (case diff_of leader anchor (ms_yellowstone st) (ms_shredstream st) of
       None \<Rightarrow> None
     | Some rec \<Rightarrow> (let (tx, ok) = try_send acc (co_diff_tx co) rec
         in Some (co\<lparr> co_diff_tx := tx, co_diff_dropped := (if ok then co_diff_dropped co else co_diff_dropped co + 1) \<rparr>)))"

section \<open>Handlers\<close>

definition store_obs :: "entry_observation \<Rightarrow> match_state \<Rightarrow> match_state" where
  "store_obs ob st = (case obs_source ob of
     Yellowstone \<Rightarrow> st\<lparr>ms_yellowstone := Some ob\<rparr> | ShredStream \<Rightarrow> st\<lparr>ms_shredstream := Some ob\<rparr>)"

definition emit_removed ::
  "diff_record accept \<Rightarrow> (u64 \<Rightarrow> pubkey option) \<Rightarrow> instant \<Rightarrow> u64 \<times> hash \<Rightarrow> correlator \<Rightarrow> correlator option" where
  "emit_removed acc leader anchor key co = (case map_of (co_map co) key of
     None \<Rightarrow> None
   | Some st \<Rightarrow> emit_diff acc leader anchor st (co\<lparr>co_map := hm_remove key (co_map co)\<rparr>))"

definition handle_obs ::
  "diff_record accept \<Rightarrow> (u64 \<Rightarrow> pubkey option) \<Rightarrow> instant \<Rightarrow> instant \<Rightarrow> entry_observation \<Rightarrow> correlator \<Rightarrow> correlator option" where
  "handle_obs acc leader anchor now ob co =
    (let key = obs_key ob;
         st = (case map_of (co_map co) key of Some st \<Rightarrow> st
           | None \<Rightarrow> \<lparr> ms_yellowstone = None, ms_shredstream = None, ms_inserted_at = now \<rparr>);
         st1 = store_obs ob st;
         co1 = co\<lparr>co_map := hm_insert key st1 (co_map co)\<rparr>
     in if ms_yellowstone st1 \<noteq> None \<and> ms_shredstream st1 \<noteq> None
        then emit_removed acc leader anchor key co1 else Some co1)"

definition expired_keys :: "instant \<Rightarrow> duration \<Rightarrow> correlator \<Rightarrow> (u64 \<times> hash) list" where
  "expired_keys now deadline co =
    map fst (filter (\<lambda>(_, st). deadline \<le> saturating_duration_since now (ms_inserted_at st)) (co_map co))"

definition corr_sweep ::
  "diff_record accept \<Rightarrow> (u64 \<Rightarrow> pubkey option) \<Rightarrow> instant \<Rightarrow> instant \<Rightarrow> duration \<Rightarrow> correlator \<Rightarrow> correlator option" where
  "corr_sweep acc leader anchor now deadline co =
    fold (\<lambda>key r. Option.bind r (emit_removed acc leader anchor key)) (expired_keys now deadline co) (Some co)"

section \<open>The loop\<close>

datatype corr_input = CorrObs entry_observation | CorrIdle | CorrStop | CorrDisconnected

record corr_turn =
  ct_input :: corr_input
  ct_insert_at :: instant
  ct_now :: instant

definition maybe_corr_sweep ::
  "diff_record accept \<Rightarrow> (u64 \<Rightarrow> pubkey option) \<Rightarrow> instant \<Rightarrow> duration \<Rightarrow> instant \<Rightarrow> correlator \<Rightarrow> correlator option" where
  "maybe_corr_sweep acc leader anchor deadline now co =
    (if 250000000 < saturating_duration_since now (co_last_sweep co)
     then map_option (\<lambda>c. c\<lparr>co_last_sweep := now\<rparr>) (corr_sweep acc leader anchor now deadline co)
     else Some co)"

fun correlator_loop ::
  "diff_record accept \<Rightarrow> (u64 \<Rightarrow> pubkey option) \<Rightarrow> instant \<Rightarrow> duration \<Rightarrow> corr_turn list \<Rightarrow> correlator \<Rightarrow> correlator option" where
  "correlator_loop acc leader anchor deadline [] co = Some co"
| "correlator_loop acc leader anchor deadline (t # ts) co = (case ct_input t of
     CorrStop \<Rightarrow> Some co
   | CorrDisconnected \<Rightarrow> Some co
   | CorrIdle \<Rightarrow> Option.bind (maybe_corr_sweep acc leader anchor deadline (ct_now t) co)
       (correlator_loop acc leader anchor deadline ts)
   | CorrObs ob \<Rightarrow> Option.bind (handle_obs acc leader anchor (ct_insert_at t) ob co)
       (\<lambda>c. Option.bind (maybe_corr_sweep acc leader anchor deadline (ct_now t) c)
         (correlator_loop acc leader anchor deadline ts)))"

definition correlator_run ::
  "diff_record accept \<Rightarrow> (u64 \<Rightarrow> pubkey option) \<Rightarrow> instant \<Rightarrow> duration \<Rightarrow> instant \<Rightarrow> corr_turn list \<Rightarrow> instant \<Rightarrow> correlator option" where
  "correlator_run acc leader anchor deadline start ts final =
    Option.bind (correlator_loop acc leader anchor deadline ts (correlator_init start))
      (corr_sweep acc leader anchor final 0)"

text \<open>The observations taken before the loop ends.\<close>

fun corr_received :: "corr_turn list \<Rightarrow> entry_observation list" where
  "corr_received [] = []"
| "corr_received (t # ts) = (case ct_input t of
     CorrStop \<Rightarrow> [] | CorrDisconnected \<Rightarrow> [] | CorrIdle \<Rightarrow> corr_received ts
   | CorrObs ob \<Rightarrow> ob # corr_received ts)"

end
