(* ===== verification/Map_Counts.thy ===== *)
theory Map_Counts
  imports Prelude "HOL-Library.Multiset"
begin

text \<open>
  Hash maps as multisets of entries: what removing and inserting does to the content, for the
  proofs that count what a component holds.
\<close>

lemma mset_remove_entry:
  assumes "hm_inv m" "map_of m k = Some v"
  shows "mset m = add_mset (k, v) (mset (hm_remove k m))"
  using assms
proof (induction m)
  case (Cons a m)
  obtain k' v' where a: "a = (k', v')" by (cases a)
  have d: "hm_inv m" "k' \<notin> set (map_keys m)" using Cons.prems a by (simp_all add: hm_inv_def)
  show ?case
  proof (cases "k' = k")
    case True
    then have "hm_remove k m = m" using d by simp
    then show ?thesis using True a Cons.prems by simp
  next
    case False
    then show ?thesis using Cons a d by simp
  qed
qed simp

lemma mset_insert_new: "map_of m k = None \<Longrightarrow> mset (hm_insert k v m) = add_mset (k, v) (mset m)"
  by (induction m) (auto split: if_splits)

lemma mset_insert_old:
  assumes "hm_inv m" "map_of m k = Some u"
  shows "mset (hm_insert k v m) = add_mset (k, v) (mset (hm_remove k m))"
proof -
  have "hm_remove k (hm_insert k v m) = hm_remove k m"
    by (induction m) auto
  moreover have "hm_inv (hm_insert k v m)" "map_of (hm_insert k v m) k = Some v"
    using hm.invar_insert [OF assms(1)] hm.lookup_insert [of k v m k] by simp_all
  ultimately show ?thesis using mset_remove_entry [of "hm_insert k v m" k v] by simp
qed

lemma map_of_entries:
  "hm_inv m \<Longrightarrow> map (\<lambda>k. (k, the (map_of m k))) (map_keys m) = m"
proof -
  assume "hm_inv m"
  then have "map (\<lambda>x. (fst x, the (map_of m (fst x)))) m = map id m"
    by (intro map_cong) (auto simp: hm_inv_def)
  then show ?thesis by (simp add: comp_def)
qed

lemma hm_remove_all: "fold hm_remove (map_keys m) m = ([] :: ('k, 'v) hash_map)"
proof -
  have "set (map_keys (fold hm_remove (map_keys m) m)) = ({} :: 'k set)"
    by (simp add: hm.lookup_fold_remove set_map_keys [simplified])
  then show ?thesis by simp
qed

lemma remove_absent: "map_of m k = None \<Longrightarrow> hm_remove k m = m"
  by (induction m) (auto split: if_splits)

lemma remove_insert [simp]: "hm_remove k (hm_insert k v m) = hm_remove k m"
  by (induction m) auto

lemma mset_insert_entry:
  assumes "hm_inv m"
  shows "mset (hm_insert k v m) = add_mset (k, v) (mset (hm_remove k m))"
proof (cases "map_of m k")
  case None
  then show ?thesis by (simp only: mset_insert_new remove_absent)
next
  case (Some u)
  show ?thesis by (rule mset_insert_old [OF assms Some])
qed

lemma mset_remove_entries:
  "hm_inv m \<Longrightarrow> distinct ks \<Longrightarrow> set ks \<subseteq> dom (map_of m) \<Longrightarrow>
    mset m = mset (map (\<lambda>k. (k, the (map_of m k))) ks) + mset (fold hm_remove ks m)"
proof (induction ks arbitrary: m)
  case (Cons k ks)
  obtain v where v: "map_of m k = Some v" using Cons.prems(3) by auto
  let ?m = "hm_remove k m"
  have "set ks \<subseteq> dom (map_of ?m)" using Cons.prems(2,3) by (auto simp: hm.lookup_remove dom_def)
  then have "mset ?m = mset (map (\<lambda>k. (k, the (map_of ?m k))) ks) + mset (fold hm_remove ks ?m)"
    using Cons.IH [of ?m] Cons.prems(1,2) by (simp add: hm.invar_remove)
  moreover have "map (\<lambda>k. (k, the (map_of ?m k))) ks = map (\<lambda>k. (k, the (map_of m k))) ks"
    using Cons.prems(2) by (auto simp: hm.lookup_remove)
  ultimately show ?case using mset_remove_entry [OF Cons.prems(1) v] v by simp
qed simp

lemma set_update_subset: "set (hm_insert k v m) \<subseteq> insert (k, v) (set m)"
  by (induction m) auto

end
