(* ===== verification/Correlator_Props.thy ===== *)
theory Correlator_Props
  imports Correlator Map_Counts
begin

text \<open>
  Properties of the correlator. \<open>typed\<close> is the invariant of its table: an entry holds exactly one
  observation, of the source and the key it is stored under; with it no turn reaches
  \<open>unreachable!\<close> or a failing \<open>unwrap\<close>. \<open>ledger\<close> says which observations the emitted pairs and
  the table hold; from it the records are the full outer join of the two sources.
\<close>

section \<open>The table is well typed\<close>

definition typed_state :: "u64 \<times> hash \<Rightarrow> match_state \<Rightarrow> bool" where
  "typed_state key st \<longleftrightarrow>
    (\<forall>y. ms_yellowstone st = Some y \<longrightarrow> obs_source y = Yellowstone \<and> obs_key y = key) \<and>
    (\<forall>s. ms_shredstream st = Some s \<longrightarrow> obs_source s = ShredStream \<and> obs_key s = key)"

definition half :: "match_state \<Rightarrow> bool" where
  "half st \<longleftrightarrow> (ms_yellowstone st = None) \<noteq> (ms_shredstream st = None)"

definition typed :: "correlator \<Rightarrow> bool" where
  "typed co \<longleftrightarrow> hm_inv (co_map co) \<and>
    (\<forall>key st. map_of (co_map co) key = Some st \<longrightarrow> typed_state key st \<and> half st)"

lemma typedD:
  assumes "typed co" "map_of (co_map co) key = Some st"
  shows "typed_state key st" "half st"
  using assms unfolding typed_def by blast+

definition record_for :: "(u64 \<Rightarrow> pubkey option) \<Rightarrow> instant \<Rightarrow> match_state \<Rightarrow> diff_record" where
  "record_for leader anchor st = the (diff_of leader anchor (ms_yellowstone st) (ms_shredstream st))"

definition offered :: "correlator \<Rightarrow> diff_record list" where
  "offered co = attempts (co_diff_tx co)"

lemma diff_of_some:
  "ms_yellowstone st \<noteq> None \<or> ms_shredstream st \<noteq> None \<Longrightarrow>
    diff_of leader anchor (ms_yellowstone st) (ms_shredstream st) = Some (record_for leader anchor st)"
  by (auto simp: record_for_def diff_of_def source_of_def split: option.splits)

lemma typed_init: "typed (correlator_init now)"
  by (simp add: typed_def correlator_init_def)

text \<open>Emitting an entry of the table.\<close>

lemma emit_removed_some:
  assumes "map_of (co_map co) key = Some st" "ms_yellowstone st \<noteq> None \<or> ms_shredstream st \<noteq> None"
  shows "\<exists>co'. emit_removed acc leader anchor key co = Some co' \<and>
    co_map co' = hm_remove key (co_map co) \<and> offered co' = offered co @ [record_for leader anchor st] \<and>
    co_last_sweep co' = co_last_sweep co"
  using assms(1) diff_of_some [OF assms(2)]
  by (simp add: emit_removed_def emit_diff_def try_send_def offered_def)

lemma emit_keys_some:
  assumes "typed co" "distinct ks" "set ks \<subseteq> dom (map_of (co_map co))"
  shows "\<exists>co'. fold (\<lambda>key r. Option.bind r (emit_removed acc leader anchor key)) ks (Some co) = Some co' \<and>
    co_map co' = fold hm_remove ks (co_map co) \<and>
    offered co' = offered co @ map (\<lambda>k. record_for leader anchor (the (map_of (co_map co) k))) ks \<and>
    co_last_sweep co' = co_last_sweep co"
  using assms
proof (induction ks arbitrary: co)
  case (Cons k ks)
  obtain st where st: "map_of (co_map co) k = Some st" using Cons.prems(3) by auto
  then have "half st" using Cons.prems(1) by (rule typedD(2) [rotated])
  then obtain c where c: "emit_removed acc leader anchor k co = Some c" "co_map c = hm_remove k (co_map co)"
    "offered c = offered co @ [record_for leader anchor st]" "co_last_sweep c = co_last_sweep co"
    using emit_removed_some [OF st, where acc = acc and leader = leader and anchor = anchor] by (auto simp: half_def)
  have "typed c" using Cons.prems(1) c(2) by (auto simp: typed_def hm.invar_remove hm.lookup_remove)
  moreover have "set ks \<subseteq> dom (map_of (co_map c))"
    using Cons.prems(2,3) c(2) by (auto simp: hm.lookup_remove dom_def)
  ultimately obtain co' where co': "fold (\<lambda>key r. Option.bind r (emit_removed acc leader anchor key)) ks (Some c) = Some co'"
    "co_map co' = fold hm_remove ks (co_map c)" "co_last_sweep co' = co_last_sweep c"
    "offered co' = offered c @ map (\<lambda>k. record_for leader anchor (the (map_of (co_map c) k))) ks"
    using Cons.IH [of c] Cons.prems(2) by auto
  have "map (\<lambda>k. record_for leader anchor (the (map_of (co_map c) k))) ks =
      map (\<lambda>k. record_for leader anchor (the (map_of (co_map co) k))) ks"
    using Cons.prems(2) c(2) by (auto simp: hm.lookup_remove)
  then show ?case using c st co' by simp
qed simp

lemma expired_keys_ok:
  assumes "typed co"
  shows "distinct (expired_keys now d co)" "set (expired_keys now d co) \<subseteq> dom (map_of (co_map co))"
  using assms
  by (auto simp: typed_def hm_inv_def expired_keys_def distinct_map_filter dom_def map_of_eq_None_iff intro: rev_image_eqI)

lemma sweep_some:
  assumes "typed co"
  shows "\<exists>co'. corr_sweep acc leader anchor now d co = Some co' \<and> typed co' \<and>
    co_map co' = fold hm_remove (expired_keys now d co) (co_map co) \<and>
    offered co' = offered co @ map (\<lambda>k. record_for leader anchor (the (map_of (co_map co) k))) (expired_keys now d co) \<and>
    co_last_sweep co' = co_last_sweep co"
proof -
  obtain co' where co': "corr_sweep acc leader anchor now d co = Some co'"
    "co_map co' = fold hm_remove (expired_keys now d co) (co_map co)"
    "offered co' = offered co @ map (\<lambda>k. record_for leader anchor (the (map_of (co_map co) k))) (expired_keys now d co)"
    "co_last_sweep co' = co_last_sweep co"
    using emit_keys_some [OF assms expired_keys_ok [OF assms], where acc = acc and leader = leader and anchor = anchor and d1 = d]
    unfolding corr_sweep_def by auto
  moreover have "typed co'"
    using assms co'(2) by (auto simp: typed_def hm.lookup_fold_remove hm.invar_fold_remove split: if_splits)
  ultimately show ?thesis by blast
qed

lemma typed_store:
  assumes "typed_state (obs_key ob) st"
  shows "typed_state (obs_key ob) (store_obs ob st)"
  using assms by (auto simp: typed_state_def store_obs_def split: source_kind.splits)

lemma store_obs_present: "ms_yellowstone (store_obs ob st) \<noteq> None \<or> ms_shredstream (store_obs ob st) \<noteq> None"
  by (simp add: store_obs_def split: source_kind.splits)

text \<open>The entry \<open>handle\<close> works on, and what it does to the table and the channel.\<close>

definition entry_at :: "instant \<Rightarrow> u64 \<times> hash \<Rightarrow> correlator \<Rightarrow> match_state" where
  "entry_at now key co = (case map_of (co_map co) key of Some st \<Rightarrow> st
     | None \<Rightarrow> \<lparr> ms_yellowstone = None, ms_shredstream = None, ms_inserted_at = now \<rparr>)"

lemma typed_entry_at: "typed co \<Longrightarrow> typed_state key (entry_at now key co)"
  by (auto simp: entry_at_def typed_state_def split: option.splits dest: typedD(1))

definition full :: "match_state \<Rightarrow> bool" where
  "full st \<longleftrightarrow> ms_yellowstone st \<noteq> None \<and> ms_shredstream st \<noteq> None"

lemma handle_some:
  fixes now :: instant and ob :: entry_observation
  assumes "typed co"
  defines "st \<equiv> store_obs ob (entry_at now (obs_key ob) co)"
  shows "\<exists>co'. handle_obs acc leader anchor now ob co = Some co' \<and> typed co' \<and>
    co_map co' = (if full st then hm_remove (obs_key ob) (co_map co) else hm_insert (obs_key ob) st (co_map co)) \<and>
    offered co' = (if full st then offered co @ [record_for leader anchor st] else offered co)"
proof -
  define co1 where "co1 = co\<lparr>co_map := hm_insert (obs_key ob) st (co_map co)\<rparr>"
  have h: "handle_obs acc leader anchor now ob co =
      (if full st then emit_removed acc leader anchor (obs_key ob) co1 else Some co1)"
    by (simp add: handle_obs_def Let_def st_def entry_at_def co1_def full_def)
  have ts: "typed_state (obs_key ob) st"
    unfolding st_def by (rule typed_store [OF typed_entry_at [OF assms(1)]])
  show ?thesis
  proof (cases "full st")
    case True
    have "map_of (co_map co1) (obs_key ob) = Some st" by (simp add: co1_def hm.lookup_insert del: prod.inject)
    then obtain co' where co': "emit_removed acc leader anchor (obs_key ob) co1 = Some co'"
      "co_map co' = hm_remove (obs_key ob) (co_map co1)" "offered co' = offered co1 @ [record_for leader anchor st]"
      using emit_removed_some [where acc = acc and leader = leader and anchor = anchor, of co1 "obs_key ob" st] True
      by (auto simp: full_def)
    have "typed co'" using assms(1) co'(2) by (auto simp: typed_def co1_def hm.invar_remove hm.lookup_remove)
    then show ?thesis using h True co' by (simp add: co1_def offered_def)
  next
    case False
    moreover have "ms_yellowstone st \<noteq> None \<or> ms_shredstream st \<noteq> None"
      unfolding st_def by (rule store_obs_present)
    ultimately have "half st" by (auto simp: half_def full_def)
    then have "typed co1" using assms(1) ts by (auto simp: typed_def co1_def hm.invar_insert hm.lookup_insert)
    then show ?thesis using h False by (simp add: co1_def offered_def)
  qed
qed

lemma maybe_sweep_some:
  assumes "typed co"
  shows "\<exists>co'. maybe_corr_sweep acc leader anchor d now co = Some co' \<and> typed co'"
  using sweep_some [OF assms, where now = now and d = d and acc = acc and leader = leader and anchor = anchor] assms
  by (auto simp: maybe_corr_sweep_def typed_def)

section \<open>Well-typed records\<close>

definition typed_record :: "diff_record \<Rightarrow> bool" where
  "typed_record r \<longleftrightarrow>
    (df_ys_hash r \<noteq> None \<longleftrightarrow> df_source r \<noteq> SsOnly) \<and> (df_ss_hash r \<noteq> None \<longleftrightarrow> df_source r \<noteq> YsOnly) \<and>
    (df_ys_observed_ns r \<noteq> None \<longleftrightarrow> df_source r \<noteq> SsOnly) \<and> (df_ss_fec_complete_ns r \<noteq> None \<longleftrightarrow> df_source r \<noteq> YsOnly) \<and>
    (df_ss_first_shred_ns r \<noteq> None \<longrightarrow> df_source r \<noteq> YsOnly) \<and> (df_sig_set_match r \<noteq> None \<longrightarrow> df_source r = Both) \<and>
    (df_hash_match r \<longleftrightarrow> df_source r = Both)"

lemma typed_record_for:
  assumes "typed_state key st" "ms_yellowstone st \<noteq> None \<or> ms_shredstream st \<noteq> None"
  shows "typed_record (record_for leader anchor st)"
  using assms
  by (cases "ms_yellowstone st"; cases "ms_shredstream st")
    (auto simp: record_for_def diff_of_def source_of_def typed_record_def typed_state_def hashes_match_def sigs_match_def)

definition typed_run :: "correlator \<Rightarrow> bool" where
  "typed_run co \<longleftrightarrow> typed co \<and> list_all typed_record (offered co)"

lemma typed_run_sweep:
  assumes "typed_run co" "corr_sweep acc leader anchor now d co = Some co'"
  shows "typed_run co'"
proof -
  have t: "typed co" using assms(1) by (simp add: typed_run_def)
  have "typed_record (record_for leader anchor (the (map_of (co_map co) k)))" if k: "k \<in> set (expired_keys now d co)" for k
  proof -
    obtain st where "map_of (co_map co) k = Some st" using k expired_keys_ok(2) [OF t] by blast
    then have "typed_state k st" "half st" "the (map_of (co_map co) k) = st" using typedD [OF t] by auto
    then show ?thesis using typed_record_for [of k st] by (auto simp: half_def)
  qed
  then show ?thesis
    using sweep_some [OF t, where now = now and d = d and acc = acc and leader = leader and anchor = anchor] assms
    by (auto simp: typed_run_def list_all_iff)
qed

lemma typed_run_handle:
  assumes "typed_run co" "handle_obs acc leader anchor now ob co = Some co'"
  shows "typed_run co'"
proof -
  have t: "typed co" using assms(1) by (simp add: typed_run_def)
  have "typed_record (record_for leader anchor (store_obs ob (entry_at now (obs_key ob) co)))"
    by (rule typed_record_for [OF typed_store [OF typed_entry_at [OF t]]]) (rule store_obs_present)
  then show ?thesis
    using handle_some [OF t, where now = now and ob = ob and acc = acc and leader = leader and anchor = anchor] assms
    by (auto simp: typed_run_def split: if_splits)
qed

lemma typed_run_maybe:
  "typed_run co \<Longrightarrow> maybe_corr_sweep acc leader anchor d now co = Some co' \<Longrightarrow> typed_run co'"
  using typed_run_sweep [where co = co and now = now and d = d and acc = acc and leader = leader and anchor = anchor]
  by (fastforce simp: maybe_corr_sweep_def typed_run_def typed_def offered_def split: if_splits)

lemma typed_run_loop:
  "typed_run co \<Longrightarrow> \<exists>co'. correlator_loop acc leader anchor d ts co = Some co' \<and> typed_run co'"
proof (induction ts arbitrary: co)
  case (Cons t ts)
  have t: "typed c \<and> typed_run c" if "typed_run c" for c using that by (simp add: typed_run_def)
  have step: "\<exists>co'. Option.bind (maybe_corr_sweep acc leader anchor d (ct_now t) c)
      (correlator_loop acc leader anchor d ts) = Some co' \<and> typed_run co'" if c: "typed_run c" for c
  proof -
    obtain c' where "maybe_corr_sweep acc leader anchor d (ct_now t) c = Some c'"
      using maybe_sweep_some t [OF c] by blast
    then show ?thesis using Cons.IH typed_run_maybe [OF c] by simp
  qed
  show ?case
  proof (cases "ct_input t")
    case (CorrObs ob)
    obtain c where "handle_obs acc leader anchor (ct_insert_at t) ob co = Some c"
      using handle_some t [OF Cons.prems] by blast
    then show ?thesis using CorrObs step typed_run_handle [OF Cons.prems] by simp
  qed (use Cons.prems step in auto)
qed simp

lemma expired_all: "expired_keys now 0 co = map_keys (co_map co)"
  by (simp add: expired_keys_def case_prod_unfold)

lemma run_some:
  "\<exists>co. correlator_run acc leader anchor deadline start ts final = Some co \<and> co_map co = [] \<and>
     list_all typed_record (offered co)"
proof -
  have "typed_run (correlator_init start)"
    by (simp add: typed_run_def typed_init) (simp add: correlator_init_def offered_def)
  then obtain c where c: "correlator_loop acc leader anchor deadline ts (correlator_init start) = Some c" "typed_run c"
    using typed_run_loop by blast
  then have "typed c" by (simp add: typed_run_def)
  then obtain co where co: "corr_sweep acc leader anchor final 0 c = Some co"
    "co_map co = fold hm_remove (expired_keys final 0 c) (co_map c)"
    using sweep_some by blast
  moreover have "typed_run co" using typed_run_sweep [OF c(2) co(1)] .
  ultimately show ?thesis using c by (simp add: correlator_run_def expired_all hm_remove_all typed_run_def)
qed

lemma run_typed:
  "correlator_run acc leader anchor deadline start ts final = Some co \<Longrightarrow> list_all typed_record (offered co)"
  using run_some [of acc leader anchor deadline start ts final] by auto

text \<open>C20: The correlator never reaches \<open>unreachable!\<close> or a failing \<open>unwrap\<close>: every run ends with a
  result. Its table is then empty, and every record it offered is well typed: the columns of a
  source are present exactly when the record names that source. In particular \<open>hash_match\<close> holds
  in every record of both sources.\<close>
theorem correlator_never_stuck:
  "\<exists>co. correlator_run acc leader anchor deadline start ts final = Some co \<and> co_map co = [] \<and>
     list_all typed_record (offered co)"
  by (rule run_some)

section \<open>What the pairs and the table hold\<close>

definition members :: "match_state \<Rightarrow> entry_observation list" where
  "members st = (case ms_yellowstone st of Some y \<Rightarrow> [y] | None \<Rightarrow> []) @
     (case ms_shredstream st of Some s \<Rightarrow> [s] | None \<Rightarrow> [])"

definition obs_tag :: "entry_observation \<Rightarrow> source_kind \<times> u64 \<times> hash" where
  "obs_tag ob = (obs_source ob, obs_key ob)"

type_synonym keyed = "(u64 \<times> hash) \<times> match_state"

definition held :: "keyed list \<Rightarrow> entry_observation list" where
  "held es = concat (map (members \<circ> snd) es)"

lemma held_simps [simp]: "held [] = []" "held (es @ fs) = held es @ held fs" "held (e # es) = members (snd e) @ held es"
  by (simp_all add: held_def)

lemma set_held: "set (held es) = (\<Union>e \<in> set es. set (members (snd e)))"
  by (auto simp: held_def)

lemma mset_held: "mset (held es) = \<Sum>\<^sub># (image_mset (mset \<circ> members \<circ> snd) (mset es))"
  by (induction es) (auto simp: held_def)

lemma set_members: "ob \<in> set (members st) \<longleftrightarrow> ms_yellowstone st = Some ob \<or> ms_shredstream st = Some ob"
  by (auto simp: members_def split: option.splits)

lemma typed_member: "typed_state key st \<Longrightarrow> ob \<in> set (members st) \<Longrightarrow> obs_key ob = key"
  by (auto simp: set_members typed_state_def)

definition keyed_ok :: "keyed \<Rightarrow> bool" where
  "keyed_ok e \<longleftrightarrow> typed_state (fst e) (snd e) \<and> members (snd e) \<noteq> []"

definition ledger ::
  "(u64 \<Rightarrow> pubkey option) \<Rightarrow> instant \<Rightarrow> keyed list \<Rightarrow> entry_observation list \<Rightarrow> correlator \<Rightarrow> bool" where
  "ledger leader anchor ps os co \<longleftrightarrow> typed co \<and> offered co = map (record_for leader anchor \<circ> snd) ps \<and>
     list_all keyed_ok ps \<and> mset (held (ps @ co_map co)) = mset os"

lemma mset_held_removed:
  assumes "typed co"
  shows "mset (held (co_map co)) = mset (members (entry_at now key co)) + mset (held (hm_remove key (co_map co)))"
proof (cases "map_of (co_map co) key")
  case None
  then show ?thesis by (simp add: entry_at_def members_def remove_absent)
next
  case (Some st)
  moreover have "hm_inv (co_map co)" using assms by (simp add: typed_def)
  ultimately show ?thesis by (simp add: mset_held mset_remove_entry entry_at_def)
qed

lemma members_stored:
  assumes "typed_state (obs_key ob) st" "obs_tag ob \<notin> obs_tag ` set (members st)"
  shows "mset (members (store_obs ob st)) = add_mset ob (mset (members st))"
  using assms
  by (cases "obs_source ob"; cases "ms_yellowstone st"; cases "ms_shredstream st")
    (auto simp: members_def store_obs_def typed_state_def obs_tag_def)

lemma ledger_handle:
  fixes now :: instant
  assumes l: "ledger leader anchor ps os co" and d: "distinct (map obs_tag (os @ [ob]))"
  defines "st \<equiv> store_obs ob (entry_at now (obs_key ob) co)"
  shows "\<exists>co'. handle_obs acc leader anchor now ob co = Some co' \<and>
    ledger leader anchor (if full st then ps @ [(obs_key ob, st)] else ps) (os @ [ob]) co' \<and>
    co_map co' = (if full st then hm_remove (obs_key ob) (co_map co) else hm_insert (obs_key ob) st (co_map co))"
proof -
  have t: "typed co" and inv: "hm_inv (co_map co)" and ms: "mset (held (ps @ co_map co)) = mset os"
    using l by (simp_all add: ledger_def typed_def)
  have te: "typed_state (obs_key ob) (entry_at now (obs_key ob) co)" by (rule typed_entry_at [OF t])
  have "set (held (co_map co)) = set (members (entry_at now (obs_key ob) co)) \<union> set (held (hm_remove (obs_key ob) (co_map co)))"
    using arg_cong [OF mset_held_removed [OF t, of now "obs_key ob"], of set_mset] by simp
  then have "set (members (entry_at now (obs_key ob) co)) \<subseteq> set os"
    using mset_eq_setD [OF ms] by auto
  then have "obs_tag ob \<notin> obs_tag ` set (members (entry_at now (obs_key ob) co))" using d by auto
  then have stored: "mset (members st) = add_mset ob (mset (members (entry_at now (obs_key ob) co)))"
    unfolding st_def by (rule members_stored [OF te])
  have ok: "keyed_ok (obs_key ob, st)"
    using typed_store [OF te] stored by (auto simp: keyed_ok_def st_def)
  have total: "mset (held ps) + mset (members st) + mset (held (hm_remove (obs_key ob) (co_map co))) = add_mset ob (mset os)"
    using ms stored mset_held_removed [OF t, of now "obs_key ob"] by (simp add: ac_simps)
  obtain co' where co': "handle_obs acc leader anchor now ob co = Some co'" "typed co'"
    "co_map co' = (if full st then hm_remove (obs_key ob) (co_map co) else hm_insert (obs_key ob) st (co_map co))"
    "offered co' = (if full st then offered co @ [record_for leader anchor st] else offered co)"
    using handle_some [OF t, where now = now and ob = ob and acc = acc and leader = leader and anchor = anchor]
    unfolding st_def by blast
  have "mset (held (co_map co')) = mset (held (hm_remove (obs_key ob) (co_map co))) + (if full st then {#} else mset (members st))"
    using co'(3) by (simp add: mset_held mset_insert_entry [OF inv])
  then have "ledger leader anchor (if full st then ps @ [(obs_key ob, st)] else ps) (os @ [ob]) co'"
    using l co' ok total by (auto simp: ledger_def ac_simps)
  with co' show ?thesis by blast
qed

lemma ledger_sweep:
  assumes "ledger leader anchor ps os co"
  shows "\<exists>co'. corr_sweep acc leader anchor now d co = Some co' \<and>
    ledger leader anchor (ps @ map (\<lambda>k. (k, the (map_of (co_map co) k))) (expired_keys now d co)) os co' \<and>
    co_map co' = fold hm_remove (expired_keys now d co) (co_map co)"
proof -
  let ?ks = "expired_keys now d co"
  have t: "typed co" and inv: "hm_inv (co_map co)" using assms by (simp_all add: ledger_def typed_def)
  obtain co' where co': "corr_sweep acc leader anchor now d co = Some co'" "typed co'"
    "co_map co' = fold hm_remove ?ks (co_map co)"
    "offered co' = offered co @ map (\<lambda>k. record_for leader anchor (the (map_of (co_map co) k))) ?ks"
    using sweep_some [OF t] by blast
  have ok: "keyed_ok (k, the (map_of (co_map co) k))" if k: "k \<in> set ?ks" for k
  proof -
    obtain st where st: "map_of (co_map co) k = Some st" using k expired_keys_ok(2) [OF t] by blast
    then have "typed_state k st" "half st" using typedD [OF t] by auto
    then show ?thesis using st by (auto simp: keyed_ok_def half_def members_def)
  qed
  have "mset (co_map co) = mset (map (\<lambda>k. (k, the (map_of (co_map co) k))) ?ks) + mset (co_map co')"
    unfolding co'(3) by (rule mset_remove_entries [OF inv expired_keys_ok [OF t]])
  then have "mset (held (co_map co)) = mset (held (map (\<lambda>k. (k, the (map_of (co_map co) k))) ?ks)) + mset (held (co_map co'))"
    by (simp add: mset_held)
  then have "ledger leader anchor (ps @ map (\<lambda>k. (k, the (map_of (co_map co) k))) ?ks) os co'"
    using assms co' ok by (auto simp: ledger_def list_all_iff)
  with co' show ?thesis by blast
qed

lemma ledger_maybe:
  assumes "ledger leader anchor ps os co"
  shows "\<exists>qs co'. maybe_corr_sweep acc leader anchor d now co = Some co' \<and> ledger leader anchor qs os co'"
proof (cases "250000000 < saturating_duration_since now (co_last_sweep co)")
  case True
  obtain qs c where c: "corr_sweep acc leader anchor now d co = Some c" "ledger leader anchor qs os c"
    using ledger_sweep [OF assms] by blast
  then have "ledger leader anchor qs os (c\<lparr>co_last_sweep := now\<rparr>)"
    by (simp add: ledger_def typed_def offered_def)
  then show ?thesis using True c(1) by (auto simp: maybe_corr_sweep_def)
next
  case False
  then show ?thesis using assms by (auto simp: maybe_corr_sweep_def)
qed

lemma ledger_loop:
  "ledger leader anchor ps os co \<Longrightarrow> distinct (map obs_tag (os @ corr_received ts)) \<Longrightarrow>
    \<exists>qs co'. correlator_loop acc leader anchor d ts co = Some co' \<and>
      ledger leader anchor qs (os @ corr_received ts) co'"
proof (induction ts arbitrary: ps os co)
  case (Cons t ts)
  have step: "\<exists>qs co'. Option.bind (maybe_corr_sweep acc leader anchor d (ct_now t) c)
      (correlator_loop acc leader anchor d ts) = Some co' \<and> ledger leader anchor qs (os' @ corr_received ts) co'"
    if c: "ledger leader anchor ps' os' c" "distinct (map obs_tag (os' @ corr_received ts))" for ps' os' c
  proof -
    obtain qs c' where "maybe_corr_sweep acc leader anchor d (ct_now t) c = Some c'" "ledger leader anchor qs os' c'"
      using ledger_maybe [OF c(1)] by blast
    then show ?thesis using Cons.IH c(2) by simp
  qed
  show ?case
  proof (cases "ct_input t")
    case (CorrObs ob)
    have d: "distinct (map obs_tag (os @ [ob]))" "distinct (map obs_tag ((os @ [ob]) @ corr_received ts))"
      using Cons.prems(2) CorrObs by auto
    obtain qs c where "handle_obs acc leader anchor (ct_insert_at t) ob co = Some c" "ledger leader anchor qs (os @ [ob]) c"
      using ledger_handle [OF Cons.prems(1) d(1)] by blast
    then show ?thesis using CorrObs step [of qs "os @ [ob]" c] d(2) by simp
  qed (use Cons.prems step in auto)
qed auto

lemma ledger_init: "ledger leader anchor [] [] (correlator_init start)"
  by (simp add: ledger_def typed_init) (simp add: correlator_init_def offered_def)

text \<open>When no source reports an entry twice, every observation the correlator took is in exactly
  one offered record: the records come from groups of observations of one entry each, of at most
  one observation per source, and the groups together are the received observations.\<close>
theorem correlator_partitions:
  assumes "distinct (map obs_tag (corr_received ts))"
  shows "\<exists>co ps. correlator_run acc leader anchor deadline start ts final = Some co \<and>
    offered co = map (record_for leader anchor \<circ> snd) ps \<and> list_all keyed_ok ps \<and>
    mset (held ps) = mset (corr_received ts)"
proof -
  obtain qs c where c: "correlator_loop acc leader anchor deadline ts (correlator_init start) = Some c"
    "ledger leader anchor qs (corr_received ts) c"
    using ledger_loop [OF ledger_init, where ts = ts and acc = acc and d = deadline] assms by (metis append_Nil)
  from ledger_sweep [OF c(2), where acc = acc and now = final and d = 0] obtain ps co where
    "corr_sweep acc leader anchor final 0 c = Some co" "ledger leader anchor ps (corr_received ts) co" "co_map co = []"
    by (auto simp: expired_all hm_remove_all)
  then show ?thesis using c(1) by (auto simp: correlator_run_def ledger_def)
qed

section \<open>The outer join\<close>

text \<open>The reference: for every entry any source reported, the record of the two observations of it.\<close>

definition find_obs :: "source_kind \<Rightarrow> u64 \<times> hash \<Rightarrow> entry_observation list \<Rightarrow> entry_observation option" where
  "find_obs src key os = find (\<lambda>ob. obs_source ob = src \<and> obs_key ob = key) os"

definition joined ::
  "(u64 \<Rightarrow> pubkey option) \<Rightarrow> instant \<Rightarrow> entry_observation list \<Rightarrow> u64 \<times> hash \<Rightarrow> diff_record" where
  "joined leader anchor os key = the (diff_of leader anchor (find_obs Yellowstone key os) (find_obs ShredStream key os))"

definition outer_join ::
  "(u64 \<Rightarrow> pubkey option) \<Rightarrow> instant \<Rightarrow> entry_observation list \<Rightarrow> diff_record list" where
  "outer_join leader anchor os = map (joined leader anchor os) (remdups (map obs_key os))"

lemma find_obs_Some: "find_obs src key os = Some ob \<Longrightarrow> ob \<in> set os \<and> obs_source ob = src \<and> obs_key ob = key"
  by (auto simp: find_obs_def find_Some_iff)

lemma find_obs_None: "find_obs src key os = None \<longleftrightarrow> (\<forall>ob \<in> set os. \<not> (obs_source ob = src \<and> obs_key ob = key))"
  by (auto simp: find_obs_def find_None_iff)

lemma same_tag: "distinct (map obs_tag os) \<Longrightarrow> a \<in> set os \<Longrightarrow> b \<in> set os \<Longrightarrow> obs_tag a = obs_tag b \<Longrightarrow> a = b"
  by (meson distinct_map inj_onD)

lemma find_member:
  assumes ok: "list_all keyed_ok ps" "mset (held ps) = mset os" "distinct (map obs_tag os)" "distinct (map fst ps)"
    and p: "(k, p) \<in> set ps"
  shows "find_obs src k os = (case src of Yellowstone \<Rightarrow> ms_yellowstone p | ShredStream \<Rightarrow> ms_shredstream p)"
    (is "_ = ?slot p")
proof -
  have os: "set os = set (held ps)" using ok(2) by (metis mset_eq_setD)
  have slot: "?slot q = Some ob \<longleftrightarrow> ob \<in> set (members q) \<and> obs_source ob = src" if "typed_state k' q" for k' q ob
    using that by (cases src) (auto simp: set_members typed_state_def)
  have typed: "typed_state (fst e) (snd e)" if "e \<in> set ps" for e
    using ok(1) that by (auto simp: list_all_iff keyed_ok_def)
  show ?thesis
  proof (cases "find_obs src k os")
    case (Some ob)
    then have ob: "ob \<in> set os" "obs_source ob = src" "obs_key ob = k" using find_obs_Some by blast+
    then obtain e where e: "e \<in> set ps" "ob \<in> set (members (snd e))" using os by (auto simp: set_held)
    then have "fst e = k" using typed_member [OF typed] ob(3) by simp
    then have "e = (k, p)" using ok(4) e(1) p by (metis distinct_map fst_conv inj_onD)
    then have "ob \<in> set (members p)" "typed_state k p" using e(2) typed [OF p] by simp_all
    then have "?slot p = Some ob" using slot ob(2) by blast
    then show ?thesis using Some by simp
  next
    case None
    have "?slot p \<noteq> Some ob" for ob
    proof
      assume "?slot p = Some ob"
      then have "ob \<in> set (members p)" "obs_source ob = src" using slot typed [OF p] by auto
      moreover from this have "obs_key ob = k" using typed_member typed [OF p] by fastforce
      moreover have "ob \<in> set os" using p \<open>ob \<in> set (members p)\<close> unfolding os set_held by force
      ultimately show False using None by (auto simp: find_obs_None)
    qed
    then show ?thesis using None by (cases "?slot p") auto
  qed
qed

lemma join_of_ledger:
  assumes "list_all keyed_ok ps" "mset (held ps) = mset os" "distinct (map obs_tag os)" "distinct (map fst ps)"
  shows "mset (map (record_for leader anchor \<circ> snd) ps) = mset (outer_join leader anchor os)"
proof -
  have "record_for leader anchor (snd e) = joined leader anchor os (fst e)" if "e \<in> set ps" for e
    using find_member [OF assms, of "fst e" "snd e"] that by (simp add: record_for_def joined_def)
  then have "map (record_for leader anchor \<circ> snd) ps = map (joined leader anchor os) (map fst ps)" by simp
  moreover have "set (map fst ps) = set (map obs_key os)"
  proof -
    have os: "set os = set (held ps)" using assms(2) by (metis mset_eq_setD)
    have e: "obs_key ` set (members (snd e)) = {fst e}" if "e \<in> set ps" for e
      using assms(1) that typed_member by (fastforce simp: list_all_iff keyed_ok_def neq_Nil_conv)
    have "obs_key ` set os = (\<Union>e \<in> set ps. obs_key ` set (members (snd e)))"
      unfolding os set_held by (rule image_UN)
    also have "\<dots> = (\<Union>e \<in> set ps. {fst e})" using e by (intro SUP_cong) auto
    finally show ?thesis by auto
  qed
  then have "set (map fst ps) = set (remdups (map obs_key os))" by (simp only: set_remdups)
  then have m: "mset (map fst ps) = mset (remdups (map obs_key os))"
    by (simp only: set_eq_iff_mset_eq_distinct [OF assms(4) distinct_remdups])
  ultimately show ?thesis unfolding outer_join_def by (simp only: mset_map)
qed

text \<open>The invariant while no entry is overdue: only pairs were emitted, one per entry.\<close>

definition timely ::
  "(u64 \<Rightarrow> pubkey option) \<Rightarrow> instant \<Rightarrow> instant \<Rightarrow> keyed list \<Rightarrow> entry_observation list \<Rightarrow> correlator \<Rightarrow> bool" where
  "timely leader anchor lo ps os co \<longleftrightarrow> ledger leader anchor ps os co \<and> list_all (full \<circ> snd) ps \<and>
     distinct (map fst (ps @ co_map co)) \<and> (\<forall>st. st \<in> snd ` set (co_map co) \<longrightarrow> lo \<le> ms_inserted_at st)"

lemma timely_init: "timely leader anchor lo [] [] (correlator_init start)"
  using ledger_init by (simp add: timely_def) (simp add: correlator_init_def)

lemma inserted_store [simp]: "ms_inserted_at (store_obs ob st) = ms_inserted_at st"
  by (simp add: store_obs_def split: source_kind.split)

lemma timely_handle:
  assumes t: "timely leader anchor lo ps os co" and d: "distinct (map obs_tag (os @ [ob]))" and now: "lo \<le> now"
  shows "\<exists>qs co'. handle_obs acc leader anchor now ob co = Some co' \<and> timely leader anchor lo qs (os @ [ob]) co'"
proof -
  define st where "st = store_obs ob (entry_at now (obs_key ob) co)"
  have l: "ledger leader anchor ps os co" and dk: "distinct (map fst (ps @ co_map co))"
    and old: "\<And>st. st \<in> snd ` set (co_map co) \<Longrightarrow> lo \<le> ms_inserted_at st" and fu: "list_all (full \<circ> snd) ps"
    using t by (auto simp: timely_def)
  have ms: "mset (held (ps @ co_map co)) = mset os" and ok: "list_all keyed_ok ps" and tc: "typed co"
    using l by (simp_all add: ledger_def)
  have new: "obs_key ob \<notin> fst ` set ps"
  proof
    assume "obs_key ob \<in> fst ` set ps"
    then obtain p where p: "(obs_key ob, p) \<in> set ps" by auto
    then have "full p" "typed_state (obs_key ob) p" using fu ok by (auto simp: list_all_iff keyed_ok_def)
    then obtain x where x: "x \<in> set (members p)" "obs_tag x = obs_tag ob"
      by (cases "obs_source ob") (auto simp: full_def typed_state_def set_members obs_tag_def)
    then have "x \<in> set os" using p mset_eq_setD [OF ms] by (force simp: set_held)
    then show False using x(2) d by (auto simp: image_iff)
  qed
  have ins: "lo \<le> ms_inserted_at st"
    using old now by (auto simp: st_def entry_at_def split: option.split dest: map_of_SomeD intro!: old rev_image_eqI)
  obtain co' where co': "handle_obs acc leader anchor now ob co = Some co'"
    "ledger leader anchor (if full st then ps @ [(obs_key ob, st)] else ps) (os @ [ob]) co'"
    "co_map co' = (if full st then hm_remove (obs_key ob) (co_map co) else hm_insert (obs_key ob) st (co_map co))"
    using ledger_handle [OF l d] unfolding st_def by blast
  have dm: "distinct (map fst (co_map co))" and dis: "fst ` set ps \<inter> fst ` set (co_map co) = {}" "distinct (map fst ps)"
    using dk by auto
  have "timely leader anchor lo (if full st then ps @ [(obs_key ob, st)] else ps) (os @ [ob]) co'"
  proof (cases "full st")
    case True
    have "distinct (map fst (hm_remove (obs_key ob) (co_map co)))" using dm by (rule distinct_delete)
    moreover have "fst ` set (hm_remove (obs_key ob) (co_map co)) = fst ` set (co_map co) - {obs_key ob}"
      using hm.set_keys_remove [of "obs_key ob" "co_map co"] by simp
    ultimately show ?thesis
      using True co'(2,3) fu old dis new by (auto simp: timely_def AList.delete_eq)
  next
    case False
    have "distinct (map fst (hm_insert (obs_key ob) st (co_map co)))" using dm by (rule distinct_update)
    moreover have "fst ` set (hm_insert (obs_key ob) st (co_map co)) = insert (obs_key ob) (fst ` set (co_map co))"
      by (simp add: dom_update)
    moreover have "lo \<le> ms_inserted_at (snd e)" if "e \<in> set (hm_insert (obs_key ob) st (co_map co))" for e
      using that set_update_subset [of "obs_key ob" st "co_map co"] ins old by auto
    ultimately show ?thesis using False co'(2,3) fu old dis new ins by (auto simp: timely_def)
  qed
  with co'(1) show ?thesis by blast
qed

lemma timely_maybe:
  assumes "timely leader anchor lo ps os co" "saturating_duration_since now lo < d"
  shows "\<exists>co'. maybe_corr_sweep acc leader anchor d now co = Some co' \<and> timely leader anchor lo ps os co'"
proof -
  have "\<not> d \<le> saturating_duration_since now (ms_inserted_at (snd e))" if "e \<in> set (co_map co)" for e
  proof -
    have "lo \<le> ms_inserted_at (snd e)" using assms(1) that by (simp add: timely_def)
    then show ?thesis using assms(2) by (simp add: saturating_duration_since_def)
  qed
  then have "expired_keys now d co = []"
    by (auto simp: expired_keys_def filter_empty_conv case_prod_unfold)
  then have "maybe_corr_sweep acc leader anchor d now co =
      Some (if 250000000 < saturating_duration_since now (co_last_sweep co) then co\<lparr>co_last_sweep := now\<rparr> else co)"
    by (simp add: maybe_corr_sweep_def corr_sweep_def)
  moreover have "timely leader anchor lo ps os (co\<lparr>co_last_sweep := now\<rparr>)"
    using assms(1) by (simp add: timely_def ledger_def typed_def offered_def)
  ultimately show ?thesis using assms(1) by simp
qed

definition on_time :: "instant \<Rightarrow> duration \<Rightarrow> corr_turn \<Rightarrow> bool" where
  "on_time lo d t \<longleftrightarrow> lo \<le> ct_insert_at t \<and> saturating_duration_since (ct_now t) lo < d"

lemma timely_loop:
  "timely leader anchor lo ps os co \<Longrightarrow> distinct (map obs_tag (os @ corr_received ts)) \<Longrightarrow>
    list_all (on_time lo d) ts \<Longrightarrow>
    \<exists>qs co'. correlator_loop acc leader anchor d ts co = Some co' \<and>
      timely leader anchor lo qs (os @ corr_received ts) co'"
proof (induction ts arbitrary: ps os co)
  case (Cons t ts)
  have ot: "lo \<le> ct_insert_at t" "saturating_duration_since (ct_now t) lo < d" "list_all (on_time lo d) ts"
    using Cons.prems(3) by (simp_all add: on_time_def [of lo d t])
  have step: "\<exists>qs co'. Option.bind (maybe_corr_sweep acc leader anchor d (ct_now t) c)
      (correlator_loop acc leader anchor d ts) = Some co' \<and> timely leader anchor lo qs (os' @ corr_received ts) co'"
    if c: "timely leader anchor lo ps' os' c" "distinct (map obs_tag (os' @ corr_received ts))" for ps' os' c
  proof -
    obtain c' where "maybe_corr_sweep acc leader anchor d (ct_now t) c = Some c'" "timely leader anchor lo ps' os' c'"
      using timely_maybe [OF c(1) ot(2)] by blast
    then show ?thesis using Cons.IH c(2) ot(3) by simp
  qed
  show ?case
  proof (cases "ct_input t")
    case (CorrObs ob)
    have d: "distinct (map obs_tag (os @ [ob]))" "distinct (map obs_tag ((os @ [ob]) @ corr_received ts))"
      using Cons.prems(2) CorrObs by auto
    obtain qs c where "handle_obs acc leader anchor (ct_insert_at t) ob co = Some c" "timely leader anchor lo qs (os @ [ob]) c"
      using timely_handle [OF Cons.prems(1) d(1) ot(1)] by blast
    then show ?thesis using CorrObs step [of qs "os @ [ob]" c] d(2) by simp
  qed (use Cons.prems step in auto)
qed auto

text \<open>C9: In a run that is shorter than the deadline, with no entry reported twice by one source, the
  correlator offers exactly the full outer join of what the two sources reported: one record per
  entry, of both sources when both reported it.\<close>
theorem correlator_is_outer_join:
  assumes "distinct (map obs_tag (corr_received ts))" "list_all (on_time lo deadline) ts"
  shows "\<exists>co. correlator_run acc leader anchor deadline start ts final = Some co \<and>
    mset (offered co) = mset (outer_join leader anchor (corr_received ts))"
proof -
  obtain ps c where c: "correlator_loop acc leader anchor deadline ts (correlator_init start) = Some c"
    "timely leader anchor lo ps (corr_received ts) c"
    using timely_loop [OF timely_init, where ts = ts and acc = acc and d = deadline] assms by (metis append_Nil)
  then have l: "ledger leader anchor ps (corr_received ts) c" and dk: "distinct (map fst (ps @ co_map c))"
    by (simp_all add: timely_def)
  have "hm_inv (co_map c)" using l by (simp add: ledger_def typed_def)
  then have "map (\<lambda>k. (k, the (map_of (co_map c) k))) (expired_keys final 0 c) = co_map c"
    by (simp add: expired_all map_of_entries del: map_map)
  with ledger_sweep [OF l, where acc = acc and now = final and d = 0] obtain co where
    co: "corr_sweep acc leader anchor final 0 c = Some co" "ledger leader anchor (ps @ co_map c) (corr_received ts) co"
    "co_map co = []"
    by (auto simp: expired_all hm_remove_all)
  have "mset (offered co) = mset (outer_join leader anchor (corr_received ts))"
    using co(2,3) join_of_ledger [OF _ _ assms(1) dk, where leader = leader and anchor = anchor] by (simp add: ledger_def)
  then show ?thesis using c(1) co(1) by (simp add: correlator_run_def)
qed

text \<open>An example: an entry of both sources, one of Yellowstone only, one of ShredStream only.\<close>

definition demo_seen :: "source_kind \<Rightarrow> hash \<Rightarrow> entry_observation" where
  "demo_seen src h = (demo_obs 5 0 h 1)\<lparr> obs_source := src \<rparr>"

definition demo_turn :: "nat \<Rightarrow> entry_observation \<Rightarrow> corr_turn" where
  "demo_turn t ob = \<lparr> ct_input = CorrObs ob, ct_insert_at = t, ct_now = t \<rparr>"

definition demo_turns :: "corr_turn list" where
  "demo_turns = [demo_turn 1 (demo_seen ShredStream 7), demo_turn 2 (demo_seen Yellowstone 8),
     demo_turn 300000000 (demo_seen Yellowstone 7), demo_turn 300000001 (demo_seen ShredStream 9)]"

lemma demo_received:
  "corr_received demo_turns = [demo_seen ShredStream 7, demo_seen Yellowstone 8, demo_seen Yellowstone 7, demo_seen ShredStream 9]"
  by (simp add: demo_turns_def demo_turn_def)

lemma demo_tags: "distinct (map obs_tag (corr_received demo_turns))"
  by (simp add: demo_received demo_seen_def demo_obs_def obs_tag_def)

lemma correlator_partitions_witness:
  "\<exists>co ps. correlator_run (\<lambda>_ _. True) (\<lambda>_. None) 0 5000000000 0 demo_turns 400000000 = Some co \<and>
    list_all keyed_ok ps \<and> mset (held ps) = mset (corr_received demo_turns)"
  using correlator_partitions [OF demo_tags] by blast

lemma correlator_is_outer_join_witness:
  "\<exists>co. correlator_run (\<lambda>_ _. True) (\<lambda>_. None) 0 5000000000 0 demo_turns 400000000 = Some co \<and>
    mset (offered co) = mset (outer_join (\<lambda>_. None) 0 (corr_received demo_turns)) \<and>
    map df_source (outer_join (\<lambda>_. None) 0 (corr_received demo_turns)) = [YsOnly, Both, SsOnly]"
proof -
  have "list_all (on_time 0 5000000000) demo_turns"
    by (simp add: demo_turns_def demo_turn_def on_time_def saturating_duration_since_def)
  moreover have "map df_source (outer_join (\<lambda>_. None) 0 (corr_received demo_turns)) = [YsOnly, Both, SsOnly]"
    by (simp add: demo_received demo_seen_def demo_obs_def outer_join_def joined_def find_obs_def diff_of_def source_of_def Let_def)
  ultimately show ?thesis using correlator_is_outer_join [OF demo_tags, of 0 5000000000] by simp
qed

text \<open>A second report of an entry by the same source after its pair was emitted opens a new entry,
  and the entry is reported once more, as seen by that source only.\<close>

lemma late_duplicate_reported_alone:
  "map df_source (offered (the (correlator_run (\<lambda>_ _. True) (\<lambda>_. None) 0 5000000000 0
     [demo_turn 1 (demo_seen ShredStream 7), demo_turn 2 (demo_seen Yellowstone 7),
      demo_turn 3 (demo_seen ShredStream 7)] 9))) = [Both, SsOnly]"
  by (simp add: correlator_run_def demo_turn_def demo_seen_def demo_obs_def handle_obs_def store_obs_def Let_def
      maybe_corr_sweep_def saturating_duration_since_def correlator_init_def emit_removed_def emit_diff_def diff_of_def
      source_of_def try_send_def offered_def corr_sweep_def expired_keys_def)

end
