(* ===== verification/Batch_Writer.thy ===== *)
theory Batch_Writer
  imports Prelude
begin

text \<open>
  The Parquet writer threads: \<open>run_loop\<close> of \<open>crates/entry-comparator/src/writer.rs\<close> and
  \<open>parquet_loop\<close> of \<open>crates/tick-trigger-bench/src/writer.rs\<close> are the same loop over different
  columns, so the loop is a function of the three operations on the column builders (\<open>append\<close>,
  \<open>len\<close>, \<open>Builders::new\<close>). The file is the log of the batches handed to the Arrow writer, with
  whether \<open>write\<close> succeeded; a batch whose write fails is only logged. A turn is what
  \<open>recv_timeout\<close> returns and the clock readings of the round, in order.

  The interface between loop and columns is the locale \<open>batch_columns\<close>: the builders are a list of
  rows.
\<close>

datatype 'r batch_input = BatchRecord 'r | BatchTimeout | BatchDisconnected

record 'r batch_turn =
  bt_input :: "'r batch_input"
  bt_flushed_at :: instant
  bt_checked_at :: instant
  bt_last_at :: instant

record 'c batch_writer =
  bw_builders :: 'c
  bw_file :: "'c chan"
  bw_last_flush :: instant
  bw_closed :: bool

definition batch_writer_init :: "'c \<Rightarrow> instant \<Rightarrow> 'c batch_writer" where
  "batch_writer_init new now = \<lparr> bw_builders = new, bw_file = [], bw_last_flush = now, bw_closed = False \<rparr>"

definition batch_flush :: "'c accept \<Rightarrow> 'c \<Rightarrow> 'c batch_writer \<Rightarrow> 'c batch_writer" where
  "batch_flush acc new w = w\<lparr> bw_file := fst (try_send acc (bw_file w) (bw_builders w)), bw_builders := new \<rparr>"

text \<open>One round: the received message, then the flush of a batch that waited too long.\<close>

definition batch_recv ::
  "'c accept \<Rightarrow> ('r \<Rightarrow> 'c \<Rightarrow> 'c) \<Rightarrow> ('c \<Rightarrow> nat) \<Rightarrow> 'c \<Rightarrow> nat \<Rightarrow> 'r batch_turn \<Rightarrow> 'c batch_writer \<Rightarrow> 'c batch_writer" where
  "batch_recv acc app len new row_group_size t w = (case bt_input t of
     BatchRecord r \<Rightarrow> (let w1 = w\<lparr>bw_builders := app r (bw_builders w)\<rparr>
       in if row_group_size \<le> len (bw_builders w1)
          then (batch_flush acc new w1)\<lparr>bw_last_flush := bt_flushed_at t\<rparr> else w1)
   | BatchTimeout \<Rightarrow> if 0 < len (bw_builders w)
       then (batch_flush acc new w)\<lparr>bw_last_flush := bt_flushed_at t\<rparr> else w
   | BatchDisconnected \<Rightarrow> (if 0 < len (bw_builders w) then batch_flush acc new w else w)\<lparr>bw_closed := True\<rparr>)"

definition batch_overdue ::
  "'c accept \<Rightarrow> ('c \<Rightarrow> nat) \<Rightarrow> 'c \<Rightarrow> duration \<Rightarrow> 'r batch_turn \<Rightarrow> 'c batch_writer \<Rightarrow> 'c batch_writer" where
  "batch_overdue acc len new flush_interval t w =
    (if 0 < len (bw_builders w) \<and> flush_interval < saturating_duration_since (bt_checked_at t) (bw_last_flush w)
     then (batch_flush acc new w)\<lparr>bw_last_flush := bt_last_at t\<rparr> else w)"

fun batch_loop ::
  "'c accept \<Rightarrow> ('r \<Rightarrow> 'c \<Rightarrow> 'c) \<Rightarrow> ('c \<Rightarrow> nat) \<Rightarrow> 'c \<Rightarrow> nat \<Rightarrow> duration \<Rightarrow> 'r batch_turn list \<Rightarrow>
    'c batch_writer \<Rightarrow> 'c batch_writer" where
  "batch_loop acc app len new rgs iv [] w = w"
| "batch_loop acc app len new rgs iv (t # ts) w =
    (let w1 = batch_recv acc app len new rgs t w
     in case bt_input t of BatchDisconnected \<Rightarrow> w1
        | _ \<Rightarrow> batch_loop acc app len new rgs iv ts (batch_overdue acc len new iv t w1))"

text \<open>The records received before the channel closes.\<close>

fun batch_received :: "'r batch_turn list \<Rightarrow> 'r list" where
  "batch_received [] = []"
| "batch_received (t # ts) = (case bt_input t of
     BatchRecord r \<Rightarrow> r # batch_received ts | BatchTimeout \<Rightarrow> batch_received ts | BatchDisconnected \<Rightarrow> [])"

locale batch_columns =
  fixes app :: "'r \<Rightarrow> 'c \<Rightarrow> 'c"
    and len :: "'c \<Rightarrow> nat"
    and new :: "'c"
    and rows :: "'c \<Rightarrow> 'v list"
    and row :: "'r \<Rightarrow> 'v"
    and invar :: "'c \<Rightarrow> bool"
  assumes rows_new: "rows new = []"
    and invar_new: "invar new"
    and rows_append: "invar c \<Longrightarrow> rows (app r c) = rows c @ [row r]"
    and invar_append: "invar c \<Longrightarrow> invar (app r c)"
    and len_rows: "invar c \<Longrightarrow> len c = length (rows c)"
begin

definition stored :: "'c batch_writer \<Rightarrow> 'v list" where
  "stored w = concat (map rows (attempts (bw_file w))) @ rows (bw_builders w)"

lemma flush_fields [simp]:
  "bw_builders (batch_flush acc new w) = new"
  "attempts (bw_file (batch_flush acc new w)) = attempts (bw_file w) @ [bw_builders w]"
  by (simp_all add: batch_flush_def)

lemma stored_flush: "stored (batch_flush acc new w) = stored w"
  by (simp add: stored_def rows_new)

lemma stored_update [simp]: "stored (w\<lparr>bw_last_flush := i\<rparr>) = stored w" "stored (w\<lparr>bw_closed := b\<rparr>) = stored w"
  by (simp_all add: stored_def)

lemma recv_ok:
  assumes "invar (bw_builders w)"
  shows "invar (bw_builders (batch_recv acc app len new rgs t w)) \<and>
    stored (batch_recv acc app len new rgs t w) = stored w @ (case bt_input t of BatchRecord r \<Rightarrow> [row r] | _ \<Rightarrow> [])"
proof (cases "bt_input t")
  case (BatchRecord r)
  have "stored (w\<lparr>bw_builders := app r (bw_builders w)\<rparr>) = stored w @ [row r]"
    by (simp add: stored_def rows_append [OF assms])
  then show ?thesis
    using BatchRecord assms by (simp add: batch_recv_def Let_def stored_flush invar_new invar_append)
qed (use assms in \<open>simp_all add: batch_recv_def stored_flush invar_new\<close>)

lemma overdue_ok:
  assumes "invar (bw_builders w)"
  shows "invar (bw_builders (batch_overdue acc len new iv t w)) \<and> stored (batch_overdue acc len new iv t w) = stored w"
  using assms by (simp add: batch_overdue_def stored_flush invar_new)

text \<open>Every record received is a row of exactly one batch or still in the builders, in order.\<close>

lemma stored_loop:
  "invar (bw_builders w) \<Longrightarrow>
    stored (batch_loop acc app len new rgs iv ts w) = stored w @ map row (batch_received ts)"
proof (induction ts arbitrary: w)
  case (Cons t ts)
  let ?w1 = "batch_recv acc app len new rgs t w"
  have 1: "invar (bw_builders ?w1)" using recv_ok [OF Cons.prems] by blast
  show ?case
    using recv_ok [OF Cons.prems, of acc rgs t] overdue_ok [OF 1, of acc iv t] Cons.IH [of "batch_overdue acc len new iv t ?w1"]
    by (cases "bt_input t") (simp_all add: Let_def)
qed simp

text \<open>When the channel closes nothing is left in the builders.\<close>

lemma closed_empties:
  "invar (bw_builders w) \<Longrightarrow> list_ex (\<lambda>t. bt_input t = BatchDisconnected) ts \<Longrightarrow>
    bw_closed (batch_loop acc app len new rgs iv ts w) \<and>
    rows (bw_builders (batch_loop acc app len new rgs iv ts w)) = []"
proof (induction ts arbitrary: w)
  case (Cons t ts)
  let ?w1 = "batch_recv acc app len new rgs t w"
  have 1: "invar (bw_builders ?w1)" using recv_ok [OF Cons.prems(1)] by blast
  show ?case
  proof (cases "bt_input t = BatchDisconnected")
    case True
    then show ?thesis using Cons.prems(1) by (simp add: Let_def batch_recv_def len_rows rows_new)
  next
    case False
    then have "list_ex (\<lambda>t. bt_input t = BatchDisconnected) ts" using Cons.prems(2) by simp
    moreover have "invar (bw_builders (batch_overdue acc len new iv t ?w1))" using overdue_ok [OF 1] by blast
    ultimately have IH: "bw_closed (batch_loop acc app len new rgs iv ts (batch_overdue acc len new iv t ?w1)) \<and>
        rows (bw_builders (batch_loop acc app len new rgs iv ts (batch_overdue acc len new iv t ?w1))) = []"
      using Cons.IH by blast
    show ?thesis using False IH by (cases "bt_input t") (simp_all add: Let_def)
  qed
qed simp

lemma all_rows_written:
  assumes "list_ex (\<lambda>t. bt_input t = BatchDisconnected) ts"
  shows "concat (map rows (attempts (bw_file (batch_loop acc app len new rgs iv ts (batch_writer_init new now))))) =
    map row (batch_received ts)"
proof -
  have i: "invar (bw_builders (batch_writer_init new now))" by (simp add: batch_writer_init_def invar_new)
  have "stored (batch_writer_init new now) = []" by (simp add: stored_def batch_writer_init_def rows_new)
  then show ?thesis
    using stored_loop [OF i, of acc rgs iv ts] closed_empties [OF i assms, of acc rgs iv] by (simp add: stored_def)
qed

lemma invar_loop:
  "invar (bw_builders w) \<Longrightarrow> list_all invar (attempts (bw_file w)) \<Longrightarrow>
    list_all invar (attempts (bw_file (batch_loop acc app len new rgs iv ts w)))"
proof (induction ts arbitrary: w)
  case (Cons t ts)
  let ?w1 = "batch_recv acc app len new rgs t w"
  let ?w2 = "batch_overdue acc len new iv t ?w1"
  have 1: "invar (bw_builders ?w1)" using recv_ok [OF Cons.prems(1)] by blast
  then have 2: "invar (bw_builders ?w2)" using overdue_ok by blast
  have f1: "list_all invar (attempts (bw_file ?w1))"
    using Cons.prems by (cases "bt_input t") (simp_all add: batch_recv_def Let_def invar_append)
  then have "list_all invar (attempts (bw_file ?w2))" using 1 by (simp add: batch_overdue_def)
  then show ?case using Cons.IH [OF 2] f1 by (cases "bt_input t") (simp_all add: Let_def)
qed simp

text \<open>No batch is empty or exceeds the row group size.\<close>

definition batch_sizes_ok :: "nat \<Rightarrow> 'c batch_writer \<Rightarrow> bool" where
  "batch_sizes_ok rgs w \<longleftrightarrow> invar (bw_builders w) \<and> length (rows (bw_builders w)) < rgs \<and>
     list_all (\<lambda>c. invar c \<and> 0 < length (rows c) \<and> length (rows c) \<le> rgs) (attempts (bw_file w))"

lemma sizes_loop:
  assumes "0 < rgs"
  shows "batch_sizes_ok rgs w \<Longrightarrow> batch_sizes_ok rgs (batch_loop acc app len new rgs iv ts w)"
proof (induction ts arbitrary: w)
  case (Cons t ts)
  let ?w1 = "batch_recv acc app len new rgs t w"
  have 1: "batch_sizes_ok rgs ?w1"
    using Cons.prems assms
    by (cases "bt_input t")
      (auto simp: batch_sizes_ok_def batch_recv_def Let_def len_rows rows_append rows_new invar_new invar_append)
  then have "batch_sizes_ok rgs (batch_overdue acc len new iv t ?w1)"
    using assms by (auto simp: batch_sizes_ok_def batch_overdue_def len_rows rows_new invar_new)
  then show ?case using Cons.IH 1 by (cases "bt_input t") (simp_all add: Let_def)
qed simp

lemma sizes_init: "0 < rgs \<Longrightarrow> batch_sizes_ok rgs (batch_writer_init new now)"
  by (simp add: batch_sizes_ok_def batch_writer_init_def rows_new invar_new)

end

end
