(* ===== verification/Diff_Writer.thy ===== *)
theory Diff_Writer
  imports Correlator_Props Batch_Writer
begin

text \<open>
  The columns of \<open>crates/entry-comparator/src/writer.rs\<close> and the loop of \<open>report.rs\<close> that counts
  them again. A nullable column is a list of options; the \<open>source\<close> column holds the string
  \<open>Source::as_str\<close> gives. The Arrow and Parquet libraries only carry the columns from the writer
  to the reader. The histograms of \<open>hdrhistogram\<close> are the lists of the values recorded in them.
\<close>

record diff_columns =
  dc_slot :: "u64 list"
  dc_entry_index :: "u32 list"
  dc_num_hashes :: "u64 list"
  dc_source :: "string list"
  dc_ys_observed_ns :: "u64 option list"
  dc_ss_first_shred_ns :: "u64 option list"
  dc_ss_fec_complete_ns :: "u64 option list"
  dc_ys_hash :: "hash option list"
  dc_ss_hash :: "hash option list"
  dc_ys_tx_count :: "u32 option list"
  dc_ss_tx_count :: "u32 option list"
  dc_hash_match :: "bool list"
  dc_sig_set_match :: "bool option list"
  dc_leader_pubkey :: "pubkey option list"
  dc_ys_signatures :: "signature list list"
  dc_ss_signatures :: "signature list list"

definition diff_columns_new :: diff_columns where
  "diff_columns_new = \<lparr> dc_slot = [], dc_entry_index = [], dc_num_hashes = [], dc_source = [],
     dc_ys_observed_ns = [], dc_ss_first_shred_ns = [], dc_ss_fec_complete_ns = [], dc_ys_hash = [], dc_ss_hash = [],
     dc_ys_tx_count = [], dc_ss_tx_count = [], dc_hash_match = [], dc_sig_set_match = [], dc_leader_pubkey = [],
     dc_ys_signatures = [], dc_ss_signatures = [] \<rparr>"

definition append_diff :: "diff_record \<Rightarrow> diff_columns \<Rightarrow> diff_columns" where
  "append_diff r c = \<lparr> dc_slot = dc_slot c @ [df_slot r], dc_entry_index = dc_entry_index c @ [df_entry_index r],
     dc_num_hashes = dc_num_hashes c @ [df_num_hashes r], dc_source = dc_source c @ [diff_source_str (df_source r)],
     dc_ys_observed_ns = dc_ys_observed_ns c @ [df_ys_observed_ns r],
     dc_ss_first_shred_ns = dc_ss_first_shred_ns c @ [df_ss_first_shred_ns r],
     dc_ss_fec_complete_ns = dc_ss_fec_complete_ns c @ [df_ss_fec_complete_ns r],
     dc_ys_hash = dc_ys_hash c @ [df_ys_hash r], dc_ss_hash = dc_ss_hash c @ [df_ss_hash r],
     dc_ys_tx_count = dc_ys_tx_count c @ [df_ys_tx_count r], dc_ss_tx_count = dc_ss_tx_count c @ [df_ss_tx_count r],
     dc_hash_match = dc_hash_match c @ [df_hash_match r], dc_sig_set_match = dc_sig_set_match c @ [df_sig_set_match r],
     dc_leader_pubkey = dc_leader_pubkey c @ [df_leader_pubkey r],
     dc_ys_signatures = dc_ys_signatures c @ [df_ys_signatures r],
     dc_ss_signatures = dc_ss_signatures c @ [df_ss_signatures r] \<rparr>"

definition columns_len :: "diff_columns \<Rightarrow> nat" where
  "columns_len c = length (dc_slot c)"

definition diff_writer_run ::
  "diff_columns accept \<Rightarrow> nat \<Rightarrow> duration \<Rightarrow> instant \<Rightarrow> diff_record batch_turn list \<Rightarrow> diff_columns batch_writer" where
  "diff_writer_run acc row_group_size flush_interval now ts =
    batch_loop acc append_diff columns_len diff_columns_new row_group_size flush_interval ts
      (batch_writer_init diff_columns_new now)"

section \<open>The report\<close>

record signed_hist =
  sh_earlier_count :: u64
  sh_later_count :: u64
  sh_equal_count :: u64
  sh_earlier_abs :: "u64 list"
  sh_later :: "u64 list"

definition signed_hist_new :: signed_hist where
  "signed_hist_new = \<lparr> sh_earlier_count = 0, sh_later_count = 0, sh_equal_count = 0, sh_earlier_abs = [], sh_later = [] \<rparr>"

definition sh_record :: "u64 \<Rightarrow> u64 \<Rightarrow> signed_hist \<Rightarrow> signed_hist" where
  "sh_record ss_ns ys_ns h =
    (if ss_ns < ys_ns then h\<lparr> sh_earlier_count := sh_earlier_count h + 1, sh_earlier_abs := sh_earlier_abs h @ [ys_ns - ss_ns] \<rparr>
     else if ys_ns < ss_ns then h\<lparr> sh_later_count := sh_later_count h + 1, sh_later := sh_later h @ [ss_ns - ys_ns] \<rparr>
     else h\<lparr>sh_equal_count := sh_equal_count h + 1\<rparr>)"

record diff_report =
  dr_total :: u64
  dr_both :: u64
  dr_ys_only :: u64
  dr_ss_only :: u64
  dr_hash_mismatches :: u64
  dr_sig_mismatches :: u64
  dr_first :: signed_hist
  dr_fec :: signed_hist
  dr_decode :: "u64 list"
  dr_decode_samples :: u64

definition diff_report_new :: diff_report where
  "diff_report_new = \<lparr> dr_total = 0, dr_both = 0, dr_ys_only = 0, dr_ss_only = 0, dr_hash_mismatches = 0,
     dr_sig_mismatches = 0, dr_first = signed_hist_new, dr_fec = signed_hist_new, dr_decode = [], dr_decode_samples = 0 \<rparr>"

definition report_both :: "bool \<Rightarrow> bool option \<Rightarrow> u64 option \<Rightarrow> u64 option \<Rightarrow> u64 option \<Rightarrow> diff_report \<Rightarrow> diff_report" where
  "report_both hash_match sig_match ys fs fc rp = rp\<lparr>
     dr_both := dr_both rp + 1,
     dr_hash_mismatches := (if hash_match then dr_hash_mismatches rp else dr_hash_mismatches rp + 1),
     dr_sig_mismatches := (if sig_match = Some False then dr_sig_mismatches rp + 1 else dr_sig_mismatches rp),
     dr_first := (case (ys, fs) of (Some y, Some f) \<Rightarrow> sh_record f y (dr_first rp) | _ \<Rightarrow> dr_first rp),
     dr_fec := (case (ys, fc) of (Some y, Some f) \<Rightarrow> sh_record f y (dr_fec rp) | _ \<Rightarrow> dr_fec rp),
     dr_decode := (case (fs, fc) of (Some f, Some c) \<Rightarrow> if f \<le> c then dr_decode rp @ [c - f] else dr_decode rp | _ \<Rightarrow> dr_decode rp),
     dr_decode_samples := (case (fs, fc) of (Some f, Some c) \<Rightarrow> if f \<le> c then dr_decode_samples rp + 1 else dr_decode_samples rp
       | _ \<Rightarrow> dr_decode_samples rp) \<rparr>"

definition report_row :: "diff_columns \<Rightarrow> nat \<Rightarrow> diff_report \<Rightarrow> diff_report" where
  "report_row c i rp = (let src = dc_source c ! i in
    if src = ''BOTH'' then report_both (dc_hash_match c ! i) (dc_sig_set_match c ! i) (dc_ys_observed_ns c ! i)
       (dc_ss_first_shred_ns c ! i) (dc_ss_fec_complete_ns c ! i) rp
    else if src = ''YS_ONLY'' then rp\<lparr>dr_ys_only := dr_ys_only rp + 1\<rparr>
    else if src = ''SS_ONLY'' then rp\<lparr>dr_ss_only := dr_ss_only rp + 1\<rparr>
    else rp)"

definition report_batch :: "diff_columns \<Rightarrow> diff_report \<Rightarrow> diff_report" where
  "report_batch c rp = fold (report_row c) [0..<columns_len c]
     (rp\<lparr>dr_total := dr_total rp + of_nat (columns_len c)\<rparr>)"

definition diff_report_of :: "diff_columns list \<Rightarrow> diff_report" where
  "diff_report_of batches = fold report_batch batches diff_report_new"

section \<open>The columns as rows\<close>

text \<open>Reading a row back; \<open>Source::as_str\<close> is inverted by its three values.\<close>

definition source_of_str :: "string \<Rightarrow> diff_source" where
  "source_of_str s = (if s = ''BOTH'' then Both else if s = ''YS_ONLY'' then YsOnly else SsOnly)"

lemma source_of_str [simp]: "source_of_str (diff_source_str s) = s"
  by (cases s) (simp_all add: source_of_str_def diff_source_str_def)

definition read_row :: "diff_columns \<Rightarrow> nat \<Rightarrow> diff_record" where
  "read_row c i = \<lparr> df_slot = dc_slot c ! i, df_entry_index = dc_entry_index c ! i, df_num_hashes = dc_num_hashes c ! i,
     df_source = source_of_str (dc_source c ! i), df_ys_observed_ns = dc_ys_observed_ns c ! i,
     df_ss_first_shred_ns = dc_ss_first_shred_ns c ! i, df_ss_fec_complete_ns = dc_ss_fec_complete_ns c ! i,
     df_ys_hash = dc_ys_hash c ! i, df_ss_hash = dc_ss_hash c ! i, df_ys_tx_count = dc_ys_tx_count c ! i,
     df_ss_tx_count = dc_ss_tx_count c ! i, df_hash_match = dc_hash_match c ! i, df_sig_set_match = dc_sig_set_match c ! i,
     df_leader_pubkey = dc_leader_pubkey c ! i, df_ys_signatures = dc_ys_signatures c ! i,
     df_ss_signatures = dc_ss_signatures c ! i \<rparr>"

definition diff_rows :: "diff_columns \<Rightarrow> diff_record list" where
  "diff_rows c = map (read_row c) [0..<columns_len c]"

definition rectangular :: "diff_columns \<Rightarrow> bool" where
  "rectangular c \<longleftrightarrow> list_all (\<lambda>n. n = columns_len c) [length (dc_entry_index c), length (dc_num_hashes c),
     length (dc_source c), length (dc_ys_observed_ns c), length (dc_ss_first_shred_ns c), length (dc_ss_fec_complete_ns c),
     length (dc_ys_hash c), length (dc_ss_hash c), length (dc_ys_tx_count c), length (dc_ss_tx_count c),
     length (dc_hash_match c), length (dc_sig_set_match c), length (dc_leader_pubkey c), length (dc_ys_signatures c),
     length (dc_ss_signatures c)]"

lemma rectangular_new: "rectangular diff_columns_new"
  by (simp add: rectangular_def diff_columns_new_def columns_len_def)

lemma rectangular_append: "rectangular c \<Longrightarrow> rectangular (append_diff r c)"
  by (simp add: rectangular_def append_diff_def columns_len_def)

lemma columns_len_append [simp]: "columns_len (append_diff r c) = Suc (columns_len c)"
  by (simp add: columns_len_def append_diff_def)

lemma read_row_old: "rectangular c \<Longrightarrow> i < columns_len c \<Longrightarrow> read_row (append_diff r c) i = read_row c i"
  by (simp add: rectangular_def read_row_def append_diff_def columns_len_def nth_append)

lemma read_row_new: "rectangular c \<Longrightarrow> read_row (append_diff r c) (columns_len c) = r"
  by (simp add: rectangular_def read_row_def append_diff_def columns_len_def nth_append)

lemma diff_rows_append:
  assumes "rectangular c"
  shows "diff_rows (append_diff r c) = diff_rows c @ [r]"
proof -
  have "map (read_row (append_diff r c)) [0..<columns_len c] = map (read_row c) [0..<columns_len c]"
    by (rule map_cong [OF refl]) (simp add: read_row_old [OF assms])
  then show ?thesis by (simp add: diff_rows_def read_row_new [OF assms])
qed

definition valid_source :: "string \<Rightarrow> bool" where
  "valid_source s \<longleftrightarrow> s = diff_source_str (source_of_str s)"

definition valid_columns :: "diff_columns \<Rightarrow> bool" where
  "valid_columns c \<longleftrightarrow> rectangular c \<and> list_all valid_source (dc_source c)"

lemma valid_columns_append: "valid_columns c \<Longrightarrow> valid_columns (append_diff r c)"
  by (simp add: valid_columns_def rectangular_append) (simp add: append_diff_def valid_source_def)

lemma valid_columns_new: "valid_columns diff_columns_new"
  by (simp add: valid_columns_def rectangular_new) (simp add: diff_columns_new_def)

interpretation diff: batch_columns append_diff columns_len diff_columns_new diff_rows "\<lambda>r. r" valid_columns
proof unfold_locales
  show "diff_rows (append_diff r c) = diff_rows c @ [r]" if "valid_columns c" for r c
    using that diff_rows_append by (simp add: valid_columns_def)
qed (simp_all add: valid_columns_new valid_columns_append, simp_all add: diff_rows_def columns_len_def diff_columns_new_def)


section \<open>What the report counts\<close>

definition count_rows :: "(diff_record \<Rightarrow> bool) \<Rightarrow> diff_record list \<Rightarrow> u64" where
  "count_rows P rs = of_nat (length (filter P rs))"

lemma count_rows_simps [simp]:
  "count_rows P [] = 0" "count_rows P (r # rs) = (if P r then count_rows P rs + 1 else count_rows P rs)"
  "count_rows P (rs @ rs') = count_rows P rs + count_rows P rs'"
  by (simp_all add: count_rows_def)

text \<open>One row as a record.\<close>

definition report_record :: "diff_record \<Rightarrow> diff_report \<Rightarrow> diff_report" where
  "report_record r rp = (case df_source r of
     Both \<Rightarrow> report_both (df_hash_match r) (df_sig_set_match r) (df_ys_observed_ns r) (df_ss_first_shred_ns r) (df_ss_fec_complete_ns r) rp
   | YsOnly \<Rightarrow> rp\<lparr>dr_ys_only := dr_ys_only rp + 1\<rparr>
   | SsOnly \<Rightarrow> rp\<lparr>dr_ss_only := dr_ss_only rp + 1\<rparr>)"

lemma report_row_record:
  "valid_source (dc_source c ! i) \<Longrightarrow> report_row c i rp = report_record (read_row c i) rp"
  by (cases "source_of_str (dc_source c ! i)")
    (simp_all add: valid_source_def report_row_def report_record_def read_row_def diff_source_str_def Let_def)

lemma report_batch_records:
  assumes "valid_columns c"
  shows "report_batch c rp = fold report_record (diff_rows c) (rp\<lparr>dr_total := dr_total rp + of_nat (columns_len c)\<rparr>)"
proof -
  have "fold (report_row c) [0..<n] rp' = fold report_record (map (read_row c) [0..<n]) rp'"
    if "n \<le> columns_len c" for n rp'
    using that
  proof (induction n)
    case (Suc n)
    have "n < length (dc_source c)" using Suc.prems assms by (simp add: valid_columns_def rectangular_def)
    then have "valid_source (dc_source c ! n)" using assms by (simp add: valid_columns_def list_all_iff)
    then show ?case using Suc by (simp add: report_row_record)
  qed simp
  then show ?thesis by (simp add: report_batch_def diff_rows_def)
qed

text \<open>The counters of a report that has seen the records \<open>rs\<close>, with the histograms as lists.\<close>

definition lead_pair :: "diff_record \<Rightarrow> (u64 \<times> u64) option" where
  "lead_pair r = (case (df_source r, df_ss_first_shred_ns r, df_ys_observed_ns r) of
     (Both, Some f, Some y) \<Rightarrow> Some (f, y) | _ \<Rightarrow> None)"

definition counts_ok :: "diff_record list \<Rightarrow> diff_report \<Rightarrow> bool" where
  "counts_ok rs rp \<longleftrightarrow>
     dr_both rp = count_rows (\<lambda>r. df_source r = Both) rs \<and>
     dr_ys_only rp = count_rows (\<lambda>r. df_source r = YsOnly) rs \<and>
     dr_ss_only rp = count_rows (\<lambda>r. df_source r = SsOnly) rs \<and>
     dr_hash_mismatches rp = count_rows (\<lambda>r. df_source r = Both \<and> \<not> df_hash_match r) rs \<and>
     dr_sig_mismatches rp = count_rows (\<lambda>r. df_source r = Both \<and> df_sig_set_match r = Some False) rs \<and>
     sh_earlier_count (dr_first rp) = count_rows (\<lambda>r. case lead_pair r of Some (f, y) \<Rightarrow> f < y | None \<Rightarrow> False) rs \<and>
     sh_later_count (dr_first rp) = count_rows (\<lambda>r. case lead_pair r of Some (f, y) \<Rightarrow> y < f | None \<Rightarrow> False) rs \<and>
     sh_equal_count (dr_first rp) = count_rows (\<lambda>r. case lead_pair r of Some (f, y) \<Rightarrow> f = y | None \<Rightarrow> False) rs"

lemma counts_record:
  assumes "counts_ok rs rp"
  shows "counts_ok (rs @ [r]) (report_record r rp)"
  using assms
  by (cases "df_source r"; cases "df_ss_first_shred_ns r"; cases "df_ys_observed_ns r")
    (auto simp: counts_ok_def report_record_def report_both_def sh_record_def lead_pair_def)

lemma counts_records: "counts_ok rs rp \<Longrightarrow> counts_ok (rs @ rs') (fold report_record rs' rp)"
proof (induction rs' arbitrary: rs rp)
  case (Cons r rs')
  then show ?case using Cons.IH [OF counts_record [OF Cons.prems], of r] by simp
qed simp

lemma total_records: "dr_total (fold report_record rs rp) = dr_total rp"
proof (induction rs arbitrary: rp)
  case (Cons r rs)
  then show ?case by (cases "df_source r") (simp_all add: report_record_def report_both_def)
qed simp

lemma counts_total [simp]: "counts_ok rs (rp\<lparr>dr_total := n\<rparr>) = counts_ok rs rp"
  by (simp add: counts_ok_def)

lemma report_batches:
  assumes "list_all valid_columns cs" "counts_ok rs rp" "dr_total rp = of_nat (length rs)"
  shows "counts_ok (rs @ concat (map diff_rows cs)) (fold report_batch cs rp) \<and>
    dr_total (fold report_batch cs rp) = of_nat (length (rs @ concat (map diff_rows cs)))"
  using assms
proof (induction cs arbitrary: rs rp)
  case (Cons c cs)
  let ?rp = "rp\<lparr>dr_total := dr_total rp + of_nat (columns_len c)\<rparr>"
  have rb: "report_batch c rp = fold report_record (diff_rows c) ?rp"
    using report_batch_records Cons.prems(1) by simp
  have "counts_ok (rs @ diff_rows c) (report_batch c rp)"
    unfolding rb by (rule counts_records) (use Cons.prems(2) in simp)
  moreover have "dr_total (report_batch c rp) = of_nat (length (rs @ diff_rows c))"
    unfolding rb total_records using Cons.prems(3) by (simp add: diff_rows_def)
  ultimately show ?case using Cons.IH [of "rs @ diff_rows c" "report_batch c rp"] Cons.prems(1) by simp
qed simp

lemma counts_new: "counts_ok [] diff_report_new"
  by (simp add: counts_ok_def diff_report_new_def signed_hist_new_def)

lemma report_of_writer:
  assumes "list_ex (\<lambda>t. bt_input t = BatchDisconnected) ts"
  shows "counts_ok (batch_received ts) (diff_report_of (attempts (bw_file (diff_writer_run acc rgs iv now ts)))) \<and>
    dr_total (diff_report_of (attempts (bw_file (diff_writer_run acc rgs iv now ts)))) = of_nat (length (batch_received ts))"
proof -
  have "list_all valid_columns (attempts (bw_file (diff_writer_run acc rgs iv now ts)))"
    unfolding diff_writer_run_def
    by (rule diff.invar_loop) (simp_all add: batch_writer_init_def valid_columns_new)
  from report_batches [OF this counts_new] show ?thesis
    using diff.all_rows_written [OF assms, of acc rgs iv now]
    by (simp add: diff_report_of_def diff_writer_run_def diff_report_new_def)
qed

lemma count_rows_none: "list_all (\<lambda>r. \<not> P r) rs \<Longrightarrow> count_rows P rs = 0"
  by (induction rs) simp_all


definition demo_row :: diff_record where
  "demo_row = \<lparr> df_slot = 7, df_entry_index = 0, df_num_hashes = 100, df_source = Both, df_ys_observed_ns = Some 50,
     df_ss_first_shred_ns = Some 20, df_ss_fec_complete_ns = Some 30, df_ys_hash = None, df_ss_hash = None,
     df_ys_tx_count = None, df_ss_tx_count = None, df_hash_match = True, df_sig_set_match = None,
     df_leader_pubkey = None, df_ys_signatures = [], df_ss_signatures = [] \<rparr>"

definition demo_batch :: "diff_record batch_input \<Rightarrow> diff_record batch_turn" where
  "demo_batch x = \<lparr> bt_input = x, bt_flushed_at = 0, bt_checked_at = 0, bt_last_at = 0 \<rparr>"


lemma received_map:
  "batch_received (map (\<lambda>r. demo_batch (BatchRecord r)) rs @ [demo_batch BatchDisconnected]) = rs"
  by (induction rs) (simp_all add: demo_batch_def)


end
