(* ===== verification/Merger.thy ===== *)
theory Merger
  imports Observation
begin

text \<open>
  The two-source entry merger, \<open>crates/tick-trigger-fan-out-bench/src/merger.rs\<close>:
  dedup by \<open>(slot, entry_hash)\<close>, first arrival wins, eviction of keys of slots that are
  more than \<open>DEDUP_WINDOW_SLOTS\<close> behind. The loop variables of \<open>run_loop\<close> (dedup map,
  slot index, highest slot), the counters and the log of the output channel are the
  record \<open>merger\<close>.
\<close>

section \<open>Data\<close>

definition DEDUP_WINDOW_SLOTS :: u64 where
  "DEDUP_WINDOW_SLOTS = 200"

record merged_entry =
  me_observation :: entry_observation
  me_first_seen_source :: source_kind

record merger_counters =
  mc_ss_received :: u64
  mc_ys_received :: u64
  mc_ss_first :: u64
  mc_ys_first :: u64
  mc_confirmed_by_both :: u64
  mc_confirm_latency_sum_ns :: u64
  mc_confirm_latency_min_ns :: u64
  mc_confirm_latency_max_ns :: u64
  mc_duplicates :: u64
  mc_output_full :: u64

text \<open>\<open>MergerCounters::new\<close>: all zero but the minimum, which starts at \<open>u64::MAX\<close>.\<close>

definition merger_counters_new :: merger_counters where
  "merger_counters_new =
    \<lparr> mc_ss_received = 0, mc_ys_received = 0, mc_ss_first = 0, mc_ys_first = 0,
      mc_confirmed_by_both = 0, mc_confirm_latency_sum_ns = 0,
      mc_confirm_latency_min_ns = - 1, mc_confirm_latency_max_ns = 0,
      mc_duplicates = 0, mc_output_full = 0 \<rparr>"

definition merger_snapshot :: "merger_counters \<Rightarrow> merger_counters" where
  "merger_snapshot c = c\<lparr> mc_confirm_latency_min_ns :=
     (if mc_confirmed_by_both c = 0 then 0 else mc_confirm_latency_min_ns c) \<rparr>"

text \<open>\<open>confirm_latency_avg_us\<close> as numerator and denominator of the quotient the code
  takes in \<open>f64\<close>.\<close>

definition confirm_latency_avg_us :: "merger_counters \<Rightarrow> (u64 \<times> nat) option" where
  "confirm_latency_avg_us c =
    (if mc_confirmed_by_both c = 0 then None
     else Some (mc_confirm_latency_sum_ns c, unat (mc_confirmed_by_both c) * 1000))"

definition record_confirm_latency :: "u64 \<Rightarrow> merger_counters \<Rightarrow> merger_counters" where
  "record_confirm_latency delta_ns c = c\<lparr>
     mc_confirmed_by_both := mc_confirmed_by_both c + 1,
     mc_confirm_latency_sum_ns := mc_confirm_latency_sum_ns c + delta_ns,
     mc_confirm_latency_min_ns := min (mc_confirm_latency_min_ns c) delta_ns,
     mc_confirm_latency_max_ns := max (mc_confirm_latency_max_ns c) delta_ns \<rparr>"

datatype dedup_state = Primary source_kind instant | Confirmed

record merger =
  mg_state :: "(u64 \<times> hash, dedup_state) hash_map"
  mg_slot_index :: "(u64, hash list) btree_map"
  mg_max_slot :: u64
  mg_counters :: merger_counters
  mg_out :: "merged_entry chan"

definition merger_init :: merger where
  "merger_init = \<lparr> mg_state = [], mg_slot_index = [], mg_max_slot = 0,
     mg_counters = merger_counters_new, mg_out = [] \<rparr>"

section \<open>One observation\<close>

text \<open>The vacant branch of \<open>process\<close>: claim the key, index it, count the winner, emit.\<close>

definition process_vacant ::
  "merged_entry accept \<Rightarrow> entry_observation \<Rightarrow> source_kind \<Rightarrow> merger \<Rightarrow> merger" where
  "process_vacant acc obs source m =
    (let key = (obs_slot obs, obs_entry_hash obs);
         hashes = (case map_of (mg_slot_index m) (obs_slot obs) of None \<Rightarrow> [] | Some hs \<Rightarrow> hs);
         c = (case source of
                ShredStream \<Rightarrow> (mg_counters m)\<lparr>mc_ss_first := mc_ss_first (mg_counters m) + 1\<rparr>
              | Yellowstone \<Rightarrow> (mg_counters m)\<lparr>mc_ys_first := mc_ys_first (mg_counters m) + 1\<rparr>);
         (out', ok) = try_send acc (mg_out m)
           \<lparr> me_observation = obs, me_first_seen_source = source \<rparr>
     in m\<lparr> mg_state := hm_insert key (Primary source (obs_observed_at obs)) (mg_state m),
           mg_slot_index := bt_insert (obs_slot obs) (hashes @ [obs_entry_hash obs]) (mg_slot_index m),
           mg_counters := (if ok then c else c\<lparr>mc_output_full := mc_output_full c + 1\<rparr>),
           mg_out := out' \<rparr>)"

text \<open>The occupied branch: the other source confirms once; everything else is a duplicate.\<close>

definition process_occupied ::
  "dedup_state \<Rightarrow> entry_observation \<Rightarrow> source_kind \<Rightarrow> merger \<Rightarrow> merger" where
  "process_occupied d obs source m =
    (let dup = m\<lparr>mg_counters :=
                  (mg_counters m)\<lparr>mc_duplicates := mc_duplicates (mg_counters m) + 1\<rparr>\<rparr>
     in case d of
          Primary first_source first_seen_at \<Rightarrow>
            if first_source \<noteq> source
            then m\<lparr> mg_state := hm_insert (obs_slot obs, obs_entry_hash obs) Confirmed (mg_state m),
                    mg_counters := record_confirm_latency
                      (of_nat (min (saturating_duration_since (obs_observed_at obs) first_seen_at)
                                   u64_max)) (mg_counters m) \<rparr>
            else dup
        | Confirmed \<Rightarrow> dup)"

text \<open>Removal of an expired slot: its keys leave the dedup map, the slot the index.\<close>

definition evict_slot :: "u64 \<Rightarrow> merger \<Rightarrow> merger" where
  "evict_slot s m =
    (case map_of (mg_slot_index m) s of
       None \<Rightarrow> m
     | Some hashes \<Rightarrow> m\<lparr> mg_slot_index := bt_remove s (mg_slot_index m),
                        mg_state := fold hm_remove (map (\<lambda>h. (s, h)) hashes) (mg_state m) \<rparr>)"

definition advance_window :: "u64 \<Rightarrow> merger \<Rightarrow> merger" where
  "advance_window slot m =
    (if slot > mg_max_slot m then
       let m1 = m\<lparr>mg_max_slot := slot\<rparr>
       in if slot > DEDUP_WINDOW_SLOTS then
            let cutoff = slot - DEDUP_WINDOW_SLOTS;
                expired = takeWhile (\<lambda>s. s < cutoff) (map_keys (mg_slot_index m1))
            in fold evict_slot expired m1
          else m1
     else m)"

definition process ::
  "merged_entry accept \<Rightarrow> entry_observation \<Rightarrow> source_kind \<Rightarrow> merger \<Rightarrow> merger" where
  "process acc obs source m =
    advance_window (obs_slot obs)
      (case map_of (mg_state m) (obs_slot obs, obs_entry_hash obs) of
         None \<Rightarrow> process_vacant acc obs source m
       | Some d \<Rightarrow> process_occupied d obs source m)"

section \<open>The receive loop\<close>

text \<open>What one turn of the loop sees: the stop flag, a message of one of the two channels,
  or a closed channel.\<close>

datatype merger_event = MStop | MRecvSs entry_observation | MRecvYs entry_observation | MClosed

fun merger_run :: "merged_entry accept \<Rightarrow> merger_event list \<Rightarrow> merger \<Rightarrow> merger" where
  "merger_run acc [] m = m"
| "merger_run acc (MStop # es) m = m"
| "merger_run acc (MClosed # es) m = m"
| "merger_run acc (MRecvSs ob # es) m =
     merger_run acc es (process acc ob ShredStream
       (m\<lparr>mg_counters := (mg_counters m)\<lparr>mc_ss_received := mc_ss_received (mg_counters m) + 1\<rparr>\<rparr>))"
| "merger_run acc (MRecvYs ob # es) m =
     merger_run acc es (process acc ob Yellowstone
       (m\<lparr>mg_counters := (mg_counters m)\<lparr>mc_ys_received := mc_ys_received (mg_counters m) + 1\<rparr>\<rparr>))"

section \<open>Well-formedness\<close>

text \<open>The dedup map and the slot index hold the same keys.\<close>

definition merger_inv :: "merger \<Rightarrow> bool" where
  "merger_inv m \<longleftrightarrow> hm_inv (mg_state m) \<and> bt_inv (mg_slot_index m) \<and>
     (\<forall>s h. map_of (mg_state m) (s, h) \<noteq> None \<longleftrightarrow>
        (\<exists>hs. map_of (mg_slot_index m) s = Some hs \<and> h \<in> set hs))"

lemma merger_inv_init: "merger_inv merger_init"
  by (simp add: merger_inv_def merger_init_def)

lemma merger_inv_counters [simp]: "merger_inv (m\<lparr>mg_counters := c\<rparr>) = merger_inv m"
  by (simp add: merger_inv_def)

lemma process_vacant_fields:
  "mg_state (process_vacant acc obs src m) =
     hm_insert (obs_key obs) (Primary src (obs_observed_at obs)) (mg_state m)"
  "mg_max_slot (process_vacant acc obs src m) = mg_max_slot m"
  "attempts (mg_out (process_vacant acc obs src m)) = attempts (mg_out m) @
     [\<lparr> me_observation = obs, me_first_seen_source = src \<rparr>]"
  by (simp_all add: process_vacant_def Let_def try_send_def)

lemma process_occupied_fields:
  "mg_max_slot (process_occupied d obs src m) = mg_max_slot m"
  "mg_slot_index (process_occupied d obs src m) = mg_slot_index m"
  "mg_out (process_occupied d obs src m) = mg_out m"
  by (simp_all add: process_occupied_def Let_def split: dedup_state.splits)

lemma process_occupied_dom:
  assumes "map_of (mg_state m) (obs_key obs) \<noteq> None"
  shows "map_of (mg_state (process_occupied d obs src m)) k \<noteq> None \<longleftrightarrow> map_of (mg_state m) k \<noteq> None"
  using assms
  by (auto simp: process_occupied_def Let_def hm.lookup_insert split: dedup_state.splits if_splits)

lemma process_vacant_inv:
  assumes "merger_inv m"
  shows "merger_inv (process_vacant acc obs src m)"
  using assms
  by (auto simp: merger_inv_def process_vacant_def Let_def try_send_def hm.lookup_insert
      bt.lookup_insert hm.invar_insert bt.invar_insert split: option.splits)
    (metis option.sel)?

lemma process_occupied_inv:
  assumes "merger_inv m" "map_of (mg_state m) (obs_key obs) \<noteq> None"
  shows "merger_inv (process_occupied d obs src m)"
proof -
  have "hm_inv (mg_state (process_occupied d obs src m))"
    using assms(1)
    by (auto simp: merger_inv_def process_occupied_def Let_def hm.invar_insert split: dedup_state.splits)
  then show ?thesis
    using assms(1) process_occupied_dom [OF assms(2)]
    by (simp add: merger_inv_def process_occupied_fields)
qed

lemma evict_slot_fields [simp]:
  "mg_out (evict_slot s m) = mg_out m"
  "mg_counters (evict_slot s m) = mg_counters m"
  "mg_max_slot (evict_slot s m) = mg_max_slot m"
  by (simp_all add: evict_slot_def split: option.splits)

lemma evict_slot_lookup:
  assumes "merger_inv m"
  shows "map_of (mg_state (evict_slot s m)) (s', h) =
    (if s' = s then None else map_of (mg_state m) (s', h))"
    and "map_of (mg_slot_index (evict_slot s m)) s' =
    (if s' = s then None else map_of (mg_slot_index m) s')"
proof -
  have none: "map_of (mg_state m) (s, h') = None"
    if "\<And>hs. map_of (mg_slot_index m) s = Some hs \<Longrightarrow> h' \<notin> set hs" for h'
    using assms that unfolding merger_inv_def by (metis option.distinct(1))
  show "map_of (mg_state (evict_slot s m)) (s', h) =
    (if s' = s then None else map_of (mg_state m) (s', h))"
    using none [of h]
    by (auto simp: evict_slot_def hm.lookup_fold_remove image_iff split: option.splits)
  show "map_of (mg_slot_index (evict_slot s m)) s' =
    (if s' = s then None else map_of (mg_slot_index m) s')"
    by (auto simp: evict_slot_def bt.lookup_remove split: option.splits)
qed

lemma evict_slot_inv:
  assumes "merger_inv m"
  shows "merger_inv (evict_slot s m)"
proof -
  have "hm_inv (mg_state (evict_slot s m)) \<and> bt_inv (mg_slot_index (evict_slot s m))"
    using assms by (simp add: evict_slot_def merger_inv_def hm.invar_fold_remove bt.invar_remove
        split: option.splits)
  with assms show ?thesis
    by (auto simp: merger_inv_def evict_slot_lookup [OF assms])
qed

lemma evict_slots_fields [simp]:
  "mg_out (fold evict_slot ss m) = mg_out m"
  "mg_counters (fold evict_slot ss m) = mg_counters m"
  "mg_max_slot (fold evict_slot ss m) = mg_max_slot m"
  by (induction ss arbitrary: m) simp_all

lemma evict_slots_inv: "merger_inv m \<Longrightarrow> merger_inv (fold evict_slot ss m)"
  by (induction ss arbitrary: m) (simp_all add: evict_slot_inv)

lemma evict_slots_lookup:
  "merger_inv m \<Longrightarrow> map_of (mg_state (fold evict_slot ss m)) (s, h) =
    (if s \<in> set ss then None else map_of (mg_state m) (s, h))"
  by (induction ss arbitrary: m) (auto simp: evict_slot_lookup evict_slot_inv)

text \<open>The lower end of the dedup window. Before the first \<open>DEDUP_WINDOW_SLOTS\<close> slots
  nothing is ever evicted.\<close>

definition window_start :: "u64 \<Rightarrow> u64" where
  "window_start mx = (if mx > DEDUP_WINDOW_SLOTS then mx - DEDUP_WINDOW_SLOTS else 0)"

lemma window_start_mono: "a \<le> b \<Longrightarrow> window_start a \<le> window_start b"
  by (auto simp: window_start_def word_le_nat_alt word_less_nat_alt unat_sub)

lemma advance_window_fields:
  "mg_out (advance_window s m) = mg_out m"
  "mg_counters (advance_window s m) = mg_counters m"
  "mg_max_slot (advance_window s m) = max (mg_max_slot m) s"
  by (auto simp: advance_window_def Let_def max_def)

lemma merger_inv_max_slot [simp]: "merger_inv (m\<lparr>mg_max_slot := x\<rparr>) = merger_inv m"
  by (simp add: merger_inv_def)

lemma advance_window_inv: "merger_inv m \<Longrightarrow> merger_inv (advance_window s m)"
  by (simp add: advance_window_def Let_def evict_slots_inv)

lemma advance_window_lookup:
  assumes "merger_inv m" "window_start (max (mg_max_slot m) s) \<le> s'"
  shows "map_of (mg_state (advance_window s m)) (s', h) = map_of (mg_state m) (s', h)"
  using assms
  by (auto simp: advance_window_def Let_def evict_slots_lookup window_start_def max_def
      dest!: set_takeWhileD split: if_splits)

lemma process_inv:
  assumes "merger_inv m"
  shows "merger_inv (process acc obs src m)"
  using assms
  by (auto simp: process_def intro!: advance_window_inv process_vacant_inv process_occupied_inv
      split: option.splits)

lemma process_max_slot: "mg_max_slot (process acc obs src m) = max (mg_max_slot m) (obs_slot obs)"
  by (simp add: process_def advance_window_fields process_vacant_fields process_occupied_fields
      split: option.splits)

section \<open>History\<close>

text \<open>The observations a run takes from its channels, in order, with the channel.\<close>

fun merger_received :: "merger_event list \<Rightarrow> (entry_observation \<times> source_kind) list" where
  "merger_received [] = []"
| "merger_received (MStop # es) = []"
| "merger_received (MClosed # es) = []"
| "merger_received (MRecvSs ob # es) = (ob, ShredStream) # merger_received es"
| "merger_received (MRecvYs ob # es) = (ob, Yellowstone) # merger_received es"

definition count_received :: "source_kind \<Rightarrow> merger \<Rightarrow> merger" where
  "count_received src m = m\<lparr>mg_counters := (case src of
     ShredStream \<Rightarrow> (mg_counters m)\<lparr>mc_ss_received := mc_ss_received (mg_counters m) + 1\<rparr>
   | Yellowstone \<Rightarrow> (mg_counters m)\<lparr>mc_ys_received := mc_ys_received (mg_counters m) + 1\<rparr>)\<rparr>"

definition merger_step ::
  "merged_entry accept \<Rightarrow> entry_observation \<times> source_kind \<Rightarrow> merger \<Rightarrow> merger" where
  "merger_step acc r m = process acc (fst r) (snd r) (count_received (snd r) m)"

lemma merger_run_fold:
  "merger_run acc es m = fold (merger_step acc) (merger_received es) m"
  by (induction acc es m rule: merger_run.induct) (simp_all add: merger_step_def count_received_def)

text \<open>What the output channel was offered for one key, and the first arrival of a key.\<close>

definition emitted_for :: "u64 \<times> hash \<Rightarrow> merger \<Rightarrow> merged_entry list" where
  "emitted_for k m = filter (\<lambda>e. obs_key (me_observation e) = k) (attempts (mg_out m))"

definition first_arrival ::
  "u64 \<times> hash \<Rightarrow> (entry_observation \<times> source_kind) list \<Rightarrow> merged_entry list" where
  "first_arrival k R = map (\<lambda>r. \<lparr> me_observation = fst r, me_first_seen_source = snd r \<rparr>)
     (take 1 (filter (\<lambda>r. obs_key (fst r) = k) R))"

definition merger_hist :: "(entry_observation \<times> source_kind) list \<Rightarrow> merger \<Rightarrow> bool" where
  "merger_hist R m \<longleftrightarrow> merger_inv m \<and> (\<forall>r \<in> set R. obs_slot (fst r) \<le> mg_max_slot m) \<and>
     (\<forall>s h. window_start (mg_max_slot m) \<le> s \<longrightarrow>
        (map_of (mg_state m) (s, h) \<noteq> None \<longleftrightarrow> first_arrival (s, h) R \<noteq> []) \<and>
        emitted_for (s, h) m = first_arrival (s, h) R)"

lemma first_arrival_snoc:
  "first_arrival k (R @ [r]) =
    (if first_arrival k R \<noteq> [] then first_arrival k R
     else if obs_key (fst r) = k then [\<lparr> me_observation = fst r, me_first_seen_source = snd r \<rparr>]
     else [])"
  by (auto simp: first_arrival_def Suc_le_eq)

lemma count_received_fields [simp]:
  "mg_state (count_received src m) = mg_state m" "mg_out (count_received src m) = mg_out m"
  "mg_slot_index (count_received src m) = mg_slot_index m"
  "mg_max_slot (count_received src m) = mg_max_slot m"
  "merger_inv (count_received src m) = merger_inv m"
  by (simp_all add: count_received_def)

text \<open>One observation, seen through the window: presence in the dedup map and emissions.\<close>

lemma process_window:
  assumes inv: "merger_inv m"
    and win: "window_start (max (mg_max_slot m) (obs_slot obs)) \<le> s"
  shows "map_of (mg_state (process acc obs src m)) (s, h) \<noteq> None \<longleftrightarrow>
      (obs_key obs = (s, h) \<or> map_of (mg_state m) (s, h) \<noteq> None)"
    and "emitted_for (s, h) (process acc obs src m) = emitted_for (s, h) m @
      (if obs_key obs = (s, h) \<and> map_of (mg_state m) (s, h) = None
       then [\<lparr> me_observation = obs, me_first_seen_source = src \<rparr>] else [])"
proof -
  show "map_of (mg_state (process acc obs src m)) (s, h) \<noteq> None \<longleftrightarrow>
      (obs_key obs = (s, h) \<or> map_of (mg_state m) (s, h) \<noteq> None)"
  proof (cases "map_of (mg_state m) (obs_key obs)")
    case None
    then show ?thesis
      using advance_window_lookup [OF process_vacant_inv [OF inv], of acc obs src "obs_slot obs" s h] win
      by (auto simp: process_def process_vacant_fields hm.lookup_insert)
  next
    case (Some d)
    then have "map_of (mg_state m) (obs_key obs) \<noteq> None" by simp
    from advance_window_lookup [OF process_occupied_inv [OF inv this], of d src "obs_slot obs" s h]
      process_occupied_dom [OF this, of d src "(s, h)"] win Some
    show ?thesis by (auto simp: process_def process_occupied_fields)
  qed
  show "emitted_for (s, h) (process acc obs src m) = emitted_for (s, h) m @
      (if obs_key obs = (s, h) \<and> map_of (mg_state m) (s, h) = None
       then [\<lparr> me_observation = obs, me_first_seen_source = src \<rparr>] else [])"
    by (auto simp: process_def emitted_for_def advance_window_fields process_vacant_fields
        process_occupied_fields split: option.splits)
qed

lemma merger_hist_step:
  assumes hist: "merger_hist R m"
  shows "merger_hist (R @ [r]) (merger_step acc r m)"
proof -
  let ?m = "count_received (snd r) m" and ?m' = "merger_step acc r m"
  have inv: "merger_inv ?m" and R: "\<And>x. x \<in> set R \<Longrightarrow> obs_slot (fst x) \<le> mg_max_slot m"
    using hist by (auto simp: merger_hist_def)
  have mx: "mg_max_slot ?m' = max (mg_max_slot m) (obs_slot (fst r))"
    by (simp add: merger_step_def process_max_slot)
  have key: "(map_of (mg_state ?m') (s, h) \<noteq> None \<longleftrightarrow> first_arrival (s, h) (R @ [r]) \<noteq> []) \<and>
        emitted_for (s, h) ?m' = first_arrival (s, h) (R @ [r])"
    if w: "window_start (mg_max_slot ?m') \<le> s" for s h
  proof -
    have "window_start (mg_max_slot m) \<le> s"
      using w window_start_mono [of "mg_max_slot m" "mg_max_slot ?m'"] by (simp add: mx)
    then have old: "map_of (mg_state m) (s, h) \<noteq> None \<longleftrightarrow> first_arrival (s, h) R \<noteq> []"
      "emitted_for (s, h) m = first_arrival (s, h) R"
      using hist by (auto simp: merger_hist_def)
    have w': "window_start (max (mg_max_slot ?m) (obs_slot (fst r))) \<le> s" using w by (simp add: mx)
    show ?thesis
      using process_window [OF inv w', where acc = acc and src = "snd r" and h = h] old
      by (auto simp: merger_step_def first_arrival_snoc emitted_for_def)
  qed
  have "obs_slot (fst x) \<le> mg_max_slot ?m'" if "x \<in> set (R @ [r])" for x
    using that R [of x] by (auto simp: mx le_max_iff_disj)
  moreover have "merger_inv ?m'"
    unfolding merger_step_def by (rule process_inv [OF inv])
  ultimately show ?thesis
    using key unfolding merger_hist_def by blast
qed

lemma merger_hist_run:
  "merger_hist R m \<Longrightarrow> merger_hist (R @ rs) (fold (merger_step acc) rs m)"
proof (induction rs arbitrary: R m)
  case (Cons r rs)
  from merger_hist_step [OF Cons.prems] have "merger_hist (R @ [r]) (merger_step acc r m)" .
  from Cons.IH [OF this] show ?case by simp
qed simp

lemma merger_hist_init: "merger_hist [] merger_init"
  by (simp add: merger_hist_def merger_inv_init first_arrival_def)
    (simp add: merger_init_def emitted_for_def)

section \<open>Counters\<close>

definition merger_counts :: "(entry_observation \<times> source_kind) list \<Rightarrow> merger \<Rightarrow> bool" where
  "merger_counts R m \<longleftrightarrow> (let c = mg_counters m in
     mc_ss_received c + mc_ys_received c = of_nat (length R) \<and>
     mc_ss_first c + mc_ys_first c = of_nat (length (mg_out m)) \<and>
     mc_ss_received c + mc_ys_received c =
       mc_ss_first c + mc_ys_first c + mc_confirmed_by_both c + mc_duplicates c \<and>
     mc_output_full c = of_nat (refused (mg_out m)))"

lemma merger_counts_init: "merger_counts [] merger_init"
  by (simp add: merger_counts_def merger_init_def merger_counters_new_def)

lemma merger_counts_step:
  assumes "merger_counts R m"
  shows "merger_counts (R @ [r]) (merger_step acc r m)"
  using assms
  by (auto simp: merger_counts_def merger_step_def process_def advance_window_fields count_received_def
      process_vacant_def process_occupied_def record_confirm_latency_def try_send_def Let_def
      algebra_simps split: option.splits source_kind.splits dedup_state.splits)

definition latency_ok :: "merger_counters \<Rightarrow> bool" where
  "latency_ok c \<longleftrightarrow> mc_confirmed_by_both c = 0 \<or> mc_confirm_latency_min_ns c \<le> mc_confirm_latency_max_ns c"

lemma latency_ok_step: "latency_ok (mg_counters m) \<Longrightarrow> latency_ok (mg_counters (merger_step acc r m))"
  by (auto simp: latency_ok_def merger_step_def process_def advance_window_fields count_received_def
      process_vacant_def process_occupied_def record_confirm_latency_def try_send_def Let_def
      max_def min_def split: option.splits source_kind.splits dedup_state.splits)

lemma merger_run_invariant:
  assumes "P [] merger_init" and "\<And>R m r. P R m \<Longrightarrow> P (R @ [r]) (merger_step acc r m)"
  shows "P (merger_received es) (merger_run acc es merger_init)"
proof -
  have "P (R @ rs) (fold (merger_step acc) rs m)" if "P R m" for R rs m
    using that
  proof (induction rs arbitrary: R m)
    case (Cons r rs)
    from Cons.IH [OF assms(2) [OF Cons.prems]] show ?case by simp
  qed simp
  from this [OF assms(1)] show ?thesis by (simp add: merger_run_fold)
qed

section \<open>Properties\<close>

lemmas merger_eval = merger_init_def merger_counters_new_def process_def process_vacant_def
  process_occupied_def advance_window_def evict_slot_def try_send_def Let_def DEDUP_WINDOW_SLOTS_def
  window_start_def record_confirm_latency_def emitted_for_def demo_obs_def

text \<open>C6: For every key whose slot is still inside the dedup window at the end of a run, the
  output channel was offered exactly one entry, the first arrival of that key with the source
  that delivered it, and none if the key never arrived; whatever the channel accepted.\<close>

theorem merger_exactly_once:
  assumes "window_start (mg_max_slot (merger_run acc es merger_init)) \<le> s"
  shows "emitted_for (s, h) (merger_run acc es merger_init) =
    first_arrival (s, h) (merger_received es)"
  using merger_run_invariant [of merger_hist, OF merger_hist_init merger_hist_step] assms
  unfolding merger_hist_def by blast

theorem merger_exactly_once_witness:
  "emitted_for (100, 7) (merger_run (\<lambda>_ _. True)
     [MRecvSs (demo_obs 100 0 7 0), MRecvYs (demo_obs 100 0 7 0), MRecvSs (demo_obs 300 0 8 0)]
     merger_init) =
   [\<lparr> me_observation = demo_obs 100 0 7 0, me_first_seen_source = ShredStream \<rparr>]"
proof -
  let ?es = "[MRecvSs (demo_obs 100 0 7 0), MRecvYs (demo_obs 100 0 7 0), MRecvSs (demo_obs 300 0 8 0)]"
  have "window_start (mg_max_slot (merger_run (\<lambda>_ _. True) ?es merger_init)) \<le> 100"
    by (simp add: merger_eval)
  from merger_exactly_once [OF this, of 7] show ?thesis
    by (simp add: first_arrival_def demo_obs_def)
qed

text \<open>The counters account for every message: received = first + confirmed + duplicate,
  one first per entry offered downstream, one \<open>output_full\<close> per refusal (all modulo
  \<open>2^64\<close>, as the atomics wrap).\<close>

theorem merger_conservation:
  "merger_counts (merger_received es) (merger_run acc es merger_init)"
  by (rule merger_run_invariant [of merger_counts, OF merger_counts_init merger_counts_step])

text \<open>In every snapshot the minimal inter-source latency is at most the maximal one,
  also before the first confirmation, where the internal minimum is \<open>u64::MAX\<close>.\<close>

theorem merger_latency_bounds:
  "let c = merger_snapshot (mg_counters (merger_run acc es merger_init))
   in mc_confirm_latency_min_ns c \<le> mc_confirm_latency_max_ns c"
proof -
  have "latency_ok (mg_counters (merger_run acc es merger_init))"
    by (rule merger_run_invariant [of "\<lambda>_ m. latency_ok (mg_counters m)"])
      (simp_all add: latency_ok_step, simp add: latency_ok_def merger_init_def merger_counters_new_def)
  then show ?thesis by (auto simp: merger_snapshot_def latency_ok_def)
qed

text \<open>An observation that advances the frontier leaves no key below the new window in
  the dedup map, so its memory is bounded by the keys of the window.\<close>

theorem merger_window_evicted:
  assumes "m = merger_run acc es merger_init" "mg_max_slot m < obs_slot ob"
    and "map_of (mg_state (process acc ob src m)) (s, h) \<noteq> None"
  shows "window_start (obs_slot ob) \<le> s"
proof (rule ccontr)
  assume s: "\<not> window_start (obs_slot ob) \<le> s"
  define m1 where "m1 = (case map_of (mg_state m) (obs_key ob) of
         None \<Rightarrow> process_vacant acc ob src m | Some d \<Rightarrow> process_occupied d ob src m)"
  have "merger_hist (merger_received es) m"
    unfolding assms(1) by (rule merger_run_invariant [of merger_hist, OF merger_hist_init merger_hist_step])
  then have "merger_inv m" by (simp add: merger_hist_def)
  then have inv: "merger_inv m1"
    by (auto simp: m1_def process_vacant_inv process_occupied_inv split: option.splits)
  have mx: "mg_max_slot m1 = mg_max_slot m"
    by (simp add: m1_def process_vacant_fields process_occupied_fields split: option.splits)
  have "map_of (mg_state (advance_window (obs_slot ob) m1)) (s, h) \<noteq> None"
    using assms(3) by (simp add: process_def m1_def)
  moreover from this have "map_of (mg_slot_index m1) s \<noteq> None" if "s \<notin> set ss" for ss
    using inv by (auto simp: merger_inv_def advance_window_def Let_def evict_slots_lookup split: if_splits)
  ultimately show False
    using inv s assms(2)
    by (auto simp: advance_window_def Let_def mx window_start_def evict_slots_lookup
        bt.takeWhile_less_keys merger_inv_def split: if_splits)
qed

theorem merger_window_evicted_witness:
  "window_start 301 \<le> (301::u64) \<and>
   map_of (mg_state (process (\<lambda>_ _. True) (demo_obs 301 0 8 0) ShredStream
     (merger_run (\<lambda>_ _. True) [MRecvSs (demo_obs 100 0 7 0)] merger_init))) (301, 8) \<noteq> None"
proof -
  let ?m = "merger_run (\<lambda>_ _. True) [MRecvSs (demo_obs 100 0 7 0)] merger_init"
  have 1: "mg_max_slot ?m < obs_slot (demo_obs 301 0 8 0)" by (simp add: merger_eval)
  have 2: "map_of (mg_state (process (\<lambda>_ _. True) (demo_obs 301 0 8 0) ShredStream ?m)) (301, 8) \<noteq> None"
    by (simp add: merger_eval)
  from merger_window_evicted [OF refl 1 2] 2 show ?thesis by (simp add: demo_obs_def)
qed

text \<open>Outside the window the guarantee of the README (every unique key passes exactly
  once) does not hold: a key that is repeated after its slot left the window is emitted again.\<close>

theorem merger_readmits_evicted_key:
  "length (emitted_for (100, 7) (merger_run (\<lambda>_ _. True)
     [MRecvSs (demo_obs 100 0 7 0), MRecvSs (demo_obs 301 0 8 0), MRecvYs (demo_obs 100 0 7 0)]
     merger_init)) = 2"
  by (simp add: merger_eval)

end
