(* ===== verification/Ordering_Tracker.thy ===== *)
theory Ordering_Tracker
  imports Observation
begin

text \<open>
  The per-slot ordering tracker of phase 1,
  \<open>crates/tick-trigger-fan-out-bench/src/ordering.rs\<close>: how far out of order the
  entries of a slot arrived, which indices never came, and whether the slot ended on a
  tick. The counters behind \<open>Arc\<close> and the fields behind the locks are one record.
\<close>

section \<open>Data\<close>

record slot_ordering_report =
  sr_slot :: u64
  sr_entries_seen :: u32
  sr_max_index :: u32
  sr_out_of_order_count :: u32
  sr_max_backward_gap :: u32
  sr_missing_indices :: "u32 list"
  sr_last_entry_was_tick :: bool
  sr_last_entry_tx_count :: u32

record ordering_counters =
  oc_slots_sealed :: u64
  oc_slots_fully_ordered :: u64
  oc_slots_with_disorder :: u64
  oc_slots_with_gaps :: u64
  oc_slots_ending_on_tick :: u64
  oc_total_out_of_order :: u64
  oc_total_missing_indices :: u64

definition ordering_counters_default :: ordering_counters where
  "ordering_counters_default = \<lparr> oc_slots_sealed = 0, oc_slots_fully_ordered = 0,
     oc_slots_with_disorder = 0, oc_slots_with_gaps = 0, oc_slots_ending_on_tick = 0,
     oc_total_out_of_order = 0, oc_total_missing_indices = 0 \<rparr>"

text \<open>A \<open>BTreeSet\<close> is a \<open>BTreeMap\<close> to the unit type.\<close>

record slot_progress =
  sp_seen_indices :: "(u32, unit) btree_map"
  sp_max_index_at_arrival :: u32
  sp_out_of_order :: u32
  sp_max_backward_gap :: u32
  sp_last_entry :: "(u32 \<times> u32) option"

definition slot_progress_default :: slot_progress where
  "slot_progress_default = \<lparr> sp_seen_indices = [], sp_max_index_at_arrival = 0,
     sp_out_of_order = 0, sp_max_backward_gap = 0, sp_last_entry = None \<rparr>"

record ordering_tracker =
  ot_counters :: ordering_counters
  ot_in_progress :: "(u64, slot_progress) btree_map"
  ot_sealed_reports :: "slot_ordering_report list"
  ot_high_water :: u64
  ot_seal_lag :: u64

definition tracker_new :: "u64 \<Rightarrow> ordering_tracker" where
  "tracker_new seal_lag = \<lparr> ot_counters = ordering_counters_default, ot_in_progress = [],
     ot_sealed_reports = [], ot_high_water = 0, ot_seal_lag = seal_lag \<rparr>"

section \<open>Operations\<close>

definition build_report :: "u64 \<Rightarrow> slot_progress \<Rightarrow> slot_ordering_report" where
  "build_report slot prog =
    (let (last_idx, last_tx_count) = (case sp_last_entry prog of None \<Rightarrow> (0, 0) | Some p \<Rightarrow> p);
         missing = (if sp_seen_indices prog = [] then []
           else filter (\<lambda>i. map_of (sp_seen_indices prog) i = None)
                  (map of_nat [0 ..< Suc (unat last_idx)]))
     in \<lparr> sr_slot = slot,
          sr_entries_seen = of_nat (length (sp_seen_indices prog)),
          sr_max_index = last_idx,
          sr_out_of_order_count = sp_out_of_order prog,
          sr_max_backward_gap = sp_max_backward_gap prog,
          sr_missing_indices = missing,
          sr_last_entry_was_tick = (last_tx_count = 0),
          sr_last_entry_tx_count = last_tx_count \<rparr>)"

definition update_counters :: "slot_ordering_report \<Rightarrow> ordering_counters \<Rightarrow> ordering_counters" where
  "update_counters r c = \<lparr>
     oc_slots_sealed = oc_slots_sealed c + 1,
     oc_slots_fully_ordered = oc_slots_fully_ordered c +
       (if sr_out_of_order_count r = 0 \<and> sr_missing_indices r = [] then 1 else 0),
     oc_slots_with_disorder = oc_slots_with_disorder c + (if sr_out_of_order_count r > 0 then 1 else 0),
     oc_slots_with_gaps = oc_slots_with_gaps c + (if sr_missing_indices r \<noteq> [] then 1 else 0),
     oc_slots_ending_on_tick = oc_slots_ending_on_tick c + (if sr_last_entry_was_tick r then 1 else 0),
     oc_total_out_of_order = oc_total_out_of_order c + ucast (sr_out_of_order_count r),
     oc_total_missing_indices = oc_total_missing_indices c + of_nat (length (sr_missing_indices r)) \<rparr>"

text \<open>The loop over \<open>to_seal\<close>: remove, report, count, keep.\<close>

fun seal_slots :: "u64 list \<Rightarrow> ordering_tracker \<Rightarrow> ordering_tracker \<times> slot_ordering_report list" where
  "seal_slots [] t = (t, [])"
| "seal_slots (s # ss) t =
    (case map_of (ot_in_progress t) s of
       None \<Rightarrow> seal_slots ss t
     | Some prog \<Rightarrow>
         let report = build_report s prog;
             t1 = t\<lparr> ot_in_progress := bt_remove s (ot_in_progress t),
                    ot_counters := update_counters report (ot_counters t),
                    ot_sealed_reports := ot_sealed_reports t @ [report] \<rparr>;
             (t2, reports) = seal_slots ss t1
         in (t2, report # reports))"

definition maybe_seal :: "ordering_tracker \<Rightarrow> ordering_tracker \<times> slot_ordering_report list" where
  "maybe_seal t =
    (if ot_high_water t \<le> ot_seal_lag t then (t, [])
     else let cutoff = ot_high_water t - ot_seal_lag t
          in seal_slots (filter (\<lambda>s. s \<le> cutoff) (map_keys (ot_in_progress t))) t)"

text \<open>The update of the slot's progress by one entry.\<close>

definition observe_progress :: "u32 \<Rightarrow> u32 \<Rightarrow> slot_progress \<Rightarrow> slot_progress" where
  "observe_progress idx tx_count prog =
    (let prog1 =
       (if idx < sp_max_index_at_arrival prog then
          let gap = sp_max_index_at_arrival prog - idx
          in prog\<lparr> sp_out_of_order := sp_out_of_order prog + 1,
                   sp_max_backward_gap :=
                     (if gap > sp_max_backward_gap prog then gap else sp_max_backward_gap prog) \<rparr>
        else if idx > sp_max_index_at_arrival prog then
          prog\<lparr> sp_max_index_at_arrival := idx, sp_last_entry := Some (idx, tx_count) \<rparr>
        else prog)
     in prog1\<lparr>sp_seen_indices := bt_insert idx () (sp_seen_indices prog1)\<rparr>)"

definition observe ::
  "entry_observation \<Rightarrow> ordering_tracker \<Rightarrow> ordering_tracker \<times> slot_ordering_report list" where
  "observe obs t =
    (let slot = obs_slot obs;
         hw = (if slot > ot_high_water t then slot else ot_high_water t);
         prog = (case map_of (ot_in_progress t) slot of None \<Rightarrow> slot_progress_default | Some p \<Rightarrow> p)
     in maybe_seal (t\<lparr> ot_high_water := hw,
          ot_in_progress := bt_insert slot
            (observe_progress (obs_entry_index obs) (obs_tx_count obs) prog) (ot_in_progress t) \<rparr>))"

definition flush_all :: "ordering_tracker \<Rightarrow> ordering_tracker \<times> slot_ordering_report list" where
  "flush_all t = seal_slots (map_keys (ot_in_progress t)) t"

section \<open>The progress record of one slot\<close>

text \<open>Specification of the statistics of one slot over its arrivals \<open>(index, tx_count)\<close>.\<close>

definition highest :: "(u32 \<times> u32) list \<Rightarrow> u32" where
  "highest xs = fold (\<lambda>x m. max m (fst x)) xs 0"

fun count_late :: "u32 \<Rightarrow> (u32 \<times> u32) list \<Rightarrow> nat" where
  "count_late m [] = 0"
| "count_late m (x # xs) = (if fst x < m then 1 else 0) + count_late (max m (fst x)) xs"

definition progress_of :: "(u32 \<times> u32) list \<Rightarrow> slot_progress" where
  "progress_of xs = fold (\<lambda>x. observe_progress (fst x) (snd x)) xs slot_progress_default"

lemma highest_simps [simp]:
  "highest [] = 0" "highest [x] = fst x" "highest (xs @ [x]) = max (highest xs) (fst x)"
  by (simp_all add: highest_def)

lemma progress_of_simps [simp]:
  "progress_of [] = slot_progress_default"
  "progress_of [x] = observe_progress (fst x) (snd x) slot_progress_default"
  "progress_of (xs @ [x]) = observe_progress (fst x) (snd x) (progress_of xs)"
  by (simp_all add: progress_of_def)

lemma highest_ge: "x \<in> set xs \<Longrightarrow> fst x \<le> highest xs"
  by (induction xs rule: rev_induct) (auto simp: le_max_iff_disj)

lemma highest_in: "xs \<noteq> [] \<Longrightarrow> highest xs \<in> fst ` set xs"
proof (induction xs rule: rev_induct)
  case (snoc x xs)
  then show ?case by (cases "xs = []") (auto simp: highest_def max_def)
qed simp

lemma count_late_snoc:
  "count_late m (xs @ [x]) =
     count_late m xs + (if fst x < fold (\<lambda>x m. max m (fst x)) xs m then 1 else 0)"
  by (induction xs arbitrary: m) auto

lemma count_late_zero: "count_late m xs = 0 \<longleftrightarrow> sorted (m # map fst xs)"
proof (induction xs arbitrary: m)
  case (Cons x xs)
  then show ?case by (auto simp: max_def not_less)
qed simp

lemma progress_max: "sp_max_index_at_arrival (progress_of xs) = highest xs"
  by (induction xs rule: rev_induct)
    (auto simp: slot_progress_default_def observe_progress_def Let_def max_def)

lemma progress_late: "sp_out_of_order (progress_of xs) = of_nat (count_late 0 xs)"
  by (induction xs rule: rev_induct)
    (auto simp: slot_progress_default_def observe_progress_def Let_def count_late_snoc progress_max
      highest_def)

lemma observe_progress_seen:
  "sp_seen_indices (observe_progress i n p) = bt_insert i () (sp_seen_indices p)"
  by (simp add: observe_progress_def Let_def)

lemma progress_seen:
  "bt_inv (sp_seen_indices (progress_of xs))"
  "set (map_keys (sp_seen_indices (progress_of xs))) = fst ` set xs"
proof -
  show "bt_inv (sp_seen_indices (progress_of xs))"
    by (induction xs rule: rev_induct)
      (auto simp: slot_progress_default_def observe_progress_seen bt.invar_insert)
  show "set (map_keys (sp_seen_indices (progress_of xs))) = fst ` set xs"
    by (induction xs rule: rev_induct)
      (simp_all add: slot_progress_default_def observe_progress_seen)
qed

text \<open>\<open>last_entry\<close> is set by the first arrival of each new maximum above index 0.\<close>

lemma progress_last:
  "sp_last_entry (progress_of xs) =
    (if highest xs = 0 then None
     else Some (hd (filter (\<lambda>x. fst x = highest xs) xs)))"
proof (induction xs rule: rev_induct)
  case (snoc x xs)
  have "filter (\<lambda>y. fst y = highest xs) xs \<noteq> []" if "xs \<noteq> []"
    using highest_in [OF that] by (force simp: filter_empty_conv)
  moreover have "filter (\<lambda>y. fst y = fst x) xs = []" if "highest xs < fst x"
    using that highest_ge by (fastforce simp: filter_empty_conv)
  ultimately show ?case
    using snoc
    by (cases "xs = []")
      (auto simp: observe_progress_def Let_def progress_max max_def slot_progress_default_def
        not_less)
qed (simp add: slot_progress_default_def)

section \<open>The tracker\<close>

lemma seal_slots_lag: "ot_seal_lag (fst (seal_slots ss t)) = ot_seal_lag t"
  and seal_slots_hw: "ot_high_water (fst (seal_slots ss t)) = ot_high_water t"
  by (induction ss t rule: seal_slots.induct) (auto simp: Let_def case_prod_beta split: option.splits)

lemma seal_slots_lookup:
  "map_of (ot_in_progress (fst (seal_slots ss t))) s =
    (if s \<in> set ss then None else map_of (ot_in_progress t) s)"
proof (induction ss t rule: seal_slots.induct)
  case (2 a ss t)
  then show ?case
    by (cases "map_of (ot_in_progress t) a") (auto simp: Let_def bt.lookup_remove case_prod_beta)
qed simp

lemma seal_slots_reports:
  "ot_sealed_reports (fst (seal_slots ss t)) = ot_sealed_reports t @ snd (seal_slots ss t)"
  by (induction ss t rule: seal_slots.induct) (auto simp: Let_def case_prod_beta split: option.splits)

lemma maybe_seal_hw: "ot_high_water (fst (maybe_seal t)) = ot_high_water t"
  by (simp add: maybe_seal_def Let_def seal_slots_hw)

lemma maybe_seal_behind:
  assumes "ot_seal_lag t < ot_high_water t" "s \<le> ot_high_water t - ot_seal_lag t"
  shows "map_of (ot_in_progress (fst (maybe_seal t))) s = None"
proof (cases "map_of (ot_in_progress t) s")
  case (Some p)
  then have "s \<in> set (map_keys (ot_in_progress t))" using bt.in_keys [of s "ot_in_progress t"] by simp
  with assms show ?thesis by (auto simp: maybe_seal_def Let_def seal_slots_lookup simp del: map_of_eq_None_iff)
qed (use assms in \<open>simp add: maybe_seal_def Let_def seal_slots_lookup\<close>)

text \<open>The arrivals of one slot in a list of observations.\<close>

definition arrivals :: "u64 \<Rightarrow> entry_observation list \<Rightarrow> (u32 \<times> u32) list" where
  "arrivals s R = map (\<lambda>ob. (obs_entry_index ob, obs_tx_count ob)) (filter (\<lambda>ob. obs_slot ob = s) R)"

lemma arrivals_simps [simp]:
  "arrivals s [] = []"
  "arrivals s (R @ [ob]) = arrivals s R @
    (if obs_slot ob = s then [(obs_entry_index ob, obs_tx_count ob)] else [])"
  by (simp_all add: arrivals_def)

text \<open>Every sealed report describes a block of arrivals of its slot; the blocks of a slot and
  its open arrivals are, in order, all arrivals of the slot.\<close>

definition block_reports :: "(u64 \<times> (u32 \<times> u32) list) list \<Rightarrow> slot_ordering_report list" where
  "block_reports segs = map (\<lambda>p. build_report (fst p) (progress_of (snd p))) segs"

definition blocks_of :: "u64 \<Rightarrow> (u64 \<times> (u32 \<times> u32) list) list \<Rightarrow> (u32 \<times> u32) list" where
  "blocks_of s segs = concat (map snd (filter (\<lambda>p. fst p = s) segs))"

definition tracker_hist ::
  "entry_observation list \<Rightarrow> (u64 \<times> (u32 \<times> u32) list) list \<Rightarrow> (u64 \<Rightarrow> (u32 \<times> u32) list) \<Rightarrow>
    ordering_tracker \<Rightarrow> bool" where
  "tracker_hist R segs op t \<longleftrightarrow>
     ot_sealed_reports t = block_reports segs \<and>
     (\<forall>p \<in> set segs. snd p \<noteq> []) \<and>
     (\<forall>s. map_of (ot_in_progress t) s = (if op s = [] then None else Some (progress_of (op s)))) \<and>
     (\<forall>s. blocks_of s segs @ op s = arrivals s R)"

lemma seal_slots_hist:
  "tracker_hist R segs op t \<Longrightarrow>
    \<exists>segs' op'. tracker_hist R segs' op' (fst (seal_slots ss t))"
proof (induction ss t arbitrary: segs op rule: seal_slots.induct)
  case (1 t)
  then show ?case by auto
next
  case (2 a ss t)
  show ?case
  proof (cases "op a = []")
    case True
    then have "map_of (ot_in_progress t) a = None" using "2.prems" by (simp add: tracker_hist_def)
    with "2.IH"(1) "2.prems" show ?thesis by auto
  next
    case False
    then have look: "map_of (ot_in_progress t) a = Some (progress_of (op a))"
      using "2.prems" by (simp add: tracker_hist_def)
    let ?r = "build_report a (progress_of (op a))"
    let ?t1 = "t\<lparr> ot_in_progress := bt_remove a (ot_in_progress t),
      ot_counters := update_counters ?r (ot_counters t),
      ot_sealed_reports := ot_sealed_reports t @ [?r] \<rparr>"
    have "tracker_hist R (segs @ [(a, op a)]) (op(a := [])) ?t1"
      using "2.prems" False
      by (auto simp: tracker_hist_def block_reports_def blocks_of_def bt.lookup_remove)
    from "2.IH"(2) [OF look refl refl this] show ?thesis
      using look by (simp add: Let_def case_prod_beta)
  qed
qed

lemma maybe_seal_hist:
  "tracker_hist R segs op t \<Longrightarrow> \<exists>segs' op'. tracker_hist R segs' op' (fst (maybe_seal t))"
  by (auto simp: maybe_seal_def Let_def intro: seal_slots_hist)

lemma observe_hist:
  assumes "tracker_hist R segs op t"
  shows "\<exists>segs' op'. tracker_hist (R @ [ob]) segs' op' (fst (observe ob t))"
proof -
  let ?s = "obs_slot ob"
  have "tracker_hist (R @ [ob]) segs (op(?s := op ?s @ [(obs_entry_index ob, obs_tx_count ob)]))
     (t\<lparr> ot_high_water := hw, ot_in_progress := bt_insert ?s
        (observe_progress (obs_entry_index ob) (obs_tx_count ob)
          (case map_of (ot_in_progress t) ?s of None \<Rightarrow> slot_progress_default | Some p \<Rightarrow> p))
        (ot_in_progress t) \<rparr>)" for hw
    using assms by (auto simp: tracker_hist_def bt.lookup_insert)
  from maybe_seal_hist [OF this] show ?thesis by (simp add: observe_def Let_def)
qed

definition tracker_run :: "entry_observation list \<Rightarrow> ordering_tracker \<Rightarrow> ordering_tracker" where
  "tracker_run R t = fold (\<lambda>ob t. fst (observe ob t)) R t"

lemma tracker_run_simps [simp]:
  "tracker_run [] t = t" "tracker_run (R @ [ob]) t = fst (observe ob (tracker_run R t))"
  by (simp_all add: tracker_run_def)

lemma tracker_run_hist: "\<exists>segs op. tracker_hist R segs op (tracker_run R (tracker_new lag))"
proof (induction R rule: rev_induct)
  case Nil
  have "tracker_hist [] [] (\<lambda>_. []) (tracker_new lag)"
    by (simp add: tracker_hist_def tracker_new_def block_reports_def blocks_of_def)
  then show ?case by auto
next
  case (snoc ob R)
  then show ?case by (auto intro: observe_hist)
qed

text \<open>The counters are the totals of the reports handed out so far.\<close>

definition counters_of :: "slot_ordering_report list \<Rightarrow> ordering_counters" where
  "counters_of rs = \<lparr>
     oc_slots_sealed = of_nat (length rs),
     oc_slots_fully_ordered = of_nat (length (filter
        (\<lambda>r. sr_out_of_order_count r = 0 \<and> sr_missing_indices r = []) rs)),
     oc_slots_with_disorder = of_nat (length (filter (\<lambda>r. sr_out_of_order_count r > 0) rs)),
     oc_slots_with_gaps = of_nat (length (filter (\<lambda>r. sr_missing_indices r \<noteq> []) rs)),
     oc_slots_ending_on_tick = of_nat (length (filter sr_last_entry_was_tick rs)),
     oc_total_out_of_order = sum_list (map (\<lambda>r. ucast (sr_out_of_order_count r)) rs),
     oc_total_missing_indices = sum_list (map (\<lambda>r. of_nat (length (sr_missing_indices r))) rs) \<rparr>"

lemma counters_of_snoc: "counters_of (rs @ [r]) = update_counters r (counters_of rs)"
  by (simp add: counters_of_def update_counters_def)

lemma seal_slots_counters:
  "ot_counters t = counters_of (ot_sealed_reports t) \<Longrightarrow>
    ot_counters (fst (seal_slots ss t)) = counters_of (ot_sealed_reports (fst (seal_slots ss t)))"
proof (induction ss t rule: seal_slots.induct)
  case (2 a ss t)
  then show ?case
    by (cases "map_of (ot_in_progress t) a") (simp_all add: Let_def counters_of_snoc case_prod_beta)
qed simp

lemma observe_counters:
  "ot_counters t = counters_of (ot_sealed_reports t) \<Longrightarrow>
    ot_counters (fst (observe ob t)) = counters_of (ot_sealed_reports (fst (observe ob t)))"
  by (simp add: observe_def maybe_seal_def Let_def seal_slots_counters)

lemma tracker_run_counters:
  "ot_counters (tracker_run R (tracker_new lag)) =
    counters_of (ot_sealed_reports (tracker_run R (tracker_new lag)))"
proof (induction R rule: rev_induct)
  case Nil
  show ?case by (simp add: tracker_new_def counters_of_def ordering_counters_default_def)
qed (simp add: observe_counters)

section \<open>Properties\<close>

lemma build_report_progress:
  assumes "xs \<noteq> []"
  shows "sr_max_index (build_report s (progress_of xs)) = highest xs"
    and "sr_missing_indices (build_report s (progress_of xs)) =
      filter (\<lambda>i. i \<notin> fst ` set xs) (map of_nat [0 ..< Suc (unat (highest xs))])"
    and "sr_entries_seen (build_report s (progress_of xs)) = of_nat (card (fst ` set xs))"
    and "sr_out_of_order_count (build_report s (progress_of xs)) = of_nat (count_late 0 xs)"
proof -
  have hd: "fst (hd (filter (\<lambda>x. fst x = highest xs) xs)) = highest xs"
  proof -
    have "filter (\<lambda>x. fst x = highest xs) xs \<noteq> []"
      using highest_in [OF assms] by (force simp: filter_empty_conv)
    from hd_in_set [OF this] show ?thesis by simp
  qed
  have seen: "map_of (sp_seen_indices (progress_of xs)) i = None \<longleftrightarrow> i \<notin> fst ` set xs" for i
    using progress_seen(2) [of xs] by (simp add: map_of_eq_None_iff)
  have ne: "sp_seen_indices (progress_of xs) \<noteq> []"
    using progress_seen(2) [of xs] assms by auto
  have card: "length (sp_seen_indices (progress_of xs)) = card (fst ` set xs)"
    using progress_seen(2) [of xs] distinct_card [OF bt_inv_distinct [OF progress_seen(1) [of xs]]]
    by simp
  show "sr_max_index (build_report s (progress_of xs)) = highest xs"
    using hd by (auto simp: build_report_def progress_last Let_def case_prod_beta)
  show "sr_missing_indices (build_report s (progress_of xs)) =
      filter (\<lambda>i. i \<notin> fst ` set xs) (map of_nat [0 ..< Suc (unat (highest xs))])"
    using hd ne by (auto simp: build_report_def progress_last Let_def case_prod_beta seen)
  show "sr_entries_seen (build_report s (progress_of xs)) = of_nat (card (fst ` set xs))"
    "sr_out_of_order_count (build_report s (progress_of xs)) = of_nat (count_late 0 xs)"
    by (simp_all add: build_report_def Let_def case_prod_beta card progress_late)
qed

lemma set_upto_word: "of_nat ` {0 ..< Suc (unat (m::u32))} = {i. i \<le> m}"
proof -
  have "i \<in> of_nat ` {0 ..< Suc (unat m)}" if "i \<le> m" for i :: u32
    using that by (intro image_eqI [of _ _ "unat i"]) (auto simp: word_le_nat_alt)
  moreover have "(of_nat n :: u32) \<le> m" if "n < Suc (unat m)" for n
    using that by (metis less_Suc_eq_le le_unat_uoi word_le_nat_alt)
  ultimately show ?thesis by auto
qed

text \<open>C25: The report of a slot that saw at least one entry names the highest index, exactly
  the indices below it that never arrived, the number of distinct indices, and the number of
  arrivals behind the maximum of their predecessors.\<close>

theorem slot_report_correct:
  assumes "xs \<noteq> []"
  shows "let r = build_report s (progress_of xs) in
    sr_max_index r = Max (fst ` set xs) \<and>
    set (sr_missing_indices r) = {i. i \<le> Max (fst ` set xs)} - fst ` set xs \<and>
    sr_entries_seen r = of_nat (card (fst ` set xs)) \<and>
    sr_out_of_order_count r = of_nat (count_late 0 xs)"
proof -
  have "highest xs = Max (fst ` set xs)"
    using highest_in [OF assms] highest_ge by (intro Max_eqI [symmetric]) auto
  then show ?thesis
    using set_upto_word [of "highest xs"]
    by (auto simp: build_report_progress [OF assms] Let_def simp del: upt_Suc)
qed

theorem slot_report_correct_witness:
  "sr_missing_indices (build_report 100 (progress_of [(0, 1), (1, 1), (5, 1), (3, 1), (4, 1), (6, 0)])) = [2] \<and>
   sr_out_of_order_count (build_report 100 (progress_of [(0, 1), (1, 1), (5, 1), (3, 1), (4, 1), (6, 0)])) =
     of_nat (count_late 0 [(0, 1), (1, 1), (5, 1), (3, 1), (4, 1), (6, 0)])"
  using slot_report_correct [of "[(0, 1), (1, 1), (5, 1), (3, 1), (4, 1), (6, 0)]" 100]
  by (simp add: Let_def build_report_progress highest_def upt_rec)

text \<open>A slot is counted as fully ordered exactly when its entries arrived in
  non-decreasing index order and no index below the highest is missing (for fewer than
  \<open>2^32\<close> arrivals, so that the 32-bit count does not wrap).\<close>

theorem fully_ordered_iff:
  assumes "xs \<noteq> []" "length xs < 2 ^ 32"
  shows "oc_slots_fully_ordered (update_counters (build_report s (progress_of xs)) c) =
    oc_slots_fully_ordered c +
      (if sorted (map fst xs) \<and> fst ` set xs = {i. i \<le> highest xs} then 1 else 0)"
proof -
  have "count_late m ys \<le> length ys" for m ys
    by (induction ys arbitrary: m) (auto simp: le_SucI)
  then have "count_late 0 xs < 2 ^ 32" using assms(2) by (rule order.strict_trans1)
  then have late: "(of_nat (count_late 0 xs) :: u32) = 0 \<longleftrightarrow> sorted (map fst xs)"
    using count_late_zero [of 0 xs] by (auto simp: word_of_nat_eq_0_iff elim: dvdE dest: nat_dvd_not_less)
  have "filter (\<lambda>i. i \<notin> fst ` set xs) (map of_nat [0 ..< Suc (unat (highest xs))]) = [] \<longleftrightarrow>
      {i. i \<le> highest xs} \<subseteq> fst ` set xs"
    using set_upto_word [of "highest xs"] by (auto simp: filter_empty_conv simp del: upt_Suc)
  also have "\<dots> \<longleftrightarrow> fst ` set xs = {i. i \<le> highest xs}" using highest_ge by auto
  finally show ?thesis
    using late by (simp add: update_counters_def build_report_progress [OF assms(1)])
qed

theorem fully_ordered_iff_witness:
  "oc_slots_fully_ordered (update_counters (build_report 100 (progress_of [(0, 1), (1, 0)]))
     ordering_counters_default) = 1"
proof -
  have "fst ` set [(0::u32, 1::u32), (1, 0)] = {i. i \<le> highest [(0, 1), (1, 0)]}"
    using set_upto_word [of 1] by (simp add: highest_def atLeast0LessThan lessThan_Suc insert_commute)
  with fully_ordered_iff [of "[(0, 1), (1, 0)]" 100 ordering_counters_default] show ?thesis
    by (simp add: ordering_counters_default_def)
qed

text \<open>No observation is lost or counted twice: after a run and \<open>flush_all\<close>, the sealed
  reports describe non-empty blocks of arrivals, and the blocks of every slot are, in order,
  all its arrivals.\<close>

theorem tracker_accounts_every_arrival:
  "\<exists>segs. ot_sealed_reports (fst (flush_all (tracker_run R (tracker_new lag)))) = block_reports segs \<and>
     [] \<notin> snd ` set segs \<and> (\<forall>s. blocks_of s segs = arrivals s R)"
proof -
  let ?t = "tracker_run R (tracker_new lag)"
  obtain segs op where "tracker_hist R segs op ?t" using tracker_run_hist by blast
  from seal_slots_hist [OF this] obtain segs' op' where h: "tracker_hist R segs' op' (fst (flush_all ?t))"
    unfolding flush_all_def by blast
  have "map_of (ot_in_progress (fst (flush_all ?t))) s = None" for s
    by (auto simp: flush_all_def seal_slots_lookup map_of_eq_None_iff)
  with h have "op' s = []" for s
    unfolding tracker_hist_def by (metis option.distinct(1))
  with h show ?thesis unfolding tracker_hist_def by (intro exI [of _ segs']) force
qed

text \<open>At every moment the counters are the totals over the reports sealed so far.\<close>

theorem tracker_counters_total:
  "ot_counters (fst (flush_all (tracker_run R (tracker_new lag)))) =
    counters_of (ot_sealed_reports (fst (flush_all (tracker_run R (tracker_new lag)))))"
  unfolding flush_all_def by (rule seal_slots_counters [OF tracker_run_counters])

text \<open>A slot whose only entries have index 0 is always reported as ending on a tick
  with zero transactions, whatever it carried: \<open>last_entry\<close> is only set above index 0.\<close>

theorem single_entry_reported_as_tick:
  "sr_last_entry_was_tick (build_report s (progress_of [(0, n)])) \<and>
   sr_last_entry_tx_count (build_report s (progress_of [(0, n)])) = 0"
  by (simp add: build_report_def observe_progress_def slot_progress_default_def Let_def)

text \<open>After an observation no slot that is \<open>seal_lag\<close> or more behind the high-water mark
  is still in progress, and the mark is the highest slot observed.\<close>

theorem observe_seals_behind:
  assumes "ot_seal_lag t < ot_high_water (fst (observe ob t))"
    and "s \<le> ot_high_water (fst (observe ob t)) - ot_seal_lag t"
  shows "map_of (ot_in_progress (fst (observe ob t))) s = None"
  using assms unfolding observe_def Let_def maybe_seal_hw by (intro maybe_seal_behind) simp_all

theorem observe_seals_behind_witness:
  "map_of (ot_in_progress (fst (observe (demo_obs 104 0 9 1)
     (tracker_run [demo_obs 100 0 7 1] (tracker_new 3))))) 100 = None"
proof (rule observe_seals_behind)
  let ?t = "tracker_run [demo_obs 100 0 7 1] (tracker_new 3)"
  have lag: "ot_seal_lag ?t = 3"
    by (simp add: tracker_run_def observe_def maybe_seal_def Let_def seal_slots_lag tracker_new_def)
  have hw: "ot_high_water (fst (observe (demo_obs 104 0 9 1) ?t)) = 104"
    by (simp add: tracker_run_def observe_def maybe_seal_def Let_def seal_slots_hw tracker_new_def
        demo_obs_def)
  show "ot_seal_lag ?t < ot_high_water (fst (observe (demo_obs 104 0 9 1) ?t))"
    "100 \<le> ot_high_water (fst (observe (demo_obs 104 0 9 1) ?t)) - ot_seal_lag ?t"
    by (simp_all add: lag hw)
qed

end
