(* ===== verification/Poh_Supervisor.thy ===== *)
theory Poh_Supervisor
  imports Merger
begin

text \<open>
  The PoH supervisor, \<open>crates/tick-trigger-fan-out-bench/src/poh_supervisor.rs\<close>: it
  reorders the merged stream into index order per slot, fills gaps with \<open>Missing\<close> markers
  after a timeout and closes every slot with \<open>SlotComplete\<close> or \<open>SlotIncomplete\<close>.
  \<open>poh_slot\<close> is the state of one slot, \<open>sup_env\<close> the counters and the log of the output
  channel, \<open>supervisor\<close> the loop variables of \<open>run_loop\<close>. Every reading of the clock is
  an argument \<open>now\<close>. Properties of the machine are in theory \<open>Poh_Supervisor_Spec\<close>.
\<close>

section \<open>Data\<close>

definition HASHES_PER_TICK :: u64 where "HASHES_PER_TICK = 62500"

definition TICKS_PER_SLOT :: u8 where "TICKS_PER_SLOT = 64"

record ordered_entry =
  oe_slot :: u64
  oe_entry_index :: u32
  oe_tick_idx_in_slot :: u8
  oe_cumulative_hashes_in_slot :: u64
  oe_observation :: entry_observation
  oe_was_reordered :: bool
  oe_wait_duration_us :: u32
  oe_tick_uncertain :: bool

record ordered_missing =
  om_slot :: u64
  om_entry_index :: u32
  om_waited_for_us :: u32

record ordered_slot_complete =
  osc_slot :: u64
  osc_total_entries :: u32
  osc_last_entry_hash :: hash
  osc_last_tick_observed :: u8
  osc_missing_count :: u32

record ordered_slot_incomplete =
  osi_slot :: u64
  osi_last_seen_index :: u32
  osi_last_entry_hash :: hash
  osi_last_tick_observed :: u8
  osi_missing_count :: u32

datatype ordered_event =
  Entry ordered_entry | Missing ordered_missing |
  SlotComplete ordered_slot_complete | SlotIncomplete ordered_slot_incomplete

record supervisor_counters =
  pc_entries_emitted_immediate :: u64
  pc_entries_emitted_reordered :: u64
  pc_entries_missing_timeout :: u64
  pc_slots_complete :: u64
  pc_slots_incomplete :: u64
  pc_slots_with_missing :: u64
  pc_reorder_wait_sum_us :: u64
  pc_reorder_wait_max_us :: u64
  pc_pending_peak_size :: u64
  pc_pending_drops_capacity :: u64
  pc_duplicates_dropped :: u64
  pc_output_full :: u64
  pc_late_arrivals_after_seal :: u64

definition supervisor_counters_default :: supervisor_counters where
  "supervisor_counters_default = \<lparr> pc_entries_emitted_immediate = 0,
     pc_entries_emitted_reordered = 0, pc_entries_missing_timeout = 0, pc_slots_complete = 0,
     pc_slots_incomplete = 0, pc_slots_with_missing = 0, pc_reorder_wait_sum_us = 0,
     pc_reorder_wait_max_us = 0, pc_pending_peak_size = 0, pc_pending_drops_capacity = 0,
     pc_duplicates_dropped = 0, pc_output_full = 0, pc_late_arrivals_after_seal = 0 \<rparr>"

record pending_entry =
  pe_merged :: merged_entry
  pe_buffered_at :: instant

record poh_slot =
  ps_next_expected_idx :: u32
  ps_pending :: "(u32, pending_entry) btree_map"
  ps_cumulative_hashes :: u64
  ps_hashes_since_last_tick :: u64
  ps_tick_idx :: u8
  ps_last_entry_hash :: "hash option"
  ps_last_entry_index :: u32
  ps_has_missing :: bool
  ps_missing_count :: u32
  ps_total_emitted :: u32
  ps_last_emit_at :: "instant option"
  ps_sealed :: bool

definition poh_slot_default :: poh_slot where
  "poh_slot_default = \<lparr> ps_next_expected_idx = 0, ps_pending = [], ps_cumulative_hashes = 0,
     ps_hashes_since_last_tick = 0, ps_tick_idx = 0, ps_last_entry_hash = None,
     ps_last_entry_index = 0, ps_has_missing = False, ps_missing_count = 0,
     ps_total_emitted = 0, ps_last_emit_at = None, ps_sealed = False \<rparr>"

record sup_config =
  cfg_entry_timeout :: duration
  cfg_slot_seal_lag_slots :: u64
  cfg_max_pending_per_slot :: nat
  cfg_tick_check_interval :: duration

record sup_env =
  env_counters :: supervisor_counters
  env_out :: "ordered_event chan"

text \<open>\<open>out_tx.try_send(event)\<close> with the \<open>output_full\<close> count.\<close>

definition send_event :: "ordered_event accept \<Rightarrow> ordered_event \<Rightarrow> sup_env \<Rightarrow> sup_env" where
  "send_event acc ev env =
    (let (out', ok) = try_send acc (env_out env) ev; c = env_counters env
     in env\<lparr> env_counters := (if ok then c else c\<lparr>pc_output_full := pc_output_full c + 1\<rparr>),
             env_out := out' \<rparr>)"

section \<open>Emission\<close>

text \<open>The state update of \<open>emit_entry\<close>: hash sums, lenient tick count, last entry.\<close>

definition account_entry :: "entry_observation \<Rightarrow> instant \<Rightarrow> poh_slot \<Rightarrow> poh_slot" where
  "account_entry obs now st =
    (let st1 = st\<lparr>
           ps_cumulative_hashes := saturating_add (ps_cumulative_hashes st) (obs_num_hashes obs),
           ps_hashes_since_last_tick :=
             saturating_add (ps_hashes_since_last_tick st) (obs_num_hashes obs) \<rparr>;
         st2 = (if obs_tx_count obs = 0 \<and> ps_tick_idx st1 < TICKS_PER_SLOT
           then st1\<lparr> ps_tick_idx := saturating_add (ps_tick_idx st1) 1,
                     ps_hashes_since_last_tick := 0 \<rparr>
           else st1)
     in st2\<lparr> ps_last_entry_hash := Some (obs_entry_hash obs),
             ps_last_entry_index := obs_entry_index obs,
             ps_last_emit_at := Some now,
             ps_total_emitted := saturating_add (ps_total_emitted st2) 1 \<rparr>)"

definition entry_event :: "entry_observation \<Rightarrow> bool \<Rightarrow> u32 \<Rightarrow> poh_slot \<Rightarrow> ordered_event" where
  "entry_event obs was_reordered wait_us st = Entry \<lparr>
     oe_slot = obs_slot obs, oe_entry_index = obs_entry_index obs,
     oe_tick_idx_in_slot = ps_tick_idx st,
     oe_cumulative_hashes_in_slot = ps_cumulative_hashes st,
     oe_observation = obs, oe_was_reordered = was_reordered,
     oe_wait_duration_us = wait_us, oe_tick_uncertain = ps_has_missing st \<rparr>"

definition count_emit :: "bool \<Rightarrow> u32 \<Rightarrow> supervisor_counters \<Rightarrow> supervisor_counters" where
  "count_emit was_reordered wait_us c =
    (if was_reordered then c\<lparr>
       pc_entries_emitted_reordered := pc_entries_emitted_reordered c + 1,
       pc_reorder_wait_sum_us := pc_reorder_wait_sum_us c + ucast wait_us,
       pc_reorder_wait_max_us := max (pc_reorder_wait_max_us c) (ucast wait_us) \<rparr>
     else c\<lparr>pc_entries_emitted_immediate := pc_entries_emitted_immediate c + 1\<rparr>)"

definition emit_entry ::
  "ordered_event accept \<Rightarrow> merged_entry \<Rightarrow> instant \<Rightarrow> bool \<Rightarrow> u32 \<Rightarrow>
    poh_slot \<times> sup_env \<Rightarrow> poh_slot \<times> sup_env" where
  "emit_entry acc merged now was_reordered wait_us se =
    (let obs = me_observation merged;
         st' = account_entry obs now (fst se);
         env = snd se
     in (st', send_event acc (entry_event obs was_reordered wait_us st')
           (env\<lparr>env_counters := count_emit was_reordered wait_us (env_counters env)\<rparr>)))"

definition waited_us :: "sup_config \<Rightarrow> instant \<Rightarrow> poh_slot \<Rightarrow> u32" where
  "waited_us cfg now st =
    (case ps_pending st of
       [] \<Rightarrow> micros_u32 (cfg_entry_timeout cfg)
     | (_, p) # _ \<Rightarrow> micros_u32 (saturating_duration_since now (pe_buffered_at p)))"

definition emit_missing ::
  "ordered_event accept \<Rightarrow> sup_config \<Rightarrow> u64 \<Rightarrow> instant \<Rightarrow>
    poh_slot \<times> sup_env \<Rightarrow> poh_slot \<times> sup_env" where
  "emit_missing acc cfg slot now se =
    (let st = fst se; env = snd se;
         event = Missing \<lparr> om_slot = slot, om_entry_index = ps_next_expected_idx st,
                           om_waited_for_us = waited_us cfg now st \<rparr>
     in (st\<lparr> ps_missing_count := saturating_add (ps_missing_count st) 1,
             ps_has_missing := True,
             ps_next_expected_idx := ps_next_expected_idx st + 1 \<rparr>,
         send_event acc event (env\<lparr>env_counters := (env_counters env)
           \<lparr>pc_entries_missing_timeout := pc_entries_missing_timeout (env_counters env) + 1\<rparr>\<rparr>)))"

text \<open>\<open>pop_first\<close>, \<open>emit_entry\<close> and the step of the expected index, which the three
  loops below share; \<open>p\<close> is the popped entry, \<open>rest\<close> what stays buffered.\<close>

definition emit_first ::
  "ordered_event accept \<Rightarrow> instant \<Rightarrow> pending_entry \<Rightarrow> (u32, pending_entry) btree_map \<Rightarrow>
    poh_slot \<times> sup_env \<Rightarrow> poh_slot \<times> sup_env" where
  "emit_first acc now p rest se =
    (let (st1, env1) = emit_entry acc (pe_merged p) now True
           (micros_u32 (saturating_duration_since now (pe_buffered_at p)))
           ((fst se)\<lparr>ps_pending := rest\<rparr>, snd se)
     in (st1\<lparr>ps_next_expected_idx := ps_next_expected_idx st1 + 1\<rparr>, env1))"

lemma account_entry_fields [simp]:
  "ps_pending (account_entry obs now st) = ps_pending st"
  "ps_next_expected_idx (account_entry obs now st) = ps_next_expected_idx st"
  "ps_sealed (account_entry obs now st) = ps_sealed st"
  "ps_has_missing (account_entry obs now st) = ps_has_missing st"
  "ps_missing_count (account_entry obs now st) = ps_missing_count st"
  "ps_last_entry_hash (account_entry obs now st) = Some (obs_entry_hash obs)"
  "ps_last_entry_index (account_entry obs now st) = obs_entry_index obs"
  "ps_total_emitted (account_entry obs now st) = saturating_add (ps_total_emitted st) 1"
  "ps_cumulative_hashes (account_entry obs now st) =
     saturating_add (ps_cumulative_hashes st) (obs_num_hashes obs)"
  by (simp_all add: account_entry_def Let_def)

lemma emit_first_fields [simp]:
  "ps_pending (fst (emit_first acc now p rest se)) = rest"
  "ps_next_expected_idx (fst (emit_first acc now p rest se)) = ps_next_expected_idx (fst se) + 1"
  "ps_sealed (fst (emit_first acc now p rest se)) = ps_sealed (fst se)"
  by (simp_all add: emit_first_def emit_entry_def Let_def)

lemma emit_missing_fields [simp]:
  "ps_pending (fst (emit_missing acc cfg slot now se)) = ps_pending (fst se)"
  "ps_next_expected_idx (fst (emit_missing acc cfg slot now se)) = ps_next_expected_idx (fst se) + 1"
  "ps_sealed (fst (emit_missing acc cfg slot now se)) = ps_sealed (fst se)"
  by (simp_all add: emit_missing_def Let_def)

section \<open>The loops over the reorder buffer\<close>

function drain_consecutive_pending ::
  "ordered_event accept \<Rightarrow> instant \<Rightarrow> poh_slot \<times> sup_env \<Rightarrow> poh_slot \<times> sup_env" where
  "drain_consecutive_pending acc now se =
    (case ps_pending (fst se) of
       [] \<Rightarrow> se
     | (first_idx, p) # rest \<Rightarrow>
         if first_idx \<noteq> ps_next_expected_idx (fst se) then se
         else drain_consecutive_pending acc now (emit_first acc now p rest se))"
  by pat_completeness auto
termination
  by (relation "measure (\<lambda>(acc, now, se). length (ps_pending (fst se)))") auto

text \<open>The distance of the expected index to the first buffered one, modulo \<open>2^32\<close>: a
  \<open>Missing\<close> marker lowers it even where the index wraps.\<close>

definition gap_to_first :: "poh_slot \<Rightarrow> nat" where
  "gap_to_first st = (case ps_pending st of [] \<Rightarrow> 0 | (k, _) # _ \<Rightarrow> unat (k - ps_next_expected_idx st))"

lemma gap_decreases:
  "k \<noteq> (n::u32) \<Longrightarrow> unat (k - (n + 1)) < unat (k - n)"
proof -
  assume "k \<noteq> n"
  then have d: "k - n \<noteq> 0" by simp
  have eq: "k - (n + 1) = (k - n) - 1" by (rule diff_diff_eq [symmetric])
  have "unat (k - n) \<noteq> 0" using d by (simp add: unat_eq_0)
  then show ?thesis unfolding eq unat_minus_one [OF d] by simp
qed

lemma emit_missing_gap:
  "ps_pending st = (k, p) # rest \<Longrightarrow> k \<noteq> ps_next_expected_idx st \<Longrightarrow>
    gap_to_first (fst (emit_missing acc cfg slot now (st, env))) < gap_to_first st"
  by (simp add: gap_to_first_def gap_decreases)

text \<open>The inner loop of phase A of \<open>sweep\<close>.\<close>

function sweep_slot ::
  "ordered_event accept \<Rightarrow> sup_config \<Rightarrow> u64 \<Rightarrow> instant \<Rightarrow> poh_slot \<times> sup_env \<Rightarrow> poh_slot \<times> sup_env" where
  "sweep_slot acc cfg slot now se =
    (case ps_pending (fst se) of
       [] \<Rightarrow> se
     | (first_idx, p) # rest \<Rightarrow>
         if first_idx = ps_next_expected_idx (fst se)
         then sweep_slot acc cfg slot now (emit_first acc now p rest se)
         else if saturating_duration_since now (pe_buffered_at p) \<ge> cfg_entry_timeout cfg
         then sweep_slot acc cfg slot now (emit_missing acc cfg slot now se)
         else se)"
  by pat_completeness auto
termination
  by (relation "measures [\<lambda>(acc, cfg, slot, now, se). length (ps_pending (fst se)),
      \<lambda>(acc, cfg, slot, now, se). gap_to_first (fst se)]") (auto simp: emit_missing_gap)

text \<open>The flush of \<open>seal_slot\<close>: emit what is buffered, a marker for every gap below it.\<close>

function seal_flush ::
  "ordered_event accept \<Rightarrow> sup_config \<Rightarrow> u64 \<Rightarrow> instant \<Rightarrow> u32 \<Rightarrow> poh_slot \<times> sup_env \<Rightarrow> poh_slot \<times> sup_env" where
  "seal_flush acc cfg slot now max_idx se =
    (if ps_next_expected_idx (fst se) \<le> max_idx then
       (case ps_pending (fst se) of
          [] \<Rightarrow> se
        | (first_idx, p) # rest \<Rightarrow>
            if first_idx = ps_next_expected_idx (fst se)
            then seal_flush acc cfg slot now max_idx (emit_first acc now p rest se)
            else seal_flush acc cfg slot now max_idx (emit_missing acc cfg slot now se))
     else se)"
  by pat_completeness auto
termination
  by (relation "measures [\<lambda>(acc, cfg, slot, now, m, se). length (ps_pending (fst se)),
      \<lambda>(acc, cfg, slot, now, m, se). gap_to_first (fst se)]") (auto simp: emit_missing_gap)

declare drain_consecutive_pending.simps [simp del] sweep_slot.simps [simp del] seal_flush.simps [simp del]

section \<open>One merged entry\<close>

type_synonym slots_env = "(u64, poh_slot) btree_map \<times> sup_env"

text \<open>What \<open>process\<close> does to an unsealed slot once \<open>last_emit_at\<close> is set.\<close>

definition process_open ::
  "ordered_event accept \<Rightarrow> sup_config \<Rightarrow> instant \<Rightarrow> merged_entry \<Rightarrow>
    poh_slot \<times> sup_env \<Rightarrow> poh_slot \<times> sup_env" where
  "process_open acc cfg now merged se =
    (let obs = me_observation merged; idx = obs_entry_index obs; st = fst se; env = snd se;
         c = env_counters env
     in if idx = ps_next_expected_idx st then
          let (st1, env1) = emit_entry acc merged now False 0 se
          in drain_consecutive_pending acc now
               (st1\<lparr>ps_next_expected_idx := ps_next_expected_idx st1 + 1\<rparr>, env1)
        else if idx > ps_next_expected_idx st then
          if length (ps_pending st) \<ge> cfg_max_pending_per_slot cfg then
            (st, env\<lparr>env_counters := c\<lparr>pc_pending_drops_capacity := pc_pending_drops_capacity c + 1\<rparr>\<rparr>)
          else
            let pending' = bt_insert idx \<lparr> pe_merged = merged, pe_buffered_at = now \<rparr> (ps_pending st)
            in (st\<lparr>ps_pending := pending'\<rparr>, env\<lparr>env_counters := c\<lparr>pc_pending_peak_size :=
                  max (pc_pending_peak_size c) (of_nat (length pending'))\<rparr>\<rparr>)
        else
          (if obs_tx_count obs = 0 \<and> ps_tick_idx st < TICKS_PER_SLOT
             then st\<lparr>ps_tick_idx := saturating_add (ps_tick_idx st) 1\<rparr> else st,
           env\<lparr>env_counters := c\<lparr>pc_duplicates_dropped := pc_duplicates_dropped c + 1\<rparr>\<rparr>))"

definition process_merged ::
  "ordered_event accept \<Rightarrow> sup_config \<Rightarrow> instant \<Rightarrow> merged_entry \<Rightarrow> slots_env \<Rightarrow> slots_env" where
  "process_merged acc cfg now merged sle =
    (let slot = obs_slot (me_observation merged); slots = fst sle; env = snd sle; c = env_counters env;
         st = (case map_of slots slot of None \<Rightarrow> poh_slot_default | Some st \<Rightarrow> st)
     in if ps_sealed st then
          (bt_insert slot st slots,
           env\<lparr>env_counters := c\<lparr>pc_late_arrivals_after_seal := pc_late_arrivals_after_seal c + 1\<rparr>\<rparr>)
        else
          let st0 = (if ps_last_emit_at st = None then st\<lparr>ps_last_emit_at := Some now\<rparr> else st);
              (st', env') = process_open acc cfg now merged (st0, env)
          in (bt_insert slot st' slots, env'))"

section \<open>Sealing and sweeping\<close>

definition seal_event :: "u64 \<Rightarrow> poh_slot \<Rightarrow> ordered_event" where
  "seal_event slot_key st =
    (let last_hash = (case ps_last_entry_hash st of None \<Rightarrow> 0 | Some h \<Rightarrow> h)
     in if ps_tick_idx st \<ge> TICKS_PER_SLOT then
          SlotComplete \<lparr> osc_slot = slot_key, osc_total_entries = ps_total_emitted st,
            osc_last_entry_hash = last_hash, osc_last_tick_observed = ps_tick_idx st,
            osc_missing_count = ps_missing_count st \<rparr>
        else
          SlotIncomplete \<lparr> osi_slot = slot_key, osi_last_seen_index = ps_last_entry_index st,
            osi_last_entry_hash = last_hash, osi_last_tick_observed = ps_tick_idx st,
            osi_missing_count = ps_missing_count st \<rparr>)"

definition count_seal :: "poh_slot \<Rightarrow> supervisor_counters \<Rightarrow> supervisor_counters" where
  "count_seal st c =
    (let c1 = (if ps_has_missing st then c\<lparr>pc_slots_with_missing := pc_slots_with_missing c + 1\<rparr> else c)
     in if ps_tick_idx st \<ge> TICKS_PER_SLOT
        then c1\<lparr>pc_slots_complete := pc_slots_complete c1 + 1\<rparr>
        else c1\<lparr>pc_slots_incomplete := pc_slots_incomplete c1 + 1\<rparr>)"

definition seal_open ::
  "ordered_event accept \<Rightarrow> sup_config \<Rightarrow> u64 \<Rightarrow> instant \<Rightarrow> poh_slot \<times> sup_env \<Rightarrow> poh_slot \<times> sup_env" where
  "seal_open acc cfg slot_key now se =
    (let (st1, env1) = (case ps_pending (fst se) of
           [] \<Rightarrow> se
         | _ \<Rightarrow> seal_flush acc cfg slot_key now (fst (last (ps_pending (fst se)))) se);
         st2 = st1\<lparr>ps_sealed := True\<rparr>
     in (st2, send_event acc (seal_event slot_key st2)
                (env1\<lparr>env_counters := count_seal st2 (env_counters env1)\<rparr>)))"

definition seal_slot ::
  "ordered_event accept \<Rightarrow> sup_config \<Rightarrow> instant \<Rightarrow> u64 \<Rightarrow> slots_env \<Rightarrow> slots_env" where
  "seal_slot acc cfg now slot_key sle =
    (case map_of (fst sle) slot_key of
       None \<Rightarrow> sle
     | Some st \<Rightarrow>
         if ps_sealed st then sle
         else let (st', env') = seal_open acc cfg slot_key now (st, snd sle)
              in (bt_insert slot_key st' (fst sle), env'))"

text \<open>Phase A of \<open>sweep\<close> for one key.\<close>

definition sweep_key ::
  "ordered_event accept \<Rightarrow> sup_config \<Rightarrow> instant \<Rightarrow> u64 \<Rightarrow> slots_env \<Rightarrow> slots_env" where
  "sweep_key acc cfg now slot_key sle =
    (case map_of (fst sle) slot_key of
       None \<Rightarrow> sle
     | Some st \<Rightarrow>
         if ps_sealed st then sle
         else let (st', env') = sweep_slot acc cfg slot_key now (st, snd sle)
              in (bt_insert slot_key st' (fst sle), env'))"

definition drop_cutoff :: "sup_config \<Rightarrow> u64 \<Rightarrow> u64" where
  "drop_cutoff cfg max_slot = saturating_sub max_slot (cfg_slot_seal_lag_slots cfg + 10)"

definition sweep ::
  "ordered_event accept \<Rightarrow> sup_config \<Rightarrow> u64 \<Rightarrow> instant \<Rightarrow> slots_env \<Rightarrow> slots_env" where
  "sweep acc cfg max_slot now sle =
    (let sle1 = fold (sweep_key acc cfg now) (map_keys (fst sle)) sle;
         sle2 = (if max_slot \<ge> cfg_slot_seal_lag_slots cfg then
             let cutoff = max_slot - cfg_slot_seal_lag_slots cfg;
                 to_seal = map fst (filter (\<lambda>(s, st). s \<le> cutoff \<and> \<not> ps_sealed st) (fst sle1))
             in fold (seal_slot acc cfg now) to_seal sle1
           else sle1)
     in (filter (\<lambda>(s, st). s > drop_cutoff cfg max_slot \<or> \<not> ps_sealed st) (fst sle2), snd sle2))"

section \<open>The supervisor thread\<close>

record supervisor =
  sv_slots :: "(u64, poh_slot) btree_map"
  sv_env :: sup_env
  sv_max_slot :: u64
  sv_last_sweep :: instant

definition supervisor_init :: "instant \<Rightarrow> supervisor" where
  "supervisor_init now = \<lparr> sv_slots = [],
     sv_env = \<lparr> env_counters = supervisor_counters_default, env_out = [] \<rparr>,
     sv_max_slot = 0, sv_last_sweep = now \<rparr>"

text \<open>One turn of the loop: what \<open>select!\<close> returned (with the clock as \<open>process\<close> reads it),
  then the clock of the sweep check. \<open>Stopped\<close> is the stop flag, \<open>Disconnected\<close> the
  closed channel.\<close>

datatype sup_turn = Recv merged_entry instant instant | Quiet instant | Disconnected | Stopped

definition maybe_sweep ::
  "ordered_event accept \<Rightarrow> sup_config \<Rightarrow> instant \<Rightarrow> supervisor \<Rightarrow> supervisor" where
  "maybe_sweep acc cfg now sv =
    (if saturating_duration_since now (sv_last_sweep sv) \<ge> cfg_tick_check_interval cfg then
       let sle = sweep acc cfg (sv_max_slot sv) now (sv_slots sv, sv_env sv)
       in sv\<lparr> sv_last_sweep := now, sv_slots := fst sle, sv_env := snd sle \<rparr>
     else sv)"

definition recv_merged ::
  "ordered_event accept \<Rightarrow> sup_config \<Rightarrow> instant \<Rightarrow> merged_entry \<Rightarrow> supervisor \<Rightarrow> supervisor" where
  "recv_merged acc cfg now merged sv =
    (let s = obs_slot (me_observation merged);
         sle = process_merged acc cfg now merged (sv_slots sv, sv_env sv)
     in sv\<lparr> sv_max_slot := (if s > sv_max_slot sv then s else sv_max_slot sv),
            sv_slots := fst sle, sv_env := snd sle \<rparr>)"

fun supervisor_loop ::
  "ordered_event accept \<Rightarrow> sup_config \<Rightarrow> sup_turn list \<Rightarrow> supervisor \<Rightarrow> supervisor" where
  "supervisor_loop acc cfg [] sv = sv"
| "supervisor_loop acc cfg (Stopped # ts) sv = sv"
| "supervisor_loop acc cfg (Disconnected # ts) sv = sv"
| "supervisor_loop acc cfg (Quiet now # ts) sv =
     supervisor_loop acc cfg ts (maybe_sweep acc cfg now sv)"
| "supervisor_loop acc cfg (Recv merged now1 now2 # ts) sv =
     supervisor_loop acc cfg ts (maybe_sweep acc cfg now2 (recv_merged acc cfg now1 merged sv))"

text \<open>After the loop: a last sweep, then every remaining slot is sealed.\<close>

definition final_flush ::
  "ordered_event accept \<Rightarrow> sup_config \<Rightarrow> instant \<Rightarrow> supervisor \<Rightarrow> supervisor" where
  "final_flush acc cfg now sv =
    (let sle1 = sweep acc cfg (sv_max_slot sv) now (sv_slots sv, sv_env sv);
         sle2 = fold (seal_slot acc cfg now) (map_keys (fst sle1)) sle1
     in sv\<lparr> sv_slots := fst sle2, sv_env := snd sle2 \<rparr>)"

definition supervisor_run ::
  "ordered_event accept \<Rightarrow> sup_config \<Rightarrow> instant \<Rightarrow> sup_turn list \<Rightarrow> instant \<Rightarrow> supervisor" where
  "supervisor_run acc cfg start ts stop_now =
    final_flush acc cfg stop_now (supervisor_loop acc cfg ts (supervisor_init start))"

end
