(* ===== verification/Poh_Supervisor_Spec.thy ===== *)
theory Poh_Supervisor_Spec
  imports Poh_Supervisor
begin

text \<open>
  What the supervisor promises, as an abstract machine over the events of one slot, and the
  simulation that the code implements it. A block is the events of a slot between two
  seals: indices \<open>0, 1, 2, \<dots>\<close> without gap or repetition (an \<open>Entry\<close> or a \<open>Missing\<close>
  each), the hash sum and the uncertainty flag computed from the block, and one closing
  event with the totals of the block. The locale \<open>slot_machine\<close> states what a relation on
  slot states must satisfy to hold across the buffer loops; it is interpreted on the
  simulation and on the counter bookkeeping.
\<close>

section \<open>The abstract machine\<close>

fun ev_slot :: "ordered_event \<Rightarrow> u64" where
  "ev_slot (Entry e) = oe_slot e"
| "ev_slot (Missing m) = om_slot m"
| "ev_slot (SlotComplete c) = osc_slot c"
| "ev_slot (SlotIncomplete i) = osi_slot i"

fun is_seal :: "ordered_event \<Rightarrow> bool" where
  "is_seal (SlotComplete c) = True"
| "is_seal (SlotIncomplete i) = True"
| "is_seal e = False"

fun is_entry :: "ordered_event \<Rightarrow> bool" where
  "is_entry (Entry e) = True" | "is_entry e = False"

fun is_missing :: "ordered_event \<Rightarrow> bool" where
  "is_missing (Missing m) = True" | "is_missing e = False"

text \<open>\<open>bk_next\<close> counts the events of the block, \<open>bk_tick\<close> is the tick number last shown.\<close>

record block =
  bk_next :: nat
  bk_entries :: nat
  bk_missing :: nat
  bk_hashes :: nat
  bk_tick :: u8
  bk_last :: "(u32 \<times> hash) option"

definition block_empty :: block where
  "block_empty = \<lparr> bk_next = 0, bk_entries = 0, bk_missing = 0, bk_hashes = 0, bk_tick = 0,
     bk_last = None \<rparr>"

definition last_hash :: "block \<Rightarrow> hash" where
  "last_hash b = (case bk_last b of None \<Rightarrow> 0 | Some (_, h) \<Rightarrow> h)"

definition last_index :: "block \<Rightarrow> u32" where
  "last_index b = (case bk_last b of None \<Rightarrow> 0 | Some (i, _) \<Rightarrow> i)"

definition entry_ok :: "block \<Rightarrow> ordered_entry \<Rightarrow> bool" where
  "entry_ok b e \<longleftrightarrow>
     oe_entry_index e = of_nat (bk_next b) \<and>
     obs_entry_index (oe_observation e) = oe_entry_index e \<and>
     obs_slot (oe_observation e) = oe_slot e \<and>
     oe_cumulative_hashes_in_slot e = sat64 (bk_hashes b + unat (obs_num_hashes (oe_observation e))) \<and>
     oe_tick_uncertain e = (bk_missing b > 0) \<and>
     bk_tick b \<le> oe_tick_idx_in_slot e \<and> oe_tick_idx_in_slot e \<le> TICKS_PER_SLOT \<and>
     (is_tick (oe_observation e) \<and> bk_tick b < TICKS_PER_SLOT \<longrightarrow> bk_tick b < oe_tick_idx_in_slot e)"

fun block_step :: "block \<Rightarrow> ordered_event \<Rightarrow> block option" where
  "block_step b (Entry e) =
     (if entry_ok b e then Some \<lparr>
        bk_next = Suc (bk_next b), bk_entries = Suc (bk_entries b), bk_missing = bk_missing b,
        bk_hashes = bk_hashes b + unat (obs_num_hashes (oe_observation e)),
        bk_tick = oe_tick_idx_in_slot e,
        bk_last = Some (oe_entry_index e, obs_entry_hash (oe_observation e)) \<rparr> else None)"
| "block_step b (Missing m) =
     (if om_entry_index m = of_nat (bk_next b)
      then Some (b\<lparr> bk_next := Suc (bk_next b), bk_missing := Suc (bk_missing b) \<rparr>) else None)"
| "block_step b (SlotComplete c) =
     (if osc_total_entries c = sat32 (bk_entries b) \<and> osc_missing_count c = sat32 (bk_missing b) \<and>
         osc_last_entry_hash c = last_hash b \<and> osc_last_tick_observed c = TICKS_PER_SLOT
      then Some block_empty else None)"
| "block_step b (SlotIncomplete i) =
     (if osi_last_seen_index i = last_index b \<and> osi_missing_count i = sat32 (bk_missing b) \<and>
         osi_last_entry_hash i = last_hash b \<and> bk_tick b \<le> osi_last_tick_observed i \<and>
         osi_last_tick_observed i < TICKS_PER_SLOT
      then Some block_empty else None)"

fun block_run :: "block \<Rightarrow> ordered_event list \<Rightarrow> block option" where
  "block_run b [] = Some b"
| "block_run b (e # es) = (case block_step b e of None \<Rightarrow> None | Some b' \<Rightarrow> block_run b' es)"

lemma block_run_append:
  "block_run b (es @ fs) = (case block_run b es of None \<Rightarrow> None | Some b' \<Rightarrow> block_run b' fs)"
  by (induction es arbitrary: b) (auto split: option.splits)

section \<open>The interface of the buffer loops\<close>

locale slot_machine =
  fixes acc :: "ordered_event accept" and cfg :: sup_config
    and R :: "u64 \<Rightarrow> poh_slot \<times> sup_env \<Rightarrow> poh_slot \<times> sup_env \<Rightarrow> bool"
  assumes R_refl: "R s se se"
    and R_trans: "R s se1 se2 \<Longrightarrow> R s se2 se3 \<Longrightarrow> R s se1 se3"
    and R_first: "ps_pending (fst se) = (k, p) # rest \<Longrightarrow> k = ps_next_expected_idx (fst se) \<Longrightarrow>
      R s se (emit_first acc now p rest se)"
    and R_missing: "ps_pending (fst se) = (k, p) # rest \<Longrightarrow> k \<noteq> ps_next_expected_idx (fst se) \<Longrightarrow>
      R s se (emit_missing acc cfg s now se)"
begin

lemma R_drain: "a = acc \<Longrightarrow> R s se (drain_consecutive_pending a now se)"
proof (induction a now se rule: drain_consecutive_pending.induct)
  case (1 a now se)
  show ?case
  proof (cases "\<exists>k p rest. ps_pending (fst se) = (k, p) # rest \<and> k = ps_next_expected_idx (fst se)")
    case True
    then obtain k p rest where q: "ps_pending (fst se) = (k, p) # rest" "k = ps_next_expected_idx (fst se)"
      by auto
    from R_trans [OF R_first [OF q, of s now], of "drain_consecutive_pending a now (emit_first a now p rest se)"]
      "1.IH" [OF q(1) refl] "1.prems" q
    show ?thesis by (simp add: drain_consecutive_pending.simps [of acc now se])
  qed (use "1.prems" in \<open>auto simp: drain_consecutive_pending.simps [of acc now se] R_refl split: list.splits\<close>)
qed

lemma R_sweep: "a = acc \<Longrightarrow> c = cfg \<Longrightarrow> R s se (sweep_slot a c s now se)"
proof (induction a c s now se rule: sweep_slot.induct)
  case (1 a c s now se)
  show ?case
  proof (cases "ps_pending (fst se)")
    case (Cons kp rest)
    obtain k p where q: "ps_pending (fst se) = (k, p) # rest" using Cons by (cases kp) auto
    show ?thesis
    proof (cases "k = ps_next_expected_idx (fst se)")
      case True
      with R_trans [OF R_first [OF q True, of s now]] "1.IH"(1) [OF q refl True] "1.prems" q
      show ?thesis by (simp add: sweep_slot.simps [of acc cfg s now se])
    next
      case False
      with R_trans [OF R_missing [OF q False, of s now]] "1.IH"(2) [OF q refl False] "1.prems" q
      show ?thesis by (simp add: sweep_slot.simps [of acc cfg s now se] R_refl)
    qed
  qed (use "1.prems" in \<open>simp add: sweep_slot.simps [of acc cfg s now se] R_refl\<close>)
qed

lemma R_flush: "a = acc \<Longrightarrow> c = cfg \<Longrightarrow> R s se (seal_flush a c s now m se)"
proof (induction a c s now m se rule: seal_flush.induct)
  case (1 a c s now m se)
  show ?case
  proof (cases "ps_next_expected_idx (fst se) \<le> m \<and> ps_pending (fst se) \<noteq> []")
    case True
    then obtain k p rest where q: "ps_pending (fst se) = (k, p) # rest" and le: "ps_next_expected_idx (fst se) \<le> m"
      by (cases "ps_pending (fst se)") auto
    show ?thesis
    proof (cases "k = ps_next_expected_idx (fst se)")
      case True
      with R_trans [OF R_first [OF q True, of s now]] "1.IH"(1) [OF le q refl True] "1.prems" q le
      show ?thesis by (simp add: seal_flush.simps [of acc cfg s now m se])
    next
      case False
      with R_trans [OF R_missing [OF q False, of s now]] "1.IH"(2) [OF le q refl False] "1.prems" q le
      show ?thesis by (simp add: seal_flush.simps [of acc cfg s now m se])
    qed
  qed (use "1.prems" in \<open>auto simp: seal_flush.simps [of acc cfg s now m se] R_refl\<close>)
qed

end

section \<open>The simulation\<close>

definition slot_events :: "u64 \<Rightarrow> sup_env \<Rightarrow> ordered_event list" where
  "slot_events s env = filter (\<lambda>e. ev_slot e = s) (attempts (env_out env))"

text \<open>Buffered entries belong to the slot, sit under their own index, and are not behind the
  expected index.\<close>

definition slot_wf :: "u64 \<Rightarrow> poh_slot \<Rightarrow> bool" where
  "slot_wf s st \<longleftrightarrow> bt_inv (ps_pending st) \<and>
     (\<forall>(k, p) \<in> set (ps_pending st).
        obs_slot (me_observation (pe_merged p)) = s \<and>
        obs_entry_index (me_observation (pe_merged p)) = k \<and> ps_next_expected_idx st \<le> k)"

definition slot_sim :: "poh_slot \<Rightarrow> block \<Rightarrow> bool" where
  "slot_sim st b \<longleftrightarrow>
     ps_next_expected_idx st = of_nat (bk_next b) \<and>
     ps_total_emitted st = sat32 (bk_entries b) \<and>
     ps_missing_count st = sat32 (bk_missing b) \<and>
     ps_has_missing st = (bk_missing b > 0) \<and>
     ps_cumulative_hashes st = sat64 (bk_hashes b) \<and>
     bk_tick b \<le> ps_tick_idx st \<and> ps_tick_idx st \<le> TICKS_PER_SLOT \<and>
     ps_last_entry_hash st = map_option snd (bk_last b) \<and>
     ps_last_entry_index st = last_index b"

definition slot_open :: "u64 \<Rightarrow> block \<Rightarrow> poh_slot \<Rightarrow> bool" where
  "slot_open s b st \<longleftrightarrow> slot_wf s st \<and> \<not> ps_sealed st \<and> slot_sim st b"

text \<open>\<open>se'\<close> continues the block of \<open>se\<close> by events of slot \<open>s\<close> the machine accepts.\<close>

definition continues :: "u64 \<Rightarrow> poh_slot \<times> sup_env \<Rightarrow> poh_slot \<times> sup_env \<Rightarrow> bool" where
  "continues s se se' \<longleftrightarrow> (\<forall>b. slot_open s b (fst se) \<longrightarrow>
     (\<exists>evs b'. attempts (env_out (snd se')) = attempts (env_out (snd se)) @ evs \<and>
        ev_slot ` set evs \<subseteq> {s} \<and> filter is_seal evs = [] \<and>
        block_run b evs = Some b' \<and> slot_open s b' (fst se')))"

lemma continues_refl: "continues s se se"
  unfolding continues_def by (intro allI impI exI [of _ "[]"]) auto

lemma continues_trans:
  assumes "continues s se1 se2" "continues s se2 se3"
  shows "continues s se1 se3"
  unfolding continues_def
proof (intro allI impI)
  fix b assume "slot_open s b (fst se1)"
  then obtain evs b' where 1: "attempts (env_out (snd se2)) = attempts (env_out (snd se1)) @ evs"
    "ev_slot ` set evs \<subseteq> {s}" "filter is_seal evs = []" "block_run b evs = Some b'" "slot_open s b' (fst se2)"
    using assms(1) unfolding continues_def by blast
  then obtain evs' b'' where 2: "attempts (env_out (snd se3)) = attempts (env_out (snd se2)) @ evs'"
    "ev_slot ` set evs' \<subseteq> {s}" "filter is_seal evs' = []" "block_run b' evs' = Some b''" "slot_open s b'' (fst se3)"
    using assms(2) unfolding continues_def by blast
  show "\<exists>evs b'. attempts (env_out (snd se3)) = attempts (env_out (snd se1)) @ evs \<and>
        ev_slot ` set evs \<subseteq> {s} \<and> filter is_seal evs = [] \<and>
        block_run b evs = Some b' \<and> slot_open s b' (fst se3)"
    using 1 2 by (intro exI [of _ "evs @ evs'"] exI [of _ b'']) (auto simp: block_run_append)
qed

lemma send_event_out [simp]:
  "attempts (env_out (send_event acc ev env)) = attempts (env_out env) @ [ev]"
  by (simp add: send_event_def try_send_def Let_def)

lemma saturating_add_tick: "(t :: u8) < TICKS_PER_SLOT \<Longrightarrow> saturating_add t 1 = t + 1"
  by (simp add: saturating_add_def word_less_nat_alt TICKS_PER_SLOT_def)

lemma account_entry_tick:
  "ps_tick_idx (account_entry obs now st) =
    (if is_tick obs \<and> ps_tick_idx st < TICKS_PER_SLOT then ps_tick_idx st + 1 else ps_tick_idx st)"
  by (simp add: account_entry_def Let_def is_tick_def saturating_add_tick)

lemma tick_step:
  "(t::u8) < TICKS_PER_SLOT \<Longrightarrow> t < t + 1 \<and> t + 1 \<le> TICKS_PER_SLOT"
  by (auto simp: TICKS_PER_SLOT_def word_less_nat_alt word_le_nat_alt unat_word_ariths)

text \<open>An emitted entry is an accepted \<open>Entry\<close> event, provided its index is the expected one.\<close>

lemma emit_entry_sim:
  assumes sim: "slot_sim st b"
    and "obs_entry_index (me_observation mg) = ps_next_expected_idx st"
    and "se' = emit_entry acc mg now re w (st, env)"
  defines "st' \<equiv> fst se'\<lparr>ps_next_expected_idx := ps_next_expected_idx (fst se') + 1\<rparr>"
  obtains ev b' where
    "attempts (env_out (snd se')) = attempts (env_out env) @ [ev]"
    "ev_slot ev = obs_slot (me_observation mg)" "\<not> is_seal ev" "block_step b ev = Some b'" "slot_sim st' b'"
proof -
  let ?obs = "me_observation mg"
  let ?st1 = "account_entry ?obs now st"
  let ?ev = "entry_event ?obs re w ?st1"
  have tick: "bk_tick b \<le> ps_tick_idx ?st1 \<and> ps_tick_idx ?st1 \<le> TICKS_PER_SLOT \<and>
      (is_tick ?obs \<and> bk_tick b < TICKS_PER_SLOT \<longrightarrow> bk_tick b < ps_tick_idx ?st1)"
    using sim tick_step [of "ps_tick_idx st"]
    by (auto simp: account_entry_tick slot_sim_def)
  have ok: "\<exists>b'. block_step b ?ev = Some b' \<and> slot_sim st' b'"
    using sim assms(2) tick
    by (auto simp: entry_event_def entry_ok_def st'_def assms(3) emit_entry_def Let_def slot_sim_def
        last_index_def)
  then show ?thesis
    using that [of ?ev] by (auto simp: assms(3) emit_entry_def Let_def entry_event_def)
qed

lemma pending_behind_first:
  assumes "slot_wf s st" "ps_pending st = (k, p) # rest" "(k', p') \<in> set rest"
  shows "k + 1 \<le> k'"
proof -
  have "k < k'" using assms by (auto simp: slot_wf_def bt_inv_Cons)
  then show ?thesis by (rule inc_le)
qed

lemma continues_first:
  assumes "ps_pending (fst se) = (k, p) # rest" "k = ps_next_expected_idx (fst se)"
  shows "continues s se (emit_first acc now p rest se)"
  unfolding continues_def
proof (intro allI impI)
  fix b assume o: "slot_open s b (fst se)"
  let ?st = "(fst se)\<lparr>ps_pending := rest\<rparr>"
  have idx: "obs_entry_index (me_observation (pe_merged p)) = ps_next_expected_idx ?st"
    and sl: "obs_slot (me_observation (pe_merged p)) = s"
    using o assms by (auto simp: slot_open_def slot_wf_def)
  have "slot_sim ?st b" using o by (simp add: slot_open_def slot_sim_def)
  from emit_entry_sim [OF this idx refl, of acc now True
      "micros_u32 (saturating_duration_since now (pe_buffered_at p))" "snd se"]
  obtain ev b' where ev: "attempts (env_out (snd (emit_first acc now p rest se))) =
      attempts (env_out (snd se)) @ [ev]" "ev_slot ev = s" "\<not> is_seal ev" "block_step b ev = Some b'"
    "slot_sim (fst (emit_first acc now p rest se)) b'"
    using sl by (auto simp: emit_first_def case_prod_beta)
  moreover have "slot_wf s (fst (emit_first acc now p rest se))"
    using o assms pending_behind_first [of s "fst se" k p rest]
    by (auto simp: slot_open_def slot_wf_def bt_inv_Cons)
  ultimately show "\<exists>evs b'. attempts (env_out (snd (emit_first acc now p rest se))) =
        attempts (env_out (snd se)) @ evs \<and> ev_slot ` set evs \<subseteq> {s} \<and> filter is_seal evs = [] \<and>
        block_run b evs = Some b' \<and> slot_open s b' (fst (emit_first acc now p rest se))"
    using o by (intro exI [of _ "[ev]"] exI [of _ b']) (auto simp: slot_open_def)
qed

lemma continues_missing:
  assumes "ps_pending (fst se) = (k, p) # rest" "k \<noteq> ps_next_expected_idx (fst se)"
  shows "continues s se (emit_missing acc cfg s now se)"
  unfolding continues_def
proof (intro allI impI)
  fix b assume o: "slot_open s b (fst se)"
  have lt: "ps_next_expected_idx (fst se) + 1 \<le> k'" if "(k', p') \<in> set (ps_pending (fst se))" for k' p'
  proof -
    have "ps_next_expected_idx (fst se) < k"
      using o assms by (auto simp: slot_open_def slot_wf_def)
    moreover have "k \<le> k'" using o that assms(1) by (auto simp: slot_open_def slot_wf_def bt_inv_Cons)
    ultimately show ?thesis by (meson inc_le order.strict_trans2)
  qed
  have "slot_wf s (fst (emit_missing acc cfg s now se))"
    using o lt by (auto simp: slot_open_def slot_wf_def)
  then show "\<exists>evs b'. attempts (env_out (snd (emit_missing acc cfg s now se))) =
        attempts (env_out (snd se)) @ evs \<and> ev_slot ` set evs \<subseteq> {s} \<and> filter is_seal evs = [] \<and>
        block_run b evs = Some b' \<and> slot_open s b' (fst (emit_missing acc cfg s now se))"
    using o
    by (intro exI [of _ "[Missing \<lparr> om_slot = s, om_entry_index = ps_next_expected_idx (fst se),
            om_waited_for_us = waited_us cfg now (fst se) \<rparr>]"]
        exI [of _ "b\<lparr> bk_next := Suc (bk_next b), bk_missing := Suc (bk_missing b) \<rparr>"])
      (auto simp: slot_open_def slot_sim_def emit_missing_def Let_def last_index_def)
qed

interpretation cont: slot_machine acc cfg continues
  by unfold_locales (auto intro: continues_refl continues_trans continues_first continues_missing)

text \<open>At rest the first buffered entry is never the expected one: the loops drain it.\<close>

definition settled :: "poh_slot \<Rightarrow> bool" where
  "settled st \<longleftrightarrow> (case ps_pending st of [] \<Rightarrow> True | (k, _) # _ \<Rightarrow> k \<noteq> ps_next_expected_idx st)"

lemma drain_settled: "settled (fst (drain_consecutive_pending acc now se))"
proof (induction acc now se rule: drain_consecutive_pending.induct)
  case (1 acc now se)
  show ?case
  proof (cases "\<exists>p rest. ps_pending (fst se) = (ps_next_expected_idx (fst se), p) # rest")
    case True
    with 1 show ?thesis by (auto simp: drain_consecutive_pending.simps [of acc now se])
  qed (auto simp: settled_def drain_consecutive_pending.simps [of acc now se] split: list.splits)
qed

lemma sweep_slot_settled: "settled (fst (sweep_slot acc cfg slot now se))"
proof (induction acc cfg slot now se rule: sweep_slot.induct)
  case (1 acc cfg slot now se)
  show ?case
  proof (cases "ps_pending (fst se)")
    case (Cons kp rest)
    then show ?thesis using 1
      by (cases kp) (auto simp: settled_def sweep_slot.simps [of acc cfg slot now se])
  qed (simp add: settled_def sweep_slot.simps [of acc cfg slot now se])
qed

lemma settled_behind:
  assumes "slot_wf s st" "settled st" "(k, p) \<in> set (ps_pending st)"
  shows "ps_next_expected_idx st < k"
proof (cases "ps_pending st")
  case (Cons kp rest)
  obtain k0 p0 where kp: "kp = (k0, p0)" by (cases kp)
  have "ps_next_expected_idx st < k0"
    using assms(1,2) Cons kp by (auto simp: slot_wf_def settled_def)
  moreover have "k0 \<le> k"
    using assms(1,3) Cons kp by (auto simp: slot_wf_def bt_inv_Cons)
  ultimately show ?thesis by (rule order.strict_trans2)
qed (use assms in simp)

lemma continues_immediate:
  assumes st: "settled (fst se)" and sl: "obs_slot (me_observation mg) = s"
    and idx: "obs_entry_index (me_observation mg) = ps_next_expected_idx (fst se)"
    and se': "se' = emit_entry acc mg now re w se"
  shows "continues s se ((fst se')\<lparr>ps_next_expected_idx := ps_next_expected_idx (fst se') + 1\<rparr>, snd se')"
  unfolding continues_def
proof (intro allI impI)
  fix b assume o: "slot_open s b (fst se)"
  then have "slot_sim (fst se) b" by (simp add: slot_open_def)
  from emit_entry_sim [OF this idx refl, of acc now re w "snd se"] sl
  obtain ev b' where ev: "attempts (env_out (snd se')) = attempts (env_out (snd se)) @ [ev]"
    "ev_slot ev = s" "\<not> is_seal ev" "block_step b ev = Some b'"
    "slot_sim ((fst se')\<lparr>ps_next_expected_idx := ps_next_expected_idx (fst se') + 1\<rparr>) b'"
    by (auto simp: se')
  have "ps_next_expected_idx (fst se) + 1 \<le> k" if "(k, p) \<in> set (ps_pending (fst se))" for k p
    using settled_behind [OF _ st that] o by (auto simp: slot_open_def intro: inc_le)
  then have "slot_wf s ((fst se')\<lparr>ps_next_expected_idx := ps_next_expected_idx (fst se') + 1\<rparr>)"
    using o by (auto simp: slot_open_def slot_wf_def se' emit_entry_def Let_def)
  moreover have "\<not> ps_sealed (fst se')" using o by (simp add: slot_open_def se' emit_entry_def Let_def)
  ultimately show "\<exists>evs b'. attempts (env_out (snd ((fst se')\<lparr>ps_next_expected_idx :=
        ps_next_expected_idx (fst se') + 1\<rparr>, snd se'))) = attempts (env_out (snd se)) @ evs \<and>
        ev_slot ` set evs \<subseteq> {s} \<and> filter is_seal evs = [] \<and> block_run b evs = Some b' \<and>
        slot_open s b' (fst ((fst se')\<lparr>ps_next_expected_idx := ps_next_expected_idx (fst se') + 1\<rparr>, snd se'))"
    using ev by (intro exI [of _ "[ev]"] exI [of _ b']) (auto simp: slot_open_def)
qed

lemma slot_sim_tick:
  "slot_sim st b \<Longrightarrow> ps_tick_idx st < TICKS_PER_SLOT \<Longrightarrow>
    slot_sim (st\<lparr>ps_tick_idx := saturating_add (ps_tick_idx st) 1\<rparr>) b"
  using tick_step [of "ps_tick_idx st"]
  by (auto simp: slot_sim_def saturating_add_tick last_index_def intro: order.trans)

text \<open>One arrival at an open slot.\<close>

lemma process_open_continues:
  assumes st: "settled (fst se)" and sl: "obs_slot (me_observation mg) = s"
  shows "continues s se (process_open acc cfg now mg se)"
proof -
  let ?i = "obs_entry_index (me_observation mg)" and ?n = "ps_next_expected_idx (fst se)"
  consider "?i = ?n" | "?i > ?n" | "?i < ?n" by fastforce
  then show ?thesis
  proof cases
    case 1
    show ?thesis
      using continues_trans [OF continues_immediate [OF st sl 1 refl, of acc now False 0] cont.R_drain [OF refl]] 1
      by (simp add: process_open_def Let_def case_prod_beta)
  next
    case 2
    then show ?thesis
      using sl unfolding continues_def
      by (intro allI impI exI [of _ "[]"])
        (auto simp: process_open_def Let_def slot_open_def slot_sim_def slot_wf_def bt.invar_insert
          last_index_def dest!: set_bt_insert_subset [THEN subsetD])
  next
    case 3
    then show ?thesis
      unfolding continues_def
      by (intro allI impI exI [of _ "[]"])
        (auto simp: process_open_def Let_def slot_open_def slot_sim_tick slot_wf_def)
  qed
qed

lemma process_open_settled:
  assumes "settled (fst se)" "slot_wf s (fst se)"
  shows "settled (fst (process_open acc cfg now mg se))"
proof -
  let ?i = "obs_entry_index (me_observation mg)" and ?n = "ps_next_expected_idx (fst se)"
  consider "?i = ?n" | "?i > ?n" | "?i < ?n" by fastforce
  then show ?thesis
  proof cases
    case 1
    then show ?thesis by (simp add: process_open_def Let_def case_prod_beta drain_settled)
  next
    case 2
    show ?thesis
    proof (cases "ps_pending (fst se)")
      case (Cons kp rest)
      then show ?thesis
        using 2 assms(1)
        by (cases kp) (auto simp: process_open_def Let_def settled_def)
    qed (use 2 in \<open>auto simp: process_open_def Let_def settled_def\<close>)
  next
    case 3
    then show ?thesis using assms(1) by (auto simp: process_open_def Let_def settled_def split: list.splits)
  qed
qed

end
