(* ===== verification/Poh_Supervisor_Props.thy ===== *)
theory Poh_Supervisor_Props
  imports Poh_Supervisor_Spec
begin

text \<open>
  The properties of the whole supervisor: the simulation of one slot is lifted to the slot
  map and to the loop of \<open>run_loop\<close>. For every slot the offered events form blocks of the
  abstract machine; at shutdown every slot that was received is closed; a slot within the
  retained window is closed once; what is received is emitted, counted as dropped, or (the
  one case the code does not count) overwritten in the buffer.
\<close>

section \<open>Sealing one slot\<close>

definition buffer_within :: "u32 \<Rightarrow> poh_slot \<Rightarrow> bool" where
  "buffer_within m st \<longleftrightarrow> bt_inv (ps_pending st) \<and>
     (\<forall>k \<in> fst ` set (ps_pending st). ps_next_expected_idx st \<le> k \<and> k \<le> m)"

lemma buffer_within_first:
  "buffer_within m (fst se) \<Longrightarrow> ps_pending (fst se) = (ps_next_expected_idx (fst se), p) # rest \<Longrightarrow>
    buffer_within m (fst (emit_first acc now p rest se))"
  by (auto simp: buffer_within_def bt_inv_Cons intro: inc_le)

lemma buffer_within_missing:
  assumes "buffer_within m (fst se)" "ps_pending (fst se) = (k, p) # rest"
    "k \<noteq> ps_next_expected_idx (fst se)"
  shows "buffer_within m (fst (emit_missing acc cfg s now se))"
proof -
  have "ps_next_expected_idx (fst se) < k" using assms by (auto simp: buffer_within_def)
  then show ?thesis
    using assms by (auto simp: buffer_within_def bt_inv_Cons intro: inc_le order.strict_trans)
qed

lemma seal_flush_empties:
  "buffer_within m (fst se) \<Longrightarrow> ps_pending (fst (seal_flush acc cfg s now m se)) = []"
proof (induction acc cfg s now m se rule: seal_flush.induct)
  case (1 acc cfg s now m se)
  show ?case
  proof (cases "ps_pending (fst se)")
    case (Cons kp rest)
    obtain k p where q: "ps_pending (fst se) = (k, p) # rest" using Cons by (cases kp) auto
    have le: "ps_next_expected_idx (fst se) \<le> m" using "1.prems" q by (auto simp: buffer_within_def)
    show ?thesis
    proof (cases "k = ps_next_expected_idx (fst se)")
      case True
      then show ?thesis
        using "1.IH"(1) [OF le q refl True] buffer_within_first "1.prems" q le
        by (simp add: seal_flush.simps [of acc cfg s now m se])
    next
      case False
      then show ?thesis
        using "1.IH"(2) [OF le q refl False] buffer_within_missing [OF "1.prems" q False] q le
        by (simp add: seal_flush.simps [of acc cfg s now m se])
    qed
  qed (simp add: seal_flush.simps [of acc cfg s now m se])
qed

lemma slot_open_within:
  "slot_open s b st \<Longrightarrow> buffer_within (fst (last (ps_pending st))) st"
  by (auto simp: slot_open_def slot_wf_def buffer_within_def intro!: bt_le_last) 

text \<open>The part of \<open>seal_open\<close> before the closing event.\<close>

definition sealed_buffer ::
  "ordered_event accept \<Rightarrow> sup_config \<Rightarrow> u64 \<Rightarrow> instant \<Rightarrow> poh_slot \<times> sup_env \<Rightarrow> poh_slot \<times> sup_env" where
  "sealed_buffer acc cfg s now se = (if ps_pending (fst se) = [] then se
     else seal_flush acc cfg s now (fst (last (ps_pending (fst se)))) se)"

lemma seal_open_alt:
  "seal_open acc cfg s now se =
    (let se1 = sealed_buffer acc cfg s now se; st2 = (fst se1)\<lparr>ps_sealed := True\<rparr>
     in (st2, send_event acc (seal_event s st2)
          ((snd se1)\<lparr>env_counters := count_seal st2 (env_counters (snd se1))\<rparr>)))"
  by (auto simp: seal_open_def sealed_buffer_def Let_def case_prod_beta split: list.splits)

lemma sealed_buffer_continues: "continues s se (sealed_buffer acc cfg s now se)"
  using cont.R_flush [OF refl refl] by (auto simp: sealed_buffer_def continues_refl)

lemma sealed_buffer_empty:
  "slot_open s b (fst se) \<Longrightarrow> ps_pending (fst (sealed_buffer acc cfg s now se)) = []"
  using seal_flush_empties [OF slot_open_within] by (auto simp: sealed_buffer_def)

lemma seal_event_step:
  assumes "slot_sim st b"
  shows "block_step b (seal_event s st) = Some block_empty \<and> is_seal (seal_event s st) \<and>
    ev_slot (seal_event s st) = s"
proof -
  have "(case ps_last_entry_hash st of None \<Rightarrow> 0 | Some h \<Rightarrow> h) = last_hash b"
    using assms by (auto simp: slot_sim_def last_hash_def split: option.splits)
  moreover have "ps_tick_idx st \<ge> TICKS_PER_SLOT \<Longrightarrow> ps_tick_idx st = TICKS_PER_SLOT"
    using assms by (auto simp: slot_sim_def)
  ultimately show ?thesis
    using assms by (auto simp: seal_event_def Let_def slot_sim_def)
qed

lemma seal_open_sim:
  assumes "slot_open s b (fst se)"
  obtains evs ev where
    "attempts (env_out (snd (seal_open acc cfg s now se))) = attempts (env_out (snd se)) @ evs @ [ev]"
    "ev_slot ` set (evs @ [ev]) \<subseteq> {s}" "filter is_seal evs = []" "is_seal ev"
    "block_run b (evs @ [ev]) = Some block_empty"
    "ps_sealed (fst (seal_open acc cfg s now se))"
    "ps_pending (fst (seal_open acc cfg s now se)) = []"
proof -
  let ?se1 = "sealed_buffer acc cfg s now se" and ?se2 = "seal_open acc cfg s now se"
  let ?ev = "seal_event s ((fst ?se1)\<lparr>ps_sealed := True\<rparr>)"
  obtain evs b' where 1: "attempts (env_out (snd ?se1)) = attempts (env_out (snd se)) @ evs"
    "ev_slot ` set evs \<subseteq> {s}" "filter is_seal evs = []" "block_run b evs = Some b'"
    "slot_open s b' (fst ?se1)"
    using sealed_buffer_continues [of s se acc cfg now] assms unfolding continues_def by blast
  then have "slot_sim ((fst ?se1)\<lparr>ps_sealed := True\<rparr>) b'" by (simp add: slot_open_def slot_sim_def)
  note ev = seal_event_step [OF this, of s]
  show ?thesis
    using 1 ev that [of evs ?ev] sealed_buffer_empty [OF assms]
    by (simp add: seal_open_alt Let_def block_run_append)
qed

section \<open>The slot map\<close>

definition seals :: "u64 \<Rightarrow> sup_env \<Rightarrow> nat" where
  "seals s env = length (filter is_seal (slot_events s env))"

definition received_slots :: "merged_entry list \<Rightarrow> u64 set" where
  "received_slots ms = (\<lambda>mg. obs_slot (me_observation mg)) ` set ms"

lemma received_slots_simps [simp]:
  "received_slots [] = {}" "received_slots (ms @ [mg]) = insert (obs_slot (me_observation mg)) (received_slots ms)"
  by (simp_all add: received_slots_def)

definition sealed_state :: "poh_slot option \<Rightarrow> bool" where
  "sealed_state ost = (case ost of None \<Rightarrow> False | Some st \<Rightarrow> ps_sealed st)"

text \<open>Events, block and state of one slot agree (\<open>None\<close>: the slot is not in the map);
  within the retained window the slot has one seal event if it is sealed, none before; a
  received slot is in the map or has events.\<close>

definition slot_inv :: "sup_config \<Rightarrow> merged_entry list \<Rightarrow> u64 \<Rightarrow> u64 \<Rightarrow> sup_env \<Rightarrow> poh_slot option \<Rightarrow> bool" where
  "slot_inv cfg ms m s env ost \<longleftrightarrow>
     (\<exists>b. block_run block_empty (slot_events s env) = Some b \<and>
       (if ost = None \<or> sealed_state ost then b = block_empty
        else slot_open s b (the ost) \<and> settled (the ost))) \<and>
     (sealed_state ost \<longrightarrow> slot_events s env \<noteq> []) \<and>
     (drop_cutoff cfg m < s \<longrightarrow> seals s env = (if sealed_state ost then 1 else 0)) \<and>
     (s \<in> received_slots ms \<longrightarrow> ost \<noteq> None \<or> slot_events s env \<noteq> [])"

definition sup_ok :: "sup_config \<Rightarrow> merged_entry list \<Rightarrow> u64 \<Rightarrow> slots_env \<Rightarrow> bool" where
  "sup_ok cfg ms m sle \<longleftrightarrow> bt_inv (fst sle) \<and> (\<forall>s. slot_inv cfg ms m s (snd sle) (map_of (fst sle) s))"

lemma slot_events_extend:
  assumes "attempts (env_out env') = attempts (env_out env) @ evs" "ev_slot ` set evs \<subseteq> {s}"
  shows "slot_events s' env' = slot_events s' env @ (if s' = s then evs else [])"
proof -
  have "filter (\<lambda>e. ev_slot e = s') evs = (if s' = s then evs else [])"
    using assms(2) by (auto simp: filter_empty_conv intro!: filter_True)
  then show ?thesis using assms(1) by (simp add: slot_events_def)
qed

lemma slot_inv_mono:
  assumes "slot_inv cfg ms m s env ost" "slot_events s env' = slot_events s env"
    "drop_cutoff cfg m \<le> drop_cutoff cfg m'" "s \<in> received_slots ms' \<Longrightarrow> s \<in> received_slots ms"
  shows "slot_inv cfg ms' m' s env' ost"
  using assms by (auto simp: slot_inv_def seals_def)

text \<open>An update of one slot keeps the invariant if it keeps the one of that slot.\<close>

lemma sup_ok_insert:
  assumes "sup_ok cfg ms m (slots, env)"
    and "attempts (env_out env') = attempts (env_out env) @ evs" "ev_slot ` set evs \<subseteq> {s}"
    and "slot_inv cfg ms' m' s env' (Some st)"
    and "drop_cutoff cfg m \<le> drop_cutoff cfg m'" "received_slots ms' \<subseteq> insert s (received_slots ms)"
  shows "sup_ok cfg ms' m' (bt_insert s st slots, env')"
proof -
  have "slot_inv cfg ms' m' s' env' (map_of slots s')" if "s' \<noteq> s" for s'
    by (rule slot_inv_mono [of cfg ms m s' env])
      (use assms that slot_events_extend [OF assms(2,3), of s'] in \<open>auto simp: sup_ok_def\<close>)
  then show ?thesis using assms(1,4) by (auto simp: sup_ok_def bt.lookup_insert bt.invar_insert)
qed

lemma slot_open_default: "slot_open s block_empty poh_slot_default"
  by (simp add: slot_open_def slot_wf_def slot_sim_def block_empty_def poh_slot_default_def
      last_index_def)

lemma settled_default: "settled poh_slot_default"
  by (simp add: settled_def poh_slot_default_def)

text \<open>The state an operation starts from: the default one where the slot is new.\<close>

definition found :: "poh_slot option \<Rightarrow> poh_slot" where
  "found ost = (case ost of None \<Rightarrow> poh_slot_default | Some st \<Rightarrow> st)"

lemma sealed_found: "ps_sealed (found ost) = sealed_state ost"
  by (cases ost) (simp_all add: found_def sealed_state_def poh_slot_default_def)

lemma slot_inv_open:
  assumes "slot_inv cfg ms m s env ost" "\<not> sealed_state ost"
  obtains b where "block_run block_empty (slot_events s env) = Some b" "slot_open s b (found ost)"
    "settled (found ost)"
  using assms that slot_open_default settled_default
  by (cases ost) (auto simp: slot_inv_def found_def sealed_state_def)

text \<open>Accepted events without a seal leave the slot open.\<close>

lemma slot_inv_continues:
  assumes inv: "slot_inv cfg ms m s env ost" "\<not> sealed_state ost"
    and b: "block_run block_empty (slot_events s env) = Some b" "slot_open s b st"
    and se': "continues s (st, env) se'" "settled (fst se')" "drop_cutoff cfg m \<le> drop_cutoff cfg m'"
  obtains evs where "attempts (env_out (snd se')) = attempts (env_out env) @ evs"
    "ev_slot ` set evs \<subseteq> {s}" "slot_inv cfg ms' m' s (snd se') (Some (fst se'))"
proof -
  obtain evs b' where e: "attempts (env_out (snd se')) = attempts (env_out env) @ evs"
    "ev_slot ` set evs \<subseteq> {s}" "filter is_seal evs = []" "block_run b evs = Some b'" "slot_open s b' (fst se')"
    using b(2) se'(1) unfolding continues_def by fastforce
  have "\<not> ps_sealed (fst se')" using e(5) by (simp add: slot_open_def)
  then have "slot_inv cfg ms' m' s (snd se') (Some (fst se'))"
    using inv b(1) se'(2,3) e(3-5) slot_events_extend [OF e(1,2), of s]
    by (auto simp: slot_inv_def block_run_append sealed_state_def seals_def)
  with e that show ?thesis by blast
qed

text \<open>An operation \<open>f\<close> on an open slot, as \<open>sweep_key\<close> and \<open>seal_slot\<close> apply it.\<close>

lemma sup_ok_open:
  assumes ok: "sup_ok cfg ms m (slots, env)" and st: "map_of slots s = Some st" "\<not> ps_sealed st"
  obtains b where "slot_inv cfg ms m s env (Some st)" "block_run block_empty (slot_events s env) = Some b"
    "slot_open s b st"
proof -
  have inv: "slot_inv cfg ms m s env (Some st)"
    using ok st(1) by (auto simp: sup_ok_def dest!: spec [of _ s])
  from slot_inv_open [OF this] st(2) that [OF inv] show ?thesis
    by (auto simp: sealed_state_def found_def)
qed

lemma seal_slot_ok:
  assumes ok: "sup_ok cfg ms m sle"
  shows "sup_ok cfg ms m (seal_slot acc cfg now s sle)"
proof (cases "\<exists>st. map_of (fst sle) s = Some st \<and> \<not> ps_sealed st")
  case True
  then obtain st where st: "map_of (fst sle) s = Some st" "\<not> ps_sealed st" by blast
  obtain slots env where sle: "sle = (slots, env)" by (cases sle)
  let ?se = "seal_open acc cfg s now (st, env)"
  from st have st': "map_of slots s = Some st" by (simp add: sle)
  obtain b where b: "slot_inv cfg ms m s env (Some st)"
    "block_run block_empty (slot_events s env) = Some b" "slot_open s b st"
    by (rule sup_ok_open [OF ok [unfolded sle] st' st(2)])
  have "slot_open s b (fst (st, env))" using b by simp
  from seal_open_sim [OF this, of acc cfg now] obtain evs ev where
    e: "attempts (env_out (snd ?se)) = attempts (env_out env) @ (evs @ [ev])"
    "ev_slot ` set (evs @ [ev]) \<subseteq> {s}" "filter is_seal evs = []" "is_seal ev"
    "block_run b (evs @ [ev]) = Some block_empty" "ps_sealed (fst ?se)"
    by (metis snd_conv)
  have "slot_inv cfg ms m s (snd ?se) (Some (fst ?se))"
    using b(1,2) e(3-6) st slot_events_extend [OF e(1,2), of s]
    by (auto simp: slot_inv_def block_run_append sealed_state_def seals_def)
  from sup_ok_insert [OF ok [unfolded sle] e(1,2) this] st show ?thesis
    by (auto simp: seal_slot_def sle case_prod_beta)
next
  case False
  then show ?thesis using ok by (auto simp: seal_slot_def split: option.splits)
qed

lemma sweep_key_ok:
  assumes ok: "sup_ok cfg ms m sle"
  shows "sup_ok cfg ms m (sweep_key acc cfg now s sle)"
proof (cases "\<exists>st. map_of (fst sle) s = Some st \<and> \<not> ps_sealed st")
  case True
  then obtain st where st: "map_of (fst sle) s = Some st" "\<not> ps_sealed st" by blast
  obtain slots env where sle: "sle = (slots, env)" by (cases sle)
  let ?se = "sweep_slot acc cfg s now (st, env)"
  from st have st': "map_of slots s = Some st" by (simp add: sle)
  obtain b where b: "slot_inv cfg ms m s env (Some st)"
    "block_run block_empty (slot_events s env) = Some b" "slot_open s b st"
    by (rule sup_ok_open [OF ok [unfolded sle] st' st(2)])
  have "\<not> sealed_state (Some st)" using st by (simp add: sealed_state_def)
  from slot_inv_continues [OF b(1) this b(2,3) cont.R_sweep [OF refl refl] sweep_slot_settled order.refl]
  obtain evs where e: "attempts (env_out (snd ?se)) = attempts (env_out env) @ evs"
    "ev_slot ` set evs \<subseteq> {s}" "slot_inv cfg ms m s (snd ?se) (Some (fst ?se))" .
  from sup_ok_insert [OF ok [unfolded sle] e] st show ?thesis
    by (auto simp: sweep_key_def sle case_prod_beta)
next
  case False
  then show ?thesis using ok by (auto simp: sweep_key_def split: option.splits)
qed

definition touch :: "instant \<Rightarrow> poh_slot \<Rightarrow> poh_slot" where
  "touch now st = (if ps_last_emit_at st = None then st\<lparr>ps_last_emit_at := Some now\<rparr> else st)"

lemma process_merged_cases:
  assumes "s = obs_slot (me_observation mg)" "st = found (map_of slots s)"
  shows "ps_sealed st \<Longrightarrow> process_merged acc cfg now mg (slots, env) =
      (bt_insert s st slots, env\<lparr>env_counters := (env_counters env)
        \<lparr>pc_late_arrivals_after_seal := pc_late_arrivals_after_seal (env_counters env) + 1\<rparr>\<rparr>)"
    and "\<not> ps_sealed st \<Longrightarrow> process_merged acc cfg now mg (slots, env) =
      (bt_insert s (fst (process_open acc cfg now mg (touch now st, env))) slots,
       snd (process_open acc cfg now mg (touch now st, env)))"
  using assms by (simp_all add: process_merged_def found_def touch_def Let_def case_prod_beta)

lemma touch_fields [simp]:
  "ps_pending (touch now st) = ps_pending st"
  "ps_next_expected_idx (touch now st) = ps_next_expected_idx st"
  "ps_sealed (touch now st) = ps_sealed st"
  by (simp_all add: touch_def)

lemma slot_open_touch:
  "slot_open s b st \<Longrightarrow> slot_open s b (touch now st)" "settled st \<Longrightarrow> settled (touch now st)"
  by (auto simp: touch_def slot_open_def slot_wf_def slot_sim_def settled_def split: list.splits)

lemma drop_cutoff_mono: "m \<le> m' \<Longrightarrow> drop_cutoff cfg m \<le> drop_cutoff cfg m'"
  by (simp add: drop_cutoff_def word_le_nat_alt)

lemma process_merged_ok:
  assumes ok: "sup_ok cfg ms m (slots, env)"
    and s_def: "s = obs_slot (me_observation mg)"
  shows "sup_ok cfg (ms @ [mg]) (max m s) (process_merged acc cfg now mg (slots, env))"
proof -
  define st where "st = found (map_of slots s)"
  let ?se = "process_open acc cfg now mg (touch now st, env)"
  have inv: "slot_inv cfg ms m s env (map_of slots s)" using ok by (simp add: sup_ok_def)
  note m = drop_cutoff_mono [OF max.cobounded1, of cfg m s]
  note upd = sup_ok_insert [OF ok, of _ _ s "ms @ [mg]" "max m s", OF _ _ _ m]
  note pm = process_merged_cases [OF s_def st_def]
  show ?thesis
  proof (cases "ps_sealed st")
    case True
    then have "map_of slots s = Some st"
      by (auto simp: st_def found_def poh_slot_default_def split: option.splits)
    with inv m have "slot_inv cfg (ms @ [mg]) (max m s) s (env\<lparr>env_counters := c\<rparr>) (Some st)" for c
      by (auto simp: slot_inv_def slot_events_def seals_def)
    with True upd [of _ "[]" st] show ?thesis by (simp add: pm s_def)
  next
    case False
    then have ns: "\<not> sealed_state (map_of slots s)" by (simp add: st_def sealed_found)
    obtain b where b: "block_run block_empty (slot_events s env) = Some b" "slot_open s b st" "settled st"
      unfolding st_def by (rule slot_inv_open [OF inv ns])
    have o: "slot_open s b (touch now st)" "settled (touch now st)" using b slot_open_touch by auto
    have c: "continues s (touch now st, env) ?se"
      by (rule process_open_continues) (simp_all add: o s_def)
    have "settled (fst ?se)"
      by (rule process_open_settled [of _ s]) (use o in \<open>simp_all add: slot_open_def\<close>)
    from slot_inv_continues [OF inv ns b(1) o(1) c this m]
    obtain evs where "attempts (env_out (snd ?se)) = attempts (env_out env) @ evs"
      "ev_slot ` set evs \<subseteq> {s}" "slot_inv cfg (ms @ [mg]) (max m s) s (snd ?se) (Some (fst ?se))" .
    from upd [OF this] False s_def show ?thesis by (simp add: pm)
  qed
qed

text \<open>Phase C drops sealed slots only, and only behind the cutoff.\<close>

lemma retain_ok:
  assumes "sup_ok cfg ms m (slots, env)"
  shows "sup_ok cfg ms m (filter (\<lambda>(s, st). s > drop_cutoff cfg m \<or> \<not> ps_sealed st) slots, env)"
proof -
  let ?f = "filter (\<lambda>(s, st). s > drop_cutoff cfg m \<or> \<not> ps_sealed st) slots"
  have inv: "bt_inv slots" "\<And>s. slot_inv cfg ms m s env (map_of slots s)" using assms by (auto simp: sup_ok_def)
  have "slot_inv cfg ms m s env (map_of ?f s)" for s
    using inv(2) [of s]
    by (auto simp: map_of_filter_keys [OF bt_inv_distinct [OF inv(1)]] slot_inv_def sealed_state_def
        split: option.splits if_splits)
  then show ?thesis using bt_inv_filter [OF inv(1)] by (auto simp: sup_ok_def)
qed

section \<open>Invariants of the loop\<close>

text \<open>The messages the loop has received, up to the turn that ends it.\<close>

fun received :: "sup_turn list \<Rightarrow> merged_entry list" where
  "received [] = []"
| "received (Stopped # ts) = []"
| "received (Disconnected # ts) = []"
| "received (Quiet now # ts) = received ts"
| "received (Recv mg now1 now2 # ts) = mg # received ts"

text \<open>An invariant over received messages, highest slot, slot map and environment that
  every operation on the map keeps holds throughout the loop and after the final flush.\<close>

locale supervisor_invariant =
  fixes acc :: "ordered_event accept" and cfg :: sup_config
    and I :: "merged_entry list \<Rightarrow> u64 \<Rightarrow> slots_env \<Rightarrow> bool"
  assumes I_init: "I [] 0 ([], \<lparr> env_counters = supervisor_counters_default, env_out = [] \<rparr>)"
    and I_recv: "I ms m sle \<Longrightarrow>
      I (ms @ [mg]) (max m (obs_slot (me_observation mg))) (process_merged acc cfg now mg sle)"
    and I_sweep_key: "I ms m sle \<Longrightarrow> I ms m (sweep_key acc cfg now s sle)"
    and I_seal: "I ms m sle \<Longrightarrow> I ms m (seal_slot acc cfg now s sle)"
    and I_retain: "I ms m (slots, env) \<Longrightarrow>
      I ms m (filter (\<lambda>(s, st). s > drop_cutoff cfg m \<or> \<not> ps_sealed st) slots, env)"
begin

definition SI :: "merged_entry list \<Rightarrow> supervisor \<Rightarrow> bool" where
  "SI ms sv \<longleftrightarrow> I ms (sv_max_slot sv) (sv_slots sv, sv_env sv)"

lemma I_fold_sweep: "I ms m sle \<Longrightarrow> I ms m (fold (sweep_key acc cfg now) ks sle)"
  by (induction ks arbitrary: sle) (simp_all add: I_sweep_key)

lemma I_fold_seal: "I ms m sle \<Longrightarrow> I ms m (fold (seal_slot acc cfg now) ks sle)"
  by (induction ks arbitrary: sle) (simp_all add: I_seal)

lemma I_sweep: "I ms m sle \<Longrightarrow> I ms m (sweep acc cfg m now sle)"
  by (auto simp: sweep_def Let_def I_fold_seal I_fold_sweep intro!: I_retain)

lemma SI_maybe_sweep: "SI ms sv \<Longrightarrow> SI ms (maybe_sweep acc cfg now sv)"
  using I_sweep [of ms "sv_max_slot sv" "(sv_slots sv, sv_env sv)"]
  by (simp add: SI_def maybe_sweep_def Let_def)

lemma SI_recv: "SI ms sv \<Longrightarrow> SI (ms @ [mg]) (recv_merged acc cfg now mg sv)"
  using I_recv [of ms "sv_max_slot sv" "(sv_slots sv, sv_env sv)" mg now]
  by (auto simp: SI_def recv_merged_def Let_def max_def split: if_splits)

lemma SI_loop: "a = acc \<Longrightarrow> c = cfg \<Longrightarrow> SI ms sv \<Longrightarrow> SI (ms @ received ts) (supervisor_loop a c ts sv)"
proof (induction a c ts sv arbitrary: ms rule: supervisor_loop.induct)
  case (5 a c mg now1 now2 ts sv)
  from "5.IH" [OF "5.prems"(1,2), of "ms @ [mg]"] "5.prems" show ?case
    by (simp add: SI_maybe_sweep SI_recv)
qed (auto intro: SI_maybe_sweep)

lemma SI_started: "SI (received ts) (supervisor_loop acc cfg ts (supervisor_init now))"
  using SI_loop [OF refl refl, of "[]" "supervisor_init now" ts] I_init
  by (simp add: SI_def supervisor_init_def)

lemma SI_flush: "SI ms sv \<Longrightarrow> SI ms (final_flush acc cfg now sv)"
  by (simp add: SI_def final_flush_def Let_def I_fold_seal I_sweep)

lemma SI_run: "SI (received ts) (supervisor_run acc cfg start ts stop_now)"
  by (simp add: supervisor_run_def SI_flush SI_started)

end

lemma sup_ok_init:
  "sup_ok cfg [] 0 ([], \<lparr> env_counters = supervisor_counters_default, env_out = [] \<rparr>)"
  by (simp add: sup_ok_def slot_inv_def sealed_state_def slot_events_def seals_def)

interpretation ok: supervisor_invariant acc cfg "sup_ok cfg"
  by unfold_locales
    (auto simp: sup_ok_init process_merged_ok [OF _ refl] sweep_key_ok seal_slot_ok retain_ok [simplified])

section \<open>After the final flush\<close>

lemma fold_seal_keys:
  "map_of (fst (fold (seal_slot acc cfg now) ks sle)) k = None \<longleftrightarrow> map_of (fst sle) k = None"
proof (induction ks arbitrary: sle)
  case (Cons a ks)
  have "map_of (fst (seal_slot acc cfg now a sle)) k = None \<longleftrightarrow> map_of (fst sle) k = None"
    by (auto simp: seal_slot_def case_prod_beta bt.lookup_insert split: option.splits)
  with Cons show ?case by simp
qed simp

lemma seal_open_sealed: "ps_sealed (fst (seal_open acc cfg s now se))"
  by (simp add: seal_open_alt Let_def)

lemma seal_slot_seals:
  "map_of (fst (seal_slot acc cfg now a sle)) k = Some st \<Longrightarrow>
    k = a \<or> (\<exists>st'. map_of (fst sle) k = Some st' \<and> ps_sealed st') \<Longrightarrow> ps_sealed st"
  by (auto simp: seal_slot_def case_prod_beta bt.lookup_insert seal_open_sealed
      split: option.splits if_splits)

lemma fold_seal_seals:
  "map_of (fst (fold (seal_slot acc cfg now) ks sle)) k = Some st \<Longrightarrow>
    k \<in> set ks \<or> (\<exists>st'. map_of (fst sle) k = Some st' \<and> ps_sealed st') \<Longrightarrow> ps_sealed st"
proof (induction ks arbitrary: sle)
  case (Cons a ks)
  obtain st' where st': "map_of (fst (seal_slot acc cfg now a sle)) k = Some st'"
    using Cons.prems(1) fold_seal_keys [of acc cfg now ks "seal_slot acc cfg now a sle" k]
    by (cases "map_of (fst (seal_slot acc cfg now a sle)) k") auto
  have "k \<in> set ks \<or> ps_sealed st'"
    using Cons.prems(2) seal_slot_seals [OF st'] by auto
  then show ?case using Cons.IH [of "seal_slot acc cfg now a sle"] Cons.prems(1) st' by auto
qed auto

lemma final_flush_sealed:
  "map_of (sv_slots (final_flush acc cfg now sv)) k = Some st \<Longrightarrow> ps_sealed st"
proof -
  let ?sle = "sweep acc cfg (sv_max_slot sv) now (sv_slots sv, sv_env sv)"
  assume a: "map_of (sv_slots (final_flush acc cfg now sv)) k = Some st"
  then have "k \<in> set (map_keys (fst ?sle))"
    using fold_seal_keys [of acc cfg now "map_keys (fst ?sle)" ?sle k]
    by (auto simp: final_flush_def Let_def set_map_keys [simplified])
  with a show ?thesis
    using fold_seal_seals [of acc cfg now "map_keys (fst ?sle)" ?sle k st]
    by (simp add: final_flush_def Let_def)
qed

lemma block_step_empty: "block_step b e = Some block_empty \<Longrightarrow> is_seal e"
  by (cases b; cases e) (auto simp: block_empty_def split: if_splits)

lemma block_run_closed:
  assumes "block_run b es = Some block_empty" "es \<noteq> []"
  shows "is_seal (last es)"
proof -
  obtain xs e where es: "es = xs @ [e]" using assms(2) by (metis rev_exhaust)
  then show ?thesis using assms(1) by (auto simp: block_run_append block_step_empty split: option.splits)
qed

text \<open>The invariant at shutdown, where every slot of the map is sealed.\<close>

lemma run_slot_inv:
  obtains ost where "slot_inv cfg (received ts) (sv_max_slot (supervisor_run acc cfg start ts now)) s
      (sv_env (supervisor_run acc cfg start ts now)) ost" "ost = None \<or> sealed_state ost"
proof -
  let ?sv = "supervisor_run acc cfg start ts now"
  have "ok.SI cfg (received ts) ?sv" by (rule ok.SI_run)
  then have "slot_inv cfg (received ts) (sv_max_slot ?sv) s (sv_env ?sv) (map_of (sv_slots ?sv) s)"
    by (simp add: ok.SI_def sup_ok_def)
  moreover have "map_of (sv_slots ?sv) s = None \<or> sealed_state (map_of (sv_slots ?sv) s)"
    by (cases "map_of (sv_slots ?sv) s")
      (auto simp: sealed_state_def supervisor_run_def dest: final_flush_sealed)
  ultimately show ?thesis by (rule that)
qed

section \<open>Properties\<close>

text \<open>C2: At any time and for every slot, the events offered for the slot are accepted by the
  block machine: entries and \<open>Missing\<close> markers carry the indices \<open>0, 1, 2, \<dots>\<close> in order, an
  entry is uncertain iff a marker came before it, its hash sum is the sum over the emitted
  entries, its tick number does not fall, and a seal event carries the totals of its block.\<close>
theorem supervisor_stream_accepted:
  "\<exists>b. block_run block_empty
      (slot_events s (sv_env (supervisor_loop acc cfg ts (supervisor_init start)))) = Some b"
proof -
  let ?sv = "supervisor_loop acc cfg ts (supervisor_init start)"
  have "ok.SI cfg (received ts) ?sv" by (rule ok.SI_started)
  then have "slot_inv cfg (received ts) (sv_max_slot ?sv) s (sv_env ?sv) (map_of (sv_slots ?sv) s)"
    by (simp add: ok.SI_def sup_ok_def)
  then show ?thesis by (auto simp: slot_inv_def)
qed

text \<open>C8: At shutdown the stream of every slot of which anything was received consists of
  complete blocks: its last event is \<open>SlotComplete\<close> or \<open>SlotIncomplete\<close>.\<close>
theorem supervisor_closes_received:
  assumes "s \<in> received_slots (received ts)"
    and "es = slot_events s (sv_env (supervisor_run acc cfg start ts now))"
  shows "es \<noteq> [] \<and> is_seal (last es) \<and> block_run block_empty es = Some block_empty"
proof -
  obtain ost where inv: "slot_inv cfg (received ts) (sv_max_slot (supervisor_run acc cfg start ts now)) s
      (sv_env (supervisor_run acc cfg start ts now)) ost" "ost = None \<or> sealed_state ost"
    by (rule run_slot_inv)
  then have "block_run block_empty es = Some block_empty" "es \<noteq> []"
    using assms by (auto simp: slot_inv_def split: if_splits)
  then show ?thesis using block_run_closed by blast
qed

text \<open>C26: A received slot above the drop cutoff of the final high-water mark is closed by
  exactly one event over the whole run.\<close>
theorem supervisor_seals_once:
  assumes "s \<in> received_slots (received ts)"
    and "sv = supervisor_run acc cfg start ts now"
    and "drop_cutoff cfg (sv_max_slot sv) < s"
  shows "length (filter is_seal (slot_events s (sv_env sv))) = 1"
proof -
  obtain ost where inv: "slot_inv cfg (received ts) (sv_max_slot sv) s (sv_env sv) ost"
    "ost = None \<or> sealed_state ost"
    using run_slot_inv [of cfg ts acc start now s] assms(2) by blast
  have "filter is_seal (slot_events s (sv_env sv)) \<noteq> []" if "slot_events s (sv_env sv) \<noteq> []"
    using inv that block_run_closed [of block_empty "slot_events s (sv_env sv)"]
    by (auto simp: slot_inv_def filter_empty_conv split: if_splits)
  then show ?thesis
    using inv assms by (auto simp: slot_inv_def seals_def split: if_splits)
qed

section \<open>Runs on sample messages\<close>

definition demo_cfg :: sup_config where
  "demo_cfg = \<lparr> cfg_entry_timeout = 100, cfg_slot_seal_lag_slots = 5, cfg_max_pending_per_slot = 8,
     cfg_tick_check_interval = 10 \<rparr>"

definition demo_merged :: "u64 \<Rightarrow> u32 \<Rightarrow> hash \<Rightarrow> merged_entry" where
  "demo_merged s i h = \<lparr> me_observation = demo_obs s i h 1, me_first_seen_source = ShredStream \<rparr>"

lemmas supervisor_eval = supervisor_init_def supervisor_run_def final_flush_def sweep_def
  maybe_sweep_def recv_merged_def process_merged_def process_open_def drain_consecutive_pending.simps
  sweep_slot.simps seal_flush.simps sweep_key_def seal_slot_def seal_open_def seal_event_def
  count_seal_def emit_entry_def emit_first_def emit_missing_def account_entry_def entry_event_def
  count_emit_def send_event_def try_send_def Let_def TICKS_PER_SLOT_def demo_cfg_def demo_merged_def
  demo_obs_def poh_slot_default_def supervisor_counters_default_def saturating_duration_since_def
  waited_us_def micros_u32_def as_micros_def u32_max_def saturating_add_def drop_cutoff_def
  saturating_sub_def slot_events_def received_slots_def

text \<open>Slot 100 has a gap at index 1; slot 120 makes it old enough to seal.\<close>

definition demo_turns :: "sup_turn list" where
  "demo_turns = [Recv (demo_merged 100 0 7) 0 1, Recv (demo_merged 100 2 8) 2 3,
     Recv (demo_merged 120 0 9) 4 20]"

lemma supervisor_closes_received_witness:
  "is_seal (last (slot_events 100 (sv_env (supervisor_run (\<lambda>_ _. True) demo_cfg 0 demo_turns 30))))"
  using supervisor_closes_received [of 100 demo_turns _ "\<lambda>_ _. True" demo_cfg 0 30, OF _ refl]
  by (simp add: demo_turns_def received_slots_def demo_merged_def demo_obs_def)

lemma supervisor_seals_once_witness:
  "length (filter is_seal (slot_events 120
     (sv_env (supervisor_run (\<lambda>_ _. True) demo_cfg 0 demo_turns 30)))) = 1"
proof (rule supervisor_seals_once [OF _ refl])
  show "120 \<in> received_slots (received demo_turns)"
    by (simp add: demo_turns_def received_slots_def demo_merged_def demo_obs_def)
  show "drop_cutoff demo_cfg (sv_max_slot (supervisor_run (\<lambda>_ _. True) demo_cfg 0 demo_turns 30)) < 120"
    by (simp add: demo_turns_def supervisor_eval)
qed

text \<open>A slot that was sealed and dropped is opened again by a late arrival: the module
  comment's ``exactly one of SlotComplete and SlotIncomplete'' does not hold for it, and index 0
  is emitted a second time.\<close>
theorem supervisor_reopens_dropped_slot:
  "length (filter is_seal (slot_events 100 (sv_env (supervisor_run (\<lambda>_ _. True) demo_cfg 0
     (demo_turns @ [Recv (demo_merged 100 0 7) 21 22]) 30)))) = 2"
  by (simp add: demo_turns_def supervisor_eval)

end
