(* ===== verification/Poh_Supervisor_Counts.thy ===== *)
theory Poh_Supervisor_Counts
  imports Poh_Supervisor_Props
begin

text \<open>
  Bookkeeping of the supervisor: what a sweep leaves behind, the counters as totals over the
  events offered to the channel, and the conservation of received entries. Both invariants go
  through the interfaces of \<open>Poh_Supervisor_Spec\<close> (buffer loops) and
  \<open>Poh_Supervisor_Props\<close> (loop of the thread).
\<close>

section \<open>What a sweep leaves behind\<close>

lemma fold_key_post:
  assumes other: "\<And>a sle. s \<noteq> a \<Longrightarrow> map_of (fst (f a sle)) s = map_of (fst sle) s"
    and post: "\<And>sle st. map_of (fst (f s sle)) s = Some st \<Longrightarrow> P st"
  shows "s \<in> set ks \<Longrightarrow> map_of (fst (fold f ks sle)) s = Some st \<Longrightarrow> P st"
proof (induction ks arbitrary: st rule: rev_induct)
  case (snoc a ks)
  then show ?case using other [of a "fold f ks sle"] post by (cases "s = a") auto
qed simp

text \<open>The first buffered entry is behind a gap and has not yet waited for the timeout.\<close>

definition gap_fresh :: "sup_config \<Rightarrow> instant \<Rightarrow> poh_slot \<Rightarrow> bool" where
  "gap_fresh cfg now st \<longleftrightarrow> (case ps_pending st of [] \<Rightarrow> True
     | (k, p) # _ \<Rightarrow> k \<noteq> ps_next_expected_idx st \<and>
         saturating_duration_since now (pe_buffered_at p) < cfg_entry_timeout cfg)"

lemma sweep_slot_fresh: "gap_fresh cfg now (fst (sweep_slot acc cfg slot now se))"
proof (induction acc cfg slot now se rule: sweep_slot.induct)
  case (1 acc cfg slot now se)
  show ?case
  proof (cases "ps_pending (fst se)")
    case (Cons kp rest)
    then show ?thesis using 1
      by (cases kp) (auto simp: gap_fresh_def sweep_slot.simps [of acc cfg slot now se])
  qed (simp add: gap_fresh_def sweep_slot.simps [of acc cfg slot now se])
qed

lemma cont_unsealed:
  "slot_open s b (fst se) \<Longrightarrow> continues s se se' \<Longrightarrow> \<not> ps_sealed (fst se')"
  unfolding continues_def by (auto simp: slot_open_def)

lemma sweep_key_other: "s \<noteq> a \<Longrightarrow> map_of (fst (sweep_key acc cfg now a sle)) s = map_of (fst sle) s"
  by (auto simp: sweep_key_def case_prod_beta bt.lookup_insert split: option.splits)

lemma sweep_key_fresh:
  "map_of (fst (sweep_key acc cfg now s sle)) s = Some st \<Longrightarrow> ps_sealed st \<or> gap_fresh cfg now st"
  by (auto simp: sweep_key_def case_prod_beta bt.lookup_insert sweep_slot_fresh
      split: option.splits if_splits)

lemma sweep_key_dom: "dom (map_of (fst (fold (sweep_key acc cfg now) ks sle))) = dom (map_of (fst sle))"
proof (induction ks arbitrary: sle)
  case (Cons a ks)
  have "dom (map_of (fst (sweep_key acc cfg now a sle))) = dom (map_of (fst sle))"
    by (auto simp: sweep_key_def case_prod_beta bt.lookup_insert dom_def split: option.splits)
  with Cons show ?case by simp
qed simp

lemma fold_sweep_fresh:
  assumes "map_of (fst (fold (sweep_key acc cfg now) (map_keys (fst sle)) sle)) s = Some st"
  shows "ps_sealed st \<or> gap_fresh cfg now st"
proof -
  have "s \<in> dom (map_of (fst sle))" using assms sweep_key_dom by (metis domI)
  then have "s \<in> set (map_keys (fst sle))" by (simp add: dom_map_of_conv_image_fst)
  from fold_key_post [where P = "\<lambda>st. ps_sealed st \<or> gap_fresh cfg now st",
      OF sweep_key_other sweep_key_fresh this assms]
  show ?thesis .
qed

lemma fold_seal_unsealed:
  "map_of (fst (fold (seal_slot acc cfg now) ks sle)) s = Some st \<Longrightarrow> \<not> ps_sealed st \<Longrightarrow>
    map_of (fst sle) s = Some st"
proof (induction ks arbitrary: sle)
  case (Cons a ks)
  then have "map_of (fst (seal_slot acc cfg now a sle)) s = Some st" by simp
  then show ?case using Cons.prems(2)
    by (auto simp: seal_slot_def case_prod_beta bt.lookup_insert seal_open_sealed
        split: option.splits if_splits)
qed simp

lemma sweep_invar: "bt_inv (fst sle) \<Longrightarrow> bt_inv (fst (fold (sweep_key acc cfg now) ks sle))"
  "bt_inv (fst sle) \<Longrightarrow> bt_inv (fst (fold (seal_slot acc cfg now) ks sle))"
  by (induction ks arbitrary: sle)
    (simp_all add: sweep_key_def seal_slot_def case_prod_beta bt.invar_insert split: option.splits)

lemma sweep_result:
  assumes "bt_inv (fst sle)" "map_of (fst (sweep acc cfg m now sle)) s = Some st" "\<not> ps_sealed st"
  shows "gap_fresh cfg now st" and "cfg_slot_seal_lag_slots cfg \<le> m \<Longrightarrow> m - cfg_slot_seal_lag_slots cfg < s"
proof -
  define sle1 where "sle1 = fold (sweep_key acc cfg now) (map_keys (fst sle)) sle"
  define ks where "ks = map fst (filter (\<lambda>(s, st). s \<le> m - cfg_slot_seal_lag_slots cfg \<and> \<not> ps_sealed st) (fst sle1))"
  define sle2 where
    "sle2 = (if cfg_slot_seal_lag_slots cfg \<le> m then fold (seal_slot acc cfg now) ks sle1 else sle1)"
  have inv: "bt_inv (fst sle2)" using sweep_invar assms(1) by (auto simp: sle2_def sle1_def)
  have "map_of (filter (\<lambda>(s, st). s > drop_cutoff cfg m \<or> \<not> ps_sealed st) (fst sle2)) s = Some st"
    using assms(2) unfolding sweep_def Let_def sle2_def ks_def sle1_def by simp
  then have 2: "map_of (fst sle2) s = Some st" by (rule map_of_filter_keysD [OF bt_inv_distinct [OF inv]])
  then have 1: "map_of (fst sle1) s = Some st"
    using assms(3) fold_seal_unsealed [of acc cfg now ks sle1 s st] by (simp add: sle2_def split: if_splits)
  then show "gap_fresh cfg now st" using fold_sweep_fresh assms(3) unfolding sle1_def by blast
  show "m - cfg_slot_seal_lag_slots cfg < s" if "cfg_slot_seal_lag_slots cfg \<le> m"
  proof (rule ccontr)
    assume "\<not> m - cfg_slot_seal_lag_slots cfg < s"
    then have "s \<in> set ks" using 1 assms(3) by (force simp: ks_def dest: map_of_SomeD)
    then show False
      using fold_seal_seals [of acc cfg now ks sle1 s st] 2 that assms(3) by (simp add: sle2_def)
  qed
qed

lemma reachable_sup_ok:
  "sup_ok cfg (received ts) (sv_max_slot (supervisor_loop acc cfg ts (supervisor_init start)))
    (sv_slots (supervisor_loop acc cfg ts (supervisor_init start)),
     sv_env (supervisor_loop acc cfg ts (supervisor_init start)))"
  using ok.SI_started [of cfg ts acc start] by (simp add: ok.SI_def)

text \<open>A gap never outlives the timeout by more than a sweep, and a slot the lag behind the
  high-water mark does not stay open: after a sweep that is due, every slot still open is less
  than the lag behind, and its first buffered entry, if any, sits strictly above the expected
  index and has waited for less than \<open>entry_timeout\<close>.\<close>
theorem sweep_clears_stale:
  assumes "sv = supervisor_loop acc cfg ts (supervisor_init start)"
    and "cfg_tick_check_interval cfg \<le> saturating_duration_since now (sv_last_sweep sv)"
    and "map_of (sv_slots (maybe_sweep acc cfg now sv)) s = Some st" "\<not> ps_sealed st"
  shows "(cfg_slot_seal_lag_slots cfg \<le> sv_max_slot sv \<longrightarrow> sv_max_slot sv - cfg_slot_seal_lag_slots cfg < s) \<and>
    (case ps_pending st of [] \<Rightarrow> True
     | (k, p) # _ \<Rightarrow> ps_next_expected_idx st < k \<and>
         saturating_duration_since now (pe_buffered_at p) < cfg_entry_timeout cfg)"
proof -
  let ?sv' = "maybe_sweep acc cfg now sv" and ?m = "sv_max_slot sv"
  have "sup_ok cfg (received ts) ?m (sv_slots sv, sv_env sv)" using reachable_sup_ok assms(1) by blast
  then have inv: "sup_ok cfg (received ts) ?m (sv_slots ?sv', sv_env ?sv')" "bt_inv (fst (sv_slots sv, sv_env sv))"
    using ok.SI_maybe_sweep [of cfg "received ts" sv acc now] assms(2)
    by (auto simp: ok.SI_def sup_ok_def maybe_sweep_def Let_def)
  have sw: "map_of (fst (sweep acc cfg ?m now (sv_slots sv, sv_env sv))) s = Some st"
    using assms(2,3) by (simp add: maybe_sweep_def Let_def)
  obtain b where "slot_open s b st"
    using sup_ok_open [OF inv(1) assms(3,4)] by blast
  then show ?thesis
    using sweep_result [OF inv(2) sw assms(4)]
    by (auto simp: gap_fresh_def slot_open_def slot_wf_def split: list.splits)
qed

lemma sweep_clears_stale_witness:
  "(case map_of (sv_slots (maybe_sweep (\<lambda>_ _. True) demo_cfg 30
       (supervisor_loop (\<lambda>_ _. True) demo_cfg [Recv (demo_merged 100 2 7) 0 1] (supervisor_init 0)))) 100 of
      None \<Rightarrow> False | Some st \<Rightarrow> ps_next_expected_idx st < 2)"
proof -
  let ?sv = "supervisor_loop (\<lambda>_ _. True) demo_cfg [Recv (demo_merged 100 2 7) 0 1] (supervisor_init 0)"
  have 1: "cfg_tick_check_interval demo_cfg \<le> saturating_duration_since 30 (sv_last_sweep ?sv)"
    by (simp add: supervisor_eval)
  obtain st where 2: "map_of (sv_slots (maybe_sweep (\<lambda>_ _. True) demo_cfg 30 ?sv)) 100 = Some st"
    "\<not> ps_sealed st" "fst (hd (ps_pending st)) = 2" "ps_pending st \<noteq> []"
    by (simp add: supervisor_eval)
  from sweep_clears_stale [OF refl 1 2(1,2)] 2 show ?thesis
    by (auto split: list.splits)
qed

section \<open>Counters\<close>

fun is_reordered :: "ordered_event \<Rightarrow> bool" where
  "is_reordered (Entry e) = oe_was_reordered e" | "is_reordered e = False"

fun is_complete :: "ordered_event \<Rightarrow> bool" where
  "is_complete (SlotComplete c) = True" | "is_complete e = False"

fun wait_of :: "ordered_event \<Rightarrow> u64" where
  "wait_of (Entry e) = ucast (oe_wait_duration_us e)" | "wait_of e = 0"

definition tally :: "(ordered_event \<Rightarrow> bool) \<Rightarrow> ordered_event list \<Rightarrow> u64" where
  "tally P es = of_nat (length (filter P es))"

lemma tally_snoc [simp]: "tally P [] = 0" "tally P (es @ [e]) = (if P e then tally P es + 1 else tally P es)"
  by (simp_all add: tally_def)

definition counters_ok :: "sup_env \<Rightarrow> bool" where
  "counters_ok env \<longleftrightarrow> (let c = env_counters env; es = attempts (env_out env) in
     pc_entries_emitted_immediate c = tally (\<lambda>e. is_entry e \<and> \<not> is_reordered e) es \<and>
     pc_entries_emitted_reordered c = tally is_reordered es \<and>
     pc_entries_missing_timeout c = tally is_missing es \<and>
     pc_slots_complete c = tally is_complete es \<and>
     pc_slots_incomplete c = tally (\<lambda>e. is_seal e \<and> \<not> is_complete e) es \<and>
     pc_reorder_wait_sum_us c = sum_list (map wait_of (filter is_reordered es)) \<and>
     pc_output_full c = of_nat (refused (env_out env)))"

lemma emit_entry_counters:
  "counters_ok (snd se) \<Longrightarrow> counters_ok (snd (emit_entry acc mg now re w se))"
  by (auto simp: counters_ok_def emit_entry_def count_emit_def entry_event_def send_event_def
      try_send_def Let_def)

lemma emit_first_counters: "counters_ok (snd se) \<Longrightarrow> counters_ok (snd (emit_first acc now p rest se))"
  by (simp add: emit_first_def case_prod_beta emit_entry_counters)

lemma emit_missing_counters:
  "counters_ok (snd se) \<Longrightarrow> counters_ok (snd (emit_missing acc cfg s now se))"
  by (auto simp: counters_ok_def emit_missing_def send_event_def try_send_def Let_def)

definition keeps_counters :: "u64 \<Rightarrow> poh_slot \<times> sup_env \<Rightarrow> poh_slot \<times> sup_env \<Rightarrow> bool" where
  "keeps_counters s se se' \<longleftrightarrow> (counters_ok (snd se) \<longrightarrow> counters_ok (snd se'))"

interpretation cnt: slot_machine acc cfg keeps_counters
  by unfold_locales (auto simp: keeps_counters_def emit_first_counters emit_missing_counters)

lemma process_open_counters:
  assumes "counters_ok (snd se)"
  shows "counters_ok (snd (process_open acc cfg now mg se))"
proof (cases "obs_entry_index (me_observation mg) = ps_next_expected_idx (fst se)")
  case True
  then show ?thesis
    using cnt.R_drain [OF refl] emit_entry_counters [OF assms]
    by (auto simp: process_open_def Let_def case_prod_beta keeps_counters_def)
qed (use assms in \<open>auto simp: process_open_def Let_def counters_ok_def\<close>)

lemma seal_open_counters:
  assumes "counters_ok (snd se)"
  shows "counters_ok (snd (seal_open acc cfg s now se))"
proof -
  have "counters_ok (snd (sealed_buffer acc cfg s now se))"
    using cnt.R_flush [OF refl refl] assms by (auto simp: sealed_buffer_def keeps_counters_def)
  then show ?thesis
    by (auto simp: seal_open_alt Let_def counters_ok_def count_seal_def seal_event_def send_event_def
        try_send_def)
qed

lemma process_merged_counters:
  "counters_ok (snd sle) \<Longrightarrow> counters_ok (snd (process_merged acc cfg now mg sle))"
  by (cases sle; cases "ps_sealed (found (map_of (fst sle) (obs_slot (me_observation mg))))")
    (auto simp: process_merged_cases process_open_counters, auto simp: counters_ok_def Let_def)

interpretation ct: supervisor_invariant acc cfg "\<lambda>ms m sle. counters_ok (snd sle)"
proof unfold_locales
  show "counters_ok (snd ([], \<lparr>env_counters = supervisor_counters_default, env_out = []\<rparr>))"
    by (simp add: counters_ok_def supervisor_counters_default_def)
  show "counters_ok (snd sle) \<Longrightarrow> counters_ok (snd (sweep_key acc cfg now s sle))" for sle now s
    using cnt.R_sweep [OF refl refl]
    by (auto simp: sweep_key_def case_prod_beta keeps_counters_def split: option.splits)
  show "counters_ok (snd sle) \<Longrightarrow> counters_ok (snd (seal_slot acc cfg now s sle))" for sle now s
    by (auto simp: seal_slot_def case_prod_beta seal_open_counters split: option.splits)
qed (simp_all add: process_merged_counters)

text \<open>The counters are the totals over the events offered to the output channel: entries
  emitted at once and after reordering, \<open>Missing\<close> markers, complete and incomplete slots, the
  summed wait of the reordered entries, and one \<open>output_full\<close> per refused event.\<close>
theorem supervisor_counters_total:
  "counters_ok (sv_env (supervisor_run acc cfg start ts now))"
proof -
  have "ct.SI (received ts) (supervisor_run acc cfg start ts now)" by (rule ct.SI_run)
  then show ?thesis by (simp add: ct.SI_def)
qed

section \<open>Conservation of entries\<close>

text \<open>What the counters say became of the received entries, and what is still buffered.\<close>

definition accounted :: "sup_env \<Rightarrow> u64" where
  "accounted env = (let c = env_counters env in
     pc_entries_emitted_immediate c + pc_entries_emitted_reordered c + pc_duplicates_dropped c +
     pc_pending_drops_capacity c + pc_late_arrivals_after_seal c)"

definition buffered :: "(u64 \<times> poh_slot) list \<Rightarrow> nat" where
  "buffered slots = sum_list (map (\<lambda>(s, st). length (ps_pending st)) slots)"

definition weight :: "poh_slot \<times> sup_env \<Rightarrow> u64" where
  "weight se = accounted (snd se) + of_nat (length (ps_pending (fst se)))"

lemma buffered_simps [simp]:
  "buffered [] = 0" "buffered ((s, st) # slots) = length (ps_pending st) + buffered slots"
  by (simp_all add: buffered_def)

lemma buffered_insert:
  "bt_inv slots \<Longrightarrow>
    buffered (bt_insert s st slots) + length (ps_pending (found (map_of slots s))) =
    buffered slots + length (ps_pending st)"
proof (induction s st slots rule: bt_insert.induct)
  case (2 s st a b m)
  have "s < a \<Longrightarrow> map_of m s = None"
    using "2.prems" by (force simp: bt_inv_Cons map_of_eq_None_iff)
  then show ?case using 2 by (auto simp: bt_inv_Cons found_def poh_slot_default_def)
qed (simp add: found_def poh_slot_default_def)

definition keeps_entries :: "u64 \<Rightarrow> poh_slot \<times> sup_env \<Rightarrow> poh_slot \<times> sup_env \<Rightarrow> bool" where
  "keeps_entries s se se' \<longleftrightarrow> weight se' = weight se \<and>
     fst ` set (ps_pending (fst se')) \<subseteq> fst ` set (ps_pending (fst se))"

lemma accounted_send [simp]: "accounted (send_event acc ev env) = accounted env"
  by (simp add: accounted_def send_event_def try_send_def Let_def)

lemma accounted_emit: "accounted (snd (emit_entry acc mg now re w se)) = accounted (snd se) + 1"
  by (simp add: emit_entry_def Let_def) (simp add: accounted_def count_emit_def Let_def)

lemma emit_first_weight:
  "ps_pending (fst se) = (k, p) # rest \<Longrightarrow> weight (emit_first acc now p rest se) = weight se"
  by (simp add: weight_def) (simp add: emit_first_def case_prod_beta accounted_emit)

lemma emit_missing_weight: "weight (emit_missing acc cfg s now se) = weight se"
  by (simp add: weight_def) (simp add: emit_missing_def Let_def, simp add: accounted_def Let_def)

interpretation ent: slot_machine acc cfg keeps_entries
proof unfold_locales
  show "keeps_entries s se1 se2 \<Longrightarrow> keeps_entries s se2 se3 \<Longrightarrow> keeps_entries s se1 se3" for s se1 se2 se3
    unfolding keeps_entries_def by (elim conjE, intro conjI, simp, erule (1) subset_trans)
qed (auto simp: keeps_entries_def emit_first_weight emit_missing_weight)

lemma sealed_buffer_entries: "keeps_entries s se (sealed_buffer acc cfg s now se)"
  using ent.R_flush [OF refl refl] by (simp add: sealed_buffer_def ent.R_refl)

lemma seal_open_weight: "weight (seal_open acc cfg s now se) = weight se"
proof -
  have "accounted (env\<lparr>env_counters := count_seal st (env_counters env)\<rparr>) = accounted env" for st env
    by (simp add: accounted_def count_seal_def Let_def)
  then show ?thesis
    using sealed_buffer_entries [of s se acc cfg now]
    by (simp add: seal_open_alt Let_def weight_def keeps_entries_def)
qed

lemma length_bt_insert:
  "bt_inv m \<Longrightarrow> k \<notin> fst ` set m \<Longrightarrow> length (bt_insert k v m) = Suc (length m)"
  using bt.length_keys_insert [of m k v] by (simp add: map_of_eq_None_iff)

lemma process_open_weight:
  assumes "bt_inv (ps_pending (fst se))"
    "obs_entry_index (me_observation mg) \<notin> fst ` set (ps_pending (fst se))"
  shows "weight (process_open acc cfg now mg se) = weight se + 1 \<and>
    fst ` set (ps_pending (fst (process_open acc cfg now mg se))) \<subseteq>
      insert (obs_entry_index (me_observation mg)) (fst ` set (ps_pending (fst se)))"
proof (cases "obs_entry_index (me_observation mg) = ps_next_expected_idx (fst se)")
  case True
  let ?se1 = "emit_entry acc mg now False 0 se"
  let ?se2 = "((fst ?se1)\<lparr>ps_next_expected_idx := ps_next_expected_idx (fst ?se1) + 1\<rparr>, snd ?se1)"
  have "keeps_entries 0 ?se2 (drain_consecutive_pending acc now ?se2)" by (rule ent.R_drain [OF refl])
  moreover have "ps_pending (fst ?se1) = ps_pending (fst se)" by (simp add: emit_entry_def Let_def)
  ultimately show ?thesis
    using True accounted_emit [of acc mg now False 0 se]
    by (auto simp: process_open_def Let_def case_prod_beta keeps_entries_def weight_def)
next
  case False
  then show ?thesis
    using assms length_bt_insert [OF assms]
    by (auto simp: process_open_def Let_def weight_def accounted_def)
qed

text \<open>Over the slot map, for streams in which no position (slot, index) is received twice.\<close>

definition entry_key :: "merged_entry \<Rightarrow> u64 \<times> u32" where
  "entry_key mg = (obs_slot (me_observation mg), obs_entry_index (me_observation mg))"

definition entries_ok :: "merged_entry list \<Rightarrow> slots_env \<Rightarrow> bool" where
  "entries_ok ms sle \<longleftrightarrow>
     of_nat (length ms) = accounted (snd sle) + of_nat (buffered (fst sle)) \<and>
     (\<forall>s st. map_of (fst sle) s = Some st \<longrightarrow>
        Pair s ` fst ` set (ps_pending st) \<subseteq> entry_key ` set ms \<and> (ps_sealed st \<longrightarrow> ps_pending st = []))"

lemma balance:
  assumes "b' + l = b + l'" "a' + l' = a + l + d" "n = a + b" "n' = n + d"
  shows "n' = a' + (b' :: u64)"
proof -
  have e: "b' = b + l' - l" "a' = a + l + d - l'" using assms(1,2) by (simp_all add: eq_diff_eq)
  have "n' = a + b + d" using assms(3,4) by simp
  also have "\<dots> = (a + l + d - l') + (b + l' - l)" by simp
  finally show ?thesis by (simp only: e)
qed

lemma entries_ok_insert:
  assumes "entries_ok ms (slots, env)" "bt_inv slots"
    and "weight (st', env') = weight (found (map_of slots s), env) + d"
    and "of_nat (length ms') = of_nat (length ms) + d" "set ms \<subseteq> set ms'"
    and "Pair s ` fst ` set (ps_pending st') \<subseteq> entry_key ` set ms'"
    and "ps_sealed st' \<Longrightarrow> ps_pending st' = []"
  shows "entries_ok ms' (bt_insert s st' slots, env')"
proof -
  have b: "of_nat (buffered (bt_insert s st' slots)) + of_nat (length (ps_pending (found (map_of slots s)))) =
      of_nat (buffered slots) + (of_nat (length (ps_pending st')) :: u64)"
    using arg_cong [OF buffered_insert [OF assms(2), of s st'], of "of_nat :: nat \<Rightarrow> u64"] by simp
  have a: "accounted env' + of_nat (length (ps_pending st')) =
      accounted env + of_nat (length (ps_pending (found (map_of slots s)))) + d"
    using assms(3) by (simp add: weight_def)
  have "of_nat (length ms) = accounted env + of_nat (buffered slots)"
    using assms(1) by (simp add: entries_ok_def)
  then have "of_nat (length ms') = accounted env' + of_nat (buffered (bt_insert s st' slots))"
    by (rule balance [OF b a _ assms(4)])
  moreover have "Pair k ` fst ` set (ps_pending st) \<subseteq> entry_key ` set ms' \<and> (ps_sealed st \<longrightarrow> ps_pending st = [])"
    if "map_of (bt_insert s st' slots) k = Some st" for k st
  proof (cases "k = s")
    case True
    then show ?thesis using that assms(6,7) by (simp add: bt.lookup_insert)
  next
    case False
    then have "map_of slots k = Some st" using that by (simp add: bt.lookup_insert)
    then show ?thesis using assms(1,5) unfolding entries_ok_def fst_conv by blast
  qed
  ultimately show ?thesis unfolding entries_ok_def fst_conv snd_conv by blast
qed

lemma entries_ok_found:
  assumes "entries_ok ms (slots, env)"
  shows "Pair s ` fst ` set (ps_pending (found (map_of slots s))) \<subseteq> entry_key ` set ms"
    and "sealed_state (map_of slots s) \<Longrightarrow> ps_pending (found (map_of slots s)) = []"
  using assms
  by (cases "map_of slots s"; simp add: entries_ok_def found_def poh_slot_default_def sealed_state_def)+

lemma entries_ok_process:
  assumes ok: "sup_ok cfg ms m (slots, env)" and ent: "entries_ok ms (slots, env)"
    and new: "entry_key mg \<notin> entry_key ` set ms"
  shows "entries_ok (ms @ [mg]) (process_merged acc cfg now mg (slots, env))"
proof -
  define s st where "s = obs_slot (me_observation mg)" and "st = found (map_of slots s)"
  note pm = process_merged_cases [OF s_def st_def]
  have bt: "bt_inv slots" and inv: "slot_inv cfg ms m s env (map_of slots s)"
    using ok by (auto simp: sup_ok_def)
  show ?thesis
  proof (cases "ps_sealed st")
    case True
    then show ?thesis
      using entries_ok_found [OF ent, of s] sealed_found [of "map_of slots s"]
      by (auto simp: pm st_def weight_def accounted_def Let_def
          intro!: entries_ok_insert [OF ent bt, where d = 1])
  next
    case False
    let ?se = "process_open acc cfg now mg (touch now st, env)"
    obtain b where o: "slot_open s b st" "settled st"
      using slot_inv_open [OF inv] False by (metis st_def sealed_found)
    have "obs_entry_index (me_observation mg) \<notin> fst ` set (ps_pending st)"
      using entries_ok_found(1) [OF ent, of s] new by (force simp: entry_key_def s_def st_def)
    with o have w: "weight ?se = weight (st, env) + 1"
      "fst ` set (ps_pending (fst ?se)) \<subseteq> insert (obs_entry_index (me_observation mg)) (fst ` set (ps_pending st))"
      using process_open_weight [of "(touch now st, env)" mg acc cfg now]
      by (auto simp: weight_def slot_open_def slot_wf_def)
    have "continues s (touch now st, env) ?se"
      by (rule process_open_continues) (use o(2) slot_open_touch in \<open>auto simp: s_def\<close>)
    then have "\<not> ps_sealed (fst ?se)"
      using cont_unsealed o(1) slot_open_touch by (metis fst_conv)
    moreover have "Pair s ` fst ` set (ps_pending (fst ?se)) \<subseteq> entry_key ` set (ms @ [mg])"
      using w(2) entries_ok_found(1) [OF ent, of s] by (auto simp: entry_key_def s_def st_def)
    ultimately show ?thesis
      unfolding pm(2) [OF False]
      by (intro entries_ok_insert [OF ent bt, where d = 1]) (use w(1) st_def in auto)
  qed
qed

lemma entries_ok_sweep_key:
  assumes "sup_ok cfg ms m sle" "entries_ok ms sle"
  shows "entries_ok ms (sweep_key acc cfg now s sle)"
proof (cases "\<exists>st. map_of (fst sle) s = Some st \<and> \<not> ps_sealed st")
  case True
  then obtain slots env st where st: "sle = (slots, env)" "map_of slots s = Some st" "\<not> ps_sealed st"
    by (cases sle) auto
  let ?se = "sweep_slot acc cfg s now (st, env)"
  obtain b where "slot_open s b (fst (st, env))"
    using assms(1) st(1) by (auto intro: sup_ok_open [OF _ st(2,3), of cfg ms m env])
  with cont.R_sweep [OF refl refl] have "\<not> ps_sealed (fst ?se)" by (rule cont_unsealed [rotated])
  moreover have k: "keeps_entries s (st, env) ?se" by (rule ent.R_sweep [OF refl refl])
  moreover have "Pair s ` fst ` set (ps_pending (fst ?se)) \<subseteq> entry_key ` set ms"
  proof -
    have "fst ` set (ps_pending (fst ?se)) \<subseteq> fst ` set (ps_pending st)" using k by (simp add: keeps_entries_def)
    moreover have "Pair s ` fst ` set (ps_pending st) \<subseteq> entry_key ` set ms"
      using assms(2) st(1,2) unfolding entries_ok_def by simp
    ultimately show ?thesis by (meson image_mono subset_trans)
  qed
  ultimately have "entries_ok ms (bt_insert s (fst ?se) slots, snd ?se)"
    using assms st
    by (intro entries_ok_insert [of ms slots env, where d = 0])
      (auto simp: keeps_entries_def found_def sup_ok_def)
  then show ?thesis using st by (simp add: sweep_key_def case_prod_beta)
next
  case False
  then show ?thesis using assms by (auto simp: sweep_key_def split: option.splits)
qed

lemma entries_ok_seal:
  assumes "sup_ok cfg ms m sle" "entries_ok ms sle"
  shows "entries_ok ms (seal_slot acc cfg now s sle)"
proof (cases "\<exists>st. map_of (fst sle) s = Some st \<and> \<not> ps_sealed st")
  case True
  then obtain slots env st where st: "sle = (slots, env)" "map_of slots s = Some st" "\<not> ps_sealed st"
    by (cases sle) auto
  let ?se = "seal_open acc cfg s now (st, env)"
  obtain b where o: "slot_open s b (fst (st, env))"
    using assms(1) st(1) by (auto intro: sup_ok_open [OF _ st(2,3), of cfg ms m env])
  have "ps_pending (fst ?se) = []" by (rule seal_open_sim [OF o])
  then have "entries_ok ms (bt_insert s (fst ?se) slots, snd ?se)"
    using assms st seal_open_weight [of acc cfg s now "(st, env)"]
    by (intro entries_ok_insert [of ms slots env, where d = 0]) (auto simp: found_def sup_ok_def)
  then show ?thesis using st by (simp add: seal_slot_def case_prod_beta)
next
  case False
  then show ?thesis using assms by (auto simp: seal_slot_def split: option.splits)
qed

lemma buffered_filter:
  "(\<And>s st. (s, st) \<in> set slots \<Longrightarrow> \<not> P s st \<Longrightarrow> ps_pending st = []) \<Longrightarrow>
    buffered (filter (\<lambda>(s, st). P s st) slots) = buffered slots"
proof (induction slots)
  case (Cons a slots)
  then have "buffered (filter (\<lambda>(s, st). P s st) slots) = buffered slots" by auto
  then show ?case using Cons.prems by (cases a) auto
qed simp

lemma entries_ok_retain:
  assumes ok: "sup_ok cfg ms m (slots, env)" and ent: "entries_ok ms (slots, env)"
  shows "entries_ok ms (filter (\<lambda>(s, st). P s \<or> \<not> ps_sealed st) slots, env)"
proof -
  have d: "distinct (map_keys slots)" using ok by (simp add: sup_ok_def bt_inv_distinct)
  have "ps_pending st = []" if "(s, st) \<in> set slots" "ps_sealed st" for s st
    using ent that d by (auto simp: entries_ok_def)
  then have "buffered (filter (\<lambda>(s, st). P s \<or> \<not> ps_sealed st) slots) = buffered slots"
    by (intro buffered_filter) auto
  then show ?thesis
    using ent map_of_filter_keysD [OF d] unfolding entries_ok_def fst_conv snd_conv by metis
qed

interpretation con: supervisor_invariant acc cfg
  "\<lambda>ms m sle. sup_ok cfg ms m sle \<and> (distinct (map entry_key ms) \<longrightarrow> entries_ok ms sle)"
proof unfold_locales
  show "sup_ok cfg [] 0 ([], \<lparr>env_counters = supervisor_counters_default, env_out = []\<rparr>) \<and>
    (distinct (map entry_key []) \<longrightarrow>
      entries_ok [] ([], \<lparr>env_counters = supervisor_counters_default, env_out = []\<rparr>))"
    using sup_ok_init [of cfg]
    by (simp add: entries_ok_def accounted_def) (simp add: supervisor_counters_default_def Let_def)
next
  fix ms m sle mg now
  assume "sup_ok cfg ms m sle \<and> (distinct (map entry_key ms) \<longrightarrow> entries_ok ms sle)"
  then show "sup_ok cfg (ms @ [mg]) (max m (obs_slot (me_observation mg))) (process_merged acc cfg now mg sle) \<and>
      (distinct (map entry_key (ms @ [mg])) \<longrightarrow> entries_ok (ms @ [mg]) (process_merged acc cfg now mg sle))"
    by (cases sle) (auto simp: process_merged_ok [OF _ refl] entries_ok_process)
qed (auto simp: sweep_key_ok seal_slot_ok retain_ok [simplified] entries_ok_sweep_key entries_ok_seal
    entries_ok_retain [where P = "\<lambda>s. s > drop_cutoff cfg _", simplified])

lemma flushed_buffers_empty:
  assumes "entries_ok ms (slots, env)" "distinct (map_keys slots)"
    and "\<And>s st. map_of slots s = Some st \<Longrightarrow> ps_sealed st"
  shows "buffered slots = 0"
proof -
  have "ps_pending st = []" if "(s, st) \<in> set slots" for s st
    using assms that by (auto simp: entries_ok_def)
  then show ?thesis by (auto simp: buffered_def)
qed

text \<open>Nothing is lost without a count: if no position (slot, index) is received twice, then
  after shutdown the number of received entries is the number of entries emitted at once or after
  reordering plus those counted as duplicates, as dropped for capacity or as late (modulo
  \<open>2^64\<close>, as the counters wrap).\<close>
theorem supervisor_conserves_entries:
  assumes "distinct (map entry_key (received ts))"
    and "env = sv_env (supervisor_run acc cfg start ts now)"
  shows "of_nat (length (received ts)) = accounted env \<and>
    accounted env = tally is_entry (attempts (env_out env)) +
      pc_duplicates_dropped (env_counters env) + pc_pending_drops_capacity (env_counters env) +
      pc_late_arrivals_after_seal (env_counters env)"
proof -
  let ?sv = "supervisor_run acc cfg start ts now"
  have "con.SI cfg (received ts) ?sv" by (rule con.SI_run)
  then have e: "sup_ok cfg (received ts) (sv_max_slot ?sv) (sv_slots ?sv, env)"
    "entries_ok (received ts) (sv_slots ?sv, env)"
    using assms by (simp_all add: con.SI_def)
  have "buffered (sv_slots ?sv) = 0"
  proof (rule flushed_buffers_empty [OF e(2)])
    show "distinct (map_keys (sv_slots ?sv))" using e(1) by (simp add: sup_ok_def bt_inv_distinct)
    show "ps_sealed st" if "map_of (sv_slots ?sv) s = Some st" for s st
      using that unfolding supervisor_run_def by (rule final_flush_sealed)
  qed
  moreover have "counters_ok env"
    using ct.SI_run [of ts acc cfg start now] by (simp add: ct.SI_def assms(2))
  moreover have "tally (\<lambda>e. is_entry e \<and> \<not> is_reordered e) es + tally is_reordered es = tally is_entry es" for es
  proof (induction es rule: rev_induct)
    case (snoc e es)
    then show ?case by (cases e) (auto simp: algebra_simps)
  qed simp
  ultimately show ?thesis
    using e(2) by (simp add: entries_ok_def accounted_def counters_ok_def Let_def algebra_simps)
qed

lemma supervisor_conserves_entries_witness:
  "accounted (sv_env (supervisor_run (\<lambda>_ _. True) demo_cfg 0 demo_turns 30)) = 3"
  using supervisor_conserves_entries [of demo_turns _ "\<lambda>_ _. True" demo_cfg 0 30, OF _ refl]
  by (simp add: demo_turns_def entry_key_def demo_merged_def demo_obs_def)

text \<open>The premise is needed: of two entries of one slot with the same index and different
  hashes (both pass the merger) that arrive ahead of the expected index, the second overwrites
  the first in the buffer. Three entries are received, two are accounted for.\<close>
theorem supervisor_overwrites_silently:
  "accounted (sv_env (supervisor_run (\<lambda>_ _. True) demo_cfg 0
     [Recv (demo_merged 100 1 7) 0 1, Recv (demo_merged 100 1 8) 2 3, Recv (demo_merged 100 0 9) 4 5] 30)) = 2"
  by (simp add: supervisor_eval accounted_def)

end
