(* ===== verification/Nonce_Manager.thy ===== *)
theory Nonce_Manager
  imports Prelude
begin

text \<open>
  \<open>crates/tick-trigger-fan-out-bench/src/nonce/manager.rs\<close>: the pool of durable nonces. Each
  entry is a state machine \<open>Ready\<close>, \<open>InFlight\<close>, \<open>AwaitingUpdate\<close>, \<open>Stale\<close> behind its own lock;
  a round-robin allocator hands out ready entries. The operations take the lock of one entry at
  a time, so an execution of several threads is a sequence of the operations of \<open>nonce_op\<close>.
  \<open>entry_step\<close> is the state machine of one entry, which every operation refines.
\<close>

section \<open>Data\<close>

type_synonym nonce_id = u16

datatype nonce_state =
  Ready hash | InFlight hash instant | AwaitingUpdate hash instant | Stale hash instant

fun is_ready :: "nonce_state \<Rightarrow> bool" where
  "is_ready (Ready h) = True" | "is_ready st = False"

fun is_stale :: "nonce_state \<Rightarrow> bool" where
  "is_stale (Stale h t) = True" | "is_stale st = False"

text \<open>\<open>blockhash\<close> of a ready entry, \<open>blockhash_used\<close> of the others.\<close>

fun state_hash :: "nonce_state \<Rightarrow> hash" where
  "state_hash (Ready h) = h" | "state_hash (InFlight h t) = h"
| "state_hash (AwaitingUpdate h t) = h" | "state_hash (Stale h t) = h"

record nonce_entry =
  ne_id :: nonce_id
  ne_pubkey :: pubkey
  ne_state :: nonce_state

record nonce_manager =
  nm_entries :: "nonce_entry list"
  nm_pubkey_index :: "(pubkey, nat) hash_map"
  nm_rr_cursor :: u64

definition nonce_manager_new :: "(nonce_id \<times> pubkey \<times> hash) list \<Rightarrow> nonce_manager" where
  "nonce_manager_new entries = \<lparr>
     nm_entries = map (\<lambda>(i, pk, bh). \<lparr> ne_id = i, ne_pubkey = pk, ne_state = Ready bh \<rparr>) entries,
     nm_pubkey_index = fold (\<lambda>(idx, (i, pk, bh)). hm_insert pk idx) (enumerate 0 entries) [],
     nm_rr_cursor = 0 \<rparr>"

section \<open>Operations\<close>

text \<open>The scan of \<open>take_ready\<close> over the indices \<open>(start + offset) % n\<close>.\<close>

fun scan_ready :: "nonce_entry list \<Rightarrow> nat list \<Rightarrow> (nat \<times> hash) option" where
  "scan_ready es [] = None"
| "scan_ready es (i # is) = (case ne_state (es ! i) of Ready h \<Rightarrow> Some (i, h) | _ \<Rightarrow> scan_ready es is)"

definition cyclic :: "nat \<Rightarrow> nat \<Rightarrow> nat list" where
  "cyclic n start = map (\<lambda>offset. (start + offset) mod n) [0..<n]"

definition take_ready :: "instant \<Rightarrow> nonce_manager \<Rightarrow> (nonce_id \<times> pubkey \<times> hash) option \<times> nonce_manager" where
  "take_ready now m =
    (let n = length (nm_entries m)
     in if n = 0 then (None, m)
        else let start = unat (nm_rr_cursor m) mod n; m1 = m\<lparr>nm_rr_cursor := nm_rr_cursor m + 1\<rparr>
          in case scan_ready (nm_entries m) (cyclic n start) of
               None \<Rightarrow> (None, m1)
             | Some (i, h) \<Rightarrow> let e = nm_entries m ! i
                 in (Some (ne_id e, ne_pubkey e, h),
                     m1\<lparr>nm_entries := (nm_entries m)[i := e\<lparr>ne_state := InFlight h now\<rparr>]\<rparr>))"

definition get_by_pubkey :: "pubkey \<Rightarrow> nonce_manager \<Rightarrow> nat option" where
  "get_by_pubkey pk m = map_of (nm_pubkey_index m) pk"

text \<open>\<open>entries.iter().find(|e| e.id == id)\<close>: the index of the first entry with the id.\<close>

fun find_id :: "nonce_id \<Rightarrow> nat \<Rightarrow> nonce_entry list \<Rightarrow> nat option" where
  "find_id x k [] = None"
| "find_id x k (e # es) = (if ne_id e = x then Some k else find_id x (Suc k) es)"

definition get_by_id :: "nonce_id \<Rightarrow> nonce_manager \<Rightarrow> nat option" where
  "get_by_id x m = find_id x 0 (nm_entries m)"

definition count_in_state :: "(nonce_state \<Rightarrow> bool) \<Rightarrow> nonce_manager \<Rightarrow> nat" where
  "count_in_state P m = length (filter (\<lambda>e. P (ne_state e)) (nm_entries m))"

definition ready_count :: "nonce_manager \<Rightarrow> nat" where
  "ready_count m = count_in_state is_ready m"

definition set_entry :: "nat \<Rightarrow> nonce_state \<Rightarrow> nonce_manager \<Rightarrow> nonce_manager" where
  "set_entry i st m =
    m\<lparr>nm_entries := (nm_entries m)[i := (nm_entries m ! i)\<lparr>ne_state := st\<rparr>]\<rparr>"

definition on_account_update :: "pubkey \<Rightarrow> hash \<Rightarrow> nonce_manager \<Rightarrow> bool \<times> nonce_manager" where
  "on_account_update pk bh m = (case get_by_pubkey pk m of
     None \<Rightarrow> (False, m)
   | Some i \<Rightarrow> let advanced = (state_hash (ne_state (nm_entries m ! i)) \<noteq> bh)
       in (advanced, if advanced then set_entry i (Ready bh) m else m))"

definition on_observed_landing :: "instant \<Rightarrow> nonce_id \<Rightarrow> nonce_manager \<Rightarrow> nonce_manager" where
  "on_observed_landing now x m = (case get_by_id x m of
     None \<Rightarrow> m
   | Some i \<Rightarrow> (case ne_state (nm_entries m ! i) of
         InFlight h since \<Rightarrow> set_entry i (AwaitingUpdate h now) m
       | _ \<Rightarrow> m))"

definition on_landing_with_blockhash :: "nonce_id \<Rightarrow> hash \<Rightarrow> nonce_manager \<Rightarrow> bool \<times> nonce_manager" where
  "on_landing_with_blockhash x bh m = (case get_by_id x m of
     None \<Rightarrow> (False, m)
   | Some i \<Rightarrow> (case ne_state (nm_entries m ! i) of
         Ready h \<Rightarrow> if h \<noteq> bh then (True, set_entry i (Ready bh) m) else (False, m)
       | _ \<Rightarrow> (True, set_entry i (Ready bh) m)))"

text \<open>The new state of one entry in \<open>tick_timeouts\<close>, \<open>None\<close> where it does not become stale.\<close>

fun timed_out :: "instant \<Rightarrow> duration \<Rightarrow> duration \<Rightarrow> nonce_state \<Rightarrow> nonce_state option" where
  "timed_out now in_flight_deadline awaiting_update_deadline (InFlight h since) =
     (if saturating_duration_since now since \<ge> in_flight_deadline then Some (Stale h now) else None)"
| "timed_out now in_flight_deadline awaiting_update_deadline (AwaitingUpdate h since) =
     (if saturating_duration_since now since \<ge> awaiting_update_deadline then Some (Stale h now) else None)"
| "timed_out now in_flight_deadline awaiting_update_deadline st = None"

fun tick_entries :: "instant \<Rightarrow> duration \<Rightarrow> duration \<Rightarrow> nonce_entry list \<Rightarrow>
    (nonce_id \<times> pubkey) list \<times> nonce_entry list" where
  "tick_entries now d1 d2 [] = ([], [])"
| "tick_entries now d1 d2 (e # es) =
    (let (stale, es') = tick_entries now d1 d2 es
     in case timed_out now d1 d2 (ne_state e) of
          None \<Rightarrow> (stale, e # es')
        | Some st \<Rightarrow> ((ne_id e, ne_pubkey e) # stale, e\<lparr>ne_state := st\<rparr> # es'))"

definition tick_timeouts ::
  "instant \<Rightarrow> duration \<Rightarrow> duration \<Rightarrow> nonce_manager \<Rightarrow> (nonce_id \<times> pubkey) list \<times> nonce_manager" where
  "tick_timeouts now d1 d2 m =
    (let (stale, es) = tick_entries now d1 d2 (nm_entries m) in (stale, m\<lparr>nm_entries := es\<rparr>))"

definition restore_unchanged :: "nonce_id \<Rightarrow> nonce_manager \<Rightarrow> bool \<times> nonce_manager" where
  "restore_unchanged x m = (case get_by_id x m of
     None \<Rightarrow> (False, m)
   | Some i \<Rightarrow> (case ne_state (nm_entries m ! i) of
         Ready h \<Rightarrow> (False, m)
       | InFlight h since \<Rightarrow> (True, set_entry i (Ready h) m)
       | AwaitingUpdate h since \<Rightarrow> (True, set_entry i (Ready h) m)
       | Stale h since \<Rightarrow> (True, set_entry i (Ready h) m)))"

definition on_fallback_refresh :: "pubkey \<Rightarrow> hash \<Rightarrow> nonce_manager \<Rightarrow> nonce_manager" where
  "on_fallback_refresh pk observed m = (case get_by_pubkey pk m of
     None \<Rightarrow> m
   | Some i \<Rightarrow> (case ne_state (nm_entries m ! i) of
         Stale h since \<Rightarrow> if h = observed then set_entry i (Ready h) m else set_entry i (Ready observed) m
       | _ \<Rightarrow> m))"

section \<open>The entries in use\<close>

text \<open>The pubkey index points at entries of that key.\<close>

definition nonce_inv :: "nonce_manager \<Rightarrow> bool" where
  "nonce_inv m \<longleftrightarrow> (\<forall>pk i. map_of (nm_pubkey_index m) pk = Some i \<longrightarrow>
     i < length (nm_entries m) \<and> ne_pubkey (nm_entries m ! i) = pk)"

lemma find_id_Some:
  "find_id x k es = Some i \<Longrightarrow> k \<le> i \<and> i < k + length es \<and> ne_id (es ! (i - k)) = x \<and>
    (\<forall>j < i - k. ne_id (es ! j) \<noteq> x)"
proof (induction es arbitrary: k)
  case (Cons e es)
  show ?case
  proof (cases "ne_id e = x")
    case False
    then have "find_id x (Suc k) es = Some i" using Cons.prems by simp
    from Cons.IH [OF this] False show ?thesis
      by (auto simp: nth_Cons' Suc_diff_Suc less_Suc_eq_0_disj)
  qed (use Cons.prems in simp)
qed simp

lemma find_id_None: "find_id x k es = None \<longleftrightarrow> (\<forall>e \<in> set es. ne_id e \<noteq> x)"
  by (induction es arbitrary: k) auto

lemma get_by_id_Some:
  "get_by_id x m = Some i \<Longrightarrow> i < length (nm_entries m) \<and> ne_id (nm_entries m ! i) = x"
  using find_id_Some [of x 0 "nm_entries m" i] by (simp add: get_by_id_def)

lemma scan_ready_Some:
  "scan_ready es is = Some (i, h) \<Longrightarrow> i \<in> set is \<and> ne_state (es ! i) = Ready h"
  by (induction "is") (auto split: nonce_state.splits)

lemma scan_ready_None: "scan_ready es is = None \<longleftrightarrow> (\<forall>i \<in> set is. \<not> is_ready (ne_state (es ! i)))"
  by (induction "is") (auto split: nonce_state.splits)

lemma set_cyclic: "0 < n \<Longrightarrow> set (cyclic n start) = {..<n}"
proof -
  assume n: "0 < n"
  have "j \<in> set (cyclic n start)" if "j < n" for j
  proof -
    have "(start + (j + n - start mod n) mod n) mod n = (start + (j + (n - start mod n))) mod n"
      using n by (simp add: mod_add_right_eq)
    also have "\<dots> = ((start mod n) + (j + (n - start mod n))) mod n" by (simp add: mod_add_left_eq)
    also have "\<dots> = (j + n) mod n"
      using mod_less_divisor [OF n, of start] by (simp add: add.commute add.left_commute)
    also have "\<dots> = j" using that by simp
    finally show ?thesis using n by (auto simp: cyclic_def intro!: image_eqI [of _ _ "(j + n - start mod n) mod n"])
  qed
  then show ?thesis using n by (auto simp: cyclic_def)
qed

text \<open>\<open>take_ready\<close> in terms of the index it picks.\<close>

definition next_ready :: "nonce_manager \<Rightarrow> (nat \<times> hash) option" where
  "next_ready m = (let n = length (nm_entries m)
     in scan_ready (nm_entries m) (cyclic n (unat (nm_rr_cursor m) mod n)))"

lemma take_ready_alt:
  "take_ready now m =
    (if nm_entries m = [] then (None, m)
     else case next_ready m of
       None \<Rightarrow> (None, m\<lparr>nm_rr_cursor := nm_rr_cursor m + 1\<rparr>)
     | Some (i, h) \<Rightarrow> (Some (ne_id (nm_entries m ! i), ne_pubkey (nm_entries m ! i), h),
         set_entry i (InFlight h now) (m\<lparr>nm_rr_cursor := nm_rr_cursor m + 1\<rparr>)))"
  by (auto simp: take_ready_def next_ready_def set_entry_def Let_def split: option.split)

lemma next_ready_Some:
  "next_ready m = Some (i, h) \<Longrightarrow> i < length (nm_entries m) \<and> ne_state (nm_entries m ! i) = Ready h"
proof -
  assume a: "next_ready m = Some (i, h)"
  then have s: "i \<in> set (cyclic (length (nm_entries m)) (unat (nm_rr_cursor m) mod length (nm_entries m)))"
    "ne_state (nm_entries m ! i) = Ready h"
    by (auto simp: next_ready_def Let_def dest: scan_ready_Some)
  then have "0 < length (nm_entries m)" by (auto simp: cyclic_def)
  with s set_cyclic show ?thesis by auto
qed

lemma next_ready_None: "next_ready m = None \<longleftrightarrow> ready_count m = 0"
proof (cases "nm_entries m = []")
  case False
  then have "set (cyclic (length (nm_entries m)) s) = {..<length (nm_entries m)}" for s
    by (simp add: set_cyclic)
  then have "next_ready m = None \<longleftrightarrow> (\<forall>e \<in> set (nm_entries m). \<not> is_ready (ne_state e))"
    by (simp add: next_ready_def Let_def scan_ready_None Ball_def) (metis in_set_conv_nth)
  then show ?thesis by (simp add: ready_count_def count_in_state_def filter_empty_conv)
qed (simp add: next_ready_def cyclic_def ready_count_def count_in_state_def)

lemma set_entry_fields [simp]:
  "length (nm_entries (set_entry i st m)) = length (nm_entries m)"
  "nm_pubkey_index (set_entry i st m) = nm_pubkey_index m"
  "nm_rr_cursor (set_entry i st m) = nm_rr_cursor m"
  "i < length (nm_entries m) \<Longrightarrow> nm_entries (set_entry i st m) ! j =
     (if j = i then (nm_entries m ! i)\<lparr>ne_state := st\<rparr> else nm_entries m ! j)"
  by (simp_all add: set_entry_def nth_list_update)

lemma count_update:
  "i < length xs \<Longrightarrow> length (filter P (xs[i := x])) + (if P (xs ! i) then 1 else 0) =
    length (filter P xs) + (if P x then 1 else 0)"
proof (induction xs arbitrary: i)
  case (Cons a xs)
  show ?case
  proof (cases i)
    case (Suc j)
    then show ?thesis using Cons.IH [of j] Cons.prems by simp
  qed simp
qed simp

lemma ready_count_set_entry:
  "i < length (nm_entries m) \<Longrightarrow>
    ready_count (set_entry i st m) + (if is_ready (ne_state (nm_entries m ! i)) then 1 else 0) =
    ready_count m + (if is_ready st then 1 else 0)"
  using count_update [of i "nm_entries m" "\<lambda>e. is_ready (ne_state e)"
      "(nm_entries m ! i)\<lparr>ne_state := st\<rparr>"]
  by (simp add: ready_count_def count_in_state_def set_entry_def)

lemma ready_count_cursor [simp]: "ready_count (m\<lparr>nm_rr_cursor := c\<rparr>) = ready_count m"
  by (simp add: ready_count_def count_in_state_def)

section \<open>The state machine of one entry\<close>

text \<open>The machine of the module header: Ready, InFlight, AwaitingUpdate, back to Ready, with Stale
  after a timeout. A \<open>Ready\<close> entry may take a newer blockhash.\<close>

inductive entry_step :: "nonce_state \<Rightarrow> nonce_state \<Rightarrow> bool" where
  take: "entry_step (Ready h) (InFlight h t)"
| land: "entry_step (InFlight h t) (AwaitingUpdate h t')"
| stale_in_flight: "entry_step (InFlight h t) (Stale h t')"
| stale_awaiting: "entry_step (AwaitingUpdate h t) (Stale h t')"
| advance: "h' \<noteq> state_hash st \<Longrightarrow> entry_step st (Ready h')"
| restore: "\<not> is_ready st \<Longrightarrow> entry_step st (Ready (state_hash st))"

inductive_simps entry_step_from_ready: "entry_step (Ready h) st"
inductive_simps entry_step_from_in_flight: "entry_step (InFlight h t) st"
inductive_simps entry_step_from_awaiting: "entry_step (AwaitingUpdate h t) st"
inductive_simps entry_step_from_stale: "entry_step (Stale h t) st"

lemmas entry_step_simps = entry_step_from_ready entry_step_from_in_flight entry_step_from_awaiting
  entry_step_from_stale

lemma entry_step_to_ready: "\<not> is_ready st \<Longrightarrow> entry_step st (Ready h)"
  using advance [of h st] restore [of st] by (cases "h = state_hash st") auto

datatype nonce_op =
  TakeReady instant | AccountUpdate pubkey hash | ObservedLanding instant nonce_id
| LandingWith nonce_id hash | TickTimeouts instant duration duration
| RestoreUnchanged nonce_id | FallbackRefresh pubkey hash

fun exec :: "nonce_op \<Rightarrow> nonce_manager \<Rightarrow> nonce_manager" where
  "exec (TakeReady now) m = snd (take_ready now m)"
| "exec (AccountUpdate pk h) m = snd (on_account_update pk h m)"
| "exec (ObservedLanding now x) m = on_observed_landing now x m"
| "exec (LandingWith x h) m = snd (on_landing_with_blockhash x h m)"
| "exec (TickTimeouts now d1 d2) m = snd (tick_timeouts now d1 d2 m)"
| "exec (RestoreUnchanged x) m = snd (restore_unchanged x m)"
| "exec (FallbackRefresh pk h) m = on_fallback_refresh pk h m"

text \<open>What an operation may do to the entries: each keeps its identity and makes at most one
  step of the machine.\<close>

definition entry_moves :: "nonce_entry \<Rightarrow> nonce_entry \<Rightarrow> bool" where
  "entry_moves e e' \<longleftrightarrow> ne_id e' = ne_id e \<and> ne_pubkey e' = ne_pubkey e \<and>
     (ne_state e' = ne_state e \<or> entry_step (ne_state e) (ne_state e'))"

definition manager_moves :: "nonce_manager \<Rightarrow> nonce_manager \<Rightarrow> bool" where
  "manager_moves m m' \<longleftrightarrow> list_all2 entry_moves (nm_entries m) (nm_entries m') \<and>
     nm_pubkey_index m' = nm_pubkey_index m"

lemma manager_moves_refl: "manager_moves m m"
  by (simp add: manager_moves_def entry_moves_def list_all2_same)

lemma manager_moves_cursor [simp]:
  "manager_moves m (m'\<lparr>nm_rr_cursor := c\<rparr>) = manager_moves m m'"
  "manager_moves (m\<lparr>nm_rr_cursor := c\<rparr>) m' = manager_moves m m'"
  by (simp_all add: manager_moves_def)

lemma manager_moves_set:
  "i < length (nm_entries m) \<Longrightarrow> entry_step (ne_state (nm_entries m ! i)) st \<Longrightarrow>
    manager_moves m (set_entry i st m)"
  by (simp add: manager_moves_def list_all2_conv_all_nth entry_moves_def)

lemma tick_entries_all2:
  "list_all2 entry_moves es (snd (tick_entries now d1 d2 es))"
proof (induction es)
  case (Cons e es)
  have "timed_out now d1 d2 (ne_state e) = Some st \<Longrightarrow> entry_step (ne_state e) st" for st
    by (cases "ne_state e") (auto simp: entry_step_simps split: if_splits)
  with Cons show ?case
    by (auto simp: case_prod_beta Let_def entry_moves_def split: option.split)
qed simp

lemma get_by_pubkey_Some:
  "nonce_inv m \<Longrightarrow> get_by_pubkey pk m = Some i \<Longrightarrow>
    i < length (nm_entries m) \<and> ne_pubkey (nm_entries m ! i) = pk"
  by (simp add: nonce_inv_def get_by_pubkey_def)

lemma exec_moves:
  assumes "nonce_inv m"
  shows "manager_moves m (exec op m)"
proof (cases op)
  case (TakeReady now)
  show ?thesis
  proof (cases "next_ready m")
    case (Some ih)
    then obtain i h where ih: "next_ready m = Some (i, h)" by (cases ih) auto
    have "manager_moves (m\<lparr>nm_rr_cursor := nm_rr_cursor m + 1\<rparr>)
        (set_entry i (InFlight h now) (m\<lparr>nm_rr_cursor := nm_rr_cursor m + 1\<rparr>))"
      by (rule manager_moves_set) (use next_ready_Some [OF ih] in \<open>simp_all add: entry_step_simps\<close>)
    then show ?thesis by (simp add: TakeReady take_ready_alt ih manager_moves_refl)
  qed (simp add: TakeReady take_ready_alt manager_moves_refl)
next
  case (TickTimeouts now d1 d2)
  then show ?thesis
    using tick_entries_all2 by (simp add: tick_timeouts_def case_prod_beta Let_def manager_moves_def)
next
  case (AccountUpdate pk h)
  then show ?thesis using assms
    by (auto simp: on_account_update_def Let_def manager_moves_refl dest!: get_by_pubkey_Some
        intro!: manager_moves_set advance split: option.split)
next
  case (ObservedLanding now x)
  then show ?thesis
    by (auto simp: on_observed_landing_def manager_moves_refl entry_step_simps dest!: get_by_id_Some
        intro!: manager_moves_set split: option.split nonce_state.split)
next
  case (LandingWith x h)
  then show ?thesis
    by (auto simp: on_landing_with_blockhash_def manager_moves_refl entry_step_simps dest!: get_by_id_Some
        intro!: manager_moves_set split: option.split nonce_state.split)
next
  case (RestoreUnchanged x)
  then show ?thesis
    by (auto simp: restore_unchanged_def manager_moves_refl dest!: get_by_id_Some
        intro!: manager_moves_set entry_step_to_ready split: option.split nonce_state.split)
next
  case (FallbackRefresh pk h)
  then show ?thesis using assms
    by (auto simp: on_fallback_refresh_def manager_moves_refl dest!: get_by_pubkey_Some
        intro!: manager_moves_set entry_step_to_ready split: option.split nonce_state.split)
qed

section \<open>Executions\<close>

definition run_ops :: "nonce_op list \<Rightarrow> nonce_manager \<Rightarrow> nonce_manager" where
  "run_ops ops m = fold exec ops m"

text \<open>The pubkey index of a new manager: the last entry with the key.\<close>

lemma index_fold:
  "map_of (fold (\<lambda>(idx, (i, pk, bh)). hm_insert pk idx) (enumerate k es) ix) p =
    (if p \<in> (fst \<circ> snd) ` set es
     then Some (k + last (filter (\<lambda>j. fst (snd (es ! j)) = p) [0..<length es]))
     else map_of ix p)"
proof (induction es rule: rev_induct)
  case (snoc e es)
  obtain i pk bh where e: "e = (i, pk, bh)" by (cases e)
  have f: "filter (\<lambda>j. fst (snd ((es @ [e]) ! j)) = p) [0..<length es] =
      filter (\<lambda>j. fst (snd (es ! j)) = p) [0..<length es]"
    by (rule filter_cong) (simp_all add: nth_append)
  have l: "filter (\<lambda>j. fst (snd ((es @ [e]) ! j)) = p) [0..<length (es @ [e])] =
      filter (\<lambda>j. fst (snd (es ! j)) = p) [0..<length es] @ (if pk = p then [length es] else [])"
    using f by (simp add: e)
  show ?case
    by (cases "pk = p") (simp_all add: snoc l enumerate_append_eq hm.lookup_insert e image_image f [unfolded e])
qed simp

lemma get_by_pubkey_new:
  "get_by_pubkey pk (nonce_manager_new es) =
    (if pk \<in> (fst \<circ> snd) ` set es
     then Some (last (filter (\<lambda>j. fst (snd (es ! j)) = pk) [0..<length es])) else None)"
  by (simp add: get_by_pubkey_def nonce_manager_new_def index_fold)

lemma nonce_inv_new: "nonce_inv (nonce_manager_new es)"
  unfolding nonce_inv_def
proof (intro allI impI)
  fix pk i
  assume a: "map_of (nm_pubkey_index (nonce_manager_new es)) pk = Some i"
  let ?js = "filter (\<lambda>j. fst (snd (es ! j)) = pk) [0..<length es]"
  have "pk \<in> (fst \<circ> snd) ` set es" and i: "i = last ?js"
    using a get_by_pubkey_new [of pk es] by (auto simp: get_by_pubkey_def split: if_splits)
  then obtain j where "j < length es" "fst (snd (es ! j)) = pk" by (auto simp: in_set_conv_nth)
  then have "j \<in> set ?js" by simp
  then have "?js \<noteq> []" by (metis empty_iff empty_set)
  then have "i \<in> set ?js" using i last_in_set by blast
  then show "i < length (nm_entries (nonce_manager_new es)) \<and>
      ne_pubkey (nm_entries (nonce_manager_new es) ! i) = pk"
    by (simp add: nonce_manager_new_def case_prod_beta)
qed

lemma manager_moves_entries:
  assumes "manager_moves m m'"
  shows "map ne_id (nm_entries m') = map ne_id (nm_entries m)"
    and "map ne_pubkey (nm_entries m') = map ne_pubkey (nm_entries m)"
    and "length (nm_entries m') = length (nm_entries m)"
  using assms by (auto simp: manager_moves_def entry_moves_def list_all2_conv_all_nth intro: nth_equalityI)

lemma nonce_inv_exec: "nonce_inv m \<Longrightarrow> nonce_inv (exec op m)"
proof -
  assume i: "nonce_inv m"
  note e = manager_moves_entries [OF exec_moves [OF i, of op]]
  have "nm_pubkey_index (exec op m) = nm_pubkey_index m"
    using exec_moves [OF i, of op] by (simp add: manager_moves_def)
  moreover have "j < length (nm_entries m) \<Longrightarrow>
      ne_pubkey (nm_entries (exec op m) ! j) = ne_pubkey (nm_entries m ! j)" for j
    using e(2,3) by (metis nth_map)
  ultimately show "nonce_inv (exec op m)" using i e(3) by (auto simp: nonce_inv_def)
qed

lemma run_ops_inv: "nonce_inv m \<Longrightarrow> nonce_inv (run_ops ops m)"
  by (induction ops arbitrary: m) (simp_all add: run_ops_def nonce_inv_exec)

lemma run_ops_ids: "nonce_inv m \<Longrightarrow> map ne_id (nm_entries (run_ops ops m)) = map ne_id (nm_entries m)"
  by (induction ops arbitrary: m)
    (simp_all add: run_ops_def nonce_inv_exec manager_moves_entries(1) [OF exec_moves])

lemma entry_with_state:
  "e\<lparr>ne_state := st\<rparr> = \<lparr> ne_id = ne_id e, ne_pubkey = ne_pubkey e, ne_state = st \<rparr>"
  by (cases e) simp

text \<open>C37: Every operation, in every state the manager can reach, moves every entry by at most one
  step of the nonce state machine and keeps its id and key.\<close>
theorem nonce_refines_machine:
  "list_all2 entry_moves (nm_entries (run_ops ops (nonce_manager_new es)))
     (nm_entries (exec op (run_ops ops (nonce_manager_new es))))"
  using exec_moves [OF run_ops_inv [OF nonce_inv_new]] by (simp add: manager_moves_def)

lemma take_ready_step:
  "case take_ready now m of
     (None, m') \<Rightarrow> ready_count m = 0 \<and> nm_entries m' = nm_entries m
   | (Some (x, pk, h), m') \<Rightarrow> \<exists>i < length (nm_entries m).
       nm_entries m ! i = \<lparr> ne_id = x, ne_pubkey = pk, ne_state = Ready h \<rparr> \<and>
       nm_entries m' = (nm_entries m)[i := \<lparr> ne_id = x, ne_pubkey = pk, ne_state = InFlight h now \<rparr>] \<and>
       Suc (ready_count m') = ready_count m"
proof (cases "next_ready m")
  case None
  then show ?thesis
    by (simp add: take_ready_alt next_ready_None) (simp add: next_ready_None [symmetric])
next
  case (Some ih)
  then obtain i h where ih: "next_ready m = Some (i, h)" by (cases ih) auto
  note n = next_ready_Some [OF ih]
  then have "nm_entries m \<noteq> []" by auto
  then show ?thesis
    using n ready_count_set_entry [of i "m\<lparr>nm_rr_cursor := nm_rr_cursor m + 1\<rparr>" "InFlight h now"]
    by (auto simp: take_ready_alt ih set_entry_def entry_with_state intro!: exI [of _ i])
qed

text \<open>\<open>take_ready\<close> returns nothing exactly when no entry is ready, and then changes no entry;
  otherwise one ready entry goes in flight with its blockhash, all others stay, and there is one
  ready entry less.\<close>
theorem take_ready_exact:
  "case take_ready now m of
     (None, m') \<Rightarrow> ready_count m = 0 \<and> nm_entries m' = nm_entries m
   | (Some (x, pk, h), m') \<Rightarrow> \<exists>i < length (nm_entries m).
       nm_entries m ! i = \<lparr> ne_id = x, ne_pubkey = pk, ne_state = Ready h \<rparr> \<and>
       nm_entries m' = (nm_entries m)[i := \<lparr> ne_id = x, ne_pubkey = pk, ne_state = InFlight h now \<rparr>] \<and>
       Suc (ready_count m') = ready_count m"
  by (rule take_ready_step)

text \<open>An operation that may make the entry with this key and id ready again.\<close>

fun releases :: "pubkey \<Rightarrow> nonce_id \<Rightarrow> nonce_op \<Rightarrow> bool" where
  "releases pk x (AccountUpdate pk' h) = (pk' = pk)"
| "releases pk x (LandingWith x' h) = (x' = x)"
| "releases pk x (RestoreUnchanged x') = (x' = x)"
| "releases pk x (FallbackRefresh pk' h) = (pk' = pk)"
| "releases pk x op = False"

definition in_use :: "nat \<Rightarrow> nonce_manager \<Rightarrow> bool" where
  "in_use i m \<longleftrightarrow> i < length (nm_entries m) \<and> \<not> is_ready (ne_state (nm_entries m ! i))"

lemma in_use_set:
  "in_use i m \<Longrightarrow> j < length (nm_entries m) \<Longrightarrow> (i = j \<Longrightarrow> \<not> is_ready st) \<Longrightarrow> in_use i (set_entry j st m)"
  by (auto simp: in_use_def)

lemma tick_entries_length [simp]: "length (snd (tick_entries now d1 d2 es)) = length es"
  using tick_entries_all2 by (metis list_all2_lengthD)

lemma tick_entries_not_ready:
  "i < length es \<Longrightarrow> \<not> is_ready (ne_state (es ! i)) \<Longrightarrow>
    \<not> is_ready (ne_state (snd (tick_entries now d1 d2 es) ! i))"
proof (induction es arbitrary: i)
  case (Cons e es)
  have "timed_out now d1 d2 (ne_state e) = Some st \<Longrightarrow> \<not> is_ready st" for st
    by (cases "ne_state e") (auto split: if_splits)
  with Cons show ?case
    by (cases i) (auto simp: case_prod_beta Let_def split: option.split)
qed simp

lemma in_use_exec:
  assumes inv: "nonce_inv m" and use: "in_use i m"
    and rel: "\<not> releases (ne_pubkey (nm_entries m ! i)) (ne_id (nm_entries m ! i)) op"
  shows "in_use i (exec op m)"
proof (cases op)
  case (TakeReady now)
  show ?thesis
  proof (cases "next_ready m")
    case (Some ih)
    then obtain j h where j: "next_ready m = Some (j, h)" by (cases ih) auto
    then show ?thesis
      using use next_ready_Some [OF j]
      by (auto simp: TakeReady take_ready_alt in_use_def)
  qed (use use in \<open>auto simp: TakeReady take_ready_alt in_use_def\<close>)
next
  case (TickTimeouts now d1 d2)
  then show ?thesis
    using use tick_entries_not_ready by (simp add: tick_timeouts_def case_prod_beta Let_def in_use_def)
next
  case (AccountUpdate pk h)
  then show ?thesis using assms
    by (auto simp: on_account_update_def Let_def dest!: get_by_pubkey_Some intro!: in_use_set split: option.split)
next
  case (ObservedLanding now x)
  then show ?thesis using use
    by (auto simp: on_observed_landing_def dest!: get_by_id_Some intro!: in_use_set
        split: option.split nonce_state.split)
next
  case (LandingWith x h)
  then show ?thesis using assms
    by (auto simp: on_landing_with_blockhash_def dest!: get_by_id_Some intro!: in_use_set
        split: option.split nonce_state.split)
next
  case (RestoreUnchanged x)
  then show ?thesis using assms
    by (auto simp: restore_unchanged_def dest!: get_by_id_Some intro!: in_use_set
        split: option.split nonce_state.split)
next
  case (FallbackRefresh pk h)
  then show ?thesis using assms
    by (auto simp: on_fallback_refresh_def dest!: get_by_pubkey_Some intro!: in_use_set
        split: option.split nonce_state.split)
qed

lemma in_use_run:
  assumes "nonce_inv m" "in_use i m" "pk = ne_pubkey (nm_entries m ! i)" "x = ne_id (nm_entries m ! i)"
    "filter (releases pk x) ops = []"
  shows "in_use i (run_ops ops m)"
  using assms
proof (induction ops arbitrary: m)
  case (Cons op ops)
  have mv: "manager_moves m (exec op m)" by (rule exec_moves) (rule Cons.prems)
  have "i < length (nm_entries m)" using Cons.prems by (simp add: in_use_def)
  then have "ne_pubkey (nm_entries (exec op m) ! i) = pk" "ne_id (nm_entries (exec op m) ! i) = x"
    using manager_moves_entries [OF mv] Cons.prems(3,4) by (metis nth_map)+
  moreover have "in_use i (exec op m)" using Cons.prems by (auto intro: in_use_exec split: if_splits)
  ultimately show ?case
    using Cons.IH [of "exec op m"] Cons.prems by (simp add: run_ops_def nonce_inv_exec split: if_splits)
qed (simp add: run_ops_def)

text \<open>C5: A nonce that was handed out is not handed out again until an operation names it: a new
  account value, a landing with its next blockhash, a restore or a fallback refresh. Other
  takes, observed landings and timeouts do not release it.\<close>
theorem nonce_exclusive:
  assumes "distinct (map fst es)" and "m = run_ops ops (nonce_manager_new es)"
    and "take_ready now m = (Some (x, pk, h), m1)"
    and "filter (releases pk x) ops' = []"
    and "fst (take_ready now' (run_ops ops' m1)) = Some (x', pk', h')"
  shows "x' \<noteq> x"
proof
  assume same: "x' = x"
  have inv: "nonce_inv m" using assms(2) run_ops_inv [OF nonce_inv_new] by simp
  obtain i where i: "i < length (nm_entries m)" "ne_id (nm_entries m1 ! i) = x"
    "ne_pubkey (nm_entries m1 ! i) = pk" "in_use i m1"
    using take_ready_step [of m now] assms(3) by (auto simp: in_use_def)
  have inv1: "nonce_inv m1" using nonce_inv_exec [OF inv, of "TakeReady now"] assms(3) by simp
  let ?m2 = "run_ops ops' m1"
  have u: "in_use i ?m2" using in_use_run [OF inv1 i(4)] i assms(4) by simp
  obtain j where j: "j < length (nm_entries ?m2)" "ne_id (nm_entries ?m2 ! j) = x"
    "is_ready (ne_state (nm_entries ?m2 ! j))"
    using take_ready_step [of ?m2 now'] assms(5) same by (auto split: prod.splits)
  have ids: "map ne_id (nm_entries ?m2) = map fst es" "map ne_id (nm_entries m1) = map fst es"
    using run_ops_ids [OF inv1] manager_moves_entries(1) [OF exec_moves [OF inv, of "TakeReady now"]]
      run_ops_ids [OF nonce_inv_new] assms(2,3)
    by (simp_all add: nonce_manager_new_def case_prod_beta comp_def)
  then have "ne_id (nm_entries ?m2 ! i) = x"
    using u i(2) by (metis in_use_def length_map nth_map)
  then have "i = j"
    using assms(1) ids(1) u j by (metis in_use_def length_map nth_eq_iff_index_eq nth_map)
  then show False using u j by (simp add: in_use_def)
qed

lemmas nonce_eval = nonce_manager_new_def run_ops_def take_ready_def cyclic_def on_account_update_def
  on_observed_landing_def on_landing_with_blockhash_def restore_unchanged_def on_fallback_refresh_def
  tick_timeouts_def get_by_pubkey_def get_by_id_def set_entry_def saturating_duration_since_def Let_def

lemma nonce_exclusive_witness:
  "(1 :: nonce_id) \<noteq> 0"
proof -
  let ?es = "[(0, 10, 100), (1, 11, 101)] :: (nonce_id \<times> pubkey \<times> hash) list"
  let ?m1 = "snd (take_ready 5 (run_ops [] (nonce_manager_new ?es)))"
  have 1: "distinct (map fst ?es)" by simp
  have 2: "take_ready 5 (run_ops [] (nonce_manager_new ?es)) = (Some (0, 10, 100), ?m1)"
    by (simp add: nonce_eval)
  have 3: "filter (releases 10 0) [ObservedLanding 6 0, TickTimeouts 9 1 1] = []" by simp
  have 4: "fst (take_ready 7 (run_ops [ObservedLanding 6 0, TickTimeouts 9 1 1] ?m1)) = Some (1, 11, 101)"
    by (simp add: nonce_eval)
  show ?thesis by (rule nonce_exclusive [OF 1 refl 2 3 4])
qed

text \<open>Consecutive allocations.\<close>

fun takes :: "instant \<Rightarrow> nat \<Rightarrow> nonce_manager \<Rightarrow> (nonce_id \<times> pubkey \<times> hash) option list" where
  "takes now 0 m = []"
| "takes now (Suc k) m = (let (r, m') = take_ready now m in r # takes now k m')"

text \<open>A pool from which the first \<open>j\<close> entries have been taken in order.\<close>

definition taken_pool :: "instant \<Rightarrow> (nonce_id \<times> pubkey \<times> hash) list \<Rightarrow> nat \<Rightarrow> nonce_entry list" where
  "taken_pool now es j = map (\<lambda>(i, x, pk, h). \<lparr> ne_id = x, ne_pubkey = pk,
     ne_state = (if i < j then InFlight h now else Ready h) \<rparr>) (enumerate 0 es)"

lemma length_taken_pool [simp]: "length (taken_pool now es j) = length es"
  by (simp add: taken_pool_def)

lemma nth_taken_pool:
  "i < length es \<Longrightarrow> es ! i = (x, pk, h) \<Longrightarrow> taken_pool now es j ! i =
    \<lparr> ne_id = x, ne_pubkey = pk, ne_state = (if i < j then InFlight h now else Ready h) \<rparr>"
  by (simp add: taken_pool_def nth_enumerate_eq)

lemma taken_pool_update:
  assumes "j < length es" "es ! j = (x, pk, h)"
  shows "(taken_pool now es j)[j := \<lparr> ne_id = x, ne_pubkey = pk, ne_state = InFlight h now \<rparr>] =
    taken_pool now es (Suc j)"
proof (rule nth_equalityI)
  fix i assume "i < length ((taken_pool now es j)[j := \<lparr> ne_id = x, ne_pubkey = pk, ne_state = InFlight h now \<rparr>])"
  then have i: "i < length es" by simp
  obtain y q g where e: "es ! i = (y, q, g)" by (cases "es ! i")
  show "(taken_pool now es j)[j := \<lparr> ne_id = x, ne_pubkey = pk, ne_state = InFlight h now \<rparr>] ! i =
      taken_pool now es (Suc j) ! i"
    using assms i e by (auto simp: nth_list_update nth_taken_pool)
qed simp

lemma cyclic_first: "0 < n \<Longrightarrow> \<exists>is. cyclic n start = (start mod n) # is"
  by (simp add: cyclic_def upt_conv_Cons)

lemma takes_pool:
  assumes "length es < 2 ^ 64"
  shows "nm_entries m = taken_pool now es j \<Longrightarrow> nm_rr_cursor m = of_nat j \<Longrightarrow> j + k = length es \<Longrightarrow>
    takes now k m = map Some (drop j es)"
proof (induction k arbitrary: j m)
  case (Suc k)
  then have j: "j < length es" by simp
  obtain x pk h where e: "es ! j = (x, pk, h)" by (cases "es ! j")
  have c: "unat (nm_rr_cursor m) mod length es = j"
    using j assms Suc.prems(2) by (simp add: unat_of_nat)
  have "0 < length es" using j by linarith
  from cyclic_first [OF this, of j] j obtain "is" where "cyclic (length es) j = j # is" by auto
  then have n: "next_ready m = Some (j, h)"
    using c Suc.prems(1) nth_taken_pool [OF j e] by (simp add: next_ready_def Let_def)
  have ne: "nm_entries m \<noteq> []" using j Suc.prems(1) by (metis length_taken_pool list.size(3) not_less_zero)
  let ?m' = "snd (take_ready now m)"
  have m': "nm_entries ?m' = taken_pool now es (Suc j)" "nm_rr_cursor ?m' = of_nat (Suc j)"
    "fst (take_ready now m) = Some (es ! j)"
    using Suc.prems(1,2) ne n taken_pool_update [OF j e] nth_taken_pool [OF j e]
    by (simp_all add: take_ready_alt set_entry_def entry_with_state e)
  from Suc.IH [OF m'(1,2)] Suc.prems(3) show ?case
    using m'(3) j by (simp add: case_prod_beta Cons_nth_drop_Suc [symmetric])
qed simp

text \<open>From a fresh pool, \<open>n\<close> consecutive allocations hand out the \<open>n\<close> nonces in the order of the
  configuration, each once.\<close>
theorem fresh_pool_round_robin:
  assumes "length es < 2 ^ 64"
  shows "takes now (length es) (nonce_manager_new es) = map Some es"
proof -
  have "nm_entries (nonce_manager_new es) = taken_pool now es 0"
    by (rule nth_equalityI) (auto simp: nonce_manager_new_def taken_pool_def nth_enumerate_eq split: prod.split)
  from takes_pool [OF assms this, of "length es"] show ?thesis by (simp add: nonce_manager_new_def)
qed

lemma fresh_pool_round_robin_witness:
  "takes 5 2 (nonce_manager_new [(0, 10, 100), (1, 11, 101)]) = [Some (0, 10, 100), Some (1, 11, 101)]"
proof -
  have "length [(0 :: nonce_id, 10 :: pubkey, 100 :: hash), (1, 11, 101)] < 2 ^ 64" by simp
  from fresh_pool_round_robin [OF this, of 5] show ?thesis
    by (simp del: takes.simps add: numeral_2_eq_2)
qed

section \<open>Timeouts\<close>

text \<open>An entry a sweep at \<open>now\<close> must report.\<close>

fun overdue :: "instant \<Rightarrow> duration \<Rightarrow> duration \<Rightarrow> nonce_state \<Rightarrow> bool" where
  "overdue now d1 d2 (InFlight h since) = (d1 \<le> now - since)"
| "overdue now d1 d2 (AwaitingUpdate h since) = (d2 \<le> now - since)"
| "overdue now d1 d2 st = False"

text \<open>A sweep reports, in order, exactly the entries that were in flight or awaiting an update
  for their deadline or longer; they become stale with their blockhash, all other entries stay,
  and a second sweep at the same time reports nothing.\<close>
theorem tick_timeouts_exact:
  "tick_timeouts now d1 d2 m =
    (map (\<lambda>e. (ne_id e, ne_pubkey e)) (filter (overdue now d1 d2 \<circ> ne_state) (nm_entries m)),
     m\<lparr>nm_entries := map (\<lambda>e. if overdue now d1 d2 (ne_state e)
        then e\<lparr>ne_state := Stale (state_hash (ne_state e)) now\<rparr> else e) (nm_entries m)\<rparr>) \<and>
   fst (tick_timeouts now d1 d2 (snd (tick_timeouts now d1 d2 m))) = []"
proof -
  let ?mark = "\<lambda>e. if overdue now d1 d2 (ne_state e)
    then e\<lparr>ne_state := Stale (state_hash (ne_state e)) now\<rparr> else e"
  have "tick_entries now d1 d2 es =
      (map (\<lambda>e. (ne_id e, ne_pubkey e)) (filter (overdue now d1 d2 \<circ> ne_state) es), map ?mark es)" for es
  proof (induction es)
    case (Cons e es)
    then show ?case by (cases "ne_state e") (auto simp: saturating_duration_since_def)
  qed simp
  then show ?thesis by (auto simp: tick_timeouts_def filter_empty_conv)
qed

end
