(* ===== verification/Bytes.thy ===== *)
theory Bytes
  imports Prelude
begin

text \<open>
  Byte strings: little-endian numbers of a fixed width (\<open>to_le_bytes\<close>, \<open>from_le_bytes\<close>)
  and the 32-byte values of \<open>solana_sdk\<close> as the words the other theories use. Shared by the
  nonce-account parser, the transaction builder and the durable-nonce hash.
\<close>

type_synonym bytes = "u8 list"

fun le_nat :: "bytes \<Rightarrow> nat" where
  "le_nat [] = 0"
| "le_nat (b # bs) = unat b + 256 * le_nat bs"

fun le_bytes :: "nat \<Rightarrow> nat \<Rightarrow> bytes" where
  "le_bytes 0 v = []"
| "le_bytes (Suc n) v = of_nat (v mod 256) # le_bytes n (v div 256)"

lemma length_le_bytes [simp]: "length (le_bytes n v) = n"
  by (induction n arbitrary: v) auto

lemma unat_byte_mod [simp]: "unat (of_nat (v mod 256) :: u8) = v mod 256"
  by (simp add: unat_of_nat)

lemma le_nat_less: "le_nat bs < 256 ^ length bs"
proof (induction bs)
  case (Cons b bs)
  have "unat b < 256" using unat_lt [of b] by simp
  then show ?case using Cons by simp
qed simp

lemma le_nat_le_bytes: "le_nat (le_bytes n v) = v mod 256 ^ n"
proof (induction n arbitrary: v)
  case (Suc n)
  have "v mod 256 + 256 * (v div 256 mod 256 ^ n) = v mod (256 * 256 ^ n)"
    by (metis add.commute mod_mult2_eq)
  with Suc show ?case by simp
qed simp

lemma le_bytes_le_nat: "le_bytes (length bs) (le_nat bs) = bs"
proof (induction bs)
  case (Cons b bs)
  have b: "unat b < 256" using unat_lt [of b] by simp
  then have "(unat b + 256 * le_nat bs) mod 256 = unat b" by simp
  moreover have "(unat b + 256 * le_nat bs) div 256 = le_nat bs" using b by simp
  ultimately show ?case using Cons by simp
qed simp

text \<open>\<open>u32::from_le_bytes\<close>, \<open>u64::to_le_bytes\<close> and the conversions of 32-byte arrays.\<close>

definition u32_of_le :: "bytes \<Rightarrow> u32" where "u32_of_le bs = of_nat (le_nat bs)"

definition u64_le :: "u64 \<Rightarrow> bytes" where "u64_le w = le_bytes 8 (unat w)"

definition u32_le :: "u32 \<Rightarrow> bytes" where "u32_le w = le_bytes 4 (unat w)"

definition key_of_bytes :: "bytes \<Rightarrow> hash" where "key_of_bytes bs = of_nat (le_nat bs)"

definition key_bytes :: "hash \<Rightarrow> bytes" where "key_bytes h = le_bytes 32 (unat h)"

lemma length_keys_bytes [simp]: "length (key_bytes h) = 32" "length (u64_le w) = 8" "length (u32_le x) = 4"
  by (simp_all add: key_bytes_def u64_le_def u32_le_def)

lemma unat_mod_256_32: "unat (h :: hash) mod 256 ^ 32 = unat h"
  using unat_lt [of h] by (intro mod_less) simp

lemma key_of_key_bytes [simp]: "key_of_bytes (key_bytes h) = h"
  by (simp only: key_of_bytes_def key_bytes_def le_nat_le_bytes unat_mod_256_32) simp

lemma key_bytes_of_key: "length bs = 32 \<Longrightarrow> key_bytes (key_of_bytes bs) = bs"
  using le_nat_less [of bs] le_bytes_le_nat [of bs]
  by (simp add: key_of_bytes_def key_bytes_def unat_of_nat)

lemma key_bytes_inj: "key_bytes a = key_bytes b \<longleftrightarrow> a = b"
  by (metis key_of_key_bytes)

lemma u32_of_u32_le [simp]: "u32_of_le (u32_le w) = w"
proof -
  have "unat w mod 256 ^ 4 = unat w" using unat_lt [of w] by (intro mod_less) simp
  then show ?thesis by (simp add: u32_of_le_def u32_le_def le_nat_le_bytes)
qed

lemma u64_le_inj: "u64_le a = u64_le b \<longleftrightarrow> a = b"
proof
  have e: "le_nat (u64_le w) = unat w" for w
    using unat_lt [of w] by (simp add: u64_le_def le_nat_le_bytes)
  assume "u64_le a = u64_le b"
  then show "a = b" by (metis e word_unat_eq_iff)
qed simp

text \<open>\<open>data[a..b]\<close>\<close>

definition byte_range :: "nat \<Rightarrow> nat \<Rightarrow> 'a list \<Rightarrow> 'a list" where
  "byte_range a b xs = take (b - a) (drop a xs)"

lemma length_byte_range [simp]: "b \<le> length xs \<Longrightarrow> length (byte_range a b xs) = b - a"
  by (simp add: byte_range_def)

end
