(* ===== verification/Nonce_State.thy ===== *)
theory Nonce_State
  imports Bytes
begin

text \<open>
  \<open>crates/tick-trigger-fan-out-bench/src/nonce/state.rs\<close>: authority and blockhash out of the
  data of a nonce account. The layout is the one of \<open>nonce::state::Versions\<close>: a version
  word, the state discriminant, the authority, the durable nonce, the fee.
\<close>

record nonce_account_state =
  na_authority :: pubkey
  na_blockhash :: hash

datatype nonce_parse_error = TooShort nat | Uninitialized | Bincode u32

definition parse_nonce_account_data :: "bytes \<Rightarrow> nonce_parse_error + nonce_account_state" where
  "parse_nonce_account_data data =
    (if length data < 80 then Inl (TooShort (length data))
     else let state_disc = u32_of_le (byte_range 4 8 data)
       in if state_disc = 0 then Inl Uninitialized
          else if state_disc \<noteq> 1 then Inl (Bincode state_disc)
          else Inr \<lparr> na_authority = key_of_bytes (byte_range 8 40 data),
                     na_blockhash = key_of_bytes (byte_range 40 72 data) \<rparr>)"

text \<open>The data of an account as the chain stores it: \<open>version\<close> and \<open>fee\<close> are ignored.\<close>

definition nonce_data :: "u32 \<Rightarrow> u32 \<Rightarrow> nonce_account_state \<Rightarrow> u64 \<Rightarrow> bytes" where
  "nonce_data version disc st fee =
     u32_le version @ u32_le disc @ key_bytes (na_authority st) @ key_bytes (na_blockhash st) @ u64_le fee"

lemma nonce_data_slices [simp]:
  "length (nonce_data v d st f) = 80"
  "byte_range 4 8 (nonce_data v d st f) = u32_le d"
  "byte_range 8 40 (nonce_data v d st f) = key_bytes (na_authority st)"
  "byte_range 40 72 (nonce_data v d st f) = key_bytes (na_blockhash st)"
  by (simp_all add: nonce_data_def byte_range_def)

lemma parse_nonce_data:
  "parse_nonce_account_data (nonce_data v d st f @ rest) =
    (if d = 0 then Inl Uninitialized else if d = 1 then Inr st else Inl (Bincode d))"
proof -
  have "byte_range a b (nonce_data v d st f @ rest) = byte_range a b (nonce_data v d st f)" if "b \<le> 80" for a b
    using that by (simp add: byte_range_def)
  from this [of 8 4] this [of 40 8] this [of 72 40] show ?thesis
    by (cases "d = 1") (auto simp: parse_nonce_account_data_def Let_def)
qed

text \<open>Parsing reads back what an account stores, for every version word, fee and trailing
  data; a discriminant other than 1 is the matching error.\<close>
theorem nonce_parse_roundtrip:
  "parse_nonce_account_data (nonce_data v d st f @ rest) =
    (if d = 0 then Inl Uninitialized else if d = 1 then Inr st else Inl (Bincode d))"
  by (rule parse_nonce_data)

text \<open>Parsing is total and exact: it succeeds iff the data has the 80 bytes of an initialised
  account, and then the data is the one that stores the result.\<close>
theorem nonce_parse_ok_iff:
  "parse_nonce_account_data data = Inr st \<longleftrightarrow>
    80 \<le> length data \<and> u32_of_le (byte_range 4 8 data) = 1 \<and>
    byte_range 8 40 data = key_bytes (na_authority st) \<and> byte_range 40 72 data = key_bytes (na_blockhash st)"
proof -
  have "key_of_bytes bs = k \<longleftrightarrow> bs = key_bytes k" if "length bs = 32" for bs k
    using that key_bytes_of_key by force
  moreover have "length (byte_range 8 40 data) = 32" "length (byte_range 40 72 data) = 32" if "80 \<le> length data"
    using that by simp_all
  ultimately show ?thesis
    by (cases st) (auto simp: parse_nonce_account_data_def Let_def)
qed

end
