(* ===== verification/Nonce_Sources.thy ===== *)
theory Nonce_Sources
  imports Nonce_Manager Nonce_State
begin

text \<open>
  Where nonce values come from besides landings:
  \<open>crates/tick-trigger-fan-out-bench/src/nonce/bootstrap.rs\<close> (the pool at startup) and
  \<open>nonce/rpc_fallback.rs\<close> (the poller that refreshes stale entries). The RPC node is a
  parameter \<open>rpc\<close>: \<open>getMultipleAccounts\<close> on a list of keys gives one optional account per
  key, or an error. \<open>from_str\<close> is the base58 parser of \<open>Pubkey\<close>.
\<close>

type_synonym rpc = "pubkey list \<Rightarrow> bytes option list option"

text \<open>\<open>pubkeys.chunks(100)\<close>\<close>

fun chunks100 :: "'a list \<Rightarrow> 'a list list" where
  "chunks100 [] = []"
| "chunks100 (x # xs) = take 100 (x # xs) # chunks100 (drop 99 xs)"

lemma concat_chunks100 [simp]: "concat (chunks100 xs) = xs"
proof (induction xs rule: chunks100.induct)
  case (2 x xs)
  then show ?case by (simp add: take_Cons')
qed simp

lemma chunks100_length: "ch \<in> set (chunks100 xs) \<Longrightarrow> length ch \<le> 100"
  by (induction xs rule: chunks100.induct) auto

section \<open>Bootstrap\<close>

record nonce_config_entry =
  nce_id :: u16
  nce_pubkey :: string
  nce_initial_blockhash :: string

datatype bootstrap_error =
  ReadConfig | InvalidPubkey string | GetMultipleAccounts | DoesNotExist string
| ParseNonce string nonce_parse_error | AuthorityMismatch string pubkey

text \<open>\<open>PathBuf::push\<close>, then \<open>expand_tilde\<close> of \<open>bootstrap.rs\<close> and \<open>wallet.rs\<close>.\<close>

definition path_push :: "string \<Rightarrow> string \<Rightarrow> string" where
  "path_push p s = (if s \<noteq> [] \<and> hd s = CHR ''/'' then s
     else if p = [] \<or> last p = CHR ''/'' then p @ s else p @ ''/'' @ s)"

definition expand_tilde :: "string option \<Rightarrow> string \<Rightarrow> string" where
  "expand_tilde home path =
    (if take 2 path = ''~/''
     then (case home of Some h \<Rightarrow> path_push h (drop 2 path) | None \<Rightarrow> path)
     else path)"

fun parse_pubkeys :: "(string \<Rightarrow> pubkey option) \<Rightarrow> nonce_config_entry list \<Rightarrow> bootstrap_error + pubkey list" where
  "parse_pubkeys from_str [] = Inr []"
| "parse_pubkeys from_str (e # es) = (case from_str (nce_pubkey e) of
     None \<Rightarrow> Inl (InvalidPubkey (nce_pubkey e))
   | Some pk \<Rightarrow> (case parse_pubkeys from_str es of Inl x \<Rightarrow> Inl x | Inr pks \<Rightarrow> Inr (pk # pks)))"

fun fetch_accounts :: "rpc \<Rightarrow> pubkey list list \<Rightarrow> bootstrap_error + bytes option list" where
  "fetch_accounts rpc [] = Inr []"
| "fetch_accounts rpc (ch # chs) = (case rpc ch of
     None \<Rightarrow> Inl GetMultipleAccounts
   | Some batch \<Rightarrow> (case fetch_accounts rpc chs of Inl x \<Rightarrow> Inl x | Inr rest \<Rightarrow> Inr (batch @ rest)))"

text \<open>The loop over the zip of configuration and accounts. \<open>from_str(..).unwrap()\<close> cannot fail:
  the keys were parsed before.\<close>

fun check_accounts :: "(string \<Rightarrow> pubkey option) \<Rightarrow> pubkey \<Rightarrow> (nonce_config_entry \<times> bytes option) list \<Rightarrow>
    bootstrap_error + (nonce_id \<times> pubkey \<times> hash) list" where
  "check_accounts from_str authority [] = Inr []"
| "check_accounts from_str authority ((e, None) # rest) = Inl (DoesNotExist (nce_pubkey e))"
| "check_accounts from_str authority ((e, Some data) # rest) =
    (case parse_nonce_account_data data of
       Inl err \<Rightarrow> Inl (ParseNonce (nce_pubkey e) err)
     | Inr st \<Rightarrow>
         if na_authority st \<noteq> authority then Inl (AuthorityMismatch (nce_pubkey e) (na_authority st))
         else (case check_accounts from_str authority rest of
             Inl x \<Rightarrow> Inl x
           | Inr r \<Rightarrow> Inr ((nce_id e, the (from_str (nce_pubkey e)), na_blockhash st) # r)))"

definition bootstrap :: "(string \<Rightarrow> pubkey option) \<Rightarrow> rpc \<Rightarrow> (string \<Rightarrow> nonce_config_entry list option) \<Rightarrow>
    string option \<Rightarrow> string \<Rightarrow> pubkey \<Rightarrow> bootstrap_error + (nonce_id \<times> pubkey \<times> hash) list" where
  "bootstrap from_str rpc read_config home config_path authority =
    (case read_config (expand_tilde home config_path) of
       None \<Rightarrow> Inl ReadConfig
     | Some config \<Rightarrow> (case parse_pubkeys from_str config of
         Inl x \<Rightarrow> Inl x
       | Inr pubkeys \<Rightarrow> (case fetch_accounts rpc (chunks100 pubkeys) of
           Inl x \<Rightarrow> Inl x
         | Inr accounts \<Rightarrow> check_accounts from_str authority (zip config accounts))))"

lemma parse_pubkeys_ok:
  "parse_pubkeys from_str es = Inr pks \<Longrightarrow> map Some pks = map (from_str \<circ> nce_pubkey) es"
  by (induction es arbitrary: pks) (auto split: option.splits sum.splits)

text \<open>What the RPC promises: an account slot per requested key.\<close>

definition answers_all :: "rpc \<Rightarrow> bool" where
  "answers_all rpc \<longleftrightarrow> (\<forall>ks accs. rpc ks = Some accs \<longrightarrow> length accs = length ks)"

lemma fetch_accounts_length:
  "answers_all rpc \<Longrightarrow> fetch_accounts rpc chs = Inr accs \<Longrightarrow> length accs = length (concat chs)"
  by (induction chs arbitrary: accs) (auto simp: answers_all_def split: option.splits sum.splits)

definition entry_read :: "(string \<Rightarrow> pubkey option) \<Rightarrow> pubkey \<Rightarrow> nonce_config_entry \<times> bytes option \<Rightarrow>
    nonce_id \<times> pubkey \<times> hash \<Rightarrow> bool" where
  "entry_read from_str authority ea r \<longleftrightarrow> fst r = nce_id (fst ea) \<and>
     fst (snd r) = the (from_str (nce_pubkey (fst ea))) \<and>
     (\<exists>data. snd ea = Some data \<and> parse_nonce_account_data data =
        Inr \<lparr> na_authority = authority, na_blockhash = snd (snd r) \<rparr>)"

lemma check_accounts_ok:
  "check_accounts from_str authority eas = Inr r \<Longrightarrow> list_all2 (entry_read from_str authority) eas r"
proof (induction from_str authority eas arbitrary: r rule: check_accounts.induct)
  case (3 from_str authority e data rest)
  show ?case
  proof (cases "parse_nonce_account_data data")
    case (Inr st)
    then show ?thesis using 3
      by (cases st) (auto simp: entry_read_def split: if_splits sum.splits)
  qed (use 3 in simp)
qed simp_all

text \<open>A successful bootstrap yields one nonce per configured account, in order, with the id and
  the parsed key of the configuration and the blockhash that the account holds on chain under
  the expected authority; the manager built from it has every nonce ready.\<close>
theorem bootstrap_ok:
  assumes "bootstrap from_str rpc read_config home path authority = Inr r" "answers_all rpc"
  shows "\<exists>config accounts. read_config (expand_tilde home path) = Some config \<and>
    length r = length config \<and>
    map Some (map (fst \<circ> snd) r) = map (from_str \<circ> nce_pubkey) config \<and>
    list_all2 (entry_read from_str authority) (zip config accounts) r \<and>
    ready_count (nonce_manager_new r) = length config"
proof -
  obtain config pks accounts where c: "read_config (expand_tilde home path) = Some config"
    "parse_pubkeys from_str config = Inr pks" "fetch_accounts rpc (chunks100 pks) = Inr accounts"
    "check_accounts from_str authority (zip config accounts) = Inr r"
    using assms(1) by (auto simp: bootstrap_def split: option.splits sum.splits)
  note all2 = check_accounts_ok [OF c(4)]
  have pk: "map Some pks = map (from_str \<circ> nce_pubkey) config" by (rule parse_pubkeys_ok [OF c(2)])
  have "length pks = length config" using pk by (metis length_map)
  then have len: "length accounts = length config"
    using fetch_accounts_length [OF assms(2) c(3)] by simp
  have r: "length r = length config" using list_all2_lengthD [OF all2] len by simp
  have "map Some (map (fst \<circ> snd) r) = map (from_str \<circ> nce_pubkey) config"
  proof (rule nth_equalityI)
    fix i assume "i < length (map Some (map (fst \<circ> snd) r))"
    then have i: "i < length config" using r by simp
    then have "fst (snd (r ! i)) = the (from_str (nce_pubkey (config ! i)))"
      using list_all2_nthD2 [OF all2, of i] len r by (simp add: entry_read_def)
    moreover have "from_str (nce_pubkey (config ! i)) = Some (pks ! i)"
      using pk i \<open>length pks = length config\<close> by (metis comp_apply nth_map)
    ultimately show "map Some (map (fst \<circ> snd) r) ! i = map (from_str \<circ> nce_pubkey) config ! i"
      using i r by simp
  qed (use r in simp)
  moreover have "ready_count (nonce_manager_new r) = length r"
    by (simp add: ready_count_def count_in_state_def nonce_manager_new_def filter_map comp_def case_prod_beta)
  ultimately show ?thesis using c(1) r all2 by auto
qed

lemma answers_all_demo: "answers_all (\<lambda>ks. Some (map f ks))"
  by (simp add: answers_all_def)

lemma bootstrap_ok_witness:
  "ready_count (nonce_manager_new [(7, 1, 9)]) = 1"
proof -
  let ?rpc = "\<lambda>ks :: pubkey list. Some (map (\<lambda>k. Some (nonce_data 0 1 \<lparr> na_authority = 5, na_blockhash = 9 \<rparr> 0)) ks)"
  let ?cfg = "[\<lparr> nce_id = 7, nce_pubkey = ''k'', nce_initial_blockhash = '''' \<rparr>]"
  have "bootstrap (\<lambda>s. Some 1) ?rpc (\<lambda>f. Some ?cfg) None ''nonce.json'' 5 = Inr [(7, 1, 9)]"
    using parse_nonce_data [of 0 1 "\<lparr> na_authority = 5, na_blockhash = 9 \<rparr>" 0 "[]"]
    by (simp add: bootstrap_def expand_tilde_def)
  from bootstrap_ok [OF this answers_all_demo] show ?thesis by auto
qed

section \<open>The fallback poller\<close>

definition refresh_account :: "pubkey \<times> bytes option \<Rightarrow> nat \<times> nonce_manager \<Rightarrow> nat \<times> nonce_manager" where
  "refresh_account ka rm = (case snd ka of
     None \<Rightarrow> rm
   | Some data \<Rightarrow> (case parse_nonce_account_data data of
       Inl err \<Rightarrow> rm
     | Inr st \<Rightarrow> (Suc (fst rm), on_fallback_refresh (fst ka) (na_blockhash st) (snd rm))))"

text \<open>The result is \<open>None\<close> where the code returns an error; the manager keeps what the chunks
  before it refreshed.\<close>

fun refresh_chunks :: "rpc \<Rightarrow> pubkey list list \<Rightarrow> nat \<times> nonce_manager \<Rightarrow> nat option \<times> nonce_manager" where
  "refresh_chunks rpc [] rm = (Some (fst rm), snd rm)"
| "refresh_chunks rpc (ch # chs) rm = (case rpc ch of
     None \<Rightarrow> (None, snd rm)
   | Some accounts \<Rightarrow> refresh_chunks rpc chs (fold refresh_account (zip ch accounts) rm))"

definition refresh_batch :: "rpc \<Rightarrow> nonce_manager \<Rightarrow> pubkey list \<Rightarrow> nat option \<times> nonce_manager" where
  "refresh_batch rpc m pubkeys = refresh_chunks rpc (chunks100 pubkeys) (0, m)"

text \<open>One turn of \<open>run_loop\<close> of \<open>rpc_fallback.rs\<close>.\<close>

definition poll_once :: "rpc \<Rightarrow> instant \<Rightarrow> duration \<Rightarrow> duration \<Rightarrow> nonce_manager \<Rightarrow> nonce_manager" where
  "poll_once rpc now in_flight_deadline awaiting_update_deadline m =
    (let m1 = snd (tick_timeouts now in_flight_deadline awaiting_update_deadline m);
         stale_pubkeys = map ne_pubkey (filter (\<lambda>e. is_stale (ne_state e)) (nm_entries m1))
     in if stale_pubkeys \<noteq> [] then snd (refresh_batch rpc m1 stale_pubkeys) else m1)"

text \<open>Refreshing a list of keys one by one, with the blockhash each account holds.\<close>

lemma on_fallback_refresh_alt:
  "on_fallback_refresh pk h m = (case get_by_pubkey pk m of None \<Rightarrow> m
     | Some i \<Rightarrow> if is_stale (ne_state (nm_entries m ! i)) then set_entry i (Ready h) m else m)"
  by (auto simp: on_fallback_refresh_def split: option.split nonce_state.split)

definition rpc_serving :: "(pubkey \<Rightarrow> bytes) \<Rightarrow> rpc" where
  "rpc_serving acct = (\<lambda>ks. Some (map (\<lambda>k. Some (acct k)) ks))"

definition refresh_keys :: "(pubkey \<Rightarrow> nonce_account_state) \<Rightarrow> pubkey list \<Rightarrow> nonce_manager \<Rightarrow> nonce_manager" where
  "refresh_keys st = fold (\<lambda>k. on_fallback_refresh k (na_blockhash (st k)))"

lemma refresh_chunks_all:
  assumes "\<And>k. parse_nonce_account_data (acct k) = Inr (st k)"
  shows "snd (refresh_chunks (rpc_serving acct) chs (n, m)) = refresh_keys st (concat chs) m"
proof (induction chs arbitrary: n m)
  case (Cons ch chs)
  have "fold refresh_account (zip ch (map (\<lambda>k. Some (acct k)) ch)) (n, m) =
      (n + length ch, refresh_keys st ch m)" for n m
    by (induction ch arbitrary: n m) (simp_all add: refresh_account_def assms refresh_keys_def)
  moreover have "rpc_serving acct ch = Some (map (\<lambda>k. Some (acct k)) ch)" by (simp add: rpc_serving_def)
  ultimately show ?case by (simp add: Cons refresh_keys_def)
qed (simp add: refresh_keys_def)

text \<open>Every entry is found under its own key, as it is when the keys of the pool differ.\<close>

definition index_complete :: "nonce_manager \<Rightarrow> bool" where
  "index_complete m \<longleftrightarrow> (\<forall>i < length (nm_entries m). get_by_pubkey (ne_pubkey (nm_entries m ! i)) m = Some i)"

lemma index_complete_moves:
  assumes "index_complete m" "manager_moves m m'"
  shows "index_complete m'"
proof -
  have "ne_pubkey (nm_entries m' ! i) = ne_pubkey (nm_entries m ! i)" if "i < length (nm_entries m)" for i
    using manager_moves_entries(2,3) [OF assms(2)] that by (metis nth_map)
  then show ?thesis
    using assms manager_moves_entries(3) [OF assms(2)]
    by (simp add: index_complete_def manager_moves_def get_by_pubkey_def)
qed

lemma index_complete_run:
  assumes "distinct (map (fst \<circ> snd) es)"
  shows "index_complete (run_ops ops (nonce_manager_new es)) \<and> nonce_inv (run_ops ops (nonce_manager_new es))"
proof (induction ops rule: rev_induct)
  case Nil
  have "last (filter (\<lambda>j. fst (snd (es ! j)) = fst (snd (es ! i))) [0..<length es]) = i"
    if "i < length es" for i
  proof -
    have "j = i" if "j < length es" "fst (snd (es ! j)) = fst (snd (es ! i))" for j
      using nth_eq_iff_index_eq [OF assms, of j i] that \<open>i < length es\<close> by simp
    then have "filter (\<lambda>j. fst (snd (es ! j)) = fst (snd (es ! i))) [0..<length es] =
        filter (\<lambda>j. j = i) [0..<length es]"
      by (intro filter_cong) auto
    also have "\<dots> = [i]" using \<open>i < length es\<close> by (induction es) auto
    finally show ?thesis by simp
  qed
  moreover have "ne_pubkey (nm_entries (nonce_manager_new es) ! i) = fst (snd (es ! i))"
    "fst (snd (es ! i)) \<in> (fst \<circ> snd) ` set es" if "i < length es" for i
    using that by (auto simp: nonce_manager_new_def case_prod_beta)
  moreover have "length (nm_entries (nonce_manager_new es)) = length es"
    by (simp add: nonce_manager_new_def)
  ultimately show ?case
    by (simp add: run_ops_def index_complete_def nonce_inv_new get_by_pubkey_new)
next
  case (snoc op ops)
  let ?m = "run_ops ops (nonce_manager_new es)"
  have "index_complete (exec op ?m)"
    using snoc index_complete_moves [OF _ exec_moves] by blast
  moreover have "nonce_inv (exec op ?m)" using snoc nonce_inv_exec by blast
  ultimately show ?case by (simp add: run_ops_def)
qed

lemma refresh_key_entries:
  assumes "index_complete m" "nonce_inv m"
  shows "nm_entries (on_fallback_refresh k h m) = map (\<lambda>e. if is_stale (ne_state e) \<and> ne_pubkey e = k
    then e\<lparr>ne_state := Ready h\<rparr> else e) (nm_entries m)" (is "_ = map ?f _")
proof (rule nth_equalityI)
  show l: "length (nm_entries (on_fallback_refresh k h m)) = length (map ?f (nm_entries m))"
    by (simp add: on_fallback_refresh_alt split: option.split)
  fix i assume "i < length (nm_entries (on_fallback_refresh k h m))"
  then have i: "i < length (nm_entries m)" using l by simp
  have own: "get_by_pubkey (ne_pubkey (nm_entries m ! i)) m = Some i"
    using assms(1) i by (simp add: index_complete_def)
  show "nm_entries (on_fallback_refresh k h m) ! i = map ?f (nm_entries m) ! i"
  proof (cases "get_by_pubkey k m")
    case (Some j)
    note j = get_by_pubkey_Some [OF assms(2) Some]
    show ?thesis using own i j Some by (cases "i = j") (auto simp: on_fallback_refresh_alt)
  qed (use own i in \<open>auto simp: on_fallback_refresh_alt\<close>)
qed

lemma refresh_keys_entries:
  "index_complete m \<Longrightarrow> nonce_inv m \<Longrightarrow>
    nm_entries (refresh_keys st ks m) = map (\<lambda>e. if is_stale (ne_state e) \<and> ne_pubkey e \<in> set ks
      then e\<lparr>ne_state := Ready (na_blockhash (st (ne_pubkey e)))\<rparr> else e) (nm_entries m)"
proof (induction ks arbitrary: m)
  case (Cons k ks)
  let ?m' = "on_fallback_refresh k (na_blockhash (st k)) m"
  have "exec (FallbackRefresh k (na_blockhash (st k))) m = ?m'" by simp
  then have k: "index_complete ?m'" "nonce_inv ?m'"
    using index_complete_moves [OF Cons.prems(1) exec_moves [OF Cons.prems(2)]]
      nonce_inv_exec [OF Cons.prems(2)] by metis+
  have "refresh_keys st (k # ks) m = refresh_keys st ks ?m'" by (simp add: refresh_keys_def)
  then show ?case
    using Cons.IH [OF k] by (auto simp: refresh_key_entries [OF Cons.prems])
qed (simp add: refresh_keys_def)

text \<open>One turn of the poller against a node that serves a parsable nonce account for every key
  leaves no entry stale: every entry that was, or just became, stale is ready with the
  blockhash its account holds; the other entries stay as the timeout sweep left them.\<close>
theorem poll_recovers_stale:
  assumes "distinct (map (fst \<circ> snd) es)" "m = run_ops ops (nonce_manager_new es)"
    and "\<And>k. parse_nonce_account_data (acct k) = Inr (st k)"
    and "m1 = snd (tick_timeouts now d1 d2 m)"
  shows "nm_entries (poll_once (rpc_serving acct) now d1 d2 m) = map (\<lambda>e. if is_stale (ne_state e)
    then e\<lparr>ne_state := Ready (na_blockhash (st (ne_pubkey e)))\<rparr> else e) (nm_entries m1)"
proof -
  let ?stale = "map ne_pubkey (filter (\<lambda>e. is_stale (ne_state e)) (nm_entries m1))"
  have m1: "index_complete m1" "nonce_inv m1"
    using index_complete_run [OF assms(1), of "ops @ [TickTimeouts now d1 d2]"] assms(2,4)
    by (simp_all add: run_ops_def)
  have "poll_once (rpc_serving acct) now d1 d2 m = refresh_keys st ?stale m1"
    using refresh_chunks_all [of acct st, OF assms(3)] assms(4)
    by (auto simp: poll_once_def refresh_batch_def Let_def refresh_keys_def)
  then show ?thesis using refresh_keys_entries [OF m1, of st ?stale] by auto
qed

lemma poll_recovers_stale_witness:
  "map ne_state (nm_entries (poll_once (rpc_serving (\<lambda>k. nonce_data 0 1 \<lparr> na_authority = 5, na_blockhash = 9 \<rparr> 0))
     50 10 10 (run_ops [TakeReady 1] (nonce_manager_new [(0, 11, 100), (1, 12, 101)])))) = [Ready 9, Ready 101]"
proof -
  have 1: "distinct (map (fst \<circ> snd) [(0 :: nonce_id, 11 :: pubkey, 100 :: hash), (1, 12, 101)])" by simp
  have 2: "parse_nonce_account_data (nonce_data 0 1 \<lparr> na_authority = 5, na_blockhash = 9 \<rparr> 0) =
      Inr \<lparr> na_authority = 5, na_blockhash = 9 \<rparr>"
    using parse_nonce_data [of 0 1 "\<lparr> na_authority = 5, na_blockhash = 9 \<rparr>" 0 "[]"] by simp
  show ?thesis
    unfolding poll_recovers_stale [OF 1 refl 2 refl]
    by (simp add: nonce_eval)
qed

end
