(* ===== verification/Slot_Hash_Cache.thy ===== *)
theory Slot_Hash_Cache
  imports Bytes
begin

text \<open>
  \<open>crates/tick-trigger-fan-out-bench/src/nonce/local_compute.rs\<close>: the rolling cache of the
  last entry hash per slot, from which the recorder computes the next durable nonce of a
  landed transaction. The hash function of \<open>solana_sdk\<close> is the parameter \<open>hashv\<close>.
\<close>

definition DURABLE_NONCE_HASH_PREFIX :: bytes where
  "DURABLE_NONCE_HASH_PREFIX = [68, 85, 82, 65, 66, 76, 69, 95, 78, 79, 78, 67, 69]"

definition compute_next_durable_nonce :: "(bytes list \<Rightarrow> hash) \<Rightarrow> hash \<Rightarrow> hash" where
  "compute_next_durable_nonce hashv recent_blockhash =
    hashv [DURABLE_NONCE_HASH_PREFIX, key_bytes recent_blockhash]"

record slot_hash_cache =
  shc_inner :: "(u64, hash) btree_map"
  shc_window :: u64

definition cache_new :: "u64 \<Rightarrow> slot_hash_cache" where
  "cache_new window = \<lparr> shc_inner = [], shc_window = window \<rparr>"

text \<open>The eviction loop: the first key is removed as long as it is below the cutoff.\<close>

fun evict_front :: "u64 \<Rightarrow> (u64, 'a) btree_map \<Rightarrow> (u64, 'a) btree_map" where
  "evict_front cutoff [] = []"
| "evict_front cutoff ((k, v) # m) = (if k < cutoff then evict_front cutoff m else (k, v) # m)"

definition record_entry :: "u64 \<Rightarrow> hash \<Rightarrow> slot_hash_cache \<Rightarrow> slot_hash_cache" where
  "record_entry slot entry_hash c =
    (let guard = bt_insert slot entry_hash (shc_inner c);
         max_slot = fst (last guard)
     in c\<lparr>shc_inner := (if max_slot > shc_window c then evict_front (max_slot - shc_window c) guard else guard)\<rparr>)"

definition record_slot_complete :: "u64 \<Rightarrow> hash \<Rightarrow> slot_hash_cache \<Rightarrow> slot_hash_cache" where
  "record_slot_complete slot last_entry_hash = record_entry slot last_entry_hash"

text \<open>The loop over \<open>1..=max_lookback\<close>; it returns \<open>None\<close> at once below slot 0.\<close>

fun walk_back :: "(bytes list \<Rightarrow> hash) \<Rightarrow> (u64, hash) btree_map \<Rightarrow> u64 \<Rightarrow> nat list \<Rightarrow> (u64 \<times> hash \<times> hash) option" where
  "walk_back hashv inner landed [] = None"
| "walk_back hashv inner landed (back # backs) = (case checked_sub landed (of_nat back) of
     None \<Rightarrow> None
   | Some s \<Rightarrow> (case map_of inner s of
       Some h \<Rightarrow> Some (s, h, compute_next_durable_nonce hashv h)
     | None \<Rightarrow> walk_back hashv inner landed backs))"

definition next_nonce_for_landed_slot ::
  "(bytes list \<Rightarrow> hash) \<Rightarrow> slot_hash_cache \<Rightarrow> u64 \<Rightarrow> u64 \<Rightarrow> (u64 \<times> hash \<times> hash) option" where
  "next_nonce_for_landed_slot hashv c landed_slot max_lookback =
    walk_back hashv (shc_inner c) landed_slot [1..<Suc (unat max_lookback)]"

section \<open>Content of the cache\<close>

definition record_all :: "(u64 \<times> hash) list \<Rightarrow> slot_hash_cache \<Rightarrow> slot_hash_cache" where
  "record_all rs c = fold (\<lambda>(s, h). record_entry s h) rs c"

text \<open>The specification: the last hash recorded for a slot, the highest slot, the cutoff.\<close>

definition last_recorded :: "(u64 \<times> hash) list \<Rightarrow> u64 \<Rightarrow> hash option" where
  "last_recorded rs s = map_of (rev rs) s"

definition highest_slot :: "(u64 \<times> hash) list \<Rightarrow> u64" where
  "highest_slot rs = fold (\<lambda>(s, h) m. max m s) rs 0"

definition window_cutoff :: "u64 \<Rightarrow> (u64 \<times> hash) list \<Rightarrow> u64" where
  "window_cutoff w rs = saturating_sub (highest_slot rs) w"

lemma highest_slot_snoc: "highest_slot (rs @ [(s, h)]) = max (highest_slot rs) s"
  by (simp add: highest_slot_def)

lemma highest_slot_ge: "(s, h) \<in> set rs \<Longrightarrow> s \<le> highest_slot rs"
  by (induction rs rule: rev_induct) (auto simp: highest_slot_snoc le_max_iff_disj)

lemma evict_front_filter: "bt_inv m \<Longrightarrow> evict_front c m = filter (\<lambda>(k, v). c \<le> k) m"
proof (induction c m rule: evict_front.induct)
  case (2 c k v m)
  have "\<not> k < c \<Longrightarrow> filter (\<lambda>(k, v). c \<le> k) m = m"
    using "2.prems" by (force simp: bt_inv_Cons filter_id_conv)
  with 2 show ?case by (auto simp: bt_inv_Cons)
qed simp

definition cache_ok :: "u64 \<Rightarrow> (u64 \<times> hash) list \<Rightarrow> slot_hash_cache \<Rightarrow> bool" where
  "cache_ok w rs c \<longleftrightarrow> shc_window c = w \<and> bt_inv (shc_inner c) \<and>
     (\<forall>s. map_of (shc_inner c) s = (if window_cutoff w rs \<le> s then last_recorded rs s else None)) \<and>
     (rs \<noteq> [] \<longrightarrow> highest_slot rs \<in> fst ` set (shc_inner c))"

lemma highest_slot_recorded: "rs \<noteq> [] \<Longrightarrow> highest_slot rs \<in> fst ` set rs"
proof (induction rs rule: rev_induct)
  case (snoc x rs)
  then show ?case by (cases x; cases "rs = []") (auto simp: highest_slot_snoc max_def highest_slot_def)
qed simp

lemma record_entry_ok:
  assumes ok: "cache_ok w rs c"
  shows "cache_ok w (rs @ [(s, h)]) (record_entry s h c)"
proof -
  let ?g = "bt_insert s h (shc_inner c)" and ?rs = "rs @ [(s, h)]"
  have inv: "bt_inv ?g" using ok by (simp add: cache_ok_def bt.invar_insert)
  have keys: "fst ` set ?g = insert s (fst ` set (shc_inner c))" by simp
  have "s \<in> fst ` set ?g" by simp
  then have ne: "?g \<noteq> []" by (metis empty_iff image_empty set_empty)
  have sub: "fst ` set (shc_inner c) \<subseteq> fst ` set rs"
  proof
    fix k assume "k \<in> fst ` set (shc_inner c)"
    then have "map_of (shc_inner c) k \<noteq> None" by (simp add: map_of_eq_None_iff)
    then have "last_recorded rs k \<noteq> None" using ok by (auto simp: cache_ok_def split: if_splits)
    then show "k \<in> fst ` set rs" by (simp add: last_recorded_def map_of_eq_None_iff)
  qed
  have top: "fst (last ?g) = highest_slot ?rs"
  proof (rule antisym)
    have "fst (last ?g) \<in> fst ` set ?g" using ne by (intro imageI last_in_set)
    then have "fst (last ?g) \<in> insert s (fst ` set rs)" using keys sub by auto
    then show "fst (last ?g) \<le> highest_slot ?rs"
      using highest_slot_ge by (fastforce simp: highest_slot_snoc le_max_iff_disj)
    have "highest_slot ?rs \<in> fst ` set ?g"
      using ok keys by (cases "rs = []") (auto simp: cache_ok_def highest_slot_snoc max_def highest_slot_def)
    then show "highest_slot ?rs \<le> fst (last ?g)" by (rule bt_le_last [OF inv])
  qed
  have inner: "shc_inner (record_entry s h c) = filter (\<lambda>(k, v). window_cutoff w ?rs \<le> k) ?g"
    using ok top evict_front_filter [OF inv]
    by (auto simp: record_entry_def Let_def cache_ok_def window_cutoff_def saturating_sub_def not_less)
  have mono: "window_cutoff w rs \<le> window_cutoff w ?rs"
    by (simp add: window_cutoff_def highest_slot_snoc saturating_sub_mono)
  have "map_of (shc_inner (record_entry s h c)) k =
      (if window_cutoff w ?rs \<le> k then last_recorded ?rs k else None)" for k
    using ok mono unfolding inner
    by (auto simp: map_of_filter_keys [OF bt_inv_distinct [OF inv]] bt.lookup_insert cache_ok_def
        last_recorded_def split: option.splits)
  moreover have "highest_slot ?rs \<in> fst ` set (shc_inner (record_entry s h c))"
  proof -
    have "fst (last ?g) \<in> fst ` set ?g" using ne by (intro imageI last_in_set)
    moreover have "window_cutoff w ?rs \<le> highest_slot ?rs"
      by (simp add: window_cutoff_def word_le_nat_alt)
    ultimately show ?thesis unfolding inner top by force
  qed
  moreover have "shc_window (record_entry s h c) = w"
    using ok by (simp add: record_entry_def Let_def cache_ok_def)
  ultimately show ?thesis using inv by (simp add: cache_ok_def inner bt_inv_filter)
qed

lemma record_all_ok: "cache_ok w rs (record_all rs (cache_new w))"
proof (induction rs rule: rev_induct)
  case Nil
  then show ?case by (simp add: cache_ok_def record_all_def cache_new_def last_recorded_def)
next
  case (snoc x rs)
  then show ?case using record_entry_ok by (cases x) (simp add: record_all_def)
qed

text \<open>The cache holds, for every slot within the window of the highest_slot recorded slot, the hash
  recorded last for it, and nothing else.\<close>
theorem cache_content:
  "map_of (shc_inner (record_all rs (cache_new w))) s =
    (if window_cutoff w rs \<le> s then last_recorded rs s else None)"
  using record_all_ok [of w rs] by (simp add: cache_ok_def)

section \<open>Looking up the next nonce\<close>

lemma unat_minus_of_nat:
  "k \<le> unat (s :: u64) \<Longrightarrow> unat (s - of_nat k) = unat s - k"
proof -
  assume k: "k \<le> unat s"
  then have "k < 2 ^ 64" using unat_lt [of s] by simp
  then have "unat (of_nat k :: u64) = k" by (simp add: unat_of_nat)
  then show ?thesis using k by (simp add: unat_sub word_le_nat_alt)
qed

lemma walk_back_spec:
  assumes "sorted ks" "\<And>k. k \<in> set ks \<Longrightarrow> k < 2 ^ 64"
  shows "case walk_back hashv inner landed ks of
      None \<Rightarrow> \<forall>k \<in> set ks. k \<le> unat landed \<longrightarrow> map_of inner (landed - of_nat k) = None
    | Some (s, h, n) \<Rightarrow> \<exists>k \<in> set ks. k \<le> unat landed \<and> s = landed - of_nat k \<and>
        map_of inner s = Some h \<and> n = compute_next_durable_nonce hashv h \<and>
        (\<forall>k' \<in> set ks. k' < k \<longrightarrow> map_of inner (landed - of_nat k') = None)"
  using assms
proof (induction hashv inner landed ks rule: walk_back.induct)
  case (2 hashv inner landed b bs)
  have b: "unat (of_nat b :: u64) = b" using "2.prems"(2) by (simp add: unat_of_nat)
  have IH: "map_of inner (landed - of_nat b) = None \<Longrightarrow> b \<le> unat landed \<Longrightarrow>
      case walk_back hashv inner landed bs of
        None \<Rightarrow> \<forall>k \<in> set bs. k \<le> unat landed \<longrightarrow> map_of inner (landed - of_nat k) = None
      | Some (s, h, n) \<Rightarrow> \<exists>k \<in> set bs. k \<le> unat landed \<and> s = landed - of_nat k \<and>
          map_of inner s = Some h \<and> n = compute_next_durable_nonce hashv h \<and>
          (\<forall>k' \<in> set bs. k' < k \<longrightarrow> map_of inner (landed - of_nat k') = None)"
    using "2.IH" [of "landed - of_nat b"] "2.prems" b by (simp add: checked_sub_def word_le_nat_alt)
  show ?case
  proof (cases "b \<le> unat landed")
    case False
    then show ?thesis using "2.prems"(1) b by (auto simp: checked_sub_def word_le_nat_alt)
  next
    case True
    then have c: "checked_sub landed (of_nat b) = Some (landed - of_nat b)"
      using b by (simp add: checked_sub_def word_le_nat_alt)
    show ?thesis
    proof (cases "map_of inner (landed - of_nat b)")
      case None
      then show ?thesis using IH [OF None True] True
        by (auto simp: c split: option.splits)
    next
      case (Some h)
      then show ?thesis using True "2.prems"(1) by (auto simp: c)
    qed
  qed
qed simp

text \<open>The next nonce of a transaction landed in a slot is computed from the nearest earlier slot
  the cache holds within the lookback: between that slot and the landed one nothing is cached;
  \<open>None\<close> is returned exactly when the lookback holds no cached slot.\<close>
theorem next_nonce_nearest:
  "case next_nonce_for_landed_slot hashv c landed lookback of
     None \<Rightarrow> filter (\<lambda>s. s < landed \<and> landed - s \<le> lookback) (map_keys (shc_inner c)) = []
   | Some (s, h, next) \<Rightarrow> s < landed \<and> landed - s \<le> lookback \<and> map_of (shc_inner c) s = Some h \<and>
       next = compute_next_durable_nonce hashv h \<and>
       filter (\<lambda>s'. s < s' \<and> s' < landed) (map_keys (shc_inner c)) = []"
proof -
  let ?m = "map_of (shc_inner c)"
  define ks where "ks = [1..<Suc (unat lookback)]"
  have ks: "k \<in> set ks \<longleftrightarrow> 1 \<le> k \<and> k \<le> unat lookback" for k by (auto simp: ks_def)
  have "sorted ks" unfolding ks_def by (rule sorted_upt)
  moreover have "k < 2 ^ 64" if "k \<in> set ks" for k using that ks unat_lt [of lookback] by auto
  ultimately have spec: "case next_nonce_for_landed_slot hashv c landed lookback of
      None \<Rightarrow> \<forall>k \<in> set ks. k \<le> unat landed \<longrightarrow> ?m (landed - of_nat k) = None
    | Some (s, h, n) \<Rightarrow> \<exists>k \<in> set ks. k \<le> unat landed \<and> s = landed - of_nat k \<and>
        ?m s = Some h \<and> n = compute_next_durable_nonce hashv h \<and>
        (\<forall>k' \<in> set ks. k' < k \<longrightarrow> ?m (landed - of_nat k') = None)"
    unfolding next_nonce_for_landed_slot_def ks_def [symmetric] by (rule walk_back_spec)
  have dist: "landed - of_nat (unat landed - unat s) = s \<and> unat landed - unat s \<le> unat landed"
    if "s < landed" for s :: u64
    using that by (simp add: word_less_nat_alt of_nat_diff)
  have none: "?m s = None" if s: "s < landed" and k: "\<And>k. k \<in> set ks \<Longrightarrow> k \<le> unat landed \<Longrightarrow>
      k = unat landed - unat s \<Longrightarrow> ?m (landed - of_nat k) = None" and "landed - s \<le> lookback" for s
  proof -
    have "unat landed - unat s \<in> set ks"
      using s that(3) by (auto simp: ks word_less_nat_alt word_le_nat_alt unat_sub)
    from k [OF this _ refl] dist [OF s] show ?thesis by simp
  qed
  show ?thesis
  proof (cases "next_nonce_for_landed_slot hashv c landed lookback")
    case None
    then have "\<forall>k \<in> set ks. k \<le> unat landed \<longrightarrow> ?m (landed - of_nat k) = None"
      using spec by simp
    then have "s < landed \<Longrightarrow> landed - s \<le> lookback \<Longrightarrow> ?m s = None" for s by (auto intro: none)
    then show ?thesis using None by (auto simp: filter_empty_conv map_of_eq_None_iff)
  next
    case (Some shn)
    obtain s h n where shn: "shn = (s, h, n)" by (cases shn)
    then obtain k where k: "k \<in> set ks" "k \<le> unat landed" "s = landed - of_nat k" "?m s = Some h"
      "n = compute_next_durable_nonce hashv h"
      "\<forall>k' \<in> set ks. k' < k \<longrightarrow> ?m (landed - of_nat k') = None"
      using spec Some by auto
    have us: "unat s = unat landed - k" using k(2,3) unat_minus_of_nat by simp
    then have lt: "s < landed" using k(1,2) by (auto simp: ks word_less_nat_alt)
    then have le: "landed - s \<le> lookback" using k(1,2) us by (auto simp: ks word_le_nat_alt word_less_nat_alt unat_sub)
    have "?m s' = None" if "s < s'" "s' < landed" for s'
    proof (rule none [OF that(2)])
      show "landed - s' \<le> lookback"
        using that le lt by (simp add: word_le_nat_alt word_less_nat_alt unat_sub)
      show "?m (landed - of_nat j) = None" if "j \<in> set ks" "j = unat landed - unat s'" for j
        using that k(6) us \<open>s < s'\<close> \<open>s' < landed\<close> k(2) by (auto simp: word_less_nat_alt)
    qed
    then show ?thesis
      using Some shn k lt le by (auto simp: filter_empty_conv map_of_eq_None_iff)
  qed
qed

end
