(* ===== verification/Config.thy ===== *)
theory Config
  imports Prelude
begin

text \<open>
  \<open>crates/tick-trigger-fan-out-bench/src/config.rs\<close>: the configuration of a run. The JSON
  decoder of serde is external; what the source decides is the shape of the records, which
  fields may be absent, and the value an absent field takes. Each \<open>..._of\<close> function takes the
  decoded fields, those with a serde default as options, and fills in the defaults.
  Paths and durations in text form stay strings.
\<close>

section \<open>Sender kinds\<close>

datatype sender_kind =
  Helius | Jito | Triton | TritonSendTx | Nozomi | Astralane | AstralaneQuic | Nextblock
| NextblockQuic | Bloxroute | BloxrouteQuic | Syncro | ZeroSlot | AllenHark | BlockRazor

definition all_sender_kinds :: "sender_kind list" where
  "all_sender_kinds = [Helius, Jito, Triton, TritonSendTx, Nozomi, Astralane, AstralaneQuic,
     Nextblock, NextblockQuic, Bloxroute, BloxrouteQuic, Syncro, ZeroSlot, AllenHark, BlockRazor]"

text \<open>The serde names: snake case unless renamed.\<close>

fun kind_name :: "sender_kind \<Rightarrow> string" where
  "kind_name Helius = ''helius''"
| "kind_name Jito = ''jito''"
| "kind_name Triton = ''triton''"
| "kind_name TritonSendTx = ''triton_sendtx''"
| "kind_name Nozomi = ''nozomi''"
| "kind_name Astralane = ''astralane''"
| "kind_name AstralaneQuic = ''astralane_quic''"
| "kind_name Nextblock = ''nextblock''"
| "kind_name NextblockQuic = ''nextblock_quic''"
| "kind_name Bloxroute = ''bloxroute''"
| "kind_name BloxrouteQuic = ''bloxroute_quic''"
| "kind_name Syncro = ''syncro''"
| "kind_name ZeroSlot = ''0slot''"
| "kind_name AllenHark = ''allenhark''"
| "kind_name BlockRazor = ''blockrazor''"

definition parse_kind :: "string \<Rightarrow> sender_kind option" where
  "parse_kind s = find (\<lambda>k. kind_name k = s) all_sender_kinds"

section \<open>Configuration records\<close>

definition or_default :: "'a \<Rightarrow> 'a option \<Rightarrow> 'a" where
  "or_default d x = (case x of None \<Rightarrow> d | Some v \<Rightarrow> v)"

record nonce_config =
  ncf_enabled :: bool
  ncf_config_path :: string
  ncf_rpc_poll_interval_secs :: u64
  ncf_in_flight_deadline_secs :: u64
  ncf_awaiting_update_deadline_secs :: u64

definition nonce_config_of ::
  "bool option \<Rightarrow> string option \<Rightarrow> u64 option \<Rightarrow> u64 option \<Rightarrow> u64 option \<Rightarrow> nonce_config" where
  "nonce_config_of enabled path poll in_flight awaiting = \<lparr>
     ncf_enabled = or_default False enabled,
     ncf_config_path = or_default ''nonce-config.json'' path,
     ncf_rpc_poll_interval_secs = or_default 15 poll,
     ncf_in_flight_deadline_secs = or_default 45 in_flight,
     ncf_awaiting_update_deadline_secs = or_default 15 awaiting \<rparr>"

text \<open>The derived \<open>Default\<close>, which an absent \<open>nonce\<close> section takes.\<close>

definition nonce_config_default :: nonce_config where
  "nonce_config_default = \<lparr> ncf_enabled = False, ncf_config_path = '''',
     ncf_rpc_poll_interval_secs = 0, ncf_in_flight_deadline_secs = 0,
     ncf_awaiting_update_deadline_secs = 0 \<rparr>"

record rpc_config =
  rc_url :: string
  rc_blockhash_refresh_secs :: u64

definition rpc_config_of :: "string \<Rightarrow> u64 option \<Rightarrow> rpc_config" where
  "rpc_config_of url refresh = \<lparr> rc_url = url, rc_blockhash_refresh_secs = or_default 5 refresh \<rparr>"

record wallet_config = wc_keypair_path :: string

record sources_config =
  sc_shredstream_grpc_url :: string
  sc_yellowstone_grpc_url :: string
  sc_yellowstone_auth_token :: string
  sc_channel_capacity :: u64

definition sources_config_of :: "string \<Rightarrow> string \<Rightarrow> string option \<Rightarrow> u64 option \<Rightarrow> sources_config" where
  "sources_config_of ss ys token capacity = \<lparr> sc_shredstream_grpc_url = ss,
     sc_yellowstone_grpc_url = ys, sc_yellowstone_auth_token = or_default '''' token,
     sc_channel_capacity = or_default 65536 capacity \<rparr>"

record supervisor_config =
  svc_entry_timeout_ms :: u64
  svc_slot_seal_lag_slots :: u64

definition supervisor_config_of :: "u64 option \<Rightarrow> u64 option \<Rightarrow> supervisor_config" where
  "supervisor_config_of timeout lag = \<lparr> svc_entry_timeout_ms = or_default 150 timeout,
     svc_slot_seal_lag_slots = or_default 10 lag \<rparr>"

record schedule_config =
  shc_seed :: "u64 option"
  shc_chunk_size_slots :: u64
  shc_lead_slots :: u64

definition schedule_config_of :: "u64 option \<Rightarrow> u64 option \<Rightarrow> u64 option \<Rightarrow> schedule_config" where
  "schedule_config_of seed chunk lead = \<lparr> shc_seed = seed,
     shc_chunk_size_slots = or_default 30 chunk, shc_lead_slots = or_default 100 lead \<rparr>"

record tx_config =
  tc_self_transfer_lamports :: u64
  tc_priority_fee_microlamports :: u64
  tc_compute_unit_limit :: u32

definition tx_config_of :: "u64 option \<Rightarrow> u64 option \<Rightarrow> u32 option \<Rightarrow> tx_config" where
  "tx_config_of self_transfer fee limit = \<lparr> tc_self_transfer_lamports = or_default 1 self_transfer,
     tc_priority_fee_microlamports = or_default 5000 fee,
     tc_compute_unit_limit = or_default 200000 limit \<rparr>"

record sender_config =
  sd_id :: u8
  sd_name :: string
  sd_kind :: sender_kind
  sd_endpoint_url :: string
  sd_api_key :: string
  sd_tls_cert_path :: string
  sd_tls_key_path :: string
  sd_tip_lamports :: u64
  sd_enabled :: bool
  sd_regions :: "string list"
  sd_outbound_ips :: "string list"
  sd_min_send_interval_ms :: u64
  sd_tip_percentile :: u32
  sd_tip_floor_lamports :: u64
  sd_tip_ceiling_lamports :: u64
  sd_tip_refresh_interval_ms :: u64

text \<open>The optional fields of a sender as decoded.\<close>

record sender_fields =
  sf_api_key :: "string option"
  sf_tls_cert_path :: "string option"
  sf_tls_key_path :: "string option"
  sf_tip_lamports :: "u64 option"
  sf_enabled :: "bool option"
  sf_regions :: "string list option"
  sf_outbound_ips :: "string list option"
  sf_min_send_interval_ms :: "u64 option"
  sf_tip_percentile :: "u32 option"
  sf_tip_floor_lamports :: "u64 option"
  sf_tip_ceiling_lamports :: "u64 option"
  sf_tip_refresh_interval_ms :: "u64 option"

definition no_fields :: sender_fields where
  "no_fields = \<lparr> sf_api_key = None, sf_tls_cert_path = None, sf_tls_key_path = None,
     sf_tip_lamports = None, sf_enabled = None, sf_regions = None, sf_outbound_ips = None,
     sf_min_send_interval_ms = None, sf_tip_percentile = None, sf_tip_floor_lamports = None,
     sf_tip_ceiling_lamports = None, sf_tip_refresh_interval_ms = None \<rparr>"

definition sender_config_of ::
  "u8 \<Rightarrow> string \<Rightarrow> string \<Rightarrow> string \<Rightarrow> sender_fields \<Rightarrow> sender_config option" where
  "sender_config_of sid name kind url f = (case parse_kind kind of
     None \<Rightarrow> None
   | Some k \<Rightarrow> Some \<lparr>
       sd_id = sid, sd_name = name, sd_kind = k, sd_endpoint_url = url,
       sd_api_key = or_default '''' (sf_api_key f),
       sd_tls_cert_path = or_default '''' (sf_tls_cert_path f),
       sd_tls_key_path = or_default '''' (sf_tls_key_path f),
       sd_tip_lamports = or_default 0 (sf_tip_lamports f),
       sd_enabled = or_default True (sf_enabled f),
       sd_regions = or_default [] (sf_regions f),
       sd_outbound_ips = or_default [] (sf_outbound_ips f),
       sd_min_send_interval_ms = or_default 0 (sf_min_send_interval_ms f),
       sd_tip_percentile = or_default 75 (sf_tip_percentile f),
       sd_tip_floor_lamports = or_default 15000 (sf_tip_floor_lamports f),
       sd_tip_ceiling_lamports = or_default 2000000 (sf_tip_ceiling_lamports f),
       sd_tip_refresh_interval_ms = or_default 30000 (sf_tip_refresh_interval_ms f) \<rparr>)"

record run_config =
  rn_output_dir :: string
  rn_min_balance_lamports :: u64
  rn_observation_deadline_secs :: u64
  rn_duration :: string
  rn_triggers_per_slot :: u32

definition run_config_of :: "string \<Rightarrow> u64 option \<Rightarrow> u64 option \<Rightarrow> string \<Rightarrow> u32 option \<Rightarrow> run_config" where
  "run_config_of dir min_balance deadline dur triggers = \<lparr> rn_output_dir = dir,
     rn_min_balance_lamports = or_default 1500000 min_balance,
     rn_observation_deadline_secs = or_default 90 deadline, rn_duration = dur,
     rn_triggers_per_slot = or_default 1 triggers \<rparr>"

record config =
  cf_rpc :: rpc_config
  cf_wallet :: wallet_config
  cf_sources :: sources_config
  cf_supervisor :: supervisor_config
  cf_schedule :: schedule_config
  cf_tx :: tx_config
  cf_senders :: "sender_config list"
  cf_run :: run_config
  cf_nonce :: nonce_config

definition config_of :: "rpc_config \<Rightarrow> wallet_config \<Rightarrow> sources_config \<Rightarrow> supervisor_config \<Rightarrow>
    schedule_config \<Rightarrow> tx_config \<Rightarrow> sender_config list \<Rightarrow> run_config \<Rightarrow> nonce_config option \<Rightarrow> config" where
  "config_of rpc wallet sources supervisor schedule tx senders run nonce = \<lparr> cf_rpc = rpc,
     cf_wallet = wallet, cf_sources = sources, cf_supervisor = supervisor, cf_schedule = schedule,
     cf_tx = tx, cf_senders = senders, cf_run = run,
     cf_nonce = or_default nonce_config_default nonce \<rparr>"

text \<open>\<open>Config::load\<close>: the file system and the decoder are parameters.\<close>

definition config_load :: "(string \<Rightarrow> string option) \<Rightarrow> (string \<Rightarrow> config option) \<Rightarrow> string \<Rightarrow> config option" where
  "config_load read_to_string from_str path = Option.bind (read_to_string path) from_str"

section \<open>Properties\<close>

lemma kind_name_inj: "kind_name a = kind_name b \<longleftrightarrow> a = b"
  by (cases a; cases b) simp_all

lemma all_kinds: "k \<in> set all_sender_kinds"
  by (cases k) (simp_all add: all_sender_kinds_def)

text \<open>The names of the sender kinds decode to the kind they encode, and nothing else decodes.\<close>
theorem parse_kind_iff: "parse_kind s = Some k \<longleftrightarrow> s = kind_name k"
proof
  assume "parse_kind s = Some k"
  then show "s = kind_name k" by (auto simp: parse_kind_def find_Some_iff)
next
  assume s: "s = kind_name k"
  obtain k' where k': "parse_kind s = Some k'"
    using all_kinds [of k] s by (cases "parse_kind s") (auto simp: parse_kind_def find_None_iff)
  then have "kind_name k' = s" by (auto simp: parse_kind_def find_Some_iff)
  with s k' show "parse_kind s = Some k" by (simp add: kind_name_inj)
qed

text \<open>A configuration without a \<open>nonce\<close> section gets zero deadlines, not the documented ones.\<close>

lemma absent_nonce_section:
  "cf_nonce (config_of r w s sv sch tx sd run None) \<noteq> nonce_config_of None None None None None"
  by (simp add: config_of_def or_default_def nonce_config_of_def nonce_config_default_def)

end
