(* ===== verification/Tx_Builder.thy ===== *)
theory Tx_Builder
  imports Config Bytes
begin

text \<open>
  \<open>crates/tick-trigger-fan-out-bench/src/tx_builder.rs\<close>: the instruction list of a
  transaction and the memo that makes it unique. Message compilation and signing belong to
  \<open>solana_sdk\<close>: \<open>sign\<close> is a parameter that maps payer, instructions and blockhash to the
  signature. Strings of the memo are bytes, as \<open>into_bytes\<close> makes them.
\<close>

section \<open>The memo\<close>

definition MEMO_PROGRAM_ID_STR :: string where
  "MEMO_PROGRAM_ID_STR = ''MemoSq4gqABAXKb96qnH8TysNcWxMyWCqXgDLGmfcHr''"

definition RENT_EXEMPT_MIN_LAMPORTS :: u64 where "RENT_EXEMPT_MIN_LAMPORTS = 890880"

definition BASE_TX_FEE_LAMPORTS :: u64 where "BASE_TX_FEE_LAMPORTS = 5000"

definition hex_digit :: "nat \<Rightarrow> u8" where
  "hex_digit d = (if d < 10 then of_nat (48 + d) else of_nat (87 + d))"

text \<open>\<open>{:0nx}\<close> for a value below \<open>16^n\<close>: \<open>n\<close> digits, most significant first.\<close>

fun hex_digits :: "nat \<Rightarrow> nat \<Rightarrow> bytes" where
  "hex_digits 0 v = []"
| "hex_digits (Suc n) v = hex_digits n (v div 16) @ [hex_digit (v mod 16)]"

definition memo_payload :: "u8 \<Rightarrow> u64 \<Rightarrow> bytes" where
  "memo_payload sender_id trigger_id =
    hex_digits 2 (unat sender_id) @ [58] @ hex_digits 16 (unat trigger_id)"

text \<open>Reading a memo back.\<close>

definition hex_value :: "u8 \<Rightarrow> nat option" where
  "hex_value b = (let c = unat b in if 48 \<le> c \<and> c \<le> 57 then Some (c - 48)
     else if 97 \<le> c \<and> c \<le> 102 then Some (c - 87) else None)"

fun hex_parse :: "nat \<Rightarrow> bytes \<Rightarrow> nat option" where
  "hex_parse acc [] = Some acc"
| "hex_parse acc (b # bs) = (case hex_value b of None \<Rightarrow> None | Some d \<Rightarrow> hex_parse (acc * 16 + d) bs)"

definition memo_parse :: "bytes \<Rightarrow> (u8 \<times> u64) option" where
  "memo_parse bs = (if length bs \<noteq> 19 \<or> bs ! 2 \<noteq> 58 then None
     else case (hex_parse 0 (take 2 bs), hex_parse 0 (drop 3 bs)) of
       (Some s, Some t) \<Rightarrow> Some (of_nat s, of_nat t) | _ \<Rightarrow> None)"

section \<open>Instructions\<close>

datatype instruction =
  AdvanceNonceAccount pubkey pubkey
| SetComputeUnitLimit u32
| SetComputeUnitPrice u64
| Memo pubkey bytes
| Transfer pubkey pubkey u64

record nonce_params =
  np_nonce_pubkey :: pubkey
  np_authority :: pubkey

record build_params =
  bp_payer :: pubkey
  bp_blockhash :: hash
  bp_sender_id :: u8
  bp_trigger_id :: u64
  bp_tip_account :: "pubkey option"
  bp_tip_lamports :: u64
  bp_nonce :: "nonce_params option"
  bp_tx_cfg :: tx_config
  bp_fund_tipper :: "(pubkey \<times> u64) option"

record transaction =
  tx_payer :: pubkey
  tx_instructions :: "instruction list"
  tx_blockhash :: hash

record built_tx =
  bt_tx :: transaction
  bt_signature :: signature

definition build_instructions :: "build_params \<Rightarrow> instruction list" where
  "build_instructions p =
    (let payer_pk = bp_payer p; cfg = bp_tx_cfg p in
     (case bp_nonce p of None \<Rightarrow> []
      | Some np \<Rightarrow> [AdvanceNonceAccount (np_nonce_pubkey np) (np_authority np)]) @
     [SetComputeUnitLimit (tc_compute_unit_limit cfg)] @
     (if tc_priority_fee_microlamports cfg > 0
      then [SetComputeUnitPrice (tc_priority_fee_microlamports cfg)] else []) @
     [Memo payer_pk (memo_payload (bp_sender_id p) (bp_trigger_id p))] @
     (case bp_tip_account p of None \<Rightarrow> []
      | Some tip \<Rightarrow> if bp_tip_lamports p > 0 then [Transfer payer_pk tip (bp_tip_lamports p)] else []) @
     [Transfer payer_pk payer_pk (tc_self_transfer_lamports cfg)] @
     (case bp_fund_tipper p of None \<Rightarrow> []
      | Some (tipper, amount) \<Rightarrow> [Transfer payer_pk tipper amount]))"

definition build :: "(transaction \<Rightarrow> signature) \<Rightarrow> build_params \<Rightarrow> built_tx" where
  "build sign p =
    (let tx = \<lparr> tx_payer = bp_payer p, tx_instructions = build_instructions p,
                tx_blockhash = bp_blockhash p \<rparr>
     in \<lparr> bt_tx = tx, bt_signature = sign tx \<rparr>)"

definition build_tipper_tx ::
  "(transaction \<Rightarrow> signature) \<Rightarrow> pubkey \<Rightarrow> hash \<Rightarrow> pubkey \<Rightarrow> u64 \<Rightarrow> pubkey \<Rightarrow> u64 \<Rightarrow> built_tx" where
  "build_tipper_tx sign tipper_pk blockhash tip_account tip_lamports main_wallet rent_exempt_lamports =
    (let tx = \<lparr> tx_payer = tipper_pk,
                tx_instructions = [Transfer tipper_pk tip_account tip_lamports,
                                   Transfer tipper_pk main_wallet rent_exempt_lamports],
                tx_blockhash = blockhash \<rparr>
     in \<lparr> bt_tx = tx, bt_signature = sign tx \<rparr>)"

section \<open>Round trip of the memo\<close>

lemma length_hex_digits [simp]: "length (hex_digits n v) = n"
  by (induction n arbitrary: v) auto

lemma unat_hex_digit: "d < 16 \<Longrightarrow> unat (hex_digit d) = (if d < 10 then 48 + d else 87 + d)"
  unfolding hex_digit_def by (simp add: unat_of_nat del: of_nat_add)

lemma hex_value_digit: "d < 16 \<Longrightarrow> hex_value (hex_digit d) = Some d"
  by (simp add: hex_value_def unat_hex_digit Let_def)

lemma hex_parse_append:
  "hex_parse a (xs @ ys) = (case hex_parse a xs of None \<Rightarrow> None | Some b \<Rightarrow> hex_parse b ys)"
  by (induction a xs rule: hex_parse.induct) (auto split: option.split)

lemma hex_parse_digits: "v < 16 ^ n \<Longrightarrow> hex_parse a (hex_digits n v) = Some (a * 16 ^ n + v)"
proof (induction n arbitrary: v)
  case (Suc n)
  then have "v div 16 < 16 ^ n" by (simp add: less_mult_imp_div_less mult.commute)
  with Suc show ?case by (simp add: hex_parse_append hex_value_digit algebra_simps)
qed simp

lemma memo_roundtrip: "memo_parse (memo_payload s t) = Some (s, t)"
proof -
  have "unat s < 16 ^ 2" "unat t < 16 ^ 16" using unat_lt [of s] unat_lt [of t] by simp_all
  then show ?thesis
    by (simp add: memo_parse_def memo_payload_def nth_append hex_parse_digits)
qed

lemma hex_digits_ascii: "b \<in> set (hex_digits n v) \<Longrightarrow> unat b < 128"
  by (induction n arbitrary: v) (auto simp: unat_hex_digit split: if_splits)

text \<open>The memo is 19 bytes of ASCII, so valid UTF-8 for the memo program, and reading it back
  gives the sender and the trigger: distinct (sender, trigger) pairs have distinct memos.\<close>
theorem memo_payload_roundtrip:
  "memo_parse (memo_payload s t) = Some (s, t) \<and> length (memo_payload s t) = 19 \<and>
    filter (\<lambda>b. 128 \<le> unat b) (memo_payload s t) = []"
proof -
  have "b \<in> set (memo_payload s t) \<Longrightarrow> unat b < 128" for b
    using hex_digits_ascii by (auto simp: memo_payload_def)
  then show ?thesis by (auto simp: memo_roundtrip filter_empty_conv not_le) (simp add: memo_payload_def)
qed

text \<open>The lamports a list of instructions moves away from a wallet.\<close>

fun outflow :: "pubkey \<Rightarrow> instruction \<Rightarrow> nat" where
  "outflow w (Transfer a b x) = (if a = w \<and> b \<noteq> w then unat x else 0)"
| "outflow w i = 0"

fun is_advance :: "instruction \<Rightarrow> bool" where
  "is_advance (AdvanceNonceAccount n a) = True" | "is_advance i = False"

fun memo_of :: "instruction \<Rightarrow> bytes list" where
  "memo_of (Memo p d) = [d]" | "memo_of i = []"

lemma memo_of_build:
  "concat (map memo_of (build_instructions r)) = [memo_payload (bp_sender_id r) (bp_trigger_id r)]"
  by (auto simp: build_instructions_def Let_def split: option.splits)

lemma advance_of_build: "is_advance (hd (build_instructions p)) = (bp_nonce p \<noteq> None)"
  by (auto simp: build_instructions_def Let_def split: option.splits)

text \<open>The shape of a built transaction: in nonce mode the first instruction advances the nonce
  and no other does, without nonce none does; there is exactly one memo; what leaves the payer
  is the tip, when an account and a positive amount are configured, and the funding of the
  tipper; the signed blockhash is the given one.\<close>
theorem build_shape:
  assumes "bp_tip_account p \<noteq> Some (bp_payer p)" "map_option fst (bp_fund_tipper p) \<noteq> Some (bp_payer p)"
  shows "let tx = bt_tx (build sign p); ixs = tx_instructions tx in
    filter is_advance ixs = (case bp_nonce p of None \<Rightarrow> []
      | Some np \<Rightarrow> [AdvanceNonceAccount (np_nonce_pubkey np) (np_authority np)]) \<and>
    is_advance (hd ixs) = (bp_nonce p \<noteq> None) \<and>
    concat (map memo_of ixs) = [memo_payload (bp_sender_id p) (bp_trigger_id p)] \<and>
    sum_list (map (outflow (bp_payer p)) ixs) =
      (if bp_tip_account p = None then 0 else unat (bp_tip_lamports p)) +
      (case bp_fund_tipper p of None \<Rightarrow> 0 | Some (a, x) \<Rightarrow> unat x) \<and>
    tx_blockhash tx = bp_blockhash p \<and> tx_payer tx = bp_payer p"
  using assms
  by (auto simp: build_def build_instructions_def Let_def word_gt_0 split: option.splits)

definition demo_params :: build_params where
  "demo_params = \<lparr> bp_payer = 1, bp_blockhash = 2, bp_sender_id = 3, bp_trigger_id = 4,
     bp_tip_account = Some 5, bp_tip_lamports = 6, bp_nonce = Some \<lparr> np_nonce_pubkey = 7, np_authority = 1 \<rparr>,
     bp_tx_cfg = tx_config_of None None None, bp_fund_tipper = None \<rparr>"

lemma build_shape_witness:
  "sum_list (map (outflow 1) (tx_instructions (bt_tx (build (\<lambda>_. 0) demo_params)))) = 6"
  using build_shape [of demo_params "\<lambda>_. 0"] by (simp add: demo_params_def Let_def)

text \<open>Two transactions built for different senders or triggers differ, even with the same
  blockhash: with a signature scheme that does not collide, none is dropped as already processed.\<close>
theorem build_unique:
  assumes "bt_tx (build sign p) = bt_tx (build sign q)"
  shows "bp_sender_id p = bp_sender_id q \<and> bp_trigger_id p = bp_trigger_id q"
proof -
  have "build_instructions p = build_instructions q" using assms by (simp add: build_def Let_def)
  then have "memo_payload (bp_sender_id p) (bp_trigger_id p) = memo_payload (bp_sender_id q) (bp_trigger_id q)"
    using memo_of_build [of p] memo_of_build [of q] by simp
  then show ?thesis by (metis memo_roundtrip option.inject prod.inject)
qed

lemma build_unique_witness:
  "bp_trigger_id (demo_params\<lparr>bp_tip_account := None\<rparr>) = bp_trigger_id (demo_params\<lparr>bp_tip_lamports := 0\<rparr>)"
  using build_unique [of "\<lambda>_. 0" "demo_params\<lparr>bp_tip_account := None\<rparr>" "demo_params\<lparr>bp_tip_lamports := 0\<rparr>"]
  by (simp add: build_def build_instructions_def demo_params_def)

end
