(* ===== verification/Tx_Pool.thy ===== *)
theory Tx_Pool
  imports Tx_Builder Nonce_Manager
begin

text \<open>
  \<open>crates/tick-trigger-fan-out-bench/src/tx_pool.rs\<close>: the pool of pre-signed transactions that
  the preparer fills and the dispatcher empties, one list of variants per (slot, tick). Each
  operation locks one shard of the map, so it is one step.
\<close>

record bundle_meta =
  bm_tip_account :: pubkey
  bm_tip_lamports :: u64

record pre_signed_tx =
  pt_sender_id :: u8
  pt_tx :: transaction
  pt_signature :: signature
  pt_blockhash :: hash
  pt_prepared_at :: instant
  pt_nonce_id :: "nonce_id option"
  pt_bundle_metadata :: "bundle_meta option"

type_synonym pool_key = "u64 \<times> u8"

record tx_pool = pl_inner :: "(pool_key, pre_signed_tx list) hash_map"

definition pool_new :: tx_pool where
  "pool_new = \<lparr> pl_inner = [] \<rparr>"

definition pool_get :: "pool_key \<Rightarrow> tx_pool \<Rightarrow> pre_signed_tx list option" where
  "pool_get k p = map_of (pl_inner p) k"

definition pool_take :: "u64 \<Rightarrow> u8 \<Rightarrow> tx_pool \<Rightarrow> pre_signed_tx list option \<times> tx_pool" where
  "pool_take slot tick p =
    (map_of (pl_inner p) (slot, tick), p\<lparr>pl_inner := hm_remove (slot, tick) (pl_inner p)\<rparr>)"

definition insert_all :: "u64 \<Rightarrow> u8 \<Rightarrow> pre_signed_tx list \<Rightarrow> tx_pool \<Rightarrow> tx_pool" where
  "insert_all slot tick txs p = p\<lparr>pl_inner := hm_insert (slot, tick) txs (pl_inner p)\<rparr>"

definition pool_len :: "tx_pool \<Rightarrow> nat" where
  "pool_len p = length (pl_inner p)"

definition pool_is_empty :: "tx_pool \<Rightarrow> bool" where
  "pool_is_empty p \<longleftrightarrow> pl_inner p = []"

definition evict_below :: "u64 \<Rightarrow> tx_pool \<Rightarrow> tx_pool" where
  "evict_below cutoff_slot p = p\<lparr>pl_inner := filter (\<lambda>((s, t), txs). cutoff_slot \<le> s) (pl_inner p)\<rparr>"

definition pool_inv :: "tx_pool \<Rightarrow> bool" where
  "pool_inv p \<longleftrightarrow> hm_inv (pl_inner p)"

section \<open>The pool as a map\<close>

lemma pool_inv_new: "pool_inv pool_new"
  by (simp add: pool_inv_def pool_new_def)

lemma pool_inv_ops:
  assumes "pool_inv p"
  shows "pool_inv (snd (pool_take s t p))" "pool_inv (insert_all s t v p)" "pool_inv (evict_below c p)"
  using assms
  by (simp_all add: pool_inv_def pool_take_def insert_all_def evict_below_def hm.invar_insert hm.invar_remove)
    (simp add: hm_inv_def distinct_map_filter)

lemma pool_get_new: "pool_get k pool_new = None"
  by (simp add: pool_get_def pool_new_def)

lemma pool_take_fst: "fst (pool_take s t p) = pool_get (s, t) p"
  by (simp add: pool_take_def pool_get_def)

lemma pool_get_take: "pool_get k (snd (pool_take s t p)) = (if k = (s, t) then None else pool_get k p)"
  by (simp add: pool_take_def pool_get_def hm.lookup_remove)

lemma pool_get_insert: "pool_get k (insert_all s t v p) = (if k = (s, t) then Some v else pool_get k p)"
  by (simp add: insert_all_def pool_get_def hm.lookup_insert)

lemma pool_get_evict:
  "pool_inv p \<Longrightarrow> pool_get k (evict_below c p) = (if c \<le> fst k then pool_get k p else None)"
  by (cases k) (simp add: pool_get_def evict_below_def pool_inv_def hm_inv_def map_of_filter_keys split: option.split)

lemmas pool_simps = pool_get_new pool_take_fst pool_get_take pool_get_insert pool_get_evict pool_inv_new pool_inv_ops

text \<open>Operations of the threads that share the pool.\<close>

datatype pool_op = PoolTake u64 u8 | PoolInsert u64 u8 "pre_signed_tx list" | PoolEvict u64

fun pool_exec :: "pool_op \<Rightarrow> tx_pool \<Rightarrow> pre_signed_tx list option \<times> tx_pool" where
  "pool_exec (PoolTake s t) p = pool_take s t p"
| "pool_exec (PoolInsert s t v) p = (None, insert_all s t v p)"
| "pool_exec (PoolEvict c) p = (None, evict_below c p)"

text \<open>The lists taken for a key over a sequence of operations, and those inserted.\<close>

fun taken :: "pool_key \<Rightarrow> pool_op list \<Rightarrow> tx_pool \<Rightarrow> pre_signed_tx list list" where
  "taken k [] p = []"
| "taken k (c # cs) p =
    (case pool_exec c p of (r, p') \<Rightarrow>
      (case (c, r) of (PoolTake s t, Some v) \<Rightarrow> if (s, t) = k then [v] else [] | _ \<Rightarrow> []) @ taken k cs p')"

fun inserted :: "pool_key \<Rightarrow> pool_op list \<Rightarrow> pre_signed_tx list list" where
  "inserted k [] = []"
| "inserted k (PoolInsert s t v # cs) = (if (s, t) = k then [v] else []) @ inserted k cs"
| "inserted k (c # cs) = inserted k cs"

lemma taken_length:
  "pool_inv p \<Longrightarrow> length (taken k cs p) \<le> length (inserted k cs) + (if pool_get k p = None then 0 else 1)"
proof (induction cs arbitrary: p)
  case (Cons c cs)
  show ?case
  proof (cases c)
    case (PoolTake s t)
    then show ?thesis
      using Cons.IH [of "snd (pool_take s t p)"] Cons.prems
      by (auto simp: pool_simps split_beta split: option.splits if_splits)
  next
    case (PoolInsert s t v)
    then show ?thesis using Cons.IH [of "insert_all s t v p"] Cons.prems by (auto simp: pool_simps split: if_splits)
  next
    case (PoolEvict x)
    then show ?thesis using Cons.IH [of "evict_below x p"] Cons.prems by (auto simp: pool_simps split: if_splits)
  qed
qed simp

lemma taken_inserted:
  "pool_inv p \<Longrightarrow> set (taken k cs p) \<subseteq> set (inserted k cs) \<union> (case pool_get k p of None \<Rightarrow> {} | Some v \<Rightarrow> {v})"
proof (induction cs arbitrary: p)
  case (Cons c cs)
  show ?case
  proof (cases c)
    case (PoolTake s t)
    then show ?thesis
      using Cons.IH [of "snd (pool_take s t p)"] Cons.prems
      by (auto simp: pool_simps split_beta split: option.splits if_splits)
  next
    case (PoolInsert s t v)
    then show ?thesis using Cons.IH [of "insert_all s t v p"] Cons.prems
      by (auto simp: pool_simps split: option.splits if_splits)
  next
    case (PoolEvict x)
    then show ?thesis using Cons.IH [of "evict_below x p"] Cons.prems
      by (auto simp: pool_simps split: option.splits if_splits)
  qed
qed simp

text \<open>C23: A pre-signed list is dispatched at most once. In any interleaving of takes, inserts and
  evictions from the empty pool, what is taken for a (slot, tick) was inserted for it, and no
  list is taken more often than lists were inserted: two takes never return the same insertion,
  so no transaction is sent twice for one trigger.\<close>
theorem pool_take_once:
  "length (taken k cs pool_new) \<le> length (inserted k cs) \<and> set (taken k cs pool_new) \<subseteq> set (inserted k cs)"
  using taken_length [OF pool_inv_new, of k cs] taken_inserted [OF pool_inv_new, of k cs]
  by (simp add: pool_simps)

end
