(* ===== verification/Tip_Accounts.thy ===== *)
theory Tip_Accounts
  imports Config
begin

text \<open>
  \<open>crates/tick-trigger-fan-out-bench/src/tip_accounts.rs\<close>: the tip accounts of every vendor
  and the round-robin rotator over a list. \<open>Pubkey::from_str\<close> is the parameter \<open>from_str\<close>;
  a hard-coded account that does not parse is the panic of \<open>expect\<close>, the value \<open>None\<close>.
\<close>

section \<open>The tables\<close>

definition HELIUS_TIP_ACCOUNTS_STR :: "string list" where
  "HELIUS_TIP_ACCOUNTS_STR = [
     ''4ACfpUFoaSD9bfPdeu6DBt89gB6ENTeHBXCAi87NhDEE'',
     ''D2L6yPZ2FmmmTKPgzaMKdhu6EWZcTpLy1Vhx8uvAfrLT'',
     ''9bnz4RShgq1hAnLnZbP8kbgBg1kEmcJBYQq3gQbmnSta'',
     ''5VY91ws6B2hMmBFRsXkoAAdsPHBJwRfBht4DXox3xkwn'',
     ''2nyhqdwKcJZR2vcqCyrYsaPVdAnFoJjiksCXJ7hfEYgD'',
     ''2q5pghRs6arqVjRvT5gfgWfWcHWmw1ZuCzphgd5KfWGJ'',
     ''wyvPkWjVZz1M8fHQnMMCDTQDbkManefNNhweYk5WkcF'',
     ''3KCKozbAaF75qEU33jtzozcJ29yJuaLJTy2jFdzUY8bT'',
     ''4vieeGHPYPG2MmyPRcYjdiDmmhN3ww7hsFNap8pVN3Ey'',
     ''4TQLFNWK8AovT1gFvda5jfw2oJeRMKEmw7aH6MGBJ3or'']"

definition JITO_TIP_ACCOUNTS_STR :: "string list" where
  "JITO_TIP_ACCOUNTS_STR = [
     ''96gYZGLnJYVFmbjzopPSU6QiEV5fGqZNyN9nmNhvrZU5'',
     ''HFqU5x63VTqvQss8hp11i4wVV8bD44PvwucfZ2bU7gRe'',
     ''Cw8CFyM9FkoMi7K7Crf6HNQqf4uEMzpKw6QNghXLvLkY'',
     ''ADaUMid9yfUytqMBgopwjb2DTLSokTSzL1zt6iGPaS49'',
     ''DfXygSm4jCyNCybVYYK6DwvWqjKee8pbDmJGcLWNDXjh'',
     ''ADuUkR4vqLUMWXxW9gh6D6L8pMSawimctcNZ5pGwDcEt'',
     ''DttWaMuVvTiduZRnguLF7jNxTgiMBZ1hyAumKUiL2KRL'',
     ''3AVi9Tg9Uo68tJfuvoKvqKNWKkC5wPdSSdeBnizKZ6jT'']"

definition SYNCRO_TIP_ACCOUNTS_STR :: "string list" where
  "SYNCRO_TIP_ACCOUNTS_STR = [
     ''BPZrtYhdoAhiHWV5EgGLoV7bZFbMamBZurGDq4DmST8v'',
     ''7D5pdbkV75Sr73M1YFNZwXMed6DenwkdfbJwVWrX6drQ'',
     ''ELpn2NryEW4B3psG36eSjF45YcGMQpGGuu9J2AgAccbV'',
     ''FnckAPC9PitnRpGZM2M4WLwb3w9odRLJ7EDRZDngjvd6'',
     ''3ZnDTgvVfwzqwWoqAUmDkgVtXvXqjmeb5t9zxD5pMbmv'',
     ''3SLDFcdCzMbcFNguZhzmV4zqEAUvcPoKY13akpE4Tq1p'',
     ''48tT6LJqrsoFrLpzZSHkjGdGTWtsJ1PvjgWZjh8qF1RK'',
     ''7GM9fpVMHHcrK4cgzfVdzJvjiy1bSyfwSYzhxvgbfVLg'',
     ''CBd8GE3ffMJKf3iCCcNNBEifMxH1WpgtTzRnXPxxbjGE'']"

definition ZEROSLOT_TIP_ACCOUNTS_STR :: "string list" where
  "ZEROSLOT_TIP_ACCOUNTS_STR = [
     ''Eb2KpSC8uMt9GmzyAEm5Eb1AAAgTjRaXWFjKyFXHZxF3'',
     ''FCjUJZ1qozm1e8romw216qyfQMaaWKxWsuySnumVCCNe'',
     ''ENxTEjSQ1YabmUpXAdCgevnHQ9MHdLv8tzFiuiYJqa13'',
     ''6rYLG55Q9RpsPGvqdPNJs4z5WTxJVatMB8zV3WJhs5EK'',
     ''Cix2bHfqPcKcM233mzxbLk14kSggUUiz2A87fJtGivXr'']"

definition ALLENHARK_TIP_ACCOUNTS_STR :: "string list" where
  "ALLENHARK_TIP_ACCOUNTS_STR = [
     ''hark1zxc5Rz3K8Kquz79WPWFEgNCFeJnsMJ16f22uNP'',
     ''harkm2BTWxZuszoNpZnfe84jRbQTg6KGHaQBmWzDGQQ'',
     ''hark4CwtTnN2y9FaxjcFBAJdJqQrpouu5pgEixfqdEz'',
     ''harkoJfnM6dxrJydx5eVmDVwAgwC94KbhuxF69UbXwP'',
     ''hark6hUDUTekc1DGxWdJcuyDZwf6pJdCxd4SXAVtta6'',
     ''harkoTvFpKSrEQduYrNHXCurARVT19Ud3BnFhVxabos'',
     ''harkEpXoJv5qVzHaN7HSuUAd6PHjyMcFMcDYBMDJCEQ'',
     ''harkyXDdZSoJGyCxa24t2QXx1poPyp8YfghbtpzGSzK'',
     ''harkR2YJ4Dpt4UDJTcBirjnSPBhNpQFcoFkNpCkVqNk'',
     ''harkRBygM8pHYe4K8eBjfxyEX19oJn3LepFjvNbLbyi'',
     ''harkYFxB6DuUFNwDLvA5CQ66KpfRvFgUoVypMagNcmd'']"

definition BLOCKRAZOR_TIP_ACCOUNTS_STR :: "string list" where
  "BLOCKRAZOR_TIP_ACCOUNTS_STR = [
     ''FjmZZrFvhnqqb9ThCuMVnENaM3JGVuGWNyCAxRJcFpg9'',
     ''6No2i3aawzHsjtThw81iq1EXPJN6rh8eSJCLaYZfKDTG'',
     ''A9cWowVAiHe9pJfKAj3TJiN9VpbzMUq6E4kEvf5mUT22'',
     ''Gywj98ophM7GmkDdaWs4isqZnDdFCW7B46TXmKfvyqSm'',
     ''68Pwb4jS7eZATjDfhmTXgRJjCiZmw1L7Huy4HNpnxJ3o'',
     ''4ABhJh5rZPjv63RBJBuyWzBK3g9gWMUQdTZP2kiW31V9'',
     ''B2M4NG5eyZp5SBQrSdtemzk5TqVuaWGQnowGaCBt8GyM'',
     ''5jA59cXMKQqZAVdtopv8q3yyw9SYfiE3vUCbt7p8MfVf'',
     ''5YktoWygr1Bp9wiS1xtMtUki1PeYuuzuCF98tqwYxf61'',
     ''295Avbam4qGShBYK7E9H5Ldew4B3WyJGmgmXfiWdeeyV'',
     ''EDi4rSy2LZgKJX74mbLTFk4mxoTgT6F7HxxzG2HBAFyK'',
     ''BnGKHAC386n4Qmv9xtpBVbRaUTKixjBe3oagkPFKtoy6'',
     ''Dd7K2Fp7AtoN8xCghKDRmyqr5U169t48Tw5fEd3wT9mq'',
     ''AP6qExwrbRgBAVaehg4b5xHENX815sMabtBzUzVB4v8S'']"

definition NOZOMI_TIP_ACCOUNTS_STR :: "string list" where
  "NOZOMI_TIP_ACCOUNTS_STR = [
     ''TEMPaMeCRFAS9EKF53Jd6KpHxgL47uWLcpFArU1Fanq'',
     ''noz3jAjPiHuBPqiSPkkugaJDkJscPuRhYnSpbi8UvC4'',
     ''noz3str9KXfpKknefHji8L1mPgimezaiUyCHYMDv1GE'',
     ''noz6uoYCDijhu1V7cutCpwxNiSovEwLdRHPwmgCGDNo'',
     ''noz9EPNcT7WH6Sou3sr3GGjHQYVkN3DNirpbvDkv9YJ'',
     ''nozc5yT15LazbLTFVZzoNZCwjh3yUtW86LoUyqsBu4L'',
     ''nozFrhfnNGoyqwVuwPAW4aaGqempx4PU6g6D9CJMv7Z'',
     ''nozievPk7HyK1Rqy1MPJwVQ7qQg2QoJGyP71oeDwbsu'',
     ''noznbgwYnBLDHu8wcQVCEw6kDrXkPdKkydGJGNXGvL7'',
     ''nozNVWs5N8mgzuD3qigrCG2UoKxZttxzZ85pvAQVrbP'',
     ''nozpEGbwx4BcGp6pvEdAh1JoC2CQGZdU6HbNP1v2p6P'',
     ''nozrhjhkCr3zXT3BiT4WCodYCUFeQvcdUkM7MqhKqge'',
     ''nozrwQtWhEdrA6W8dkbt9gnUaMs52PdAv5byipnadq3'',
     ''nozUacTVWub3cL4mJmGCYjKZTnE9RbdY5AP46iQgbPJ'',
     ''nozWCyTPppJjRuw2fpzDhhWbW355fzosWSzrrMYB1Qk'',
     ''nozWNju6dY353eMkMqURqwQEoM3SFgEKC6psLCSfUne'',
     ''nozxNBgWohjR75vdspfxR5H9ceC7XXH99xpxhVGt3Bb'']"

definition ASTRALANE_TIP_ACCOUNTS_STR :: "string list" where
  "ASTRALANE_TIP_ACCOUNTS_STR = [
     ''astra4uejePWneqNaJKuFFA8oonqCE1sqF6b45kDMZm'',
     ''astrazznxsGUhWShqgNtAdfrzP2G83DzcWVJDxwV9bF'',
     ''astra9xWY93QyfG6yM8zwsKsRodscjQ2uU2HKNL5prk'',
     ''astraRVUuTHjpwEVvNBeQEgwYx9w9CFyfxjYoobCZhL'',
     ''astraEJ2fEj8Xmy6KLG7B3VfbKfsHXhHrNdCQx7iGJK'',
     ''astraubkDw81n4LuutzSQ8uzHCv4BhPVhfvTcYv8SKC'',
     ''astraZW5GLFefxNPAatceHhYjfA1ciq9gvfEg2S47xk'',
     ''astrawVNP4xDBKT7rAdxrLYiTSTdqtUr63fSMduivXK'',
     ''AstrA1ejL4UeXC2SBP4cpeEmtcFPZVLxx3XGKXyCW6to'',
     ''AsTra79FET4aCKWspPqeSFvjJNyp96SvAnrmyAxqg5b7'',
     ''AstrABAu8CBTyuPXpV4eSCJ5fePEPnxN8NqBaPKQ9fHR'',
     ''AsTRADtvb6tTmrsqULQ9Wji9PigDMjhfEMza6zkynEvV'',
     ''AsTRAEoyMofR3vUPpf9k68Gsfb6ymTZttEtsAbv8Bk4d'',
     ''AStrAJv2RN2hKCHxwUMtqmSxgdcNZbihCwc1mCSnG83W'',
     ''Astran35aiQUF57XZsmkWMtNCtXGLzs8upfiqXxth2bz'',
     ''AStRAnpi6kFrKypragExgeRoJ1QnKH7pbSjLAKQVWUum'',
     ''ASTRaoF93eYt73TYvwtsv6fMWHWbGmMUZfVZPo3CRU9C'']"

definition NEXTBLOCK_TIP_ACCOUNTS_STR :: "string list" where
  "NEXTBLOCK_TIP_ACCOUNTS_STR = [
     ''NextbLoCkVtMGcV47JzewQdvBpLqT9TxQFozQkN98pE'',
     ''NexTbLoCkWykbLuB1NkjXgFWkX9oAtcoagQegygXXA2'',
     ''NeXTBLoCKs9F1y5PJS9CKrFNNLU1keHW71rfh7KgA1X'',
     ''NexTBLockJYZ7QD7p2byrUa6df8ndV2WSd8GkbWqfbb'',
     ''neXtBLock1LeC67jYd1QdAa32kbVeubsfPNTJC1V5At'',
     ''nEXTBLockYgngeRmRrjDV31mGSekVPqZoMGhQEZtPVG'',
     ''NEXTbLoCkB51HpLBLojQfpyVAMorm3zzKg7w9NFdqid'',
     ''nextBLoCkPMgmG8ZgJtABeScP35qLa2AMCNKntAP7Xc'']"

definition BLOXROUTE_TIP_ACCOUNTS_STR :: "string list" where
  "BLOXROUTE_TIP_ACCOUNTS_STR = [
     ''3UQUKjhMKaY2S6bjcQD6yHB7utcZt5bfarRCmctpRtUd'',
     ''FogxVNs6Mm2w9rnGL1vkARSwJxvLE8mujTv3LK8RnUhF'',
     ''bLx7MvxGaKdKL7mEbpk9tC79z6MnBSJoJkuaEAPu6Nd'',
     ''bLx7XBqSg3LUPVf1bRgCnkJmgVZR8QEgDJBPqcRLHvp'',
     ''bLx8KeZxinPwy6kkUgyzMLeqb2ARNsWjADG1dhSsVba'',
     ''bLxADBknoNj8WAGw2W6GBYeq848Xx6ajhaymV1YvrHm'',
     ''bLxAc88vRBwvcUQJEgcxNfBLvHPikY4csNsUmPeWea2'',
     ''bLxQ88oCiTsL8Xj4YWekKi1hjrgmbE3J3FFZ2xZHR3h'',
     ''bLxS7NoLuynNRJ4mCnEE2YbtwJFttYsEyp2ME7rp2yt'',
     ''bLxW6mCov7VEbrKc3S9tcBRcfSzRnLCbNp3Dfn3SJG5'',
     ''bLxXSGXs4mYPTC5okZXed1qzvjNwNJ48QJ82hT2V7w7'',
     ''bLxYi3vojbbB7hVzVDVTdBLVPhp7GJ3ZB3BwdK5sFXi'',
     ''bLxhLPgBXtUpX4b1bH3HatuMGMSKT9GnwtuCGiMSAqe'',
     ''bLxpY1mniuFW4PgkNA4JiNxoeKHFszryi6tNgyZAiAA'',
     ''bLxuETxd2tgWxBALNwPzAfHhsik4BzD3nrEBCiPNZQD'',
     ''bLxuL2gK5FW7xfahvwLrxLyW76vcCpNsKQY2CmnE6kV'',
     ''bLxv4Hnub7nDJWHs8s17o9bGU65Bnx6Yqp2fqtMgHmm'']"

fun tip_account_names :: "sender_kind \<Rightarrow> string list" where
  "tip_account_names Helius = HELIUS_TIP_ACCOUNTS_STR"
| "tip_account_names Jito = JITO_TIP_ACCOUNTS_STR"
| "tip_account_names Triton = []"
| "tip_account_names TritonSendTx = []"
| "tip_account_names Nozomi = NOZOMI_TIP_ACCOUNTS_STR"
| "tip_account_names Astralane = ASTRALANE_TIP_ACCOUNTS_STR"
| "tip_account_names AstralaneQuic = ASTRALANE_TIP_ACCOUNTS_STR"
| "tip_account_names Nextblock = NEXTBLOCK_TIP_ACCOUNTS_STR"
| "tip_account_names NextblockQuic = NEXTBLOCK_TIP_ACCOUNTS_STR"
| "tip_account_names Bloxroute = BLOXROUTE_TIP_ACCOUNTS_STR"
| "tip_account_names BloxrouteQuic = BLOXROUTE_TIP_ACCOUNTS_STR"
| "tip_account_names Syncro = SYNCRO_TIP_ACCOUNTS_STR"
| "tip_account_names ZeroSlot = ZEROSLOT_TIP_ACCOUNTS_STR"
| "tip_account_names AllenHark = ALLENHARK_TIP_ACCOUNTS_STR"
| "tip_account_names BlockRazor = BLOCKRAZOR_TIP_ACCOUNTS_STR"

definition tip_accounts_for :: "(string \<Rightarrow> pubkey option) \<Rightarrow> sender_kind \<Rightarrow> pubkey list option" where
  "tip_accounts_for from_str kind = those (map from_str (tip_account_names kind))"

lemmas tip_tables =
  HELIUS_TIP_ACCOUNTS_STR_def
  JITO_TIP_ACCOUNTS_STR_def
  SYNCRO_TIP_ACCOUNTS_STR_def
  ZEROSLOT_TIP_ACCOUNTS_STR_def
  ALLENHARK_TIP_ACCOUNTS_STR_def
  BLOCKRAZOR_TIP_ACCOUNTS_STR_def
  NOZOMI_TIP_ACCOUNTS_STR_def
  ASTRALANE_TIP_ACCOUNTS_STR_def
  NEXTBLOCK_TIP_ACCOUNTS_STR_def
  BLOXROUTE_TIP_ACCOUNTS_STR_def

section \<open>The rotator\<close>

record tip_rotator =
  tp_accounts :: "pubkey list"
  tp_cursor :: u64

definition rotator_new :: "pubkey list \<Rightarrow> tip_rotator" where
  "rotator_new accounts = \<lparr> tp_accounts = accounts, tp_cursor = 0 \<rparr>"

definition rotator_next :: "tip_rotator \<Rightarrow> pubkey option \<times> tip_rotator" where
  "rotator_next r =
    (if tp_accounts r = [] then (None, r)
     else (Some (tp_accounts r ! (unat (tp_cursor r) mod length (tp_accounts r))),
           r\<lparr>tp_cursor := tp_cursor r + 1\<rparr>))"

fun rotations :: "nat \<Rightarrow> tip_rotator \<Rightarrow> pubkey option list" where
  "rotations 0 r = []"
| "rotations (Suc k) r = (let (a, r') = rotator_next r in a # rotations k r')"

section \<open>Properties\<close>

lemma tip_names_distinct: "distinct (tip_account_names k)"
  by (cases k) (simp_all add: tip_tables)

lemma those_map_Some: "those xs = Some ys \<Longrightarrow> xs = map Some ys"
  by (induction xs arbitrary: ys) (auto split: option.splits)

lemma those_map_total: "(\<And>x. x \<in> set xs \<Longrightarrow> f x \<noteq> None) \<Longrightarrow> those (map f xs) = Some (map (the \<circ> f) xs)"
  by (induction xs) (auto split: option.splits)

text \<open>With a parser that is injective on the keys it accepts and accepts the hard-coded ones,
  every vendor has a tip list without repetition, of the documented length; it is empty exactly
  for the two Triton senders, which need no tip.\<close>
lemma tip_accounts_ok:
  assumes "inj_on from_str (set (tip_account_names k))" "None \<notin> from_str ` set (tip_account_names k)"
  obtains ks where "tip_accounts_for from_str k = Some ks" "distinct ks"
    "length ks = (case k of Helius \<Rightarrow> 10 | Jito \<Rightarrow> 8 | Triton \<Rightarrow> 0 | TritonSendTx \<Rightarrow> 0 | Syncro \<Rightarrow> 9
       | ZeroSlot \<Rightarrow> 5 | AllenHark \<Rightarrow> 11 | BlockRazor \<Rightarrow> 14 | Nextblock \<Rightarrow> 8 | NextblockQuic \<Rightarrow> 8
       | _ \<Rightarrow> 17)"
proof -
  let ?ns = "tip_account_names k"
  have "from_str x \<noteq> None" if "x \<in> set ?ns" for x using assms(2) that by (metis image_eqI)
  then have "tip_accounts_for from_str k = Some (map (the \<circ> from_str) ?ns)"
    by (simp add: tip_accounts_for_def those_map_total)
  moreover have "inj_on (the \<circ> from_str) (set ?ns)"
    by (rule inj_onI) (use assms in \<open>metis comp_apply image_eqI inj_onD option.expand\<close>)
  then have "distinct (map (the \<circ> from_str) ?ns)" using tip_names_distinct by (simp add: distinct_map)
  moreover have "length ?ns = (case k of Helius \<Rightarrow> 10 | Jito \<Rightarrow> 8 | Triton \<Rightarrow> 0 | TritonSendTx \<Rightarrow> 0
      | Syncro \<Rightarrow> 9 | ZeroSlot \<Rightarrow> 5 | AllenHark \<Rightarrow> 11 | BlockRazor \<Rightarrow> 14 | Nextblock \<Rightarrow> 8
      | NextblockQuic \<Rightarrow> 8 | _ \<Rightarrow> 17)"
    by (cases k) (simp_all add: tip_tables)
  ultimately show ?thesis using that by simp
qed

text \<open>The \<open>j\<close>-th of \<open>k\<close> consecutive calls returns the account \<open>j\<close> places on.\<close>

lemma rotations_nth:
  assumes "tp_accounts r \<noteq> []" "unat (tp_cursor r) + k \<le> 2 ^ 64"
  shows "rotations k r = map (\<lambda>j. Some (tp_accounts r ! ((unat (tp_cursor r) + j) mod length (tp_accounts r)))) [0..<k]"
  using assms
proof (induction k arbitrary: r)
  case (Suc k)
  let ?r' = "r\<lparr>tp_cursor := tp_cursor r + 1\<rparr>"
  show ?case
  proof (cases "k = 0")
    case False
    then have "unat (tp_cursor r + 1) = Suc (unat (tp_cursor r))"
      using Suc.prems(2) by (simp add: unat_word_ariths)
    with Suc.IH [of ?r'] Suc.prems show ?thesis
      by (simp add: rotator_next_def upt_conv_Cons map_Suc_upt [symmetric] del: upt_Suc)
  qed (use Suc.prems in \<open>simp add: rotator_next_def\<close>)
qed simp

text \<open>The rotator spreads the load evenly: over any number of full cycles from a fresh rotator,
  every account of the list is returned equally often, in the order of the list.\<close>
theorem rotator_fair:
  assumes "accounts \<noteq> []" "c * length accounts \<le> 2 ^ 64"
  shows "rotations (c * length accounts) (rotator_new accounts) =
    concat (replicate c (map Some accounts))"
proof -
  let ?n = "length accounts"
  have "map (\<lambda>j. Some (accounts ! (j mod ?n))) [0..<c * ?n] = concat (replicate c (map Some accounts))"
  proof (induction c)
    case (Suc c)
    have "map (\<lambda>j. Some (accounts ! (j mod ?n))) [c * ?n..<c * ?n + ?n] = map Some accounts"
      by (rule nth_equalityI) (use assms(1) in auto)
    moreover have "[0..<Suc c * ?n] = [0..<c * ?n] @ [c * ?n..<c * ?n + ?n]"
      by (metis add.commute mult_Suc upt_add_eq_append zero_le)
    moreover have "replicate (Suc c) (map Some accounts) = replicate c (map Some accounts) @ [map Some accounts]"
      by (simp add: replicate_append_same)
    ultimately show ?case using Suc by (simp del: replicate_Suc mult_Suc upt_Suc)
  qed simp
  then show ?thesis
    using rotations_nth [of "rotator_new accounts" "c * ?n"] assms by (simp add: rotator_new_def)
qed

lemma rotator_fair_witness:
  "rotations 4 (rotator_new [5, 6]) = [Some 5, Some 6, Some 5, Some 6]"
proof -
  have "[5 :: pubkey, 6] \<noteq> []" "2 * length [5 :: pubkey, 6] \<le> 2 ^ 64" by simp_all
  from rotator_fair [OF this] show ?thesis by (simp del: rotations.simps add: eval_nat_numeral)
qed

end
