(* ===== verification/Schedule.thy ===== *)
theory Schedule
  imports Prelude
begin

text \<open>
  \<open>crates/tick-trigger-fan-out-bench/src/schedule.rs\<close>: the generator of the (slot, tick)
  schedule. The random generator is external: \<open>seeded s\<close> is the sequence of draws of
  \<open>SmallRng::seed_from_u64(s)\<close> from \<open>1..=64\<close>, and the state is how many were taken. The
  rejection loop draws until a tick is new, so it is a partial function: \<open>None\<close> is a loop
  that never ends.
\<close>

record schedule_entry =
  se_slot :: u64
  se_tick :: u8

record schedule =
  sch_rng :: "nat \<Rightarrow> u8"
  sch_pos :: nat
  sch_next_slot :: u64
  sch_chunk_size :: u64
  sch_triggers_per_slot :: u32

definition schedule_new :: "(u64 \<Rightarrow> nat \<Rightarrow> u8) \<Rightarrow> u64 \<Rightarrow> u64 option \<Rightarrow> u64 \<Rightarrow> u64 \<Rightarrow> u32 \<Rightarrow> schedule" where
  "schedule_new seeded time_seed seed start_slot chunk_size triggers_per_slot = \<lparr>
     sch_rng = seeded (case seed of Some s \<Rightarrow> s | None \<Rightarrow> time_seed), sch_pos = 0,
     sch_next_slot = start_slot, sch_chunk_size = max chunk_size 1,
     sch_triggers_per_slot = max triggers_per_slot 1 \<rparr>"

text \<open>The \<open>while\<close> loop for one slot.\<close>

partial_function (option) pick_ticks :: "(nat \<Rightarrow> u8) \<Rightarrow> nat \<Rightarrow> nat \<Rightarrow> u8 list \<Rightarrow> (u8 list \<times> nat) option" where
  "pick_ticks rng need pos picked =
    (if length picked < need \<and> length picked < 64
     then pick_ticks rng need (Suc pos) (if rng pos \<in> set picked then picked else picked @ [rng pos])
     else Some (picked, pos))"

fun gen_slots :: "(nat \<Rightarrow> u8) \<Rightarrow> nat \<Rightarrow> u64 \<Rightarrow> nat list \<Rightarrow> nat \<Rightarrow> (schedule_entry list \<times> nat) option" where
  "gen_slots rng need next_slot [] pos = Some ([], pos)"
| "gen_slots rng need next_slot (offset # offsets) pos = (case pick_ticks rng need pos [] of
     None \<Rightarrow> None
   | Some (picked, pos') \<Rightarrow> (case gen_slots rng need next_slot offsets pos' of
       None \<Rightarrow> None
     | Some (rest, pos'') \<Rightarrow>
         Some (map (\<lambda>t. \<lparr> se_slot = next_slot + of_nat offset, se_tick = t \<rparr>) picked @ rest, pos'')))"

definition next_chunk :: "schedule \<Rightarrow> (schedule_entry list \<times> schedule) option" where
  "next_chunk s = (case gen_slots (sch_rng s) (unat (sch_triggers_per_slot s)) (sch_next_slot s)
       [0..<unat (sch_chunk_size s)] (sch_pos s) of
     None \<Rightarrow> None
   | Some (out, pos) \<Rightarrow> Some (out, s\<lparr> sch_pos := pos,
       sch_next_slot := saturating_add (sch_next_slot s) (sch_chunk_size s) \<rparr>))"

section \<open>The rejection loop ends\<close>

definition valid_tick :: "u8 \<Rightarrow> bool" where
  "valid_tick t \<longleftrightarrow> 1 \<le> unat t \<and> unat t \<le> 64"

text \<open>What the generator promises: draws in range, and every value drawn again and again.\<close>

definition fair_rng :: "(nat \<Rightarrow> u8) \<Rightarrow> bool" where
  "fair_rng rng \<longleftrightarrow> (\<forall>p. valid_tick (rng p)) \<and> (\<forall>p t. valid_tick t \<longrightarrow> (\<exists>q \<ge> p. rng q = t))"

lemma unused_tick:
  assumes "distinct picked" "length picked < 64"
  obtains t where "valid_tick t" "t \<notin> set picked"
proof -
  have "card (unat ` set picked) < 64"
    using assms card_image_le [of "set picked" unat] distinct_card [OF assms(1)] by simp
  then have "\<not> {1..64} \<subseteq> unat ` set picked"
    using card_mono [of "unat ` set picked" "{1..64}"] by auto
  then obtain n where n: "n \<in> {1..64}" "n \<notin> unat ` set picked" by blast
  then have "unat (of_nat n :: u8) = n" by (simp add: unat_of_nat)
  with n that [of "of_nat n"] show ?thesis by (force simp: valid_tick_def)
qed

lemma pick_ticks_skip:
  "(\<And>j. j < k \<Longrightarrow> rng (pos + j) \<in> set picked) \<Longrightarrow> length picked < need \<Longrightarrow> length picked < 64 \<Longrightarrow>
    pick_ticks rng need pos picked = pick_ticks rng need (pos + k) picked"
proof (induction k arbitrary: pos)
  case (Suc k)
  have "rng pos \<in> set picked" using Suc.prems(1) [of 0] by simp
  then have "pick_ticks rng need pos picked = pick_ticks rng need (Suc pos) picked"
    using Suc.prems(2,3) by (subst pick_ticks.simps) simp
  also have "\<dots> = pick_ticks rng need (Suc pos + k) picked"
  proof (rule Suc.IH)
    show "rng (Suc pos + j) \<in> set picked" if "j < k" for j
      using Suc.prems(1) [of "Suc j"] that by simp
  qed (use Suc.prems in auto)
  finally show ?case by simp
qed simp

definition picked_ok :: "nat \<Rightarrow> u8 list \<Rightarrow> bool" where
  "picked_ok n ticks \<longleftrightarrow> distinct ticks \<and> (\<forall>t \<in> set ticks. valid_tick t) \<and> length ticks = n"

lemma pick_ticks_ends:
  assumes "fair_rng rng"
  shows "picked_ok n picked \<Longrightarrow> n \<le> min need 64 \<Longrightarrow>
    \<exists>ticks pos'. pick_ticks rng need pos picked = Some (ticks, pos') \<and> picked_ok (min need 64) ticks"
proof (induction "min need 64 - n" arbitrary: n picked pos)
  case 0
  then have "\<not> (length picked < need \<and> length picked < 64)" "n = min need 64" by (auto simp: picked_ok_def)
  then show ?case using "0.prems" by (subst pick_ticks.simps) auto
next
  case (Suc d)
  have len: "length picked = n" "distinct picked" using Suc.prems by (auto simp: picked_ok_def)
  have more: "n < need" "n < 64" using Suc.hyps(2) by auto
  obtain t where t: "valid_tick t" "t \<notin> set picked" using unused_tick [of picked] len more by auto
  then obtain q where "q \<ge> pos" "rng q = t" using assms unfolding fair_rng_def by blast
  then have ex: "\<exists>k. rng (pos + k) \<notin> set picked" using t by (metis le_add_diff_inverse)
  define k where "k = (LEAST k. rng (pos + k) \<notin> set picked)"
  have k: "rng (pos + k) \<notin> set picked" "\<And>j. j < k \<Longrightarrow> rng (pos + j) \<in> set picked"
    using LeastI_ex [OF ex] not_less_Least by (auto simp: k_def)
  let ?p = "picked @ [rng (pos + k)]"
  have "picked_ok (Suc n) ?p"
    using Suc.prems k(1) assms by (auto simp: picked_ok_def fair_rng_def)
  moreover have "d = min need 64 - Suc n" "Suc n \<le> min need 64" using Suc.hyps(2) more by auto
  ultimately obtain ticks pos' where "pick_ticks rng need (Suc (pos + k)) ?p = Some (ticks, pos')"
    "picked_ok (min need 64) ticks" using Suc.hyps(1) by blast
  moreover have "pick_ticks rng need pos picked = pick_ticks rng need (pos + k) picked"
    by (rule pick_ticks_skip) (use k(2) len more in auto)
  moreover have "pick_ticks rng need (pos + k) picked = pick_ticks rng need (Suc (pos + k)) ?p"
    using k(1) len more by (subst pick_ticks.simps) simp
  ultimately show ?case by auto
qed

section \<open>Chunks\<close>

lemma gen_slots_ends:
  assumes "fair_rng rng"
  shows "\<exists>ticks pos'. length ticks = length offsets \<and> (\<forall>ts \<in> set ticks. picked_ok (min need 64) ts) \<and>
    gen_slots rng need next_slot offsets pos =
      Some (concat (map (\<lambda>(o', ts). map (\<lambda>t. \<lparr> se_slot = next_slot + of_nat o', se_tick = t \<rparr>) ts)
        (zip offsets ticks)), pos')"
proof (induction offsets arbitrary: pos)
  case (Cons off offsets)
  have "picked_ok 0 []" by (simp add: picked_ok_def)
  from pick_ticks_ends [OF assms this, of need pos]
  obtain ts p where ts: "pick_ticks rng need pos [] = Some (ts, p)" "picked_ok (min need 64) ts" by auto
  obtain ticks pos' where "length ticks = length offsets" "\<forall>ts \<in> set ticks. picked_ok (min need 64) ts"
    "gen_slots rng need next_slot offsets p =
      Some (concat (map (\<lambda>(o', ts). map (\<lambda>t. \<lparr> se_slot = next_slot + of_nat o', se_tick = t \<rparr>) ts)
        (zip offsets ticks)), pos')"
    using Cons [of p] by blast
  then show ?case using ts by (intro exI [of _ "ts # ticks"] exI [of _ pos']) simp
qed simp

text \<open>With a generator that draws every tick again and again, the rejection loops end, and a
  chunk holds, for each of its consecutive slots in order, the configured number of distinct ticks
  in \<open>1..64\<close> (64 when more are configured); the next chunk starts right behind it.\<close>
theorem next_chunk_complete:
  assumes "fair_rng (sch_rng s)"
  shows "\<exists>ticks s'. next_chunk s = Some (concat (map (\<lambda>(o', ts).
      map (\<lambda>t. \<lparr> se_slot = sch_next_slot s + of_nat o', se_tick = t \<rparr>) ts)
        (zip [0..<unat (sch_chunk_size s)] ticks)), s') \<and>
    length ticks = unat (sch_chunk_size s) \<and>
    set ticks \<subseteq> {ts. distinct ts \<and> set ts \<subseteq> {t. valid_tick t} \<and>
      length ts = min (unat (sch_triggers_per_slot s)) 64} \<and>
    sch_next_slot s' = saturating_add (sch_next_slot s) (sch_chunk_size s)"
proof -
  obtain ticks pos' where g: "length ticks = unat (sch_chunk_size s)"
    "\<forall>ts \<in> set ticks. picked_ok (min (unat (sch_triggers_per_slot s)) 64) ts"
    "gen_slots (sch_rng s) (unat (sch_triggers_per_slot s)) (sch_next_slot s) [0..<unat (sch_chunk_size s)] (sch_pos s) =
      Some (concat (map (\<lambda>(o', ts). map (\<lambda>t. \<lparr> se_slot = sch_next_slot s + of_nat o', se_tick = t \<rparr>) ts)
        (zip [0..<unat (sch_chunk_size s)] ticks)), pos')"
    using gen_slots_ends [OF assms, of "[0..<unat (sch_chunk_size s)]" "unat (sch_triggers_per_slot s)"
        "sch_next_slot s" "sch_pos s"] by auto
  then show ?thesis
    by (intro exI [of _ ticks] exI) (auto simp: next_chunk_def picked_ok_def)
qed

text \<open>A fair generator: the ticks in turn.\<close>

definition cycling_rng :: "nat \<Rightarrow> u8" where "cycling_rng p = of_nat (p mod 64 + 1)"

lemma unat_cycling_rng: "unat (cycling_rng p) = p mod 64 + 1"
proof -
  have "p mod 64 + 1 < 256" using mod_less_divisor [of 64 p] by linarith
  then show ?thesis unfolding cycling_rng_def by (simp add: unat_of_nat del: of_nat_add of_nat_Suc)
qed

lemma cycling_rng_fair: "fair_rng cycling_rng"
  unfolding fair_rng_def
proof (intro conjI allI impI)
  show "valid_tick (cycling_rng p)" for p
    using mod_less_divisor [of 64 p] by (simp add: valid_tick_def unat_cycling_rng)
  fix p :: nat and t assume t: "valid_tick t"
  obtain x where x: "unat t = Suc x" "x < 64" using t by (cases "unat t") (auto simp: valid_tick_def)
  have "unat (cycling_rng (64 * p + x)) = unat t" using x by (simp add: unat_cycling_rng)
  moreover have "64 * p + x \<ge> p" by simp
  ultimately show "\<exists>q \<ge> p. cycling_rng q = t" by (metis word_unat_eq_iff)
qed

lemma next_chunk_complete_witness:
  "next_chunk (schedule_new (\<lambda>_. cycling_rng) 0 None 100 2 1) \<noteq> None"
  using next_chunk_complete [of "schedule_new (\<lambda>_. cycling_rng) 0 None 100 2 1"] cycling_rng_fair
  by (auto simp: schedule_new_def)

end
