(* ===== verification/Blockhash_Cache.thy ===== *)
theory Blockhash_Cache
  imports Prelude
begin

text \<open>
  \<open>crates/tick-trigger-fan-out-bench/src/blockhash_cache.rs\<close>: the cache of the latest blockhash
  and the thread that refreshes it. The RPC client is external: a turn of the thread carries the
  answer it would get, the value of the stop flag, and the clocks it reads.
\<close>

record blockhash_cache =
  bc_inner :: hash
  bc_last_refresh_ns :: u64
  bc_refresh_errors :: u64

definition bc_empty :: blockhash_cache where
  "bc_empty = \<lparr> bc_inner = 0, bc_last_refresh_ns = 0, bc_refresh_errors = 0 \<rparr>"

definition current :: "blockhash_cache \<Rightarrow> hash" where
  "current c = bc_inner c"

definition bc_is_empty :: "blockhash_cache \<Rightarrow> bool" where
  "bc_is_empty c \<longleftrightarrow> bc_last_refresh_ns c = 0"

text \<open>\<open>SystemTime\<close> may be before the epoch, then the stamp is 0.\<close>

definition update_last_refresh :: "nat option \<Rightarrow> u64" where
  "update_last_refresh now_ns = (case now_ns of Some ns \<Rightarrow> of_nat ns | None \<Rightarrow> 0)"

record refresh_turn =
  rt_stop :: bool
  rt_now :: instant
  rt_answer :: "hash option"
  rt_system_ns :: "nat option"

datatype refresh_phase = Priming duration | Steady instant | Exited

record refresher =
  rf_cache :: blockhash_cache
  rf_phase :: refresh_phase
  rf_slept :: duration

definition refresher_init :: refresher where
  "refresher_init = \<lparr> rf_cache = bc_empty, rf_phase = Priming 200000000, rf_slept = 0 \<rparr>"

definition store_answer :: "refresh_turn \<Rightarrow> hash \<Rightarrow> blockhash_cache \<Rightarrow> blockhash_cache" where
  "store_answer t h c = c\<lparr>bc_inner := h, bc_last_refresh_ns := update_last_refresh (rt_system_ns t)\<rparr>"

definition count_error :: "blockhash_cache \<Rightarrow> blockhash_cache" where
  "count_error c = c\<lparr>bc_refresh_errors := bc_refresh_errors c + 1\<rparr>"

text \<open>One iteration of the priming loop or of the steady loop. \<open>rf_slept\<close> is the time it sleeps.\<close>

definition refresh_step :: "duration \<Rightarrow> refresh_turn \<Rightarrow> refresher \<Rightarrow> refresher" where
  "refresh_step interval t r = (case rf_phase r of
     Exited \<Rightarrow> r
   | Priming backoff \<Rightarrow>
       if rt_stop t then r\<lparr>rf_phase := Exited, rf_slept := 0\<rparr>
       else (case rt_answer t of
         Some h \<Rightarrow> r\<lparr>rf_cache := store_answer t h (rf_cache r), rf_phase := Steady (rt_now t + interval), rf_slept := 0\<rparr>
       | None \<Rightarrow> r\<lparr>rf_cache := count_error (rf_cache r), rf_phase := Priming (min (backoff * 2) 5000000000),
                  rf_slept := backoff\<rparr>)
   | Steady next_at \<Rightarrow>
       if rt_stop t then r\<lparr>rf_phase := Exited, rf_slept := 0\<rparr>
       else if rt_now t < next_at then r\<lparr>rf_slept := min (next_at - rt_now t) 200000000\<rparr>
       else (case rt_answer t of
         Some h \<Rightarrow> r\<lparr>rf_cache := store_answer t h (rf_cache r), rf_phase := Steady (rt_now t + interval), rf_slept := 0\<rparr>
       | None \<Rightarrow> r\<lparr>rf_cache := count_error (rf_cache r), rf_phase := Steady (rt_now t + interval), rf_slept := 0\<rparr>))"

definition refresh_run :: "duration \<Rightarrow> refresh_turn list \<Rightarrow> refresher \<Rightarrow> refresher" where
  "refresh_run interval ts r = fold (refresh_step interval) ts r"

text \<open>Whether a turn asks the RPC, and what was answered over a run.\<close>

definition asks :: "refresher \<Rightarrow> refresh_turn \<Rightarrow> bool" where
  "asks r t \<longleftrightarrow> \<not> rt_stop t \<and> (case rf_phase r of Exited \<Rightarrow> False | Priming b \<Rightarrow> True | Steady n \<Rightarrow> n \<le> rt_now t)"

fun answers :: "duration \<Rightarrow> refresh_turn list \<Rightarrow> refresher \<Rightarrow> hash option list" where
  "answers interval [] r = []"
| "answers interval (t # ts) r =
    (if asks r t then [rt_answer t] else []) @ answers interval ts (refresh_step interval t r)"

definition latest :: "hash \<Rightarrow> hash option list \<Rightarrow> hash" where
  "latest d xs = (case rev (filter (\<lambda>x. x \<noteq> None) xs) of Some h # _ \<Rightarrow> h | _ \<Rightarrow> d)"

lemma latest_simps: "latest d [] = d" "latest d (None # xs) = latest d xs" "latest d (Some h # xs) = latest h xs"
proof -
  have l: "latest d xs = (if filter (\<lambda>x. x \<noteq> None) xs = [] then d else the (last (filter (\<lambda>x. x \<noteq> None) xs)))" for d xs
  proof (cases "filter (\<lambda>x. x \<noteq> None) xs" rule: rev_cases)
    case (snoc ys y)
    then have "y \<in> set (filter (\<lambda>x. x \<noteq> None) xs)" by (metis in_set_conv_decomp)
    then show ?thesis using snoc by (auto simp: latest_def)
  qed (simp add: latest_def)
  show "latest d [] = d" "latest d (None # xs) = latest d xs" "latest d (Some h # xs) = latest h xs"
    by (simp_all add: l)
qed

lemma refresh_step_cache:
  "bc_inner (rf_cache (refresh_step interval t r)) =
    (if asks r t then latest (bc_inner (rf_cache r)) [rt_answer t] else bc_inner (rf_cache r))"
  "bc_refresh_errors (rf_cache (refresh_step interval t r)) = bc_refresh_errors (rf_cache r) +
    (if asks r t \<and> rt_answer t = None then 1 else 0)"
  by (auto simp: refresh_step_def asks_def store_answer_def count_error_def latest_simps
      split: refresh_phase.split option.split)

lemma refresh_run_cache:
  "current (rf_cache (refresh_run interval ts r)) = latest (current (rf_cache r)) (answers interval ts r) \<and>
   bc_refresh_errors (rf_cache (refresh_run interval ts r)) =
     bc_refresh_errors (rf_cache r) + of_nat (length (filter (\<lambda>x. x = None) (answers interval ts r)))"
proof (induction ts arbitrary: r)
  case (Cons t ts)
  show ?case
    using Cons.IH [of "refresh_step interval t r"]
    by (cases "rt_answer t") (simp_all add: refresh_run_def current_def refresh_step_cache latest_simps)
qed (simp add: refresh_run_def latest_simps)

text \<open>The cache holds the blockhash of the last successful fetch, whatever fetches failed since
  (an error keeps the previous hash and is counted), and the default hash before the first.\<close>
theorem blockhash_is_latest:
  "current (rf_cache (refresh_run interval ts refresher_init)) = latest 0 (answers interval ts refresher_init) \<and>
   bc_refresh_errors (rf_cache (refresh_run interval ts refresher_init)) =
     of_nat (length (filter (\<lambda>x. x = None) (answers interval ts refresher_init)))"
  using refresh_run_cache [of interval ts refresher_init] by (simp add: refresher_init_def bc_empty_def current_def)

text \<open>The backoff doubles up to five seconds, so a retry is never further away.\<close>

lemma backoff_bounded:
  "(case rf_phase r of Priming b \<Rightarrow> b \<le> 5000000000 | _ \<Rightarrow> True) \<Longrightarrow> rf_slept r \<le> 5000000000 \<Longrightarrow>
   (case rf_phase (refresh_step interval t r) of Priming b \<Rightarrow> b \<le> 5000000000 | _ \<Rightarrow> True) \<and>
   rf_slept (refresh_step interval t r) \<le> 5000000000"
  by (auto simp: refresh_step_def split: refresh_phase.splits option.splits)

end
