(* ===== verification/Trigger_Engine.thy ===== *)
theory Trigger_Engine
  imports Poh_Supervisor Slot_Hash_Cache
begin

text \<open>
  \<open>crates/tick-trigger-fan-out-bench/src/trigger_engine.rs\<close>: the consumer of the ordered
  stream. An \<open>Entry\<close> at a scheduled (slot, tick) fires a trigger once, the signatures it
  carries are matched against the pending ones, and its hash goes to the nonce cache. The
  schedule snapshot an event sees is part of the turn, \<open>AddPending\<close> is the insertion of a
  signature by the dispatcher, which shares the set.
\<close>

section \<open>Data\<close>

type_synonym trigger_id = u64

definition from_slot_tick :: "u64 \<Rightarrow> u8 \<Rightarrow> trigger_id" where
  "from_slot_tick slot tick = or (push_bit 8 slot) (ucast tick)"

record trigger_event =
  tr_trigger_id :: trigger_id
  tr_slot :: u64
  tr_tick :: u8
  tr_observed_at :: instant
  tr_tick_uncertain :: bool

record match_event =
  mt_signature :: signature
  mt_observed_at :: instant
  mt_observed_slot :: u64
  mt_observed_entry_index :: u32
  mt_observed_tick :: u8
  mt_observed_source :: source_kind

record engine_counters =
  ec_entries_seen :: u64
  ec_schedule_hits :: u64
  ec_trigger_tx_full :: u64
  ec_schedule_duplicate_suppressed :: u64
  ec_triggers_with_uncertain_tick :: u64
  ec_sig_lookups :: u64
  ec_sig_hits :: u64
  ec_match_tx_full :: u64

definition engine_counters_default :: engine_counters where
  "engine_counters_default = \<lparr> ec_entries_seen = 0, ec_schedule_hits = 0, ec_trigger_tx_full = 0,
     ec_schedule_duplicate_suppressed = 0, ec_triggers_with_uncertain_tick = 0, ec_sig_lookups = 0,
     ec_sig_hits = 0, ec_match_tx_full = 0 \<rparr>"

text \<open>The variables of \<open>run_loop\<close>, the shared set of pending signatures, the optional nonce
  cache, and the logs of the two output channels.\<close>

record engine =
  en_fired :: "(u64 \<times> u8) set"
  en_last_compact_slot :: u64
  en_pending_sigs :: "signature set"
  en_nonce_cache :: "slot_hash_cache option"
  en_counters :: engine_counters
  en_trigger_tx :: "trigger_event chan"
  en_match_tx :: "match_event chan"

definition engine_init :: "slot_hash_cache option \<Rightarrow> engine" where
  "engine_init cache = \<lparr> en_fired = {}, en_last_compact_slot = 0, en_pending_sigs = {},
     en_nonce_cache = cache, en_counters = engine_counters_default, en_trigger_tx = [],
     en_match_tx = [] \<rparr>"

section \<open>Steps\<close>

definition feed_cache :: "u64 \<Rightarrow> hash \<Rightarrow> engine \<Rightarrow> engine" where
  "feed_cache slot h en = en\<lparr>en_nonce_cache := map_option (record_entry slot h) (en_nonce_cache en)\<rparr>"

text \<open>The match on slot lifecycle events in front of the \<open>Entry\<close> handling.\<close>

fun slot_lifecycle :: "ordered_event \<Rightarrow> engine \<Rightarrow> engine" where
  "slot_lifecycle (SlotComplete c) en = feed_cache (osc_slot c) (osc_last_entry_hash c) en"
| "slot_lifecycle (SlotIncomplete i) en = feed_cache (osi_slot i) (osi_last_entry_hash i) en"
| "slot_lifecycle ev en = en"

definition fire_trigger :: "trigger_event accept \<Rightarrow> instant \<Rightarrow> ordered_entry \<Rightarrow> engine \<Rightarrow> engine" where
  "fire_trigger tacc now e en =
    (let key = (oe_slot e, oe_tick_idx_in_slot e); c = en_counters en;
         c1 = c\<lparr>ec_schedule_hits := ec_schedule_hits c + 1\<rparr>;
         c2 = (if oe_tick_uncertain e
           then c1\<lparr>ec_triggers_with_uncertain_tick := ec_triggers_with_uncertain_tick c1 + 1\<rparr> else c1);
         trig = \<lparr> tr_trigger_id = from_slot_tick (oe_slot e) (oe_tick_idx_in_slot e),
           tr_slot = oe_slot e, tr_tick = oe_tick_idx_in_slot e, tr_observed_at = now,
           tr_tick_uncertain = oe_tick_uncertain e \<rparr>;
         (tx, ok) = try_send tacc (en_trigger_tx en) trig
     in en\<lparr> en_fired := insert key (en_fired en),
            en_counters := (if ok then c2 else c2\<lparr>ec_trigger_tx_full := ec_trigger_tx_full c2 + 1\<rparr>),
            en_trigger_tx := tx \<rparr>)"

definition schedule_check ::
  "trigger_event accept \<Rightarrow> (u64 \<times> u8) set \<Rightarrow> instant \<Rightarrow> ordered_entry \<Rightarrow> engine \<Rightarrow> engine" where
  "schedule_check tacc sched now e en =
    (let key = (oe_slot e, oe_tick_idx_in_slot e); c = en_counters en
     in if oe_tick_idx_in_slot e > 0 \<and> key \<in> sched then
          if key \<notin> en_fired en then fire_trigger tacc now e en
          else en\<lparr>en_counters := c\<lparr>ec_schedule_duplicate_suppressed := ec_schedule_duplicate_suppressed c + 1\<rparr>\<rparr>
        else en)"

definition match_sig :: "match_event accept \<Rightarrow> ordered_entry \<Rightarrow> signature \<times> instant \<Rightarrow> engine \<Rightarrow> engine" where
  "match_sig macc e st en =
    (let (sig, now) = st; c = en_counters en; c1 = c\<lparr>ec_sig_lookups := ec_sig_lookups c + 1\<rparr>
     in if sig \<in> en_pending_sigs en then
          let c2 = c1\<lparr>ec_sig_hits := ec_sig_hits c1 + 1\<rparr>;
              m = \<lparr> mt_signature = sig, mt_observed_at = now, mt_observed_slot = oe_slot e,
                mt_observed_entry_index = oe_entry_index e, mt_observed_tick = oe_tick_idx_in_slot e,
                mt_observed_source = obs_source (oe_observation e) \<rparr>;
              (tx, ok) = try_send macc (en_match_tx en) m
          in en\<lparr> en_pending_sigs := en_pending_sigs en - {sig},
                 en_counters := (if ok then c2 else c2\<lparr>ec_match_tx_full := ec_match_tx_full c2 + 1\<rparr>),
                 en_match_tx := tx \<rparr>
        else en\<lparr>en_counters := c1\<rparr>)"

definition compact_fired :: "u64 \<Rightarrow> engine \<Rightarrow> engine" where
  "compact_fired slot en =
    (if slot > en_last_compact_slot en + 256
     then en\<lparr> en_last_compact_slot := slot,
              en_fired := {k \<in> en_fired en. fst k \<ge> saturating_sub slot 256} \<rparr>
     else en)"

text \<open>The handling of one \<open>Entry\<close>; \<open>mnow i\<close> is the clock at its \<open>i\<close>-th signature.\<close>

definition entry_step_engine ::
  "trigger_event accept \<Rightarrow> match_event accept \<Rightarrow> (u64 \<times> u8) set \<Rightarrow> instant \<Rightarrow> (nat \<Rightarrow> instant) \<Rightarrow>
    ordered_entry \<Rightarrow> engine \<Rightarrow> engine" where
  "entry_step_engine tacc macc sched now mnow e en =
    (let c = en_counters en;
         en1 = en\<lparr>en_counters := c\<lparr>ec_entries_seen := ec_entries_seen c + 1\<rparr>\<rparr>;
         en2 = feed_cache (oe_slot e) (obs_entry_hash (oe_observation e)) en1;
         en3 = schedule_check tacc sched now e en2;
         sigs = obs_signatures (oe_observation e);
         en4 = fold (match_sig macc e) (zip sigs (map mnow [0..<length sigs])) en3
     in compact_fired (oe_slot e) en4)"

datatype engine_turn =
  Ordered ordered_event "(u64 \<times> u8) set" instant "nat \<Rightarrow> instant" | AddPending signature
| RecvTimeout | EngineDisconnected | EngineStopped

fun handle_event ::
  "trigger_event accept \<Rightarrow> match_event accept \<Rightarrow> ordered_event \<Rightarrow> (u64 \<times> u8) set \<Rightarrow> instant \<Rightarrow>
    (nat \<Rightarrow> instant) \<Rightarrow> engine \<Rightarrow> engine" where
  "handle_event tacc macc (Entry e) sched now mnow en = entry_step_engine tacc macc sched now mnow e en"
| "handle_event tacc macc ev sched now mnow en = slot_lifecycle ev en"

fun engine_loop :: "trigger_event accept \<Rightarrow> match_event accept \<Rightarrow> engine_turn list \<Rightarrow> engine \<Rightarrow> engine" where
  "engine_loop tacc macc [] en = en"
| "engine_loop tacc macc (EngineStopped # ts) en = en"
| "engine_loop tacc macc (EngineDisconnected # ts) en = en"
| "engine_loop tacc macc (RecvTimeout # ts) en = engine_loop tacc macc ts en"
| "engine_loop tacc macc (AddPending sig # ts) en =
     engine_loop tacc macc ts (en\<lparr>en_pending_sigs := insert sig (en_pending_sigs en)\<rparr>)"
| "engine_loop tacc macc (Ordered ev sched now mnow # ts) en =
     engine_loop tacc macc ts (handle_event tacc macc ev sched now mnow en)"

section \<open>Trigger identifiers\<close>

lemma bit_from_slot_tick:
  "bit (from_slot_tick s t) n \<longleftrightarrow> n < 64 \<and> (if n < 8 then bit t n else bit s (n - 8))"
  by (auto simp: from_slot_tick_def bit_simps dest: bit_imp_le_length)

text \<open>Trigger ids identify (slot, tick) up to bit 56 of the slot: two ids are equal iff the ticks
  are and the slots agree modulo \<open>2^56\<close>.\<close>
lemma from_slot_tick_eq:
  "from_slot_tick s t = from_slot_tick s' t' \<longleftrightarrow> t = t' \<and> take_bit 56 s = take_bit 56 s'"
proof
  assume eq: "from_slot_tick s t = from_slot_tick s' t'"
  have b: "n < 64 \<Longrightarrow> (if n < 8 then bit t n else bit s (n - 8)) = (if n < 8 then bit t' n else bit s' (n - 8))" for n
    using arg_cong [OF eq, of "\<lambda>w. bit w n"] by (simp only: bit_from_slot_tick) simp
  have "bit t n = bit t' n" if "n < 8" for n using b [of n] that by simp
  moreover have "bit s n = bit s' n" if "n < 56" for n using b [of "n + 8"] that by simp
  ultimately show "t = t' \<and> take_bit 56 s = take_bit 56 s'"
    by (auto intro!: bit_word_eqI simp: bit_take_bit_iff)
next
  assume a: "t = t' \<and> take_bit 56 s = take_bit 56 s'"
  have "bit s n = bit s' n" if "n < 56" for n
    using arg_cong [of _ _ "\<lambda>w. bit w n", OF conjunct2 [OF a]] that by (simp add: bit_take_bit_iff)
  then show "from_slot_tick s t = from_slot_tick s' t'"
    using a by (intro bit_word_eqI) (auto simp: bit_from_slot_tick)
qed

section \<open>Firing\<close>

text \<open>Triggers fired for a key, and whether an event of a turn list asks for it.\<close>

definition fired_for :: "u64 \<times> u8 \<Rightarrow> engine \<Rightarrow> trigger_event list" where
  "fired_for k en = filter (\<lambda>t. (tr_slot t, tr_tick t) = k) (attempts (en_trigger_tx en))"

fun turns_handled :: "engine_turn list \<Rightarrow> engine_turn list" where
  "turns_handled [] = []"
| "turns_handled (EngineStopped # ts) = []"
| "turns_handled (EngineDisconnected # ts) = []"
| "turns_handled (t # ts) = t # turns_handled ts"

fun asks_for :: "u64 \<times> u8 \<Rightarrow> engine_turn \<Rightarrow> bool" where
  "asks_for k (Ordered (Entry e) sched now mnow) \<longleftrightarrow>
     oe_tick_idx_in_slot e > 0 \<and> (oe_slot e, oe_tick_idx_in_slot e) = k \<and> k \<in> sched"
| "asks_for k t = False"

fun turn_slots :: "engine_turn \<Rightarrow> u64 set" where
  "turn_slots (Ordered (Entry e) sched now mnow) = {oe_slot e}" | "turn_slots t = {}"

lemma fold_match_sig_fields:
  "en_fired (fold (match_sig macc e) sts en) = en_fired en"
  "en_last_compact_slot (fold (match_sig macc e) sts en) = en_last_compact_slot en"
  "en_trigger_tx (fold (match_sig macc e) sts en) = en_trigger_tx en"
  "en_nonce_cache (fold (match_sig macc e) sts en) = en_nonce_cache en"
  by (induction sts arbitrary: en) (auto simp: match_sig_def Let_def case_prod_beta)

lemma feed_cache_fields [simp]:
  "en_fired (feed_cache s h en) = en_fired en"
  "en_last_compact_slot (feed_cache s h en) = en_last_compact_slot en"
  "en_trigger_tx (feed_cache s h en) = en_trigger_tx en"
  "en_match_tx (feed_cache s h en) = en_match_tx en"
  "en_pending_sigs (feed_cache s h en) = en_pending_sigs en"
  "en_counters (feed_cache s h en) = en_counters en"
  by (simp_all add: feed_cache_def)

text \<open>What one entry does for a key of a slot that is at most 256 behind.\<close>

definition once_ok :: "u64 \<times> u8 \<Rightarrow> bool \<Rightarrow> engine \<Rightarrow> bool" where
  "once_ok k asked en \<longleftrightarrow> (k \<in> en_fired en) = asked \<and> length (fired_for k en) = (if asked then 1 else 0)"

lemma entry_once:
  assumes "once_ok k asked en" "unat (oe_slot e) \<le> unat (fst k) + 256"
  shows "once_ok k (asked \<or> asks_for k (Ordered (Entry e) sched now mnow))
    (entry_step_engine tacc macc sched now mnow e en)"
proof -
  let ?key = "(oe_slot e, oe_tick_idx_in_slot e)"
  let ?en1 = "en\<lparr>en_counters := (en_counters en)\<lparr>ec_entries_seen := ec_entries_seen (en_counters en) + 1\<rparr>\<rparr>"
  let ?en2 = "feed_cache (oe_slot e) (obs_entry_hash (oe_observation e)) ?en1"
  have 2: "once_ok k asked ?en2" using assms(1) by (simp add: once_ok_def fired_for_def)
  have 3: "once_ok k (asked \<or> asks_for k (Ordered (Entry e) sched now mnow)) (schedule_check tacc sched now e ?en2)"
    using 2 by (auto simp: once_ok_def fired_for_def schedule_check_def fire_trigger_def try_send_def Let_def)
  have keep: "once_ok k a (compact_fired (oe_slot e) en')" if "once_ok k a en'" for a en'
    using that assms(2) by (auto simp: once_ok_def fired_for_def compact_fired_def word_le_nat_alt)
  show ?thesis
    unfolding entry_step_engine_def Let_def
    by (rule keep) (use 3 in \<open>simp add: once_ok_def fired_for_def fold_match_sig_fields\<close>)
qed

lemma handle_event_other:
  "\<nexists>e. ev = Entry e \<Longrightarrow> once_ok k a (handle_event tacc macc ev sched now mnow en) = once_ok k a en"
  by (cases ev) (simp_all add: once_ok_def fired_for_def)

lemma engine_once:
  "once_ok k asked en \<Longrightarrow> \<Union> (turn_slots ` set (turns_handled ts)) \<subseteq> {s. unat s \<le> unat (fst k) + 256} \<Longrightarrow>
    once_ok k (asked \<or> filter (asks_for k) (turns_handled ts) \<noteq> []) (engine_loop tacc macc ts en)"
proof (induction tacc macc ts en arbitrary: asked rule: engine_loop.induct)
  case (6 tacc macc ev sched now mnow ts en)
  show ?case
  proof (cases "\<exists>e. ev = Entry e")
    case True
    then obtain e where ev: "ev = Entry e" by blast
    have "once_ok k (asked \<or> asks_for k (Ordered (Entry e) sched now mnow))
        (handle_event tacc macc ev sched now mnow en)"
      using entry_once [OF "6.prems"(1), of e] "6.prems"(2) by (simp add: ev)
    from "6.IH" [OF this] "6.prems"(2) show ?thesis
      by (cases "asks_for k (Ordered ev sched now mnow)")
        (simp_all add: ev disj_assoc del: asks_for.simps handle_event.simps)
  next
    case False
    then have "\<not> asks_for k (Ordered ev sched now mnow)" by (cases ev) auto
    moreover have "once_ok k asked (handle_event tacc macc ev sched now mnow en)"
      using 6 False handle_event_other [of ev] by simp
    ultimately show ?thesis using "6.IH" "6.prems"(2) by simp
  qed
qed (simp_all add: once_ok_def fired_for_def)

text \<open>C4: A scheduled (slot, tick) is offered downstream exactly once if an entry shows it while it
  is scheduled, and not at all otherwise, however often the tick is seen, as long as no entry
  is more than 256 slots ahead.\<close>
theorem trigger_fires_once:
  assumes "\<Union> (turn_slots ` set (turns_handled ts)) \<subseteq> {s'. unat s' \<le> unat s + 256}"
  shows "length (fired_for (s, t) (engine_loop tacc macc ts (engine_init cache))) =
    (if filter (asks_for (s, t)) (turns_handled ts) \<noteq> [] then 1 else 0)"
proof -
  have "once_ok (s, t) False (engine_init cache)"
    by (simp add: once_ok_def fired_for_def engine_init_def)
  from engine_once [OF this, of ts] assms show ?thesis by (simp add: once_ok_def)
qed

definition demo_entry :: "u64 \<Rightarrow> u32 \<Rightarrow> u8 \<Rightarrow> signature list \<Rightarrow> ordered_event" where
  "demo_entry s i t sigs = Entry \<lparr> oe_slot = s, oe_entry_index = i, oe_tick_idx_in_slot = t,
     oe_cumulative_hashes_in_slot = 0, oe_observation = (demo_obs s i 7 1)\<lparr>obs_signatures := sigs\<rparr>,
     oe_was_reordered = False, oe_wait_duration_us = 0, oe_tick_uncertain = False \<rparr>"

lemma trigger_fires_once_witness:
  "length (fired_for (100, 3) (engine_loop (\<lambda>_ _. True) (\<lambda>_ _. True)
     [Ordered (demo_entry 100 0 3 []) {(100, 3)} 0 (\<lambda>_. 0), Ordered (demo_entry 100 1 3 []) {(100, 3)} 1 (\<lambda>_. 0)]
     (engine_init None))) = 1"
  using trigger_fires_once [of "[Ordered (demo_entry 100 0 3 []) {(100, 3)} 0 (\<lambda>_. 0),
      Ordered (demo_entry 100 1 3 []) {(100, 3)} 1 (\<lambda>_. 0)]" 100 3]
  by (simp add: demo_entry_def)

section \<open>Matching\<close>

text \<open>The signatures of an entry that are pending, each at its first occurrence.\<close>

fun hits :: "signature set \<Rightarrow> signature list \<Rightarrow> signature list" where
  "hits P [] = []"
| "hits P (x # xs) = (if x \<in> P then x # hits (P - {x}) xs else hits P xs)"

lemma set_hits: "set (hits P xs) = P \<inter> set xs" "distinct (hits P xs)"
proof -
  show "set (hits P xs) = P \<inter> set xs" by (induction P xs rule: hits.induct) auto
  show "distinct (hits P xs)"
  proof (induction P xs rule: hits.induct)
    case (2 P x xs)
    have "set (hits Q xs) \<subseteq> Q" for Q by (induction Q xs rule: hits.induct) auto
    with 2 show ?case by auto
  qed simp
qed

lemma match_fold:
  "map mt_signature (attempts (en_match_tx (fold (match_sig macc e) sts en))) =
     map mt_signature (attempts (en_match_tx en)) @ hits (en_pending_sigs en) (map fst sts) \<and>
   en_pending_sigs (fold (match_sig macc e) sts en) = en_pending_sigs en - set (map fst sts)"
proof (induction sts arbitrary: en)
  case (Cons st sts)
  show ?case
    by (simp add: Cons) (auto simp: match_sig_def Let_def case_prod_beta)
qed simp

lemma schedule_check_fields [simp]:
  "en_match_tx (schedule_check tacc sched now e en) = en_match_tx en"
  "en_pending_sigs (schedule_check tacc sched now e en) = en_pending_sigs en"
  "en_nonce_cache (schedule_check tacc sched now e en) = en_nonce_cache en"
  by (simp_all add: schedule_check_def fire_trigger_def Let_def case_prod_beta)

lemma compact_fired_fields [simp]:
  "en_match_tx (compact_fired s en) = en_match_tx en"
  "en_pending_sigs (compact_fired s en) = en_pending_sigs en"
  "en_trigger_tx (compact_fired s en) = en_trigger_tx en"
  "en_nonce_cache (compact_fired s en) = en_nonce_cache en"
  "en_counters (compact_fired s en) = en_counters en"
  by (simp_all add: compact_fired_def)

lemma entry_matches:
  "map mt_signature (attempts (en_match_tx (entry_step_engine tacc macc sched now mnow e en))) =
     map mt_signature (attempts (en_match_tx en)) @
       hits (en_pending_sigs en) (obs_signatures (oe_observation e)) \<and>
   en_pending_sigs (entry_step_engine tacc macc sched now mnow e en) =
     en_pending_sigs en - set (obs_signatures (oe_observation e))"
proof -
  let ?sigs = "obs_signatures (oe_observation e)"
  have "map fst (zip ?sigs (map mnow [0..<length ?sigs])) = ?sigs" by simp
  then show ?thesis by (simp add: entry_step_engine_def Let_def match_fold)
qed

text \<open>An entry produces a match for every pending signature it carries, once, in the order of
  their first occurrence, and none of them stays pending; other pending signatures stay.\<close>
theorem entry_matches_pending:
  "\<exists>sigs. map mt_signature (attempts (en_match_tx (entry_step_engine tacc macc sched now mnow e en))) =
     map mt_signature (attempts (en_match_tx en)) @ sigs \<and>
   distinct sigs \<and> set sigs = en_pending_sigs en \<inter> set (obs_signatures (oe_observation e)) \<and>
   en_pending_sigs (entry_step_engine tacc macc sched now mnow e en) = en_pending_sigs en - set sigs"
  using entry_matches [of tacc macc sched now mnow e en] set_hits
  by (intro exI [of _ "hits (en_pending_sigs en) (obs_signatures (oe_observation e))"]) auto

text \<open>Matches of a signature never outnumber its insertions.\<close>

fun adds :: "signature \<Rightarrow> engine_turn list \<Rightarrow> nat" where
  "adds x [] = 0"
| "adds x (AddPending y # ts) = (if y = x then 1 else 0) + adds x ts"
| "adds x (t # ts) = adds x ts"

definition match_count :: "signature \<Rightarrow> engine \<Rightarrow> nat" where
  "match_count x en = length (filter (\<lambda>m. mt_signature m = x) (attempts (en_match_tx en)))"

definition live :: "signature \<Rightarrow> engine \<Rightarrow> nat" where
  "live x en = (if x \<in> en_pending_sigs en then 1 else 0)"

lemma match_count_sigs: "match_count x en = length (filter (\<lambda>y. y = x) (map mt_signature (attempts (en_match_tx en))))"
  by (simp add: match_count_def filter_map comp_def)

lemma count_hits: "length (filter (\<lambda>y. y = x) (hits P xs)) = (if x \<in> P \<and> x \<in> set xs then 1 else 0)"
  by (induction P xs rule: hits.induct) auto

lemma entry_live:
  "match_count x (entry_step_engine tacc macc sched now mnow e en) + live x (entry_step_engine tacc macc sched now mnow e en) =
    match_count x en + live x en"
  using entry_matches [of tacc macc sched now mnow e en]
  by (simp add: match_count_sigs live_def count_hits)

lemma handle_event_live:
  "match_count x (handle_event tacc macc ev sched now mnow en) + live x (handle_event tacc macc ev sched now mnow en) =
    match_count x en + live x en"
  using entry_live by (cases ev) (simp_all add: match_count_def live_def)

lemma engine_live:
  "match_count x (engine_loop tacc macc ts en) + live x (engine_loop tacc macc ts en) \<le>
    match_count x en + live x en + adds x (turns_handled ts)"
proof (induction tacc macc ts en rule: engine_loop.induct)
  case (5 tacc macc sig ts en)
  then show ?case by (auto simp: match_count_def live_def split: if_splits)
next
  case (6 tacc macc ev sched now mnow ts en)
  then show ?case using handle_event_live [of x tacc macc ev sched now mnow en] by simp
qed simp_all

text \<open>A signature is matched at most as often as it was inserted; with one insertion, at most
  once over the whole run.\<close>
theorem matches_bounded:
  "match_count x (engine_loop tacc macc ts (engine_init cache)) \<le> adds x (turns_handled ts)"
  using engine_live [of x tacc macc ts "engine_init cache"]
  by (simp add: match_count_def live_def engine_init_def)

section \<open>The nonce cache\<close>

fun event_hash :: "ordered_event \<Rightarrow> (u64 \<times> hash) list" where
  "event_hash (Entry e) = [(oe_slot e, obs_entry_hash (oe_observation e))]"
| "event_hash (SlotComplete c) = [(osc_slot c, osc_last_entry_hash c)]"
| "event_hash (SlotIncomplete i) = [(osi_slot i, osi_last_entry_hash i)]"
| "event_hash (Missing m) = []"

fun turn_hashes :: "engine_turn \<Rightarrow> (u64 \<times> hash) list" where
  "turn_hashes (Ordered ev sched now mnow) = event_hash ev" | "turn_hashes t = []"

lemma record_all_append:
  "record_all [] c = c" "record_all (rs @ rs') c = record_all rs' (record_all rs c)"
  "record_all [(s, h)] c = record_entry s h c"
  by (simp_all add: record_all_def)

lemma handle_event_cache:
  "en_nonce_cache (handle_event tacc macc ev sched now mnow en) =
    map_option (record_all (event_hash ev)) (en_nonce_cache en)"
  by (cases ev; cases "en_nonce_cache en")
    (simp_all add: entry_step_engine_def Let_def fold_match_sig_fields feed_cache_def record_all_append)

text \<open>With nonce mode on, the cache after a run is the result of recording, in order, the hash
  of every entry and of every closing event the engine received.\<close>
theorem engine_feeds_cache:
  "en_nonce_cache (engine_loop tacc macc ts (engine_init (Some c))) =
    Some (record_all (concat (map turn_hashes (turns_handled ts))) c)"
proof -
  have "en_nonce_cache (engine_loop tacc macc ts en) =
      Some (record_all (concat (map turn_hashes (turns_handled ts))) c)"
    if "en_nonce_cache en = Some c" for en c
    using that
  proof (induction tacc macc ts en arbitrary: c rule: engine_loop.induct)
    case (6 tacc macc ev sched now mnow ts en)
    then show ?case by (simp add: handle_event_cache record_all_append)
  qed (simp_all add: record_all_append)
  then show ?thesis by (simp add: engine_init_def)
qed

end
