(* ===== verification/Preparer.thy ===== *)
theory Preparer
  imports Tx_Pool Tip_Accounts Schedule Blockhash_Cache Trigger_Engine
begin

text \<open>
  \<open>crates/tick-trigger-fan-out-bench/src/preparer.rs\<close>: the thread that signs one transaction per
  enabled sender for each scheduled (slot, tick) ahead of time. The pool and the nonce manager
  are shared with other threads, so they are part of the state, and a turn may start from any
  value of them. A turn carries what the thread reads: the stop flag, the clock, the highest
  slot seen, the blockhash cache, the live Jito tips, and what \<open>schedule_rx\<close> returns. The
  shuffle of \<open>SmallRng\<close> is the parameter \<open>shuffle\<close> (seed, then list).
\<close>

section \<open>State\<close>

record preparer_counters =
  pc_triggers_prepared :: u64
  pc_variants_signed :: u64
  pc_signing_errors :: u64
  pc_blockhash_not_ready :: u64
  pc_pool_evictions :: u64
  pc_nonce_stall :: u64
  pc_entries_past_slot :: u64

definition preparer_counters_default :: preparer_counters where
  "preparer_counters_default = \<lparr> pc_triggers_prepared = 0, pc_variants_signed = 0, pc_signing_errors = 0,
     pc_blockhash_not_ready = 0, pc_pool_evictions = 0, pc_nonce_stall = 0, pc_entries_past_slot = 0 \<rparr>"

record preparer_config =
  pf_keypair :: pubkey
  pf_tx_cfg :: tx_config
  pf_senders :: "sender_config list"
  pf_shuffle_seed :: u64
  pf_nonce_mode :: bool

record sender_slot =
  ss_config :: sender_config
  ss_tip_rotator :: tip_rotator

record preparer =
  pr_slots :: "sender_slot list"
  pr_pool :: tx_pool
  pr_nonces :: nonce_manager
  pr_pending :: "schedule_entry option"
  pr_last_evict :: instant
  pr_counters :: preparer_counters

text \<open>The slots of the enabled senders; \<open>None\<close> is the panic of a malformed tip account.\<close>

definition sender_slots :: "(string \<Rightarrow> pubkey option) \<Rightarrow> sender_config list \<Rightarrow> sender_slot list option" where
  "sender_slots from_str senders =
    those (map (\<lambda>s. map_option (\<lambda>ks. \<lparr> ss_config = s, ss_tip_rotator = rotator_new ks \<rparr>)
      (tip_accounts_for from_str (sd_kind s))) (filter sd_enabled senders))"

datatype received = Received schedule_entry | RecvTimeout | Disconnected

record preparer_turn =
  pn_stop :: bool
  pn_now :: instant
  pn_current_slot :: u64
  pn_blockhash :: blockhash_cache
  pn_jito_tips :: "u8 \<Rightarrow> u64 option"
  pn_recv :: received

section \<open>Signing\<close>

text \<open>The variant of one sender: its next tip account, its tip, the transaction. \<open>None\<close> is an error
  that the source counts and skips.\<close>

definition sign_variant ::
  "(transaction \<Rightarrow> signature) \<Rightarrow> preparer_config \<Rightarrow> preparer_turn \<Rightarrow> schedule_entry \<Rightarrow> hash \<Rightarrow>
    nonce_params option \<Rightarrow> nonce_id option \<Rightarrow> sender_slot \<Rightarrow> pre_signed_tx option \<times> sender_slot" where
  "sign_variant sign cfg turn entry bh nonce nid slot =
    (let sc = ss_config slot; is_jito = (sd_kind sc = Jito);
         (tip, rot) = (if sd_tip_lamports sc > 0 \<or> is_jito then rotator_next (ss_tip_rotator slot)
                       else (None, ss_tip_rotator slot));
         slot' = slot\<lparr>ss_tip_rotator := rot\<rparr>;
         effective = (if is_jito
           then (case pn_jito_tips turn (sd_id sc) of None \<Rightarrow> None
                 | Some lamports \<Rightarrow> map_option (\<lambda>pk. (lamports, Some pk)) tip)
           else Some (sd_tip_lamports sc, tip))
     in case effective of
          None \<Rightarrow> (None, slot')
        | Some (lamports, account) \<Rightarrow>
            (let built = build sign \<lparr> bp_payer = pf_keypair cfg, bp_blockhash = bh, bp_sender_id = sd_id sc,
                   bp_trigger_id = from_slot_tick (se_slot entry) (se_tick entry), bp_tip_account = account,
                   bp_tip_lamports = lamports, bp_nonce = nonce, bp_tx_cfg = pf_tx_cfg cfg, bp_fund_tipper = None \<rparr>
             in (Some \<lparr> pt_sender_id = sd_id sc, pt_tx = bt_tx built, pt_signature = bt_signature built,
                   pt_blockhash = bh, pt_prepared_at = pn_now turn, pt_nonce_id = nid,
                   pt_bundle_metadata = (if is_jito
                     then map_option (\<lambda>pk. \<lparr> bm_tip_account = pk, bm_tip_lamports = lamports \<rparr>) account
                     else None) \<rparr>, slot')))"

definition count_variant :: "pre_signed_tx option \<Rightarrow> preparer_counters \<Rightarrow> preparer_counters" where
  "count_variant v c = (case v of None \<Rightarrow> c\<lparr>pc_signing_errors := pc_signing_errors c + 1\<rparr>
     | Some x \<Rightarrow> c\<lparr>pc_variants_signed := pc_variants_signed c + 1\<rparr>)"

definition perm_seed :: "u64 \<Rightarrow> schedule_entry \<Rightarrow> u64" where
  "perm_seed seed entry = xor (xor (seed * 0x9E3779B97F4A7C15) (push_bit 8 (se_slot entry))) (ucast (se_tick entry))"

section \<open>The thread\<close>

definition maybe_evict :: "preparer_turn \<Rightarrow> preparer \<Rightarrow> preparer" where
  "maybe_evict turn p =
    (if saturating_duration_since (pn_now turn) (pr_last_evict p) < 500000000 then p
     else let p1 = p\<lparr>pr_last_evict := pn_now turn\<rparr>
       in if pn_current_slot turn = 0 then p1
          else let pool = evict_below (saturating_sub (pn_current_slot turn) 4) (pr_pool p1);
                   before = pool_len (pr_pool p1); after = pool_len pool; c = pr_counters p1
            in p1\<lparr> pr_pool := pool,
                   pr_counters := (if before > after
                     then c\<lparr>pc_pool_evictions := pc_pool_evictions c + of_nat (before - after)\<rparr> else c) \<rparr>)"

text \<open>Signing for every sender and publishing the shuffled list.\<close>

definition prepare_entry ::
  "(transaction \<Rightarrow> signature) \<Rightarrow> (u64 \<Rightarrow> pre_signed_tx list \<Rightarrow> pre_signed_tx list) \<Rightarrow> preparer_config \<Rightarrow>
    preparer_turn \<Rightarrow> schedule_entry \<Rightarrow> hash \<Rightarrow> nonce_params option \<Rightarrow> nonce_id option \<Rightarrow> preparer \<Rightarrow> preparer" where
  "prepare_entry sign shuffle cfg turn entry bh nonce nid p =
    (let signed = map (sign_variant sign cfg turn entry bh nonce nid) (pr_slots p);
         c1 = fold count_variant (map fst signed) (pr_counters p);
         variants = shuffle (perm_seed (pf_shuffle_seed cfg) entry) (List.map_filter fst signed);
         p1 = p\<lparr> pr_slots := map snd signed,
                 pr_pool := insert_all (se_slot entry) (se_tick entry) variants (pr_pool p),
                 pr_counters := c1\<lparr>pc_triggers_prepared := pc_triggers_prepared c1 + 1\<rparr> \<rparr>
     in maybe_evict turn p1)"

definition is_past :: "preparer_turn \<Rightarrow> schedule_entry \<Rightarrow> bool" where
  "is_past turn entry \<longleftrightarrow> pn_current_slot turn > 0 \<and> se_slot entry + 1 < pn_current_slot turn"

definition handle_schedule_entry ::
  "(transaction \<Rightarrow> signature) \<Rightarrow> (u64 \<Rightarrow> pre_signed_tx list \<Rightarrow> pre_signed_tx list) \<Rightarrow> preparer_config \<Rightarrow>
    preparer_turn \<Rightarrow> schedule_entry \<Rightarrow> preparer \<Rightarrow> preparer" where
  "handle_schedule_entry sign shuffle cfg turn entry p = (let c = pr_counters p in
    if is_past turn entry then p\<lparr>pr_counters := c\<lparr>pc_entries_past_slot := pc_entries_past_slot c + 1\<rparr>\<rparr>
    else if pf_nonce_mode cfg then
      (case take_ready (pn_now turn) (pr_nonces p) of
         (None, nm) \<Rightarrow> p\<lparr> pr_nonces := nm, pr_pending := Some entry,
                          pr_counters := c\<lparr>pc_nonce_stall := pc_nonce_stall c + 1\<rparr> \<rparr>
       | (Some (nid, nonce_pubkey, nonce_blockhash), nm) \<Rightarrow>
           prepare_entry sign shuffle cfg turn entry nonce_blockhash
             (Some \<lparr> np_nonce_pubkey = nonce_pubkey, np_authority = pf_keypair cfg \<rparr>) (Some nid)
             (p\<lparr>pr_nonces := nm\<rparr>))
    else if bc_is_empty (pn_blockhash turn) then
      p\<lparr> pr_pending := Some entry, pr_counters := c\<lparr>pc_blockhash_not_ready := pc_blockhash_not_ready c + 1\<rparr> \<rparr>
    else prepare_entry sign shuffle cfg turn entry (current (pn_blockhash turn)) None None p)"

text \<open>One iteration; \<open>None\<close> leaves the loop.\<close>

definition preparer_step ::
  "(transaction \<Rightarrow> signature) \<Rightarrow> (u64 \<Rightarrow> pre_signed_tx list \<Rightarrow> pre_signed_tx list) \<Rightarrow> preparer_config \<Rightarrow>
    preparer_turn \<Rightarrow> preparer \<Rightarrow> preparer option" where
  "preparer_step sign shuffle cfg turn p =
    (if pn_stop turn then None
     else case pr_pending p of
       Some entry \<Rightarrow> Some (handle_schedule_entry sign shuffle cfg turn entry (p\<lparr>pr_pending := None\<rparr>))
     | None \<Rightarrow> (case pn_recv turn of
         Received entry \<Rightarrow> Some (handle_schedule_entry sign shuffle cfg turn entry p)
       | RecvTimeout \<Rightarrow> Some (maybe_evict turn p)
       | Disconnected \<Rightarrow> None))"

definition preparer_init ::
  "(string \<Rightarrow> pubkey option) \<Rightarrow> preparer_config \<Rightarrow> tx_pool \<Rightarrow> nonce_manager \<Rightarrow> instant \<Rightarrow> preparer option" where
  "preparer_init from_str cfg pool nonces now = (case sender_slots from_str (pf_senders cfg) of
     None \<Rightarrow> None
   | Some slots \<Rightarrow> if slots = [] then None
       else Some \<lparr> pr_slots = slots, pr_pool = pool, pr_nonces = nonces, pr_pending = None,
                   pr_last_evict = now, pr_counters = preparer_counters_default \<rparr>)"

end
