(* ===== verification/Recorder.thy ===== *)
theory Recorder
  imports Trigger_Engine Nonce_Manager
begin

text \<open>
  \<open>crates/tick-trigger-fan-out-bench/src/recorder.rs\<close>: the life cycle of every send attempt,
  from its registration to the one record that is written for it. The output file is a
  channel whose refusals are the write errors, the calls on the nonce manager are the log
  \<open>rs_nonce_ops\<close> (the operations of \<open>Nonce_Manager\<close>), the state of the shared hash cache at a
  match is part of the turn. Strings that only render a value (base58) are the value.
  Floating-point averages of the report are not modelled.
\<close>

section \<open>Events\<close>

record send_outcome =
  so_send_at :: instant
  so_send_ack_at :: "instant option"
  so_signature :: signature
  so_http_status :: "u16 option"
  so_rpc_err_code :: "32 word option"
  so_rpc_err_message :: "string option"
  so_provider_request_id :: "string option"
  so_error :: "string option"
  so_endpoint_url_used :: "string option"

record register_event =
  re_trigger_id :: trigger_id
  re_sender_id :: u8
  re_sender_name :: string
  re_endpoint_url :: string
  re_protocol :: string
  re_signature :: signature
  re_slot :: u64
  re_tick :: u8
  re_trigger_observed_at :: instant
  re_prepared_at :: instant
  re_blockhash :: hash
  re_nonce_id :: "nonce_id option"

record send_event =
  sv_trigger_id :: trigger_id
  sv_sender_id :: u8
  sv_outcome :: send_outcome

datatype final_outcome = Landed | SendError | UnknownPending

record trigger_record =
  rr_run_id :: string
  rr_trigger_id :: u64
  rr_slot :: u64
  rr_tick :: u8
  rr_sender_id :: u8
  rr_sender_name :: string
  rr_endpoint_url :: string
  rr_protocol :: string
  rr_tx_signature :: signature
  rr_blockhash :: hash
  rr_trigger_observed_at_ns :: u64
  rr_prepared_at_ns :: u64
  rr_send_at_ns :: u64
  rr_send_ack_at_ns :: "u64 option"
  rr_observed_at_ns :: "u64 option"
  rr_wall_prepared_to_send_ns :: "u64 option"
  rr_wall_send_rtt_ns :: "u64 option"
  rr_wall_send_to_observed_ns :: "u64 option"
  rr_wall_trigger_to_observed_ns :: "u64 option"
  rr_observed_slot :: "u64 option"
  rr_observed_entry_index :: "u32 option"
  rr_observed_tick :: "u8 option"
  rr_observed_source :: "string option"
  rr_http_status :: "u16 option"
  rr_rpc_err_code :: "32 word option"
  rr_rpc_err_message :: "string option"
  rr_send_error :: "string option"
  rr_endpoint_url_used :: "string option"
  rr_provider_request_id :: "string option"
  rr_final_outcome :: final_outcome

section \<open>State\<close>

record recorder_counters =
  rk_records_landed :: u64
  rk_records_send_error :: u64
  rk_records_unknown_pending :: u64
  rk_register_events :: u64
  rk_send_events :: u64
  rk_match_events :: u64
  rk_write_errors :: u64
  rk_nonce_advanced_local :: u64
  rk_nonce_local_compute_miss :: u64

definition recorder_counters_default :: recorder_counters where
  "recorder_counters_default = \<lparr> rk_records_landed = 0, rk_records_send_error = 0,
     rk_records_unknown_pending = 0, rk_register_events = 0, rk_send_events = 0, rk_match_events = 0,
     rk_write_errors = 0, rk_nonce_advanced_local = 0, rk_nonce_local_compute_miss = 0 \<rparr>"

record per_sender_stats =
  ps_sender_id :: u8
  ps_attempts :: u64
  ps_landed :: u64
  ps_send_error :: u64
  ps_unknown_pending :: u64
  ps_send_rtt_us_sum :: u64
  ps_send_rtt_us_count :: u64
  ps_send_to_observed_us_sum :: u64
  ps_send_to_observed_us_count :: u64

definition stats_new :: "u8 \<Rightarrow> per_sender_stats" where
  "stats_new sender_id = \<lparr> ps_sender_id = sender_id, ps_attempts = 0, ps_landed = 0,
     ps_send_error = 0, ps_unknown_pending = 0, ps_send_rtt_us_sum = 0, ps_send_rtt_us_count = 0,
     ps_send_to_observed_us_sum = 0, ps_send_to_observed_us_count = 0 \<rparr>"

record aggregate_state =
  ag_first_send_at :: "instant option"
  ag_last_send_at :: "instant option"
  ag_triggers_attempted :: "trigger_id set"
  ag_triggers_landed :: "trigger_id set"
  ag_per_sender :: "(u8, per_sender_stats) hash_map"
  ag_attempts_total :: u64
  ag_attempts_landed :: u64
  ag_attempts_send_error :: u64
  ag_attempts_unknown_pending :: u64

definition aggregate_default :: aggregate_state where
  "aggregate_default = \<lparr> ag_first_send_at = None, ag_last_send_at = None,
     ag_triggers_attempted = {}, ag_triggers_landed = {}, ag_per_sender = [], ag_attempts_total = 0,
     ag_attempts_landed = 0, ag_attempts_send_error = 0, ag_attempts_unknown_pending = 0 \<rparr>"

record trigger_attempt =
  ta_register :: "register_event option"
  ta_send :: "send_event option"
  ta_matched :: "match_event option"
  ta_deadline_at :: instant

type_synonym attempt_key = "trigger_id \<times> u8"

record recorder_config =
  rg_run_id :: string
  rg_anchor :: instant
  rg_deadline :: duration
  rg_nonce_mode :: bool

record recorder =
  rs_attempts :: "(attempt_key, trigger_attempt) hash_map"
  rs_sig_to_key :: "(signature, attempt_key) hash_map"
  rs_agg :: aggregate_state
  rs_counters :: recorder_counters
  rs_file :: "trigger_record chan"
  rs_nonce_ops :: "nonce_op list"
  rs_last_sweep :: instant

definition recorder_init :: "instant \<Rightarrow> recorder" where
  "recorder_init now = \<lparr> rs_attempts = [], rs_sig_to_key = [], rs_agg = aggregate_default,
     rs_counters = recorder_counters_default, rs_file = [], rs_nonce_ops = [], rs_last_sweep = now \<rparr>"

section \<open>Aggregates\<close>

definition stats_of :: "u8 \<Rightarrow> aggregate_state \<Rightarrow> per_sender_stats" where
  "stats_of sender_id ag =
    (case map_of (ag_per_sender ag) sender_id of None \<Rightarrow> stats_new sender_id | Some s \<Rightarrow> s)"

definition record_register :: "register_event \<Rightarrow> aggregate_state \<Rightarrow> aggregate_state" where
  "record_register reg ag =
    (let s = stats_of (re_sender_id reg) ag
     in ag\<lparr> ag_triggers_attempted := insert (re_trigger_id reg) (ag_triggers_attempted ag),
            ag_per_sender := hm_insert (re_sender_id reg) (s\<lparr>ps_attempts := ps_attempts s + 1\<rparr>) (ag_per_sender ag),
            ag_attempts_total := ag_attempts_total ag + 1 \<rparr>)"

definition record_send :: "send_event \<Rightarrow> aggregate_state \<Rightarrow> aggregate_state" where
  "record_send ev ag =
    (let send_at = so_send_at (sv_outcome ev);
         ag1 = ag\<lparr> ag_first_send_at := (case ag_first_send_at ag of None \<Rightarrow> Some send_at
                     | Some t \<Rightarrow> if send_at < t then Some send_at else Some t),
                   ag_last_send_at := (case ag_last_send_at ag of None \<Rightarrow> Some send_at
                     | Some t \<Rightarrow> if send_at > t then Some send_at else Some t) \<rparr>
     in case map_of (ag_per_sender ag) (sv_sender_id ev) of
          None \<Rightarrow> ag1
        | Some s \<Rightarrow> (case so_send_ack_at (sv_outcome ev) of
            None \<Rightarrow> ag1
          | Some ack \<Rightarrow> let rtt_us = of_nat (as_micros (saturating_duration_since ack send_at))
              in ag1\<lparr>ag_per_sender := hm_insert (sv_sender_id ev)
                   (s\<lparr> ps_send_rtt_us_sum := ps_send_rtt_us_sum s + rtt_us,
                       ps_send_rtt_us_count := ps_send_rtt_us_count s + 1 \<rparr>) (ag_per_sender ag)\<rparr>))"

definition count_outcome :: "final_outcome \<Rightarrow> u64 option \<Rightarrow> per_sender_stats \<Rightarrow> per_sender_stats" where
  "count_outcome outcome send_to_observed_us s = (case outcome of
     Landed \<Rightarrow> (let s1 = s\<lparr>ps_landed := ps_landed s + 1\<rparr>
       in case send_to_observed_us of None \<Rightarrow> s1
          | Some us \<Rightarrow> s1\<lparr> ps_send_to_observed_us_sum := ps_send_to_observed_us_sum s1 + us,
              ps_send_to_observed_us_count := ps_send_to_observed_us_count s1 + 1 \<rparr>)
   | SendError \<Rightarrow> s\<lparr>ps_send_error := ps_send_error s + 1\<rparr>
   | UnknownPending \<Rightarrow> s\<lparr>ps_unknown_pending := ps_unknown_pending s + 1\<rparr>)"

definition record_outcome ::
  "trigger_id \<Rightarrow> u8 \<Rightarrow> final_outcome \<Rightarrow> u64 option \<Rightarrow> aggregate_state \<Rightarrow> aggregate_state" where
  "record_outcome tid sender_id outcome send_to_observed_us ag =
    (let s = count_outcome outcome send_to_observed_us (stats_of sender_id ag);
         ag1 = ag\<lparr>ag_per_sender := hm_insert sender_id s (ag_per_sender ag)\<rparr>
     in case outcome of
          Landed \<Rightarrow> ag1\<lparr> ag_attempts_landed := ag_attempts_landed ag1 + 1,
                          ag_triggers_landed := insert tid (ag_triggers_landed ag1) \<rparr>
        | SendError \<Rightarrow> ag1\<lparr>ag_attempts_send_error := ag_attempts_send_error ag1 + 1\<rparr>
        | UnknownPending \<Rightarrow> ag1\<lparr>ag_attempts_unknown_pending := ag_attempts_unknown_pending ag1 + 1\<rparr>)"

text \<open>The summary; \<open>sm_active_ns\<close> is the active window before its conversion to seconds.\<close>

record active_window_summary =
  sm_first_send_at_ns :: "u64 option"
  sm_last_send_at_ns :: "u64 option"
  sm_active_ns :: duration
  sm_triggers_attempted :: u64
  sm_triggers_landed :: u64
  sm_attempts_total :: u64
  sm_attempts_landed :: u64
  sm_attempts_send_error :: u64
  sm_attempts_unknown_pending :: u64
  sm_per_sender :: "per_sender_stats list"

definition ns_since :: "instant \<Rightarrow> instant \<Rightarrow> u64" where
  "ns_since anchor t = of_nat (saturating_duration_since t anchor)"

definition into_summary :: "instant \<Rightarrow> aggregate_state \<Rightarrow> active_window_summary" where
  "into_summary anchor ag = \<lparr>
     sm_first_send_at_ns = map_option (ns_since anchor) (ag_first_send_at ag),
     sm_last_send_at_ns = map_option (ns_since anchor) (ag_last_send_at ag),
     sm_active_ns = (case (ag_first_send_at ag, ag_last_send_at ag) of
        (Some a, Some b) \<Rightarrow> saturating_duration_since b a | _ \<Rightarrow> 0),
     sm_triggers_attempted = of_nat (card (ag_triggers_attempted ag)),
     sm_triggers_landed = of_nat (card (ag_triggers_landed ag)),
     sm_attempts_total = ag_attempts_total ag,
     sm_attempts_landed = ag_attempts_landed ag,
     sm_attempts_send_error = ag_attempts_send_error ag,
     sm_attempts_unknown_pending = ag_attempts_unknown_pending ag,
     sm_per_sender = sort_key ps_sender_id (map snd (ag_per_sender ag)) \<rparr>"

section \<open>Writing a record\<close>

fun source_label :: "source_kind \<Rightarrow> string" where
  "source_label ShredStream = ''SS''" | "source_label Yellowstone = ''YS''"

definition make_record ::
  "recorder_config \<Rightarrow> register_event \<Rightarrow> send_event option \<Rightarrow> match_event option \<Rightarrow> final_outcome \<Rightarrow> trigger_record" where
  "make_record cfg reg snd_ev mtch outcome =
    (let ns = ns_since (rg_anchor cfg);
         trigger_ns = ns (re_trigger_observed_at reg);
         prepared_ns = ns (re_prepared_at reg);
         out = map_option sv_outcome snd_ev;
         send_ns = (case out of None \<Rightarrow> 0 | Some oc \<Rightarrow> ns (so_send_at oc));
         ack_ns = Option.bind out (\<lambda>oc. map_option ns (so_send_ack_at oc));
         observed_ns = map_option (\<lambda>m. ns (mt_observed_at m)) mtch
     in \<lparr> rr_run_id = rg_run_id cfg, rr_trigger_id = re_trigger_id reg, rr_slot = re_slot reg,
          rr_tick = re_tick reg, rr_sender_id = re_sender_id reg, rr_sender_name = re_sender_name reg,
          rr_endpoint_url = re_endpoint_url reg, rr_protocol = re_protocol reg,
          rr_tx_signature = re_signature reg, rr_blockhash = re_blockhash reg,
          rr_trigger_observed_at_ns = trigger_ns, rr_prepared_at_ns = prepared_ns,
          rr_send_at_ns = send_ns, rr_send_ack_at_ns = ack_ns, rr_observed_at_ns = observed_ns,
          rr_wall_prepared_to_send_ns = map_option (\<lambda>_. saturating_sub send_ns prepared_ns) snd_ev,
          rr_wall_send_rtt_ns = (case (snd_ev, ack_ns) of
            (Some _, Some a) \<Rightarrow> Some (saturating_sub a send_ns) | _ \<Rightarrow> None),
          rr_wall_send_to_observed_ns = (case (snd_ev, observed_ns) of
            (Some _, Some b) \<Rightarrow> Some (saturating_sub b send_ns) | _ \<Rightarrow> None),
          rr_wall_trigger_to_observed_ns = map_option (\<lambda>b. saturating_sub b trigger_ns) observed_ns,
          rr_observed_slot = map_option mt_observed_slot mtch,
          rr_observed_entry_index = map_option mt_observed_entry_index mtch,
          rr_observed_tick = map_option mt_observed_tick mtch,
          rr_observed_source = map_option (\<lambda>m. source_label (mt_observed_source m)) mtch,
          rr_http_status = Option.bind out so_http_status,
          rr_rpc_err_code = Option.bind out so_rpc_err_code,
          rr_rpc_err_message = Option.bind out so_rpc_err_message,
          rr_send_error = Option.bind out so_error,
          rr_endpoint_url_used = Option.bind out so_endpoint_url_used,
          rr_provider_request_id = Option.bind out so_provider_request_id,
          rr_final_outcome = outcome \<rparr>)"

definition count_record :: "final_outcome \<Rightarrow> recorder_counters \<Rightarrow> recorder_counters" where
  "count_record outcome c = (case outcome of
     Landed \<Rightarrow> c\<lparr>rk_records_landed := rk_records_landed c + 1\<rparr>
   | SendError \<Rightarrow> c\<lparr>rk_records_send_error := rk_records_send_error c + 1\<rparr>
   | UnknownPending \<Rightarrow> c\<lparr>rk_records_unknown_pending := rk_records_unknown_pending c + 1\<rparr>)"

definition emit_record ::
  "trigger_record accept \<Rightarrow> recorder_config \<Rightarrow> trigger_attempt \<Rightarrow> final_outcome \<Rightarrow> recorder \<Rightarrow> recorder" where
  "emit_record wacc cfg att outcome rs = (case ta_register att of
     None \<Rightarrow> rs
   | Some reg \<Rightarrow>
       let c = count_record outcome (rs_counters rs);
           (file, ok) = try_send wacc (rs_file rs) (make_record cfg reg (ta_send att) (ta_matched att) outcome)
       in rs\<lparr> rs_file := file,
              rs_counters := (if ok then c else c\<lparr>rk_write_errors := rk_write_errors c + 1\<rparr>) \<rparr>)"

text \<open>What the handlers do at the end of an attempt: drop it with its signature, write the record,
  count the outcome.\<close>

definition finish ::
  "trigger_record accept \<Rightarrow> recorder_config \<Rightarrow> final_outcome \<Rightarrow> u64 option \<Rightarrow> attempt_key \<Rightarrow>
    trigger_attempt \<Rightarrow> recorder \<Rightarrow> recorder" where
  "finish wacc cfg outcome us key att rs =
    (let rs1 = rs\<lparr> rs_attempts := hm_remove key (rs_attempts rs),
                   rs_sig_to_key := (case ta_register att of None \<Rightarrow> rs_sig_to_key rs
                     | Some reg \<Rightarrow> hm_remove (re_signature reg) (rs_sig_to_key rs)) \<rparr>;
         rs2 = emit_record wacc cfg att outcome rs1
     in case ta_register att of
          None \<Rightarrow> rs2
        | Some reg \<Rightarrow> rs2\<lparr>rs_agg := record_outcome (re_trigger_id reg) (re_sender_id reg) outcome us (rs_agg rs2)\<rparr>)"

section \<open>Handlers\<close>

definition handle_register :: "recorder_config \<Rightarrow> register_event \<Rightarrow> recorder \<Rightarrow> recorder" where
  "handle_register cfg reg rs =
    (let key = (re_trigger_id reg, re_sender_id reg)
     in rs\<lparr> rs_sig_to_key := hm_insert (re_signature reg) key (rs_sig_to_key rs),
            rs_attempts := hm_insert key \<lparr> ta_register = Some reg, ta_send = None, ta_matched = None,
              ta_deadline_at = re_trigger_observed_at reg + rg_deadline cfg \<rparr> (rs_attempts rs) \<rparr>)"

definition handle_send ::
  "trigger_record accept \<Rightarrow> recorder_config \<Rightarrow> send_event \<Rightarrow> recorder \<Rightarrow> recorder" where
  "handle_send wacc cfg s rs =
    (let key = (sv_trigger_id s, sv_sender_id s)
     in case map_of (rs_attempts rs) key of
          None \<Rightarrow> rs
        | Some att \<Rightarrow>
            let att' = att\<lparr>ta_send := Some s\<rparr>;
                rs1 = rs\<lparr>rs_attempts := hm_insert key att' (rs_attempts rs)\<rparr>
            in if so_error (sv_outcome s) \<noteq> None then finish wacc cfg SendError None key att' rs1 else rs1)"

text \<open>The nonce hook: \<open>cache\<close> is the shared hash cache at this moment.\<close>

definition nonce_hook ::
  "(bytes list \<Rightarrow> hash) \<Rightarrow> recorder_config \<Rightarrow> slot_hash_cache \<Rightarrow> instant \<Rightarrow> match_event \<Rightarrow>
    trigger_attempt \<Rightarrow> recorder \<Rightarrow> recorder" where
  "nonce_hook hashv cfg cache now m att rs =
    (case Option.bind (ta_register att) re_nonce_id of
       Some nonce_id \<Rightarrow>
         if rg_nonce_mode cfg then
           (let c = rs_counters rs in
            case next_nonce_for_landed_slot hashv cache (mt_observed_slot m) 5 of
              Some (src_slot, prev_hash, next_nonce) \<Rightarrow>
                rs\<lparr> rs_nonce_ops := rs_nonce_ops rs @ [LandingWith nonce_id next_nonce],
                    rs_counters := c\<lparr>rk_nonce_advanced_local := rk_nonce_advanced_local c + 1\<rparr> \<rparr>
            | None \<Rightarrow>
                rs\<lparr> rs_nonce_ops := rs_nonce_ops rs @ [ObservedLanding now nonce_id],
                    rs_counters := c\<lparr>rk_nonce_local_compute_miss := rk_nonce_local_compute_miss c + 1\<rparr> \<rparr>)
         else rs
     | None \<Rightarrow> rs)"

definition handle_match ::
  "trigger_record accept \<Rightarrow> (bytes list \<Rightarrow> hash) \<Rightarrow> recorder_config \<Rightarrow> slot_hash_cache \<Rightarrow> instant \<Rightarrow>
    match_event \<Rightarrow> recorder \<Rightarrow> recorder" where
  "handle_match wacc hashv cfg cache now m rs =
    (case map_of (rs_sig_to_key rs) (mt_signature m) of
       None \<Rightarrow> rs
     | Some key \<Rightarrow> (case map_of (rs_attempts rs) key of
         None \<Rightarrow> rs\<lparr>rs_sig_to_key := hm_remove (mt_signature m) (rs_sig_to_key rs)\<rparr>
       | Some att \<Rightarrow>
           let att' = att\<lparr>ta_matched := Some m\<rparr>;
               rs1 = nonce_hook hashv cfg cache now m att' rs;
               us = map_option (\<lambda>s. of_nat (as_micros (saturating_duration_since (mt_observed_at m)
                      (so_send_at (sv_outcome s))))) (ta_send att')
           in finish wacc cfg Landed us key att' rs1))"

text \<open>One removal of the sweep and of the final flush.\<close>

definition expire ::
  "trigger_record accept \<Rightarrow> recorder_config \<Rightarrow> attempt_key \<Rightarrow> recorder \<Rightarrow> recorder" where
  "expire wacc cfg key rs = (case map_of (rs_attempts rs) key of
     None \<Rightarrow> rs
   | Some att \<Rightarrow> finish wacc cfg UnknownPending None key att rs)"

definition sweep_deadlines ::
  "trigger_record accept \<Rightarrow> recorder_config \<Rightarrow> instant \<Rightarrow> recorder \<Rightarrow> recorder" where
  "sweep_deadlines wacc cfg now rs =
    fold (expire wacc cfg) (map fst (filter (\<lambda>(k, att). ta_deadline_at att \<le> now) (rs_attempts rs))) rs"

section \<open>The thread\<close>

datatype recorder_turn =
  RecRegister register_event | RecSend send_event | RecMatch match_event slot_hash_cache instant
| RecIdle | RecStopped

definition recorder_handle ::
  "trigger_record accept \<Rightarrow> (bytes list \<Rightarrow> hash) \<Rightarrow> recorder_config \<Rightarrow> recorder_turn \<Rightarrow> recorder \<Rightarrow> recorder" where
  "recorder_handle wacc hashv cfg t rs = (let c = rs_counters rs in case t of
     RecRegister reg \<Rightarrow> handle_register cfg reg
       (rs\<lparr> rs_counters := c\<lparr>rk_register_events := rk_register_events c + 1\<rparr>,
            rs_agg := record_register reg (rs_agg rs) \<rparr>)
   | RecSend s \<Rightarrow> handle_send wacc cfg s
       (rs\<lparr> rs_counters := c\<lparr>rk_send_events := rk_send_events c + 1\<rparr>, rs_agg := record_send s (rs_agg rs) \<rparr>)
   | RecMatch m cache now \<Rightarrow> handle_match wacc hashv cfg cache now m
       (rs\<lparr>rs_counters := c\<lparr>rk_match_events := rk_match_events c + 1\<rparr>\<rparr>)
   | RecIdle \<Rightarrow> rs | RecStopped \<Rightarrow> rs)"

text \<open>The sweep is due every 500 ms of the clock, which each turn reads once.\<close>

definition maybe_sweep_deadlines ::
  "trigger_record accept \<Rightarrow> recorder_config \<Rightarrow> instant \<Rightarrow> recorder \<Rightarrow> recorder" where
  "maybe_sweep_deadlines wacc cfg now rs =
    (if saturating_duration_since now (rs_last_sweep rs) \<ge> 500000000
     then sweep_deadlines wacc cfg now (rs\<lparr>rs_last_sweep := now\<rparr>) else rs)"

fun recorder_loop ::
  "trigger_record accept \<Rightarrow> (bytes list \<Rightarrow> hash) \<Rightarrow> recorder_config \<Rightarrow> (recorder_turn \<times> instant) list \<Rightarrow>
    recorder \<Rightarrow> recorder" where
  "recorder_loop wacc hashv cfg [] rs = rs"
| "recorder_loop wacc hashv cfg ((t, now) # ts) rs =
    (if t = RecStopped then rs
     else recorder_loop wacc hashv cfg ts
       (maybe_sweep_deadlines wacc cfg now (recorder_handle wacc hashv cfg t rs)))"

definition recorder_flush ::
  "trigger_record accept \<Rightarrow> recorder_config \<Rightarrow> recorder \<Rightarrow> recorder" where
  "recorder_flush wacc cfg rs = fold (expire wacc cfg) (map_keys (rs_attempts rs)) rs"

definition recorder_run ::
  "trigger_record accept \<Rightarrow> (bytes list \<Rightarrow> hash) \<Rightarrow> recorder_config \<Rightarrow> instant \<Rightarrow>
    (recorder_turn \<times> instant) list \<Rightarrow> recorder" where
  "recorder_run wacc hashv cfg start ts =
    recorder_flush wacc cfg (recorder_loop wacc hashv cfg ts (recorder_init start))"

definition recorder_summary :: "recorder_config \<Rightarrow> recorder \<Rightarrow> active_window_summary" where
  "recorder_summary cfg rs = into_summary (rg_anchor cfg) (rs_agg rs)"

end
