(* ===== verification/Dispatcher.thy ===== *)
theory Dispatcher
  imports Preparer Recorder
begin

text \<open>
  The dispatcher of \<open>crates/tick-trigger-fan-out-bench/src/bin/phase3_run.rs\<close>: it takes the
  pre-signed variants of a fired trigger from the pool, marks their signatures as pending,
  registers each attempt with the recorder and spawns its send. The pool and the set of pending
  signatures are shared with the preparer and the trigger engine, whose operations are turns of
  their own. A spawned send is an entry of \<open>di_tasks\<close>; its outcome is an event of the recorder.
\<close>

section \<open>State\<close>

record dispatcher_counters =
  dk_pool_hits :: u64
  dk_pool_misses_fallback_built :: u64
  dk_pool_misses_skipped_no_blockhash :: u64

definition dispatcher_counters_default :: dispatcher_counters where
  "dispatcher_counters_default = \<lparr> dk_pool_hits = 0, dk_pool_misses_fallback_built = 0,
     dk_pool_misses_skipped_no_blockhash = 0 \<rparr>"

text \<open>What the dispatcher reads of a \<open>dyn TxSender\<close>.\<close>

record sender_handle =
  sh_endpoint_url :: string
  sh_protocol :: string

record dispatcher_config =
  dc_senders :: "sender_config list"
  dc_senders_by_id :: "(u8, sender_handle) hash_map"
  dc_keypair :: pubkey
  dc_tx_cfg :: tx_config
  dc_nonce_mode :: bool

record send_task =
  tk_trigger_id :: trigger_id
  tk_sender_id :: u8
  tk_tx :: transaction

record dispatcher =
  di_pending_sigs :: "signature set"
  di_pool :: tx_pool
  di_fallback_rotators :: "(u8, tip_rotator) hash_map"
  di_register_tx :: "register_event chan"
  di_tasks :: "send_task list"
  di_counters :: dispatcher_counters

text \<open>\<open>collect\<close> into the map of fallback rotators: a later sender with the same id overwrites.\<close>

definition fallback_rotators ::
  "(string \<Rightarrow> pubkey option) \<Rightarrow> sender_config list \<Rightarrow> (u8, tip_rotator) hash_map option" where
  "fallback_rotators from_str senders =
    map_option (\<lambda>rs. fold (\<lambda>(i, r). hm_insert i r) rs [])
      (those (map (\<lambda>s. map_option (\<lambda>ks. (sd_id s, rotator_new ks)) (tip_accounts_for from_str (sd_kind s))) senders))"

definition dispatcher_init :: "tx_pool \<Rightarrow> (u8, tip_rotator) hash_map \<Rightarrow> dispatcher" where
  "dispatcher_init pool rotators = \<lparr> di_pending_sigs = {}, di_pool = pool, di_fallback_rotators = rotators,
     di_register_tx = [], di_tasks = [], di_counters = dispatcher_counters_default \<rparr>"

section \<open>The fallback\<close>

text \<open>One variant built inline; \<open>now\<close> is the clock after building it.\<close>

definition fallback_variant ::
  "(transaction \<Rightarrow> signature) \<Rightarrow> dispatcher_config \<Rightarrow> hash \<Rightarrow> trigger_event \<Rightarrow> (u8 \<Rightarrow> instant) \<Rightarrow>
    sender_config \<Rightarrow> (u8, tip_rotator) hash_map \<Rightarrow> pre_signed_tx \<times> (u8, tip_rotator) hash_map" where
  "fallback_variant sign cfg bh trig now sc rots =
    (let (tip, rots') = (if sd_tip_lamports sc > 0
           then (case map_of rots (sd_id sc) of None \<Rightarrow> (None, rots)
                 | Some r \<Rightarrow> let (a, r') = rotator_next r in (a, hm_insert (sd_id sc) r' rots))
           else (None, rots));
         built = build sign \<lparr> bp_payer = dc_keypair cfg, bp_blockhash = bh, bp_sender_id = sd_id sc,
           bp_trigger_id = tr_trigger_id trig, bp_tip_account = tip, bp_tip_lamports = sd_tip_lamports sc,
           bp_nonce = None, bp_tx_cfg = dc_tx_cfg cfg, bp_fund_tipper = None \<rparr>
     in (\<lparr> pt_sender_id = sd_id sc, pt_tx = bt_tx built, pt_signature = bt_signature built, pt_blockhash = bh,
           pt_prepared_at = now (sd_id sc), pt_nonce_id = None, pt_bundle_metadata = None \<rparr>, rots'))"

fun fallback_variants ::
  "(transaction \<Rightarrow> signature) \<Rightarrow> dispatcher_config \<Rightarrow> hash \<Rightarrow> trigger_event \<Rightarrow> (u8 \<Rightarrow> instant) \<Rightarrow>
    sender_config list \<Rightarrow> (u8, tip_rotator) hash_map \<Rightarrow> pre_signed_tx list \<times> (u8, tip_rotator) hash_map" where
  "fallback_variants sign cfg bh trig now [] rots = ([], rots)"
| "fallback_variants sign cfg bh trig now (sc # scs) rots =
    (let (v, rots1) = fallback_variant sign cfg bh trig now sc rots;
         (vs, rots2) = fallback_variants sign cfg bh trig now scs rots1
     in (v # vs, rots2))"

text \<open>Where the variants of a trigger come from; \<open>None\<close> is the \<open>continue\<close> that skips the trigger.\<close>

definition take_variants ::
  "(transaction \<Rightarrow> signature) \<Rightarrow> dispatcher_config \<Rightarrow> blockhash_cache \<Rightarrow> (u8 \<Rightarrow> instant) \<Rightarrow> trigger_event \<Rightarrow>
    dispatcher \<Rightarrow> pre_signed_tx list option \<times> dispatcher" where
  "take_variants sign cfg bhc now trig di =
    (let (hit, pool) = pool_take (tr_slot trig) (tr_tick trig) (di_pool di); c = di_counters di;
         skip = c\<lparr>dk_pool_misses_skipped_no_blockhash := dk_pool_misses_skipped_no_blockhash c + 1\<rparr>
     in case hit of
          Some v \<Rightarrow> (Some v, di\<lparr>di_pool := pool, di_counters := c\<lparr>dk_pool_hits := dk_pool_hits c + 1\<rparr>\<rparr>)
        | None \<Rightarrow>
            if dc_nonce_mode cfg then (None, di\<lparr>di_pool := pool, di_counters := skip\<rparr>)
            else if bc_is_empty bhc then (None, di\<lparr>di_pool := pool, di_counters := skip\<rparr>)
            else let (vs, rots) = fallback_variants sign cfg (current bhc) trig now (dc_senders cfg) (di_fallback_rotators di)
              in (Some vs, di\<lparr>di_pool := pool, di_fallback_rotators := rots,
                    di_counters := c\<lparr>dk_pool_misses_fallback_built := dk_pool_misses_fallback_built c + 1\<rparr>\<rparr>))"

section \<open>Fan-out\<close>

definition make_register :: "dispatcher_config \<Rightarrow> trigger_event \<Rightarrow> sender_config \<Rightarrow> sender_handle \<Rightarrow>
    pre_signed_tx \<Rightarrow> register_event" where
  "make_register cfg trig sc sender v = \<lparr> re_trigger_id = tr_trigger_id trig, re_sender_id = sd_id sc,
     re_sender_name = sd_name sc, re_endpoint_url = sh_endpoint_url sender, re_protocol = sh_protocol sender,
     re_signature = pt_signature v, re_slot = tr_slot trig, re_tick = tr_tick trig,
     re_trigger_observed_at = tr_observed_at trig, re_prepared_at = pt_prepared_at v,
     re_blockhash = pt_blockhash v, re_nonce_id = pt_nonce_id v \<rparr>"

definition dispatch_variant ::
  "register_event accept \<Rightarrow> dispatcher_config \<Rightarrow> trigger_event \<Rightarrow> pre_signed_tx \<Rightarrow> dispatcher \<Rightarrow> dispatcher" where
  "dispatch_variant racc cfg trig v di =
    (let di1 = di\<lparr>di_pending_sigs := insert (pt_signature v) (di_pending_sigs di)\<rparr>
     in case find (\<lambda>s. sd_id s = pt_sender_id v) (dc_senders cfg) of
          None \<Rightarrow> di1
        | Some sc \<Rightarrow> (case map_of (dc_senders_by_id cfg) (pt_sender_id v) of
            None \<Rightarrow> di1
          | Some sender \<Rightarrow> di1\<lparr>
              di_register_tx := fst (try_send racc (di_register_tx di1) (make_register cfg trig sc sender v)),
              di_tasks := di_tasks di1 @ [\<lparr> tk_trigger_id = tr_trigger_id trig, tk_sender_id = sd_id sc,
                tk_tx = pt_tx v \<rparr>] \<rparr>))"

definition dispatch_trigger ::
  "register_event accept \<Rightarrow> (transaction \<Rightarrow> signature) \<Rightarrow> dispatcher_config \<Rightarrow> blockhash_cache \<Rightarrow>
    (u8 \<Rightarrow> instant) \<Rightarrow> trigger_event \<Rightarrow> dispatcher \<Rightarrow> dispatcher" where
  "dispatch_trigger racc sign cfg bhc now trig di =
    (case take_variants sign cfg bhc now trig di of
       (None, di1) \<Rightarrow> di1
     | (Some variants, di1) \<Rightarrow> fold (dispatch_variant racc cfg trig) variants di1)"

section \<open>The loop\<close>

datatype dispatcher_turn =
  DispTrigger trigger_event blockhash_cache "u8 \<Rightarrow> instant" | DispTimeout | DispStop | DispDisconnected
| DispPoolOp pool_op | DispMatched signature

fun dispatcher_loop ::
  "register_event accept \<Rightarrow> (transaction \<Rightarrow> signature) \<Rightarrow> dispatcher_config \<Rightarrow> dispatcher_turn list \<Rightarrow>
    dispatcher \<Rightarrow> dispatcher" where
  "dispatcher_loop racc sign cfg [] di = di"
| "dispatcher_loop racc sign cfg (DispStop # ts) di = di"
| "dispatcher_loop racc sign cfg (DispDisconnected # ts) di = di"
| "dispatcher_loop racc sign cfg (DispTimeout # ts) di = dispatcher_loop racc sign cfg ts di"
| "dispatcher_loop racc sign cfg (DispPoolOp c # ts) di =
     dispatcher_loop racc sign cfg ts (di\<lparr>di_pool := snd (pool_exec c (di_pool di))\<rparr>)"
| "dispatcher_loop racc sign cfg (DispMatched sig # ts) di =
     dispatcher_loop racc sign cfg ts (di\<lparr>di_pending_sigs := di_pending_sigs di - {sig}\<rparr>)"
| "dispatcher_loop racc sign cfg (DispTrigger trig bhc now # ts) di =
     dispatcher_loop racc sign cfg ts (dispatch_trigger racc sign cfg bhc now trig di)"

section \<open>What a dispatch registers\<close>

text \<open>The senders are wired as \<open>main\<close> does it: every configured sender has a handle.\<close>

definition wired :: "dispatcher_config \<Rightarrow> bool" where
  "wired cfg \<longleftrightarrow> set (map sd_id (dc_senders cfg)) \<subseteq> dom (map_of (dc_senders_by_id cfg))"

definition known :: "dispatcher_config \<Rightarrow> pre_signed_tx \<Rightarrow> bool" where
  "known cfg v \<longleftrightarrow> pt_sender_id v \<in> sd_id ` set (dc_senders cfg) \<and> pt_sender_id v \<in> dom (map_of (dc_senders_by_id cfg))"

definition register_of :: "dispatcher_config \<Rightarrow> trigger_event \<Rightarrow> pre_signed_tx \<Rightarrow> register_event" where
  "register_of cfg trig v = make_register cfg trig
     (the (find (\<lambda>s. sd_id s = pt_sender_id v) (dc_senders cfg)))
     (the (map_of (dc_senders_by_id cfg) (pt_sender_id v))) v"

lemma find_sender: "pt_sender_id v \<in> sd_id ` set scs \<longleftrightarrow> (\<exists>sc. find (\<lambda>s. sd_id s = pt_sender_id v) scs = Some sc)"
  by (induction scs) auto

lemma find_sender_id: "find (\<lambda>s. sd_id s = i) scs = Some sc \<Longrightarrow> sd_id sc = i"
  by (induction scs) (auto split: if_splits)

lemma known_cases:
  obtains (known) sc sender where "known cfg v" "find (\<lambda>s. sd_id s = pt_sender_id v) (dc_senders cfg) = Some sc"
      "map_of (dc_senders_by_id cfg) (pt_sender_id v) = Some sender" "sd_id sc = pt_sender_id v"
      "register_of cfg trig v = make_register cfg trig sc sender v"
  | (unknown) "\<not> known cfg v" "find (\<lambda>s. sd_id s = pt_sender_id v) (dc_senders cfg) = None \<or>
      map_of (dc_senders_by_id cfg) (pt_sender_id v) = None"
proof (cases "known cfg v")
  case True
  then obtain sc sender where "find (\<lambda>s. sd_id s = pt_sender_id v) (dc_senders cfg) = Some sc"
      "map_of (dc_senders_by_id cfg) (pt_sender_id v) = Some sender"
    unfolding known_def find_sender by blast
  then show ?thesis using True find_sender_id known unfolding register_of_def by (metis option.sel)
next
  case False
  moreover from False have "find (\<lambda>s. sd_id s = pt_sender_id v) (dc_senders cfg) = None \<or>
      map_of (dc_senders_by_id cfg) (pt_sender_id v) = None"
    unfolding known_def find_sender by (metis domI not_None_eq)
  ultimately show ?thesis by (rule unknown)
qed

lemma dispatch_variant_fields:
  "di_pending_sigs (dispatch_variant racc cfg trig v di) = insert (pt_signature v) (di_pending_sigs di)"
  "di_pool (dispatch_variant racc cfg trig v di) = di_pool di"
  "attempts (di_register_tx (dispatch_variant racc cfg trig v di)) =
     attempts (di_register_tx di) @ (if known cfg v then [register_of cfg trig v] else [])"
  "di_tasks (dispatch_variant racc cfg trig v di) = di_tasks di @ (if known cfg v
     then [\<lparr> tk_trigger_id = tr_trigger_id trig, tk_sender_id = pt_sender_id v, tk_tx = pt_tx v \<rparr>] else [])"
  by (rule known_cases [where cfg = cfg and v = v and trig = trig]; auto simp: dispatch_variant_def Let_def try_send_def split: option.split)+

lemma register_of_fields [simp]:
  "known cfg v \<Longrightarrow> re_sender_id (register_of cfg trig v) = pt_sender_id v"
  "re_trigger_id (register_of cfg trig v) = tr_trigger_id trig"
  "re_signature (register_of cfg trig v) = pt_signature v"
  "re_nonce_id (register_of cfg trig v) = pt_nonce_id v"
  "re_slot (register_of cfg trig v) = tr_slot trig"
  "re_tick (register_of cfg trig v) = tr_tick trig"
  by (rule known_cases [where cfg = cfg and v = v and trig = trig]; simp add: make_register_def) (simp_all add: register_of_def make_register_def)

lemma dispatch_variants_fields:
  "di_pending_sigs (fold (dispatch_variant racc cfg trig) vs di) = pt_signature ` set vs \<union> di_pending_sigs di"
  "di_pool (fold (dispatch_variant racc cfg trig) vs di) = di_pool di"
  "attempts (di_register_tx (fold (dispatch_variant racc cfg trig) vs di)) =
     attempts (di_register_tx di) @ map (register_of cfg trig) (filter (known cfg) vs)"
  "di_tasks (fold (dispatch_variant racc cfg trig) vs di) = di_tasks di @
     map (\<lambda>v. \<lparr> tk_trigger_id = tr_trigger_id trig, tk_sender_id = pt_sender_id v, tk_tx = pt_tx v \<rparr>)
       (filter (known cfg) vs)"
  by (induction vs arbitrary: di) (auto simp: dispatch_variant_fields)

end
