(* ===== verification/Preparer_Props.thy ===== *)
theory Preparer_Props
  imports Preparer "HOL-Library.Multiset"
begin

text \<open>
  Properties of the preparer: what a schedule entry becomes, and what the pool holds for it.
\<close>

section \<open>One variant per sender\<close>

text \<open>A Jito sender can sign when it has a live tip and a tip account, any other sender always.\<close>

definition can_sign :: "preparer_turn \<Rightarrow> sender_slot \<Rightarrow> bool" where
  "can_sign turn slot \<longleftrightarrow> sd_kind (ss_config slot) = Jito \<longrightarrow>
     pn_jito_tips turn (sd_id (ss_config slot)) \<noteq> None \<and> tp_accounts (ss_tip_rotator slot) \<noteq> []"

definition variant_ok ::
  "(transaction \<Rightarrow> signature) \<Rightarrow> schedule_entry \<Rightarrow> hash \<Rightarrow> nonce_id option \<Rightarrow> pre_signed_tx \<Rightarrow> bool" where
  "variant_ok sign entry bh nid v \<longleftrightarrow> pt_blockhash v = bh \<and> tx_blockhash (pt_tx v) = bh \<and>
     pt_nonce_id v = nid \<and> pt_signature v = sign (pt_tx v) \<and>
     concat (map memo_of (tx_instructions (pt_tx v))) =
       [memo_payload (pt_sender_id v) (from_slot_tick (se_slot entry) (se_tick entry))] \<and>
     is_advance (hd (tx_instructions (pt_tx v))) = (nid \<noteq> None)"

lemma sign_variant_some:
  "fst (sign_variant sign cfg turn entry bh nonce nid slot) \<noteq> None \<longleftrightarrow> can_sign turn slot"
  by (auto simp: sign_variant_def can_sign_def rotator_next_def Let_def split: option.split)

lemma sign_variant_ok:
  assumes "fst (sign_variant sign cfg turn entry bh nonce nid slot) = Some v" "(nonce = None) = (nid = None)"
  shows "variant_ok sign entry bh nid v \<and> pt_sender_id v = sd_id (ss_config slot)"
  using assms
  by (auto simp: sign_variant_def variant_ok_def build_def memo_of_build advance_of_build Let_def
      split: prod.splits option.splits if_splits)

lemma map_filter_senders:
  "map pt_sender_id (List.map_filter fst (map (sign_variant sign cfg turn entry bh nonce nid) slots)) =
     map (\<lambda>s. sd_id (ss_config s)) (filter (can_sign turn) slots)"
  if "(nonce = None) = (nid = None)"
proof (induction slots)
  case (Cons s slots)
  show ?case
  proof (cases "fst (sign_variant sign cfg turn entry bh nonce nid s)")
    case None
    then have "\<not> can_sign turn s" using sign_variant_some by metis
    with None Cons show ?thesis by (simp add: List.map_filter_simps)
  next
    case (Some v)
    then have "can_sign turn s" using sign_variant_some by (metis option.discI)
    moreover have "pt_sender_id v = sd_id (ss_config s)" using sign_variant_ok [OF Some that] by simp
    ultimately show ?thesis using Some Cons by (simp add: List.map_filter_simps)
  qed
qed (simp add: List.map_filter_simps)

section \<open>The pool after a preparation\<close>

lemma maybe_evict_keeps:
  assumes "pool_inv (pr_pool p)" "\<not> is_past turn entry"
  shows "pool_get (se_slot entry, se_tick entry) (pr_pool (maybe_evict turn p)) =
    pool_get (se_slot entry, se_tick entry) (pr_pool p)"
proof -
  have "saturating_sub (pn_current_slot turn) 4 \<le> se_slot entry" if "pn_current_slot turn > 0"
  proof -
    have "pn_current_slot turn \<le> se_slot entry + 1" using assms(2) that by (simp add: is_past_def)
    then have "unat (pn_current_slot turn) \<le> Suc (unat (se_slot entry))"
      using mod_less_eq_dividend [of "unat (se_slot entry) + 1" "2 ^ 64"]
      by (simp add: word_le_nat_alt unat_word_ariths)
    then show ?thesis by (simp add: word_le_nat_alt)
  qed
  then show ?thesis using assms(1) by (auto simp: maybe_evict_def Let_def pool_simps word_gt_0)
qed

definition prepared ::
  "(transaction \<Rightarrow> signature) \<Rightarrow> preparer_turn \<Rightarrow> schedule_entry \<Rightarrow> sender_slot list \<Rightarrow> hash \<Rightarrow> nonce_id option \<Rightarrow>
    tx_pool \<Rightarrow> bool" where
  "prepared sign turn entry slots bh nid pool \<longleftrightarrow>
    (case pool_get (se_slot entry, se_tick entry) pool of None \<Rightarrow> False
     | Some vs \<Rightarrow> mset (map pt_sender_id vs) = mset (map (\<lambda>s. sd_id (ss_config s)) (filter (can_sign turn) slots)) \<and>
         list_all (variant_ok sign entry bh nid) vs)"

lemma prepare_entry_prepared:
  assumes perm: "\<And>s xs. mset (shuffle s xs) = mset xs"
    and inv: "pool_inv (pr_pool p)" and np: "\<not> is_past turn entry" and n: "(nonce = None) = (nid = None)"
  shows "prepared sign turn entry (pr_slots p) bh nid
    (pr_pool (prepare_entry sign shuffle cfg turn entry bh nonce nid p))"
proof -
  let ?signed = "map (sign_variant sign cfg turn entry bh nonce nid) (pr_slots p)"
  let ?vs = "shuffle (perm_seed (pf_shuffle_seed cfg) entry) (List.map_filter fst ?signed)"
  have "pool_get (se_slot entry, se_tick entry)
      (pr_pool (prepare_entry sign shuffle cfg turn entry bh nonce nid p)) = Some ?vs"
    unfolding prepare_entry_def Let_def
    by (subst maybe_evict_keeps) (simp_all add: inv np pool_simps)
  moreover have "mset (map pt_sender_id ?vs) = mset (map (\<lambda>s. sd_id (ss_config s)) (filter (can_sign turn) (pr_slots p)))"
    unfolding mset_map perm by (simp only: mset_map [symmetric] map_filter_senders [OF n])
  moreover have "list_all (variant_ok sign entry bh nid) ?vs"
  proof -
    have "set ?vs = set (List.map_filter fst ?signed)" using perm by (metis set_mset_mset)
    moreover have "variant_ok sign entry bh nid v" if "v \<in> set (List.map_filter fst ?signed)" for v
    proof -
      have "Some v \<in> fst ` set ?signed" using that by (force simp: List.map_filter_def)
      then obtain s where "fst (sign_variant sign cfg turn entry bh nonce nid s) = Some v"
        unfolding set_map image_image by (metis imageE)
      from sign_variant_ok [OF this n] show ?thesis by blast
    qed
    ultimately show ?thesis unfolding list_all_iff by blast
  qed
  ultimately show ?thesis by (simp add: prepared_def)
qed

lemma maybe_evict_nonces [simp]: "pr_nonces (maybe_evict turn p) = pr_nonces p"
  "pr_pending (maybe_evict turn p) = pr_pending p"
  by (simp_all add: maybe_evict_def Let_def)

text \<open>C24: What becomes of a schedule entry. It is dropped only when its slot is over; it is kept
  for the next iteration, pool unchanged, when no nonce is ready or no blockhash was fetched
  yet; otherwise the pool holds for its (slot, tick) one variant per enabled sender (a Jito
  sender needs a live tip), in shuffled order, each with the memo of this sender and trigger,
  signed over the blockhash, and in nonce mode all with the one nonce that was taken, whose advance
  is the first instruction. No entry is lost and no sender is favoured or forgotten.\<close>
theorem preparer_settles_entry:
  assumes perm: "\<And>s xs. mset (shuffle s xs) = mset xs" and inv: "pool_inv (pr_pool p)"
  shows "let p' = handle_schedule_entry sign shuffle cfg turn entry p in
    (is_past turn entry \<and> pr_pool p' = pr_pool p \<and> pr_nonces p' = pr_nonces p) \<or>
    (\<not> is_past turn entry \<and> pr_pending p' = Some entry \<and> pr_pool p' = pr_pool p \<and>
      (if pf_nonce_mode cfg then fst (take_ready (pn_now turn) (pr_nonces p)) = None else bc_is_empty (pn_blockhash turn))) \<or>
    (\<not> is_past turn entry \<and>
      (if pf_nonce_mode cfg
       then \<exists>nid pk bh. take_ready (pn_now turn) (pr_nonces p) = (Some (nid, pk, bh), pr_nonces p') \<and>
              prepared sign turn entry (pr_slots p) bh (Some nid) (pr_pool p')
       else \<not> bc_is_empty (pn_blockhash turn) \<and>
              prepared sign turn entry (pr_slots p) (current (pn_blockhash turn)) None (pr_pool p')))"
proof (cases "is_past turn entry")
  case True
  then show ?thesis by (simp add: handle_schedule_entry_def Let_def)
next
  case past: False
  note prep = prepare_entry_prepared [OF perm _ past]
  show ?thesis
  proof (cases "pf_nonce_mode cfg")
    case True
    obtain r nm where t: "take_ready (pn_now turn) (pr_nonces p) = (r, nm)" by fastforce
    show ?thesis
    proof (cases r)
      case None
      then show ?thesis using past True t by (simp add: handle_schedule_entry_def Let_def)
    next
      case (Some x)
      obtain nid pk bh where x: "x = (nid, pk, bh)" by (cases x) auto
      let ?np = "Some \<lparr> np_nonce_pubkey = pk, np_authority = pf_keypair cfg \<rparr>"
      have "prepared sign turn entry (pr_slots p) bh (Some nid)
          (pr_pool (prepare_entry sign shuffle cfg turn entry bh ?np (Some nid) (p\<lparr>pr_nonces := nm\<rparr>)))"
        using prep [where p = "p\<lparr>pr_nonces := nm\<rparr>" and nonce = ?np and nid = "Some nid"] inv by simp
      moreover have "pr_nonces (prepare_entry sign shuffle cfg turn entry bh ?np (Some nid) (p\<lparr>pr_nonces := nm\<rparr>)) = nm"
        by (simp add: prepare_entry_def Let_def)
      ultimately show ?thesis using past True t Some x by (simp add: handle_schedule_entry_def Let_def)
    qed
  next
    case False
    then show ?thesis using past prep [where p = p and nonce = None and nid = None] inv
      by (cases "bc_is_empty (pn_blockhash turn)") (simp_all add: handle_schedule_entry_def Let_def)
  qed
qed

text \<open>A run: one sender without tip and one without a live Jito tip, fresh-blockhash mode.\<close>

definition demo_sender :: "u8 \<Rightarrow> sender_kind \<Rightarrow> sender_slot" where
  "demo_sender i k = \<lparr> ss_config = \<lparr> sd_id = i, sd_name = [], sd_kind = k, sd_endpoint_url = [], sd_api_key = [],
     sd_tls_cert_path = [], sd_tls_key_path = [], sd_tip_lamports = 0, sd_enabled = True, sd_regions = [],
     sd_outbound_ips = [], sd_min_send_interval_ms = 0, sd_tip_percentile = 75, sd_tip_floor_lamports = 15000,
     sd_tip_ceiling_lamports = 2000000, sd_tip_refresh_interval_ms = 30000 \<rparr>,
     ss_tip_rotator = rotator_new [77] \<rparr>"

definition demo_preparer :: preparer where
  "demo_preparer = \<lparr> pr_slots = [demo_sender 0 Triton, demo_sender 1 Jito], pr_pool = pool_new,
     pr_nonces = nonce_manager_new [], pr_pending = None, pr_last_evict = 0,
     pr_counters = preparer_counters_default \<rparr>"

definition demo_prep_cfg :: preparer_config where
  "demo_prep_cfg = \<lparr> pf_keypair = 1, pf_tx_cfg = tx_config_of None None None, pf_senders = [],
     pf_shuffle_seed = 0, pf_nonce_mode = False \<rparr>"

definition demo_prep_turn :: preparer_turn where
  "demo_prep_turn = \<lparr> pn_stop = False, pn_now = 10, pn_current_slot = 5,
     pn_blockhash = \<lparr> bc_inner = 9, bc_last_refresh_ns = 1, bc_refresh_errors = 0 \<rparr>,
     pn_jito_tips = (\<lambda>i. None), pn_recv = RecvTimeout \<rparr>"

lemma preparer_settles_entry_witness:
  "prepared (\<lambda>_. 0) demo_prep_turn \<lparr> se_slot = 6, se_tick = 3 \<rparr> (pr_slots demo_preparer) 9 None
     (pr_pool (handle_schedule_entry (\<lambda>_. 0) (\<lambda>s xs. xs) demo_prep_cfg demo_prep_turn \<lparr> se_slot = 6, se_tick = 3 \<rparr> demo_preparer))"
  using preparer_settles_entry [where shuffle = "\<lambda>s xs. xs" and p = demo_preparer and turn = demo_prep_turn
    and entry = "\<lparr> se_slot = 6, se_tick = 3 \<rparr>" and sign = "\<lambda>_. 0" and cfg = demo_prep_cfg]
  by (simp add: Let_def is_past_def demo_prep_turn_def demo_prep_cfg_def demo_preparer_def pool_inv_new bc_is_empty_def current_def)

end
