(* ===== verification/Recorder_Props.thy ===== *)
theory Recorder_Props
  imports Recorder "HOL-Library.Multiset"
begin

text \<open>
  Properties of the recorder: one record per registered attempt, the landed records are the
  matched ones, and the summary is the total of what was written. \<open>rec_ok\<close> is the invariant
  over the registrations received so far, for registrations with distinct keys and signatures
  (a trigger id and a sender are registered once, and a signature belongs to one transaction).
\<close>

section \<open>Hash maps as multisets of keys\<close>

lemma mset_keys_insert:
  assumes "hm_inv m"
  shows "mset (map_keys (hm_insert k v m)) =
    (if map_of m k = None then add_mset k (mset (map_keys m)) else mset (map_keys m))"
proof -
  have d: "distinct (map_keys m)" "distinct (map_keys (hm_insert k v m))"
    using assms hm.invar_insert [OF assms, of k v] by (simp_all add: hm_inv_def)
  have "set (map_keys (hm_insert k v m)) = insert k (set (map_keys m))"
    using hm.set_keys_insert [of k v m] by auto
  then show ?thesis
    using d by (simp add: mset_set_set [symmetric] insert_absorb map_of_eq_None_iff del: mset_map)
qed

lemma mset_keys_remove:
  assumes "hm_inv m" "map_of m k = Some v"
  shows "mset (map_keys m) = add_mset k (mset (map_keys (hm_remove k m)))"
proof -
  have d: "distinct (map_keys m)" "distinct (map_keys (hm_remove k m))"
    using assms hm.invar_remove [OF assms(1), of k] by (simp_all add: hm_inv_def)
  have "set (map_keys m) = insert k (set (map_keys (hm_remove k m)))" "k \<notin> set (map_keys (hm_remove k m))"
    using hm.set_keys_remove [of k m] hm.in_keys [of k m] assms(2) by auto
  then show ?thesis
    using d by (metis finite_set mset_set.insert mset_set_set)
qed

section \<open>The invariant\<close>

definition reg_key :: "register_event \<Rightarrow> attempt_key" where
  "reg_key reg = (re_trigger_id reg, re_sender_id reg)"

definition rec_key :: "trigger_record \<Rightarrow> attempt_key" where
  "rec_key r = (rr_trigger_id r, rr_sender_id r)"

definition written :: "recorder \<Rightarrow> trigger_record list" where
  "written rs = attempts (rs_file rs)"

definition fresh_regs :: "register_event list \<Rightarrow> bool" where
  "fresh_regs regs \<longleftrightarrow> distinct (map reg_key regs) \<and> distinct (map re_signature regs)"

definition in_flight :: "attempt_key \<Rightarrow> register_event \<Rightarrow> recorder \<Rightarrow> bool" where
  "in_flight k reg rs \<longleftrightarrow> (\<exists>att. map_of (rs_attempts rs) k = Some att \<and> ta_register att = Some reg)"

definition rec_ok :: "register_event list \<Rightarrow> recorder \<Rightarrow> bool" where
  "rec_ok regs rs \<longleftrightarrow> hm_inv (rs_attempts rs) \<and> hm_inv (rs_sig_to_key rs) \<and>
     (\<forall>k. map_of (rs_attempts rs) k \<noteq> None \<longrightarrow> (\<exists>reg \<in> set regs. in_flight k reg rs \<and> reg_key reg = k \<and>
        map_of (rs_sig_to_key rs) (re_signature reg) = Some k)) \<and>
     (\<forall>sig k. map_of (rs_sig_to_key rs) sig = Some k \<longrightarrow> (\<exists>reg. in_flight k reg rs \<and> re_signature reg = sig)) \<and>
     mset (map rec_key (written rs)) + mset (map_keys (rs_attempts rs)) = mset (map reg_key regs)"

lemma rec_ok_init: "rec_ok [] (recorder_init now)"
  by (simp add: rec_ok_def recorder_init_def written_def)

lemma rec_ok_cong:
  "rs_attempts rs' = rs_attempts rs \<Longrightarrow> rs_sig_to_key rs' = rs_sig_to_key rs \<Longrightarrow> rs_file rs' = rs_file rs \<Longrightarrow>
    rec_ok regs rs' = rec_ok regs rs"
  by (simp add: rec_ok_def written_def in_flight_def)

lemma rec_ok_attempt:
  assumes "rec_ok regs rs" "map_of (rs_attempts rs) k = Some att"
  obtains reg where "reg \<in> set regs" "ta_register att = Some reg" "reg_key reg = k"
    "map_of (rs_sig_to_key rs) (re_signature reg) = Some k"
proof -
  have "\<exists>reg \<in> set regs. in_flight k reg rs \<and> reg_key reg = k \<and>
      map_of (rs_sig_to_key rs) (re_signature reg) = Some k"
    using assms unfolding rec_ok_def by blast
  then show ?thesis using assms(2) that by (auto simp: in_flight_def)
qed

lemma fresh_regs_snoc:
  "fresh_regs (regs @ [reg]) \<longleftrightarrow> fresh_regs regs \<and> reg_key reg \<notin> reg_key ` set regs \<and>
    re_signature reg \<notin> re_signature ` set regs"
  by (auto simp: fresh_regs_def)

text \<open>A registration adds its key to those in flight.\<close>

lemma rec_ok_register:
  assumes ok: "rec_ok regs rs" and fresh: "fresh_regs (regs @ [reg])"
  shows "rec_ok (regs @ [reg]) (handle_register cfg reg rs)"
proof -
  let ?k = "reg_key reg" and ?rs' = "handle_register cfg reg rs"
  have nk: "map_of (rs_attempts rs) ?k = None"
  proof (rule ccontr)
    assume "map_of (rs_attempts rs) ?k \<noteq> None"
    then obtain r where "r \<in> set regs" "reg_key r = ?k" using ok unfolding rec_ok_def by blast
    then show False using fresh unfolding fresh_regs_snoc by (metis image_eqI)
  qed
  have ns: "map_of (rs_sig_to_key rs) (re_signature reg) = None"
  proof (rule ccontr)
    assume "map_of (rs_sig_to_key rs) (re_signature reg) \<noteq> None"
    then obtain k r where "in_flight k r rs" "re_signature r = re_signature reg"
      using ok unfolding rec_ok_def by blast
    then obtain att where att: "map_of (rs_attempts rs) k = Some att" "ta_register att = Some r"
      by (auto simp: in_flight_def)
    from ok att(1) have "r \<in> set regs" by (rule rec_ok_attempt) (simp add: att(2))
    then show False using \<open>re_signature r = re_signature reg\<close> fresh unfolding fresh_regs_snoc by (metis image_eqI)
  qed
  have fl: "in_flight k r ?rs' \<longleftrightarrow> (if k = ?k then r = reg else in_flight k r rs)" for k r
    by (auto simp: in_flight_def handle_register_def reg_key_def hm.lookup_insert Let_def)
  have s: "map_of (rs_sig_to_key ?rs') sig = (if sig = re_signature reg then Some ?k else map_of (rs_sig_to_key rs) sig)"
    and a: "map_of (rs_attempts ?rs') k = None \<longleftrightarrow> k \<noteq> ?k \<and> map_of (rs_attempts rs) k = None" for sig k
    by (simp_all add: handle_register_def reg_key_def hm.lookup_insert Let_def)
  have "\<exists>r \<in> set (regs @ [reg]). in_flight k r ?rs' \<and> reg_key r = k \<and> map_of (rs_sig_to_key ?rs') (re_signature r) = Some k"
    if "map_of (rs_attempts ?rs') k \<noteq> None" for k
  proof (cases "k = ?k")
    case False
    then have "map_of (rs_attempts rs) k \<noteq> None" using that unfolding a by simp
    then obtain r where "r \<in> set regs" "in_flight k r rs" "reg_key r = k" "map_of (rs_sig_to_key rs) (re_signature r) = Some k"
      using ok unfolding rec_ok_def by blast
    moreover from this have "re_signature r \<noteq> re_signature reg" using ns by auto
    ultimately show ?thesis using False by (intro bexI [of _ r]) (auto simp: fl s)
  qed (simp add: fl s)
  moreover have "\<exists>r. in_flight k r ?rs' \<and> re_signature r = sig" if "map_of (rs_sig_to_key ?rs') sig = Some k" for sig k
  proof (cases "sig = re_signature reg")
    case False
    then have "map_of (rs_sig_to_key rs) sig = Some k" using that by (simp add: s)
    then obtain r where "in_flight k r rs" "re_signature r = sig" using ok unfolding rec_ok_def by blast
    moreover from this have "k \<noteq> ?k" using nk by (auto simp: in_flight_def)
    ultimately show ?thesis by (intro exI [of _ r]) (simp add: fl)
  next
    case True
    then have "k = ?k" using that by (simp add: s)
    then show ?thesis using True by (intro exI [of _ reg]) (simp add: fl)
  qed
  moreover have "mset (map_keys (rs_attempts ?rs')) = add_mset ?k (mset (map_keys (rs_attempts rs)))"
    using ok nk by (simp add: handle_register_def mset_keys_insert rec_ok_def reg_key_def Let_def del: mset_map)
  moreover have "written ?rs' = written rs" by (simp add: written_def handle_register_def Let_def)
  moreover have "hm_inv (rs_attempts ?rs')" "hm_inv (rs_sig_to_key ?rs')"
    using ok by (simp_all add: rec_ok_def handle_register_def hm.invar_insert Let_def)
  ultimately show ?thesis using ok unfolding rec_ok_def by (simp del: mset_map)
qed

text \<open>The end of an attempt moves its key from those in flight to those written.\<close>

lemma written_emit:
  "written (emit_record wacc cfg att outcome rs) = written rs @ (case ta_register att of None \<Rightarrow> []
     | Some reg \<Rightarrow> [make_record cfg reg (ta_send att) (ta_matched att) outcome])"
  "rs_attempts (emit_record wacc cfg att outcome rs) = rs_attempts rs"
  "rs_sig_to_key (emit_record wacc cfg att outcome rs) = rs_sig_to_key rs"
  "rs_agg (emit_record wacc cfg att outcome rs) = rs_agg rs"
  by (simp_all add: emit_record_def written_def try_send_def Let_def split: option.split)

lemma finish_fields:
  assumes "ta_register att = Some reg"
  shows "written (finish wacc cfg outcome us key att rs) =
      written rs @ [make_record cfg reg (ta_send att) (ta_matched att) outcome]"
    "rs_attempts (finish wacc cfg outcome us key att rs) = hm_remove key (rs_attempts rs)"
    "rs_sig_to_key (finish wacc cfg outcome us key att rs) = hm_remove (re_signature reg) (rs_sig_to_key rs)"
    "rs_agg (finish wacc cfg outcome us key att rs) =
      record_outcome (re_trigger_id reg) (re_sender_id reg) outcome us (rs_agg rs)"
  using assms by (simp_all add: finish_def Let_def written_emit written_def [of "recorder_ext _ _ _ _ _ _ _ _"])
    (simp_all add: written_def emit_record_def try_send_def Let_def)

lemma rec_key_make: "rec_key (make_record cfg reg s m outcome) = reg_key reg"
  "rr_tx_signature (make_record cfg reg s m outcome) = re_signature reg"
  "rr_final_outcome (make_record cfg reg s m outcome) = outcome"
  by (simp_all add: make_record_def Let_def rec_key_def reg_key_def)

lemma rec_ok_finish:
  assumes ok: "rec_ok regs rs" and k: "map_of (rs_attempts rs) k = Some att0"
    and r: "ta_register att = ta_register att0"
  shows "rec_ok regs (finish wacc cfg outcome us k att rs)"
proof -
  from ok k obtain reg where reg: "reg \<in> set regs" "ta_register att0 = Some reg" "reg_key reg = k"
      "map_of (rs_sig_to_key rs) (re_signature reg) = Some k" by (rule rec_ok_attempt)
  have att: "ta_register att = Some reg" using r reg(2) by simp
  let ?rs' = "finish wacc cfg outcome us k att rs"
  have fl: "in_flight j q ?rs' \<longleftrightarrow> j \<noteq> k \<and> in_flight j q rs" for j q
    by (auto simp: in_flight_def finish_fields [OF att] hm.lookup_remove)
  have s: "map_of (rs_sig_to_key ?rs') sig = (if sig = re_signature reg then None else map_of (rs_sig_to_key rs) sig)"
    and a: "map_of (rs_attempts ?rs') j = None \<longleftrightarrow> j = k \<or> map_of (rs_attempts rs) j = None" for sig j
    by (simp_all add: finish_fields [OF att] hm.lookup_remove)
  have c1: "\<exists>q \<in> set regs. in_flight j q ?rs' \<and> reg_key q = j \<and> map_of (rs_sig_to_key ?rs') (re_signature q) = Some j"
    if j: "map_of (rs_attempts ?rs') j \<noteq> None" for j
  proof -
    have nj: "j \<noteq> k \<and> map_of (rs_attempts rs) j \<noteq> None" using j unfolding a by simp
    then have jk: "j \<noteq> k" ..
    obtain q where q: "q \<in> set regs" "in_flight j q rs" "reg_key q = j" "map_of (rs_sig_to_key rs) (re_signature q) = Some j"
      using ok nj unfolding rec_ok_def by blast
    then have "re_signature q \<noteq> re_signature reg" using reg(4) jk by auto
    then show ?thesis using q jk by (auto simp: fl s)
  qed
  have c2: "\<exists>q. in_flight j q ?rs' \<and> re_signature q = sig" if "map_of (rs_sig_to_key ?rs') sig = Some j" for sig j
  proof -
    have sig: "sig \<noteq> re_signature reg" "map_of (rs_sig_to_key rs) sig = Some j"
      using that by (auto simp: s split: if_splits)
    then obtain q where q: "in_flight j q rs" "re_signature q = sig" using ok unfolding rec_ok_def by blast
    have "j \<noteq> k" using q sig k reg(2) by (auto simp: in_flight_def)
    then show ?thesis using q by (auto simp: fl)
  qed
  have "mset (map_keys (rs_attempts rs)) = add_mset k (mset (map_keys (rs_attempts ?rs')))"
    using ok k by (simp add: finish_fields [OF att] rec_ok_def mset_keys_remove del: mset_map)
  moreover have "mset (map rec_key (written ?rs')) = add_mset k (mset (map rec_key (written rs)))"
    by (simp add: finish_fields [OF att] rec_key_make reg(3))
  ultimately have c3: "mset (map rec_key (written ?rs')) + mset (map_keys (rs_attempts ?rs')) = mset (map reg_key regs)"
    using ok by (simp add: rec_ok_def del: mset_map)
  have c4: "hm_inv (rs_attempts ?rs')" "hm_inv (rs_sig_to_key ?rs')"
    using ok by (simp_all add: finish_fields [OF att] rec_ok_def hm.invar_remove)
  show ?thesis unfolding rec_ok_def using c1 c2 c3 c4 by blast
qed

text \<open>Every step keeps the invariant: a send outcome or a match changes an attempt in place or
  ends it, a sweep and the flush end attempts.\<close>

lemma rec_ok_update:
  assumes ok: "rec_ok regs rs" and k: "map_of (rs_attempts rs) k = Some att0"
    and r: "ta_register att = ta_register att0"
  shows "rec_ok regs (rs\<lparr>rs_attempts := hm_insert k att (rs_attempts rs)\<rparr>)"
proof -
  let ?rs' = "rs\<lparr>rs_attempts := hm_insert k att (rs_attempts rs)\<rparr>"
  have "in_flight j q ?rs' = in_flight j q rs" for j q
    using k r by (auto simp: in_flight_def hm.lookup_insert)
  moreover have "map_of (rs_attempts ?rs') j = None \<longleftrightarrow> map_of (rs_attempts rs) j = None" for j
    using k by (auto simp: hm.lookup_insert)
  moreover have "mset (map_keys (rs_attempts ?rs')) = mset (map_keys (rs_attempts rs))"
    using ok k by (simp add: mset_keys_insert rec_ok_def del: mset_map)
  moreover have "hm_inv (rs_attempts ?rs')" using ok by (simp add: rec_ok_def hm.invar_insert)
  ultimately show ?thesis using ok by (simp add: rec_ok_def written_def del: mset_map)
qed

lemma rec_ok_handle_send: "rec_ok regs rs \<Longrightarrow> rec_ok regs (handle_send wacc cfg s rs)"
proof -
  assume ok: "rec_ok regs rs"
  show ?thesis
  proof (cases "map_of (rs_attempts rs) (sv_trigger_id s, sv_sender_id s)")
    case (Some att)
    have u: "rec_ok regs (rs\<lparr>rs_attempts := hm_insert (sv_trigger_id s, sv_sender_id s) (att\<lparr>ta_send := Some s\<rparr>) (rs_attempts rs)\<rparr>)"
      by (rule rec_ok_update [OF ok Some]) simp
    then show ?thesis using Some
      by (auto simp: handle_send_def Let_def hm.lookup_insert intro!: rec_ok_finish [OF u])
  qed (use ok in \<open>simp add: handle_send_def\<close>)
qed

lemma nonce_hook_fields [simp]:
  "rs_attempts (nonce_hook hashv cfg cache now m att rs) = rs_attempts rs"
  "rs_sig_to_key (nonce_hook hashv cfg cache now m att rs) = rs_sig_to_key rs"
  "rs_file (nonce_hook hashv cfg cache now m att rs) = rs_file rs"
  "rs_agg (nonce_hook hashv cfg cache now m att rs) = rs_agg rs"
  by (simp_all add: nonce_hook_def Let_def split: option.split prod.split)

lemma rec_ok_handle_match: "rec_ok regs rs \<Longrightarrow> rec_ok regs (handle_match wacc hashv cfg cache now m rs)"
proof -
  assume ok: "rec_ok regs rs"
  show ?thesis
  proof (cases "map_of (rs_sig_to_key rs) (mt_signature m)")
    case (Some key)
    then obtain reg att where att: "map_of (rs_attempts rs) key = Some att" "ta_register att = Some reg"
      using ok unfolding rec_ok_def in_flight_def by blast
    let ?rs1 = "nonce_hook hashv cfg cache now m (att\<lparr>ta_matched := Some m\<rparr>) rs"
    have ok1: "rec_ok regs ?rs1" using ok rec_ok_cong [of ?rs1 rs regs] by simp
    have "rec_ok regs (finish wacc cfg Landed us key (att\<lparr>ta_matched := Some m\<rparr>) ?rs1)" for us
      by (rule rec_ok_finish [OF ok1, of key att]) (simp_all add: att)
    then show ?thesis using Some att by (simp add: handle_match_def Let_def)
  qed (use ok in \<open>simp add: handle_match_def\<close>)
qed

lemma rec_ok_expire: "rec_ok regs rs \<Longrightarrow> rec_ok regs (expire wacc cfg k rs)"
  by (auto simp: expire_def split: option.split intro: rec_ok_finish)

lemma rec_ok_expires: "rec_ok regs rs \<Longrightarrow> rec_ok regs (fold (expire wacc cfg) ks rs)"
  by (induction ks arbitrary: rs) (auto simp: rec_ok_expire)

lemma rec_ok_sweep: "rec_ok regs rs \<Longrightarrow> rec_ok regs (maybe_sweep_deadlines wacc cfg now rs)"
  by (simp add: maybe_sweep_deadlines_def sweep_deadlines_def rec_ok_expires
      rec_ok_cong [of "rs\<lparr>rs_last_sweep := now\<rparr>" rs])

text \<open>The registrations among the turns the loop takes.\<close>

definition turn_regs :: "recorder_turn \<Rightarrow> register_event list" where
  "turn_regs t = (case t of RecRegister reg \<Rightarrow> [reg] | _ \<Rightarrow> [])"

definition regs_of :: "(recorder_turn \<times> instant) list \<Rightarrow> register_event list" where
  "regs_of ts = concat (map (\<lambda>(t, now). turn_regs t) (takeWhile (\<lambda>(t, now). t \<noteq> RecStopped) ts))"

lemma regs_of_simps [simp]:
  "regs_of [] = []"
  "regs_of ((t, now) # ts) = (if t = RecStopped then [] else turn_regs t @ regs_of ts)"
  by (simp_all add: regs_of_def)

lemma fresh_prefix: "fresh_regs (xs @ ys) \<Longrightarrow> fresh_regs xs"
  by (simp add: fresh_regs_def)

lemma rec_ok_handle:
  assumes ok: "rec_ok regs rs" and fresh: "fresh_regs (regs @ turn_regs t)"
  shows "rec_ok (regs @ turn_regs t) (recorder_handle wacc hashv cfg t rs)"
proof -
  have c: "rec_ok regs (rs\<lparr>rs_counters := c, rs_agg := a\<rparr>)" "rec_ok regs (rs\<lparr>rs_counters := c\<rparr>)" for c a
    using ok rec_ok_cong [of "rs\<lparr>rs_counters := c, rs_agg := a\<rparr>" rs regs]
      rec_ok_cong [of "rs\<lparr>rs_counters := c\<rparr>" rs regs] by simp_all
  show ?thesis
  proof (cases t)
    case (RecRegister reg)
    then show ?thesis using fresh rec_ok_register [OF c(1)]
      by (simp add: recorder_handle_def Let_def turn_regs_def)
  next
    case (RecSend s)
    then show ?thesis using rec_ok_handle_send [OF c(1)] by (simp add: recorder_handle_def Let_def turn_regs_def)
  next
    case (RecMatch m cache now)
    then show ?thesis using rec_ok_handle_match [OF c(2)] by (simp add: recorder_handle_def Let_def turn_regs_def)
  qed (use ok in \<open>simp_all add: recorder_handle_def turn_regs_def\<close>)
qed

lemma rec_ok_loop:
  assumes "rec_ok regs rs" "fresh_regs (regs @ regs_of ts)"
  shows "rec_ok (regs @ regs_of ts) (recorder_loop wacc hashv cfg ts rs)"
  using assms
proof (induction ts arbitrary: regs rs)
  case (Cons x ts)
  obtain t now where [simp]: "x = (t, now)" by (cases x)
  show ?case
  proof (cases "t = RecStopped")
    case False
    then have f: "fresh_regs ((regs @ turn_regs t) @ regs_of ts)" using Cons.prems by simp
    have "rec_ok (regs @ turn_regs t) (maybe_sweep_deadlines wacc cfg now (recorder_handle wacc hashv cfg t rs))"
      using rec_ok_sweep [OF rec_ok_handle [OF Cons.prems(1) fresh_prefix [OF f]]] .
    from Cons.IH [OF this f] show ?thesis using False by simp
  qed (use Cons.prems in simp)
qed simp

section \<open>The flush\<close>

lemma expire_attempts:
  "map_of (rs_attempts (expire wacc cfg k rs)) j = (if j = k then None else map_of (rs_attempts rs) j)"
  by (auto simp: expire_def finish_def Let_def written_emit hm.lookup_remove split: option.splits)

lemma expires_attempts:
  "map_of (rs_attempts (fold (expire wacc cfg) ks rs)) j =
    (if j \<in> set ks then None else map_of (rs_attempts rs) j)"
  by (induction ks arbitrary: rs) (auto simp: expire_attempts)

lemma flush_attempts: "rs_attempts (recorder_flush wacc cfg rs) = []"
proof -
  have "map_of (rs_attempts (recorder_flush wacc cfg rs)) j = None" for j
    using hm.in_keys [of j "rs_attempts rs"] by (simp add: recorder_flush_def expires_attempts)
  then have "map_keys (rs_attempts (recorder_flush wacc cfg rs)) = []"
    using hm.set_keys [of "rs_attempts (recorder_flush wacc cfg rs)"] by (simp del: map_is_Nil_conv)
  then show ?thesis by simp
qed

lemma rec_ok_run:
  assumes "fresh_regs (regs_of ts)"
  shows "rec_ok (regs_of ts) (recorder_run wacc hashv cfg start ts)"
proof -
  have "rec_ok ([] @ regs_of ts) (recorder_loop wacc hashv cfg ts (recorder_init start))"
    using assms by (intro rec_ok_loop) (simp_all add: rec_ok_init)
  then show ?thesis by (simp add: recorder_run_def recorder_flush_def rec_ok_expires)
qed

lemma run_keys:
  assumes "fresh_regs (regs_of ts)"
  shows "mset (map rec_key (written (recorder_run wacc hashv cfg start ts))) = mset (map reg_key (regs_of ts))"
proof -
  have e: "rs_attempts (recorder_run wacc hashv cfg start ts) = []"
    by (simp add: recorder_run_def flush_attempts)
  have "mset (map rec_key (written (recorder_run wacc hashv cfg start ts))) +
      mset (map_keys (rs_attempts (recorder_run wacc hashv cfg start ts))) = mset (map reg_key (regs_of ts))"
    using rec_ok_run [OF assms] unfolding rec_ok_def by (simp del: mset_map)
  then show ?thesis by (simp add: e)
qed

text \<open>C3: Exactly one record per send attempt. Whatever the order of the registrations, send
  outcomes, matches, sweeps and stops, and whatever the output file refuses, once the recorder
  has flushed it has written, for each registration it received, one record with its trigger and
  sender, and no other record: an attempt that lands, fails and times out is not written twice and
  none is forgotten. Trigger and sender identify a registration, and no signature is reused.\<close>
theorem recorder_one_record_each:
  assumes "fresh_regs (regs_of ts)"
  shows "mset (map rec_key (written (recorder_run wacc hashv cfg start ts))) = mset (map reg_key (regs_of ts))"
  using assms by (rule run_keys)

section \<open>Outcomes\<close>

text \<open>The outcome of a record can be read off its other fields.\<close>

definition classify :: "trigger_record \<Rightarrow> final_outcome" where
  "classify r = (if rr_send_error r \<noteq> None then SendError
     else if rr_observed_slot r \<noteq> None then Landed else UnknownPending)"

definition unsettled :: "trigger_attempt \<Rightarrow> bool" where
  "unsettled att \<longleftrightarrow> ta_register att \<noteq> None \<and> ta_matched att = None \<and>
     Option.bind (map_option sv_outcome (ta_send att)) so_error = None"

definition settled_ok :: "recorder \<Rightarrow> bool" where
  "settled_ok rs \<longleftrightarrow> (\<forall>k att. map_of (rs_attempts rs) k = Some att \<longrightarrow> unsettled att) \<and>
     map rr_final_outcome (written rs) = map classify (written rs)"

lemma settled_okD:
  "settled_ok rs \<Longrightarrow> map_of (rs_attempts rs) k = Some att \<Longrightarrow> unsettled att"
  "settled_ok rs \<Longrightarrow> map rr_final_outcome (written rs) = map classify (written rs)"
  unfolding settled_ok_def by blast+

lemma settled_ok_cong:
  "rs_attempts rs' = rs_attempts rs \<Longrightarrow> rs_file rs' = rs_file rs \<Longrightarrow> settled_ok rs' = settled_ok rs"
  by (simp add: settled_ok_def written_def)

lemma classify_make:
  "classify (make_record cfg reg s m outcome) =
    (if Option.bind (map_option sv_outcome s) so_error \<noteq> None then SendError
     else if m \<noteq> None then Landed else UnknownPending)"
  by (simp add: classify_def make_record_def Let_def)

lemma settled_ok_finish:
  assumes "\<And>j a. j \<noteq> k \<Longrightarrow> map_of (rs_attempts rs) j = Some a \<Longrightarrow> unsettled a"
    "map rr_final_outcome (written rs) = map classify (written rs)"
    "ta_register att \<noteq> None"
    "outcome = (if Option.bind (map_option sv_outcome (ta_send att)) so_error \<noteq> None then SendError
       else if ta_matched att \<noteq> None then Landed else UnknownPending)"
  shows "settled_ok (finish wacc cfg outcome us k att rs)"
proof -
  obtain reg where reg: "ta_register att = Some reg" using assms(3) by blast
  show ?thesis
    using assms(1,2,4)
    by (auto simp: settled_ok_def finish_fields [OF reg] hm.lookup_remove classify_make rec_key_make split: if_splits)
qed

lemma settled_ok_end:
  assumes "settled_ok rs" "ta_register att \<noteq> None"
    "outcome = (if Option.bind (map_option sv_outcome (ta_send att)) so_error \<noteq> None then SendError
       else if ta_matched att \<noteq> None then Landed else UnknownPending)"
  shows "settled_ok (finish wacc cfg outcome us k att rs)"
  by (rule settled_ok_finish) (rule settled_okD [OF assms(1)] assms; assumption?)+

lemma settled_ok_handle_send: "settled_ok rs \<Longrightarrow> settled_ok (handle_send wacc cfg s rs)"
proof -
  assume ok: "settled_ok rs"
  let ?k = "(sv_trigger_id s, sv_sender_id s)"
  show ?thesis
  proof (cases "map_of (rs_attempts rs) ?k")
    case (Some att)
    with ok have u: "unsettled att" by (rule settled_okD)
    let ?att = "att\<lparr>ta_send := Some s\<rparr>"
    let ?rs1 = "rs\<lparr>rs_attempts := hm_insert ?k ?att (rs_attempts rs)\<rparr>"
    have j: "j \<noteq> ?k \<Longrightarrow> map_of (rs_attempts ?rs1) j = Some a \<Longrightarrow> unsettled a" for j a
      using settled_okD(1) [OF ok, of j a] by (simp add: hm.lookup_insert)
    have w: "map rr_final_outcome (written ?rs1) = map classify (written ?rs1)"
      using ok by (simp add: settled_ok_def written_def)
    have "settled_ok (finish wacc cfg SendError None ?k ?att ?rs1)" if "so_error (sv_outcome s) \<noteq> None"
      by (rule settled_ok_finish [OF j w]) (use u that in \<open>simp_all add: unsettled_def\<close>)
    moreover have "settled_ok ?rs1" if "so_error (sv_outcome s) = None"
      using ok u that w by (auto simp: settled_ok_def unsettled_def hm.lookup_insert)
    ultimately show ?thesis using Some by (simp add: handle_send_def Let_def)
  qed (use ok in \<open>simp add: handle_send_def\<close>)
qed

lemma settled_ok_handle_match:
  assumes ok: "settled_ok rs"
  shows "settled_ok (handle_match wacc hashv cfg cache now m rs)"
proof (cases "map_of (rs_sig_to_key rs) (mt_signature m)")
  case (Some key)
  show ?thesis
  proof (cases "map_of (rs_attempts rs) key")
    case None
    then show ?thesis using Some ok
      by (simp add: handle_match_def settled_ok_cong [of "rs\<lparr>rs_sig_to_key := _\<rparr>" rs])
  next
    case (Some att)
    with ok have u: "unsettled att" by (rule settled_okD)
    let ?rs1 = "nonce_hook hashv cfg cache now m (att\<lparr>ta_matched := Some m\<rparr>) rs"
    have "settled_ok ?rs1" using ok by (simp add: settled_ok_cong [of ?rs1 rs])
    then have "settled_ok (finish wacc cfg Landed us key (att\<lparr>ta_matched := Some m\<rparr>) ?rs1)" for us
      by (rule settled_ok_end) (use u in \<open>simp_all add: unsettled_def\<close>)
    then show ?thesis using Some \<open>map_of (rs_sig_to_key rs) (mt_signature m) = Some key\<close>
      by (simp add: handle_match_def Let_def)
  qed
qed (use ok in \<open>simp add: handle_match_def\<close>)

lemma settled_ok_expire: "settled_ok rs \<Longrightarrow> settled_ok (expire wacc cfg k rs)"
  using settled_okD(1) [of rs k]
  by (auto simp: expire_def unsettled_def split: option.split intro!: settled_ok_end)

lemma settled_ok_expires: "settled_ok rs \<Longrightarrow> settled_ok (fold (expire wacc cfg) ks rs)"
  by (induction ks arbitrary: rs) (auto simp: settled_ok_expire)

lemma settled_ok_sweep: "settled_ok rs \<Longrightarrow> settled_ok (maybe_sweep_deadlines wacc cfg now rs)"
  by (simp add: maybe_sweep_deadlines_def sweep_deadlines_def settled_ok_expires
      settled_ok_cong [of "rs\<lparr>rs_last_sweep := now\<rparr>" rs])

lemma settled_ok_handle:
  assumes ok: "settled_ok rs"
  shows "settled_ok (recorder_handle wacc hashv cfg t rs)"
proof -
  have c: "settled_ok (rs\<lparr>rs_counters := c, rs_agg := a\<rparr>)" "settled_ok (rs\<lparr>rs_counters := c\<rparr>)" for c a
    using ok settled_ok_cong [of "rs\<lparr>rs_counters := c, rs_agg := a\<rparr>" rs]
      settled_ok_cong [of "rs\<lparr>rs_counters := c\<rparr>" rs] by simp_all
  have r: "settled_ok rs \<Longrightarrow> settled_ok (handle_register cfg reg rs)" for reg rs
    by (auto simp: handle_register_def settled_ok_def unsettled_def written_def Let_def hm.lookup_insert)
  show ?thesis
  proof (cases t)
    case (RecRegister reg)
    then show ?thesis using r [OF c(1)] by (simp add: recorder_handle_def Let_def)
  next
    case (RecSend s)
    then show ?thesis using settled_ok_handle_send [OF c(1)] by (simp add: recorder_handle_def Let_def)
  next
    case (RecMatch m cache now)
    then show ?thesis using settled_ok_handle_match [OF c(2)] by (simp add: recorder_handle_def Let_def)
  qed (use ok in \<open>simp_all add: recorder_handle_def\<close>)
qed

lemma settled_ok_loop: "settled_ok rs \<Longrightarrow> settled_ok (recorder_loop wacc hashv cfg ts rs)"
proof (induction ts arbitrary: rs)
  case (Cons x ts)
  then show ?case by (cases x) (simp add: settled_ok_sweep settled_ok_handle)
qed simp

text \<open>Every record the recorder writes, in the loop or at the flush, has the outcome its data
  shows: a send error if the send reported one, landed if a match was observed for it and the send
  reported none, pending otherwise. In particular a failed send is never reported as landed and an
  observed one never as pending. It holds for every sequence of events.\<close>
theorem recorder_outcome_is_classified:
  "map rr_final_outcome (written (recorder_run wacc hashv cfg start ts)) =
     map classify (written (recorder_run wacc hashv cfg start ts))"
proof -
  have "settled_ok (recorder_init start)" by (simp add: settled_ok_def recorder_init_def written_def)
  then have "settled_ok (recorder_run wacc hashv cfg start ts)"
    by (simp add: recorder_run_def recorder_flush_def settled_ok_expires settled_ok_loop)
  then show ?thesis by (simp add: settled_ok_def)
qed

section \<open>Landed records\<close>

definition witnessed :: "match_event set \<Rightarrow> trigger_record \<Rightarrow> bool" where
  "witnessed ms r \<longleftrightarrow> (\<exists>m \<in> ms. mt_signature m = rr_tx_signature r \<and> rr_observed_slot r = Some (mt_observed_slot m) \<and>
     rr_observed_entry_index r = Some (mt_observed_entry_index m))"

definition landed_ok :: "match_event set \<Rightarrow> recorder \<Rightarrow> bool" where
  "landed_ok ms rs \<longleftrightarrow> (\<forall>r \<in> set (written rs). rr_final_outcome r = Landed \<longrightarrow> witnessed ms r)"

lemma landed_ok_cong: "rs_file rs' = rs_file rs \<Longrightarrow> landed_ok ms rs' = landed_ok ms rs"
  by (simp add: landed_ok_def written_def)

lemma written_finish:
  "written (finish wacc cfg outcome us k att rs) = written rs @ (case ta_register att of None \<Rightarrow> []
     | Some reg \<Rightarrow> [make_record cfg reg (ta_send att) (ta_matched att) outcome])"
  by (cases "ta_register att") (simp_all add: finish_fields, simp_all add: finish_def written_emit written_def emit_record_def)

lemma landed_ok_other: "landed_ok ms rs \<Longrightarrow> outcome \<noteq> Landed \<Longrightarrow> landed_ok ms (finish wacc cfg outcome us k att rs)"
  by (auto simp: landed_ok_def written_finish rec_key_make split: option.splits)

lemma landed_ok_handle_match:
  assumes ok: "rec_ok regs rs" "landed_ok ms rs" and m: "m \<in> ms"
  shows "landed_ok ms (handle_match wacc hashv cfg cache now m rs)"
proof (cases "map_of (rs_sig_to_key rs) (mt_signature m)")
  case (Some key)
  then obtain reg att where att: "map_of (rs_attempts rs) key = Some att" "ta_register att = Some reg"
      and sig: "re_signature reg = mt_signature m"
    using ok(1) unfolding rec_ok_def in_flight_def by blast
  let ?r = "make_record cfg reg (ta_send att) (Some m) Landed"
  have "witnessed ms ?r" unfolding witnessed_def
    by (rule bexI [OF _ m]) (simp add: make_record_def Let_def sig)
  moreover have "written (handle_match wacc hashv cfg cache now m rs) = written rs @ [?r]"
    using Some att by (simp add: handle_match_def Let_def written_finish) (simp add: written_def)
  ultimately show ?thesis using ok(2) by (auto simp: landed_ok_def)
qed (use ok in \<open>simp add: handle_match_def\<close>)

lemma landed_ok_expires: "landed_ok ms rs \<Longrightarrow> landed_ok ms (fold (expire wacc cfg) ks rs)"
  by (induction ks arbitrary: rs) (auto simp: expire_def landed_ok_other split: option.split)

lemma landed_ok_sweep: "landed_ok ms rs \<Longrightarrow> landed_ok ms (maybe_sweep_deadlines wacc cfg now rs)"
  by (simp add: maybe_sweep_deadlines_def sweep_deadlines_def landed_ok_expires
      landed_ok_cong [of "rs\<lparr>rs_last_sweep := now\<rparr>" rs])

definition matches_of :: "(recorder_turn \<times> instant) list \<Rightarrow> match_event set" where
  "matches_of ts = {m. \<exists>cache now t. (RecMatch m cache now, t) \<in> set ts}"

lemma landed_ok_handle:
  assumes ok: "rec_ok regs rs" "landed_ok ms rs" and m: "\<And>m cache now. t = RecMatch m cache now \<Longrightarrow> m \<in> ms"
  shows "landed_ok ms (recorder_handle wacc hashv cfg t rs)"
proof (cases t)
  case (RecRegister reg)
  then show ?thesis using ok(2)
    by (simp add: recorder_handle_def handle_register_def Let_def landed_ok_def written_def)
next
  case (RecSend s)
  let ?rs = "rs\<lparr>rs_counters := (rs_counters rs)\<lparr>rk_send_events := rk_send_events (rs_counters rs) + 1\<rparr>,
    rs_agg := record_send s (rs_agg rs)\<rparr>"
  have l: "landed_ok ms (?rs\<lparr>rs_attempts := a\<rparr>)" for a using ok(2) by (simp add: landed_ok_def written_def)
  have "landed_ok ms ?rs" using ok(2) by (simp add: landed_ok_def written_def)
  then show ?thesis using RecSend l landed_ok_other [OF l]
    by (simp add: recorder_handle_def handle_send_def Let_def split: option.split)
next
  case (RecMatch m cache now)
  let ?rs = "rs\<lparr>rs_counters := (rs_counters rs)\<lparr>rk_match_events := rk_match_events (rs_counters rs) + 1\<rparr>\<rparr>"
  have "rec_ok regs ?rs" using ok(1) rec_ok_cong [of ?rs rs regs] by simp
  moreover have "landed_ok ms ?rs" using ok(2) by (simp add: landed_ok_def written_def)
  ultimately show ?thesis using RecMatch m by (simp add: recorder_handle_def Let_def landed_ok_handle_match)
qed (use ok in \<open>simp_all add: recorder_handle_def\<close>)

lemma landed_ok_loop:
  assumes "rec_ok regs rs" "landed_ok ms rs" "fresh_regs (regs @ regs_of ts)" "matches_of ts \<subseteq> ms"
  shows "landed_ok ms (recorder_loop wacc hashv cfg ts rs)"
  using assms
proof (induction ts arbitrary: regs rs)
  case (Cons x ts)
  obtain t now where x [simp]: "x = (t, now)" by (cases x)
  show ?case
  proof (cases "t = RecStopped")
    case False
    then have f: "fresh_regs ((regs @ turn_regs t) @ regs_of ts)" using Cons.prems by simp
    have ms: "matches_of ts \<subseteq> ms" "\<And>m cache now. t = RecMatch m cache now \<Longrightarrow> m \<in> ms"
      using Cons.prems(4) by (auto simp: matches_of_def)
    have "rec_ok (regs @ turn_regs t) (maybe_sweep_deadlines wacc cfg now (recorder_handle wacc hashv cfg t rs))"
      using rec_ok_sweep [OF rec_ok_handle [OF Cons.prems(1) fresh_prefix [OF f]]] .
    moreover have "landed_ok ms (maybe_sweep_deadlines wacc cfg now (recorder_handle wacc hashv cfg t rs))"
      using landed_ok_sweep [OF landed_ok_handle [OF Cons.prems(1,2) ms(2)]] .
    ultimately show ?thesis using Cons.IH [OF _ _ f ms(1)] False by simp
  qed (use Cons.prems in simp)
qed simp

lemma landed_witnessed:
  assumes "fresh_regs (regs_of ts)"
    and "r \<in> set (written (recorder_run wacc hashv cfg start ts))" and "rr_final_outcome r = Landed"
  shows "witnessed (matches_of ts) r"
proof -
  have "landed_ok (matches_of ts) (recorder_loop wacc hashv cfg ts (recorder_init start))"
    by (rule landed_ok_loop [OF rec_ok_init])
      (use assms(1) in \<open>simp_all add: landed_ok_def recorder_init_def written_def\<close>)
  then have "landed_ok (matches_of ts) (recorder_run wacc hashv cfg start ts)"
    by (simp add: recorder_run_def recorder_flush_def landed_ok_expires)
  then show ?thesis using assms(2,3) by (simp add: landed_ok_def)
qed

text \<open>No false landing. Every record reported as landed carries the slot and entry index of a
  match event the recorder received for that record's own signature.\<close>
theorem recorder_landed_was_observed:
  assumes "fresh_regs (regs_of ts)"
    and "r \<in> set (written (recorder_run wacc hashv cfg start ts))" and "rr_final_outcome r = Landed"
  shows "witnessed (matches_of ts) r"
  using assms by (rule landed_witnessed)

section \<open>Totals\<close>

definition tally :: "(trigger_record \<Rightarrow> bool) \<Rightarrow> recorder \<Rightarrow> nat" where
  "tally P rs = length (filter P (written rs))"

abbreviation with_outcome :: "final_outcome \<Rightarrow> trigger_record \<Rightarrow> bool" where
  "with_outcome oc \<equiv> \<lambda>r. rr_final_outcome r = oc"

abbreviation of_sender :: "u8 \<Rightarrow> final_outcome \<Rightarrow> trigger_record \<Rightarrow> bool" where
  "of_sender sid oc \<equiv> \<lambda>r. rr_sender_id r = sid \<and> rr_final_outcome r = oc"

definition totals_ok :: "register_event list \<Rightarrow> recorder \<Rightarrow> bool" where
  "totals_ok regs rs \<longleftrightarrow> (\<forall>k att. map_of (rs_attempts rs) k = Some att \<longrightarrow> ta_register att \<noteq> None) \<and>
     ag_attempts_total (rs_agg rs) = of_nat (length regs) \<and>
     ag_attempts_landed (rs_agg rs) = of_nat (tally (with_outcome Landed) rs) \<and>
     ag_attempts_send_error (rs_agg rs) = of_nat (tally (with_outcome SendError) rs) \<and>
     ag_attempts_unknown_pending (rs_agg rs) = of_nat (tally (with_outcome UnknownPending) rs) \<and>
     (\<forall>sid. ps_landed (stats_of sid (rs_agg rs)) = of_nat (tally (of_sender sid Landed) rs)) \<and>
     (\<forall>sid. ps_attempts (stats_of sid (rs_agg rs)) = of_nat (length (filter (\<lambda>r. re_sender_id r = sid) regs)))"

lemma make_sender: "rr_sender_id (make_record cfg reg s m outcome) = re_sender_id reg"
  by (simp add: make_record_def Let_def)

lemma stats_of_upd [simp]:
  "stats_of sid (ag\<lparr>ag_per_sender := hm_insert i s (ag_per_sender ag)\<rparr>) = (if sid = i then s else stats_of sid ag)"
  "stats_of sid (ag\<lparr>ag_attempts_landed := a\<rparr>) = stats_of sid ag"
  "stats_of sid (ag\<lparr>ag_triggers_landed := b\<rparr>) = stats_of sid ag"
  "stats_of sid (ag\<lparr>ag_triggers_attempted := b\<rparr>) = stats_of sid ag"
  "stats_of sid (ag\<lparr>ag_attempts_total := a\<rparr>) = stats_of sid ag"
  "stats_of sid (ag\<lparr>ag_attempts_send_error := a\<rparr>) = stats_of sid ag"
  "stats_of sid (ag\<lparr>ag_attempts_unknown_pending := a\<rparr>) = stats_of sid ag"
  "stats_of sid (ag\<lparr>ag_first_send_at := u\<rparr>) = stats_of sid ag"
  "stats_of sid (ag\<lparr>ag_last_send_at := u\<rparr>) = stats_of sid ag"
  by (simp_all add: stats_of_def hm.lookup_insert)

lemma totals_ok_finish:
  assumes ok: "totals_ok regs rs" and r: "ta_register att \<noteq> None"
  shows "totals_ok regs (finish wacc cfg outcome us k att rs)"
proof -
  obtain reg where reg: "ta_register att = Some reg" using r by blast
  show ?thesis
    using ok
    by (cases outcome) (auto simp: totals_ok_def finish_fields [OF reg] tally_def rec_key_make make_sender
        record_outcome_def count_outcome_def Let_def hm.lookup_remove split: option.split)
qed

lemma totals_okD: "totals_ok regs rs \<Longrightarrow> map_of (rs_attempts rs) k = Some att \<Longrightarrow> ta_register att \<noteq> None"
  unfolding totals_ok_def by blast

lemma totals_ok_cong:
  assumes "rs_agg rs' = rs_agg rs" "rs_file rs' = rs_file rs"
    "\<And>k att. map_of (rs_attempts rs') k = Some att \<Longrightarrow> ta_register att \<noteq> None" "totals_ok regs rs"
  shows "totals_ok regs rs'"
  using assms by (simp add: totals_ok_def tally_def written_def)

lemma record_send_fields [simp]:
  "ag_attempts_total (record_send s ag) = ag_attempts_total ag"
  "ag_attempts_landed (record_send s ag) = ag_attempts_landed ag"
  "ag_attempts_send_error (record_send s ag) = ag_attempts_send_error ag"
  "ag_attempts_unknown_pending (record_send s ag) = ag_attempts_unknown_pending ag"
  "ps_landed (stats_of sid (record_send s ag)) = ps_landed (stats_of sid ag)"
  "ps_attempts (stats_of sid (record_send s ag)) = ps_attempts (stats_of sid ag)"
  by (simp_all add: record_send_def Let_def stats_of_def hm.lookup_insert split: option.split)

lemma totals_ok_expires: "totals_ok regs rs \<Longrightarrow> totals_ok regs (fold (expire wacc cfg) ks rs)"
proof (induction ks arbitrary: rs)
  case (Cons k ks)
  have "totals_ok regs (expire wacc cfg k rs)"
  proof (cases "map_of (rs_attempts rs) k")
    case (Some att)
    then show ?thesis using totals_ok_finish [OF Cons.prems totals_okD [OF Cons.prems Some]] by (simp add: expire_def)
  qed (use Cons.prems in \<open>simp add: expire_def\<close>)
  then show ?case using Cons.IH by simp
qed simp

lemma totals_ok_sweep:
  assumes "totals_ok regs rs"
  shows "totals_ok regs (maybe_sweep_deadlines wacc cfg now rs)"
proof -
  have "totals_ok regs (rs\<lparr>rs_last_sweep := now\<rparr>)"
    by (rule totals_ok_cong [OF _ _ _ assms]) (use totals_okD [OF assms] in simp_all)
  then show ?thesis using assms by (simp add: maybe_sweep_deadlines_def sweep_deadlines_def totals_ok_expires)
qed

lemma totals_ok_handle_send:
  assumes ok: "totals_ok regs rs"
  shows "totals_ok regs (handle_send wacc cfg s rs)"
proof (cases "map_of (rs_attempts rs) (sv_trigger_id s, sv_sender_id s)")
  case (Some att)
  let ?rs1 = "rs\<lparr>rs_attempts := hm_insert (sv_trigger_id s, sv_sender_id s) (att\<lparr>ta_send := Some s\<rparr>) (rs_attempts rs)\<rparr>"
  note reg = totals_okD [OF ok Some]
  have "totals_ok regs ?rs1"
    by (rule totals_ok_cong [OF _ _ _ ok])
      (use reg totals_okD [OF ok] in \<open>auto simp: hm.lookup_insert split: if_splits\<close>)
  then show ?thesis using Some reg totals_ok_finish [of regs ?rs1 "att\<lparr>ta_send := Some s\<rparr>"]
    by (simp add: handle_send_def Let_def)
qed (use ok in \<open>simp add: handle_send_def\<close>)

lemma totals_ok_handle_match:
  assumes ok: "totals_ok regs rs"
  shows "totals_ok regs (handle_match wacc hashv cfg cache now m rs)"
proof (cases "map_of (rs_sig_to_key rs) (mt_signature m)")
  case (Some key)
  show ?thesis
  proof (cases "map_of (rs_attempts rs) key")
    case None
    have "totals_ok regs (rs\<lparr>rs_sig_to_key := hm_remove (mt_signature m) (rs_sig_to_key rs)\<rparr>)"
      by (rule totals_ok_cong [OF _ _ _ ok]) (use totals_okD [OF ok] in simp_all)
    then show ?thesis using None Some by (simp add: handle_match_def)
  next
    case att: (Some att)
    let ?rs1 = "nonce_hook hashv cfg cache now m (att\<lparr>ta_matched := Some m\<rparr>) rs"
    have "totals_ok regs ?rs1"
      by (rule totals_ok_cong [OF _ _ _ ok]) (use totals_okD [OF ok] in simp_all)
    then show ?thesis
      using Some att totals_okD [OF ok att] totals_ok_finish [of regs ?rs1 "att\<lparr>ta_matched := Some m\<rparr>"]
      by (simp add: handle_match_def Let_def)
  qed
qed (use ok in \<open>simp add: handle_match_def\<close>)

lemma totals_ok_handle:
  assumes ok: "totals_ok regs rs"
  shows "totals_ok (regs @ turn_regs t) (recorder_handle wacc hashv cfg t rs)"
proof (cases t)
  case (RecRegister reg)
  let ?rs = "rs\<lparr>rs_counters := (rs_counters rs)\<lparr>rk_register_events := rk_register_events (rs_counters rs) + 1\<rparr>,
    rs_agg := record_register reg (rs_agg rs)\<rparr>"
  have "totals_ok (regs @ [reg]) (handle_register cfg reg ?rs)"
    using ok by (auto simp: totals_ok_def handle_register_def Let_def hm.lookup_insert tally_def written_def
        record_register_def stats_of_def split: if_splits)
  then show ?thesis using RecRegister by (simp add: recorder_handle_def Let_def turn_regs_def)
next
  case (RecSend s)
  let ?rs = "rs\<lparr>rs_counters := (rs_counters rs)\<lparr>rk_send_events := rk_send_events (rs_counters rs) + 1\<rparr>,
    rs_agg := record_send s (rs_agg rs)\<rparr>"
  have "totals_ok regs ?rs" using ok by (simp add: totals_ok_def tally_def written_def)
  then show ?thesis using RecSend by (simp add: recorder_handle_def Let_def turn_regs_def totals_ok_handle_send)
next
  case (RecMatch m cache now)
  let ?rs = "rs\<lparr>rs_counters := (rs_counters rs)\<lparr>rk_match_events := rk_match_events (rs_counters rs) + 1\<rparr>\<rparr>"
  have "totals_ok regs ?rs" using ok by (simp add: totals_ok_def tally_def written_def)
  then show ?thesis using RecMatch by (simp add: recorder_handle_def Let_def turn_regs_def totals_ok_handle_match)
qed (use ok in \<open>simp_all add: recorder_handle_def turn_regs_def\<close>)

lemma totals_ok_loop:
  "totals_ok regs rs \<Longrightarrow> totals_ok (regs @ regs_of ts) (recorder_loop wacc hashv cfg ts rs)"
proof (induction ts arbitrary: regs rs)
  case (Cons x ts)
  obtain t now where x [simp]: "x = (t, now)" by (cases x)
  have "totals_ok (regs @ turn_regs t) (maybe_sweep_deadlines wacc cfg now (recorder_handle wacc hashv cfg t rs))"
    using Cons.prems by (intro totals_ok_sweep totals_ok_handle)
  from Cons.IH [OF this] show ?case using Cons.prems by simp
qed simp

lemma totals_ok_run: "totals_ok (regs_of ts) (recorder_run wacc hashv cfg start ts)"
proof -
  have "totals_ok [] (recorder_init start)"
    by (simp add: totals_ok_def recorder_init_def aggregate_default_def tally_def written_def stats_of_def stats_new_def)
  from totals_ok_loop [OF this] show ?thesis
    by (simp add: recorder_run_def recorder_flush_def totals_ok_expires)
qed

text \<open>The end-of-run summary is the tally of the output file: the attempts are the
  registrations, and landed, send errors and unknown are the numbers of records written with
  that outcome. Without reuse of keys they add up to the attempts: no attempt is left out of
  the landing rate.\<close>
theorem recorder_summary_totals:
  assumes "fresh_regs (regs_of ts)"
  shows "let rs = recorder_run wacc hashv cfg start ts; sm = recorder_summary cfg rs in
    sm_attempts_total sm = of_nat (length (regs_of ts)) \<and>
    sm_attempts_landed sm = of_nat (tally (with_outcome Landed) rs) \<and>
    sm_attempts_send_error sm = of_nat (tally (with_outcome SendError) rs) \<and>
    sm_attempts_unknown_pending sm = of_nat (tally (with_outcome UnknownPending) rs) \<and>
    sm_attempts_total sm = sm_attempts_landed sm + sm_attempts_send_error sm + sm_attempts_unknown_pending sm"
proof -
  let ?rs = "recorder_run wacc hashv cfg start ts"
  have t: "totals_ok (regs_of ts) ?rs" by (rule totals_ok_run)
  have split3: "length xs = length (filter (with_outcome Landed) xs) + length (filter (with_outcome SendError) xs) +
      length (filter (with_outcome UnknownPending) xs)" for xs
  proof (induction xs)
    case (Cons x xs) then show ?case by (cases "rr_final_outcome x") auto
  qed simp
  have "size (mset (map rec_key (written ?rs))) = size (mset (map reg_key (regs_of ts)))"
    using run_keys [OF assms] by simp
  then have "length (regs_of ts) = tally (with_outcome Landed) ?rs + tally (with_outcome SendError) ?rs +
      tally (with_outcome UnknownPending) ?rs"
    using split3 [of "written ?rs"] by (simp add: tally_def)
  then show ?thesis using t by (simp add: totals_ok_def recorder_summary_def into_summary_def Let_def)
qed

section \<open>A run\<close>

text \<open>Three sends of one trigger: sender 0 lands, sender 1 fails, sender 2 is pending at the stop.\<close>

definition demo_reg :: "u8 \<Rightarrow> signature \<Rightarrow> register_event" where
  "demo_reg i sig = \<lparr> re_trigger_id = 1, re_sender_id = i, re_sender_name = ''rpc'', re_endpoint_url = [],
     re_protocol = ''http'', re_signature = sig, re_slot = 7, re_tick = 3, re_trigger_observed_at = 100,
     re_prepared_at = 110, re_blockhash = 9, re_nonce_id = None \<rparr>"

definition demo_send :: "u8 \<Rightarrow> string option \<Rightarrow> send_event" where
  "demo_send i err = \<lparr> sv_trigger_id = 1, sv_sender_id = i, sv_outcome = \<lparr> so_send_at = 120,
     so_send_ack_at = None, so_signature = 0, so_http_status = None, so_rpc_err_code = None,
     so_rpc_err_message = None, so_provider_request_id = None, so_error = err,
     so_endpoint_url_used = None \<rparr> \<rparr>"

definition demo_match :: "signature \<Rightarrow> match_event" where
  "demo_match sig = \<lparr> mt_signature = sig, mt_observed_at = 500, mt_observed_slot = 8,
     mt_observed_entry_index = 4, mt_observed_tick = 1, mt_observed_source = Yellowstone \<rparr>"

definition demo_rec_turns :: "(recorder_turn \<times> instant) list" where
  "demo_rec_turns = [(RecRegister (demo_reg 0 10), 115), (RecRegister (demo_reg 1 11), 116),
     (RecRegister (demo_reg 2 12), 117), (RecSend (demo_send 1 (Some ''timeout'')), 130),
     (RecMatch (demo_match 10) (cache_new 32) 510, 510), (RecStopped, 600)]"

definition demo_rec_cfg :: recorder_config where
  "demo_rec_cfg = \<lparr> rg_run_id = ''r'', rg_anchor = 0, rg_deadline = 60000000000, rg_nonce_mode = False \<rparr>"

definition demo_rec_run :: recorder where
  "demo_rec_run = recorder_run (\<lambda>_ _. True) (\<lambda>_. 0) demo_rec_cfg 0 demo_rec_turns"

lemma demo_rec_fresh: "fresh_regs (regs_of demo_rec_turns)"
  by (simp add: demo_rec_turns_def turn_regs_def fresh_regs_def reg_key_def demo_reg_def)

lemmas recorder_eval = demo_rec_turns_def demo_reg_def demo_send_def demo_match_def demo_rec_cfg_def
  recorder_run_def recorder_flush_def recorder_init_def recorder_handle_def handle_register_def handle_send_def
  handle_match_def nonce_hook_def expire_def finish_def emit_record_def maybe_sweep_deadlines_def
  saturating_duration_since_def try_send_def written_def make_record_def Let_def turn_regs_def

lemma demo_rec_outcomes:
  "map (\<lambda>r. (rr_sender_id r, rr_final_outcome r)) (written demo_rec_run) =
    [(1, SendError), (0, Landed), (2, UnknownPending)]"
  by (simp add: demo_rec_run_def recorder_eval)

lemma recorder_one_record_each_witness:
  "mset (map rec_key (written demo_rec_run)) = {# (1, 0), (1, 1), (1, 2) #}"
  using recorder_one_record_each [OF demo_rec_fresh, of "\<lambda>_ _. True" "\<lambda>_. 0" demo_rec_cfg 0]
  unfolding demo_rec_run_def
  by (simp add: demo_rec_turns_def turn_regs_def reg_key_def demo_reg_def)

lemma recorder_landed_was_observed_witness:
  "witnessed (matches_of demo_rec_turns) (written demo_rec_run ! 1)"
proof -
  have l: "length (written demo_rec_run) = 3" "rr_final_outcome (written demo_rec_run ! 1) = Landed"
    by (simp_all add: demo_rec_run_def recorder_eval)
  show ?thesis
    using recorder_landed_was_observed [OF demo_rec_fresh, of "written demo_rec_run ! 1" "\<lambda>_ _. True" "\<lambda>_. 0" demo_rec_cfg 0] l
    unfolding demo_rec_run_def by simp
qed

lemma recorder_summary_totals_witness:
  "sm_attempts_total (recorder_summary demo_rec_cfg demo_rec_run) = 3"
  using recorder_summary_totals [OF demo_rec_fresh, of "\<lambda>_ _. True" "\<lambda>_. 0" demo_rec_cfg 0]
  unfolding demo_rec_run_def Let_def
  by (simp add: demo_rec_turns_def turn_regs_def)

section \<open>The order of registration and outcome\<close>

text \<open>The recorder needs the registration before the outcome, but it receives them on two
  channels and \<open>select!\<close> picks any of the ready ones. When it takes the outcome first, the
  outcome is lost: the attempt is recorded as pending, without send time and error, also when the
  send had failed.\<close>
theorem recorder_early_send_lost:
  "written (recorder_run wacc hashv cfg start [(RecSend s, t1), (RecRegister reg, t2), (RecStopped, t3)]) =
     [make_record cfg reg None None UnknownPending]"
proof -
  let ?k = "reg_key reg"
  let ?att = "\<lparr> ta_register = Some reg, ta_send = None, ta_matched = None,
      ta_deadline_at = re_trigger_observed_at reg + rg_deadline cfg \<rparr>"
  define rs1 where "rs1 = maybe_sweep_deadlines wacc cfg t1 (recorder_handle wacc hashv cfg (RecSend s) (recorder_init start))"
  have 1: "rs_attempts rs1 = []" "written rs1 = []"
    by (simp_all add: rs1_def recorder_handle_def handle_send_def recorder_init_def maybe_sweep_deadlines_def
        sweep_deadlines_def written_def Let_def)
  define rs2 where "rs2 = recorder_handle wacc hashv cfg (RecRegister reg) rs1"
  have 2: "rs_attempts rs2 = [(?k, ?att)]" "written rs2 = []"
    using 1 by (simp_all add: rs2_def recorder_handle_def handle_register_def reg_key_def written_def Let_def)
  have e: "written (expire wacc cfg ?k rs) = [make_record cfg reg None None UnknownPending]"
    if "rs_attempts rs = [(?k, ?att)]" "written rs = []" for rs
    using that by (simp add: expire_def written_finish)
  have run: "recorder_run wacc hashv cfg start [(RecSend s, t1), (RecRegister reg, t2), (RecStopped, t3)] =
      recorder_flush wacc cfg (maybe_sweep_deadlines wacc cfg t2 rs2)"
    by (simp add: recorder_run_def rs1_def rs2_def)
  show ?thesis
  proof (cases "saturating_duration_since t2 (rs_last_sweep rs2) \<ge> 500000000 \<and> ta_deadline_at ?att \<le> t2")
    case True
    have "rs_attempts (expire wacc cfg ?k (rs2\<lparr>rs_last_sweep := t2\<rparr>)) = []"
      using 2 by (simp add: expire_def finish_def written_emit Let_def)
    moreover have "written (expire wacc cfg ?k (rs2\<lparr>rs_last_sweep := t2\<rparr>)) = [make_record cfg reg None None UnknownPending]"
      using e 2 by (simp add: written_def)
    ultimately show ?thesis
      unfolding run using True 2 by (simp add: recorder_flush_def maybe_sweep_deadlines_def sweep_deadlines_def)
  next
    case False
    define rs3 where "rs3 = maybe_sweep_deadlines wacc cfg t2 rs2"
    have 3: "rs_attempts rs3 = [(?k, ?att)]" "written rs3 = []"
      using False 2 by (auto simp: rs3_def maybe_sweep_deadlines_def sweep_deadlines_def written_def)
    then show ?thesis
      unfolding run rs3_def [symmetric] using e [of rs3] by (simp add: recorder_flush_def)
  qed
qed

end
