(* ===== verification/Dispatcher_Props.thy ===== *)
theory Dispatcher_Props
  imports Dispatcher Preparer_Props Recorder_Props
begin

text \<open>
  Properties of the dispatcher: what one trigger becomes, and that the registrations of a run
  have distinct keys and signatures, which is what the recorder relies on.
\<close>

section \<open>One trigger\<close>

lemma fallback_variants_ok:
  assumes "fallback_variants sign cfg bh trig now scs rots = (vs, rots')"
  shows "map pt_sender_id vs = map sd_id scs \<and> list_all (\<lambda>v. pt_signature v = sign (pt_tx v) \<and> pt_nonce_id v = None \<and>
    concat (map memo_of (tx_instructions (pt_tx v))) = [memo_payload (pt_sender_id v) (tr_trigger_id trig)]) vs"
  using assms
proof (induction scs arbitrary: rots vs rots')
  case (Cons sc scs)
  obtain v rots1 where v: "fallback_variant sign cfg bh trig now sc rots = (v, rots1)" by fastforce
  obtain vs1 rots2 where vs: "fallback_variants sign cfg bh trig now scs rots1 = (vs1, rots2)" by fastforce
  have "pt_sender_id v = sd_id sc \<and> pt_signature v = sign (pt_tx v) \<and> pt_nonce_id v = None \<and>
      concat (map memo_of (tx_instructions (pt_tx v))) = [memo_payload (pt_sender_id v) (tr_trigger_id trig)]"
    using v by (auto simp: fallback_variant_def Let_def build_def memo_of_build split: prod.splits)
  moreover have "vs = v # vs1" using Cons.prems v vs by simp
  ultimately show ?case using Cons.IH [OF vs] by simp
qed simp

lemma wired_known: "wired cfg \<Longrightarrow> map pt_sender_id vs = map sd_id (dc_senders cfg) \<Longrightarrow> filter (known cfg) vs = vs"
proof (rule filter_True)
  assume w: "wired cfg" and m: "map pt_sender_id vs = map sd_id (dc_senders cfg)"
  have "pt_sender_id ` set vs = sd_id ` set (dc_senders cfg)" using arg_cong [OF m, of set] by simp
  then show "\<forall>v\<in>set vs. known cfg v" using w by (auto simp: known_def wired_def)
qed

text \<open>The keys registered for a trigger.\<close>

definition dispatched_keys :: "dispatcher_config \<Rightarrow> blockhash_cache \<Rightarrow> trigger_event \<Rightarrow> tx_pool \<Rightarrow> attempt_key list" where
  "dispatched_keys cfg bhc trig pool = map (Pair (tr_trigger_id trig))
     (case pool_get (tr_slot trig, tr_tick trig) pool of
        Some vs \<Rightarrow> map pt_sender_id (filter (known cfg) vs)
      | None \<Rightarrow> if dc_nonce_mode cfg \<or> bc_is_empty bhc then [] else map sd_id (dc_senders cfg))"

lemma reg_key_register_of: "known cfg v \<Longrightarrow> reg_key (register_of cfg trig v) = (tr_trigger_id trig, pt_sender_id v)"
  by (simp add: reg_key_def)

lemma map_keys_registers:
  "map reg_key (map (register_of cfg trig) (filter (known cfg) vs)) =
     map (Pair (tr_trigger_id trig)) (map pt_sender_id (filter (known cfg) vs))"
  by (induction vs) (simp_all add: reg_key_register_of)

text \<open>The variants a trigger is dispatched with.\<close>

definition variants_for ::
  "(transaction \<Rightarrow> signature) \<Rightarrow> dispatcher_config \<Rightarrow> blockhash_cache \<Rightarrow> (u8 \<Rightarrow> instant) \<Rightarrow> trigger_event \<Rightarrow>
    dispatcher \<Rightarrow> pre_signed_tx list" where
  "variants_for sign cfg bhc now trig di =
    (case fst (take_variants sign cfg bhc now trig di) of None \<Rightarrow> [] | Some vs \<Rightarrow> vs)"

lemma take_variants_fields:
  "di_pending_sigs (snd (take_variants sign cfg bhc now trig di)) = di_pending_sigs di"
  "di_register_tx (snd (take_variants sign cfg bhc now trig di)) = di_register_tx di"
  "di_tasks (snd (take_variants sign cfg bhc now trig di)) = di_tasks di"
  "di_pool (snd (take_variants sign cfg bhc now trig di)) = snd (pool_take (tr_slot trig) (tr_tick trig) (di_pool di))"
  by (simp_all add: take_variants_def Let_def split: prod.split option.split)

lemma dispatch_trigger_fields:
  fixes sign cfg bhc now trig di racc
  defines "vs \<equiv> variants_for sign cfg bhc now trig di"
    and "di' \<equiv> dispatch_trigger racc sign cfg bhc now trig di"
  shows "di_pending_sigs di' = pt_signature ` set vs \<union> di_pending_sigs di"
    "attempts (di_register_tx di') = attempts (di_register_tx di) @ map (register_of cfg trig) (filter (known cfg) vs)"
    "di_tasks di' = di_tasks di @ map (\<lambda>v. \<lparr> tk_trigger_id = tr_trigger_id trig, tk_sender_id = pt_sender_id v,
       tk_tx = pt_tx v \<rparr>) (filter (known cfg) vs)"
    "di_pool di' = snd (pool_take (tr_slot trig) (tr_tick trig) (di_pool di))"
proof -
  obtain r di1 where t: "take_variants sign cfg bhc now trig di = (r, di1)" by fastforce
  note f = take_variants_fields [of sign cfg bhc now trig di, unfolded t snd_conv]
  have d: "di' = (case r of None \<Rightarrow> di1 | Some v \<Rightarrow> fold (dispatch_variant racc cfg trig) v di1)"
    by (simp add: di'_def dispatch_trigger_def t)
  have v: "vs = (case r of None \<Rightarrow> [] | Some v \<Rightarrow> v)" by (simp add: vs_def variants_for_def t)
  show "di_pending_sigs di' = pt_signature ` set vs \<union> di_pending_sigs di"
    "attempts (di_register_tx di') = attempts (di_register_tx di) @ map (register_of cfg trig) (filter (known cfg) vs)"
    "di_tasks di' = di_tasks di @ map (\<lambda>v. \<lparr> tk_trigger_id = tr_trigger_id trig, tk_sender_id = pt_sender_id v,
       tk_tx = pt_tx v \<rparr>) (filter (known cfg) vs)"
    "di_pool di' = snd (pool_take (tr_slot trig) (tr_tick trig) (di_pool di))"
    by (cases r; simp add: d v f dispatch_variants_fields)+
qed

lemma variants_for_cases:
  "variants_for sign cfg bhc now trig di =
    (case pool_get (tr_slot trig, tr_tick trig) (di_pool di) of Some vs \<Rightarrow> vs
     | None \<Rightarrow> if dc_nonce_mode cfg \<or> bc_is_empty bhc then []
         else fst (fallback_variants sign cfg (current bhc) trig now (dc_senders cfg) (di_fallback_rotators di)))"
  by (auto simp: variants_for_def take_variants_def pool_take_def pool_get_def Let_def split: option.split prod.split)

lemma dispatched_keys_variants:
  assumes "wired cfg"
  shows "map (Pair (tr_trigger_id trig)) (map pt_sender_id (filter (known cfg) (variants_for sign cfg bhc now trig di))) =
    dispatched_keys cfg bhc trig (di_pool di)"
proof (cases "pool_get (tr_slot trig, tr_tick trig) (di_pool di)")
  case None
  obtain vs rots where v: "fallback_variants sign cfg (current bhc) trig now (dc_senders cfg) (di_fallback_rotators di) = (vs, rots)"
    by fastforce
  have m: "map pt_sender_id vs = map sd_id (dc_senders cfg)" using fallback_variants_ok [OF v] by blast
  show ?thesis using None
    by (simp add: variants_for_cases dispatched_keys_def v wired_known [OF assms m] del: map_map) (simp add: m)
qed (simp add: variants_for_cases dispatched_keys_def)

text \<open>C10: What one trigger becomes. Each of its variants is registered with the recorder under the
  trigger and the variant's sender, and one send task per registration is spawned with that
  transaction; its signature is pending before, so a match cannot be missed. The variants are the
  pooled ones, which leave the pool; without them, in nonce mode or before the first blockhash,
  nothing is sent; otherwise one is built for each configured sender.\<close>
theorem dispatch_fans_out:
  assumes "wired cfg"
  shows "let di' = dispatch_trigger racc sign cfg bhc now trig di; vs = variants_for sign cfg bhc now trig di in
    map reg_key (attempts (di_register_tx di')) =
      map reg_key (attempts (di_register_tx di)) @ dispatched_keys cfg bhc trig (di_pool di) \<and>
    map (\<lambda>t. (tk_trigger_id t, tk_sender_id t)) (di_tasks di') =
      map (\<lambda>t. (tk_trigger_id t, tk_sender_id t)) (di_tasks di) @ dispatched_keys cfg bhc trig (di_pool di) \<and>
    di_pending_sigs di' = pt_signature ` set vs \<union> di_pending_sigs di \<and>
    pool_get (tr_slot trig, tr_tick trig) (di_pool di') = None"
  using dispatched_keys_variants [OF assms, of trig sign bhc now di]
  by (simp add: Let_def dispatch_trigger_fields map_keys_registers pool_simps del: map_map filter.simps)
    (simp add: o_def)

definition demo_disp_cfg :: dispatcher_config where
  "demo_disp_cfg = \<lparr> dc_senders = [ss_config (demo_sender 0 Triton), ss_config (demo_sender 1 Triton)],
     dc_senders_by_id = [(0, \<lparr> sh_endpoint_url = [], sh_protocol = ''HTTP_JSONRPC'' \<rparr>),
       (1, \<lparr> sh_endpoint_url = [], sh_protocol = ''HTTP_JSONRPC'' \<rparr>)],
     dc_keypair = 1, dc_tx_cfg = tx_config_of None None None, dc_nonce_mode = False \<rparr>"

definition demo_bhc :: blockhash_cache where
  "demo_bhc = \<lparr> bc_inner = 9, bc_last_refresh_ns = 1, bc_refresh_errors = 0 \<rparr>"

definition demo_trigger :: trigger_event where
  "demo_trigger = \<lparr> tr_trigger_id = from_slot_tick 6 3, tr_slot = 6, tr_tick = 3, tr_observed_at = 50,
     tr_tick_uncertain = False \<rparr>"

lemma demo_wired: "wired demo_disp_cfg"
  by (simp add: wired_def demo_disp_cfg_def demo_sender_def)

lemma dispatch_fans_out_witness:
  "map reg_key (attempts (di_register_tx (dispatch_trigger (\<lambda>_ _. True) (\<lambda>_. 0) demo_disp_cfg demo_bhc (\<lambda>_. 60)
     demo_trigger (dispatcher_init pool_new [])))) = [(from_slot_tick 6 3, 0), (from_slot_tick 6 3, 1)]"
  using dispatch_fans_out [OF demo_wired, where racc = "\<lambda>_ _. True" and sign = "\<lambda>_. 0" and bhc = demo_bhc
      and now = "\<lambda>_. 60" and trig = demo_trigger and di = "dispatcher_init pool_new []"]
  by (simp add: Let_def dispatched_keys_def dispatcher_init_def pool_simps demo_trigger_def demo_bhc_def bc_is_empty_def)
    (simp add: demo_disp_cfg_def demo_sender_def)

section \<open>A run\<close>

text \<open>What the preparer puts into the pool: one variant per sender, signed, with the memo of its
  sender and trigger.\<close>

definition list_ok :: "(transaction \<Rightarrow> signature) \<Rightarrow> trigger_id \<Rightarrow> pre_signed_tx list \<Rightarrow> bool" where
  "list_ok sign tid vs \<longleftrightarrow> distinct (map pt_sender_id vs) \<and> list_all (\<lambda>v. pt_signature v = sign (pt_tx v) \<and>
     concat (map memo_of (tx_instructions (pt_tx v))) = [memo_payload (pt_sender_id v) tid]) vs"

definition pool_ok :: "(transaction \<Rightarrow> signature) \<Rightarrow> tx_pool \<Rightarrow> bool" where
  "pool_ok sign p \<longleftrightarrow> pool_inv p \<and> (\<forall>s t vs. pool_get (s, t) p = Some vs \<longrightarrow> list_ok sign (from_slot_tick s t) vs)"

fun op_ok :: "(transaction \<Rightarrow> signature) \<Rightarrow> pool_op \<Rightarrow> bool" where
  "op_ok sign (PoolInsert s t vs) = list_ok sign (from_slot_tick s t) vs" | "op_ok sign c = True"

lemma prepared_list_ok:
  assumes "prepared sign turn entry slots bh nid pool" "distinct (map (\<lambda>s. sd_id (ss_config s)) slots)"
    "pool_get (se_slot entry, se_tick entry) pool = Some vs"
  shows "list_ok sign (from_slot_tick (se_slot entry) (se_tick entry)) vs"
proof -
  have m: "mset (map pt_sender_id vs) = mset (map (\<lambda>s. sd_id (ss_config s)) (filter (can_sign turn) slots))"
    and v: "list_all (variant_ok sign entry bh nid) vs"
    using assms(1,3) by (simp_all add: prepared_def)
  have "distinct (map (\<lambda>s. sd_id (ss_config s)) (filter (can_sign turn) slots))"
    using assms(2) by (rule distinct_map_filter)
  then have "distinct (map pt_sender_id vs)" using m by (metis mset_eq_imp_distinct_iff)
  then show ?thesis using v by (auto simp: list_ok_def list_all_iff variant_ok_def)
qed

lemma pool_ok_exec: "pool_ok sign p \<Longrightarrow> op_ok sign c \<Longrightarrow> pool_ok sign (snd (pool_exec c p))"
  by (cases c) (auto simp: pool_ok_def pool_simps split: if_splits)

lemma pool_ok_take: "pool_ok sign p \<Longrightarrow> pool_ok sign (snd (pool_take s t p))"
  by (auto simp: pool_ok_def pool_simps split: if_splits)

lemma variants_for_ok:
  assumes "pool_ok sign (di_pool di)" "distinct (map sd_id (dc_senders cfg))"
    "tr_trigger_id trig = from_slot_tick (tr_slot trig) (tr_tick trig)"
  shows "list_ok sign (tr_trigger_id trig) (variants_for sign cfg bhc now trig di)"
proof (cases "pool_get (tr_slot trig, tr_tick trig) (di_pool di)")
  case None
  obtain vs rots where v: "fallback_variants sign cfg (current bhc) trig now (dc_senders cfg) (di_fallback_rotators di) = (vs, rots)"
    by fastforce
  show ?thesis using fallback_variants_ok [OF v] assms(2) None
    by (simp add: variants_for_cases v list_ok_def list_all_iff)
qed (use assms in \<open>auto simp: variants_for_cases pool_ok_def\<close>)

text \<open>A registration's signature is that of a transaction among \<open>txs\<close> with its own memo.\<close>

definition signed_reg :: "(transaction \<Rightarrow> signature) \<Rightarrow> transaction set \<Rightarrow> register_event \<Rightarrow> bool" where
  "signed_reg sign txs r \<longleftrightarrow> (\<exists>tx \<in> txs. re_signature r = sign tx \<and>
     concat (map memo_of (tx_instructions tx)) = [memo_payload (re_sender_id r) (re_trigger_id r)])"

definition regs_ok :: "(transaction \<Rightarrow> signature) \<Rightarrow> transaction set \<Rightarrow> trigger_id set \<Rightarrow> register_event list \<Rightarrow> bool" where
  "regs_ok sign txs tids rs \<longleftrightarrow> distinct (map reg_key rs) \<and> list_all (signed_reg sign txs) rs \<and> re_trigger_id ` set rs \<subseteq> tids"

lemma regs_ok_append:
  assumes "regs_ok sign txs tids rs" "tid \<notin> tids" "list_ok sign tid vs" "tr_trigger_id trig = tid"
  shows "regs_ok sign (txs \<union> pt_tx ` set (filter (known cfg) vs)) (insert tid tids) (rs @ map (register_of cfg trig) (filter (known cfg) vs))"
proof -
  let ?new = "map (register_of cfg trig) (filter (known cfg) vs)"
  have k: "map reg_key ?new = map (Pair tid) (map pt_sender_id (filter (known cfg) vs))"
    by (simp only: map_keys_registers assms(4))
  have "distinct (map pt_sender_id (filter (known cfg) vs))"
    using assms(3) by (simp add: list_ok_def distinct_map_filter)
  then have "distinct (map reg_key ?new)" unfolding k by (simp add: distinct_map inj_on_def)
  moreover have "reg_key ` set ?new \<inter> reg_key ` set rs = {}"
  proof -
    have "fst ` reg_key ` set ?new \<subseteq> {tid}" using assms(4) by (auto simp: reg_key_def)
    moreover have "fst ` reg_key ` set rs \<subseteq> tids" using assms(1) by (auto simp: regs_ok_def reg_key_def)
    ultimately show ?thesis using assms(2) by blast
  qed
  moreover have "list_all (signed_reg sign (txs \<union> pt_tx ` set (filter (known cfg) vs))) ?new"
    using assms(3,4) by (auto simp: list_all_iff list_ok_def signed_reg_def)
  moreover have "list_all (signed_reg sign (txs \<union> pt_tx ` set (filter (known cfg) vs))) rs"
    using assms(1) by (auto simp: regs_ok_def list_all_iff signed_reg_def)
  moreover have "re_trigger_id ` set ?new \<subseteq> {tid}" using assms(4) by auto
  ultimately show ?thesis using assms(1) unfolding regs_ok_def map_append distinct_append set_append image_Un
    list_all_append set_map by blast
qed

lemma regs_ok_fresh:
  assumes "regs_ok sign txs tids rs" "inj_on sign txs"
  shows "fresh_regs rs"
proof -
  have same: "reg_key a = reg_key b" if ab: "a \<in> set rs" "b \<in> set rs" "re_signature a = re_signature b" for a b
  proof -
    obtain ta tb where t: "ta \<in> txs" "tb \<in> txs" "re_signature a = sign ta" "re_signature b = sign tb"
      "concat (map memo_of (tx_instructions ta)) = [memo_payload (re_sender_id a) (re_trigger_id a)]"
      "concat (map memo_of (tx_instructions tb)) = [memo_payload (re_sender_id b) (re_trigger_id b)]"
      using assms(1) ab(1,2) unfolding regs_ok_def list_all_iff signed_reg_def by blast
    then have "ta = tb" using ab(3) assms(2) by (auto dest: inj_onD)
    then have "memo_payload (re_sender_id a) (re_trigger_id a) = memo_payload (re_sender_id b) (re_trigger_id b)"
      using t by simp
    then show ?thesis unfolding reg_key_def by (metis memo_roundtrip option.inject prod.inject)
  qed
  have d: "distinct rs" and k: "inj_on reg_key (set rs)" using assms(1) unfolding regs_ok_def distinct_map by blast+
  have "inj_on re_signature (set rs)"
    by (rule inj_onI) (rule inj_onD [OF k same])
  then show ?thesis using d k by (simp add: fresh_regs_def distinct_map)
qed

text \<open>The triggers a run takes.\<close>

fun disp_triggers :: "dispatcher_turn list \<Rightarrow> trigger_event list" where
  "disp_triggers [] = []"
| "disp_triggers (DispStop # ts) = []"
| "disp_triggers (DispDisconnected # ts) = []"
| "disp_triggers (DispTrigger trig bhc now # ts) = trig # disp_triggers ts"
| "disp_triggers (t # ts) = disp_triggers ts"

fun pool_ops :: "dispatcher_turn list \<Rightarrow> pool_op list" where
  "pool_ops [] = []" | "pool_ops (DispPoolOp c # ts) = c # pool_ops ts" | "pool_ops (t # ts) = pool_ops ts"

lemma dispatcher_regs_ok:
  assumes "regs_ok sign (tk_tx ` set (di_tasks di)) tids (attempts (di_register_tx di))" "pool_ok sign (di_pool di)"
    "distinct (map sd_id (dc_senders cfg))" "list_all (op_ok sign) (pool_ops ts)"
    "list_all (\<lambda>t. tr_trigger_id t = from_slot_tick (tr_slot t) (tr_tick t)) (disp_triggers ts)"
    "distinct (map tr_trigger_id (disp_triggers ts))" "tids \<inter> tr_trigger_id ` set (disp_triggers ts) = {}"
  shows "\<exists>tids'. regs_ok sign (tk_tx ` set (di_tasks (dispatcher_loop racc sign cfg ts di))) tids'
    (attempts (di_register_tx (dispatcher_loop racc sign cfg ts di)))"
  using assms
proof (induction racc sign cfg ts di arbitrary: tids rule: dispatcher_loop.induct)
  case (5 racc sign cfg c ts di)
  then show ?case using pool_ok_exec [of sign "di_pool di" c] by simp
next
  case (7 racc sign cfg trig bhc now ts di)
  let ?di = "dispatch_trigger racc sign cfg bhc now trig di"
  have "list_ok sign (tr_trigger_id trig) (variants_for sign cfg bhc now trig di)"
    using "7.prems" by (intro variants_for_ok) auto
  moreover have "tk_tx ` set (di_tasks ?di) = tk_tx ` set (di_tasks di) \<union>
      pt_tx ` set (filter (known cfg) (variants_for sign cfg bhc now trig di))"
    unfolding dispatch_trigger_fields by (auto simp: image_Un image_image)
  ultimately have "regs_ok sign (tk_tx ` set (di_tasks ?di)) (insert (tr_trigger_id trig) tids) (attempts (di_register_tx ?di))"
    using regs_ok_append [OF "7.prems"(1) _ _ refl, of trig _ cfg] "7.prems"(7)
    unfolding dispatch_trigger_fields(2) by simp
  moreover have "pool_ok sign (di_pool ?di)"
    unfolding dispatch_trigger_fields using "7.prems"(2) by (rule pool_ok_take)
  ultimately show ?case using "7.IH" [of "insert (tr_trigger_id trig) tids"] "7.prems" by auto
qed auto

lemma dispatcher_fresh:
  assumes "distinct (map sd_id (dc_senders cfg))" "list_all (op_ok sign) (pool_ops ts)"
    "list_all (\<lambda>t. tr_trigger_id t = from_slot_tick (tr_slot t) (tr_tick t)) (disp_triggers ts)"
    "distinct (map tr_trigger_id (disp_triggers ts))"
    "inj_on sign (tk_tx ` set (di_tasks (dispatcher_loop racc sign cfg ts (dispatcher_init pool_new rots))))"
  shows "fresh_regs (attempts (di_register_tx (dispatcher_loop racc sign cfg ts (dispatcher_init pool_new rots))))"
proof -
  have "regs_ok sign (tk_tx ` set (di_tasks (dispatcher_init pool_new rots))) {} (attempts (di_register_tx (dispatcher_init pool_new rots)))"
    by (simp add: regs_ok_def dispatcher_init_def)
  moreover have "pool_ok sign (di_pool (dispatcher_init pool_new rots))"
    by (simp add: dispatcher_init_def pool_ok_def pool_simps)
  ultimately show ?thesis using dispatcher_regs_ok [OF _ _ assms(1-4), where tids = "{}"] assms(5) regs_ok_fresh by blast
qed

end
