(* ===== verification/Pipeline.thy ===== *)
theory Pipeline
  imports Dispatcher_Props "HOL-Library.Sublist"
begin

text \<open>
  The trigger engine, the preparer's pool, the dispatcher and the recorder together, as
  \<open>phase3_run.rs\<close> wires them: each thread is a run of its own theory, and what one receives is
  what the channel delivered from the other. The order in which the threads take turns is not
  fixed: other threads' operations on the shared pool and the shared set of pending signatures
  are turns of each run.
\<close>

section \<open>The triggers of the engine\<close>

text \<open>Entries are not more than 256 slots behind the highest one seen, and slots are below \<open>2 ^ 56\<close>,
  so that trigger ids are as distinct as (slot, tick) pairs.\<close>

fun steady :: "nat \<Rightarrow> engine_turn list \<Rightarrow> bool" where
  "steady hi [] = True"
| "steady hi (Ordered (Entry e) sched now mnow # ts) =
     (hi \<le> unat (oe_slot e) + 256 \<and> unat (oe_slot e) < 2 ^ 56 \<and> steady (max hi (unat (oe_slot e))) ts)"
| "steady hi (t # ts) = steady hi ts"

definition fired_ok :: "nat \<Rightarrow> engine \<Rightarrow> bool" where
  "fired_ok hi en \<longleftrightarrow> distinct (map (\<lambda>t. (tr_slot t, tr_tick t)) (attempts (en_trigger_tx en))) \<and>
     list_all (\<lambda>t. tr_trigger_id t = from_slot_tick (tr_slot t) (tr_tick t) \<and> unat (tr_slot t) \<le> hi \<and>
       (hi \<le> unat (tr_slot t) + 256 \<longrightarrow> (tr_slot t, tr_tick t) \<in> en_fired en)) (attempts (en_trigger_tx en))"

lemma fired_ok_cong:
  "en_fired en' = en_fired en \<Longrightarrow> en_trigger_tx en' = en_trigger_tx en \<Longrightarrow> fired_ok hi en' = fired_ok hi en"
  by (simp add: fired_ok_def)

lemma fired_ok_check:
  assumes ok: "fired_ok hi en" and lag: "hi \<le> unat (oe_slot e) + 256"
  shows "fired_ok (max hi (unat (oe_slot e))) (schedule_check tacc sched now e en)"
proof -
  let ?hi = "max hi (unat (oe_slot e))" and ?k = "(oe_slot e, oe_tick_idx_in_slot e)"
  have up: "fired_ok ?hi en" using ok by (auto simp: fired_ok_def list_all_iff)
  show ?thesis
  proof (cases "oe_tick_idx_in_slot e > 0 \<and> ?k \<in> sched \<and> ?k \<notin> en_fired en")
    case True
    have "?k \<notin> (\<lambda>t. (tr_slot t, tr_tick t)) ` set (attempts (en_trigger_tx en))"
    proof
      assume "?k \<in> (\<lambda>t. (tr_slot t, tr_tick t)) ` set (attempts (en_trigger_tx en))"
      then obtain t where t: "t \<in> set (attempts (en_trigger_tx en))" "tr_slot t = oe_slot e" "tr_tick t = oe_tick_idx_in_slot e"
        by auto
      then have "?k \<in> en_fired en" using ok lag unfolding fired_ok_def list_all_iff by metis
      then show False using True by simp
    qed
    then show ?thesis using True up
      by (auto simp: schedule_check_def fire_trigger_def try_send_def Let_def fired_ok_def list_all_iff)
  next
    case False
    then have "en_fired (schedule_check tacc sched now e en) = en_fired en"
      "en_trigger_tx (schedule_check tacc sched now e en) = en_trigger_tx en"
      by (auto simp: schedule_check_def Let_def)
    then show ?thesis using up fired_ok_cong by blast
  qed
qed

lemma fired_ok_compact:
  assumes "fired_ok hi en" "unat s \<le> hi"
  shows "fired_ok hi (compact_fired s en)"
proof -
  have "saturating_sub s 256 \<le> tr_slot t" if "hi \<le> unat (tr_slot t) + 256" for t :: trigger_event
    using that assms(2) by (simp add: word_le_nat_alt)
  then show ?thesis using assms(1) by (auto simp: fired_ok_def compact_fired_def list_all_iff)
qed

lemma fired_ok_entry:
  assumes "fired_ok hi en" "hi \<le> unat (oe_slot e) + 256"
  shows "fired_ok (max hi (unat (oe_slot e))) (entry_step_engine tacc macc sched now mnow e en)"
proof -
  let ?hi = "max hi (unat (oe_slot e))"
  define en2 where "en2 = feed_cache (oe_slot e) (obs_entry_hash (oe_observation e))
    (en\<lparr>en_counters := (en_counters en)\<lparr>ec_entries_seen := ec_entries_seen (en_counters en) + 1\<rparr>\<rparr>)"
  have "fired_ok hi en2" using assms(1) by (simp add: en2_def fired_ok_def)
  then have c: "fired_ok ?hi (schedule_check tacc sched now e en2)" using assms(2) by (rule fired_ok_check)
  have "fired_ok ?hi (fold (match_sig macc e) sts (schedule_check tacc sched now e en2))" for sts
    using c by (simp add: fired_ok_def fold_match_sig_fields)
  then show ?thesis unfolding entry_step_engine_def Let_def en2_def by (intro fired_ok_compact) simp_all
qed

lemma fired_ok_other:
  assumes "\<And>e. ev \<noteq> Entry e"
  shows "fired_ok hi (handle_event tacc macc ev sched now mnow en) = fired_ok hi en"
    "steady hi (turns_handled (Ordered ev sched now mnow # ts)) = steady hi (turns_handled ts)"
proof -
  have "en_fired (slot_lifecycle ev en) = en_fired en" "en_trigger_tx (slot_lifecycle ev en) = en_trigger_tx en"
    by (cases ev; simp)+
  then show "fired_ok hi (handle_event tacc macc ev sched now mnow en) = fired_ok hi en"
    using assms by (cases ev) (blast, simp_all add: fired_ok_def)
  show "steady hi (turns_handled (Ordered ev sched now mnow # ts)) = steady hi (turns_handled ts)"
    using assms by (cases ev) (blast, simp_all)
qed

lemma fired_ok_loop:
  "fired_ok hi en \<Longrightarrow> hi < 2 ^ 56 \<Longrightarrow> steady hi (turns_handled ts) \<Longrightarrow>
    \<exists>hi' < 2 ^ 56. fired_ok hi' (engine_loop tacc macc ts en)"
proof (induction tacc macc ts en arbitrary: hi rule: engine_loop.induct)
  case (5 tacc macc sig ts en)
  have "fired_ok hi (en\<lparr>en_pending_sigs := insert sig (en_pending_sigs en)\<rparr>)"
    using "5.prems"(1) by (simp add: fired_ok_def)
  from "5.IH" [OF this "5.prems"(2)] "5.prems"(3) show ?case by simp
next
  case (6 tacc macc ev sched now mnow ts en)
  show ?case
  proof (cases "\<exists>e. ev = Entry e")
    case True
    then obtain e where Entry: "ev = Entry e" by blast
    let ?hi = "max hi (unat (oe_slot e))"
    have e: "hi \<le> unat (oe_slot e) + 256" "?hi < 2 ^ 56" "steady ?hi (turns_handled ts)"
      using "6.prems"(2,3) by (simp_all add: Entry)
    have "fired_ok ?hi (handle_event tacc macc ev sched now mnow en)"
      using fired_ok_entry [OF "6.prems"(1) e(1)] by (simp add: Entry)
    from "6.IH" [OF this e(2,3)] show ?thesis by (simp add: Entry)
  next
    case False
    then have o: "\<And>e. ev \<noteq> Entry e" by blast
    show ?thesis using "6.IH" [of hi] "6.prems" fired_ok_other [OF o] by simp
  qed
qed auto

lemma trigger_id_inj:
  assumes "from_slot_tick s t = from_slot_tick s' t'" "unat s < 2 ^ 56" "unat s' < 2 ^ 56"
  shows "s = s' \<and> t = t'"
proof -
  have eq: "t = t' \<and> take_bit 56 s = take_bit 56 s'" using assms(1) by (simp only: from_slot_tick_eq)
  have "take_bit 56 w = w" if "unat w < 2 ^ 56" for w :: u64
    using that by (simp add: word_unat_eq_iff unsigned_take_bit_eq take_bit_nat_eq_self)
  with eq assms(2,3) show ?thesis by metis
qed

lemma engine_triggers_distinct:
  assumes "steady 0 (turns_handled ts)"
  shows "distinct (map tr_trigger_id (delivered (en_trigger_tx (engine_loop tacc macc ts (engine_init cache)))))"
    "list_all (\<lambda>t. tr_trigger_id t = from_slot_tick (tr_slot t) (tr_tick t))
      (delivered (en_trigger_tx (engine_loop tacc macc ts (engine_init cache))))"
proof -
  let ?tx = "en_trigger_tx (engine_loop tacc macc ts (engine_init cache))"
  have "fired_ok 0 (engine_init cache)" by (simp add: fired_ok_def engine_init_def)
  from fired_ok_loop [OF this _ assms] obtain hi where hi: "hi < 2 ^ 56"
    and ok: "fired_ok hi (engine_loop tacc macc ts (engine_init cache))" by auto
  let ?P = "\<lambda>t. tr_trigger_id t = from_slot_tick (tr_slot t) (tr_tick t) \<and> unat (tr_slot t) < 2 ^ 56"
  have d: "distinct (map (\<lambda>t. (tr_slot t, tr_tick t)) (attempts ?tx))" and P: "list_all ?P (attempts ?tx)"
    using ok hi by (auto simp: fired_ok_def list_all_iff)
  have inj: "inj_on tr_trigger_id (set (attempts ?tx))"
  proof (rule inj_onI)
    fix a b assume ab: "a \<in> set (attempts ?tx)" "b \<in> set (attempts ?tx)" "tr_trigger_id a = tr_trigger_id b"
    then have "?P a" "?P b" using P by (auto simp: list_all_iff)
    then have "tr_slot a = tr_slot b \<and> tr_tick a = tr_tick b" using ab(3) trigger_id_inj by metis
    then show "a = b" using d ab by (auto simp: distinct_map inj_on_def)
  qed
  then have "distinct (map tr_trigger_id (attempts ?tx))" using d by (simp add: distinct_map)
  then show "distinct (map tr_trigger_id (delivered ?tx))"
    unfolding delivered_def attempts_def map_map by (rule distinct_map_filter)
  show "list_all (\<lambda>t. tr_trigger_id t = from_slot_tick (tr_slot t) (tr_tick t)) (delivered ?tx)"
    using P set_delivered [of ?tx] by (auto simp: list_all_iff)
qed

section \<open>The matches of the engine\<close>

definition entries_of :: "engine_turn list \<Rightarrow> ordered_entry set" where
  "entries_of ts = {e. \<exists>sched now mnow. Ordered (Entry e) sched now mnow \<in> set ts}"

definition seen_in :: "ordered_entry set \<Rightarrow> match_event \<Rightarrow> bool" where
  "seen_in es m \<longleftrightarrow> (\<exists>e \<in> es. mt_signature m \<in> set (obs_signatures (oe_observation e)) \<and>
     mt_observed_slot m = oe_slot e \<and> mt_observed_entry_index m = oe_entry_index e)"

lemma match_sigs_seen:
  assumes "e \<in> es" "set (map fst sts) \<subseteq> set (obs_signatures (oe_observation e))"
    "list_all (seen_in es) (attempts (en_match_tx en))"
  shows "list_all (seen_in es) (attempts (en_match_tx (fold (match_sig macc e) sts en)))"
  using assms(2,3)
proof (induction sts arbitrary: en)
  case (Cons st sts)
  obtain sig now where st: "st = (sig, now)" by (cases st)
  have "seen_in es \<lparr> mt_signature = sig, mt_observed_at = now, mt_observed_slot = oe_slot e,
      mt_observed_entry_index = oe_entry_index e, mt_observed_tick = oe_tick_idx_in_slot e,
      mt_observed_source = obs_source (oe_observation e) \<rparr>"
    using Cons.prems(1) assms(1) by (auto simp: st seen_in_def)
  then have "list_all (seen_in es) (attempts (en_match_tx (match_sig macc e (sig, now) en)))"
    using Cons.prems(2) by (simp add: match_sig_def try_send_def Let_def)
  then show ?case using Cons by (simp add: st)
qed simp

lemma schedule_check_match [simp]: "en_match_tx (schedule_check tacc sched now e en) = en_match_tx en"
  by (auto simp: schedule_check_def fire_trigger_def try_send_def Let_def)

lemma compact_match [simp]: "en_match_tx (compact_fired s en) = en_match_tx en"
  by (simp add: compact_fired_def)

lemma entry_seen:
  assumes "e \<in> es" "list_all (seen_in es) (attempts (en_match_tx en))"
  shows "list_all (seen_in es) (attempts (en_match_tx (entry_step_engine tacc macc sched now mnow e en)))"
proof -
  have "set (map fst (zip xs ys)) \<subseteq> set xs" for xs :: "signature list" and ys :: "instant list"
    by (auto dest: set_zip_leftD)
  then show ?thesis unfolding entry_step_engine_def Let_def compact_match
    by (intro match_sigs_seen assms) (simp_all add: assms)
qed

lemma matches_seen:
  "list_all (seen_in es) (attempts (en_match_tx en)) \<Longrightarrow> entries_of ts \<subseteq> es \<Longrightarrow>
    list_all (seen_in es) (attempts (en_match_tx (engine_loop tacc macc ts en)))"
proof (induction tacc macc ts en rule: engine_loop.induct)
  case (6 tacc macc ev sched now mnow ts en)
  have sub: "entries_of ts \<subseteq> es" using "6.prems"(2) by (auto simp: entries_of_def)
  have "list_all (seen_in es) (attempts (en_match_tx (handle_event tacc macc ev sched now mnow en)))"
  proof (cases ev)
    case (Entry e)
    then have "e \<in> es" using "6.prems"(2) by (auto simp: entries_of_def)
    then show ?thesis using entry_seen "6.prems"(1) by (simp add: Entry)
  qed (use "6.prems"(1) in simp_all)
  then show ?case using "6.IH" sub by simp
qed (auto simp: entries_of_def)

section \<open>End to end\<close>

text \<open>The channels between the three threads: each consumer has received a prefix of what was
  delivered (the recorder's matches in any order relative to its other channels).\<close>

definition linked :: "engine \<Rightarrow> dispatcher_turn list \<Rightarrow> dispatcher \<Rightarrow> (recorder_turn \<times> instant) list \<Rightarrow> bool" where
  "linked en dts di rts \<longleftrightarrow> prefix (disp_triggers dts) (delivered (en_trigger_tx en)) \<and>
     prefix (regs_of rts) (delivered (di_register_tx di)) \<and> matches_of rts \<subseteq> set (delivered (en_match_tx en))"

lemma prefix_list: "prefix xs ys \<Longrightarrow> list_all P ys \<Longrightarrow> list_all P xs"
  "prefix xs ys \<Longrightarrow> distinct (map f ys) \<Longrightarrow> distinct (map f xs)"
  by (auto simp: prefix_def)

lemma distinct_delivered: "distinct (map f (attempts c)) \<Longrightarrow> distinct (map f (delivered c))"
  unfolding delivered_def attempts_def map_map by (rule distinct_map_filter)

lemma fresh_delivered:
  assumes "fresh_regs (attempts c)" "prefix rs (delivered c)"
  shows "fresh_regs rs"
proof -
  have "distinct (map reg_key (attempts c))" "distinct (map re_signature (attempts c))"
    using assms(1) by (simp_all add: fresh_regs_def)
  note this [THEN distinct_delivered, THEN prefix_list(2) [OF assms(2)]]
  then show ?thesis by (simp add: fresh_regs_def)
qed

lemma witnessed_mono: "witnessed ms r \<Longrightarrow> ms \<subseteq> ms' \<Longrightarrow> witnessed ms' r"
  unfolding witnessed_def by (elim bexE) (rule bexI, assumption, erule subsetD, assumption)

lemma pipeline_fresh:
  fixes tacc macc ets cache racc sign cfg dts rots
  defines "en \<equiv> engine_loop tacc macc ets (engine_init cache)"
    and "di \<equiv> dispatcher_loop racc sign cfg dts (dispatcher_init pool_new rots)"
  assumes "steady 0 (turns_handled ets)" "distinct (map sd_id (dc_senders cfg))"
    "list_all (op_ok sign) (pool_ops dts)" "inj_on sign (tk_tx ` set (di_tasks di))" "linked en dts di rts"
  shows "fresh_regs (regs_of rts)"
proof -
  have p: "prefix (disp_triggers dts) (delivered (en_trigger_tx en))" "prefix (regs_of rts) (delivered (di_register_tx di))"
    using assms(7) by (simp_all add: linked_def)
  have "distinct (map tr_trigger_id (disp_triggers dts))"
    using p(1) engine_triggers_distinct(1) [OF assms(3)] unfolding en_def by (rule prefix_list)
  moreover have "list_all (\<lambda>t. tr_trigger_id t = from_slot_tick (tr_slot t) (tr_tick t)) (disp_triggers dts)"
    using p(1) engine_triggers_distinct(2) [OF assms(3)] unfolding en_def by (rule prefix_list)
  ultimately have "fresh_regs (attempts (di_register_tx di))"
    unfolding di_def using assms(4,5,6) [unfolded di_def] by (intro dispatcher_fresh)
  then show ?thesis using p(2) by (rule fresh_delivered)
qed

text \<open>C1: The measurement is exact end to end. For any run of the trigger engine, the dispatcher and
  the recorder that the channels link, with pool lists as the preparer makes them, distinct
  sender ids and signatures that do not collide on the transactions of the run: the recorder
  writes exactly one record for each attempt it was told of, and every record it reports as
  landed carries the slot and the index of an entry, seen by the engine, that contains the
  record's signature.\<close>
theorem pipeline_exact:
  assumes "steady 0 (turns_handled ets)" "distinct (map sd_id (dc_senders cfg))"
    "list_all (op_ok sign) (pool_ops dts)"
    "inj_on sign (tk_tx ` set (di_tasks (dispatcher_loop racc sign cfg dts (dispatcher_init pool_new rots))))"
    "linked (engine_loop tacc macc ets (engine_init cache)) dts
       (dispatcher_loop racc sign cfg dts (dispatcher_init pool_new rots)) rts"
  shows "let out = written (recorder_run wacc hashv rcfg start rts) in
    mset (map rec_key out) = mset (map reg_key (regs_of rts)) \<and>
    list_all (witnessed {m. seen_in (entries_of ets) m}) (filter (with_outcome Landed) out)"
proof -
  let ?run = "recorder_run wacc hashv rcfg start rts"
  have f: "fresh_regs (regs_of rts)" by (rule pipeline_fresh [OF assms])
  have "list_all (seen_in (entries_of ets)) (attempts (en_match_tx (engine_loop tacc macc ets (engine_init cache))))"
    by (rule matches_seen) (simp_all add: engine_init_def)
  then have seen: "set (attempts (en_match_tx (engine_loop tacc macc ets (engine_init cache)))) \<subseteq>
      {m. seen_in (entries_of ets) m}"
    by (simp only: list_all_iff subset_eq mem_Collect_eq)
  have "matches_of rts \<subseteq> set (delivered (en_match_tx (engine_loop tacc macc ets (engine_init cache))))"
    using assms(5) by (simp only: linked_def)
  also note set_delivered
  also note seen
  finally have sub: "matches_of rts \<subseteq> {m. seen_in (entries_of ets) m}" .
  have "witnessed {m. seen_in (entries_of ets) m} r" if "r \<in> set (written ?run)" "rr_final_outcome r = Landed" for r
    using landed_witnessed [OF f that] sub by (rule witnessed_mono)
  then have "list_all (witnessed {m. seen_in (entries_of ets) m}) (filter (with_outcome Landed) (written ?run))"
    by (simp add: list_all_iff)
  with run_keys [OF f] show ?thesis unfolding Let_def by (rule conjI)
qed

text \<open>A run: a trigger fires, one variant is built and sent, its signature shows up in an entry.\<close>

definition demo_pl_engine :: "engine_turn list" where
  "demo_pl_engine = [Ordered (demo_entry 6 0 3 []) {(6, 3)} 50 (\<lambda>_. 0), AddPending 5,
     Ordered (demo_entry 6 1 3 [5]) {} 0 (\<lambda>_. 500), EngineStopped]"

definition demo_pl_cfg :: dispatcher_config where
  "demo_pl_cfg = demo_disp_cfg\<lparr>dc_senders := [ss_config (demo_sender 0 Triton)]\<rparr>"

definition demo_pl_reg :: register_event where
  "demo_pl_reg = \<lparr> re_trigger_id = from_slot_tick 6 3, re_sender_id = 0, re_sender_name = [], re_endpoint_url = [],
     re_protocol = ''HTTP_JSONRPC'', re_signature = 5, re_slot = 6, re_tick = 3, re_trigger_observed_at = 50,
     re_prepared_at = 60, re_blockhash = 9, re_nonce_id = None \<rparr>"

definition demo_pl_match :: match_event where
  "demo_pl_match = \<lparr> mt_signature = 5, mt_observed_at = 500, mt_observed_slot = 6, mt_observed_entry_index = 1,
     mt_observed_tick = 3, mt_observed_source = ShredStream \<rparr>"

definition demo_pl_turns :: "(recorder_turn \<times> instant) list" where
  "demo_pl_turns = [(RecRegister demo_pl_reg, 70), (RecMatch demo_pl_match (cache_new 32) 510, 510), (RecStopped, 600)]"

lemmas engine_eval = entry_step_engine_def schedule_check_def fire_trigger_def match_sig_def compact_fired_def
  feed_cache_def engine_init_def try_send_def delivered_def Let_def

lemma demo_pl_engine_run:
  fixes en defines "en \<equiv> engine_loop (\<lambda>_ _. True) (\<lambda>_ _. True) demo_pl_engine (engine_init None)"
  shows "delivered (en_trigger_tx en) = [demo_trigger]" "delivered (en_match_tx en) = [demo_pl_match]"
  by (simp_all add: en_def demo_pl_engine_def demo_entry_def demo_obs_def engine_eval demo_trigger_def demo_pl_match_def)

lemma demo_pl_dispatch:
  fixes di defines "di \<equiv> dispatcher_loop (\<lambda>_ _. True) (\<lambda>_. 5) demo_pl_cfg [DispTrigger demo_trigger demo_bhc (\<lambda>_. 60)]
    (dispatcher_init pool_new [])"
  shows "delivered (di_register_tx di) = [demo_pl_reg]" "length (di_tasks di) = 1"
  by (simp_all add: di_def demo_pl_cfg_def demo_disp_cfg_def demo_sender_def dispatch_trigger_def take_variants_def
      fallback_variant_def dispatch_variant_def make_register_def dispatcher_init_def pool_take_def pool_new_def
      demo_trigger_def demo_bhc_def bc_is_empty_def current_def build_def try_send_def delivered_def Let_def
      demo_pl_reg_def)

lemma pipeline_exact_witness:
  "mset (map rec_key (written (recorder_run (\<lambda>_ _. True) (\<lambda>_. 0) demo_rec_cfg 0 demo_pl_turns))) =
    {# (from_slot_tick 6 3, 0) #}"
proof -
  let ?en = "engine_loop (\<lambda>_ _. True) (\<lambda>_ _. True) demo_pl_engine (engine_init None)"
  let ?dts = "[DispTrigger demo_trigger demo_bhc (\<lambda>_. 60)]"
  let ?di = "dispatcher_loop (\<lambda>_ _. True) (\<lambda>_. 5) demo_pl_cfg ?dts (dispatcher_init pool_new [])"
  have st: "steady 0 (turns_handled demo_pl_engine)"
    by (simp add: demo_pl_engine_def demo_entry_def)
  have ds: "distinct (map sd_id (dc_senders demo_pl_cfg))" and ops: "list_all (op_ok (\<lambda>_. 5)) (pool_ops ?dts)"
    by (simp_all add: demo_pl_cfg_def)
  have inj: "inj_on (\<lambda>_. 5) (tk_tx ` set (di_tasks ?di))"
    using demo_pl_dispatch(2) by (cases "di_tasks ?di") auto
  have lk: "linked ?en ?dts ?di demo_pl_turns"
    unfolding linked_def demo_pl_engine_run demo_pl_dispatch
    by (auto simp: demo_pl_turns_def turn_regs_def matches_of_def)
  note exact = pipeline_exact [OF st ds ops inj lk, where wacc = "\<lambda>_ _. True" and hashv = "\<lambda>_. 0"
      and rcfg = demo_rec_cfg and start = 0, unfolded Let_def, THEN conjunct1]
  show ?thesis unfolding exact by (simp add: demo_pl_turns_def turn_regs_def reg_key_def demo_pl_reg_def)
qed

end
