(* ===== verification/Rust_String.thy ===== *)
theory Rust_String
  imports Bytes "HOL-Library.Sublist" "HOL-Library.Char_ord"
begin

text \<open>
  The operations on \<open>str\<close> and \<open>String\<close> the senders use: \<open>replace\<close>, \<open>split_once\<close>,
  \<open>trim_end_matches\<close>, \<open>trim\<close>, \<open>Display\<close> of unsigned numbers, \<open>as_bytes\<close>. Strings are
  lists of bytes; \<open>trim\<close> knows the ASCII white space only.
\<close>

named_theorems rust_string "equations of the string operations"

section \<open>Searching and splitting\<close>

fun split_once :: "char \<Rightarrow> string \<Rightarrow> (string \<times> string) option" where
  "split_once c [] = None"
| "split_once c (x # xs) = (if x = c then Some ([], xs)
     else map_option (\<lambda>(a, b). (x # a, b)) (split_once c xs))"

text \<open>\<open>split_once\<close> with a string as the separator.\<close>

fun split_once_str :: "string \<Rightarrow> string \<Rightarrow> (string \<times> string) option" where
  "split_once_str pat [] = (if pat = [] then Some ([], []) else None)"
| "split_once_str pat (x # xs) = (if prefix pat (x # xs) then Some ([], drop (length pat) (x # xs))
     else map_option (\<lambda>(a, b). (x # a, b)) (split_once_str pat xs))"

definition rsplit_once :: "char \<Rightarrow> string \<Rightarrow> (string \<times> string) option" where
  "rsplit_once c s = map_option (\<lambda>(a, b). (rev b, rev a)) (split_once c (rev s))"

text \<open>\<open>s.split(c).next()\<close>, which is never \<open>None\<close>.\<close>

definition split_first :: "char \<Rightarrow> string \<Rightarrow> string" where
  "split_first c s = takeWhile (\<lambda>x. x \<noteq> c) s"

definition trim_end_matches :: "char \<Rightarrow> string \<Rightarrow> string" where
  "trim_end_matches c s = rev (dropWhile (\<lambda>x. x = c) (rev s))"

definition white :: "char \<Rightarrow> bool" where
  "white c \<longleftrightarrow> c = CHR '' '' \<or> c = CHR 0x09 \<or> c = CHR 0x0A \<or> c = CHR 0x0B \<or> c = CHR 0x0C \<or> c = CHR 0x0D"

definition trim :: "string \<Rightarrow> string" where
  "trim s = rev (dropWhile white (rev (dropWhile white s)))"

lemma split_once_key: "c \<notin> set a \<Longrightarrow> split_once c (a @ c # b) = Some (a, b)"
  by (induction a) auto

lemma split_once_SomeD: "split_once c s = Some (a, b) \<Longrightarrow> s = a @ c # b \<and> c \<notin> set a"
  by (induction s arbitrary: a b) (auto split: if_splits)

lemma split_once_None: "split_once c s = None \<longleftrightarrow> c \<notin> set s"
  by (induction s) auto

lemma split_once_append:
  "split_once c (a @ b) = (case split_once c a of Some (x, y) \<Rightarrow> Some (x, y @ b)
     | None \<Rightarrow> map_option (\<lambda>(x, y). (a @ x, y)) (split_once c b))"
  by (induction a) (auto split: option.splits simp: option.map_comp comp_def case_prod_unfold option.map_ident)

section \<open>\<open>replace\<close>\<close>

text \<open>Every occurrence, from the left and without overlaps. An empty pattern matches at
  every position.\<close>

function str_replace :: "string \<Rightarrow> string \<Rightarrow> string \<Rightarrow> string" where
  "str_replace pat to [] = (if pat = [] then to else [])"
| "str_replace pat to (c # cs) =
     (if pat = [] then to @ c # str_replace pat to cs
      else if prefix pat (c # cs) then to @ str_replace pat to (drop (length pat) (c # cs))
      else c # str_replace pat to cs)"
  by pat_completeness auto
termination
  by (relation "measure (\<lambda>(_, _, s). length s)") (auto simp: neq_Nil_conv)

lemma replace_prefix:
  assumes "prefix p (str_replace pat to s)" "set p \<inter> set to = {}" "to \<noteq> []" "pat \<noteq> []"
  shows "prefix p s"
  using assms
proof (induction pat to s arbitrary: p rule: str_replace.induct)
  case (2 pat to c cs)
  show ?case
  proof (cases "prefix pat (c # cs)")
    case True
    with 2 have "prefix p (to @ str_replace pat to (drop (length pat) (c # cs)))" by simp
    then have "p = []" using 2 by (cases p; cases to) auto
    then show ?thesis by simp
  next
    case False
    with 2 have p: "prefix p (c # str_replace pat to cs)" by simp
    show ?thesis
    proof (cases p)
      case (Cons x p')
      with p 2 have "prefix p' cs" using 2(2) False by auto
      with p Cons show ?thesis by simp
    qed simp
  qed
qed simp

lemma sublist_skip:
  "sublist k (to @ r) \<Longrightarrow> set k \<inter> set to = {} \<Longrightarrow> k \<noteq> [] \<Longrightarrow> sublist k r"
proof (induction to)
  case (Cons t ts)
  then have "prefix k (t # ts @ r) \<or> sublist k (ts @ r)" by (simp add: sublist_Cons_right)
  moreover have "\<not> prefix k (t # ts @ r)" using Cons by (cases k) auto
  ultimately show ?case using Cons by simp
qed simp

text \<open>Replacing a string by one that shares no character with it leaves no occurrence of it.\<close>

lemma replace_removes:
  assumes "set pat \<inter> set to = {}" "to \<noteq> []" "pat \<noteq> []"
  shows "\<not> sublist pat (str_replace pat to s)"
  using assms
proof (induction pat to s rule: str_replace.induct)
  case (2 pat to c cs)
  show ?case
  proof (cases "prefix pat (c # cs)")
    case True
    have "\<not> sublist pat (str_replace pat to (drop (length pat) (c # cs)))" using 2(2) [OF 2(6) True 2(4-6)] .
    moreover have "str_replace pat to (c # cs) = to @ str_replace pat to (drop (length pat) (c # cs))"
      using True 2(6) by simp
    ultimately show ?thesis using sublist_skip 2(4,6) by metis
  next
    case False
    have "\<not> prefix pat (c # str_replace pat to cs)"
    proof
      assume "prefix pat (c # str_replace pat to cs)"
      then have "prefix pat (str_replace pat to (c # cs))" using False 2(6) by simp
      then have "prefix pat (c # cs)" using 2(4-6) by (rule replace_prefix)
      then show False using False by simp
    qed
    moreover have "\<not> sublist pat (str_replace pat to cs)" using 2(3) [OF 2(6) False 2(4-6)] .
    moreover have "str_replace pat to (c # cs) = c # str_replace pat to cs" using False 2(6) by simp
    ultimately show ?thesis by (metis sublist_Cons_right)
  qed
qed simp

lemma replace_absent: "\<not> sublist pat s \<Longrightarrow> pat \<noteq> [] \<Longrightarrow> str_replace pat to s = s"
proof (induction pat to s rule: str_replace.induct)
  case (2 pat to c cs)
  have "\<not> prefix pat (c # cs)" "\<not> sublist pat cs" using 2(4) by (simp_all add: sublist_Cons_right)
  then show ?case using 2(3,5) by simp
qed simp

section \<open>Numbers and bytes\<close>

text \<open>\<open>Display\<close> of an unsigned integer.\<close>

fun show_nat :: "nat \<Rightarrow> string" where
  "show_nat n = (if n < 10 then [char_of (48 + n)] else show_nat (n div 10) @ [char_of (48 + n mod 10)])"

declare show_nat.simps [simp del]

definition show_word :: "'a::len word \<Rightarrow> string" where "show_word w = show_nat (unat w)"

definition as_bytes :: "string \<Rightarrow> bytes" where "as_bytes s = map of_char s"

lemma length_as_bytes [simp]: "length (as_bytes s) = length s"
  by (simp add: as_bytes_def)

text \<open>Decimal digits only.\<close>

lemma show_nat_digits: "set (show_nat n) \<subseteq> char_of ` {48..57 :: nat}"
proof (induction n rule: show_nat.induct)
  case (1 n)
  have d: "48 + n mod 10 \<in> {48..57}" by simp
  show ?case
  proof (cases "n < 10")
    case True
    then show ?thesis by (subst show_nat.simps) auto
  next
    case False
    moreover have "char_of (48 + n mod 10) \<in> (char_of :: nat \<Rightarrow> char) ` {48..57}" using d by (rule imageI)
    ultimately show ?thesis using 1 by (subst show_nat.simps) (simp only: if_False set_append Un_subset_iff, simp)
  qed
qed

end
