(* ===== verification/Sender_Base.thy ===== *)
theory Sender_Base
  imports Rust_String Recorder
begin

text \<open>
  What the senders under \<open>crates/tick-trigger-fan-out-bench/src/senders/\<close> share: the local
  throttle, the JSON-RPC request and reply, the outcomes, the source-address clients, and the
  contract of a throttled sender. Third-party code is a parameter: the codecs (\<open>base64\<close>,
  \<open>serde_json\<close>, the signature parser) are the record \<open>codec\<close>, the network and the clocks of one
  send are the record \<open>net\<close>. The sources repeat these helpers in every sender; they are
  identical there and stand here once.
\<close>

section \<open>Parameters\<close>

datatype json = JNull | JBool bool | JNumber int | JString string | JArray "json list"
  | JObject "(string \<times> json) list"

text \<open>\<open>serde_json::Value\<close>: a field of an object, an unsigned number, a text field.\<close>

definition json_get :: "string \<Rightarrow> json \<Rightarrow> json option" where
  "json_get field v = (case v of JObject fs \<Rightarrow> map_of fs field | _ \<Rightarrow> None)"

definition json_u64 :: "json \<Rightarrow> u64 option" where
  "json_u64 v = (case v of JNumber n \<Rightarrow> if 0 \<le> n \<and> n \<le> int u64_max then Some (of_int n) else None | _ \<Rightarrow> None)"

definition json_str :: "string \<Rightarrow> json \<Rightarrow> string option" where
  "json_str field v = (case v of
     JObject kvs \<Rightarrow> (case map_of kvs field of Some (JString t) \<Rightarrow> Some t | _ \<Rightarrow> None)
   | _ \<Rightarrow> None)"

record rpc_error =
  er_code :: "32 word"
  er_message :: string

record rpc_response =
  rr_result :: "string option"
  rr_error :: "rpc_error option"

record submit_response =
  sr_signature :: "string option"
  sr_uuid :: "string option"
  sr_code :: "32 word option"
  sr_message :: "string option"

record relay_response =
  rl_status :: "string option"
  rl_signature :: "string option"
  rl_error :: "string option"
  rl_message :: "string option"

record codec =
  cd_base64 :: "bytes \<Rightarrow> string"
  cd_to_string :: "json \<Rightarrow> string option"
  cd_rpc :: "string \<Rightarrow> rpc_response option"
  cd_submit :: "string \<Rightarrow> submit_response option"
  cd_relay :: "string \<Rightarrow> relay_response option"
  cd_value :: "string \<Rightarrow> json option"
  cd_signature :: "string \<Rightarrow> signature option"
  cd_utf8_lossy :: "bytes \<Rightarrow> string"

text \<open>A \<open>solana_sdk\<close> transaction: its signatures and what \<open>bincode\<close> makes of it.\<close>

record signed_tx =
  sx_signatures :: "signature list"
  sx_bincode :: "bytes option"

definition local_signature :: "signed_tx \<Rightarrow> signature" where
  "local_signature tx = (case sx_signatures tx of [] \<Rightarrow> 0 | s # _ \<Rightarrow> s)"

definition wire_bytes :: "signed_tx \<Rightarrow> bytes" where
  "wire_bytes tx = (case sx_bincode tx of Some b \<Rightarrow> b | None \<Rightarrow> [])"

definition tx_to_base64 :: "codec \<Rightarrow> signed_tx \<Rightarrow> string" where
  "tx_to_base64 cd tx = cd_base64 cd (wire_bytes tx)"

definition json_string :: "codec \<Rightarrow> json \<Rightarrow> string" where
  "json_string cd j = (case cd_to_string cd j of Some s \<Rightarrow> s | None \<Rightarrow> [])"

text \<open>What happens outside during one send. A reply is a transport error or a status with a
  body that may be unreadable. Fan-out replies arrive in the order \<open>ne_order\<close>; a task that
  delivers none is missing there.\<close>

datatype http_result = Http_Error string | Http_Response u16 "string option"

record net =
  ne_start :: instant
  ne_now :: instant
  ne_send_at :: instant
  ne_ack_at :: "nat \<Rightarrow> instant"
  ne_order :: "nat list"
  ne_http :: "nat \<Rightarrow> http_result"
  ne_closed :: "nat \<Rightarrow> bool"
  ne_connect :: "nat \<Rightarrow> string + nat"
  ne_auth :: "nat \<Rightarrow> string + u8"
  ne_stream :: "nat \<Rightarrow> string + bytes"

text \<open>Each task delivers one reply; a repeated index counts at its first place.\<close>

definition arrivals :: "nat \<Rightarrow> net \<Rightarrow> nat list" where
  "arrivals n net = filter (\<lambda>i. i < n) (rev (remdups (rev (ne_order net))))"

definition body_text :: "string option \<Rightarrow> string" where
  "body_text b = (case b of Some t \<Rightarrow> t | None \<Rightarrow> [])"

text \<open>What a send puts on the wire: the target, the headers, the body and the source address
  of the client.\<close>

record request =
  rq_url :: string
  rq_headers :: "(string \<times> string) list"
  rq_body :: bytes
  rq_source :: "string option"

type_synonym 's sent = "request list \<times> send_outcome \<times> 's"

abbreviation requests_of :: "'s sent \<Rightarrow> request list" where "requests_of r \<equiv> fst r"
abbreviation outcome_of :: "'s sent \<Rightarrow> send_outcome" where "outcome_of r \<equiv> fst (snd r)"
abbreviation state_of :: "'s sent \<Rightarrow> 's" where "state_of r \<equiv> snd (snd r)"

section \<open>The local throttle\<close>

definition from_millis :: "u64 \<Rightarrow> duration" where "from_millis ms = unat ms * 1000000"

definition throttled :: "instant option \<Rightarrow> instant \<Rightarrow> duration \<Rightarrow> bool" where
  "throttled prev now interval \<longleftrightarrow> interval > 0 \<and>
     (case prev of Some p \<Rightarrow> saturating_duration_since now p < interval | None \<Rightarrow> False)"

text \<open>The critical section under the mutex of \<open>last_send_at\<close>: whether the send goes on, and the
  value left in the mutex.\<close>

definition pace :: "duration \<Rightarrow> instant \<Rightarrow> instant option \<Rightarrow> bool \<times> instant option" where
  "pace interval now prev =
    (if interval > 0 then if throttled prev now interval then (False, prev) else (True, Some now)
     else (True, prev))"

section \<open>Outcomes\<close>

definition throttled_outcome :: "instant \<Rightarrow> signature \<Rightarrow> send_outcome" where
  "throttled_outcome now sig = \<lparr> so_send_at = now, so_send_ack_at = Some now, so_signature = sig,
     so_http_status = None, so_rpc_err_code = None, so_rpc_err_message = None,
     so_provider_request_id = None, so_error = Some ''throttled_local'', so_endpoint_url_used = None \<rparr>"

definition failed_outcome :: "instant \<Rightarrow> signature \<Rightarrow> string \<Rightarrow> string option \<Rightarrow> send_outcome" where
  "failed_outcome at sig err url = \<lparr> so_send_at = at, so_send_ack_at = None, so_signature = sig,
     so_http_status = None, so_rpc_err_code = None, so_rpc_err_message = None,
     so_provider_request_id = None, so_error = Some err, so_endpoint_url_used = url \<rparr>"

definition accepted_outcome ::
  "instant \<Rightarrow> instant \<Rightarrow> signature \<Rightarrow> u16 option \<Rightarrow> string option \<Rightarrow> string \<Rightarrow> send_outcome" where
  "accepted_outcome at ack sig status req_id url = \<lparr> so_send_at = at, so_send_ack_at = Some ack,
     so_signature = sig, so_http_status = status, so_rpc_err_code = None, so_rpc_err_message = None,
     so_provider_request_id = req_id, so_error = None, so_endpoint_url_used = Some url \<rparr>"

definition rejected_outcome ::
  "instant \<Rightarrow> instant \<Rightarrow> signature \<Rightarrow> u16 option \<Rightarrow> 32 word option \<Rightarrow> string option \<Rightarrow> string \<Rightarrow> string \<Rightarrow>
    send_outcome" where
  "rejected_outcome at ack sig status code msg err url = \<lparr> so_send_at = at, so_send_ack_at = Some ack,
     so_signature = sig, so_http_status = status, so_rpc_err_code = code, so_rpc_err_message = msg,
     so_provider_request_id = None, so_error = Some err, so_endpoint_url_used = Some url \<rparr>"

lemmas outcome_defs = throttled_outcome_def failed_outcome_def accepted_outcome_def rejected_outcome_def

lemma outcome_error [simp]:
  "so_error (throttled_outcome now sig) = Some ''throttled_local''"
  "so_error (failed_outcome at sig err u) = Some err"
  "so_error (accepted_outcome at ack sig st rid url) = None"
  "so_error (rejected_outcome at ack sig st code msg err url) = Some err"
  by (simp_all add: outcome_defs)

lemma outcome_url [simp]:
  "so_endpoint_url_used (throttled_outcome now sig) = None"
  "so_endpoint_url_used (failed_outcome at sig err u) = u"
  "so_endpoint_url_used (accepted_outcome at ack sig st rid url) = Some url"
  "so_endpoint_url_used (rejected_outcome at ack sig st code msg err url) = Some url"
  by (simp_all add: outcome_defs)

lemma outcome_message [simp]:
  "so_rpc_err_message (throttled_outcome now sig) = None"
  "so_rpc_err_message (failed_outcome at sig err u) = None"
  "so_rpc_err_message (accepted_outcome at ack sig st rid url) = None"
  "so_rpc_err_message (rejected_outcome at ack sig st code msg err url) = msg"
  by (simp_all add: outcome_defs)

text \<open>\<open>returned.as_deref().and_then(|s| s.parse().ok())\<close>, or the local signature.\<close>

definition returned_or :: "codec \<Rightarrow> string option \<Rightarrow> signature \<Rightarrow> signature" where
  "returned_or cd returned sig = (case Option.bind returned (cd_signature cd) of Some s \<Rightarrow> s | None \<Rightarrow> sig)"

section \<open>JSON-RPC\<close>

definition send_request :: "string \<Rightarrow> (string \<times> json) list \<Rightarrow> json" where
  "send_request b64 options = JObject [(''jsonrpc'', JString ''2.0''), (''id'', JNumber 1),
     (''method'', JString ''sendTransaction''), (''params'', JArray [JString b64, JObject options])]"

definition send_options :: "(string \<times> json) list" where
  "send_options = [(''encoding'', JString ''base64''), (''skipPreflight'', JBool True), (''maxRetries'', JNumber 0)]"

definition build_rpc_body :: "codec \<Rightarrow> signed_tx \<Rightarrow> string" where
  "build_rpc_body cd tx = json_string cd (send_request (tx_to_base64 cd tx) send_options)"

datatype parsed_reply = Parsed_Ok "string option" | Parsed_Rpc_Error "32 word" string | Parsed_Non_Json string

definition parse_rpc_reply :: "codec \<Rightarrow> string \<Rightarrow> parsed_reply" where
  "parse_rpc_reply cd body = (case cd_rpc cd body of
     Some r \<Rightarrow> (case rr_error r of Some err \<Rightarrow> Parsed_Rpc_Error (er_code err) (er_message err)
       | None \<Rightarrow> Parsed_Ok (rr_result r))
   | None \<Rightarrow> Parsed_Non_Json body)"

section \<open>Clients\<close>

text \<open>One client per source address, or a default one; the constructor panics on an address
  that \<open>IpAddr::from_str\<close> refuses.\<close>

definition build_clients :: "(string \<Rightarrow> bool) \<Rightarrow> string list \<Rightarrow> string option list option" where
  "build_clients ip_ok outbound_ips =
    (if outbound_ips = [] then Some [None]
     else if list_all ip_ok outbound_ips then Some (map Some outbound_ips) else None)"

definition substitute_region :: "string \<Rightarrow> string \<Rightarrow> string" where
  "substitute_region template region = str_replace ''{region}'' region template"

definition region_hosts :: "string \<Rightarrow> string list \<Rightarrow> string list" where
  "region_hosts template regions =
    (if regions = [] then [template] else map (substitute_region template) regions)"

text \<open>\<open>ip_cursor.fetch_add(1) % n\<close> on a \<open>usize\<close> cursor.\<close>

definition next_index :: "u64 \<Rightarrow> nat \<Rightarrow> nat \<times> u64" where
  "next_index cursor n = (unat cursor mod n, cursor + 1)"

end
