(* ===== verification/Throttle.thy ===== *)
theory Throttle
  imports Sender_Base
begin

text \<open>
  The contract of a throttled sender, as a locale: what the dispatcher may rely on for any
  sender with a \<open>min_send_interval\<close>, whatever it sends. The senders provide it by interpretation.
\<close>

section \<open>A run of sends\<close>

text \<open>The sends of one sender in the order in which they take the throttle lock.\<close>

fun send_all :: "('e \<Rightarrow> 's \<Rightarrow> 's sent) \<Rightarrow> 'e list \<Rightarrow> 's \<Rightarrow> ('e \<times> 's sent) list" where
  "send_all send [] s = []"
| "send_all send (e # es) s = (let r = send e s in (e, r) # send_all send es (state_of r))"

definition sent_times :: "('e \<Rightarrow> instant) \<Rightarrow> ('e \<times> 's sent) list \<Rightarrow> instant list" where
  "sent_times now rs = map (\<lambda>(e, r). now e) (filter (\<lambda>(e, r). requests_of r \<noteq> []) rs)"

text \<open>Times at least \<open>d\<close> apart.\<close>

definition spaced :: "duration \<Rightarrow> instant list \<Rightarrow> bool" where
  "spaced d ts \<longleftrightarrow> sorted_wrt (\<lambda>a b. a + d \<le> b) ts"

definition after :: "duration \<Rightarrow> instant option \<Rightarrow> instant list \<Rightarrow> bool" where
  "after d p ts \<longleftrightarrow> (case p of None \<Rightarrow> True | Some t \<Rightarrow> list_all (\<lambda>a. t + d \<le> a) ts)"

lemma sent_times_simps [simp]:
  "sent_times now [] = []"
  "sent_times now ((e, r) # rs) = (if requests_of r = [] then sent_times now rs else now e # sent_times now rs)"
  by (simp_all add: sent_times_def)

lemma length_send_all [simp]: "length (send_all send es s) = length es"
  by (induction es arbitrary: s) (simp_all add: Let_def)

lemma sent_times_subset: "set (sent_times now (send_all send es s)) \<subseteq> now ` set es"
  by (induction es arbitrary: s) (auto simp: Let_def split: if_splits)

lemma pace_cases:
  obtains (off) "d = 0" "pace d t p = (True, p)"
  | (refuse) q where "d > 0" "p = Some q" "t - q < d" "pace d t p = (False, p)"
  | (pass) "d > 0" "p = None \<or> (\<exists>q. p = Some q \<and> d \<le> t - q)" "pace d t p = (True, Some t)"
  by (cases "d = 0"; cases p; cases "t - the p < d")
    (auto simp: pace_def throttled_def saturating_duration_since_def linorder_not_less)

lemma pace_refusedD [dest]: "pace d t p = (False, q) \<Longrightarrow> q = p"
  by (auto simp: pace_def split: if_splits)

section \<open>The contract\<close>

locale paced =
  fixes send :: "'e \<Rightarrow> 's \<Rightarrow> 's sent"
    and prev :: "'s \<Rightarrow> instant option"
    and interval :: "'s \<Rightarrow> duration"
    and now :: "'e \<Rightarrow> instant"
  assumes prev_send: "prev (state_of (send e s)) = snd (pace (interval s) (now e) (prev s))"
    and interval_send: "interval (state_of (send e s)) = interval s"
    and refused: "\<not> fst (pace (interval s) (now e) (prev s)) \<Longrightarrow>
      requests_of (send e s) = [] \<and> so_error (outcome_of (send e s)) = Some ''throttled_local''"
begin

lemma send_all_spaced:
  assumes "sorted (map now es)" "after 0 (prev s) (map now es)"
  shows "spaced (interval s) (sent_times now (send_all send es s)) \<and>
    after (interval s) (if interval s > 0 then prev s else None) (sent_times now (send_all send es s))"
  using assms
proof (induction es arbitrary: s)
  case Nil
  then show ?case by (simp add: spaced_def after_def split: option.split)
next
  case (Cons e es)
  let ?r = "send e s" let ?s = "state_of ?r" let ?ts = "sent_times now (send_all send es ?s)"
  have so: "sorted (map now es)" "list_all (\<lambda>t. now e \<le> t) (map now es)"
    using Cons.prems(1) by (auto simp: list_all_iff)
  have ge: "list_all (\<lambda>t. now e \<le> t) ?ts"
    using so(2) sent_times_subset [of now send es ?s] by (auto simp: list_all_iff)
  have af: "after 0 (prev ?s) (map now es)"
    using Cons.prems(2) so(2) by (rule_tac pace_cases [of "interval s" "now e" "prev s"])
      (auto simp: prev_send after_def list_all_iff split: option.splits)
  note ih = Cons.IH [OF so(1) af, unfolded interval_send]
  show ?case
  proof (cases rule: pace_cases [of "interval s" "now e" "prev s"])
    case off
    then show ?thesis using ih ge by (simp add: Let_def spaced_def after_def list_all_iff)
  next
    case (refuse q)
    then show ?thesis using ih refused [of s e] by (simp add: Let_def prev_send)
  next
    case pass
    then have "list_all (\<lambda>t. now e + interval s \<le> t) ?ts" using ih by (simp add: prev_send after_def)
    moreover have "list_all (\<lambda>t. p + interval s \<le> t) (now e # ?ts)" if "prev s = Some p" for p
      using that pass(1,2) ge Cons.prems(2) by (auto simp: after_def list_all_iff)
    ultimately show ?thesis using ih pass(1)
      by (auto simp: Let_def spaced_def after_def list_all_iff split: option.split)
  qed
qed

text \<open>A refusal has a cause: the previous send that went out was less than the interval before.\<close>

lemma refusal_cause:
  assumes "\<not> fst (pace (interval s) (now e) (prev s))"
  obtains t where "prev s = Some t" "now e - t < interval s"
  using assms by (rule_tac pace_cases [of "interval s" "now e" "prev s"]) auto

end

end
