(* ===== verification/Senders_Http.thy ===== *)
theory Senders_Http
  imports Throttle
begin

text \<open>
  The single-host HTTP senders of \<open>crates/tick-trigger-fan-out-bench/src/senders/\<close>: \<open>helius\<close>,
  \<open>triton\<close>, \<open>triton_sendtx\<close>, \<open>syncro\<close>, \<open>zeroslot\<close>, \<open>blockrazor\<close> and \<open>nextblock\<close>. Each has its
  record, its constructor and its \<open>send\<close>, which returns the requests issued, the outcome and the
  new state. The reply of the one host is number 0 of \<open>net\<close>. The warm-up requests are spawned and
  ignored, and left out.
\<close>

section \<open>Helius\<close>

record helius_sender =
  he_id :: u8
  he_name :: string
  he_endpoint :: string

definition helius_new :: "u8 \<Rightarrow> string \<Rightarrow> string \<Rightarrow> helius_sender" where
  "helius_new i name endpoint = \<lparr> he_id = i, he_name = name, he_endpoint = endpoint \<rparr>"

definition helius_options :: "(string \<times> json) list" where
  "helius_options = [(''encoding'', JString ''base64''), (''skipPreflight'', JBool True),
     (''preflightCommitment'', JString ''processed''), (''maxRetries'', JNumber 0)]"

definition helius_outcome :: "codec \<Rightarrow> net \<Rightarrow> signature \<Rightarrow> string \<Rightarrow> send_outcome" where
  "helius_outcome cd net sig url = (let at = ne_send_at net; ack = ne_ack_at net 0 in
    case ne_http net 0 of
      Http_Error e \<Rightarrow> failed_outcome at sig (''network: '' @ e) (Some url)
    | Http_Response status b \<Rightarrow> (let body = body_text b in
        case cd_rpc cd body of
          Some parsed \<Rightarrow> (case rr_error parsed of
            Some err \<Rightarrow> rejected_outcome at ack sig (Some status) (Some (er_code err)) (Some (er_message err)) (er_message err) url
          | None \<Rightarrow> accepted_outcome at ack (returned_or cd (rr_result parsed) sig) (Some status) None url)
        | None \<Rightarrow> rejected_outcome at ack sig (Some status) None (Some (''non-JSONRPC body: '' @ body))
            (''HTTP '' @ show_word status @ '' body: '' @ body) url))"

definition helius_send :: "codec \<Rightarrow> signed_tx \<times> net \<Rightarrow> helius_sender \<Rightarrow> helius_sender sent" where
  "helius_send cd = (\<lambda>(tx, net) s.
    (let body = json_string cd (send_request (tx_to_base64 cd tx) helius_options)
     in ([\<lparr> rq_url = he_endpoint s, rq_headers = [(''Content-Type'', ''application/json'')],
           rq_body = as_bytes body, rq_source = None \<rparr>],
         helius_outcome cd net (local_signature tx) (he_endpoint s), s)))"

section \<open>Triton\<close>

text \<open>Scheme and host of a URL; the token is in the path.\<close>

definition redact_endpoint :: "string \<Rightarrow> string" where
  "redact_endpoint url = (case split_once_str ''://'' url of
     Some (scheme, rest) \<Rightarrow> scheme @ ''://'' @ split_first CHR ''/'' rest
   | None \<Rightarrow> split_first CHR ''/'' url)"

record triton_sender =
  tn_id :: u8
  tn_name :: string
  tn_endpoint :: string
  tn_endpoint_display :: string

definition triton_new :: "u8 \<Rightarrow> string \<Rightarrow> string \<Rightarrow> triton_sender" where
  "triton_new i name endpoint = \<lparr> tn_id = i, tn_name = name, tn_endpoint = endpoint,
     tn_endpoint_display = redact_endpoint endpoint \<rparr>"

text \<open>The outcome of a JSON-RPC exchange, as \<open>triton\<close>, \<open>syncro\<close> and \<open>zeroslot\<close> build it.\<close>

definition rpc_outcome :: "codec \<Rightarrow> net \<Rightarrow> signature \<Rightarrow> string \<Rightarrow> send_outcome" where
  "rpc_outcome cd net sig url = (let at = ne_send_at net; ack = ne_ack_at net 0 in
    case ne_http net 0 of
      Http_Error e \<Rightarrow> failed_outcome at sig (''network: '' @ e) (Some url)
    | Http_Response status b \<Rightarrow> (case parse_rpc_reply cd (body_text b) of
        Parsed_Ok returned \<Rightarrow> accepted_outcome at ack (returned_or cd returned sig) (Some status) None url
      | Parsed_Rpc_Error code message \<Rightarrow> rejected_outcome at ack sig (Some status) (Some code) (Some message) message url
      | Parsed_Non_Json body \<Rightarrow> rejected_outcome at ack sig (Some status) None (Some (''non-JSONRPC body: '' @ body))
          (''HTTP '' @ show_word status @ '' body: '' @ body) url))"

definition triton_send :: "codec \<Rightarrow> signed_tx \<times> net \<Rightarrow> triton_sender \<Rightarrow> triton_sender sent" where
  "triton_send cd = (\<lambda>(tx, net) s.
    ([\<lparr> rq_url = tn_endpoint s, rq_headers = [(''Content-Type'', ''application/json'')],
        rq_body = as_bytes (build_rpc_body cd tx), rq_source = None \<rparr>],
     rpc_outcome cd net (local_signature tx) (tn_endpoint_display s), s))"

section \<open>Triton sendtx\<close>

definition build_post_url :: "string \<Rightarrow> string" where
  "build_post_url endpoint = trim_end_matches CHR ''/'' endpoint @ ''/sendtx?response=none''"

definition auth_token :: "string \<Rightarrow> string option" where
  "auth_token token = (let t = trim token in if t = [] then None else Some t)"

record triton_sendtx_sender =
  td_id :: u8
  td_name :: string
  td_endpoint :: string
  td_endpoint_display :: string
  td_token :: string

definition triton_sendtx_new :: "u8 \<Rightarrow> string \<Rightarrow> string \<Rightarrow> string \<Rightarrow> triton_sendtx_sender" where
  "triton_sendtx_new i name endpoint_url token = (let endpoint = build_post_url endpoint_url in
     \<lparr> td_id = i, td_name = name, td_endpoint = endpoint, td_endpoint_display = redact_endpoint endpoint,
       td_token = token \<rparr>)"

text \<open>\<open>(200..300).contains(&status)\<close>.\<close>

definition success_status :: "u16 \<Rightarrow> bool" where "success_status st \<longleftrightarrow> 200 \<le> st \<and> st < 300"

definition triton_sendtx_send ::
  "codec \<Rightarrow> signed_tx \<times> net \<Rightarrow> triton_sendtx_sender \<Rightarrow> triton_sendtx_sender sent" where
  "triton_sendtx_send cd = (\<lambda>(tx, net) s.
    (let sig = local_signature tx; redacted = td_endpoint_display s; at = ne_send_at net; ack = ne_ack_at net 0;
         headers = [(''Content-Type'', ''application/octet-stream'')] @
           (case auth_token (td_token s) of Some t \<Rightarrow> [(''x-token'', t)] | None \<Rightarrow> [])
     in ([\<lparr> rq_url = td_endpoint s, rq_headers = headers, rq_body = wire_bytes tx, rq_source = None \<rparr>],
         (case ne_http net 0 of
            Http_Error e \<Rightarrow> failed_outcome at sig (''network: '' @ e) (Some redacted)
          | Http_Response status b \<Rightarrow>
              if success_status status then accepted_outcome at ack sig (Some status) None redacted
              else let body = body_text b in
                rejected_outcome at ack sig (Some status) None (Some body) (''HTTP '' @ show_word status @ '': '' @ body) redacted),
         s)))"

section \<open>Syncro\<close>

definition bearer_header :: "string \<Rightarrow> string option" where
  "bearer_header api_key = (let k = trim api_key in if k = [] then None else Some (''Bearer '' @ k))"

record syncro_sender =
  sy_id :: u8
  sy_name :: string
  sy_endpoint :: string
  sy_api_key :: string
  sy_min_send_interval :: duration
  sy_last_send_at :: "instant option"

definition syncro_new :: "u8 \<Rightarrow> string \<Rightarrow> string \<Rightarrow> string \<Rightarrow> u64 \<Rightarrow> syncro_sender" where
  "syncro_new i name endpoint api_key ms = \<lparr> sy_id = i, sy_name = name, sy_endpoint = endpoint,
     sy_api_key = api_key, sy_min_send_interval = from_millis ms, sy_last_send_at = None \<rparr>"

definition syncro_send :: "codec \<Rightarrow> signed_tx \<times> net \<Rightarrow> syncro_sender \<Rightarrow> syncro_sender sent" where
  "syncro_send cd = (\<lambda>(tx, net) s.
    (let sig = local_signature tx; (go, last') = pace (sy_min_send_interval s) (ne_now net) (sy_last_send_at s)
     in if \<not> go then ([], throttled_outcome (ne_now net) sig, s)
        else
          let headers = [(''Content-Type'', ''application/json'')] @
                (case bearer_header (sy_api_key s) of Some b \<Rightarrow> [(''Authorization'', b)] | None \<Rightarrow> [])
          in ([\<lparr> rq_url = sy_endpoint s, rq_headers = headers, rq_body = as_bytes (build_rpc_body cd tx), rq_source = None \<rparr>],
              rpc_outcome cd net sig (sy_endpoint s), s\<lparr>sy_last_send_at := last'\<rparr>)))"

section \<open>0slot\<close>

definition zeroslot_send_url :: "string \<Rightarrow> string \<Rightarrow> string" where
  "zeroslot_send_url base api_key =
    (let sep = if CHR ''?'' \<in> set base then CHR ''&'' else CHR ''?'' in base @ sep # ''api-key='' @ api_key)"

record zeroslot_sender =
  zs_id :: u8
  zs_name :: string
  zs_endpoint :: string
  zs_api_key :: string
  zs_min_send_interval :: duration
  zs_last_send_at :: "instant option"

definition zeroslot_new :: "u8 \<Rightarrow> string \<Rightarrow> string \<Rightarrow> string \<Rightarrow> u64 \<Rightarrow> zeroslot_sender" where
  "zeroslot_new i name endpoint api_key ms = \<lparr> zs_id = i, zs_name = name, zs_endpoint = endpoint,
     zs_api_key = api_key, zs_min_send_interval = from_millis ms, zs_last_send_at = None \<rparr>"

definition zeroslot_send :: "codec \<Rightarrow> signed_tx \<times> net \<Rightarrow> zeroslot_sender \<Rightarrow> zeroslot_sender sent" where
  "zeroslot_send cd = (\<lambda>(tx, net) s.
    (let sig = local_signature tx; (go, last') = pace (zs_min_send_interval s) (ne_now net) (zs_last_send_at s)
     in if \<not> go then ([], throttled_outcome (ne_now net) sig, s)
        else ([\<lparr> rq_url = zeroslot_send_url (zs_endpoint s) (zs_api_key s),
                rq_headers = [(''Content-Type'', ''application/json'')],
                rq_body = as_bytes (build_rpc_body cd tx), rq_source = None \<rparr>],
              rpc_outcome cd net sig (zs_endpoint s), s\<lparr>zs_last_send_at := last'\<rparr>)))"

section \<open>BlockRazor\<close>

definition blockrazor_send_url :: "string \<Rightarrow> string \<Rightarrow> string" where
  "blockrazor_send_url base api_key = base @ ''/v2/sendTransaction?auth='' @ api_key @ ''&mode=fast''"

datatype blockrazor_reply = Razor_Ok "string option" | Razor_Error string

definition or_else :: "'a option \<Rightarrow> 'a option \<Rightarrow> 'a option" where
  "or_else a b = (case a of Some x \<Rightarrow> Some x | None \<Rightarrow> b)"

definition razor_fallback :: "u16 \<Rightarrow> string \<Rightarrow> blockrazor_reply" where
  "razor_fallback status body = (let trimmed = trim body in
     if status < 400 \<and> trimmed \<noteq> [] then Razor_Ok (Some trimmed)
     else Razor_Error (''HTTP '' @ show_word status @ '': '' @ trimmed))"

definition razor_parse_reply :: "codec \<Rightarrow> u16 \<Rightarrow> string \<Rightarrow> blockrazor_reply" where
  "razor_parse_reply cd status body = (case cd_value cd body of
     Some v \<Rightarrow> (case or_else (json_str ''error'' v) (json_str ''message'' v) of
         Some err \<Rightarrow> Razor_Error err
       | None \<Rightarrow> (case or_else (json_str ''signature'' v) (json_str ''result'' v) of
           Some sig \<Rightarrow> Razor_Ok (Some sig)
         | None \<Rightarrow> razor_fallback status body))
   | None \<Rightarrow> razor_fallback status body)"

record blockrazor_sender =
  bz_id :: u8
  bz_name :: string
  bz_endpoint :: string
  bz_api_key :: string
  bz_min_send_interval :: duration
  bz_last_send_at :: "instant option"

definition blockrazor_new :: "u8 \<Rightarrow> string \<Rightarrow> string \<Rightarrow> string \<Rightarrow> u64 \<Rightarrow> blockrazor_sender" where
  "blockrazor_new i name endpoint api_key ms = \<lparr> bz_id = i, bz_name = name, bz_endpoint = endpoint,
     bz_api_key = api_key, bz_min_send_interval = from_millis ms, bz_last_send_at = None \<rparr>"

definition razor_outcome :: "codec \<Rightarrow> net \<Rightarrow> signature \<Rightarrow> string \<Rightarrow> send_outcome" where
  "razor_outcome cd net sig url = (let at = ne_send_at net; ack = ne_ack_at net 0 in
    case ne_http net 0 of
      Http_Error e \<Rightarrow> failed_outcome at sig (''network: '' @ e) (Some url)
    | Http_Response status b \<Rightarrow> (case razor_parse_reply cd status (body_text b) of
        Razor_Ok returned \<Rightarrow> accepted_outcome at ack (returned_or cd returned sig) (Some status) None url
      | Razor_Error message \<Rightarrow> rejected_outcome at ack sig (Some status) None (Some message) message url))"

definition blockrazor_send :: "codec \<Rightarrow> signed_tx \<times> net \<Rightarrow> blockrazor_sender \<Rightarrow> blockrazor_sender sent" where
  "blockrazor_send cd = (\<lambda>(tx, net) s.
    (let sig = local_signature tx; (go, last') = pace (bz_min_send_interval s) (ne_now net) (bz_last_send_at s)
     in if \<not> go then ([], throttled_outcome (ne_now net) sig, s)
        else ([\<lparr> rq_url = blockrazor_send_url (bz_endpoint s) (bz_api_key s),
                rq_headers = [(''Content-Type'', ''text/plain'')],
                rq_body = as_bytes (tx_to_base64 cd tx), rq_source = None \<rparr>],
              razor_outcome cd net sig (bz_endpoint s), s\<lparr>bz_last_send_at := last'\<rparr>)))"

section \<open>NextBlock\<close>

definition nextblock_body :: "codec \<Rightarrow> signed_tx \<Rightarrow> string" where
  "nextblock_body cd tx = json_string cd (JObject
     [(''transaction'', JObject [(''content'', JString (tx_to_base64 cd tx))]),
      (''skipPreFlight'', JBool True), (''frontRunningProtection'', JBool False)])"

datatype nextblock_reply = Block_Ok "string option" "string option"
  | Block_Api_Error "32 word option" string | Block_Non_Json string

definition nextblock_parse_reply :: "codec \<Rightarrow> string \<Rightarrow> nextblock_reply" where
  "nextblock_parse_reply cd body = (case cd_submit cd body of
     Some r \<Rightarrow> (case sr_message r of Some msg \<Rightarrow> Block_Api_Error (sr_code r) msg
       | None \<Rightarrow> Block_Ok (sr_signature r) (sr_uuid r))
   | None \<Rightarrow> Block_Non_Json body)"

record nextblock_sender =
  nb_id :: u8
  nb_name :: string
  nb_endpoint :: string
  nb_api_key :: string
  nb_clients :: "string option list"
  nb_ip_cursor :: u64
  nb_min_send_interval :: duration
  nb_last_send_at :: "instant option"

definition nextblock_new ::
  "(string \<Rightarrow> bool) \<Rightarrow> u8 \<Rightarrow> string \<Rightarrow> string \<Rightarrow> string list \<Rightarrow> string \<Rightarrow> u64 \<Rightarrow> nextblock_sender option" where
  "nextblock_new ip_ok i name endpoint outbound_ips api_key ms =
    map_option (\<lambda>clients. \<lparr> nb_id = i, nb_name = name, nb_endpoint = endpoint, nb_api_key = api_key,
      nb_clients = clients, nb_ip_cursor = 0, nb_min_send_interval = from_millis ms, nb_last_send_at = None \<rparr>)
    (build_clients ip_ok outbound_ips)"

definition nextblock_outcome :: "codec \<Rightarrow> net \<Rightarrow> signature \<Rightarrow> string \<Rightarrow> send_outcome" where
  "nextblock_outcome cd net sig url = (let at = ne_send_at net; ack = ne_ack_at net 0 in
    case ne_http net 0 of
      Http_Error e \<Rightarrow> failed_outcome at sig (''network: '' @ e) (Some url)
    | Http_Response status b \<Rightarrow> (case nextblock_parse_reply cd (body_text b) of
        Block_Ok returned uuid \<Rightarrow> accepted_outcome at ack (returned_or cd returned sig) (Some status) uuid url
      | Block_Api_Error code message \<Rightarrow> rejected_outcome at ack sig (Some status) code (Some message) message url
      | Block_Non_Json body \<Rightarrow> rejected_outcome at ack sig (Some status) None (Some (''non-JSON body: '' @ body))
          (''HTTP '' @ show_word status @ '' body: '' @ body) url))"

text \<open>The client is the next of the rotation; its list is never empty.\<close>

definition nextblock_send :: "codec \<Rightarrow> signed_tx \<times> net \<Rightarrow> nextblock_sender \<Rightarrow> nextblock_sender sent" where
  "nextblock_send cd = (\<lambda>(tx, net) s.
    (let sig = local_signature tx; (go, last') = pace (nb_min_send_interval s) (ne_now net) (nb_last_send_at s)
     in if \<not> go then ([], throttled_outcome (ne_now net) sig, s)
        else
          let (idx, cursor') = next_index (nb_ip_cursor s) (length (nb_clients s))
          in ([\<lparr> rq_url = nb_endpoint s,
                rq_headers = [(''Content-Type'', ''application/json''), (''Authorization'', nb_api_key s)],
                rq_body = as_bytes (nextblock_body cd tx), rq_source = nb_clients s ! idx \<rparr>],
              nextblock_outcome cd net sig (nb_endpoint s),
              s\<lparr>nb_last_send_at := last', nb_ip_cursor := cursor'\<rparr>)))"

section \<open>The throttled senders keep the contract\<close>

abbreviation net_now :: "signed_tx \<times> net \<Rightarrow> instant" where "net_now e \<equiv> ne_now (snd e)"

interpretation syncro: paced "syncro_send cd" sy_last_send_at sy_min_send_interval net_now for cd
  by unfold_locales (auto simp: syncro_send_def Let_def split: prod.splits)

interpretation zeroslot: paced "zeroslot_send cd" zs_last_send_at zs_min_send_interval net_now for cd
  by unfold_locales (auto simp: zeroslot_send_def Let_def split: prod.splits)

interpretation blockrazor: paced "blockrazor_send cd" bz_last_send_at bz_min_send_interval net_now for cd
  by unfold_locales (auto simp: blockrazor_send_def Let_def split: prod.splits)

interpretation nextblock: paced "nextblock_send cd" nb_last_send_at nb_min_send_interval net_now for cd
  by unfold_locales (auto simp: nextblock_send_def Let_def split: prod.splits)

end
