(* ===== verification/Senders_Fanout.thy ===== *)
theory Senders_Fanout
  imports Senders_Http
begin

text \<open>
  The fan-out HTTP senders of \<open>crates/tick-trigger-fan-out-bench/src/senders/\<close>: \<open>jito\<close>,
  \<open>nozomi\<close>, \<open>astralane\<close> and \<open>bloxroute\<close>. One send posts the same transaction to every regional
  host; the first reply that arrives is the outcome. The spawned tasks are the replies of \<open>net\<close>,
  by host index, in the order \<open>ne_order\<close>.
\<close>

definition no_regions :: string where "no_regions = ''no regions configured''"

definition all_dropped :: string where "all_dropped = ''all fan-out tasks dropped without reply''"

text \<open>The reply that wins the race, \<open>rx_first.recv()\<close>.\<close>

definition first_arrival :: "nat \<Rightarrow> net \<Rightarrow> nat option" where
  "first_arrival n net = (case arrivals n net of [] \<Rightarrow> None | i # _ \<Rightarrow> Some i)"

lemma first_arrival_less:
  assumes "first_arrival n net = Some i" shows "i < n"
proof -
  from assms obtain js where "arrivals n net = i # js"
    by (auto simp: first_arrival_def split: list.splits)
  then have "i \<in> set (arrivals n net)" by simp
  then show ?thesis by (simp add: arrivals_def)
qed

section \<open>Jito\<close>

record json_rpc_client =
  jc_hosts :: "string list"
  jc_grid :: "string option list list"
  jc_ip_count :: nat

definition json_rpc_client_new ::
  "(string \<Rightarrow> bool) \<Rightarrow> string \<Rightarrow> string list \<Rightarrow> string list \<Rightarrow> json_rpc_client option" where
  "json_rpc_client_new ip_ok template regions outbound_ips =
    (let hosts = map (\<lambda>r. str_replace ''{region}'' r template) regions;
         ip_count = max (length outbound_ips) 1
     in map_option (\<lambda>grid. \<lparr> jc_hosts = hosts, jc_grid = grid, jc_ip_count = ip_count \<rparr>)
          (those (map (\<lambda>_. build_clients ip_ok outbound_ips) hosts)))"

definition grid_client :: "json_rpc_client \<Rightarrow> nat \<Rightarrow> nat \<Rightarrow> string option" where
  "grid_client c host_idx ip_idx = jc_grid c ! host_idx ! (ip_idx mod jc_ip_count c)"

record jito_counters =
  jk_txs_sent :: u64
  jk_first_reply_json_rpc :: u64
  jk_ip_send_count :: "u64 list"

definition jito_counters_default :: jito_counters where
  "jito_counters_default = \<lparr> jk_txs_sent = 0, jk_first_reply_json_rpc = 0, jk_ip_send_count = replicate 8 0 \<rparr>"

record jito_sender =
  jt_id :: u8
  jt_name :: string
  jt_endpoint_template :: string
  jt_json_rpc :: json_rpc_client
  jt_ip_count :: nat
  jt_ip_cursor :: u64
  jt_counters :: jito_counters
  jt_min_send_interval :: duration
  jt_last_send_at :: "instant option"

definition jito_new :: "(string \<Rightarrow> bool) \<Rightarrow> u8 \<Rightarrow> string \<Rightarrow> string \<Rightarrow> string list \<Rightarrow> string list \<Rightarrow> u64 \<Rightarrow>
    jito_sender option" where
  "jito_new ip_ok i name template regions outbound_ips ms =
    map_option (\<lambda>c. \<lparr> jt_id = i, jt_name = name, jt_endpoint_template = template, jt_json_rpc = c,
      jt_ip_count = jc_ip_count c, jt_ip_cursor = 0, jt_counters = jito_counters_default,
      jt_min_send_interval = from_millis ms, jt_last_send_at = None \<rparr>)
    (json_rpc_client_new ip_ok template regions outbound_ips)"

datatype jito_reply =
  Jito_Success string instant string "u16 option"
| Jito_Error string instant "u16 option" "32 word option" "string option" string

definition parse_json_rpc_reply :: "codec \<Rightarrow> string \<Rightarrow> u16 \<Rightarrow> string \<Rightarrow> instant \<Rightarrow> jito_reply" where
  "parse_json_rpc_reply cd host status body ack = (case cd_rpc cd body of
     Some parsed \<Rightarrow> (case rr_error parsed of
         Some err \<Rightarrow> Jito_Error host ack (Some status) (Some (er_code err)) (Some (er_message err)) (er_message err)
       | None \<Rightarrow> (case rr_result parsed of
           Some sig \<Rightarrow> Jito_Success host ack sig (Some status)
         | None \<Rightarrow> Jito_Error host ack (Some status) None (Some ''empty result'') ''empty result''))
   | None \<Rightarrow> Jito_Error host ack (Some status) None (Some (''non-JSONRPC body: '' @ body))
       (''HTTP '' @ show_word status @ '' body: '' @ body))"

definition jito_host_reply :: "codec \<Rightarrow> net \<Rightarrow> string \<Rightarrow> nat \<Rightarrow> jito_reply" where
  "jito_host_reply cd net host i = (case ne_http net i of
     Http_Response status b \<Rightarrow> parse_json_rpc_reply cd host status (body_text b) (ne_ack_at net i)
   | Http_Error e \<Rightarrow> Jito_Error host (ne_ack_at net i) None None None (''network: '' @ e))"

definition count_jito :: "nat \<Rightarrow> jito_counters \<Rightarrow> jito_counters" where
  "count_jito ip_idx c = c\<lparr>jk_txs_sent := jk_txs_sent c + 1,
     jk_ip_send_count := (if ip_idx < length (jk_ip_send_count c)
       then (jk_ip_send_count c)[ip_idx := jk_ip_send_count c ! ip_idx + 1] else jk_ip_send_count c)\<rparr>"

definition count_first_reply :: "jito_reply option \<Rightarrow> jito_counters \<Rightarrow> jito_counters" where
  "count_first_reply r c = (case r of
     Some (Jito_Success _ _ _ _) \<Rightarrow> c\<lparr>jk_first_reply_json_rpc := jk_first_reply_json_rpc c + 1\<rparr> | _ \<Rightarrow> c)"

definition jito_outcome :: "instant \<Rightarrow> signature \<Rightarrow> jito_reply option \<Rightarrow> send_outcome" where
  "jito_outcome at sig first = (case first of
     None \<Rightarrow> failed_outcome at sig all_dropped None
   | Some (Jito_Success host ack sig_str status) \<Rightarrow> accepted_outcome at ack sig status (Some sig_str) host
   | Some (Jito_Error host ack status code msg err) \<Rightarrow> rejected_outcome at ack sig status code msg err host)"

definition jito_send :: "codec \<Rightarrow> signed_tx \<times> net \<Rightarrow> jito_sender \<Rightarrow> jito_sender sent" where
  "jito_send cd = (\<lambda>(tx, net) s.
    (let sig = local_signature tx; c = jt_json_rpc s; hosts = jc_hosts c; n = length hosts;
         (go, last') = pace (jt_min_send_interval s) (ne_now net) (jt_last_send_at s);
         s1 = s\<lparr>jt_last_send_at := last'\<rparr>
     in if \<not> go then ([], throttled_outcome (ne_now net) sig, s)
        else if n = 0 then ([], failed_outcome (ne_start net) sig no_regions None, s1)
        else
          let body = as_bytes (build_rpc_body cd tx);
              (ip_idx, cursor') = next_index (jt_ip_cursor s) (jt_ip_count s);
              first = map_option (\<lambda>i. jito_host_reply cd net (hosts ! i) i) (first_arrival n net)
          in (map (\<lambda>i. \<lparr> rq_url = hosts ! i, rq_headers = [(''Content-Type'', ''application/json'')],
                rq_body = body, rq_source = grid_client c i ip_idx \<rparr>) [0..<n],
              jito_outcome (ne_send_at net) sig first,
              s1\<lparr>jt_ip_cursor := cursor', jt_counters := count_first_reply first (count_jito ip_idx (jt_counters s))\<rparr>)))"

section \<open>Nozomi\<close>

definition SEND_PATH :: string where "SEND_PATH = ''/api/sendTransaction2''"
definition PING_PATH :: string where "PING_PATH = ''/ping''"

definition nozomi_send_url :: "string \<Rightarrow> string \<Rightarrow> string" where
  "nozomi_send_url host api_key = trim_end_matches CHR ''/'' host @ SEND_PATH @ ''?c='' @ api_key"

definition nozomi_ping_url :: "string \<Rightarrow> string \<Rightarrow> string" where
  "nozomi_ping_url host api_key = trim_end_matches CHR ''/'' host @ PING_PATH @ ''?c='' @ api_key"

definition redact_query :: "string \<Rightarrow> string" where
  "redact_query url = (case split_once CHR ''?'' url of Some (before, _) \<Rightarrow> before | None \<Rightarrow> url)"

definition scrub :: "string \<Rightarrow> string \<Rightarrow> string" where
  "scrub msg api_key = (if api_key = [] then msg else str_replace api_key ''***'' msg)"

datatype fan_reply =
  Fan_Success string instant u16
| Fan_Error string instant "u16 option" "string option" string

definition plain_reply :: "string \<Rightarrow> net \<Rightarrow> string \<Rightarrow> nat \<Rightarrow> fan_reply" where
  "plain_reply api_key net display i = (let ack = ne_ack_at net i in
    case ne_http net i of
      Http_Response status b \<Rightarrow>
        if success_status status then Fan_Success display ack status
        else let text = scrub (body_text b) api_key in
          Fan_Error display ack (Some status) (Some text) (''HTTP '' @ show_word status @ '': '' @ text)
    | Http_Error e \<Rightarrow> Fan_Error display ack None None (scrub (''network: '' @ e) api_key))"

definition fan_outcome :: "instant \<Rightarrow> signature \<Rightarrow> fan_reply option \<Rightarrow> send_outcome" where
  "fan_outcome at sig first = (case first of
     None \<Rightarrow> failed_outcome at sig all_dropped None
   | Some (Fan_Success display ack status) \<Rightarrow> accepted_outcome at ack sig (Some status) None display
   | Some (Fan_Error display ack status msg err) \<Rightarrow> rejected_outcome at ack sig status None msg err display)"

record nozomi_sender =
  nz_id :: u8
  nz_name :: string
  nz_endpoint_template :: string
  nz_api_key :: string
  nz_hosts :: "string list"
  nz_hosts_display :: "string list"
  nz_warm_urls :: "string list"
  nz_min_send_interval :: duration
  nz_last_send_at :: "instant option"

definition nozomi_new :: "u8 \<Rightarrow> string \<Rightarrow> string \<Rightarrow> string list \<Rightarrow> string \<Rightarrow> u64 \<Rightarrow> nozomi_sender" where
  "nozomi_new i name template regions api_key ms =
    (let rh = region_hosts template regions; hosts = map (\<lambda>h. nozomi_send_url h api_key) rh
     in \<lparr> nz_id = i, nz_name = name, nz_endpoint_template = template, nz_api_key = api_key, nz_hosts = hosts,
          nz_hosts_display = map redact_query hosts, nz_warm_urls = map (\<lambda>h. nozomi_ping_url h api_key) rh,
          nz_min_send_interval = from_millis ms, nz_last_send_at = None \<rparr>)"

definition nozomi_send :: "codec \<Rightarrow> signed_tx \<times> net \<Rightarrow> nozomi_sender \<Rightarrow> nozomi_sender sent" where
  "nozomi_send cd = (\<lambda>(tx, net) s.
    (let sig = local_signature tx; at = ne_send_at net; n = length (nz_hosts s);
         (go, last') = pace (nz_min_send_interval s) (ne_now net) (nz_last_send_at s);
         s1 = s\<lparr>nz_last_send_at := last'\<rparr>
     in if \<not> go then ([], throttled_outcome (ne_now net) sig, s)
        else if nz_hosts s = [] then ([], failed_outcome at sig no_regions None, s1)
        else
          let body = as_bytes (tx_to_base64 cd tx)
          in (map (\<lambda>i. \<lparr> rq_url = nz_hosts s ! i, rq_headers = [(''Content-Type'', ''text/plain'')],
                rq_body = body, rq_source = None \<rparr>) [0..<n],
              fan_outcome at sig (map_option (\<lambda>i. plain_reply (nz_api_key s) net (nz_hosts_display s ! i) i)
                (first_arrival n net)), s1)))"

section \<open>Astralane\<close>

definition ASTRALANE_SEND_PATH :: string where "ASTRALANE_SEND_PATH = ''/irisb''"

definition astralane_send_url :: "string \<Rightarrow> string \<Rightarrow> string" where
  "astralane_send_url host api_key = trim_end_matches CHR ''/'' host @ ASTRALANE_SEND_PATH @ ''?api-key='' @
     api_key @ ''&method=sendTransaction''"

definition astralane_warm_url :: "string \<Rightarrow> string \<Rightarrow> string" where
  "astralane_warm_url host api_key = trim_end_matches CHR ''/'' host @ ASTRALANE_SEND_PATH @ ''?api-key='' @ api_key"

record astralane_sender =
  as_id :: u8
  as_name :: string
  as_endpoint_template :: string
  as_api_key :: string
  as_hosts :: "string list"
  as_hosts_display :: "string list"
  as_warm_urls :: "string list"
  as_grid :: "string option list list"
  as_ip_count :: nat
  as_ip_cursor :: u64
  as_min_send_interval :: duration
  as_last_send_at :: "instant option"

definition astralane_new :: "(string \<Rightarrow> bool) \<Rightarrow> u8 \<Rightarrow> string \<Rightarrow> string \<Rightarrow> string list \<Rightarrow> string list \<Rightarrow>
    string \<Rightarrow> u64 \<Rightarrow> astralane_sender option" where
  "astralane_new ip_ok i name template regions outbound_ips api_key ms =
    (let rh = region_hosts template regions; hosts = map (\<lambda>h. astralane_send_url h api_key) rh
     in map_option (\<lambda>grid. \<lparr> as_id = i, as_name = name, as_endpoint_template = template, as_api_key = api_key,
          as_hosts = hosts, as_hosts_display = map redact_query hosts,
          as_warm_urls = map (\<lambda>h. astralane_warm_url h api_key) rh, as_grid = grid,
          as_ip_count = max (length outbound_ips) 1, as_ip_cursor = 0,
          as_min_send_interval = from_millis ms, as_last_send_at = None \<rparr>)
        (those (map (\<lambda>_. build_clients ip_ok outbound_ips) hosts)))"

definition astralane_send :: "codec \<Rightarrow> signed_tx \<times> net \<Rightarrow> astralane_sender \<Rightarrow> astralane_sender sent" where
  "astralane_send cd = (\<lambda>(tx, net) s.
    (let sig = local_signature tx; at = ne_send_at net; n = length (as_hosts s);
         (go, last') = pace (as_min_send_interval s) (ne_now net) (as_last_send_at s);
         s1 = s\<lparr>as_last_send_at := last'\<rparr>
     in if \<not> go then ([], throttled_outcome (ne_now net) sig, s)
        else if as_hosts s = [] then ([], failed_outcome at sig no_regions None, s1)
        else
          let body = wire_bytes tx; (ip_idx, cursor') = next_index (as_ip_cursor s) (as_ip_count s)
          in (map (\<lambda>i. \<lparr> rq_url = as_hosts s ! i, rq_headers = [(''Content-Type'', ''application/octet-stream'')],
                rq_body = body, rq_source = as_grid s ! i ! (ip_idx mod as_ip_count s) \<rparr>) [0..<n],
              fan_outcome at sig (map_option (\<lambda>i. plain_reply (as_api_key s) net (as_hosts_display s ! i) i)
                (first_arrival n net)),
              s1\<lparr>as_ip_cursor := cursor'\<rparr>)))"

section \<open>bloXroute\<close>

definition bloxroute_body :: "codec \<Rightarrow> signed_tx \<Rightarrow> string" where
  "bloxroute_body cd tx = json_string cd (JObject
     [(''transaction'', JObject [(''content'', JString (tx_to_base64 cd tx))]),
      (''skipPreFlight'', JBool True), (''frontRunningProtection'', JBool False),
      (''submitProtection'', JString ''SP_LOW''), (''useStakedRPCs'', JBool True)])"

datatype blox_reply =
  Blox_Success string instant u16 "string option"
| Blox_Error string instant "u16 option" "32 word option" "string option" string

definition blox_parse_reply :: "codec \<Rightarrow> string \<Rightarrow> u16 \<Rightarrow> string \<Rightarrow> instant \<Rightarrow> blox_reply" where
  "blox_parse_reply cd host status body ack =
    (if success_status status then
       (case cd_submit cd body of
          Some r \<Rightarrow> (case sr_message r of
              None \<Rightarrow> Blox_Success host ack status (sr_signature r)
            | Some m \<Rightarrow> Blox_Error host ack (Some status) (sr_code r) (Some m) m)
        | None \<Rightarrow> Blox_Success host ack status None)
     else
       let (code, msg) = (case cd_submit cd body of
             Some r \<Rightarrow> (sr_code r, case sr_message r of Some m \<Rightarrow> m | None \<Rightarrow> body)
           | None \<Rightarrow> (None, body))
       in Blox_Error host ack (Some status) code (Some msg) (''HTTP '' @ show_word status @ '': '' @ msg))"

definition blox_host_reply :: "codec \<Rightarrow> net \<Rightarrow> string \<Rightarrow> nat \<Rightarrow> blox_reply" where
  "blox_host_reply cd net host i = (case ne_http net i of
     Http_Response status b \<Rightarrow> blox_parse_reply cd host status (body_text b) (ne_ack_at net i)
   | Http_Error e \<Rightarrow> Blox_Error host (ne_ack_at net i) None None None (''network: '' @ e))"

definition blox_outcome :: "codec \<Rightarrow> instant \<Rightarrow> signature \<Rightarrow> blox_reply option \<Rightarrow> send_outcome" where
  "blox_outcome cd at sig first = (case first of
     None \<Rightarrow> failed_outcome at sig all_dropped None
   | Some (Blox_Success host ack status returned) \<Rightarrow>
       accepted_outcome at ack (returned_or cd returned sig) (Some status) None host
   | Some (Blox_Error host ack status code msg err) \<Rightarrow> rejected_outcome at ack sig status code msg err host)"

record bloxroute_sender =
  bx_id :: u8
  bx_name :: string
  bx_endpoint_template :: string
  bx_api_key :: string
  bx_hosts :: "string list"
  bx_grid :: "string option list list"
  bx_ip_count :: nat
  bx_ip_cursor :: u64
  bx_min_send_interval :: duration
  bx_last_send_at :: "instant option"

definition bloxroute_new :: "(string \<Rightarrow> bool) \<Rightarrow> u8 \<Rightarrow> string \<Rightarrow> string \<Rightarrow> string list \<Rightarrow> string list \<Rightarrow>
    string \<Rightarrow> u64 \<Rightarrow> bloxroute_sender option" where
  "bloxroute_new ip_ok i name template regions outbound_ips api_key ms =
    (let hosts = region_hosts template regions
     in map_option (\<lambda>grid. \<lparr> bx_id = i, bx_name = name, bx_endpoint_template = template, bx_api_key = api_key,
          bx_hosts = hosts, bx_grid = grid, bx_ip_count = max (length outbound_ips) 1, bx_ip_cursor = 0,
          bx_min_send_interval = from_millis ms, bx_last_send_at = None \<rparr>)
        (those (map (\<lambda>_. build_clients ip_ok outbound_ips) hosts)))"

definition bloxroute_send :: "codec \<Rightarrow> signed_tx \<times> net \<Rightarrow> bloxroute_sender \<Rightarrow> bloxroute_sender sent" where
  "bloxroute_send cd = (\<lambda>(tx, net) s.
    (let sig = local_signature tx; at = ne_send_at net; n = length (bx_hosts s);
         (go, last') = pace (bx_min_send_interval s) (ne_now net) (bx_last_send_at s);
         s1 = s\<lparr>bx_last_send_at := last'\<rparr>
     in if \<not> go then ([], throttled_outcome (ne_now net) sig, s)
        else if bx_hosts s = [] then ([], failed_outcome at sig no_regions None, s1)
        else
          let body = as_bytes (bloxroute_body cd tx); (ip_idx, cursor') = next_index (bx_ip_cursor s) (bx_ip_count s)
          in (map (\<lambda>i. \<lparr> rq_url = bx_hosts s ! i,
                rq_headers = [(''Content-Type'', ''application/json''), (''Authorization'', bx_api_key s)],
                rq_body = body, rq_source = bx_grid s ! i ! (ip_idx mod bx_ip_count s) \<rparr>) [0..<n],
              blox_outcome cd at sig (map_option (\<lambda>i. blox_host_reply cd net (bx_hosts s ! i) i) (first_arrival n net)),
              s1\<lparr>bx_ip_cursor := cursor'\<rparr>)))"

section \<open>The fan-out senders keep the contract of the throttle\<close>

interpretation jito: paced "jito_send cd" jt_last_send_at jt_min_send_interval net_now for cd
  by unfold_locales (auto simp: jito_send_def Let_def split: prod.splits)

interpretation nozomi: paced "nozomi_send cd" nz_last_send_at nz_min_send_interval net_now for cd
  by unfold_locales (auto simp: nozomi_send_def Let_def split: prod.splits)

interpretation astralane: paced "astralane_send cd" as_last_send_at as_min_send_interval net_now for cd
  by unfold_locales (auto simp: astralane_send_def Let_def split: prod.splits)

interpretation bloxroute: paced "bloxroute_send cd" bx_last_send_at bx_min_send_interval net_now for cd
  by unfold_locales (auto simp: bloxroute_send_def Let_def split: prod.splits)

end
