(* ===== verification/Senders_Quic.thy ===== *)
theory Senders_Quic
  imports Senders_Fanout Tx_Builder
begin

text \<open>
  The QUIC senders of \<open>crates/tick-trigger-fan-out-bench/src/senders/\<close>: \<open>allenhark\<close>,
  \<open>astralane_quic\<close>, \<open>nextblock_quic\<close> and \<open>bloxroute_quic\<close>. Each keeps its connection in a slot
  that a failed send empties. \<open>quinn\<close>, \<open>rustls\<close>, name resolution and the PEM reader are
  parameters; the TLS settings the code chooses are the record \<open>tls_config\<close>.
\<close>

section \<open>Parameters\<close>

record socket_addr =
  sa_ip :: string
  sa_port :: u16
  sa_is_ipv4 :: bool

datatype client_auth = No_Client_Auth | Self_Signed string | Client_Cert "bytes list" bytes

record tls_config =
  tls_alpn :: "string list"
  tls_verify_server :: bool
  tls_client_auth :: client_auth
  tls_idle_secs :: "nat option"
  tls_keep_alive_secs :: "nat option"

datatype pem_item = Pkcs1_Key bytes | Pkcs8_Key bytes | Sec1_Key bytes | Other_Item

record quic_lib =
  ql_socket_addr :: "string \<Rightarrow> socket_addr option"
  ql_ip_addr :: "string \<Rightarrow> (string \<times> bool) option"
  ql_lookup :: "string \<Rightarrow> socket_addr list option"
  ql_lookup_port :: "string \<Rightarrow> u16 \<Rightarrow> socket_addr list option"
  ql_config :: "tls_config \<Rightarrow> string option"
  ql_bind :: "socket_addr \<Rightarrow> string option"
  ql_read_file :: "string \<Rightarrow> bytes option"
  ql_certs :: "bytes \<Rightarrow> bytes list option"
  ql_pem_items :: "bytes \<Rightarrow> pem_item option list"

text \<open>An address with its port; \<open>0.0.0.0:0\<close> and \<open>[::]:0\<close>.\<close>

definition unspecified_v4 :: socket_addr where
  "unspecified_v4 = \<lparr> sa_ip = ''0.0.0.0'', sa_port = 0, sa_is_ipv4 = True \<rparr>"

definition unspecified_v6 :: socket_addr where
  "unspecified_v6 = \<lparr> sa_ip = ''::'', sa_port = 0, sa_is_ipv4 = False \<rparr>"

definition resolve_addr :: "quic_lib \<Rightarrow> string \<Rightarrow> string \<Rightarrow> string + socket_addr" where
  "resolve_addr ql vendor endpoint = (case ql_socket_addr ql endpoint of
     Some a \<Rightarrow> Inr a
   | None \<Rightarrow> (case ql_lookup ql endpoint of
       Some (a # _) \<Rightarrow> Inr a
     | _ \<Rightarrow> Inl (''cannot resolve '' @ vendor @ '' endpoint: '' @ endpoint)))"

definition bind_addr :: "quic_lib \<Rightarrow> string list \<Rightarrow> string + socket_addr" where
  "bind_addr ql outbound_ips = (case outbound_ips of
     s # _ \<Rightarrow> (case ql_ip_addr ql s of
         Some (ip, v4) \<Rightarrow> Inr \<lparr> sa_ip = ip, sa_port = 0, sa_is_ipv4 = v4 \<rparr>
       | None \<Rightarrow> Inl (''invalid outbound_ip '' @ s))
   | [] \<Rightarrow> Inr unspecified_v4)"

text \<open>\<open>?\<close> on a parameter that only fails.\<close>

definition check :: "string option \<Rightarrow> string + unit" where
  "check e = (case e of Some m \<Rightarrow> Inl m | None \<Rightarrow> Inr ())"

definition bind_result :: "'e + 'a \<Rightarrow> ('a \<Rightarrow> 'e + 'b) \<Rightarrow> 'e + 'b" where
  "bind_result r f = (case r of Inl e \<Rightarrow> Inl e | Inr x \<Rightarrow> f x)"

lemma bind_result_Inr: "bind_result r f = Inr y \<longleftrightarrow> (\<exists>x. r = Inr x \<and> f x = Inr y)"
  by (simp add: bind_result_def split: sum.splits)

definition MAX_TX_SIZE :: nat where "MAX_TX_SIZE = 1232"

definition too_large :: "bytes \<Rightarrow> string" where
  "too_large b = ''tx too large: '' @ show_nat (length b) @ '' > '' @ show_nat MAX_TX_SIZE"

section \<open>Connections\<close>

text \<open>The slot of target \<open>i\<close>: a live connection is reused, otherwise a new one is made.\<close>

definition live_conn :: "net \<Rightarrow> nat \<Rightarrow> (string + nat) \<Rightarrow> nat option \<Rightarrow> (string + nat) \<times> nat option" where
  "live_conn net i fresh slot =
    (case slot of
       Some c \<Rightarrow> if \<not> ne_closed net i then (Inr c, slot)
         else (case fresh of Inl e \<Rightarrow> (Inl e, slot) | Inr c' \<Rightarrow> (Inr c', Some c'))
     | None \<Rightarrow> (case fresh of Inl e \<Rightarrow> (Inl e, slot) | Inr c' \<Rightarrow> (Inr c', Some c')))"

text \<open>One use of the connection: the streams are opened and written on it; any failure empties
  the slot.\<close>

definition stream_on :: "net \<Rightarrow> nat \<Rightarrow> (string + nat) \<Rightarrow> nat option \<Rightarrow> (string + bytes) \<times> bool \<times> nat option" where
  "stream_on net i fresh slot =
    (case live_conn net i fresh slot of
       (Inl e, _) \<Rightarrow> (Inl e, False, None)
     | (Inr c, slot') \<Rightarrow> (case ne_stream net i of
         Inl e \<Rightarrow> (Inl e, True, None)
       | Inr reply \<Rightarrow> (Inr reply, True, slot')))"

section \<open>AllenHark\<close>

definition allenhark_body :: "codec \<Rightarrow> signed_tx \<Rightarrow> string" where
  "allenhark_body cd tx = json_string cd (JObject [(''tx'', JString (tx_to_base64 cd tx)), (''simulate'', JBool False)])"

definition frame :: "string \<Rightarrow> string \<Rightarrow> bytes" where
  "frame api_key body = (let k = trim api_key;
     preamble = (if k = [] then [CHR 0x0A] else ''api-key: '' @ k @ [CHR 0x0A])
   in as_bytes preamble @ as_bytes body)"

datatype relay_reply = Relay_Accepted "string option" | Relay_Error string | Relay_Non_Json string

definition relay_parse_reply :: "codec \<Rightarrow> bytes \<Rightarrow> relay_reply" where
  "relay_parse_reply cd b = (let text = cd_utf8_lossy cd b in
    case cd_relay cd text of
      Some r \<Rightarrow> (case or_else (rl_error r) (rl_message r) of
          Some err \<Rightarrow> Relay_Error err
        | None \<Rightarrow> if rl_status r = Some ''accepted'' then Relay_Accepted (rl_signature r) else Relay_Error text)
    | None \<Rightarrow> Relay_Non_Json text)"

definition ALLENHARK_SERVER_NAME :: string where "ALLENHARK_SERVER_NAME = ''relay.allenhark.com''"

definition allenhark_tls :: tls_config where
  "allenhark_tls = \<lparr> tls_alpn = [], tls_verify_server = False, tls_client_auth = No_Client_Auth,
     tls_idle_secs = None, tls_keep_alive_secs = None \<rparr>"

record allenhark_sender =
  ah_id :: u8
  ah_name :: string
  ah_addr :: socket_addr
  ah_endpoint_display :: string
  ah_api_key :: string
  ah_conn :: "nat option"

definition allenhark_new :: "quic_lib \<Rightarrow> u8 \<Rightarrow> string \<Rightarrow> string \<Rightarrow> string \<Rightarrow> string + allenhark_sender" where
  "allenhark_new ql i name endpoint_url api_key =
    (case ql_socket_addr ql endpoint_url of
       None \<Rightarrow> Inl (''parse allenhark endpoint_url as ip:port: '' @ endpoint_url)
     | Some addr \<Rightarrow> bind_result (check (ql_config ql allenhark_tls)) (\<lambda>_.
         bind_result (check (ql_bind ql unspecified_v4)) (\<lambda>_.
           Inr \<lparr> ah_id = i, ah_name = name, ah_addr = addr, ah_endpoint_display = endpoint_url,
             ah_api_key = api_key, ah_conn = None \<rparr>)))"

definition allenhark_warmup :: "net \<Rightarrow> allenhark_sender \<Rightarrow> allenhark_sender" where
  "allenhark_warmup net s = s\<lparr>ah_conn := snd (live_conn net 0 (ne_connect net 0) (ah_conn s))\<rparr>"

definition allenhark_outcome :: "codec \<Rightarrow> net \<Rightarrow> signature \<Rightarrow> string \<Rightarrow> string + bytes \<Rightarrow> send_outcome" where
  "allenhark_outcome cd net sig url r = (let at = ne_send_at net; ack = ne_ack_at net 0 in
    case r of
      Inl e \<Rightarrow> failed_outcome at sig (''quic: '' @ e) (Some url)
    | Inr b \<Rightarrow> (case relay_parse_reply cd b of
        Relay_Accepted returned \<Rightarrow> accepted_outcome at ack (returned_or cd returned sig) None None url
      | Relay_Error message \<Rightarrow> rejected_outcome at ack sig None None (Some message) message url
      | Relay_Non_Json body \<Rightarrow> rejected_outcome at ack sig None None (Some (''non-JSON relay reply: '' @ body))
          (''non-JSON relay reply: '' @ body) url))"

definition allenhark_send :: "codec \<Rightarrow> signed_tx \<times> net \<Rightarrow> allenhark_sender \<Rightarrow> allenhark_sender sent" where
  "allenhark_send cd = (\<lambda>(tx, net) s.
    (let b = frame (ah_api_key s) (allenhark_body cd tx); url = ah_endpoint_display s;
         (r, written, slot) = stream_on net 0 (ne_connect net 0) (ah_conn s)
     in (if written then [\<lparr> rq_url = url, rq_headers = [], rq_body = b, rq_source = None \<rparr>] else [],
         allenhark_outcome cd net (local_signature tx) url r, s\<lparr>ah_conn := slot\<rparr>)))"

section \<open>Astralane over QUIC\<close>

definition astralane_tls :: "string \<Rightarrow> tls_config" where
  "astralane_tls api_key = \<lparr> tls_alpn = [''astralane-tpu''], tls_verify_server = False,
     tls_client_auth = Self_Signed api_key, tls_idle_secs = Some 30, tls_keep_alive_secs = Some 25 \<rparr>"

record astralane_quic_sender =
  aq_id :: u8
  aq_name :: string
  aq_addr :: socket_addr
  aq_endpoint_display :: string
  aq_tls :: tls_config
  aq_conn :: "nat option"
  aq_min_send_interval :: duration
  aq_last_send_at :: "instant option"

definition astralane_quic_new :: "quic_lib \<Rightarrow> u8 \<Rightarrow> string \<Rightarrow> string \<Rightarrow> string list \<Rightarrow> string \<Rightarrow> u64 \<Rightarrow>
    string + astralane_quic_sender" where
  "astralane_quic_new ql i name endpoint_url outbound_ips api_key ms =
    bind_result (resolve_addr ql ''astralane'' endpoint_url) (\<lambda>addr.
    bind_result (bind_addr ql outbound_ips) (\<lambda>bnd.
    bind_result (check (ql_config ql (astralane_tls api_key))) (\<lambda>_.
    bind_result (check (ql_bind ql bnd)) (\<lambda>_.
      Inr \<lparr> aq_id = i, aq_name = name, aq_addr = addr, aq_endpoint_display = endpoint_url,
        aq_tls = astralane_tls api_key, aq_conn = None, aq_min_send_interval = from_millis ms,
        aq_last_send_at = None \<rparr>))))"

definition astralane_quic_warmup :: "net \<Rightarrow> astralane_quic_sender \<Rightarrow> astralane_quic_sender" where
  "astralane_quic_warmup net s = s\<lparr>aq_conn := snd (live_conn net 0 (ne_connect net 0) (aq_conn s))\<rparr>"

text \<open>The outcome of a fire-and-forget stream.\<close>

definition stream_outcome :: "net \<Rightarrow> signature \<Rightarrow> string \<Rightarrow> string + bytes \<Rightarrow> send_outcome" where
  "stream_outcome net sig url r = (case r of
     Inr _ \<Rightarrow> accepted_outcome (ne_send_at net) (ne_ack_at net 0) sig None None url
   | Inl e \<Rightarrow> failed_outcome (ne_send_at net) sig (''quic: '' @ e) (Some url))"

definition astralane_quic_send ::
  "codec \<Rightarrow> signed_tx \<times> net \<Rightarrow> astralane_quic_sender \<Rightarrow> astralane_quic_sender sent" where
  "astralane_quic_send cd = (\<lambda>(tx, net) s.
    (let sig = local_signature tx; (go, last') = pace (aq_min_send_interval s) (ne_now net) (aq_last_send_at s);
         s1 = s\<lparr>aq_last_send_at := last'\<rparr>; url = aq_endpoint_display s; b = wire_bytes tx
     in if \<not> go then ([], throttled_outcome (ne_now net) sig, s)
        else if length b > MAX_TX_SIZE then ([], failed_outcome (ne_send_at net) sig (too_large b) (Some url), s1)
        else let (r, written, slot) = stream_on net 0 (ne_connect net 0) (aq_conn s)
          in (if written then [\<lparr> rq_url = url, rq_headers = [], rq_body = b, rq_source = None \<rparr>] else [],
              stream_outcome net sig url r, s1\<lparr>aq_conn := slot\<rparr>)))"

section \<open>NextBlock over QUIC\<close>

definition AUTH_OK :: u8 where "AUTH_OK = 0"

definition server_name_of :: "string \<Rightarrow> string" where
  "server_name_of endpoint = (case rsplit_once CHR '':'' endpoint of Some (h, _) \<Rightarrow> h | None \<Rightarrow> endpoint)"

definition nextblock_tls :: tls_config where
  "nextblock_tls = \<lparr> tls_alpn = [''nb-tx/1''], tls_verify_server = False, tls_client_auth = No_Client_Auth,
     tls_idle_secs = Some 60, tls_keep_alive_secs = Some 15 \<rparr>"

text \<open>\<open>{:#04x}\<close> of a byte.\<close>

definition show_hex_byte :: "u8 \<Rightarrow> string" where
  "show_hex_byte b = ''0x'' @ map (\<lambda>d. char_of (unat d)) (hex_digits 2 (unat b))"

definition connect_and_auth :: "net \<Rightarrow> string + nat" where
  "connect_and_auth net = (case ne_connect net 0 of
     Inl e \<Rightarrow> Inl e
   | Inr c \<Rightarrow> (case ne_auth net 0 of
       Inl e \<Rightarrow> Inl e
     | Inr b \<Rightarrow> if b \<noteq> AUTH_OK then Inl (''nextblock quic auth rejected (response byte '' @ show_hex_byte b @ '')'')
         else Inr c))"

record nextblock_quic_sender =
  nq_id :: u8
  nq_name :: string
  nq_addr :: socket_addr
  nq_server_name :: string
  nq_endpoint_display :: string
  nq_api_key :: string
  nq_conn :: "nat option"
  nq_min_send_interval :: duration
  nq_last_send_at :: "instant option"

definition nextblock_quic_new :: "quic_lib \<Rightarrow> u8 \<Rightarrow> string \<Rightarrow> string \<Rightarrow> string list \<Rightarrow> string \<Rightarrow> u64 \<Rightarrow>
    string + nextblock_quic_sender" where
  "nextblock_quic_new ql i name endpoint_url outbound_ips api_key ms =
    bind_result (resolve_addr ql ''nextblock'' endpoint_url) (\<lambda>addr.
    bind_result (bind_addr ql outbound_ips) (\<lambda>bnd.
    bind_result (check (ql_config ql nextblock_tls)) (\<lambda>_.
    bind_result (check (ql_bind ql bnd)) (\<lambda>_.
      Inr \<lparr> nq_id = i, nq_name = name, nq_addr = addr, nq_server_name = server_name_of endpoint_url,
        nq_endpoint_display = endpoint_url, nq_api_key = api_key, nq_conn = None,
        nq_min_send_interval = from_millis ms, nq_last_send_at = None \<rparr>))))"

definition nextblock_quic_warmup :: "net \<Rightarrow> nextblock_quic_sender \<Rightarrow> nextblock_quic_sender" where
  "nextblock_quic_warmup net s = s\<lparr>nq_conn := snd (live_conn net 0 (connect_and_auth net) (nq_conn s))\<rparr>"

text \<open>The key is written on a stream of its own when the connection is new.\<close>

definition auth_request :: "net \<Rightarrow> nextblock_quic_sender \<Rightarrow> request list" where
  "auth_request net s =
    (if (nq_conn s = None \<or> ne_closed net 0) \<and> \<not> isl (ne_connect net 0)
     then [\<lparr> rq_url = nq_endpoint_display s, rq_headers = [], rq_body = as_bytes (nq_api_key s), rq_source = None \<rparr>]
     else [])"

definition nextblock_quic_send ::
  "codec \<Rightarrow> signed_tx \<times> net \<Rightarrow> nextblock_quic_sender \<Rightarrow> nextblock_quic_sender sent" where
  "nextblock_quic_send cd = (\<lambda>(tx, net) s.
    (let sig = local_signature tx; (go, last') = pace (nq_min_send_interval s) (ne_now net) (nq_last_send_at s);
         s1 = s\<lparr>nq_last_send_at := last'\<rparr>; url = nq_endpoint_display s; b = wire_bytes tx
     in if \<not> go then ([], throttled_outcome (ne_now net) sig, s)
        else if length b > MAX_TX_SIZE then ([], failed_outcome (ne_send_at net) sig (too_large b) (Some url), s1)
        else let (r, written, slot) = stream_on net 0 (connect_and_auth net) (nq_conn s)
          in (auth_request net s @
                (if written then [\<lparr> rq_url = url, rq_headers = [], rq_body = b, rq_source = None \<rparr>] else []),
              stream_outcome net sig url r, s1\<lparr>nq_conn := slot\<rparr>)))"

section \<open>bloXroute over QUIC\<close>

definition DEFAULT_PORT :: u16 where "DEFAULT_PORT = 443"

text \<open>\<open>str::parse::<u16>\<close>.\<close>

definition digit :: "char \<Rightarrow> bool" where "digit c \<longleftrightarrow> CHR ''0'' \<le> c \<and> c \<le> CHR ''9''"

definition parse_u16 :: "string \<Rightarrow> u16 option" where
  "parse_u16 s =
    (let ds = (case s of c # r \<Rightarrow> if c = CHR ''+'' \<and> r \<noteq> [] then r else s | [] \<Rightarrow> s);
         v = foldl (\<lambda>n c. 10 * n + (of_char c - 48)) 0 ds :: nat
     in if ds \<noteq> [] \<and> list_all digit ds \<and> v < 65536 then Some (of_nat v) else None)"

definition resolve_host :: "quic_lib \<Rightarrow> string \<Rightarrow> string + socket_addr \<times> string" where
  "resolve_host ql hp = (case ql_socket_addr ql hp of
     Some a \<Rightarrow> Inr (a, sa_ip a)
   | None \<Rightarrow>
      let (host, port) = (case rsplit_once CHR '':'' hp of
            Some (h, p) \<Rightarrow> (h, case parse_u16 p of Some n \<Rightarrow> n | None \<Rightarrow> DEFAULT_PORT)
          | None \<Rightarrow> (hp, DEFAULT_PORT))
      in (case ql_lookup_port ql host port of
            None \<Rightarrow> Inl (''resolve '' @ hp)
          | Some [] \<Rightarrow> Inl (''no addresses for '' @ hp)
          | Some (a # _) \<Rightarrow> Inr (a, host)))"

definition certificates_from_pem :: "quic_lib \<Rightarrow> bytes \<Rightarrow> string + bytes list" where
  "certificates_from_pem ql pem = (case ql_certs ql pem of
     None \<Rightarrow> Inl ''parse client cert PEM''
   | Some certs \<Rightarrow> if certs = [] then Inl ''no certificates found in client cert PEM'' else Inr certs)"

fun first_private_key :: "pem_item option list \<Rightarrow> string + bytes" where
  "first_private_key [] = Inl ''no private key found in client key PEM''"
| "first_private_key (None # items) = Inl ''read client key PEM''"
| "first_private_key (Some (Pkcs1_Key k) # items) = Inr k"
| "first_private_key (Some (Pkcs8_Key k) # items) = Inr k"
| "first_private_key (Some (Sec1_Key k) # items) = Inr k"
| "first_private_key (Some Other_Item # items) = first_private_key items"

definition bloxroute_tls :: "bytes list \<Rightarrow> bytes \<Rightarrow> tls_config" where
  "bloxroute_tls certs key = \<lparr> tls_alpn = [''solana-trader-submit-v1''], tls_verify_server = True,
     tls_client_auth = Client_Cert certs key, tls_idle_secs = Some 30, tls_keep_alive_secs = Some 5 \<rparr>"

definition bind_addr_for :: "quic_lib \<Rightarrow> string list \<Rightarrow> socket_addr \<Rightarrow> string + socket_addr" where
  "bind_addr_for ql outbound_ips target = (case outbound_ips of
     s # _ \<Rightarrow> (case ql_ip_addr ql s of
         Some (ip, v4) \<Rightarrow> Inr \<lparr> sa_ip = ip, sa_port = 0, sa_is_ipv4 = v4 \<rparr>
       | None \<Rightarrow> Inl (''invalid outbound_ip '' @ s))
   | [] \<Rightarrow> Inr (if sa_is_ipv4 target then unspecified_v4 else unspecified_v6))"

record quic_target =
  qt_addr :: socket_addr
  qt_server_name :: string
  qt_host_display :: string
  qt_conn :: "nat option"

fun make_targets :: "quic_lib \<Rightarrow> string list \<Rightarrow> string + quic_target list" where
  "make_targets ql [] = Inr []"
| "make_targets ql (h # hs) = bind_result (resolve_host ql h) (\<lambda>(addr, server_name).
     bind_result (make_targets ql hs) (\<lambda>ts.
       Inr (\<lparr> qt_addr = addr, qt_server_name = server_name, qt_host_display = h, qt_conn = None \<rparr> # ts)))"

record bloxroute_quic_sender =
  bq_id :: u8
  bq_name :: string
  bq_endpoint_template :: string
  bq_targets :: "quic_target list"
  bq_min_send_interval :: duration
  bq_last_send_at :: "instant option"

definition read_file :: "quic_lib \<Rightarrow> string \<Rightarrow> string + bytes" where
  "read_file ql path = (case ql_read_file ql path of Some b \<Rightarrow> Inr b | None \<Rightarrow> Inl (''read '' @ path))"

definition bloxroute_quic_new :: "quic_lib \<Rightarrow> u8 \<Rightarrow> string \<Rightarrow> string \<Rightarrow> string list \<Rightarrow> string list \<Rightarrow>
    string \<Rightarrow> string \<Rightarrow> u64 \<Rightarrow> string + bloxroute_quic_sender" where
  "bloxroute_quic_new ql i name template regions outbound_ips cert_path key_path ms =
    (if cert_path = [] \<or> key_path = []
     then Inl ''bloxroute_quic requires tls_cert_path + tls_key_path (portal mTLS artifacts)''
     else
       bind_result (read_file ql cert_path) (\<lambda>cert_pem.
       bind_result (certificates_from_pem ql cert_pem) (\<lambda>certs.
       bind_result (read_file ql key_path) (\<lambda>key_pem.
       bind_result (first_private_key (ql_pem_items ql key_pem)) (\<lambda>key.
       bind_result (make_targets ql (region_hosts template regions)) (\<lambda>targets.
       bind_result (bind_addr_for ql outbound_ips (case targets of t # _ \<Rightarrow> qt_addr t | [] \<Rightarrow> unspecified_v4)) (\<lambda>bnd.
       bind_result (check (ql_config ql (bloxroute_tls certs key))) (\<lambda>_.
       bind_result (check (ql_bind ql bnd)) (\<lambda>_.
         Inr \<lparr> bq_id = i, bq_name = name, bq_endpoint_template = template, bq_targets = targets,
           bq_min_send_interval = from_millis ms, bq_last_send_at = None \<rparr>)))))))))"

text \<open>The tasks of a send, one per target, and the loop that takes the first success or else the
  last error.\<close>

datatype quic_reply = Quic_Success string instant | Quic_Error string instant string

definition target_send :: "net \<Rightarrow> nat \<Rightarrow> quic_target \<Rightarrow> quic_reply \<times> bool \<times> quic_target" where
  "target_send net i t =
    (let (r, written, slot) = stream_on net i (ne_connect net i) (qt_conn t); ack = ne_ack_at net i
     in (case r of Inr _ \<Rightarrow> Quic_Success (qt_host_display t) ack
                 | Inl e \<Rightarrow> Quic_Error (qt_host_display t) ack (''quic: '' @ e),
         written, t\<lparr>qt_conn := slot\<rparr>))"

fun take_replies :: "instant \<Rightarrow> signature \<Rightarrow> quic_reply list \<Rightarrow> (string \<times> instant \<times> string) option \<Rightarrow> send_outcome" where
  "take_replies at sig [] last_err = (case last_err of
     Some (host, ack, err) \<Rightarrow> rejected_outcome at ack sig None None None err host
   | None \<Rightarrow> failed_outcome at sig all_dropped None)"
| "take_replies at sig (Quic_Success host ack # rs) last_err = accepted_outcome at ack sig None None host"
| "take_replies at sig (Quic_Error host ack err # rs) last_err = take_replies at sig rs (Some (host, ack, err))"

definition bloxroute_quic_warmup :: "net \<Rightarrow> bloxroute_quic_sender \<Rightarrow> bloxroute_quic_sender" where
  "bloxroute_quic_warmup net s = s\<lparr>bq_targets := map (\<lambda>(i, t). t\<lparr>qt_conn :=
     snd (live_conn net i (ne_connect net i) (qt_conn t))\<rparr>) (enumerate 0 (bq_targets s))\<rparr>"

definition bloxroute_quic_send ::
  "codec \<Rightarrow> signed_tx \<times> net \<Rightarrow> bloxroute_quic_sender \<Rightarrow> bloxroute_quic_sender sent" where
  "bloxroute_quic_send cd = (\<lambda>(tx, net) s.
    (let sig = local_signature tx; (go, last') = pace (bq_min_send_interval s) (ne_now net) (bq_last_send_at s);
         s1 = s\<lparr>bq_last_send_at := last'\<rparr>; at = ne_send_at net; b = wire_bytes tx; ts = bq_targets s
     in if \<not> go then ([], throttled_outcome (ne_now net) sig, s)
        else if ts = [] then ([], failed_outcome at sig no_regions None, s1)
        else if length b > MAX_TX_SIZE
        then ([], failed_outcome at sig (too_large b) (Some (bq_endpoint_template s)), s1)
        else
          let results = map (\<lambda>(i, t). target_send net i t) (enumerate 0 ts);
              written = filter (\<lambda>(i, t). fst (snd (target_send net i t))) (enumerate 0 ts)
          in (map (\<lambda>(i, t). \<lparr> rq_url = qt_host_display t, rq_headers = [], rq_body = b, rq_source = None \<rparr>) written,
              take_replies at sig (map (\<lambda>i. fst (results ! i)) (arrivals (length ts) net)) None,
              s1\<lparr>bq_targets := map (\<lambda>r. snd (snd r)) results\<rparr>)))"

section \<open>The QUIC senders keep the contract of the throttle\<close>

interpretation astralane_quic: paced "astralane_quic_send cd" aq_last_send_at aq_min_send_interval net_now for cd
  by unfold_locales (auto simp: astralane_quic_send_def Let_def split: prod.splits)

interpretation nextblock_quic: paced "nextblock_quic_send cd" nq_last_send_at nq_min_send_interval net_now for cd
  by unfold_locales (auto simp: nextblock_quic_send_def Let_def split: prod.splits)

interpretation bloxroute_quic: paced "bloxroute_quic_send cd" bq_last_send_at bq_min_send_interval net_now for cd
  by unfold_locales (auto simp: bloxroute_quic_send_def Let_def split: prod.splits)

end
