(* ===== verification/Senders.thy ===== *)
theory Senders
  imports Senders_Quic Dispatcher
begin

text \<open>
  The trait \<open>TxSender\<close> of \<open>senders/mod.rs\<close> as a sum of the fifteen senders, with its methods by
  cases, and the part of \<open>main\<close> in \<open>bin/phase3_run.rs\<close> that builds a sender for every enabled
  configuration entry. The warm-up tasks and the tip updaters are spawned there too; they are
  not part of the sender map.
\<close>

section \<open>The trait\<close>

datatype tx_sender =
  HeliusS helius_sender
| JitoS jito_sender
| TritonS triton_sender
| TritonSendTxS triton_sendtx_sender
| NozomiS nozomi_sender
| AstralaneS astralane_sender
| AstralaneQuicS astralane_quic_sender
| NextblockS nextblock_sender
| NextblockQuicS nextblock_quic_sender
| BloxrouteS bloxroute_sender
| BloxrouteQuicS bloxroute_quic_sender
| SyncroS syncro_sender
| ZeroSlotS zeroslot_sender
| AllenHarkS allenhark_sender
| BlockRazorS blockrazor_sender

fun sender_id :: "tx_sender \<Rightarrow> u8" where
  "sender_id (HeliusS s) = he_id s"
| "sender_id (JitoS s) = jt_id s"
| "sender_id (TritonS s) = tn_id s"
| "sender_id (TritonSendTxS s) = td_id s"
| "sender_id (NozomiS s) = nz_id s"
| "sender_id (AstralaneS s) = as_id s"
| "sender_id (AstralaneQuicS s) = aq_id s"
| "sender_id (NextblockS s) = nb_id s"
| "sender_id (NextblockQuicS s) = nq_id s"
| "sender_id (BloxrouteS s) = bx_id s"
| "sender_id (BloxrouteQuicS s) = bq_id s"
| "sender_id (SyncroS s) = sy_id s"
| "sender_id (ZeroSlotS s) = zs_id s"
| "sender_id (AllenHarkS s) = ah_id s"
| "sender_id (BlockRazorS s) = bz_id s"

fun sender_name :: "tx_sender \<Rightarrow> string" where
  "sender_name (HeliusS s) = he_name s"
| "sender_name (JitoS s) = jt_name s"
| "sender_name (TritonS s) = tn_name s"
| "sender_name (TritonSendTxS s) = td_name s"
| "sender_name (NozomiS s) = nz_name s"
| "sender_name (AstralaneS s) = as_name s"
| "sender_name (AstralaneQuicS s) = aq_name s"
| "sender_name (NextblockS s) = nb_name s"
| "sender_name (NextblockQuicS s) = nq_name s"
| "sender_name (BloxrouteS s) = bx_name s"
| "sender_name (BloxrouteQuicS s) = bq_name s"
| "sender_name (SyncroS s) = sy_name s"
| "sender_name (ZeroSlotS s) = zs_name s"
| "sender_name (AllenHarkS s) = ah_name s"
| "sender_name (BlockRazorS s) = bz_name s"

fun sender_endpoint_url :: "tx_sender \<Rightarrow> string" where
  "sender_endpoint_url (HeliusS s) = he_endpoint s"
| "sender_endpoint_url (JitoS s) = jt_endpoint_template s"
| "sender_endpoint_url (TritonS s) = tn_endpoint_display s"
| "sender_endpoint_url (TritonSendTxS s) = td_endpoint_display s"
| "sender_endpoint_url (NozomiS s) = nz_endpoint_template s"
| "sender_endpoint_url (AstralaneS s) = as_endpoint_template s"
| "sender_endpoint_url (AstralaneQuicS s) = aq_endpoint_display s"
| "sender_endpoint_url (NextblockS s) = nb_endpoint s"
| "sender_endpoint_url (NextblockQuicS s) = nq_endpoint_display s"
| "sender_endpoint_url (BloxrouteS s) = bx_endpoint_template s"
| "sender_endpoint_url (BloxrouteQuicS s) = bq_endpoint_template s"
| "sender_endpoint_url (SyncroS s) = sy_endpoint s"
| "sender_endpoint_url (ZeroSlotS s) = zs_endpoint s"
| "sender_endpoint_url (AllenHarkS s) = ah_endpoint_display s"
| "sender_endpoint_url (BlockRazorS s) = bz_endpoint s"

fun sender_protocol :: "tx_sender \<Rightarrow> string" where
  "sender_protocol (HeliusS s) = ''HTTP_JSONRPC''"
| "sender_protocol (JitoS s) = ''JITO''"
| "sender_protocol (TritonS s) = ''TRITON''"
| "sender_protocol (TritonSendTxS s) = ''TRITON_SENDTX''"
| "sender_protocol (NozomiS s) = ''NOZOMI''"
| "sender_protocol (AstralaneS s) = ''ASTRALANE''"
| "sender_protocol (AstralaneQuicS s) = ''ASTRALANE_QUIC''"
| "sender_protocol (NextblockS s) = ''NEXTBLOCK''"
| "sender_protocol (NextblockQuicS s) = ''NEXTBLOCK_QUIC''"
| "sender_protocol (BloxrouteS s) = ''BLOXROUTE''"
| "sender_protocol (BloxrouteQuicS s) = ''BLOXROUTE_QUIC''"
| "sender_protocol (SyncroS s) = ''SYNCRO''"
| "sender_protocol (ZeroSlotS s) = ''0SLOT''"
| "sender_protocol (AllenHarkS s) = ''ALLENHARK''"
| "sender_protocol (BlockRazorS s) = ''BLOCKRAZOR''"

fun sender_kind_of :: "tx_sender \<Rightarrow> sender_kind" where
  "sender_kind_of (HeliusS s) = Helius"
| "sender_kind_of (JitoS s) = Jito"
| "sender_kind_of (TritonS s) = Triton"
| "sender_kind_of (TritonSendTxS s) = TritonSendTx"
| "sender_kind_of (NozomiS s) = Nozomi"
| "sender_kind_of (AstralaneS s) = Astralane"
| "sender_kind_of (AstralaneQuicS s) = AstralaneQuic"
| "sender_kind_of (NextblockS s) = Nextblock"
| "sender_kind_of (NextblockQuicS s) = NextblockQuic"
| "sender_kind_of (BloxrouteS s) = Bloxroute"
| "sender_kind_of (BloxrouteQuicS s) = BloxrouteQuic"
| "sender_kind_of (SyncroS s) = Syncro"
| "sender_kind_of (ZeroSlotS s) = ZeroSlot"
| "sender_kind_of (AllenHarkS s) = AllenHark"
| "sender_kind_of (BlockRazorS s) = BlockRazor"

fun min_send_interval :: "tx_sender \<Rightarrow> duration" where
  "min_send_interval (HeliusS s) = 0"
| "min_send_interval (JitoS s) = jt_min_send_interval s"
| "min_send_interval (TritonS s) = 0"
| "min_send_interval (TritonSendTxS s) = 0"
| "min_send_interval (NozomiS s) = nz_min_send_interval s"
| "min_send_interval (AstralaneS s) = as_min_send_interval s"
| "min_send_interval (AstralaneQuicS s) = aq_min_send_interval s"
| "min_send_interval (NextblockS s) = nb_min_send_interval s"
| "min_send_interval (NextblockQuicS s) = nq_min_send_interval s"
| "min_send_interval (BloxrouteS s) = bx_min_send_interval s"
| "min_send_interval (BloxrouteQuicS s) = bq_min_send_interval s"
| "min_send_interval (SyncroS s) = sy_min_send_interval s"
| "min_send_interval (ZeroSlotS s) = zs_min_send_interval s"
| "min_send_interval (AllenHarkS s) = 0"
| "min_send_interval (BlockRazorS s) = bz_min_send_interval s"

fun last_send_at :: "tx_sender \<Rightarrow> instant option" where
  "last_send_at (HeliusS s) = None"
| "last_send_at (JitoS s) = jt_last_send_at s"
| "last_send_at (TritonS s) = None"
| "last_send_at (TritonSendTxS s) = None"
| "last_send_at (NozomiS s) = nz_last_send_at s"
| "last_send_at (AstralaneS s) = as_last_send_at s"
| "last_send_at (AstralaneQuicS s) = aq_last_send_at s"
| "last_send_at (NextblockS s) = nb_last_send_at s"
| "last_send_at (NextblockQuicS s) = nq_last_send_at s"
| "last_send_at (BloxrouteS s) = bx_last_send_at s"
| "last_send_at (BloxrouteQuicS s) = bq_last_send_at s"
| "last_send_at (SyncroS s) = sy_last_send_at s"
| "last_send_at (ZeroSlotS s) = zs_last_send_at s"
| "last_send_at (AllenHarkS s) = None"
| "last_send_at (BlockRazorS s) = bz_last_send_at s"

definition as_sender :: "('s \<Rightarrow> tx_sender) \<Rightarrow> 's sent \<Rightarrow> tx_sender sent" where
  "as_sender C = (\<lambda>(rs, out, s). (rs, out, C s))"

lemma as_sender_simps [simp]:
  "requests_of (as_sender C r) = requests_of r" "outcome_of (as_sender C r) = outcome_of r"
  "state_of (as_sender C r) = C (state_of r)"
  by (simp_all add: as_sender_def split: prod.split)

fun tx_send :: "codec \<Rightarrow> signed_tx \<times> net \<Rightarrow> tx_sender \<Rightarrow> tx_sender sent" where
  "tx_send cd e (HeliusS s) = as_sender HeliusS (helius_send cd e s)"
| "tx_send cd e (JitoS s) = as_sender JitoS (jito_send cd e s)"
| "tx_send cd e (TritonS s) = as_sender TritonS (triton_send cd e s)"
| "tx_send cd e (TritonSendTxS s) = as_sender TritonSendTxS (triton_sendtx_send cd e s)"
| "tx_send cd e (NozomiS s) = as_sender NozomiS (nozomi_send cd e s)"
| "tx_send cd e (AstralaneS s) = as_sender AstralaneS (astralane_send cd e s)"
| "tx_send cd e (AstralaneQuicS s) = as_sender AstralaneQuicS (astralane_quic_send cd e s)"
| "tx_send cd e (NextblockS s) = as_sender NextblockS (nextblock_send cd e s)"
| "tx_send cd e (NextblockQuicS s) = as_sender NextblockQuicS (nextblock_quic_send cd e s)"
| "tx_send cd e (BloxrouteS s) = as_sender BloxrouteS (bloxroute_send cd e s)"
| "tx_send cd e (BloxrouteQuicS s) = as_sender BloxrouteQuicS (bloxroute_quic_send cd e s)"
| "tx_send cd e (SyncroS s) = as_sender SyncroS (syncro_send cd e s)"
| "tx_send cd e (ZeroSlotS s) = as_sender ZeroSlotS (zeroslot_send cd e s)"
| "tx_send cd e (AllenHarkS s) = as_sender AllenHarkS (allenhark_send cd e s)"
| "tx_send cd e (BlockRazorS s) = as_sender BlockRazorS (blockrazor_send cd e s)"

text \<open>Every sender keeps the contract of the throttle; those without one never refuse.\<close>

interpretation any: paced "tx_send cd" last_send_at min_send_interval net_now for cd
proof
  fix e s
  show "last_send_at (state_of (tx_send cd e s)) = snd (pace (min_send_interval s) (net_now e) (last_send_at s))"
    by (cases s) (simp_all add: jito.prev_send nozomi.prev_send astralane.prev_send astralane_quic.prev_send nextblock.prev_send nextblock_quic.prev_send bloxroute.prev_send bloxroute_quic.prev_send syncro.prev_send zeroslot.prev_send blockrazor.prev_send
      pace_def helius_send_def triton_send_def triton_sendtx_send_def allenhark_send_def Let_def split: prod.split)
  show "min_send_interval (state_of (tx_send cd e s)) = min_send_interval s"
    by (cases s) (simp_all add: jito.interval_send nozomi.interval_send astralane.interval_send astralane_quic.interval_send nextblock.interval_send nextblock_quic.interval_send bloxroute.interval_send bloxroute_quic.interval_send syncro.interval_send zeroslot.interval_send blockrazor.interval_send
      helius_send_def triton_send_def triton_sendtx_send_def allenhark_send_def Let_def split: prod.split)
  assume "\<not> fst (pace (min_send_interval s) (net_now e) (last_send_at s))"
  then show "requests_of (tx_send cd e s) = [] \<and> so_error (outcome_of (tx_send cd e s)) = Some ''throttled_local''"
    by (cases s) (simp_all add: jito.refused nozomi.refused astralane.refused astralane_quic.refused nextblock.refused nextblock_quic.refused bloxroute.refused bloxroute_quic.refused syncro.refused zeroslot.refused blockrazor.refused pace_def)
qed

section \<open>Building the senders\<close>

datatype build_error = Failed string | Panic

definition or_panic :: "'a option \<Rightarrow> build_error + 'a" where
  "or_panic r = (case r of Some x \<Rightarrow> Inr x | None \<Rightarrow> Inl Panic)"

definition with_context :: "string \<Rightarrow> string + 'a \<Rightarrow> build_error + 'a" where
  "with_context msg r = (case r of Inr x \<Rightarrow> Inr x | Inl _ \<Rightarrow> Inl (Failed msg))"

definition map_result :: "('a \<Rightarrow> 'b) \<Rightarrow> 'e + 'a \<Rightarrow> 'e + 'b" where
  "map_result f r = (case r of Inl e \<Rightarrow> Inl e | Inr x \<Rightarrow> Inr (f x))"

lemma map_result_Inr [simp]: "map_result f r = Inr y \<longleftrightarrow> (\<exists>x. r = Inr x \<and> y = f x)"
  by (auto simp: map_result_def split: sum.splits)

lemma or_panic_Inr [simp]: "or_panic r = Inr y \<longleftrightarrow> r = Some y"
  by (simp add: or_panic_def split: option.splits)

lemma with_context_Inr [simp]: "with_context msg r = Inr y \<longleftrightarrow> r = Inr y"
  by (simp add: with_context_def split: sum.splits)

definition make_sender :: "(string \<Rightarrow> bool) \<Rightarrow> quic_lib \<Rightarrow> sender_config \<Rightarrow> build_error + tx_sender" where
  "make_sender ip_ok ql sc =
    (let i = sd_id sc; name = sd_name sc; url = sd_endpoint_url sc; key = sd_api_key sc; regions = sd_regions sc;
         ips = sd_outbound_ips sc; ms = sd_min_send_interval_ms sc
     in case sd_kind sc of
       Helius \<Rightarrow> Inr (HeliusS (helius_new i name url))
     | Jito \<Rightarrow> if regions = [] then Inl (Failed (''jito sender '' @ name @ '' must declare at least one region''))
         else map_result JitoS (or_panic (jito_new ip_ok i name url regions ips ms))
     | Triton \<Rightarrow> Inr (TritonS (triton_new i name url))
     | TritonSendTx \<Rightarrow> Inr (TritonSendTxS (triton_sendtx_new i name url key))
     | Nozomi \<Rightarrow> Inr (NozomiS (nozomi_new i name url regions key ms))
     | Astralane \<Rightarrow> map_result AstralaneS (or_panic (astralane_new ip_ok i name url regions ips key ms))
     | AstralaneQuic \<Rightarrow> map_result AstralaneQuicS (with_context (''build astralane_quic sender '' @ name)
         (astralane_quic_new ql i name url ips key ms))
     | Nextblock \<Rightarrow> map_result NextblockS (or_panic (nextblock_new ip_ok i name url ips key ms))
     | NextblockQuic \<Rightarrow> map_result NextblockQuicS (with_context (''build nextblock_quic sender '' @ name)
         (nextblock_quic_new ql i name url ips key ms))
     | Bloxroute \<Rightarrow> map_result BloxrouteS (or_panic (bloxroute_new ip_ok i name url regions ips key ms))
     | BloxrouteQuic \<Rightarrow> map_result BloxrouteQuicS (with_context (''build bloxroute_quic sender '' @ name)
         (bloxroute_quic_new ql i name url regions ips (sd_tls_cert_path sc) (sd_tls_key_path sc) ms))
     | Syncro \<Rightarrow> Inr (SyncroS (syncro_new i name url key ms))
     | ZeroSlot \<Rightarrow> Inr (ZeroSlotS (zeroslot_new i name url key ms))
     | AllenHark \<Rightarrow> map_result AllenHarkS (with_context (''build allenhark sender '' @ name)
         (allenhark_new ql i name url key))
     | BlockRazor \<Rightarrow> Inr (BlockRazorS (blockrazor_new i name url key ms)))"

fun insert_senders :: "(string \<Rightarrow> bool) \<Rightarrow> quic_lib \<Rightarrow> sender_config list \<Rightarrow> (u8, tx_sender) hash_map \<Rightarrow>
    build_error + (u8, tx_sender) hash_map" where
  "insert_senders ip_ok ql [] m = Inr m"
| "insert_senders ip_ok ql (sc # scs) m = (case make_sender ip_ok ql sc of
     Inl e \<Rightarrow> Inl e
   | Inr s \<Rightarrow> insert_senders ip_ok ql scs (hm_insert (sd_id sc) s m))"

definition enabled_senders :: "sender_config list \<Rightarrow> sender_config list" where
  "enabled_senders scs = filter sd_enabled scs"

definition build_senders :: "(string \<Rightarrow> bool) \<Rightarrow> quic_lib \<Rightarrow> sender_config list \<Rightarrow>
    build_error + (u8, tx_sender) hash_map" where
  "build_senders ip_ok ql scs =
    (if enabled_senders scs = [] then Inl (Failed ''no enabled senders in config'')
     else insert_senders ip_ok ql (enabled_senders scs) [])"

text \<open>What the dispatcher reads of the map.\<close>

definition handle_of :: "tx_sender \<Rightarrow> sender_handle" where
  "handle_of s = \<lparr> sh_endpoint_url = sender_endpoint_url s, sh_protocol = sender_protocol s \<rparr>"

definition handles :: "(u8, tx_sender) hash_map \<Rightarrow> (u8, sender_handle) hash_map" where
  "handles m = map (\<lambda>(i, s). (i, handle_of s)) m"

end
