(* ===== verification/Senders_Props.thy ===== *)
theory Senders_Props
  imports Senders Preparer_Props
begin

text \<open>
  What the dispatcher relies on for every sender: its identity and throttle are those of the
  configuration, its sends are spaced, an accepted outcome means that the transaction was
  written, a QUIC send never exceeds the packet limit, and the fan-out races are decided as the
  code says.
\<close>

section \<open>Construction\<close>

definition unthrottled_kinds :: "sender_kind list" where
  "unthrottled_kinds = [Helius, Triton, TritonSendTx, AllenHark]"

lemmas constructor_defs = helius_new_def jito_new_def triton_new_def triton_sendtx_new_def nozomi_new_def
  astralane_new_def astralane_quic_new_def nextblock_new_def nextblock_quic_new_def bloxroute_new_def
  bloxroute_quic_new_def syncro_new_def zeroslot_new_def allenhark_new_def blockrazor_new_def

lemma make_sender_fields:
  assumes "make_sender ip_ok ql sc = Inr s"
  shows "sender_id s = sd_id sc" "sender_name s = sd_name sc" "sender_kind_of s = sd_kind sc"
    "last_send_at s = None"
    "min_send_interval s = (if sd_kind sc \<in> set unthrottled_kinds then 0 else from_millis (sd_min_send_interval_ms sc))"
  using assms
  by (cases "sd_kind sc";
    auto simp: make_sender_def Let_def constructor_defs unthrottled_kinds_def bind_result_Inr split: if_splits option.splits)+

text \<open>The protocol a record carries, by the kind of its sender.\<close>

definition protocol_of :: "sender_kind \<Rightarrow> string" where
  "protocol_of k = (case k of Helius \<Rightarrow> ''HTTP_JSONRPC'' | Jito \<Rightarrow> ''JITO'' | Triton \<Rightarrow> ''TRITON''
     | TritonSendTx \<Rightarrow> ''TRITON_SENDTX'' | Nozomi \<Rightarrow> ''NOZOMI'' | Astralane \<Rightarrow> ''ASTRALANE''
     | AstralaneQuic \<Rightarrow> ''ASTRALANE_QUIC'' | Nextblock \<Rightarrow> ''NEXTBLOCK'' | NextblockQuic \<Rightarrow> ''NEXTBLOCK_QUIC''
     | Bloxroute \<Rightarrow> ''BLOXROUTE'' | BloxrouteQuic \<Rightarrow> ''BLOXROUTE_QUIC'' | Syncro \<Rightarrow> ''SYNCRO''
     | ZeroSlot \<Rightarrow> ''0SLOT'' | AllenHark \<Rightarrow> ''ALLENHARK'' | BlockRazor \<Rightarrow> ''BLOCKRAZOR'')"

lemma protocol_of_kind: "sender_protocol s = protocol_of (sender_kind_of s)"
  by (cases s) (simp_all add: protocol_of_def)

lemma insert_senders_Inr:
  "insert_senders ip_ok ql scs m = Inr m' \<Longrightarrow> distinct (map sd_id scs) \<Longrightarrow>
    map_of m' i = (case find (\<lambda>sc. sd_id sc = i) scs of
      Some sc \<Rightarrow> (case make_sender ip_ok ql sc of Inr s \<Rightarrow> Some s | Inl _ \<Rightarrow> None)
    | None \<Rightarrow> map_of m i)"
proof (induction scs arbitrary: m)
  case (Cons sc scs)
  then obtain s where s: "make_sender ip_ok ql sc = Inr s"
    "insert_senders ip_ok ql scs (hm_insert (sd_id sc) s m) = Inr m'"
    by (auto split: sum.splits)
  have "sd_id sc = i \<Longrightarrow> find (\<lambda>sc. sd_id sc = i) scs = None"
    using Cons.prems(2) by (simp add: find_None_iff) (metis imageI)
  then show ?case using Cons.IH [OF s(2)] Cons.prems(2) s(1) by (auto simp: update_conv split: option.splits)
qed simp

lemma map_of_handles: "map_of (handles m) i = map_option handle_of (map_of m i)"
  by (simp add: handles_def map_of_map)

lemma insert_senders_make:
  "insert_senders ip_ok ql scs m = Inr m' \<Longrightarrow> sc \<in> set scs \<Longrightarrow> \<exists>s. make_sender ip_ok ql sc = Inr s"
  by (induction scs arbitrary: m) (auto split: sum.splits)


definition demo_ql :: quic_lib where
  "demo_ql = \<lparr> ql_socket_addr = (\<lambda>_. None), ql_ip_addr = (\<lambda>_. None), ql_lookup = (\<lambda>_. None),
     ql_lookup_port = (\<lambda>_ _. None), ql_config = (\<lambda>_. None), ql_bind = (\<lambda>_. None), ql_read_file = (\<lambda>_. None),
     ql_certs = (\<lambda>_. None), ql_pem_items = (\<lambda>_. []) \<rparr>"

definition demo_config :: "u8 \<Rightarrow> sender_kind \<Rightarrow> u64 \<Rightarrow> sender_config" where
  "demo_config i k ms = (ss_config (demo_sender i k))\<lparr>sd_min_send_interval_ms := ms, sd_regions := [''fra'', ''ams''],
     sd_endpoint_url := ''http://{region}.x'', sd_api_key := ''k3y''\<rparr>"

lemma demo_config_simps [simp]:
  "sd_id (demo_config i k ms) = i" "sd_kind (demo_config i k ms) = k" "sd_enabled (demo_config i k ms)"
  "sd_min_send_interval_ms (demo_config i k ms) = ms" "sd_name (demo_config i k ms) = []"
  "sd_outbound_ips (demo_config i k ms) = []" "sd_regions (demo_config i k ms) = [''fra'', ''ams'']"
  "sd_api_key (demo_config i k ms) = ''k3y''" "sd_endpoint_url (demo_config i k ms) = ''http://{region}.x''"
  by (simp_all add: demo_config_def demo_sender_def)


section \<open>Pacing\<close>

text \<open>C17: The sends of a sender that was built from a configuration entry and that reach the
  network are at least its configured interval apart, whatever the load, as long as the clock
  does not go back. Four kinds have no throttle.\<close>
theorem senders_paced:
  assumes "make_sender ip_ok ql sc = Inr s" "sorted (map net_now es)"
  shows "spaced (if sd_kind sc \<in> set unthrottled_kinds then 0 else from_millis (sd_min_send_interval_ms sc))
    (sent_times net_now (send_all (tx_send cd) es s))"
proof -
  note f = make_sender_fields [OF assms(1)]
  have "after 0 (last_send_at s) (map net_now es)" using f(4) by (simp add: after_def)
  from any.send_all_spaced [OF assms(2) this, of cd] show ?thesis unfolding f(5) by (rule conjunct1)
qed

definition demo_cd :: codec where
  "demo_cd = \<lparr> cd_base64 = map (\<lambda>b. char_of (unat b)), cd_to_string = (\<lambda>_. Some ''{}''), cd_rpc = (\<lambda>_. None),
     cd_submit = (\<lambda>_. None), cd_relay = (\<lambda>_. None), cd_value = (\<lambda>_. None), cd_signature = (\<lambda>_. None),
     cd_utf8_lossy = (\<lambda>_. []) \<rparr>"

definition demo_net :: "instant \<Rightarrow> http_result \<Rightarrow> net" where
  "demo_net t r = \<lparr> ne_start = t, ne_now = t, ne_send_at = t, ne_ack_at = (\<lambda>i. t + 5 + i), ne_order = [1, 0],
     ne_http = (\<lambda>_. r), ne_closed = (\<lambda>_. False), ne_connect = (\<lambda>i. Inr i), ne_auth = (\<lambda>_. Inr 0),
     ne_stream = (\<lambda>i. if i = 0 then Inr [] else Inl ''lost'') \<rparr>"

definition demo_tx :: signed_tx where
  "demo_tx = \<lparr> sx_signatures = [9], sx_bincode = Some [1, 2, 3] \<rparr>"

abbreviation demo_send :: "instant \<Rightarrow> signed_tx \<times> net" where
  "demo_send t \<equiv> (demo_tx, demo_net t (Http_Response 200 None))"

text \<open>Two sends 100 ms apart with an interval of 250 ms: one goes out, the later third again.\<close>

lemma senders_paced_witness:
  "\<exists>s. make_sender (\<lambda>_. True) demo_ql (demo_config 7 Nozomi 250) = Inr s \<and>
     spaced 250000000 (sent_times net_now (send_all (tx_send demo_cd)
       [demo_send 0, demo_send 100000000, demo_send 250000000] s))"
proof -
  have "\<exists>s. make_sender (\<lambda>_. True) demo_ql (demo_config 7 Nozomi 250) = Inr s"
    by (simp add: make_sender_def Let_def)
  then obtain s where s: "make_sender (\<lambda>_. True) demo_ql (demo_config 7 Nozomi 250) = Inr s" ..
  have "sorted (map net_now [demo_send 0, demo_send 100000000, demo_send 250000000])"
    by (simp add: demo_net_def)
  from senders_paced [OF s this, of demo_cd] s show ?thesis
    by (auto simp: unthrottled_kinds_def from_millis_def)
qed

section \<open>Accepted means written\<close>

lemma stream_on_written: "stream_on net i fresh slot = (Inr r, w, slot') \<Longrightarrow> w"
  by (auto simp: stream_on_def split: prod.splits sum.splits)

lemma target_send_success:
  "fst (target_send net i t) = Quic_Success h a \<Longrightarrow> fst (snd (target_send net i t))"
  by (auto simp: target_send_def Let_def split: prod.splits sum.splits dest: stream_on_written)

lemma take_replies_accepted:
  "so_error (take_replies at sig rs le) = None \<longleftrightarrow> (\<exists>h a. Quic_Success h a \<in> set rs)"
  by (induction at sig rs le rule: take_replies.induct) (auto split: option.splits)

lemma take_replies_fields:
  "so_error (take_replies at sig rs le) = None \<Longrightarrow>
    so_send_ack_at (take_replies at sig rs le) \<noteq> None \<and> so_endpoint_url_used (take_replies at sig rs le) \<noteq> None"
  by (induction at sig rs le rule: take_replies.induct)
    (auto split: option.splits simp: accepted_outcome_def rejected_outcome_def failed_outcome_def)

lemma accepted_fields [simp]:
  "so_send_ack_at (accepted_outcome at ack sig st rid url) = Some ack"
  by (simp add: accepted_outcome_def)

lemma arrivals_less: "i \<in> set (arrivals n net) \<Longrightarrow> i < n"
  by (simp add: arrivals_def)

text \<open>An outcome without an error carries an acknowledgement time and an endpoint.\<close>

definition complete :: "send_outcome \<Rightarrow> bool" where
  "complete out \<longleftrightarrow> (so_error out = None \<longrightarrow> so_send_ack_at out \<noteq> None \<and> so_endpoint_url_used out \<noteq> None)"

lemma complete_simps [simp]:
  "complete (throttled_outcome now sig)" "complete (failed_outcome at sig err u)"
  "complete (accepted_outcome at ack sig st rid url)" "complete (rejected_outcome at ack sig st code msg err url)"
  by (simp_all add: complete_def)

lemma complete_outcomes [simp]:
  "complete (rpc_outcome cd net sig url)" "complete (helius_outcome cd net sig url)"
  "complete (razor_outcome cd net sig url)" "complete (nextblock_outcome cd net sig url)"
  "complete (allenhark_outcome cd net sig url r)" "complete (stream_outcome net sig url r)"
  "complete (jito_outcome at sig jr)" "complete (fan_outcome at sig fr)" "complete (blox_outcome cd at sig br)"
  by (simp_all add: rpc_outcome_def helius_outcome_def razor_outcome_def nextblock_outcome_def Let_def
      allenhark_outcome_def stream_outcome_def jito_outcome_def fan_outcome_def blox_outcome_def
      split: http_result.split parsed_reply.split option.split blockrazor_reply.split nextblock_reply.split
        sum.split relay_reply.split jito_reply.split fan_reply.split blox_reply.split)

lemma complete_take_replies [simp]: "complete (take_replies at sig rs le)"
  by (induction at sig rs le rule: take_replies.induct) (auto split: option.splits)

lemma complete_send: "complete (outcome_of (tx_send cd (tx, net) s))"
  by (cases s; simp add: helius_send_def triton_send_def triton_sendtx_send_def syncro_send_def zeroslot_send_def
      blockrazor_send_def nextblock_send_def jito_send_def nozomi_send_def astralane_send_def bloxroute_send_def
      allenhark_send_def astralane_quic_send_def nextblock_quic_send_def bloxroute_quic_send_def Let_def
      split: prod.split http_result.split)

text \<open>When the outcome has no error, something was written.\<close>

lemma stream_on_not_isl: "stream_on net i fresh slot = (r, w, slot') \<Longrightarrow> \<not> isl r \<Longrightarrow> w"
  by (cases r) (auto dest: stream_on_written)

lemma allenhark_outcome_ok: "so_error (allenhark_outcome cd net sig url r) = None \<Longrightarrow> \<not> isl r"
  by (auto simp: allenhark_outcome_def Let_def split: sum.splits)

lemma stream_outcome_ok: "so_error (stream_outcome net sig url r) = None \<Longrightarrow> \<not> isl r"
  by (auto simp: stream_outcome_def split: sum.splits)

lemma http_written:
  "requests_of (helius_send cd (tx, net) h) \<noteq> []" "requests_of (triton_send cd (tx, net) t) \<noteq> []"
  "requests_of (triton_sendtx_send cd (tx, net) td) \<noteq> []"
  "so_error (outcome_of (syncro_send cd (tx, net) sy)) = None \<Longrightarrow> requests_of (syncro_send cd (tx, net) sy) \<noteq> []"
  "so_error (outcome_of (zeroslot_send cd (tx, net) zs)) = None \<Longrightarrow> requests_of (zeroslot_send cd (tx, net) zs) \<noteq> []"
  "so_error (outcome_of (blockrazor_send cd (tx, net) bz)) = None \<Longrightarrow> requests_of (blockrazor_send cd (tx, net) bz) \<noteq> []"
  "so_error (outcome_of (nextblock_send cd (tx, net) nb)) = None \<Longrightarrow> requests_of (nextblock_send cd (tx, net) nb) \<noteq> []"
  by (auto simp: helius_send_def triton_send_def triton_sendtx_send_def syncro_send_def zeroslot_send_def
      blockrazor_send_def nextblock_send_def Let_def split: prod.splits if_splits)

lemma fan_written:
  "so_error (outcome_of (jito_send cd (tx, net) jt)) = None \<Longrightarrow> requests_of (jito_send cd (tx, net) jt) \<noteq> []"
  "so_error (outcome_of (nozomi_send cd (tx, net) nz)) = None \<Longrightarrow> requests_of (nozomi_send cd (tx, net) nz) \<noteq> []"
  "so_error (outcome_of (astralane_send cd (tx, net) al)) = None \<Longrightarrow> requests_of (astralane_send cd (tx, net) al) \<noteq> []"
  "so_error (outcome_of (bloxroute_send cd (tx, net) bx)) = None \<Longrightarrow> requests_of (bloxroute_send cd (tx, net) bx) \<noteq> []"
  by (auto simp: jito_send_def nozomi_send_def astralane_send_def bloxroute_send_def Let_def
      split: prod.splits if_splits)

lemma quic_written:
  "so_error (outcome_of (allenhark_send cd (tx, net) ah)) = None \<Longrightarrow> requests_of (allenhark_send cd (tx, net) ah) \<noteq> []"
  "so_error (outcome_of (astralane_quic_send cd (tx, net) aq)) = None \<Longrightarrow>
    requests_of (astralane_quic_send cd (tx, net) aq) \<noteq> []"
  "so_error (outcome_of (nextblock_quic_send cd (tx, net) nq)) = None \<Longrightarrow>
    requests_of (nextblock_quic_send cd (tx, net) nq) \<noteq> []"
  by (auto simp: allenhark_send_def astralane_quic_send_def nextblock_quic_send_def Let_def
      split: prod.splits if_splits dest: stream_on_not_isl allenhark_outcome_ok stream_outcome_ok)

text \<open>The targets of a QUIC fan-out.\<close>

lemma nth_target_results:
  "i < length ts \<Longrightarrow> map (\<lambda>(i, t). target_send net i t) (enumerate 0 ts) ! i = target_send net i (ts ! i)"
  by (simp add: nth_enumerate_eq)

definition quic_replies :: "net \<Rightarrow> quic_target list \<Rightarrow> quic_reply list" where
  "quic_replies net ts = map (\<lambda>i. fst (target_send net i (ts ! i))) (arrivals (length ts) net)"

lemma bloxroute_quic_outcome:
  assumes "fst (pace (bq_min_send_interval s) (ne_now net) (bq_last_send_at s))"
    "bq_targets s \<noteq> []" "length (wire_bytes tx) \<le> MAX_TX_SIZE"
  shows "outcome_of (bloxroute_quic_send cd (tx, net) s) =
    take_replies (ne_send_at net) (local_signature tx) (quic_replies net (bq_targets s)) None"
proof -
  let ?ts = "bq_targets s"
  have "map (\<lambda>i. fst (map (\<lambda>(i, t). target_send net i t) (enumerate 0 ?ts) ! i)) (arrivals (length ?ts) net) =
      quic_replies net ?ts" unfolding quic_replies_def
    by (rule map_cong [OF refl]) (simp add: nth_target_results arrivals_less del: nth_map)
  moreover obtain q where "pace (bq_min_send_interval s) (ne_now net) (bq_last_send_at s) = (True, q)"
    using assms(1) by (cases "pace (bq_min_send_interval s) (ne_now net) (bq_last_send_at s)") simp
  ultimately show ?thesis using assms(2,3) by (simp add: bloxroute_quic_send_def Let_def)
qed

lemma bloxroute_quic_written:
  assumes "so_error (outcome_of (bloxroute_quic_send cd (tx, net) s)) = None"
  shows "requests_of (bloxroute_quic_send cd (tx, net) s) \<noteq> []"
proof -
  let ?ts = "bq_targets s"
  have c: "fst (pace (bq_min_send_interval s) (ne_now net) (bq_last_send_at s))" "?ts \<noteq> []"
    "length (wire_bytes tx) \<le> MAX_TX_SIZE"
    using assms by (auto simp: bloxroute_quic_send_def Let_def split: prod.splits if_splits)
  obtain h a where "Quic_Success h a \<in> set (quic_replies net ?ts)"
    using assms unfolding bloxroute_quic_outcome [OF c] take_replies_accepted by blast
  then obtain i where i: "i < length ?ts" "fst (target_send net i (?ts ! i)) = Quic_Success h a"
    unfolding quic_replies_def using arrivals_less by fastforce
  then have "(i, ?ts ! i) \<in> set (enumerate 0 ?ts)" by (simp add: in_set_enumerate_eq)
  with target_send_success [OF i(2)]
  have "filter (\<lambda>(i, t). fst (snd (target_send net i t))) (enumerate 0 ?ts) \<noteq> []"
    by (auto simp: filter_empty_conv)
  moreover obtain q where "pace (bq_min_send_interval s) (ne_now net) (bq_last_send_at s) = (True, q)"
    using c(1) by (cases "pace (bq_min_send_interval s) (ne_now net) (bq_last_send_at s)") simp
  ultimately show ?thesis using c(2,3) by (simp add: bloxroute_quic_send_def Let_def)
qed



section \<open>The races\<close>

lemma remdups_snoc: "remdups (xs @ [x]) = remdups (filter (\<lambda>y. y \<noteq> x) xs) @ [x]"
  by (induction xs) auto

lemma first_arrival_head: "ne_order net = i # js \<Longrightarrow> i < n \<Longrightarrow> first_arrival n net = Some i"
  by (simp add: first_arrival_def arrivals_def remdups_snoc)

text \<open>A bloXroute QUIC send that is not throttled and fits a packet is accepted exactly when one
  of its targets took the bytes, in whatever order the targets answer; errors of the others do
  not count.\<close>
theorem quic_race_takes_success:
  assumes "fst (pace (bq_min_send_interval s) (ne_now net) (bq_last_send_at s))"
    "bq_targets s \<noteq> []" "length (wire_bytes tx) \<le> MAX_TX_SIZE"
  shows "so_error (outcome_of (bloxroute_quic_send cd (tx, net) s)) = None \<longleftrightarrow>
    (\<exists>i h a. i < length (bq_targets s) \<and> i \<in> set (ne_order net) \<and>
      fst (target_send net i (bq_targets s ! i)) = Quic_Success h a)"
proof -
  have "(\<exists>h a. Quic_Success h a \<in> set (quic_replies net (bq_targets s))) \<longleftrightarrow>
      (\<exists>i h a. i < length (bq_targets s) \<and> i \<in> set (ne_order net) \<and>
        fst (target_send net i (bq_targets s ! i)) = Quic_Success h a)"
    unfolding quic_replies_def arrivals_def by (auto simp: image_iff) (metis+)
  then show ?thesis unfolding bloxroute_quic_outcome [OF assms] take_replies_accepted .
qed

definition demo_target :: "string \<Rightarrow> quic_target" where
  "demo_target h = \<lparr> qt_addr = unspecified_v4, qt_server_name = h, qt_host_display = h, qt_conn = None \<rparr>"

definition demo_blox :: bloxroute_quic_sender where
  "demo_blox = \<lparr> bq_id = 3, bq_name = [], bq_endpoint_template = [], bq_targets = [demo_target ''a'', demo_target ''b''],
     bq_min_send_interval = 0, bq_last_send_at = None \<rparr>"

text \<open>The second target fails first; the send is accepted by the first.\<close>

lemma quic_race_takes_success_witness:
  "so_error (outcome_of (bloxroute_quic_send demo_cd (demo_tx, demo_net 40 (Http_Error [])) demo_blox)) = None"
proof -
  let ?net = "demo_net 40 (Http_Error [])"
  have a: "fst (pace (bq_min_send_interval demo_blox) (ne_now ?net) (bq_last_send_at demo_blox))"
    "bq_targets demo_blox \<noteq> []" "length (wire_bytes demo_tx) \<le> MAX_TX_SIZE"
    by (simp_all add: demo_blox_def pace_def wire_bytes_def demo_tx_def MAX_TX_SIZE_def)
  have "fst (target_send ?net 0 (bq_targets demo_blox ! 0)) = Quic_Success ''a'' 45"
    by (simp add: demo_blox_def demo_target_def target_send_def stream_on_def live_conn_def demo_net_def)
  moreover have "0 < length (bq_targets demo_blox)" "0 \<in> set (ne_order ?net)"
    by (simp_all add: demo_blox_def demo_net_def)
  ultimately show ?thesis using quic_race_takes_success [OF a, of demo_cd] by blast
qed

text \<open>The HTTP fan-outs report the reply that arrives first: nothing that the other hosts
  answer, and no order among them, changes the outcome.\<close>
theorem http_race_takes_first:
  assumes "net' = net\<lparr>ne_order := i # js', ne_http := h', ne_ack_at := a'\<rparr>" "ne_order net = i # js"
    "h' i = ne_http net i" "a' i = ne_ack_at net i"
    "i < length (jc_hosts (jt_json_rpc jt))" "i < length (nz_hosts nz)" "i < length (as_hosts al)" "i < length (bx_hosts bx)"
  shows "outcome_of (jito_send cd (tx, net') jt) = outcome_of (jito_send cd (tx, net) jt) \<and>
    outcome_of (nozomi_send cd (tx, net') nz) = outcome_of (nozomi_send cd (tx, net) nz) \<and>
    outcome_of (astralane_send cd (tx, net') al) = outcome_of (astralane_send cd (tx, net) al) \<and>
    outcome_of (bloxroute_send cd (tx, net') bx) = outcome_of (bloxroute_send cd (tx, net) bx)"
proof -
  have f: "first_arrival n net = Some i" "first_arrival n net' = Some i" if "i < n" for n
    using that assms(1,2) by (simp_all add: first_arrival_head)
  have r: "jito_host_reply cd net' h i = jito_host_reply cd net h i" "plain_reply k net' h i = plain_reply k net h i"
    "blox_host_reply cd net' h i = blox_host_reply cd net h i" for h k
    using assms(1,3,4) by (simp_all add: jito_host_reply_def plain_reply_def blox_host_reply_def Let_def split: http_result.split)
  have c: "ne_now net' = ne_now net" "ne_start net' = ne_start net" "ne_send_at net' = ne_send_at net"
    using assms(1) by simp_all
  show ?thesis using f assms(5-8)
    by (simp add: jito_send_def nozomi_send_def astralane_send_def bloxroute_send_def Let_def r c split: prod.split)
qed

definition demo_net2 :: "http_result \<Rightarrow> net" where
  "demo_net2 r = (demo_net 40 r)\<lparr>ne_order := [0, 1]\<rparr>"

definition demo_grid :: json_rpc_client where
  "demo_grid = \<lparr> jc_hosts = [''a'', ''b''], jc_grid = [[None], [None]], jc_ip_count = 1 \<rparr>"

definition demo_jito :: jito_sender where
  "demo_jito = \<lparr> jt_id = 1, jt_name = [], jt_endpoint_template = [], jt_json_rpc = demo_grid, jt_ip_count = 1,
     jt_ip_cursor = 0, jt_counters = jito_counters_default, jt_min_send_interval = 0, jt_last_send_at = None \<rparr>"

definition demo_astralane :: astralane_sender where
  "demo_astralane = the (astralane_new (\<lambda>_. True) 5 [] ''http://a'' [] [] ''key'' 0)"

definition demo_bloxroute :: bloxroute_sender where
  "demo_bloxroute = the (bloxroute_new (\<lambda>_. True) 6 [] ''http://a'' [] [] ''key'' 0)"

lemma http_race_takes_first_witness:
  "outcome_of (jito_send demo_cd (demo_tx, demo_net2 (Http_Error ''x'')) demo_jito) =
   outcome_of (jito_send demo_cd (demo_tx, (demo_net2 (Http_Error ''x''))\<lparr>ne_order := [0],
     ne_http := (\<lambda>i. if i = 0 then Http_Error ''x'' else Http_Response 200 None),
     ne_ack_at := ne_ack_at (demo_net2 (Http_Error ''x''))\<rparr>) demo_jito)"
proof -
  have "ne_order (demo_net2 (Http_Error ''x'')) = 0 # [1]" by (simp add: demo_net2_def)
  moreover have "(if (0::nat) = 0 then Http_Error ''x'' else Http_Response 200 None) = ne_http (demo_net2 (Http_Error ''x'')) 0"
    by (simp add: demo_net2_def demo_net_def)
  moreover have "0 < length (jc_hosts (jt_json_rpc demo_jito))"
    "0 < length (nz_hosts (nozomi_new 7 [] ''http://a'' [] ''key'' 0))"
    "0 < length (as_hosts demo_astralane)" "0 < length (bx_hosts demo_bloxroute)"
    by (simp_all add: demo_jito_def demo_grid_def nozomi_new_def region_hosts_def Let_def demo_astralane_def
        astralane_new_def build_clients_def demo_bloxroute_def bloxroute_new_def)
  ultimately show ?thesis
    using http_race_takes_first [OF refl, where net = "demo_net2 (Http_Error ''x'')" and i = 0 and js = "[1]" and js' = "[]"
      and h' = "\<lambda>i. if i = 0 then Http_Error ''x'' else Http_Response 200 None"
      and a' = "ne_ack_at (demo_net2 (Http_Error ''x''))" and jt = demo_jito
      and nz = "nozomi_new 7 [] ''http://a'' [] ''key'' 0" and al = demo_astralane and bx = demo_bloxroute]
    by simp
qed

text \<open>So an error that arrives first is the outcome, also when a later host accepts the
  transaction: the attempt counts as a send error, and a landing through the other host is not
  looked for.\<close>

lemma http_race_ignores_success:
  "let net = (demo_net 40 (Http_Response 200 None))\<lparr>ne_http := (\<lambda>i. if i = 0 then Http_Response 200 None else Http_Error ''reset'')\<rparr>;
       fra = nozomi_new 7 [] ''http://{region}'' [''fra'', ''ams''] ''key'' 0;
       out = outcome_of (nozomi_send demo_cd (demo_tx, net) fra)
   in so_error out = Some ''network: reset'' \<and> so_error (outcome_of (nozomi_send demo_cd
        (demo_tx, net\<lparr>ne_order := [0, 1]\<rparr>) fra)) = None"
  by (simp add: nozomi_send_def nozomi_new_def region_hosts_def Let_def pace_def from_millis_def demo_net_def
      first_arrival_def arrivals_def plain_reply_def success_status_def fan_outcome_def scrub_def)

section \<open>The packet limit\<close>

text \<open>What the QUIC senders with a size check write for a transaction fits a QUIC packet of
  1232 bytes, for every transaction; a larger one is refused locally.\<close>
theorem quic_fits_packet:
  "list_all (\<lambda>r. length (rq_body r) \<le> 1232) (requests_of (astralane_quic_send cd (tx, net) aq) @
      requests_of (bloxroute_quic_send cd (tx, net) bq) @
      filter (\<lambda>r. rq_body r \<noteq> as_bytes (nq_api_key nq)) (requests_of (nextblock_quic_send cd (tx, net) nq)))"
  by (auto simp: list_all_iff astralane_quic_send_def bloxroute_quic_send_def nextblock_quic_send_def
      auth_request_def Let_def MAX_TX_SIZE_def split: prod.splits if_splits)

end
