(* ===== verification/Senders_Secrets.thy ===== *)
theory Senders_Secrets
  imports Senders_Props
begin

text \<open>
  The senders' promise about API keys (\<open>endpoint_url()\<close>, \<open>redact_endpoint\<close>, \<open>redact_query\<close>,
  \<open>scrub\<close>): what a sender reports does not depend on its key, as a noninterference property by
  unwinding over the senders; error texts are scrubbed by the two senders that say so.
\<close>

section \<open>Redaction\<close>

lemma redact_query_tail: "redact_query (a @ CHR ''?'' # b) = redact_query (a @ CHR ''?'' # c)"
  by (simp add: redact_query_def split_once_append split: option.split prod.split)

lemma nozomi_display: "redact_query (nozomi_send_url h k) = redact_query (nozomi_send_url h k')"
  unfolding nozomi_send_url_def SEND_PATH_def
  using redact_query_tail [of "trim_end_matches CHR ''/'' h @ ''/api/sendTransaction2''" "''c='' @ k" "''c='' @ k'"]
  by simp

lemma astralane_display: "redact_query (astralane_send_url h k) = redact_query (astralane_send_url h k')"
  unfolding astralane_send_url_def ASTRALANE_SEND_PATH_def
  using redact_query_tail [of "trim_end_matches CHR ''/'' h @ ''/irisb''" "''api-key='' @ k @ ''&method=sendTransaction''"
      "''api-key='' @ k' @ ''&method=sendTransaction''"]
  by simp

section \<open>Unwinding\<close>

text \<open>A sender without its secrets, and an outcome without its error texts.\<close>

fun public_view :: "tx_sender \<Rightarrow> tx_sender" where
  "public_view (HeliusS s) = HeliusS s"
| "public_view (JitoS s) = JitoS s"
| "public_view (TritonS s) = TritonS (s\<lparr>tn_endpoint := []\<rparr>)"
| "public_view (TritonSendTxS s) = TritonSendTxS (s\<lparr>td_endpoint := [], td_token := []\<rparr>)"
| "public_view (NozomiS s) = NozomiS (s\<lparr>nz_api_key := [], nz_hosts := map (\<lambda>_. []) (nz_hosts s), nz_warm_urls := []\<rparr>)"
| "public_view (AstralaneS s) =
     AstralaneS (s\<lparr>as_api_key := [], as_hosts := map (\<lambda>_. []) (as_hosts s), as_warm_urls := []\<rparr>)"
| "public_view (AstralaneQuicS s) = AstralaneQuicS (s\<lparr>aq_tls := astralane_tls []\<rparr>)"
| "public_view (NextblockS s) = NextblockS (s\<lparr>nb_api_key := []\<rparr>)"
| "public_view (NextblockQuicS s) = NextblockQuicS (s\<lparr>nq_api_key := []\<rparr>)"
| "public_view (BloxrouteS s) = BloxrouteS (s\<lparr>bx_api_key := []\<rparr>)"
| "public_view (BloxrouteQuicS s) = BloxrouteQuicS s"
| "public_view (SyncroS s) = SyncroS (s\<lparr>sy_api_key := []\<rparr>)"
| "public_view (ZeroSlotS s) = ZeroSlotS (s\<lparr>zs_api_key := []\<rparr>)"
| "public_view (AllenHarkS s) = AllenHarkS (s\<lparr>ah_api_key := []\<rparr>)"
| "public_view (BlockRazorS s) = BlockRazorS (s\<lparr>bz_api_key := []\<rparr>)"

definition public_outcome :: "send_outcome \<Rightarrow> send_outcome" where
  "public_outcome out = out\<lparr>so_error := map_option (\<lambda>_. []) (so_error out),
     so_rpc_err_message := map_option (\<lambda>_. []) (so_rpc_err_message out)\<rparr>"

lemma public_plain_reply:
  "map_option public_outcome (Some (fan_outcome at sig (Some (plain_reply k net h i)))) =
   map_option public_outcome (Some (fan_outcome at sig (Some (plain_reply k' net h i))))"
  by (simp add: plain_reply_def fan_outcome_def Let_def public_outcome_def rejected_outcome_def split: http_result.split)

lemma public_fan_outcome:
  "public_outcome (fan_outcome at sig (map_option (\<lambda>i. plain_reply k net (hs i) i) o1)) =
   public_outcome (fan_outcome at sig (map_option (\<lambda>i. plain_reply k' net (hs i) i) o1))"
  using public_plain_reply by (cases o1) simp_all

definition indistinct :: "codec \<Rightarrow> signed_tx \<times> net \<Rightarrow> tx_sender \<Rightarrow> tx_sender \<Rightarrow> bool" where
  "indistinct cd e s s' \<longleftrightarrow>
    public_outcome (outcome_of (tx_send cd e s)) = public_outcome (outcome_of (tx_send cd e s')) \<and>
    public_view (state_of (tx_send cd e s)) = public_view (state_of (tx_send cd e s'))"

lemma indistinct_http:
  "public_view (TritonS a) = public_view (TritonS a') \<Longrightarrow> indistinct cd (tx, net) (TritonS a) (TritonS a')"
  "public_view (TritonSendTxS b) = public_view (TritonSendTxS b') \<Longrightarrow> indistinct cd (tx, net) (TritonSendTxS b) (TritonSendTxS b')"
  "public_view (SyncroS c) = public_view (SyncroS c') \<Longrightarrow> indistinct cd (tx, net) (SyncroS c) (SyncroS c')"
  "public_view (ZeroSlotS d) = public_view (ZeroSlotS d') \<Longrightarrow> indistinct cd (tx, net) (ZeroSlotS d) (ZeroSlotS d')"
  "public_view (BlockRazorS f) = public_view (BlockRazorS f') \<Longrightarrow> indistinct cd (tx, net) (BlockRazorS f) (BlockRazorS f')"
  "public_view (NextblockS g) = public_view (NextblockS g') \<Longrightarrow> indistinct cd (tx, net) (NextblockS g) (NextblockS g')"
      apply (cases a; cases a'; simp add: indistinct_def triton_send_def)
     apply (cases b; cases b'; simp add: indistinct_def triton_sendtx_send_def Let_def split: http_result.split)
    apply (cases c; cases c'; simp add: indistinct_def syncro_send_def Let_def split: prod.split)
   apply (cases d; cases d'; simp add: indistinct_def zeroslot_send_def Let_def split: prod.split)
  apply (cases f; cases f'; simp add: indistinct_def blockrazor_send_def Let_def split: prod.split)
  apply (cases g; cases g'; simp add: indistinct_def nextblock_send_def Let_def split: prod.split)
  done

lemma indistinct_quic:
  "public_view (AllenHarkS a) = public_view (AllenHarkS a') \<Longrightarrow> indistinct cd (tx, net) (AllenHarkS a) (AllenHarkS a')"
  "public_view (AstralaneQuicS b) = public_view (AstralaneQuicS b') \<Longrightarrow>
    indistinct cd (tx, net) (AstralaneQuicS b) (AstralaneQuicS b')"
  "public_view (NextblockQuicS c) = public_view (NextblockQuicS c') \<Longrightarrow>
    indistinct cd (tx, net) (NextblockQuicS c) (NextblockQuicS c')"
    apply (cases a; cases a'; simp add: indistinct_def allenhark_send_def Let_def split: prod.split)
   apply (cases b; cases b'; simp add: indistinct_def astralane_quic_send_def Let_def split: prod.split)
  apply (cases c; cases c'; simp add: indistinct_def nextblock_quic_send_def Let_def split: prod.split)
  done

lemma map_const_length: "map (\<lambda>_. c) xs = map (\<lambda>_. c) ys \<Longrightarrow> length xs = length ys"
  by (metis length_map)

lemma indistinct_nozomi:
  assumes "public_view (NozomiS a) = public_view (NozomiS a')"
  shows "indistinct cd (tx, net) (NozomiS a) (NozomiS a')"
proof -
  have f: "nz_hosts_display a' = nz_hosts_display a" "length (nz_hosts a') = length (nz_hosts a)"
    using assms by (cases a; cases a'; auto dest: map_const_length)+
  then have e: "nz_hosts a' = [] \<longleftrightarrow> nz_hosts a = []" by (metis length_0_conv)
  show ?thesis
    using assms public_fan_outcome [of "ne_send_at net" "local_signature tx" "nz_api_key a" net
        "\<lambda>i. nz_hosts_display a ! i" _ "nz_api_key a'"] e f
    by (cases a; cases a') (simp add: indistinct_def nozomi_send_def Let_def split: prod.split)
qed

lemma indistinct_astralane:
  assumes "public_view (AstralaneS a) = public_view (AstralaneS a')"
  shows "indistinct cd (tx, net) (AstralaneS a) (AstralaneS a')"
proof -
  have f: "as_hosts_display a' = as_hosts_display a" "length (as_hosts a') = length (as_hosts a)"
    using assms by (cases a; cases a'; auto dest: map_const_length)+
  then have e: "as_hosts a' = [] \<longleftrightarrow> as_hosts a = []" by (metis length_0_conv)
  show ?thesis
    using assms public_fan_outcome [of "ne_send_at net" "local_signature tx" "as_api_key a" net
        "\<lambda>i. as_hosts_display a ! i" _ "as_api_key a'"] e f
    by (cases a; cases a') (simp add: indistinct_def astralane_send_def Let_def split: prod.split)
qed

lemma indistinct_bloxroute:
  "public_view (BloxrouteS a) = public_view (BloxrouteS a') \<Longrightarrow> indistinct cd (tx, net) (BloxrouteS a) (BloxrouteS a')"
  by (cases a; cases a') (simp add: indistinct_def bloxroute_send_def Let_def split: prod.split)

lemma indistinct_refl: "indistinct cd e s s"
  by (simp add: indistinct_def)

text \<open>Equal views stay equal and give equal public outcomes.\<close>

lemma unwind:
  assumes "public_view s = public_view s'"
  shows "indistinct cd (tx, net) s s'"
proof (cases s)
  case (HeliusS a)
  with assms have "s' = s" by (cases s') simp_all
  then show ?thesis by (simp add: indistinct_refl)
next
  case (JitoS a)
  with assms have "s' = s" by (cases s') simp_all
  then show ?thesis by (simp add: indistinct_refl)
next
  case (BloxrouteQuicS a)
  with assms have "s' = s" by (cases s') simp_all
  then show ?thesis by (simp add: indistinct_refl)
next
  case (TritonS a)
  with assms obtain a' where s': "s' = TritonS a'" by (cases s') simp_all
  show ?thesis using assms unfolding TritonS s' by (rule indistinct_http)
next
  case (TritonSendTxS a)
  with assms obtain a' where s': "s' = TritonSendTxS a'" by (cases s') simp_all
  show ?thesis using assms unfolding TritonSendTxS s' by (rule indistinct_http)
next
  case (NozomiS a)
  with assms obtain a' where s': "s' = NozomiS a'" by (cases s') simp_all
  show ?thesis using assms unfolding NozomiS s' by (rule indistinct_nozomi)
next
  case (AstralaneS a)
  with assms obtain a' where s': "s' = AstralaneS a'" by (cases s') simp_all
  show ?thesis using assms unfolding AstralaneS s' by (rule indistinct_astralane)
next
  case (AstralaneQuicS a)
  with assms obtain a' where s': "s' = AstralaneQuicS a'" by (cases s') simp_all
  show ?thesis using assms unfolding AstralaneQuicS s' by (rule indistinct_quic)
next
  case (NextblockS a)
  with assms obtain a' where s': "s' = NextblockS a'" by (cases s') simp_all
  show ?thesis using assms unfolding NextblockS s' by (rule indistinct_http)
next
  case (NextblockQuicS a)
  with assms obtain a' where s': "s' = NextblockQuicS a'" by (cases s') simp_all
  show ?thesis using assms unfolding NextblockQuicS s' by (rule indistinct_quic)
next
  case (BloxrouteS a)
  with assms obtain a' where s': "s' = BloxrouteS a'" by (cases s') simp_all
  show ?thesis using assms unfolding BloxrouteS s' by (rule indistinct_bloxroute)
next
  case (SyncroS a)
  with assms obtain a' where s': "s' = SyncroS a'" by (cases s') simp_all
  show ?thesis using assms unfolding SyncroS s' by (rule indistinct_http)
next
  case (ZeroSlotS a)
  with assms obtain a' where s': "s' = ZeroSlotS a'" by (cases s') simp_all
  show ?thesis using assms unfolding ZeroSlotS s' by (rule indistinct_http)
next
  case (AllenHarkS a)
  with assms obtain a' where s': "s' = AllenHarkS a'" by (cases s') simp_all
  show ?thesis using assms unfolding AllenHarkS s' by (rule indistinct_quic)
next
  case (BlockRazorS a)
  with assms obtain a' where s': "s' = BlockRazorS a'" by (cases s') simp_all
  show ?thesis using assms unfolding BlockRazorS s' by (rule indistinct_http)
qed

lemma unwind_run:
  "public_view s = public_view s' \<Longrightarrow>
   map (\<lambda>(e, r). public_outcome (outcome_of r)) (send_all (tx_send cd) es s) =
   map (\<lambda>(e, r). public_outcome (outcome_of r)) (send_all (tx_send cd) es s')"
proof (induction es arbitrary: s s')
  case (Cons e es)
  obtain tx net where e: "e = (tx, net)" by (cases e)
  from unwind [OF Cons.prems, of cd tx net] have
    o1: "public_outcome (outcome_of (tx_send cd e s)) = public_outcome (outcome_of (tx_send cd e s'))" and
    v: "public_view (state_of (tx_send cd e s)) = public_view (state_of (tx_send cd e s'))"
    unfolding e indistinct_def by blast+
  show ?case using Cons.IH [OF v] o1 by (simp only: send_all.simps Let_def list.map prod.case)
qed simp

section \<open>The key of a configuration entry\<close>

lemma nozomi_new_view: "public_view (NozomiS (nozomi_new i n t rs k ms)) = public_view (NozomiS (nozomi_new i n t rs k' ms))"
  by (simp add: nozomi_new_def Let_def o_def nozomi_display [of _ k k'])

lemma astralane_new_view:
  assumes "astralane_new ip i n t rs ips k ms = Some a" "astralane_new ip i n t rs ips k' ms = Some a'"
  shows "public_view (AstralaneS a) = public_view (AstralaneS a')"
proof -
  have "those (map (\<lambda>_. build_clients ip ips) (map (\<lambda>h. astralane_send_url h k) hs)) =
      those (map (\<lambda>_. build_clients ip ips) (map (\<lambda>h. astralane_send_url h k') hs))" for hs :: "string list"
    by (simp add: o_def)
  then show ?thesis using assms
    by (auto simp: astralane_new_def Let_def o_def astralane_display [of _ k k'])
qed

lemma make_sender_view:
  assumes "make_sender ip_ok ql sc = Inr s" "make_sender ip_ok ql (sc\<lparr>sd_api_key := k\<rparr>) = Inr s'"
  shows "public_view s = public_view s'"
proof (cases "sd_kind sc")
  case Nozomi
  then show ?thesis using assms nozomi_new_view by (auto simp: make_sender_def Let_def)
next
  case Astralane
  with assms obtain a a' where s: "s = AstralaneS a" "s' = AstralaneS a'" and
    a: "astralane_new ip_ok (sd_id sc) (sd_name sc) (sd_endpoint_url sc) (sd_regions sc) (sd_outbound_ips sc)
      (sd_api_key sc) (sd_min_send_interval_ms sc) = Some a"
    "astralane_new ip_ok (sd_id sc) (sd_name sc) (sd_endpoint_url sc) (sd_regions sc) (sd_outbound_ips sc)
      k (sd_min_send_interval_ms sc) = Some a'"
    by (auto simp: make_sender_def Let_def)
  show ?thesis unfolding s by (rule astralane_new_view [OF a])
next
  case AstralaneQuic
  then show ?thesis using assms
    by (auto simp: make_sender_def Let_def astralane_quic_new_def bind_result_Inr)
next
  case NextblockQuic
  then show ?thesis using assms
    by (auto simp: make_sender_def Let_def nextblock_quic_new_def bind_result_Inr)
next
  case AllenHark
  then show ?thesis using assms
    by (auto simp: make_sender_def Let_def allenhark_new_def bind_result_Inr split: option.splits)
next
  case Nextblock
  then show ?thesis using assms by (auto simp: make_sender_def Let_def nextblock_new_def)
next
  case Bloxroute
  then show ?thesis using assms by (auto simp: make_sender_def Let_def bloxroute_new_def)
qed (use assms in \<open>auto simp: make_sender_def Let_def triton_sendtx_new_def syncro_new_def zeroslot_new_def
  blockrazor_new_def split: if_splits\<close>)

lemma view_endpoint:
  assumes "public_view s = public_view s'" shows "sender_endpoint_url s = sender_endpoint_url s'"
proof -
  have "sender_endpoint_url (public_view x) = sender_endpoint_url x" for x by (cases x) simp_all
  then show ?thesis using assms by metis
qed

text \<open>Nothing a sender reports depends on its API key except the error texts: two runs of the
  same configuration with different keys, against the same network, have the same endpoint, and
  their outcomes agree in every field, up to the wording of the errors. So the key of an entry
  reaches the records through error texts only.\<close>
theorem records_hide_api_key:
  assumes "make_sender ip_ok ql sc = Inr s" "make_sender ip_ok ql (sc\<lparr>sd_api_key := k\<rparr>) = Inr s'"
  shows "sender_endpoint_url s = sender_endpoint_url s' \<and>
    map (\<lambda>(e, r). public_outcome (outcome_of r)) (send_all (tx_send cd) es s) =
    map (\<lambda>(e, r). public_outcome (outcome_of r)) (send_all (tx_send cd) es s')"
  using make_sender_view [OF assms] by (intro conjI view_endpoint unwind_run)

lemma records_hide_api_key_witness:
  "map (\<lambda>(e, r). public_outcome (outcome_of r)) (send_all (tx_send demo_cd) [demo_send 40]
      (NozomiS (nozomi_new 7 [] ''http://{region}.x'' [''fra'', ''ams''] ''k3y'' 0))) =
   map (\<lambda>(e, r). public_outcome (outcome_of r)) (send_all (tx_send demo_cd) [demo_send 40]
      (NozomiS (nozomi_new 7 [] ''http://{region}.x'' [''fra'', ''ams''] ''other'' 0)))"
proof -
  have "make_sender (\<lambda>_. True) demo_ql (demo_config 7 Nozomi 0) =
      Inr (NozomiS (nozomi_new 7 [] ''http://{region}.x'' [''fra'', ''ams''] ''k3y'' 0))"
    by (simp add: make_sender_def Let_def)
  moreover have "make_sender (\<lambda>_. True) demo_ql ((demo_config 7 Nozomi 0)\<lparr>sd_api_key := ''other''\<rparr>) =
      Inr (NozomiS (nozomi_new 7 [] ''http://{region}.x'' [''fra'', ''ams''] ''other'' 0))"
    by (simp add: make_sender_def Let_def)
  ultimately show ?thesis by (rule records_hide_api_key [THEN conjunct2])
qed

section \<open>A token in the path\<close>

lemma split_once_str_scheme: "CHR '':'' \<notin> set a \<Longrightarrow> split_once_str ''://'' (a @ ''://'' @ b) = Some (a, b)"
  by (induction a) auto

lemma redact_scheme_host:
  assumes "CHR '':'' \<notin> set scheme" "CHR ''/'' \<notin> set host"
  shows "redact_endpoint (scheme @ ''://'' @ host @ CHR ''/'' # p) = scheme @ ''://'' @ host"
proof -
  have "split_first CHR ''/'' (host @ CHR ''/'' # p) = host"
    using assms(2) by (induction host) (auto simp: split_first_def)
  then show ?thesis
    using split_once_str_scheme [OF assms(1), of "host @ CHR ''/'' # p"] by (simp add: redact_endpoint_def)
qed

lemma trim_end_keeps: "x \<noteq> c \<Longrightarrow> \<exists>q. trim_end_matches c (a @ x # p) = a @ x # q \<and> (q = [] \<or> (\<exists>r. p = q @ r))"
proof -
  assume x: "x \<noteq> c"
  have "dropWhile (\<lambda>y. y = c) (rev p @ x # rev a) = dropWhile (\<lambda>y. y = c) (rev p) @ x # rev a"
    using x by (induction "rev p" arbitrary: p) (simp_all add: dropWhile_append)
  moreover have "\<exists>r. p = rev (dropWhile (\<lambda>y. y = c) (rev p)) @ r"
    by (metis rev_append rev_rev_ident takeWhile_dropWhile_id)
  ultimately show ?thesis unfolding trim_end_matches_def by auto
qed

lemma redact_scheme_only:
  assumes "CHR '':'' \<notin> set scheme" "CHR ''/'' \<notin> set host"
  shows "redact_endpoint (scheme @ ''://'' @ host) = scheme @ ''://'' @ host"
proof -
  have "split_first CHR ''/'' host = host"
    using assms(2) by (induction host) (auto simp: split_first_def)
  then show ?thesis
    using split_once_str_scheme [OF assms(1), of host] by (simp add: redact_endpoint_def)
qed

lemma sendtx_display:
  assumes "CHR '':'' \<notin> set scheme" "CHR ''/'' \<notin> set host" "host \<noteq> []"
  shows "redact_endpoint (build_post_url (scheme @ ''://'' @ host @ CHR ''/'' # token)) = scheme @ ''://'' @ host"
proof -
  let ?x = "last host" let ?a = "scheme @ ''://'' @ butlast host"
  have h: "butlast host @ [?x] = host" using assms(3) by (rule append_butlast_last_id)
  have "?x \<noteq> CHR ''/''" using assms(2,3) last_in_set by metis
  then obtain q where q: "trim_end_matches CHR ''/'' (?a @ ?x # CHR ''/'' # token) = ?a @ ?x # q"
    "q = [] \<or> (\<exists>r. CHR ''/'' # token = q @ r)"
    using trim_end_keeps [of ?x "CHR ''/''" ?a "CHR ''/'' # token"] by blast
  have l: "?a @ ?x # z = scheme @ ''://'' @ host @ z" for z
    using h by (metis append.assoc append_Cons append_Nil)
  obtain z where "q @ ''/sendtx?response=none'' = CHR ''/'' # z" using q(2) by (cases q) auto
  then have "build_post_url (scheme @ ''://'' @ host @ CHR ''/'' # token) = scheme @ ''://'' @ host @ CHR ''/'' # z"
    using q(1) unfolding l build_post_url_def by simp
  then show ?thesis using redact_scheme_host [OF assms(1,2)] by simp
qed

text \<open>Every endpoint in the records of a Triton sender is its display form.\<close>

lemma triton_endpoint:
  "so_endpoint_url_used (outcome_of (triton_send cd (tx, net) s)) = Some (tn_endpoint_display s)"
  by (simp add: triton_send_def rpc_outcome_def Let_def split: http_result.split parsed_reply.split)

lemma triton_sendtx_endpoint:
  "so_endpoint_url_used (outcome_of (triton_sendtx_send cd (tx, net) s)) = Some (td_endpoint_display s)"
  by (simp add: triton_sendtx_send_def Let_def split: http_result.split)

text \<open>The two Triton senders carry their token in the path of the endpoint URL; their records and
  logs show scheme and host only, for every token and every reply.\<close>
theorem triton_hides_token:
  assumes "sd_endpoint_url sc = scheme @ ''://'' @ host @ CHR ''/'' # token"
    "CHR '':'' \<notin> set scheme" "CHR ''/'' \<notin> set host" "host \<noteq> []"
    "sd_kind sc \<in> {Triton, TritonSendTx}" "make_sender ip_ok ql sc = Inr s"
  shows "sender_endpoint_url s = scheme @ ''://'' @ host \<and>
    so_endpoint_url_used (outcome_of (tx_send cd (tx, net) s)) = Some (scheme @ ''://'' @ host)"
proof (cases "sd_kind sc")
  case Triton
  with assms have "s = TritonS (triton_new (sd_id sc) (sd_name sc) (sd_endpoint_url sc))"
    by (simp add: make_sender_def Let_def)
  then show ?thesis using redact_scheme_host [OF assms(2,3)] assms(1) by (simp add: triton_endpoint triton_new_def)
next
  case TritonSendTx
  with assms have "s = TritonSendTxS (triton_sendtx_new (sd_id sc) (sd_name sc) (sd_endpoint_url sc) (sd_api_key sc))"
    by (simp add: make_sender_def Let_def)
  then show ?thesis using sendtx_display [OF assms(2,3,4)] assms(1)
    by (simp add: triton_sendtx_endpoint triton_sendtx_new_def Let_def)
qed (use assms in simp_all)

lemma triton_hides_token_witness:
  "so_endpoint_url_used (outcome_of (tx_send demo_cd (demo_send 40)
     (TritonS (triton_new 2 [] ''https://x.rpcpool.com/s3cret'')))) = Some ''https://x.rpcpool.com''"
proof -
  let ?sc = "(demo_config 2 Triton 0)\<lparr>sd_endpoint_url := ''https://x.rpcpool.com/s3cret''\<rparr>"
  have "sd_endpoint_url ?sc = ''https'' @ ''://'' @ ''x.rpcpool.com'' @ CHR ''/'' # ''s3cret''" by simp
  moreover have "sd_kind ?sc \<in> {Triton, TritonSendTx}" by simp
  moreover have "make_sender (\<lambda>_. True) demo_ql ?sc = Inr (TritonS (triton_new 2 [] ''https://x.rpcpool.com/s3cret''))"
    by (simp add: make_sender_def Let_def)
  ultimately show ?thesis using triton_hides_token [where sc = ?sc and scheme = "''https''" and host = "''x.rpcpool.com''"
      and token = "''s3cret''" and ip_ok = "\<lambda>_. True" and ql = demo_ql and cd = demo_cd and tx = demo_tx
      and net = "demo_net 40 (Http_Response 200 None)"] by simp
qed

section \<open>Scrubbed error texts\<close>

lemma scrub_removes: "CHR ''*'' \<notin> set k \<Longrightarrow> k \<noteq> [] \<Longrightarrow> \<not> sublist k (scrub msg k)"
  unfolding scrub_def by (simp add: replace_removes)

lemma show_nat_less:
  "n < 10 \<Longrightarrow> length (show_nat n) = 1" "n < 100 \<Longrightarrow> length (show_nat n) \<le> 2" "n < 1000 \<Longrightarrow> length (show_nat n) \<le> 3"
  "n < 10000 \<Longrightarrow> length (show_nat n) \<le> 4" "n < 100000 \<Longrightarrow> length (show_nat n) \<le> 5"
proof -
  have s: "length (show_nat m) \<le> Suc b" if "m div 10 < 10 ^ b \<Longrightarrow> length (show_nat (m div 10)) \<le> b" "m < 10 ^ Suc b" "b > 0" for m b
    using that by (subst show_nat.simps) (auto simp: div_less_iff_less_mult)
  have 1: "n < 10 ^ 1 \<Longrightarrow> length (show_nat n) \<le> 1" for n by (subst show_nat.simps) simp
  have 2: "n < 10 ^ 2 \<Longrightarrow> length (show_nat n) \<le> 2" for n using s [of n 1] 1 [of "n div 10"] by (simp add: numeral_2_eq_2)
  have 3: "n < 10 ^ 3 \<Longrightarrow> length (show_nat n) \<le> 3" for n using s [of n 2] 2 [of "n div 10"] by (simp add: numeral_3_eq_3)
  have 4: "n < 10 ^ 4 \<Longrightarrow> length (show_nat n) \<le> 4" for n using s [of n 3] 3 [of "n div 10"] by simp
  have 5: "n < 10 ^ 5 \<Longrightarrow> length (show_nat n) \<le> 5" for n using s [of n 4] 4 [of "n div 10"] by simp
  show "n < 10 \<Longrightarrow> length (show_nat n) = 1" by (subst show_nat.simps) simp
  show "n < 100 \<Longrightarrow> length (show_nat n) \<le> 2" "n < 1000 \<Longrightarrow> length (show_nat n) \<le> 3"
    "n < 10000 \<Longrightarrow> length (show_nat n) \<le> 4" "n < 100000 \<Longrightarrow> length (show_nat n) \<le> 5"
    using 2 [of n] 3 [of n] 4 [of n] 5 [of n] by simp_all
qed

lemma sublist_split_char:
  assumes "sublist k (a @ x # b)" "x \<notin> set k"
  shows "sublist k a \<or> sublist k b"
proof -
  have p: "q = []" if "prefix q (x # b)" "x \<notin> set q" for q using that by (cases q) auto
  from assms(1) consider "sublist k a" | "sublist k (x # b)"
    | k1 k2 where "k = k1 @ k2" "suffix k1 a" "prefix k2 (x # b)"
    unfolding sublist_append by blast
  then show ?thesis
  proof cases
    case 2
    then show ?thesis using p assms(2) by (auto simp: sublist_Cons_right)
  next
    case 3
    then have "k2 = []" using p [of k2] assms(2) by simp
    then show ?thesis using 3 by (simp add: suffix_imp_sublist)
  qed simp
qed

text \<open>A key the scrubbing is meant for: no blank and no asterisk in it, longer than a status, and
  not a part of the sender's own messages.\<close>

definition scrubbable :: "string \<Rightarrow> bool" where
  "scrubbable k \<longleftrightarrow> CHR ''*'' \<notin> set k \<and> CHR '' '' \<notin> set k \<and> 7 \<le> length k \<and>
     list_all (\<lambda>m. \<not> sublist k m) [''throttled_local'', no_regions, all_dropped]"

lemma status_text_safe:
  assumes "scrubbable k" "\<not> sublist k text"
  shows "\<not> sublist k (''HTTP '' @ show_word (st :: u16) @ '': '' @ text)"
proof
  assume "sublist k (''HTTP '' @ show_word st @ '': '' @ text)"
  then have "sublist k (''HTTP'' @ CHR '' '' # (show_word st @ '':'') @ CHR '' '' # text)" by simp
  moreover have "CHR '' '' \<notin> set k" using assms(1) by (simp add: scrubbable_def)
  ultimately have "sublist k ''HTTP'' \<or> sublist k (show_word st @ '':'')"
    using sublist_split_char [of k "''HTTP''" "CHR '' ''" "(show_word st @ '':'') @ CHR '' '' # text"]
      sublist_split_char [of k "show_word st @ '':''" "CHR '' ''" "text"] assms(2) by argo
  moreover have "length (show_word st) \<le> 5"
    using show_nat_less(5) [of "unat st"] unat_lt [of st] by (simp add: show_word_def)
  ultimately have "length k \<le> 6" by (auto dest!: sublist_length_le)
  then show False using assms(1) by (simp add: scrubbable_def)
qed

definition reported_texts :: "send_outcome \<Rightarrow> string list" where
  "reported_texts out = map the (filter (\<lambda>x. x \<noteq> None) [so_error out, so_rpc_err_message out])"

lemma reported_simps [simp]:
  "reported_texts (throttled_outcome now sig) = [''throttled_local'']"
  "reported_texts (failed_outcome at sig err u) = [err]"
  "reported_texts (accepted_outcome at ack sig st rid url) = []"
  "reported_texts (rejected_outcome at ack sig st code msg err url) = err # (case msg of Some m \<Rightarrow> [m] | None \<Rightarrow> [])"
  by (simp_all add: reported_texts_def split: option.split)

lemma plain_reply_safe:
  assumes "scrubbable k"
  shows "list_all (\<lambda>t. \<not> sublist k t) (reported_texts (fan_outcome at sig (Some (plain_reply k net h i))))"
proof -
  have s: "\<not> sublist k (scrub m k)" for m using assms scrub_removes [of k m] by (auto simp: scrubbable_def)
  note st = status_text_safe [OF assms s, simplified]
  show ?thesis
    by (auto simp: plain_reply_def fan_outcome_def Let_def s st split: http_result.split)
qed

lemma fan_outcome_safe:
  assumes "scrubbable k"
  shows "list_all (\<lambda>t. \<not> sublist k t) (reported_texts (fan_outcome at sig (map_option (\<lambda>i. plain_reply k net (hs i) i) o1)))"
proof (cases o1)
  case None
  then show ?thesis using assms by (simp add: fan_outcome_def scrubbable_def)
next
  case (Some i)
  then show ?thesis using plain_reply_safe [OF assms] by simp
qed



text \<open>The 0slot, BlockRazor and Triton senders do not scrub: an error whose text quotes the request
  URL, as those of \<open>reqwest\<close> do, puts the key into the record.\<close>

lemma unscrubbed_error_leaks:
  "so_error (outcome_of (zeroslot_send demo_cd
     (demo_tx, demo_net 40 (Http_Error (''error sending request for url ('' @ zeroslot_send_url ''http://a'' ''abcd1234'' @ '')'')))
     (zeroslot_new 7 [] ''http://a'' ''abcd1234'' 0))) =
   Some ''network: error sending request for url (http://a?api-key=abcd1234)''"
  by (simp add: zeroslot_send_def zeroslot_new_def Let_def pace_def from_millis_def rpc_outcome_def demo_net_def
      zeroslot_send_url_def)

end
