(* ===== verification/Warmup.thy ===== *)
theory Warmup
  imports Observation
begin

text \<open>
  \<open>spawn_warmup\<close> of \<open>bin/phase3_run.rs\<close>: the gate in front of the merger that drops the entries
  of the slot a source was started in. A turn is one round of the thread: the stop flag, then
  what \<open>recv_timeout\<close> returns.
\<close>

record warmup =
  wu_startup_slot :: "u64 option"
  wu_warm :: bool
  wu_first_full_slot :: u64
  wu_tx :: "entry_observation chan"

definition warmup_init :: warmup where
  "warmup_init = \<lparr> wu_startup_slot = None, wu_warm = False, wu_first_full_slot = 0, wu_tx = [] \<rparr>"

datatype warmup_turn = WarmObs entry_observation | WarmTimeout | WarmStop | WarmDisconnected

definition warmup_obs :: "entry_observation accept \<Rightarrow> entry_observation \<Rightarrow> warmup \<Rightarrow> warmup" where
  "warmup_obs acc obs w =
    (if wu_warm w then w\<lparr>wu_tx := fst (try_send acc (wu_tx w) obs)\<rparr>
     else (case wu_startup_slot w of
       None \<Rightarrow> w\<lparr>wu_startup_slot := Some (obs_slot obs)\<rparr>
     | Some s0 \<Rightarrow> if obs_slot obs \<le> s0 then w
         else w\<lparr>wu_warm := True, wu_first_full_slot := obs_slot obs, wu_tx := fst (try_send acc (wu_tx w) obs)\<rparr>))"

fun warmup_loop :: "entry_observation accept \<Rightarrow> warmup_turn list \<Rightarrow> warmup \<Rightarrow> warmup" where
  "warmup_loop acc [] w = w"
| "warmup_loop acc (WarmStop # ts) w = w"
| "warmup_loop acc (WarmDisconnected # ts) w = w"
| "warmup_loop acc (WarmTimeout # ts) w = warmup_loop acc ts w"
| "warmup_loop acc (WarmObs obs # ts) w = warmup_loop acc ts (warmup_obs acc obs w)"

text \<open>The observations received before the thread stops.\<close>

fun warmup_received :: "warmup_turn list \<Rightarrow> entry_observation list" where
  "warmup_received [] = []"
| "warmup_received (WarmStop # ts) = []"
| "warmup_received (WarmDisconnected # ts) = []"
| "warmup_received (WarmTimeout # ts) = warmup_received ts"
| "warmup_received (WarmObs obs # ts) = obs # warmup_received ts"

text \<open>The reference: skip the first observation and all that follow it up to the first one of a
  later slot.\<close>

fun skip_startup :: "entry_observation list \<Rightarrow> entry_observation list" where
  "skip_startup [] = []"
| "skip_startup (obs # obss) = dropWhile (\<lambda>x. obs_slot x \<le> obs_slot obs) obss"

definition first_slot :: "u64 \<Rightarrow> entry_observation list \<Rightarrow> u64" where
  "first_slot d obss = (case obss of [] \<Rightarrow> d | x # _ \<Rightarrow> obs_slot x)"

lemma first_slot_simps [simp]: "first_slot d [] = d" "first_slot d (x # xs) = obs_slot x"
  by (simp_all add: first_slot_def)

lemma warmup_warm: "wu_warm w \<Longrightarrow>
    attempts (wu_tx (warmup_loop acc ts w)) = attempts (wu_tx w) @ warmup_received ts \<and>
    wu_first_full_slot (warmup_loop acc ts w) = wu_first_full_slot w"
  by (induction acc ts w rule: warmup_loop.induct) (auto simp: warmup_obs_def)

lemma warmup_started: "wu_startup_slot w = Some s0 \<Longrightarrow> \<not> wu_warm w \<Longrightarrow>
    attempts (wu_tx (warmup_loop acc ts w)) =
      attempts (wu_tx w) @ dropWhile (\<lambda>x. obs_slot x \<le> s0) (warmup_received ts) \<and>
    wu_first_full_slot (warmup_loop acc ts w) = first_slot (wu_first_full_slot w)
      (dropWhile (\<lambda>x. obs_slot x \<le> s0) (warmup_received ts))"
proof (induction acc ts w rule: warmup_loop.induct)
  case (5 acc obs ts w)
  then show ?case
    by (cases "obs_slot obs \<le> s0")
      (simp_all add: warmup_obs_def warmup_warm)
qed auto

lemma warmup_fresh: "wu_startup_slot w = None \<Longrightarrow> \<not> wu_warm w \<Longrightarrow>
    attempts (wu_tx (warmup_loop acc ts w)) = attempts (wu_tx w) @ skip_startup (warmup_received ts) \<and>
    wu_first_full_slot (warmup_loop acc ts w) = first_slot (wu_first_full_slot w) (skip_startup (warmup_received ts))"
proof (induction acc ts w rule: warmup_loop.induct)
  case (5 acc obs ts w)
  then show ?case by (simp add: warmup_obs_def warmup_started)
qed auto

text \<open>The warm-up gate forwards exactly what the reference function keeps: nothing of the slot in
  which the source was started, as long as no later slot has been seen, and every observation
  from the first one of a later slot on, in order; that slot is the reported first full slot.\<close>
theorem warmup_equals_reference:
  "attempts (wu_tx (warmup_loop acc ts warmup_init)) = skip_startup (warmup_received ts) \<and>
   wu_first_full_slot (warmup_loop acc ts warmup_init) =
     first_slot 0 (skip_startup (warmup_received ts))"
  using warmup_fresh [of warmup_init acc ts] by (simp add: warmup_init_def)

end
