(* ===== verification/Run_Control.thy ===== *)
theory Run_Control
  imports Senders_Props Warmup Nonce_Sources Dispatcher_Props
begin

text \<open>
  The rest of \<open>main\<close> in \<open>bin/phase3_run.rs\<close>: the checks before the run, the schedule pump that
  feeds the engine and the preparer, the wiring of the senders, the main loop with its balance
  watchdog, and the numbers of the final report. The RPC node and the clocks are parameters of a
  turn; thread and runtime construction is left out.
\<close>

section \<open>Before the run\<close>

definition check_balance :: "u64 option \<Rightarrow> u64 \<Rightarrow> build_error + u64" where
  "check_balance rpc_balance min_balance =
    (let start_balance = (case rpc_balance of Some b \<Rightarrow> b | None \<Rightarrow> 0)
     in if start_balance < min_balance then Inl (Failed ''wallet balance below min_balance_lamports'')
        else Inr start_balance)"

text \<open>The durable-nonce section: manager and slot-hash cache, or neither.\<close>

definition nonce_setup :: "nonce_config \<Rightarrow> bootstrap_error + (nonce_id \<times> pubkey \<times> hash) list \<Rightarrow>
    build_error + (nonce_manager \<times> slot_hash_cache) option" where
  "nonce_setup cfg boot =
    (if ncf_enabled cfg then
       (case boot of
          Inl _ \<Rightarrow> Inl (Failed ''bootstrap nonce manager from nonce-config.json'')
        | Inr nonces \<Rightarrow>
            if nonces = [] then Inl (Failed ''nonce.enabled=true but nonce config has 0 accounts'')
            else Inr (Some (nonce_manager_new nonces, cache_new 256)))
     else Inr None)"

section \<open>The schedule pump\<close>

record pump =
  pu_sched :: schedule
  pu_accumulated :: "(u64 \<times> u8) set"
  pu_snapshot :: "(u64 \<times> u8) set"
  pu_tx :: "schedule_entry chan"

definition pump_init :: "schedule \<Rightarrow> pump" where
  "pump_init sched = \<lparr> pu_sched = sched, pu_accumulated = {}, pu_snapshot = {}, pu_tx = [] \<rparr>"

definition offer_entry :: "schedule_entry accept \<Rightarrow> schedule_entry \<Rightarrow> pump \<Rightarrow> pump" where
  "offer_entry acc e p = p\<lparr>pu_accumulated := insert (se_slot e, se_tick e) (pu_accumulated p),
     pu_tx := fst (try_send acc (pu_tx p) e)\<rparr>"

text \<open>One chunk; \<open>None\<close> when the generator loop does not end.\<close>

definition pump_chunk :: "schedule_entry accept \<Rightarrow> pump \<Rightarrow> pump option" where
  "pump_chunk acc p = (case next_chunk (pu_sched p) of
     None \<Rightarrow> None
   | Some (out, sched') \<Rightarrow> Some (fold (offer_entry acc) out (p\<lparr>pu_sched := sched'\<rparr>)))"

fun pump_chunks :: "schedule_entry accept \<Rightarrow> nat \<Rightarrow> pump \<Rightarrow> pump option" where
  "pump_chunks acc 0 p = Some p"
| "pump_chunks acc (Suc n) p = Option.bind (pump_chunk acc p) (pump_chunks acc n)"

definition store_snapshot :: "pump \<Rightarrow> pump" where
  "store_snapshot p = p\<lparr>pu_snapshot := pu_accumulated p\<rparr>"

text \<open>\<open>(lead_slots / chunk_size).max(1) + 1\<close>; a zero chunk size is a panic of the thread.\<close>

definition preseed_chunks :: "u64 \<Rightarrow> u64 \<Rightarrow> nat option" where
  "preseed_chunks lead_slots chunk_size =
    (if chunk_size = 0 then None else Some (max (unat lead_slots div unat chunk_size) 1 + 1))"

fun pump_rounds :: "schedule_entry accept \<Rightarrow> nat \<Rightarrow> pump \<Rightarrow> pump option" where
  "pump_rounds acc 0 p = Some p"
| "pump_rounds acc (Suc n) p =
     Option.bind (map_option store_snapshot (pump_chunk acc p)) (pump_rounds acc n)"

text \<open>The thread after \<open>rounds\<close> turns of its loop.\<close>

definition schedule_pump :: "schedule_entry accept \<Rightarrow> u64 \<Rightarrow> u64 \<Rightarrow> nat \<Rightarrow> schedule \<Rightarrow> pump option" where
  "schedule_pump acc lead_slots chunk_size rounds sched =
    Option.bind (preseed_chunks lead_slots chunk_size) (\<lambda>n.
      Option.bind (map_option store_snapshot (pump_chunks acc n (pump_init sched))) (pump_rounds acc rounds))"

section \<open>The wiring\<close>

definition dispatcher_cfg :: "config \<Rightarrow> pubkey \<Rightarrow> (u8, tx_sender) hash_map \<Rightarrow> dispatcher_config" where
  "dispatcher_cfg cfg keypair senders_by_id = \<lparr> dc_senders = enabled_senders (cf_senders cfg),
     dc_senders_by_id = handles senders_by_id, dc_keypair = keypair, dc_tx_cfg = cf_tx cfg,
     dc_nonce_mode = ncf_enabled (cf_nonce cfg) \<rparr>"

definition preparer_cfg :: "config \<Rightarrow> pubkey \<Rightarrow> preparer_config" where
  "preparer_cfg cfg keypair = \<lparr> pf_keypair = keypair, pf_tx_cfg = cf_tx cfg,
     pf_senders = enabled_senders (cf_senders cfg),
     pf_shuffle_seed = (case shc_seed (cf_schedule cfg) of Some s \<Rightarrow> s | None \<Rightarrow> 0xDEADBEEF),
     pf_nonce_mode = ncf_enabled (cf_nonce cfg) \<rparr>"

text \<open>What has to succeed before the threads run: balance, nonces, senders.\<close>

record started =
  sr_start_balance :: u64
  sr_nonce :: "(nonce_manager \<times> slot_hash_cache) option"
  sr_senders :: "(u8, tx_sender) hash_map"

definition startup :: "(string \<Rightarrow> bool) \<Rightarrow> quic_lib \<Rightarrow> u64 option \<Rightarrow>
    bootstrap_error + (nonce_id \<times> pubkey \<times> hash) list \<Rightarrow> config \<Rightarrow> build_error + started" where
  "startup ip_ok ql rpc_balance boot cfg =
    bind_result (check_balance rpc_balance (rn_min_balance_lamports (cf_run cfg))) (\<lambda>balance.
    bind_result (nonce_setup (cf_nonce cfg) boot) (\<lambda>nonce.
    bind_result (build_senders ip_ok ql (cf_senders cfg)) (\<lambda>senders.
      Inr \<lparr> sr_start_balance = balance, sr_nonce = nonce, sr_senders = senders \<rparr>)))"

section \<open>The main loop\<close>

text \<open>A turn: the stop flag (Ctrl-C), the clock, the answers of the node.\<close>

record main_turn =
  mt_stop :: bool
  mt_now :: instant
  mt_balance :: "u64 option"
  mt_slot :: "u64 option"

record main_state =
  mn_next_summary :: instant
  mn_last_balance_check :: instant
  mn_current_slot :: u64
  mn_summaries :: nat
  mn_stop :: bool

definition SECOND :: duration where "SECOND = 1000000000"

definition main_init :: "instant \<Rightarrow> u64 \<Rightarrow> main_state" where
  "main_init start start_slot = \<lparr> mn_next_summary = start + 5 * SECOND, mn_last_balance_check = start,
     mn_current_slot = start_slot, mn_summaries = 0, mn_stop = False \<rparr>"

text \<open>One round of the loop body; \<open>True\<close> is a \<open>break\<close>.\<close>

definition main_step :: "instant \<Rightarrow> duration \<Rightarrow> u64 \<Rightarrow> main_turn \<Rightarrow> main_state \<Rightarrow> bool \<times> main_state" where
  "main_step start dur min_balance t m =
    (let now = mt_now t in
     if now \<ge> start + dur then (True, m)
     else
       let m1 = (if now \<ge> mn_next_summary m
             then m\<lparr>mn_next_summary := now + 5 * SECOND, mn_summaries := mn_summaries m + 1\<rparr> else m);
           due = saturating_duration_since now (mn_last_balance_check m1) \<ge> 30 * SECOND;
           m2 = (if due then m1\<lparr>mn_last_balance_check := now\<rparr> else m1);
           low = due \<and> (case mt_balance t of Some bal \<Rightarrow> bal < min_balance | None \<Rightarrow> False)
       in if low then (True, m2\<lparr>mn_stop := True\<rparr>)
          else if saturating_duration_since now (mn_last_balance_check m2) div SECOND mod 5 = 0
          then (False, (case mt_slot t of Some s \<Rightarrow> m2\<lparr>mn_current_slot := s\<rparr> | None \<Rightarrow> m2))
          else (False, m2))"

fun main_loop :: "instant \<Rightarrow> duration \<Rightarrow> u64 \<Rightarrow> main_turn list \<Rightarrow> main_state \<Rightarrow> main_state" where
  "main_loop start dur min_balance [] m = m"
| "main_loop start dur min_balance (t # ts) m =
    (if mt_stop t \<or> mn_stop m then m\<lparr>mn_stop := True\<rparr>
     else (case main_step start dur min_balance t m of
       (True, m') \<Rightarrow> m'\<lparr>mn_stop := True\<rparr>
     | (False, m') \<Rightarrow> main_loop start dur min_balance ts m'))"

section \<open>The final report\<close>

definition triggers_lost :: "active_window_summary \<Rightarrow> u64" where
  "triggers_lost a = saturating_sub (sm_triggers_attempted a) (sm_triggers_landed a)"

definition losing_siblings :: "bool \<Rightarrow> active_window_summary \<Rightarrow> u64" where
  "losing_siblings nonce_enabled a = (if nonce_enabled then sm_triggers_landed a else 0)"

definition lost_no_land :: "bool \<Rightarrow> active_window_summary \<Rightarrow> u64" where
  "lost_no_land nonce_enabled a =
    saturating_sub (sm_attempts_unknown_pending a) (losing_siblings nonce_enabled a)"

end
