(* ===== verification/Run_Control_Props.thy ===== *)
theory Run_Control_Props
  imports Run_Control
begin

text \<open>
  Properties of the control part of \<open>phase3_run.rs\<close>: the schedule pump gives the engine and the
  preparer the same schedule, a successful startup wires the dispatcher, and the main loop ends.
\<close>

section \<open>The keys of a chunk\<close>

abbreviation se_key :: "schedule_entry \<Rightarrow> u64 \<times> u8" where "se_key e \<equiv> (se_slot e, se_tick e)"

definition chunk_entries :: "u64 \<Rightarrow> (nat \<times> u8 list) list \<Rightarrow> schedule_entry list" where
  "chunk_entries b zs = concat (map (\<lambda>(o', ts). map (\<lambda>t. \<lparr> se_slot = b + of_nat o', se_tick = t \<rparr>) ts) zs)"

lemma next_chunk_shape:
  assumes "fair_rng (sch_rng s)"
  shows "\<exists>ticks pos. next_chunk s = Some (chunk_entries (sch_next_slot s) (zip [0..<unat (sch_chunk_size s)] ticks),
      s\<lparr>sch_pos := pos, sch_next_slot := saturating_add (sch_next_slot s) (sch_chunk_size s)\<rparr>) \<and>
    length ticks = unat (sch_chunk_size s) \<and>
    (\<forall>ts \<in> set ticks. picked_ok (min (unat (sch_triggers_per_slot s)) 64) ts)"
proof -
  obtain ticks pos where "length ticks = unat (sch_chunk_size s)"
    "\<forall>ts \<in> set ticks. picked_ok (min (unat (sch_triggers_per_slot s)) 64) ts"
    "gen_slots (sch_rng s) (unat (sch_triggers_per_slot s)) (sch_next_slot s) [0..<unat (sch_chunk_size s)] (sch_pos s) =
      Some (chunk_entries (sch_next_slot s) (zip [0..<unat (sch_chunk_size s)] ticks), pos)"
    using gen_slots_ends [OF assms, of "[0..<unat (sch_chunk_size s)]" "unat (sch_triggers_per_slot s)"
        "sch_next_slot s" "sch_pos s"] unfolding chunk_entries_def by auto
  then show ?thesis by (intro exI [of _ ticks] exI [of _ pos]) (simp add: next_chunk_def)
qed

lemma unat_offset: "unat b + o' < 2 ^ 64 \<Longrightarrow> unat (b + of_nat o' :: u64) = unat b + o'"
  by (simp add: unat_word_ariths unat_of_nat)

lemma chunk_keys_set:
  "set (map se_key (chunk_entries b zs)) = {(b + of_nat o', t) | o' ts t. (o', ts) \<in> set zs \<and> t \<in> set ts}"
  by (force simp: chunk_entries_def)

lemma chunk_keys_distinct:
  "distinct (map fst zs) \<Longrightarrow> \<forall>(o', ts) \<in> set zs. distinct ts \<and> unat b + o' < 2 ^ 64 \<Longrightarrow>
    distinct (map se_key (chunk_entries b zs))"
proof (induction zs)
  case (Cons z zs)
  obtain o' ts where z: "z = (o', ts)" by (cases z)
  have "distinct (map (\<lambda>t. (b + of_nat o', t)) ts)" using Cons.prems z by (simp add: distinct_map inj_on_def)
  moreover have "(b + of_nat o', t) \<notin> set (map se_key (chunk_entries b zs))" for t
  proof
    assume "(b + of_nat o', t) \<in> set (map se_key (chunk_entries b zs))"
    then obtain o2 ts2 where o2: "(o2, ts2) \<in> set zs" "b + of_nat o' = b + (of_nat o2 :: u64)"
      unfolding chunk_keys_set by auto
    then have "unat b + o' = unat b + o2" using Cons.prems(2) z unat_offset by (metis (no_types, lifting) case_prodD list.set_intros(1,2))
    moreover have "o2 \<in> fst ` set zs" using o2(1) by force
    ultimately show False using Cons.prems(1) z by simp
  qed
  moreover have "distinct (map se_key (chunk_entries b zs))" using Cons by simp
  moreover have "map se_key (chunk_entries b (z # zs)) =
      map (\<lambda>t. (b + of_nat o', t)) ts @ map se_key (chunk_entries b zs)"
    by (simp add: chunk_entries_def z)
  ultimately show ?case by (simp only: distinct_append) (auto simp del: map_map)
qed (simp add: chunk_entries_def)

section \<open>The pump\<close>

lemma fold_offer:
  "attempts (pu_tx (fold (offer_entry acc) es p)) = attempts (pu_tx p) @ es \<and>
   pu_accumulated (fold (offer_entry acc) es p) = se_key ` set es \<union> pu_accumulated p \<and>
   pu_sched (fold (offer_entry acc) es p) = pu_sched p \<and> pu_snapshot (fold (offer_entry acc) es p) = pu_snapshot p"
  by (induction es arbitrary: p) (auto simp: offer_entry_def)

text \<open>After the slots up to \<open>hi\<close> (exclusive), with \<open>m\<close> ticks each.\<close>

definition pump_ok :: "nat \<Rightarrow> nat \<Rightarrow> nat \<Rightarrow> pump \<Rightarrow> bool" where
  "pump_ok start m hi p \<longleftrightarrow> fair_rng (sch_rng (pu_sched p)) \<and> unat (sch_next_slot (pu_sched p)) = hi \<and> start \<le> hi \<and>
    min (unat (sch_triggers_per_slot (pu_sched p))) 64 = m \<and>
    pu_accumulated p = se_key ` set (attempts (pu_tx p)) \<and> distinct (map se_key (attempts (pu_tx p))) \<and>
    (\<forall>k \<in> pu_accumulated p. start \<le> unat (fst k) \<and> unat (fst k) < hi) \<and>
    (\<forall>s \<in> {start..<hi}. card {t. (of_nat s, t) \<in> pu_accumulated p} = m)"

lemma pump_chunk_ok:
  assumes ok: "pump_ok start m hi p" and c: "c = unat (sch_chunk_size (pu_sched p))" and b: "hi + c < 2 ^ 64"
  shows "\<exists>p'. pump_chunk acc p = Some p' \<and> pump_ok start m (hi + c) p' \<and>
    sch_chunk_size (pu_sched p') = sch_chunk_size (pu_sched p)"
proof -
  let ?s = "pu_sched p" let ?b = "sch_next_slot ?s"
  have hi: "unat ?b = hi" and fair: "fair_rng (sch_rng ?s)" and m: "min (unat (sch_triggers_per_slot ?s)) 64 = m"
    using ok by (simp_all add: pump_ok_def)
  obtain ticks pos where t: "next_chunk ?s = Some (chunk_entries ?b (zip [0..<c] ticks),
      ?s\<lparr>sch_pos := pos, sch_next_slot := saturating_add ?b (sch_chunk_size ?s)\<rparr>)"
    "length ticks = c" "\<forall>ts \<in> set ticks. picked_ok m ts"
    using next_chunk_shape [OF fair] c m by auto
  let ?es = "chunk_entries ?b (zip [0..<c] ticks)"
  let ?p1 = "p\<lparr>pu_sched := ?s\<lparr>sch_pos := pos, sch_next_slot := saturating_add ?b (sch_chunk_size ?s)\<rparr>\<rparr>"
  let ?p = "fold (offer_entry acc) ?es ?p1"
  have zips: "(o', ts) \<in> set (zip [0..<c] ticks) \<longleftrightarrow> o' < c \<and> ts = ticks ! o'" for o' ts
    using t(2) by (auto simp: set_zip intro: exI [of _ o'])
  have keys: "se_key ` set ?es = {(?b + of_nat o', tk) | o' tk. o' < c \<and> tk \<in> set (ticks ! o')}"
    using chunk_keys_set [of ?b "zip [0..<c] ticks"] by (auto simp: zips)
  have off: "unat (?b + of_nat o') = hi + o'" if "o' < c" for o' using that b hi unat_offset by simp
  have dis: "distinct (map se_key ?es)"
  proof (rule chunk_keys_distinct)
    show "distinct (map fst (zip [0..<c] ticks))" using t(2) by simp
    show "\<forall>(o', ts) \<in> set (zip [0..<c] ticks). distinct ts \<and> unat ?b + o' < 2 ^ 64"
    proof clarify
      fix o' ts assume "(o', ts) \<in> set (zip [0..<c] ticks)"
      then have "o' < c" "ts = ticks ! o'" unfolding zips by simp_all
      then show "distinct ts \<and> unat ?b + o' < 2 ^ 64" using t(2,3) b hi by (simp add: picked_ok_def)
    qed
  qed
  have f: "attempts (pu_tx ?p) = attempts (pu_tx p) @ ?es" "pu_accumulated ?p = se_key ` set ?es \<union> pu_accumulated p"
    "pu_sched ?p = pu_sched ?p1" using fold_offer [of acc ?es ?p1] by simp_all
  have old: "(of_nat s, x) \<notin> se_key ` set ?es" if "s < hi" for s x
    using that off b unfolding keys by (auto simp: unat_of_nat dest!: arg_cong [where f = unat])
  have new: "(?b + of_nat o', x) \<notin> pu_accumulated p" if "o' < c" for o' x
    using ok off [OF that] unfolding pump_ok_def by (metis fst_conv not_add_less1)
  have "unat (saturating_add ?b (sch_chunk_size ?s)) = hi + c"
    using b hi c by (simp add: unat_saturating_add u64_max_def)
  moreover have "card {x. (of_nat s, x) \<in> pu_accumulated ?p} = m" if s: "s \<in> {start..<hi + c}" for s
  proof (cases "s < hi")
    case True
    then show ?thesis using ok s old unfolding f(2) pump_ok_def by auto
  next
    case False
    then obtain o' where o': "s = hi + o'" "o' < c" using s by (metis add_less_cancel_left atLeastLessThan_iff le_Suc_ex not_less)
    have sl: "(of_nat s :: u64) = ?b + of_nat o'" unfolding o'(1) hi [symmetric] by simp
    have inj: "o2 = o'" if "?b + of_nat o2 = ?b + (of_nat o' :: u64)" "o2 < c" for o2
      using arg_cong [OF that(1), of unat] off [OF that(2)] off [OF o'(2)] by simp
    have "{x. (of_nat s, x) \<in> pu_accumulated ?p} = set (ticks ! o')"
      using new [OF o'(2)] inj o'(2) unfolding f(2) keys sl by auto
    moreover have "ticks ! o' \<in> set ticks" using o'(2) t(2) by simp
    ultimately show ?thesis using t(3) by (auto simp: picked_ok_def distinct_card)
  qed
  moreover have "\<forall>k \<in> pu_accumulated ?p. start \<le> unat (fst k) \<and> unat (fst k) < hi + c"
  proof
    fix k assume "k \<in> pu_accumulated ?p"
    then consider (old) "k \<in> pu_accumulated p" | (new) o' tk where "k = (?b + of_nat o', tk)" "o' < c"
      unfolding f(2) keys by blast
    then show "start \<le> unat (fst k) \<and> unat (fst k) < hi + c"
    proof cases
      case old
      have "start \<le> unat (fst k) \<and> unat (fst k) < hi" using ok old unfolding pump_ok_def by blast
      then show ?thesis by linarith
    next
      case new
      have "start \<le> hi" using ok by (simp add: pump_ok_def)
      then show ?thesis using new off [OF new(2)] by simp
    qed
  qed
  moreover have "distinct (map se_key (attempts (pu_tx ?p)))"
  proof -
    have "pu_accumulated p = se_key ` set (attempts (pu_tx p))" using ok by (simp add: pump_ok_def)
    moreover have "se_key ` set ?es \<inter> pu_accumulated p = {}"
      using new unfolding keys by blast
    ultimately have "se_key ` set ?es \<inter> se_key ` set (attempts (pu_tx p)) = {}" by simp
    then show ?thesis using dis ok unfolding f(1) pump_ok_def by (simp add: Int_commute)
  qed
  moreover have "pu_accumulated ?p = se_key ` set (attempts (pu_tx ?p))"
    using ok unfolding f(1,2) pump_ok_def by (simp add: image_Un Un_commute)
  ultimately have "pump_ok start m (hi + c) ?p"
    using ok unfolding pump_ok_def f(3) by (simp add: Un_commute)
  moreover have "pump_chunk acc p = Some ?p" using t(1) by (simp add: pump_chunk_def)
  ultimately show ?thesis by (simp add: f(3))
qed

lemma pump_chunks_ok:
  "pump_ok start m hi p \<Longrightarrow> c = unat (sch_chunk_size (pu_sched p)) \<Longrightarrow> hi + c * n < 2 ^ 64 \<Longrightarrow>
    \<exists>p'. pump_chunks acc n p = Some p' \<and> pump_ok start m (hi + c * n) p' \<and>
      sch_chunk_size (pu_sched p') = sch_chunk_size (pu_sched p)"
proof (induction n arbitrary: p hi)
  case (Suc n)
  obtain p1 where p1: "pump_chunk acc p = Some p1" "pump_ok start m (hi + c) p1"
    "sch_chunk_size (pu_sched p1) = sch_chunk_size (pu_sched p)"
    using pump_chunk_ok [OF Suc.prems(1,2)] Suc.prems(3) by auto
  from Suc.IH [OF p1(2)] obtain p' where "pump_chunks acc n p1 = Some p'" "pump_ok start m (hi + c + c * n) p'"
    "sch_chunk_size (pu_sched p') = sch_chunk_size (pu_sched p1)"
    using Suc.prems(2,3) p1(3) by (auto simp: algebra_simps)
  then show ?case using p1 by (simp add: algebra_simps)
qed simp

lemma store_simps [simp]:
  "pu_snapshot (store_snapshot p) = pu_accumulated p" "pu_accumulated (store_snapshot p) = pu_accumulated p"
  "pu_sched (store_snapshot p) = pu_sched p" "pu_tx (store_snapshot p) = pu_tx p"
  by (simp_all add: store_snapshot_def)

lemma pump_ok_store: "pump_ok start m hi (store_snapshot p) = pump_ok start m hi p"
  by (simp add: pump_ok_def)

lemma pump_rounds_ok:
  "pump_ok start m hi p \<Longrightarrow> pu_snapshot p = pu_accumulated p \<Longrightarrow> c = unat (sch_chunk_size (pu_sched p)) \<Longrightarrow>
    hi + c * n < 2 ^ 64 \<Longrightarrow>
    \<exists>p'. pump_rounds acc n p = Some p' \<and> pump_ok start m (hi + c * n) p' \<and> pu_snapshot p' = pu_accumulated p'"
proof (induction n arbitrary: p hi)
  case (Suc n)
  obtain p1 where p1: "pump_chunk acc p = Some p1" "pump_ok start m (hi + c) p1"
    "sch_chunk_size (pu_sched p1) = sch_chunk_size (pu_sched p)"
    using pump_chunk_ok [OF Suc.prems(1,3)] Suc.prems(4) by auto
  have "\<exists>p'. pump_rounds acc n (store_snapshot p1) = Some p' \<and> pump_ok start m (hi + c + c * n) p' \<and>
      pu_snapshot p' = pu_accumulated p'"
    by (rule Suc.IH) (use p1 Suc.prems(3,4) in \<open>simp_all add: pump_ok_store algebra_simps\<close>)
  then show ?case using p1(1) by (auto simp: algebra_simps)
qed simp

lemma pump_init_ok:
  "fair_rng (sch_rng s) \<Longrightarrow>
    pump_ok (unat (sch_next_slot s)) (min (unat (sch_triggers_per_slot s)) 64) (unat (sch_next_slot s)) (pump_init s)"
  by (simp add: pump_ok_def pump_init_def)

lemma pump_ok_slots:
  assumes "pump_ok lo m hi p" "pu_snapshot p = pu_accumulated p"
  shows "fst ` pu_snapshot p \<subseteq> of_nat ` {lo..<hi}"
proof
  fix x assume "x \<in> fst ` pu_snapshot p"
  then have "lo \<le> unat x" "unat x < hi" using assms unfolding pump_ok_def by auto
  then show "x \<in> of_nat ` {lo..<hi}" by (intro image_eqI [of _ _ "unat x"]) simp_all
qed

lemma preseed_covers_lead:
  fixes lead chunk :: u64
  assumes "chunk \<noteq> 0" "n = max (unat lead div unat chunk) 1 + 1 + rounds"
  shows "unat lead < unat chunk * n"
proof -
  have pos: "0 < unat chunk" using assms(1) by (simp add: unat_gt_0)
  have "unat lead < unat chunk * (unat lead div unat chunk + 1)"
    using dividend_less_times_div [OF pos, of "unat lead"] by (simp add: algebra_simps)
  also have "\<dots> \<le> unat chunk * n" using assms(2) by (intro mult_le_mono2) simp
  finally show ?thesis .
qed

text \<open>C28: The schedule pump gives the trigger engine and the preparer one schedule: after any number of
  rounds the snapshot of the engine holds exactly the entries offered to the preparer, no entry is
  offered twice, and each slot of the contiguous range covered so far, which starts at the slot of
  the start and is longer than the configured lead, has the configured number of ticks. The
  generator loops never hang the pump.\<close>
theorem pump_feeds_both:
  assumes "fair_rng (seeded (case seed of Some s \<Rightarrow> s | None \<Rightarrow> time_seed))" "chunk \<noteq> 0"
    "n = max (unat lead div unat chunk) 1 + 1 + rounds" "unat start + unat chunk * n < 2 ^ 64"
  shows "\<exists>p. schedule_pump acc lead chunk rounds (schedule_new seeded time_seed seed start chunk tps) = Some p \<and>
    pu_snapshot p = se_key ` set (attempts (pu_tx p)) \<and> distinct (map se_key (attempts (pu_tx p))) \<and>
    fst ` pu_snapshot p \<subseteq> of_nat ` {unat start..<unat start + unat chunk * n} \<and> unat lead < unat chunk * n \<and>
    list_all (\<lambda>s. card {t. (of_nat s, t) \<in> pu_snapshot p} = min (unat (max tps 1)) 64)
      [unat start..<unat start + unat chunk * n]"
proof -
  let ?s = "schedule_new seeded time_seed seed start chunk tps" and ?n = "max (unat lead div unat chunk) 1 + 1"
  let ?m = "min (unat (max tps 1)) 64" and ?c = "unat chunk"
  have "0 < unat chunk" using assms(2) by (simp add: unat_gt_0)
  then have "1 \<le> chunk" by (simp add: word_le_nat_alt)
  then have c: "max chunk 1 = chunk" by (rule max_absorb1)
  have s: "sch_next_slot ?s = start" "sch_chunk_size ?s = chunk" "sch_triggers_per_slot ?s = max tps 1"
    "fair_rng (sch_rng ?s)"
    using assms(1) by (simp_all add: schedule_new_def c)
  have i: "pump_ok (unat start) ?m (unat start) (pump_init ?s)" using pump_init_ok [OF s(4)] unfolding s .
  have ci: "?c = unat (sch_chunk_size (pu_sched (pump_init ?s)))" by (simp add: pump_init_def s)
  have "unat start + ?c * ?n \<le> unat start + ?c * n" using assms(3) by simp
  then have b: "unat start + ?c * ?n < 2 ^ 64" using assms(4) by linarith
  from pump_chunks_ok [OF i ci b, of acc] obtain p1 where p1: "pump_chunks acc ?n (pump_init ?s) = Some p1"
    "pump_ok (unat start) ?m (unat start + ?c * ?n) p1"
    "sch_chunk_size (pu_sched p1) = sch_chunk_size (pu_sched (pump_init ?s))" by blast
  have p3: "sch_chunk_size (pu_sched p1) = chunk" unfolding p1(3) by (simp only: pump_init_def s pump.select_convs)
  have e: "unat start + ?c * ?n + ?c * rounds = unat start + ?c * n" using assms(3) by (simp add: algebra_simps)
  have r1: "pump_ok (unat start) ?m (unat start + ?c * ?n) (store_snapshot p1)"
    unfolding pump_ok_store by (rule p1(2))
  have r2: "?c = unat (sch_chunk_size (pu_sched (store_snapshot p1)))" by (simp only: store_simps p3)
  have r3: "unat start + ?c * ?n + ?c * rounds < 2 ^ 64" unfolding e by (rule assms(4))
  have r0: "pu_snapshot (store_snapshot p1) = pu_accumulated (store_snapshot p1)" by (simp only: store_simps)
  have "\<exists>p. pump_rounds acc rounds (store_snapshot p1) = Some p \<and>
      pump_ok (unat start) ?m (unat start + ?c * ?n + ?c * rounds) p \<and> pu_snapshot p = pu_accumulated p"
    by (rule pump_rounds_ok [OF r1 r0 r2 r3])
  then obtain p where p: "pump_rounds acc rounds (store_snapshot p1) = Some p"
    "pump_ok (unat start) ?m (unat start + ?c * n) p" "pu_snapshot p = pu_accumulated p"
    unfolding e by blast
  have "schedule_pump acc lead chunk rounds ?s = Some p"
    using p1(1) p(1) assms(2) by (simp add: schedule_pump_def preseed_chunks_def)
  moreover note pump_ok_slots [OF p(2,3)]
  moreover have "unat lead < ?c * n" by (rule preseed_covers_lead [OF assms(2,3)])
  ultimately show ?thesis using p(2,3) unfolding pump_ok_def list_all_iff by auto
qed

lemma pump_feeds_both_witness:
  "\<exists>p. schedule_pump (\<lambda>_ _. True) 100 30 0 (schedule_new (\<lambda>_. cycling_rng) 0 None 5 30 2) = Some p \<and>
    pu_snapshot p = se_key ` set (attempts (pu_tx p)) \<and> distinct (map se_key (attempts (pu_tx p)))"
proof -
  have "fair_rng ((\<lambda>_. cycling_rng) (case None of Some s \<Rightarrow> s | None \<Rightarrow> (0 :: u64)))" by (simp add: cycling_rng_fair)
  moreover have "(30 :: u64) \<noteq> 0" "4 = max (unat (100 :: u64) div unat (30 :: u64)) 1 + 1 + 0"
    "unat (5 :: u64) + unat (30 :: u64) * 4 < 2 ^ 64" by simp_all
  ultimately show ?thesis
    using pump_feeds_both [where seeded = "\<lambda>_. cycling_rng" and time_seed = 0 and seed = None and chunk = 30 and n = 4
        and lead = 100 and rounds = 0 and start = 5 and acc = "\<lambda>_ _. True" and tps = 2] by blast
qed

text \<open>A zero \<open>chunk_size_slots\<close> panics the pump thread, although \<open>Schedule::new\<close> guards against it:
  neither the engine nor the preparer ever gets an entry.\<close>

lemma pump_zero_chunk: "schedule_pump acc lead 0 rounds sched = None"
  by (simp add: schedule_pump_def preseed_chunks_def)

section \<open>Startup\<close>

lemma insert_senders_dom:
  "insert_senders ip_ok ql scs m = Inr m' \<Longrightarrow> dom (map_of m') = sd_id ` set scs \<union> dom (map_of m)"
  by (induction scs arbitrary: m) (auto simp: update_conv' split: sum.splits)

lemma build_senders_wired:
  assumes "build_senders ip_ok ql (cf_senders cfg) = Inr m"
  shows "wired (dispatcher_cfg cfg kp m)" "enabled_senders (cf_senders cfg) \<noteq> []"
proof -
  have i: "insert_senders ip_ok ql (enabled_senders (cf_senders cfg)) [] = Inr m"
    and "enabled_senders (cf_senders cfg) \<noteq> []"
    using assms by (simp_all add: build_senders_def split: if_splits)
  then show "enabled_senders (cf_senders cfg) \<noteq> []" by simp
  have "dom (map_of (handles m)) = dom (map_of m)" by (auto simp: dom_def map_of_handles)
  then show "wired (dispatcher_cfg cfg kp m)"
    using insert_senders_dom [OF i] by (simp add: wired_def dispatcher_cfg_def)
qed

lemma new_manager_ready: "ready_count (nonce_manager_new ns) = length ns"
  by (simp add: ready_count_def count_in_state_def nonce_manager_new_def filter_True split_beta)

text \<open>C27: A run only starts with the configured balance, at least one enabled sender, and, in nonce
  mode, at least one nonce that is ready; then every enabled sender has a handle at the
  dispatcher, and the preparer signs for the senders the dispatcher sends to.\<close>
theorem startup_establishes:
  assumes "startup ip_ok ql rpc_balance boot cfg = Inr st"
  shows "wired (dispatcher_cfg cfg kp (sr_senders st)) \<and>
    dc_senders (dispatcher_cfg cfg kp (sr_senders st)) = pf_senders (preparer_cfg cfg kp) \<and>
    pf_senders (preparer_cfg cfg kp) \<noteq> [] \<and> rn_min_balance_lamports (cf_run cfg) \<le> sr_start_balance st \<and>
    (case sr_nonce st of Some (mgr, _) \<Rightarrow> dc_nonce_mode (dispatcher_cfg cfg kp (sr_senders st)) \<and> 0 < ready_count mgr
     | None \<Rightarrow> \<not> dc_nonce_mode (dispatcher_cfg cfg kp (sr_senders st)))"
proof -
  obtain b n m where r: "check_balance rpc_balance (rn_min_balance_lamports (cf_run cfg)) = Inr b"
    "nonce_setup (cf_nonce cfg) boot = Inr n" "build_senders ip_ok ql (cf_senders cfg) = Inr m"
    "st = \<lparr> sr_start_balance = b, sr_nonce = n, sr_senders = m \<rparr>"
    using assms by (auto simp: startup_def bind_result_Inr)
  have "rn_min_balance_lamports (cf_run cfg) \<le> b" using r(1) by (auto simp: check_balance_def Let_def split: if_splits)
  moreover have "case n of Some (mgr, _) \<Rightarrow> ncf_enabled (cf_nonce cfg) \<and> 0 < ready_count mgr
      | None \<Rightarrow> \<not> ncf_enabled (cf_nonce cfg)"
    using r(2) by (auto simp: nonce_setup_def new_manager_ready split: if_splits sum.splits)
  ultimately show ?thesis using build_senders_wired(1) [OF r(3), where kp = kp] build_senders_wired(2) [OF r(3)] r(4)
    by (auto simp: dispatcher_cfg_def preparer_cfg_def split: option.splits)
qed

definition demo_cfg :: config where
  "demo_cfg = config_of (rpc_config_of [] None) \<lparr> wc_keypair_path = [] \<rparr> (sources_config_of [] [] None None)
     (supervisor_config_of None None) (schedule_config_of None None None) (tx_config_of None None None)
     [demo_config 4 Helius 100, demo_config 7 Syncro 250] (run_config_of [] (Some 10) None [] None)
     (Some (nonce_config_of (Some True) None None None None))"

lemma startup_establishes_witness:
  "\<exists>st. startup (\<lambda>_. True) demo_ql (Some 50) (Inr [(1, 2, 3)]) demo_cfg = Inr st \<and>
     wired (dispatcher_cfg demo_cfg 1 (sr_senders st))"
proof -
  have "\<exists>st. startup (\<lambda>_. True) demo_ql (Some 50) (Inr [(1, 2, 3)]) demo_cfg = Inr st"
    by (simp add: startup_def bind_result_Inr demo_cfg_def config_of_def or_default_def run_config_of_def
        check_balance_def nonce_setup_def nonce_config_of_def build_senders_def enabled_senders_def make_sender_def Let_def)
  then obtain st where st: "startup (\<lambda>_. True) demo_ql (Some 50) (Inr [(1, 2, 3)]) demo_cfg = Inr st" ..
  from startup_establishes [OF st, where kp = 1] st show ?thesis by blast
qed

section \<open>The main loop\<close>

lemma main_step_time_up: "start + dur \<le> mt_now t \<Longrightarrow> fst (main_step start dur mb t m)"
  by (simp add: main_step_def Let_def)

lemma main_step_watch:
  assumes "\<not> fst (main_step start dur mb t m)" "mt_balance t = Some bal" "bal < mb"
  shows "mn_last_balance_check (snd (main_step start dur mb t m)) = mn_last_balance_check m"
    "mt_now t - mn_last_balance_check m < 30 * SECOND"
  using assms by (auto simp: main_step_def Let_def saturating_duration_since_def split: if_splits option.splits)

lemma main_loop_time:
  "list_ex (\<lambda>t. mt_stop t \<or> start + dur \<le> mt_now t) ts \<Longrightarrow> mn_stop (main_loop start dur mb ts m)"
proof (induction ts arbitrary: m)
  case (Cons t ts)
  then show ?case
    using main_step_time_up [of start dur t mb m] by (auto split: prod.splits bool.splits)
qed simp

lemma main_loop_balance:
  "list_all (\<lambda>t. case mt_balance t of Some b \<Rightarrow> b < mb | None \<Rightarrow> False) ts \<Longrightarrow>
    list_ex (\<lambda>t. mn_last_balance_check m + 30 * SECOND \<le> mt_now t) ts \<Longrightarrow>
    mn_stop (main_loop start dur mb ts m)"
proof (induction ts arbitrary: m)
  case (Cons t ts)
  obtain b where b: "mt_balance t = Some b" "b < mb" using Cons.prems(1) by (auto split: option.splits)
  obtain x m' where s: "main_step start dur mb t m = (x, m')" by (cases "main_step start dur mb t m")
  show ?case
  proof (cases x)
    case True
    then show ?thesis using s by simp
  next
    case False
    then have "mn_last_balance_check m' = mn_last_balance_check m" "mt_now t - mn_last_balance_check m < 30 * SECOND"
      using main_step_watch [where t = t and m = m and start = start and dur = dur, OF _ b] s by simp_all
    then have "mn_stop (main_loop start dur mb ts m')" using Cons by (intro Cons.IH) auto
    then show ?thesis using s False by simp
  qed
qed simp

text \<open>C29: The main loop ends and stops the threads: at the latest at the first turn after the configured
  duration or after Ctrl-C, and, while the node reports a balance below the minimum, at the
  latest at the first turn 30 seconds after the last check.\<close>
theorem main_loop_ends:
  assumes "list_ex (\<lambda>t. mt_stop t \<or> start + dur \<le> mt_now t) ts \<or>
    list_all (\<lambda>t. case mt_balance t of Some b \<Rightarrow> b < mb | None \<Rightarrow> False) ts \<and>
    list_ex (\<lambda>t. mn_last_balance_check m + 30 * SECOND \<le> mt_now t) ts"
  shows "mn_stop (main_loop start dur mb ts m)"
  using assms main_loop_time main_loop_balance by blast

lemma main_loop_ends_witness:
  "mn_stop (main_loop 0 (3600 * SECOND) 10
     [\<lparr> mt_stop = False, mt_now = SECOND, mt_balance = Some 3, mt_slot = None \<rparr>,
      \<lparr> mt_stop = False, mt_now = 30 * SECOND, mt_balance = Some 3, mt_slot = Some 9 \<rparr>] (main_init 0 5))"
  by (rule main_loop_ends) (simp add: main_init_def SECOND_def)

section \<open>The report\<close>

text \<open>\<open>losing_siblings\<close> assumes two senders: when three senders race for one trigger and one lands, a
  send of the landed trigger is reported as lost although no trigger was lost.\<close>

lemma lost_no_land_three_senders:
  "triggers_lost a = 0 \<and> lost_no_land True a = 1"
  if "sm_triggers_attempted a = 1" "sm_triggers_landed a = 1" "sm_attempts_unknown_pending a = 2"
  using that by (simp add: triggers_lost_def lost_no_land_def losing_siblings_def saturating_sub_def)

text \<open>The slot is refreshed on every round within the first of every five seconds after a balance
  check, not once per five seconds: two rounds 200 ms apart both ask the node.\<close>

lemma slot_polled_twice:
  "mn_current_slot (main_loop 0 (3600 * SECOND) 0
     [\<lparr> mt_stop = False, mt_now = 5 * SECOND, mt_balance = None, mt_slot = Some 7 \<rparr>,
      \<lparr> mt_stop = False, mt_now = 5 * SECOND + 200000000, mt_balance = None, mt_slot = Some 8 \<rparr>] (main_init 0 5)) = 8"
  by (simp add: main_step_def main_init_def SECOND_def saturating_duration_since_def Let_def)

end
