(* ===== verification/Drop_Counters.thy ===== *)
theory Drop_Counters
  imports Prelude
begin

text \<open>
  \<open>crates/entry-sources/src/counters.rs\<close>: the counters the two entry sources share, and the list of
  those that grew between two snapshots. A snapshot reads every counter, so it is the counters
  themselves; \<open>fetch_add\<close> wraps.
\<close>

record drop_counters =
  dk_ys_channel_full :: u64
  dk_ys_decode_error :: u64
  dk_ys_reconnects :: u64
  dk_ss_udp_channel_full :: u64
  dk_ss_obs_channel_full :: u64
  dk_ss_shred_parse_error :: u64
  dk_ss_deshred_error :: u64
  dk_ss_entry_decode_error :: u64
  dk_ss_fec_set_timeout :: u64

definition drop_counters_default :: drop_counters where
  "drop_counters_default = \<lparr> dk_ys_channel_full = 0, dk_ys_decode_error = 0, dk_ys_reconnects = 0,
     dk_ss_udp_channel_full = 0, dk_ss_obs_channel_full = 0, dk_ss_shred_parse_error = 0,
     dk_ss_deshred_error = 0, dk_ss_entry_decode_error = 0, dk_ss_fec_set_timeout = 0 \<rparr>"

definition delta_of :: "string \<Rightarrow> u64 \<Rightarrow> u64 \<Rightarrow> (string \<times> u64) list" where
  "delta_of name cur prev = (let delta = saturating_sub cur prev in if 0 < delta then [(name, delta)] else [])"

definition deltas_vs :: "drop_counters \<Rightarrow> drop_counters \<Rightarrow> (string \<times> u64) list" where
  "deltas_vs cur prev =
     delta_of ''ys_channel_full'' (dk_ys_channel_full cur) (dk_ys_channel_full prev) @
     delta_of ''ys_decode_error'' (dk_ys_decode_error cur) (dk_ys_decode_error prev) @
     delta_of ''ys_reconnects'' (dk_ys_reconnects cur) (dk_ys_reconnects prev) @
     delta_of ''ss_udp_channel_full'' (dk_ss_udp_channel_full cur) (dk_ss_udp_channel_full prev) @
     delta_of ''ss_obs_channel_full'' (dk_ss_obs_channel_full cur) (dk_ss_obs_channel_full prev) @
     delta_of ''ss_shred_parse_error'' (dk_ss_shred_parse_error cur) (dk_ss_shred_parse_error prev) @
     delta_of ''ss_deshred_error'' (dk_ss_deshred_error cur) (dk_ss_deshred_error prev) @
     delta_of ''ss_entry_decode_error'' (dk_ss_entry_decode_error cur) (dk_ss_entry_decode_error prev) @
     delta_of ''ss_fec_set_timeout'' (dk_ss_fec_set_timeout cur) (dk_ss_fec_set_timeout prev)"

section \<open>What a list of deltas says\<close>

text \<open>The counter of a name, and the delta of a name in a list (0 when it is not listed).\<close>

definition counter_named :: "string \<Rightarrow> drop_counters \<Rightarrow> u64" where
  "counter_named n c =
    (if n = ''ys_channel_full'' then dk_ys_channel_full c
     else if n = ''ys_decode_error'' then dk_ys_decode_error c
     else if n = ''ys_reconnects'' then dk_ys_reconnects c
     else if n = ''ss_udp_channel_full'' then dk_ss_udp_channel_full c
     else if n = ''ss_obs_channel_full'' then dk_ss_obs_channel_full c
     else if n = ''ss_shred_parse_error'' then dk_ss_shred_parse_error c
     else if n = ''ss_deshred_error'' then dk_ss_deshred_error c
     else if n = ''ss_entry_decode_error'' then dk_ss_entry_decode_error c
     else if n = ''ss_fec_set_timeout'' then dk_ss_fec_set_timeout c
     else 0)"

definition delta_named :: "string \<Rightarrow> (string \<times> u64) list \<Rightarrow> u64" where
  "delta_named n ds = (case map_of ds n of Some d \<Rightarrow> d | None \<Rightarrow> 0)"

lemma delta_named_append:
  "delta_named n (delta_of m a b @ ds) = (if n = m \<and> 0 < saturating_sub a b then saturating_sub a b else delta_named n ds)"
  by (simp add: delta_named_def delta_of_def Let_def)

lemma not_pos_word [simp]: "\<not> 0 < (w :: 'a::len word) \<longleftrightarrow> w = 0"
  by (simp add: word_neq_0_conv [symmetric])

lemma delta_of_self [simp]: "delta_of n c c = []"
  by (simp add: delta_of_def saturating_sub_def)

lemma deltas_none: "deltas_vs c c = []"
  by (simp add: deltas_vs_def)

end
