(* ===== verification/Fec_Tracker.thy ===== *)
theory Fec_Tracker
  imports Drop_Counters Bytes
begin

text \<open>
  \<open>crates/entry-sources/src/shredstream/fec_tracker.rs\<close> and \<open>udp_rx.rs\<close>: shreds are collected per
  (slot, FEC set) until the terminating data shred says how many data shreds the set has, and sets
  that stay open too long are dropped. The shred type and its parser
  (\<open>Shred::new_from_serialized_shred\<close>) are the library's: a shred is seen through its accessors,
  the parser is a parameter.
\<close>

datatype shred_type = DataShred | CodeShred

record shred =
  sh_slot :: u64
  sh_fec_set_index :: u32
  sh_index :: u32
  sh_type :: shred_type
  sh_last_in_slot :: bool
  sh_data_complete :: bool
  sh_payload :: bytes

record raw_shred_packet =
  rp_bytes :: bytes
  rp_received_at :: instant

record fec_set_ready =
  fr_slot :: u64
  fr_fec_set_index :: u32
  fr_first_shred_at :: instant
  fr_completed_at :: instant
  fr_data_shreds :: "shred list"
  fr_coding_shreds :: "shred list"

record fec_set_state =
  fs_first_shred_at :: "instant option"
  fs_data :: "(u32, shred) hash_map"
  fs_coding :: "(u32, shred) hash_map"
  fs_expected_data_count :: "u32 option"

definition fec_set_default :: fec_set_state where
  "fec_set_default = \<lparr> fs_first_shred_at = None, fs_data = [], fs_coding = [], fs_expected_data_count = None \<rparr>"

record fec_tracker =
  ft_sets :: "(u64 \<times> u32, fec_set_state) hash_map"
  ft_counters :: drop_counters

definition fec_tracker_new :: "drop_counters \<Rightarrow> fec_tracker" where
  "fec_tracker_new c = \<lparr> ft_sets = [], ft_counters = c \<rparr>"

section \<open>Receiving packets\<close>

definition MAX_SHRED_SIZE :: nat where "MAX_SHRED_SIZE = 1500"

text \<open>One round of the UDP thread: \<open>recv\<close> fills at most the buffer; errors are ignored.\<close>

definition udp_round ::
  "raw_shred_packet accept \<Rightarrow> instant \<Rightarrow> bytes option \<Rightarrow> raw_shred_packet chan \<times> drop_counters \<Rightarrow>
    raw_shred_packet chan \<times> drop_counters" where
  "udp_round acc now dgram st = (case dgram of
     None \<Rightarrow> st
   | Some b \<Rightarrow> (case st of (tx, c) \<Rightarrow>
       (case try_send acc tx \<lparr> rp_bytes = take MAX_SHRED_SIZE b, rp_received_at = now \<rparr> of (tx', ok) \<Rightarrow>
         (tx', if ok then c else c\<lparr>dk_ss_udp_channel_full := dk_ss_udp_channel_full c + 1\<rparr>))))"

definition udp_loop ::
  "raw_shred_packet accept \<Rightarrow> (instant \<times> bytes option) list \<Rightarrow> raw_shred_packet chan \<times> drop_counters \<Rightarrow>
    raw_shred_packet chan \<times> drop_counters" where
  "udp_loop acc rounds st = fold (\<lambda>(now, d). udp_round acc now d) rounds st"

section \<open>Collecting a set\<close>

definition shred_key :: "shred \<Rightarrow> u64 \<times> u32" where
  "shred_key s = (sh_slot s, sh_fec_set_index s)"

definition terminator :: "shred \<Rightarrow> bool" where
  "terminator s \<longleftrightarrow> sh_last_in_slot s \<or> sh_data_complete s"

text \<open>Storing a shred in its set.\<close>

definition store_shred :: "instant \<Rightarrow> shred \<Rightarrow> fec_set_state \<Rightarrow> fec_set_state" where
  "store_shred received s st =
    (let st1 = (if fs_first_shred_at st = None then st\<lparr>fs_first_shred_at := Some received\<rparr> else st)
     in case sh_type s of
       DataShred \<Rightarrow> st1\<lparr>
         fs_expected_data_count := (if terminator s then Some (sh_index s - sh_fec_set_index s + 1) else fs_expected_data_count st1),
         fs_data := hm_insert (sh_index s) s (fs_data st1) \<rparr>
     | CodeShred \<Rightarrow> st1\<lparr>fs_coding := hm_insert (sh_index s) s (fs_coding st1)\<rparr>)"

definition data_complete :: "fec_set_state \<Rightarrow> bool" where
  "data_complete st = (case fs_expected_data_count st of
     Some n \<Rightarrow> n \<le> of_nat (length (fs_data st)) | None \<Rightarrow> False)"

definition ready_set :: "u64 \<times> u32 \<Rightarrow> instant \<Rightarrow> fec_set_state \<Rightarrow> fec_set_ready" where
  "ready_set key completed st = \<lparr> fr_slot = fst key, fr_fec_set_index = snd key,
     fr_first_shred_at = the (fs_first_shred_at st), fr_completed_at = completed,
     fr_data_shreds = sort_key sh_index (map snd (fs_data st)),
     fr_coding_shreds = map snd (fs_coding st) \<rparr>"

definition ingest ::
  "(bytes \<Rightarrow> shred option) \<Rightarrow> instant \<Rightarrow> raw_shred_packet \<Rightarrow> fec_tracker \<Rightarrow> fec_set_ready option \<times> fec_tracker" where
  "ingest parse now pkt ft = (case parse (rp_bytes pkt) of
     None \<Rightarrow> (None, ft\<lparr>ft_counters := (ft_counters ft)\<lparr>dk_ss_shred_parse_error :=
       dk_ss_shred_parse_error (ft_counters ft) + 1\<rparr>\<rparr>)
   | Some s \<Rightarrow> (let key = shred_key s;
       st = store_shred (rp_received_at pkt) s
         (case map_of (ft_sets ft) key of Some st \<Rightarrow> st | None \<Rightarrow> fec_set_default)
     in if data_complete st then (Some (ready_set key now st), ft\<lparr>ft_sets := hm_remove key (ft_sets ft)\<rparr>)
        else (None, ft\<lparr>ft_sets := hm_insert key st (ft_sets ft)\<rparr>)))"

section \<open>Dropping old sets\<close>

definition set_alive :: "instant \<Rightarrow> duration \<Rightarrow> fec_set_state \<Rightarrow> bool" where
  "set_alive now max_age st = (case fs_first_shred_at st of
     Some t \<Rightarrow> saturating_duration_since now t < max_age | None \<Rightarrow> True)"

definition evict_older_than :: "instant \<Rightarrow> duration \<Rightarrow> fec_tracker \<Rightarrow> nat \<times> fec_tracker" where
  "evict_older_than now max_age ft =
    (let sets = filter (\<lambda>(_, st). set_alive now max_age st) (ft_sets ft);
         n = length (ft_sets ft) - length sets
     in (n, ft\<lparr> ft_sets := sets, ft_counters := (ft_counters ft)\<lparr>dk_ss_fec_set_timeout :=
       dk_ss_fec_set_timeout (ft_counters ft) + of_nat n\<rparr>\<rparr>))"

definition pending_set_count :: "fec_tracker \<Rightarrow> nat" where
  "pending_set_count ft = length (ft_sets ft)"

end
