(* ===== verification/Fec_Tracker_Props.thy ===== *)
theory Fec_Tracker_Props
  imports Fec_Tracker
begin

text \<open>
  What the FEC tracker promises. The protocol fixes, per set, the index of the last data shred, which
  is the one that carries a terminator flag: that is the hypothesis \<open>framed\<close> on the shreds received.
  Under it a set is handed on exactly as the contiguous block of its data shreds, in order.
\<close>

section \<open>Runs\<close>

datatype fec_event = FecPacket instant raw_shred_packet | FecEvict instant duration

definition fec_step ::
  "(bytes \<Rightarrow> shred option) \<Rightarrow> fec_event \<Rightarrow> fec_set_ready list \<times> fec_tracker \<Rightarrow> fec_set_ready list \<times> fec_tracker" where
  "fec_step parse e st = (case st of (rs, ft) \<Rightarrow> (case e of
     FecPacket now p \<Rightarrow> (case ingest parse now p ft of
       (Some r, ft') \<Rightarrow> (rs @ [r], ft') | (None, ft') \<Rightarrow> (rs, ft'))
   | FecEvict now age \<Rightarrow> (rs, snd (evict_older_than now age ft))))"

definition fec_run ::
  "(bytes \<Rightarrow> shred option) \<Rightarrow> fec_event list \<Rightarrow> fec_set_ready list \<times> fec_tracker \<Rightarrow> fec_set_ready list \<times> fec_tracker" where
  "fec_run parse es st = fold (fec_step parse) es st"

text \<open>The data shreds of a set have indices from the set's index to the last one, which alone is the
  terminator.\<close>

definition framed_shred :: "(u64 \<times> u32 \<Rightarrow> nat) \<Rightarrow> shred \<Rightarrow> bool" where
  "framed_shred final s \<longleftrightarrow> sh_type s = CodeShred \<or>
     (sh_fec_set_index s \<le> sh_index s \<and> unat (sh_index s) \<le> final (shred_key s) \<and> final (shred_key s) < u32_max \<and>
      (terminator s \<longleftrightarrow> unat (sh_index s) = final (shred_key s)))"

definition framed :: "(bytes \<Rightarrow> shred option) \<Rightarrow> (u64 \<times> u32 \<Rightarrow> nat) \<Rightarrow> fec_event \<Rightarrow> bool" where
  "framed parse final e \<longleftrightarrow> (case e of
     FecPacket _ p \<Rightarrow> (case parse (rp_bytes p) of Some s \<Rightarrow> framed_shred final s | None \<Rightarrow> True)
   | FecEvict _ _ \<Rightarrow> True)"

section \<open>Open sets\<close>

definition data_ok :: "(u64 \<times> u32 \<Rightarrow> nat) \<Rightarrow> u64 \<times> u32 \<Rightarrow> shred \<Rightarrow> bool" where
  "data_ok final key s \<longleftrightarrow> sh_type s = DataShred \<and> shred_key s = key \<and>
     snd key \<le> sh_index s \<and> unat (sh_index s) \<le> final key"

definition set_ok :: "(u64 \<times> u32 \<Rightarrow> nat) \<Rightarrow> u64 \<times> u32 \<Rightarrow> fec_set_state \<Rightarrow> bool" where
  "set_ok final key st \<longleftrightarrow> fs_first_shred_at st \<noteq> None \<and> hm_inv (fs_data st) \<and>
     list_all (\<lambda>(i, s). sh_index s = i \<and> data_ok final key s) (fs_data st) \<and>
     (\<forall>n. fs_expected_data_count st = Some n \<longrightarrow> unat n = Suc (final key) - unat (snd key))"

definition tracker_ok :: "(u64 \<times> u32 \<Rightarrow> nat) \<Rightarrow> fec_tracker \<Rightarrow> bool" where
  "tracker_ok final ft \<longleftrightarrow> hm_inv (ft_sets ft) \<and>
     (\<forall>key st. map_of (ft_sets ft) key = Some st \<longrightarrow> set_ok final key st \<and> \<not> data_complete st)"

lemma expected_count:
  assumes "framed_shred final s" "sh_type s = DataShred" "terminator s"
  shows "unat (sh_index s - sh_fec_set_index s + 1) = Suc (final (shred_key s)) - unat (sh_fec_set_index s)"
proof -
  have le: "sh_fec_set_index s \<le> sh_index s" and i: "unat (sh_index s) = final (shred_key s)"
    and f: "final (shred_key s) < u32_max"
    using assms by (simp_all add: framed_shred_def)
  have d: "unat (sh_index s - sh_fec_set_index s) = final (shred_key s) - unat (sh_fec_set_index s)"
    using le by (simp add: unat_sub i)
  then have "unat (sh_index s - sh_fec_set_index s) + unat (1 :: u32) < 2 ^ LENGTH(32)"
    using f by (simp add: u32_max_def)
  then have "unat (sh_index s - sh_fec_set_index s + 1) = unat (sh_index s - sh_fec_set_index s) + 1"
    by (simp add: unat_word_ariths)
  then show ?thesis using d le i by (simp add: word_le_nat_alt Suc_diff_le)
qed

lemma set_update_subset_pair: "set (hm_insert k v m) \<subseteq> {(k, v)} \<union> set m"
  by (induction m) auto

lemma list_all_update: "P (k, v) \<Longrightarrow> list_all P m \<Longrightarrow> list_all P (hm_insert k v m)"
  using set_update_subset_pair [of k v m] by (auto simp: list_all_iff)

lemma hm_inv_single [simp]: "hm_inv [(k, v)]"
  by (simp add: hm_inv_def)

lemma set_ok_store:
  assumes "set_ok final (shred_key s) st \<or> st = fec_set_default" "framed_shred final s"
  shows "set_ok final (shred_key s) (store_shred received s st)"
proof (cases "sh_type s")
  case DataShred
  then have "data_ok final (shred_key s) s"
    using assms(2) by (simp add: data_ok_def framed_shred_def) (simp add: shred_key_def)
  moreover have "unat (sh_index s - sh_fec_set_index s + 1) = Suc (final (shred_key s)) - unat (snd (shred_key s))"
    if "terminator s"
    using expected_count [OF assms(2) DataShred that] by (simp add: shred_key_def)
  ultimately show ?thesis
    using assms(1) DataShred
    by (auto simp: set_ok_def store_shred_def Let_def fec_set_default_def hm.invar_insert list_all_update)
next
  case CodeShred
  then show ?thesis using assms(1) by (auto simp: set_ok_def store_shred_def Let_def fec_set_default_def)
qed

lemma tracker_okD:
  "tracker_ok final ft \<Longrightarrow> map_of (ft_sets ft) key = Some st \<Longrightarrow> set_ok final key st"
  "tracker_ok final ft \<Longrightarrow> map_of (ft_sets ft) key = Some st \<Longrightarrow> \<not> data_complete st"
  unfolding tracker_ok_def by blast+

lemma tracker_okI:
  assumes "hm_inv (ft_sets ft)"
    "\<And>key st. map_of (ft_sets ft) key = Some st \<Longrightarrow> set_ok final key st"
    "\<And>key st. map_of (ft_sets ft) key = Some st \<Longrightarrow> \<not> data_complete st"
  shows "tracker_ok final ft"
  using assms unfolding tracker_ok_def by blast

lemma tracker_ok_inv: "tracker_ok final ft \<Longrightarrow> hm_inv (ft_sets ft)"
  unfolding tracker_ok_def by blast

lemma tracker_ok_lookup:
  assumes "tracker_ok final ft"
  shows "set_ok final key (case map_of (ft_sets ft) key of Some st \<Rightarrow> st | None \<Rightarrow> fec_set_default) \<or>
    (case map_of (ft_sets ft) key of Some st \<Rightarrow> st | None \<Rightarrow> fec_set_default) = fec_set_default"
proof (cases "map_of (ft_sets ft) key")
  case (Some st)
  show ?thesis unfolding Some option.case using tracker_okD(1) [OF assms Some] by blast
qed simp

lemma tracker_ok_insert:
  assumes "tracker_ok final ft" "set_ok final key st" "\<not> data_complete st"
  shows "tracker_ok final (ft\<lparr>ft_sets := hm_insert key st (ft_sets ft)\<rparr>)"
proof (rule tracker_okI)
  fix k st'
  assume "map_of (ft_sets (ft\<lparr>ft_sets := hm_insert key st (ft_sets ft)\<rparr>)) k = Some st'"
  then have "k = key \<and> st' = st \<or> map_of (ft_sets ft) k = Some st'"
    by (simp add: hm.lookup_insert split: if_splits)
  then show "set_ok final k st'" "\<not> data_complete st'"
    using assms tracker_okD [OF assms(1)] by blast+
qed (use tracker_ok_inv [OF assms(1)] in \<open>simp add: hm.invar_insert\<close>)

lemma tracker_ok_remove:
  assumes "tracker_ok final ft"
  shows "tracker_ok final (ft\<lparr>ft_sets := hm_remove key (ft_sets ft)\<rparr>)"
proof (rule tracker_okI)
  fix k st'
  assume "map_of (ft_sets (ft\<lparr>ft_sets := hm_remove key (ft_sets ft)\<rparr>)) k = Some st'"
  then have "map_of (ft_sets ft) k = Some st'" by (simp add: hm.lookup_remove split: if_splits)
  then show "set_ok final k st'" "\<not> data_complete st'" using tracker_okD [OF assms] by blast+
qed (use tracker_ok_inv [OF assms] in \<open>simp add: hm.invar_remove\<close>)

lemma tracker_ok_evict:
  assumes "tracker_ok final ft"
  shows "tracker_ok final (snd (evict_older_than now age ft))"
proof (rule tracker_okI)
  have d: "distinct (map_keys (ft_sets ft))" using tracker_ok_inv [OF assms] by (simp add: hm_inv_def)
  fix k st'
  assume "map_of (ft_sets (snd (evict_older_than now age ft))) k = Some st'"
  then have "map_of (filter (\<lambda>(_, st). set_alive now age st) (ft_sets ft)) k = Some st'"
    by (simp add: evict_older_than_def Let_def)
  then have "map_of (ft_sets ft) k = Some st'" by (rule map_of_filter_keysD [OF d])
  then show "set_ok final k st'" "\<not> data_complete st'" using tracker_okD [OF assms] by blast+
qed (use tracker_ok_inv [OF assms] in \<open>simp add: evict_older_than_def Let_def hm_inv_def distinct_map_filter\<close>)

section \<open>A complete set is the whole block\<close>

definition whole_block :: "(u64 \<times> u32 \<Rightarrow> nat) \<Rightarrow> fec_set_ready \<Rightarrow> bool" where
  "whole_block final r \<longleftrightarrow> (let key = (fr_slot r, fr_fec_set_index r) in
     map (\<lambda>s. unat (sh_index s)) (fr_data_shreds r) = [unat (snd key)..<Suc (final key)] \<and>
     list_all (data_ok final key) (fr_data_shreds r))"

lemma sorted_block:
  assumes "distinct (map f xs)" "set (map f xs) \<subseteq> {a..<b}" "b \<le> a + length xs"
  shows "map f (sort_key f xs) = [a..<b :: nat]"
proof -
  have c: "card (set (map f xs)) = length xs" using distinct_card [OF assms(1)] by simp
  have "card {a..<b} \<le> card (set (map f xs))" using assms(3) c by simp
  then have "set (map f xs) = {a..<b}" using assms(2) by (metis card_seteq finite_atLeastLessThan)
  moreover have "distinct (map f (sort_key f xs))"
    using assms(1) by (simp add: distinct_map)
  ultimately show ?thesis by (intro sorted_distinct_set_unique) (simp_all add: sorted_sort_key)
qed

lemma insort_key_unat: "insort_key sh_index (x :: shred) ys = insort_key (\<lambda>s. unat (sh_index s)) x ys"
  by (induction ys) (simp_all add: word_le_nat_alt)

lemma sort_key_unat: "sort_key sh_index (xs :: shred list) = sort_key (\<lambda>s. unat (sh_index s)) xs"
  by (induction xs) (simp_all add: insort_key_unat)

lemma complete_is_block:
  assumes "set_ok final key st" "data_complete st"
  shows "whole_block final (ready_set key now st)"
proof -
  let ?xs = "map snd (fs_data st)"
  have all: "list_all (\<lambda>(i, s). sh_index s = i \<and> data_ok final key s) (fs_data st)" and inv: "hm_inv (fs_data st)"
    using assms(1) by (simp_all add: set_ok_def)
  have keys: "map sh_index ?xs = map_keys (fs_data st)"
    using all by (simp add: list_all_iff) auto
  have d: "distinct (map (\<lambda>s. unat (sh_index s)) ?xs)"
  proof -
    have "distinct (map sh_index ?xs)" unfolding keys using inv by (simp add: hm_inv_def)
    then have "distinct (map unat (map sh_index ?xs))"
      by (subst distinct_map) (simp add: inj_on_def word_unat_eq_iff)
    then show ?thesis by (simp add: comp_def)
  qed
  have ok: "list_all (data_ok final key) ?xs" using all by (auto simp: list_all_iff)
  then have sub: "set (map (\<lambda>s. unat (sh_index s)) ?xs) \<subseteq> {unat (snd key)..<Suc (final key)}"
    by (auto simp: list_all_iff data_ok_def word_le_nat_alt)
  obtain n where n: "fs_expected_data_count st = Some n" "n \<le> of_nat (length (fs_data st))"
    using assms(2) by (auto simp: data_complete_def split: option.splits)
  then have "unat n = Suc (final key) - unat (snd key)" using assms(1) by (simp add: set_ok_def)
  moreover have "unat n \<le> length (fs_data st)"
    using n(2) mod_less_eq_dividend [of "length (fs_data st)" "2 ^ 32"] by (simp add: word_le_nat_alt unat_of_nat)
  ultimately have "Suc (final key) \<le> unat (snd key) + length ?xs" by simp
  from sorted_block [OF d sub this]
  have "map (\<lambda>s. unat (sh_index s)) (sort_key sh_index ?xs) = [unat (snd key)..<Suc (final key)]"
    by (simp add: sort_key_unat)
  then show ?thesis using ok by (simp add: whole_block_def ready_set_def Let_def list_all_iff)
qed

text \<open>One step keeps the open sets and adds whole blocks only.\<close>

definition fec_ok :: "(u64 \<times> u32 \<Rightarrow> nat) \<Rightarrow> fec_set_ready list \<times> fec_tracker \<Rightarrow> bool" where
  "fec_ok final st \<longleftrightarrow> tracker_ok final (snd st) \<and> list_all (whole_block final) (fst st)"

definition set_after :: "raw_shred_packet \<Rightarrow> shred \<Rightarrow> fec_tracker \<Rightarrow> fec_set_state" where
  "set_after p s ft = store_shred (rp_received_at p) s
    (case map_of (ft_sets ft) (shred_key s) of Some st \<Rightarrow> st | None \<Rightarrow> fec_set_default)"

lemma ingest_cases:
  assumes "parse (rp_bytes p) = Some s"
  shows "ingest parse now p ft = (if data_complete (set_after p s ft)
    then (Some (ready_set (shred_key s) now (set_after p s ft)), ft\<lparr>ft_sets := hm_remove (shred_key s) (ft_sets ft)\<rparr>)
    else (None, ft\<lparr>ft_sets := hm_insert (shred_key s) (set_after p s ft) (ft_sets ft)\<rparr>))"
  using assms by (simp add: ingest_def Let_def set_after_def)

lemma fec_ok_step:
  assumes "fec_ok final st" "framed parse final e"
  shows "fec_ok final (fec_step parse e st)"
proof -
  obtain rs ft where st: "st = (rs, ft)" by (cases st)
  have t: "tracker_ok final ft" and r: "list_all (whole_block final) rs"
    using assms(1) st by (simp_all add: fec_ok_def)
  show ?thesis
  proof (cases e)
    case (FecEvict now age)
    then show ?thesis using t r st by (simp add: fec_step_def fec_ok_def tracker_ok_evict)
  next
    case (FecPacket now p)
    show ?thesis
    proof (cases "parse (rp_bytes p)")
      case None
      then show ?thesis using t r st FecPacket by (simp add: fec_step_def fec_ok_def ingest_def tracker_ok_def)
    next
      case (Some s)
      let ?st = "set_after p s ft"
      have ok: "set_ok final (shred_key s) ?st"
        unfolding set_after_def
        by (rule set_ok_store [OF tracker_ok_lookup [OF t]]) (use assms(2) FecPacket Some in \<open>simp add: framed_def\<close>)
      show ?thesis
      proof (cases "data_complete ?st")
        case True
        show ?thesis
          using complete_is_block [OF ok True, of now] r tracker_ok_remove [OF t]
          by (simp add: st FecPacket fec_step_def fec_ok_def ingest_cases [where parse = parse, OF Some] True)
      next
        case False
        show ?thesis
          using r tracker_ok_insert [OF t ok False] by (simp add: st FecPacket fec_step_def fec_ok_def ingest_cases [where parse = parse, OF Some] False)
      qed
    qed
  qed
qed

lemma fec_ok_run: "list_all (framed parse final) es \<Longrightarrow> fec_ok final st \<Longrightarrow> fec_ok final (fec_run parse es st)"
  by (induction es arbitrary: st) (simp_all add: fec_run_def fec_ok_step)

lemma fec_ok_new: "fec_ok final ([], fec_tracker_new c)"
  by (simp add: fec_ok_def tracker_ok_def fec_tracker_new_def)

text \<open>C11: Every FEC set the tracker hands on is the complete, contiguous, ordered block of the data
  shreds of one set, whatever the order of arrival, the duplicates and the evictions; and every set
  it still holds is incomplete.\<close>
theorem fec_ready_is_block:
  assumes "list_all (framed parse final) es"
  shows "list_all (whole_block final) (fst (fec_run parse es ([], fec_tracker_new c))) \<and>
    list_all (\<lambda>(_, st). \<not> data_complete st) (ft_sets (snd (fec_run parse es ([], fec_tracker_new c))))"
proof -
  have ok: "fec_ok final (fec_run parse es ([], fec_tracker_new c))" by (rule fec_ok_run [OF assms fec_ok_new])
  then have t: "tracker_ok final (snd (fec_run parse es ([], fec_tracker_new c)))" by (simp add: fec_ok_def)
  have "\<not> data_complete st" if "(key, st) \<in> set (ft_sets (snd (fec_run parse es ([], fec_tracker_new c))))" for key st
    using tracker_okD(2) [OF t] that tracker_ok_inv [OF t] by (simp add: hm_inv_def)
  with ok show ?thesis by (auto simp: fec_ok_def list_all_iff)
qed

section \<open>A set completes\<close>

text \<open>The data shreds of a set among the packets, by index.\<close>

definition seen_data :: "(bytes \<Rightarrow> shred option) \<Rightarrow> u64 \<times> u32 \<Rightarrow> fec_event list \<Rightarrow> u32 set" where
  "seen_data parse key es = {i. \<exists>now p s. FecPacket now p \<in> set es \<and> parse (rp_bytes p) = Some s \<and>
     sh_type s = DataShred \<and> shred_key s = key \<and> sh_index s = i}"

definition is_packet :: "fec_event \<Rightarrow> bool" where
  "is_packet e \<longleftrightarrow> (case e of FecPacket _ _ \<Rightarrow> True | FecEvict _ _ \<Rightarrow> False)"

definition handed_on :: "u64 \<times> u32 \<Rightarrow> fec_set_ready list \<Rightarrow> bool" where
  "handed_on key rs \<longleftrightarrow> (\<exists>r \<in> set rs. (fr_slot r, fr_fec_set_index r) = key)"

text \<open>Until a set is handed on the table holds all its data shreds.\<close>

definition collects :: "(u64 \<times> u32 \<Rightarrow> nat) \<Rightarrow> u64 \<times> u32 \<Rightarrow> u32 set \<Rightarrow> fec_set_ready list \<times> fec_tracker \<Rightarrow> bool" where
  "collects final key seen st \<longleftrightarrow> handed_on key (fst st) \<or> seen = {} \<or>
     (\<exists>fs. map_of (ft_sets (snd st)) key = Some fs \<and> seen \<subseteq> fst ` set (fs_data fs) \<and>
       (of_nat (final key) \<in> seen \<longrightarrow> fs_expected_data_count fs \<noteq> None))"

lemma seen_data_snoc:
  "seen_data parse key (es @ [FecPacket now p]) = seen_data parse key es \<union>
     {i. \<exists>s. parse (rp_bytes p) = Some s \<and> sh_type s = DataShred \<and> shred_key s = key \<and> sh_index s = i}"
  by (auto simp: seen_data_def)

lemma seen_data_Cons:
  "seen_data parse key (FecPacket now p # es) =
     {i. \<exists>s. parse (rp_bytes p) = Some s \<and> sh_type s = DataShred \<and> shred_key s = key \<and> sh_index s = i} \<union>
     seen_data parse key es"
  by (auto simp: seen_data_def)

lemma handed_on_append [simp]:
  "handed_on key (rs @ rs') \<longleftrightarrow> handed_on key rs \<or> handed_on key rs'"
  by (auto simp: handed_on_def)

text \<open>What storing a shred adds.\<close>

lemma store_shred_data:
  "fst ` set (fs_data (store_shred received s st)) =
    (if sh_type s = DataShred then {sh_index s} else {}) \<union> fst ` set (fs_data st)"
  using hm.set_keys_insert [of "sh_index s" s "fs_data st"]
  by (cases "sh_type s") (auto simp: store_shred_def Let_def)

lemma store_shred_expected:
  "fs_expected_data_count (store_shred received s st) =
    (if sh_type s = DataShred \<and> terminator s then Some (sh_index s - sh_fec_set_index s + 1) else fs_expected_data_count st)"
  by (cases "sh_type s") (simp_all add: store_shred_def Let_def)

lemma collects_packet:
  assumes c: "collects final key (seen_data parse key es) st" and f: "framed parse final (FecPacket now p)"
  shows "collects final key (seen_data parse key (es @ [FecPacket now p])) (fec_step parse (FecPacket now p) st)"
proof -
  obtain rs ft where st: "st = (rs, ft)" by (cases st)
  show ?thesis
  proof (cases "parse (rp_bytes p)")
    case None
    then show ?thesis using c by (simp add: seen_data_snoc st fec_step_def ingest_def collects_def)
  next
    case (Some s)
    show ?thesis
    proof (cases "shred_key s = key")
      case False
      have l: "map_of (ft_sets (snd (ingest parse now p ft))) key = map_of (ft_sets ft) key"
        using False by (simp add: ingest_cases [where parse = parse, OF Some] hm.lookup_insert hm.lookup_remove)
      have "seen_data parse key (es @ [FecPacket now p]) = seen_data parse key es"
        using False Some by (simp add: seen_data_snoc)
      then show ?thesis using c l
        by (auto simp: st fec_step_def collects_def split: prod.splits option.splits)
    next
      case True
      show ?thesis
      proof (cases "data_complete (set_after p s ft)")
        case full: True
        have "handed_on key [ready_set (shred_key s) now (set_after p s ft)]"
          using True by (simp add: handed_on_def ready_set_def)
        then show ?thesis
          by (simp add: st fec_step_def ingest_cases [where parse = parse, OF Some] full collects_def)
      next
        case False
        let ?old = "case map_of (ft_sets ft) (shred_key s) of Some st \<Rightarrow> st | None \<Rightarrow> fec_set_default"
        have seen: "seen_data parse key (es @ [FecPacket now p]) =
            (if sh_type s = DataShred then {sh_index s} else {}) \<union> seen_data parse key es"
          using Some True by (auto simp: seen_data_snoc)
        have "handed_on key rs \<or> seen_data parse key es \<subseteq> fst ` set (fs_data ?old) \<and>
            (of_nat (final key) \<in> seen_data parse key es \<longrightarrow> fs_expected_data_count ?old \<noteq> None)"
          using c True by (auto simp: collects_def st)
        moreover have "fs_expected_data_count (set_after p s ft) \<noteq> None"
          if "sh_type s = DataShred" "of_nat (final key) = sh_index s"
        proof -
          have "final key < 2 ^ 32" using f that True Some by (simp add: framed_def framed_shred_def u32_max_def)
          then have "unat (sh_index s) = final key" using that(2) [symmetric] by (simp add: unat_of_nat)
          then have "terminator s" using f that True Some by (simp add: framed_def framed_shred_def)
          then show ?thesis using that(1) by (simp add: set_after_def store_shred_expected)
        qed
        ultimately have "handed_on key rs \<or> seen_data parse key (es @ [FecPacket now p]) \<subseteq> fst ` set (fs_data (set_after p s ft)) \<and>
            (of_nat (final key) \<in> seen_data parse key (es @ [FecPacket now p]) \<longrightarrow>
              fs_expected_data_count (set_after p s ft) \<noteq> None)"
          unfolding seen by (auto simp: set_after_def store_shred_data store_shred_expected)
        then show ?thesis
          using True by (auto simp: st fec_step_def ingest_cases [where parse = parse, OF Some] False collects_def hm.lookup_insert)
      qed
    qed
  qed
qed

lemma collects_run:
  assumes "list_all is_packet es" "list_all (framed parse final) es"
  shows "collects final key (seen_data parse key es) (fec_run parse es ([], fec_tracker_new c))"
  using assms
proof (induction es rule: rev_induct)
  case Nil
  then show ?case by (simp add: collects_def seen_data_def)
next
  case (snoc e es)
  obtain now p where e: "e = FecPacket now p" using snoc.prems by (cases e) (simp_all add: is_packet_def)
  show ?case using snoc collects_packet [of final key parse es "fec_run parse es ([], fec_tracker_new c)" now p]
    by (simp add: e fec_run_def)
qed

lemma unat_interval: "unat ` {a..b :: 'a::len word} = {unat a..unat b}"
proof
  show "{unat a..unat b} \<subseteq> unat ` {a..b}"
  proof
    fix x
    assume x: "x \<in> {unat a..unat b}"
    then have "x < 2 ^ LENGTH('a)" using unat_lt [of b] by (meson atLeastAtMost_iff le_less_trans)
    then have "unat (of_nat x :: 'a word) = x" by (simp add: unat_of_nat)
    then show "x \<in> unat ` {a..b}" using x by (intro image_eqI [of _ _ "of_nat x"]) (simp_all add: word_le_nat_alt)
  qed
qed (auto simp: word_le_nat_alt)

lemma card_word_interval: "card {a..b :: 'a::len word} = Suc (unat b) - unat a"
proof -
  have "inj_on unat {a..b}" by (simp add: inj_on_def word_unat_eq_iff)
  then have "card {a..b} = card (unat ` {a..b})" by (simp add: card_image)
  then show ?thesis by (simp add: unat_interval)
qed

lemma set_ok_size:
  assumes "set_ok final key st"
  shows "length (fs_data st) \<le> Suc (final key)"
proof -
  have d: "distinct (map_keys (fs_data st))" using assms by (simp add: set_ok_def hm_inv_def)
  have "unat ` set (map_keys (fs_data st)) \<subseteq> {..final key}"
    using assms by (auto simp: set_ok_def list_all_iff data_ok_def)
  then have "card (unat ` set (map_keys (fs_data st))) \<le> card {..final key}" by (rule card_mono [rotated]) simp
  moreover have "inj_on unat (set (map_keys (fs_data st)))" by (simp add: inj_on_def word_unat_eq_iff)
  ultimately have "card (set (map_keys (fs_data st))) \<le> Suc (final key)" by (simp only: card_image) simp
  then show ?thesis using distinct_card [OF d] by simp
qed

text \<open>C21: A set whose data shreds all arrive is handed on: in a run without evictions, once every index
  from the set's index to its last one has been received, in any order and with any duplicates or
  coding shreds in between, the tracker has returned the set.\<close>
theorem fec_set_completes:
  assumes "list_all is_packet es" "list_all (framed parse final) es"
    "snd key \<le> of_nat (final key)" "final key < u32_max"
    "{snd key..of_nat (final key)} \<subseteq> seen_data parse key es"
  shows "handed_on key (fst (fec_run parse es ([], fec_tracker_new c)))"
proof (rule ccontr)
  let ?st = "fec_run parse es ([], fec_tracker_new c)"
  assume no: "\<not> handed_on key (fst ?st)"
  have m: "of_nat (final key) \<in> seen_data parse key es" using assms(3,5) by auto
  obtain fs where fs: "map_of (ft_sets (snd ?st)) key = Some fs" "seen_data parse key es \<subseteq> fst ` set (fs_data fs)"
    "fs_expected_data_count fs \<noteq> None"
    using collects_run [OF assms(1,2), of key c] no m by (auto simp: collects_def)
  have t: "tracker_ok final (snd ?st)"
    using fec_ok_run [OF assms(2) fec_ok_new, of c] by (simp add: fec_ok_def)
  have ok: "set_ok final key fs" "\<not> data_complete fs" using tracker_okD [OF t fs(1)] by blast+
  obtain n where n: "fs_expected_data_count fs = Some n" using fs(3) by blast
  have un: "unat n = Suc (final key) - unat (snd key)" using ok(1) n by (simp add: set_ok_def)
  have f: "unat (of_nat (final key) :: u32) = final key" using assms(4) by (simp add: unat_of_nat u32_max_def)
  have "card {snd key..of_nat (final key)} = Suc (final key) - unat (snd key)"
    using card_word_interval [of "snd key" "of_nat (final key)"] by (simp add: f)
  moreover have "card {snd key..of_nat (final key)} \<le> length (fs_data fs)"
  proof -
    have "card {snd key..of_nat (final key)} \<le> card (set (map_keys (fs_data fs)))"
      by (rule card_mono) (use assms(5) fs(2) in auto)
    also have "\<dots> \<le> length (fs_data fs)" using card_length [of "map_keys (fs_data fs)"] by simp
    finally show ?thesis .
  qed
  ultimately have le: "unat n \<le> length (fs_data fs)" using un by simp
  have "length (fs_data fs) \<le> u32_max" using set_ok_size [OF ok(1)] assms(4) by simp
  then have "n \<le> of_nat (length (fs_data fs))" using le by (simp add: word_le_nat_alt unat_of_nat u32_max_def)
  then show False using ok(2) n by (simp add: data_complete_def)
qed

section \<open>Samples\<close>

text \<open>A set of two data shreds, 2 and 3, whose second is the terminator, and a coding shred.\<close>

definition demo_parse :: "bytes \<Rightarrow> shred option" where
  "demo_parse b = (if b = [] then None else Some \<lparr> sh_slot = 5, sh_fec_set_index = 2, sh_index = ucast (hd b),
     sh_type = (if hd b = 9 then CodeShred else DataShred), sh_last_in_slot = False, sh_data_complete = (hd b = 3),
     sh_payload = b \<rparr>)"

definition demo_packet :: "u8 \<Rightarrow> fec_event" where
  "demo_packet i = FecPacket 10 \<lparr> rp_bytes = [i], rp_received_at = 7 \<rparr>"

lemmas demo_fec = demo_packet_def demo_parse_def framed_def framed_shred_def terminator_def shred_key_def u32_max_def

lemma demo_framed: "list_all (framed demo_parse (\<lambda>_. 3)) [demo_packet 3, demo_packet 9, demo_packet 2]"
  by (simp add: demo_fec)

lemma fec_ready_is_block_witness:
  "list_all (whole_block (\<lambda>_. 3))
    (fst (fec_run demo_parse [demo_packet 3, demo_packet 9, demo_packet 2] ([], fec_tracker_new drop_counters_default)))"
  using fec_ready_is_block [OF demo_framed] by blast

lemma fec_set_completes_witness:
  "handed_on (5, 2)
    (fst (fec_run demo_parse [demo_packet 3, demo_packet 9, demo_packet 2] ([], fec_tracker_new drop_counters_default)))"
proof (rule fec_set_completes [OF _ demo_framed])
  have "{2..3 :: u32} \<subseteq> {2, 3}"
  proof
    fix x :: u32
    assume "x \<in> {2..3}"
    then have "unat x = 2 \<or> unat x = 3" by (auto simp: word_le_nat_alt)
    then show "x \<in> {2, 3}" by (auto simp: word_unat_eq_iff)
  qed
  also have "{2, 3} \<subseteq> seen_data demo_parse (5, 2) [demo_packet 3, demo_packet 9, demo_packet 2]"
    by (simp add: demo_packet_def seen_data_Cons) (simp add: demo_parse_def shred_key_def)
  finally show "{snd (5 :: u64, 2)..of_nat 3} \<subseteq> seen_data demo_parse (5, 2) [demo_packet 3, demo_packet 9, demo_packet 2]"
    by simp
qed (simp_all add: is_packet_def demo_packet_def u32_max_def)

text \<open>A shred that arrives after its set was handed on opens the set again, and the set is later
  counted as timed out although it was complete.\<close>

lemma late_shred_counts_timeout:
  defines "st \<equiv> fec_run demo_parse [demo_packet 3, demo_packet 2, demo_packet 9, FecEvict 2000000007 2000000000]
    ([], fec_tracker_new drop_counters_default)"
  shows "handed_on (5, 2) (fst st) \<and> dk_ss_fec_set_timeout (ft_counters (snd st)) = 1"
proof -
  have "fec_run demo_parse [demo_packet 3, demo_packet 2, demo_packet 9] ([], fec_tracker_new drop_counters_default) =
    ([ready_set (5, 2) 10 \<lparr> fs_first_shred_at = Some 7,
       fs_data = [(3, the (demo_parse [3])), (2, the (demo_parse [2]))], fs_coding = [], fs_expected_data_count = Some 2 \<rparr>],
     \<lparr> ft_sets = [((5, 2), \<lparr> fs_first_shred_at = Some 7, fs_data = [], fs_coding = [(9, the (demo_parse [9]))],
         fs_expected_data_count = None \<rparr>)], ft_counters = drop_counters_default \<rparr>)"
    by (simp add: fec_run_def fec_step_def demo_fec ingest_def Let_def store_shred_def fec_set_default_def
        fec_tracker_new_def data_complete_def word_le_nat_alt)
  then show ?thesis
    unfolding st_def
    by (simp add: fec_run_def fec_step_def evict_older_than_def Let_def set_alive_def saturating_duration_since_def
        drop_counters_default_def handed_on_def ready_set_def)
qed

end
