(* ===== verification/Entry_Stamping.thy ===== *)
theory Entry_Stamping
  imports Observation Drop_Counters
begin

text \<open>
  How both Shredstream sources number the entries of a slot
  (\<open>crates/entry-sources/src/shredstream/deshred.rs\<close> and \<open>grpc.rs\<close>): entries arrive in batches of one
  slot, a map holds the number of entries seen so far per slot, and entries of slots far behind the
  frontier are dropped from it. \<open>solana_entry::Entry\<close> is seen through the fields the code reads.

  The abstract machine \<open>stamp_step\<close> is the contract of both: as long as no batch belongs to a slot
  that may already have been dropped, the entries of every slot are numbered 0, 1, 2, and so on.
\<close>

section \<open>One batch\<close>

record sol_transaction =
  st_signatures :: "signature list"

record sol_entry =
  en_num_hashes :: u64
  en_hash :: hash
  en_transactions :: "sol_transaction list"

text \<open>The first signature of every transaction that has one.\<close>

definition entry_signatures :: "sol_entry \<Rightarrow> signature list" where
  "entry_signatures e = List.map_filter
     (\<lambda>tx. case st_signatures tx of s # _ \<Rightarrow> Some s | [] \<Rightarrow> None) (en_transactions e)"

definition ss_observation :: "u64 \<Rightarrow> u32 \<Rightarrow> instant \<Rightarrow> instant option \<Rightarrow> sol_entry \<Rightarrow> entry_observation" where
  "ss_observation slot index observed first e = \<lparr> obs_source = ShredStream, obs_observed_at = observed,
     obs_slot = slot, obs_entry_index = index, obs_num_hashes = en_num_hashes e, obs_entry_hash = en_hash e,
     obs_tx_count = of_nat (length (en_transactions e)), obs_signatures = entry_signatures e,
     obs_first_shred_at = first, obs_leader = None \<rparr>"

text \<open>The channel and the counter of the observations it refused.\<close>

type_synonym obs_sink = "entry_observation chan \<times> drop_counters"

definition offer_obs :: "entry_observation accept \<Rightarrow> entry_observation \<Rightarrow> obs_sink \<Rightarrow> obs_sink" where
  "offer_obs acc ob sink = (case sink of (tx, c) \<Rightarrow>
     (case try_send acc tx ob of (tx', ok) \<Rightarrow>
       (tx', if ok then c else c\<lparr>dk_ss_obs_channel_full := dk_ss_obs_channel_full c + 1\<rparr>)))"

definition offer_entries ::
  "entry_observation accept \<Rightarrow> u64 \<Rightarrow> u32 \<Rightarrow> instant \<Rightarrow> instant option \<Rightarrow> sol_entry list \<Rightarrow> obs_sink \<Rightarrow> obs_sink" where
  "offer_entries acc slot base observed first es sink =
    fold (\<lambda>(i, e). offer_obs acc (ss_observation slot (base + of_nat i) observed first e)) (enumerate 0 es) sink"

text \<open>The number of the next entry of a slot, and the map after a batch of \<open>n\<close> entries.\<close>

type_synonym slot_offsets = "(u64, u32) hash_map"

definition slot_base :: "u64 \<Rightarrow> slot_offsets \<Rightarrow> u32" where
  "slot_base slot m = (case map_of m slot of Some n \<Rightarrow> n | None \<Rightarrow> 0)"

definition advance_offset :: "u64 \<Rightarrow> nat \<Rightarrow> slot_offsets \<Rightarrow> slot_offsets" where
  "advance_offset slot n m = hm_insert slot (slot_base slot m + of_nat n) m"

definition prune_offsets :: "u64 \<Rightarrow> slot_offsets \<Rightarrow> slot_offsets" where
  "prune_offsets highest m = filter (\<lambda>(s, _). saturating_sub highest 512 \<le> s) m"

section \<open>The contract\<close>

record stamper =
  sp_offsets :: slot_offsets
  sp_highest :: u64
  sp_log :: "(u64 \<times> u32) list"

definition stamper_init :: stamper where
  "stamper_init = \<lparr> sp_offsets = [], sp_highest = 0, sp_log = [] \<rparr>"

definition stamp_batch :: "u64 \<Rightarrow> nat \<Rightarrow> stamper \<Rightarrow> stamper" where
  "stamp_batch slot n sp = sp\<lparr>
     sp_offsets := advance_offset slot n (sp_offsets sp),
     sp_log := sp_log sp @ map (\<lambda>i. (slot, slot_base slot (sp_offsets sp) + of_nat i)) [0..<n] \<rparr>"

inductive stamp_step :: "stamper \<Rightarrow> stamper \<Rightarrow> bool" where
  batch: "saturating_sub (sp_highest sp) 512 \<le> slot \<Longrightarrow> stamp_step sp (stamp_batch slot n sp)"
| frontier: "sp_highest sp \<le> h \<Longrightarrow> stamp_step sp (sp\<lparr>sp_highest := h\<rparr>)"
| prune: "stamp_step sp (sp\<lparr>sp_offsets := prune_offsets (sp_highest sp) (sp_offsets sp)\<rparr>)"

definition stamped :: "u64 \<Rightarrow> stamper \<Rightarrow> u32 list" where
  "stamped slot sp = map snd (filter (\<lambda>p. fst p = slot) (sp_log sp))"

definition stamper_ok :: "stamper \<Rightarrow> bool" where
  "stamper_ok sp \<longleftrightarrow> hm_inv (sp_offsets sp) \<and> (\<forall>slot.
     stamped slot sp = map of_nat [0..<length (stamped slot sp)] \<and>
     (saturating_sub (sp_highest sp) 512 \<le> slot \<longrightarrow>
       slot_base slot (sp_offsets sp) = of_nat (length (stamped slot sp))))"

lemma stamper_ok_init: "stamper_ok stamper_init"
  by (simp add: stamper_ok_def stamper_init_def stamped_def slot_base_def)

lemma stamped_batch:
  "stamped s (stamp_batch slot n sp) = stamped s sp @
     (if s = slot then map (\<lambda>i. slot_base slot (sp_offsets sp) + of_nat i) [0..<n] else [])"
  by (simp add: stamped_def stamp_batch_def comp_def filter_map)

lemma map_of_nat_append:
  "map of_nat [0..<k] @ map (\<lambda>i. of_nat k + of_nat i) [0..<n] = (map of_nat [0..<k + n] :: u32 list)"
  by (induction n) (simp_all flip: of_nat_add)

lemma stamper_ok_batch:
  assumes "stamper_ok sp" "saturating_sub (sp_highest sp) 512 \<le> slot"
  shows "stamper_ok (stamp_batch slot n sp)"
proof -
  have b: "slot_base slot (sp_offsets sp) = of_nat (length (stamped slot sp))"
    and l: "stamped s sp = map of_nat [0..<length (stamped s sp)]" for s
    using assms by (simp_all add: stamper_ok_def)
  have "stamped s (stamp_batch slot n sp) = map of_nat [0..<length (stamped s (stamp_batch slot n sp))]" for s
  proof (cases "s = slot")
    case True
    have "stamped slot sp @ map (\<lambda>i. of_nat (length (stamped slot sp)) + of_nat i) [0..<n] =
        map of_nat [0..<length (stamped slot sp) + n]"
      by (subst l) (rule map_of_nat_append)
    then show ?thesis using True by (simp add: stamped_batch b)
  next
    case False
    then show ?thesis using l by (simp add: stamped_batch)
  qed
  moreover have "slot_base s (sp_offsets (stamp_batch slot n sp)) = of_nat (length (stamped s (stamp_batch slot n sp)))"
    if "saturating_sub (sp_highest (stamp_batch slot n sp)) 512 \<le> s" for s
    using that assms
    by (auto simp: stamper_ok_def stamped_batch) (auto simp: stamp_batch_def advance_offset_def slot_base_def map_simps)
  moreover have "hm_inv (sp_offsets (stamp_batch slot n sp))"
    using assms by (simp add: stamper_ok_def stamp_batch_def advance_offset_def hm.invar_insert)
  ultimately show ?thesis by (simp add: stamper_ok_def)
qed

lemma slot_base_prune:
  assumes "hm_inv m" "saturating_sub h 512 \<le> s"
  shows "slot_base s (prune_offsets h m) = slot_base s m"
  using assms by (simp add: slot_base_def prune_offsets_def map_of_filter_keys hm_inv_def split: option.splits)

lemma hm_inv_prune: "hm_inv m \<Longrightarrow> hm_inv (prune_offsets h m)"
  by (simp add: hm_inv_def prune_offsets_def distinct_map_filter)

lemma stamper_ok_step: "stamp_step sp sp' \<Longrightarrow> stamper_ok sp \<Longrightarrow> stamper_ok sp'"
proof (induction rule: stamp_step.induct)
  case (batch sp slot n)
  then show ?case by (simp add: stamper_ok_batch)
next
  case (frontier sp h)
  then have "saturating_sub h 512 \<le> s \<Longrightarrow> saturating_sub (sp_highest sp) 512 \<le> s" for s
    using saturating_sub_mono order_trans by blast
  then show ?case using frontier by (simp add: stamper_ok_def stamped_def)
next
  case (prune sp)
  then show ?case by (simp add: stamper_ok_def stamped_def slot_base_prune hm_inv_prune)
qed

lemma stamper_reachable: "stamp_step\<^sup>*\<^sup>* stamper_init sp \<Longrightarrow> stamper_ok sp"
  by (induction rule: rtranclp_induct) (auto intro: stamper_ok_init stamper_ok_step)

section \<open>A batch of the code is a batch of the contract\<close>

definition obs_index :: "entry_observation \<Rightarrow> u64 \<times> u32" where
  "obs_index ob = (obs_slot ob, obs_entry_index ob)"

definition stamps :: "entry_observation chan \<Rightarrow> (u64 \<times> u32) list" where
  "stamps tx = map obs_index (attempts tx)"

lemma offer_obs_attempts [simp]: "attempts (fst (offer_obs acc ob sink)) = attempts (fst sink) @ [ob]"
  by (cases sink) (simp add: offer_obs_def try_send_def)

definition offered_entries :: "u64 \<Rightarrow> u32 \<Rightarrow> instant \<Rightarrow> instant option \<Rightarrow> sol_entry list \<Rightarrow> entry_observation list" where
  "offered_entries slot base observed first es =
    map (\<lambda>(i, e). ss_observation slot (base + of_nat i) observed first e) (enumerate 0 es)"

lemma offer_fold_attempts:
  "attempts (fst (fold (\<lambda>x. offer_obs acc (f x)) xs sink)) = attempts (fst sink) @ map f xs"
  by (induction xs arbitrary: sink) simp_all

lemma offer_entries_attempts:
  "attempts (fst (offer_entries acc slot base observed first es sink)) =
    attempts (fst sink) @ offered_entries slot base observed first es"
  unfolding offer_entries_def offered_entries_def
  using offer_fold_attempts [of acc "\<lambda>(i, e). ss_observation slot (base + of_nat i) observed first e" "enumerate 0 es" sink]
  by (simp add: case_prod_unfold)

lemma index_offered:
  "map obs_index (offered_entries slot base observed first es) = map (\<lambda>i. (slot, base + of_nat i)) [0..<length es]"
proof -
  have "map obs_index (offered_entries slot base observed first es) =
      map (\<lambda>x. (slot, base + of_nat (fst x))) (enumerate 0 es)"
    by (simp add: offered_entries_def obs_index_def ss_observation_def case_prod_unfold comp_def)
  also have "\<dots> = map (\<lambda>i. (slot, base + of_nat i)) (map fst (enumerate 0 es))"
    by (simp only: map_map comp_def)
  finally show ?thesis by (simp only: map_fst_enumerate) simp
qed

lemma stamps_offered:
  "stamps (fst (offer_entries acc slot base observed first es sink)) =
    stamps (fst sink) @ map (\<lambda>i. (slot, base + of_nat i)) [0..<length es]"
  by (simp only: stamps_def offer_entries_attempts map_append index_offered)

text \<open>The refused observations are counted.\<close>

definition sink_ok :: "u64 \<Rightarrow> obs_sink \<Rightarrow> bool" where
  "sink_ok k sink \<longleftrightarrow> dk_ss_obs_channel_full (snd sink) = k + of_nat (refused (fst sink))"

lemma sink_ok_offer: "sink_ok k sink \<Longrightarrow> sink_ok k (offer_obs acc ob sink)"
  by (cases sink) (simp add: sink_ok_def offer_obs_def try_send_def)

lemma sink_ok_entries: "sink_ok k sink \<Longrightarrow> sink_ok k (offer_entries acc slot base observed first es sink)"
proof -
  have "sink_ok k sink \<Longrightarrow> sink_ok k (fold (\<lambda>x. offer_obs acc (f x)) xs sink)" for f xs
    by (induction xs arbitrary: sink) (simp_all add: sink_ok_offer)
  from this [of "\<lambda>(i, e). ss_observation slot (base + of_nat i) observed first e" "enumerate 0 es"]
  show "sink_ok k sink \<Longrightarrow> ?thesis"
    by (simp add: offer_entries_def case_prod_unfold)
qed

text \<open>Only the counter of refused observations changes.\<close>

lemma offer_counters:
  "snd (offer_obs acc ob sink) = (snd sink)\<lparr>dk_ss_obs_channel_full := dk_ss_obs_channel_full (snd (offer_obs acc ob sink))\<rparr>"
  by (cases sink) (simp add: offer_obs_def try_send_def)

end
