(* ===== verification/Reconnect.thy ===== *)
theory Reconnect
  imports Prelude
begin

text \<open>
  The reconnecting loop both gRPC sources have (\<open>run_loop\<close> of \<open>crates/entry-sources/src/yellowstone.rs\<close>
  and of \<open>shredstream/grpc.rs\<close>): sessions one after the other with a pause after each, doubled up to
  five seconds. The result is the final state and the pauses slept.
\<close>

definition next_backoff :: "u64 \<Rightarrow> u64" where
  "next_backoff ms = min (ms * 2) 5000"

fun reconnect_loop :: "('s \<Rightarrow> 'c \<Rightarrow> 'c) \<Rightarrow> 's list \<Rightarrow> u64 \<Rightarrow> 'c \<Rightarrow> 'c \<times> u64 list" where
  "reconnect_loop run [] backoff c = (c, [])"
| "reconnect_loop run (s # ss) backoff c =
    (case reconnect_loop run ss (next_backoff backoff) (run s c) of (c', slept) \<Rightarrow> (c', backoff # slept))"

definition backoff_after :: "nat \<Rightarrow> u64" where
  "backoff_after k = of_nat (min (100 * 2 ^ k) 5000)"

lemma next_backoff_after: "next_backoff (backoff_after k) = backoff_after (Suc k)"
proof -
  have "min (min (100 * 2 ^ k) 5000 * 2) 5000 = min (100 * 2 ^ Suc k) (5000 :: nat)" by (simp add: min_def)
  moreover have "unat (backoff_after k * 2) = min (100 * 2 ^ k) 5000 * 2"
    by (simp add: backoff_after_def unat_word_ariths unat_of_nat)
  ultimately have "unat (next_backoff (backoff_after k)) = min (100 * 2 ^ Suc k) 5000"
    by (simp add: next_backoff_def min_def word_le_nat_alt split: if_splits)
  moreover have "unat (backoff_after (Suc k)) = min (100 * 2 ^ Suc k) 5000"
    unfolding backoff_after_def by (simp only: unat_of_nat) (simp add: min_def)
  ultimately show ?thesis by (simp only: word_unat_eq_iff)
qed

lemma reconnect_pauses:
  "snd (reconnect_loop run ss (backoff_after k) c) = map backoff_after [k..<k + length ss]"
proof (induction ss arbitrary: k c)
  case (Cons s ss)
  have "[k..<k + length (s # ss)] = k # [Suc k..<Suc k + length ss]"
    by (simp add: upt_conv_Cons del: upt_Suc)
  then show ?case by (simp add: case_prod_unfold next_backoff_after Cons.IH)
qed simp

lemma reconnect_pauses_100:
  "snd (reconnect_loop run ss 100 c) = map backoff_after [0..<length ss]"
  using reconnect_pauses [of run ss 0 c] by (simp add: backoff_after_def)

lemma reconnect_state: "fst (reconnect_loop run ss backoff c) = fold run ss c"
  by (induction ss arbitrary: backoff c) (simp_all add: case_prod_unfold)

end
