(* ===== verification/Shredstream_Sources.thy ===== *)
theory Shredstream_Sources
  imports Fec_Tracker_Props Entry_Stamping Reconnect
begin

text \<open>
  The two Shredstream sources: the worker of \<open>shredstream/deshred.rs\<close>, which feeds the FEC tracker
  and decodes its sets, and the client of \<open>shredstream/grpc.rs\<close>, which receives decoded batches from
  a proxy. Both simulate the numbering machine of \<open>Entry_Stamping\<close>. The shred parser, the
  deshredder and the two codecs are parameters.
\<close>

section \<open>The deshred worker\<close>

record deshred_worker =
  dw_tracker :: fec_tracker
  dw_offset :: slot_offsets
  dw_highest :: u64
  dw_last_evict :: instant
  dw_tx :: "entry_observation chan"

definition deshred_init :: "drop_counters \<Rightarrow> instant \<Rightarrow> deshred_worker" where
  "deshred_init c now = \<lparr> dw_tracker = fec_tracker_new c, dw_offset = [], dw_highest = 0, dw_last_evict = now, dw_tx = [] \<rparr>"

text \<open>A received packet and the two clock readings of its round.\<close>

record deshred_turn =
  dt_packet :: raw_shred_packet
  dt_completed_at :: instant
  dt_now :: instant

definition inc_deshred_error :: "drop_counters \<Rightarrow> drop_counters" where
  "inc_deshred_error c = c\<lparr>dk_ss_deshred_error := dk_ss_deshred_error c + 1\<rparr>"

definition inc_decode_error :: "drop_counters \<Rightarrow> drop_counters" where
  "inc_decode_error c = c\<lparr>dk_ss_entry_decode_error := dk_ss_entry_decode_error c + 1\<rparr>"

definition set_counters :: "drop_counters \<Rightarrow> deshred_worker \<Rightarrow> deshred_worker" where
  "set_counters c w = w\<lparr>dw_tracker := (dw_tracker w)\<lparr>ft_counters := c\<rparr>\<rparr>"

definition emit_entries ::
  "(bytes list \<Rightarrow> bytes option) \<Rightarrow> (bytes \<Rightarrow> sol_entry list option) \<Rightarrow> entry_observation accept \<Rightarrow>
    fec_set_ready \<Rightarrow> deshred_worker \<Rightarrow> deshred_worker" where
  "emit_entries deshred decode acc r w =
    (let c = ft_counters (dw_tracker w)
     in case deshred (map sh_payload (fr_data_shreds r)) of
          None \<Rightarrow> set_counters (inc_deshred_error c) w
        | Some b \<Rightarrow> (case decode b of
            None \<Rightarrow> set_counters (inc_decode_error c) w
          | Some es \<Rightarrow> (case offer_entries acc (fr_slot r) (slot_base (fr_slot r) (dw_offset w)) (fr_completed_at r)
                (Some (fr_first_shred_at r)) es (dw_tx w, c) of (tx, c') \<Rightarrow>
              (set_counters c' w)\<lparr> dw_tx := tx, dw_offset := advance_offset (fr_slot r) (length es) (dw_offset w) \<rparr>)))"

definition deshred_ingest ::
  "(bytes \<Rightarrow> shred option) \<Rightarrow> (bytes list \<Rightarrow> bytes option) \<Rightarrow> (bytes \<Rightarrow> sol_entry list option) \<Rightarrow> entry_observation accept \<Rightarrow>
    deshred_turn \<Rightarrow> deshred_worker \<Rightarrow> deshred_worker" where
  "deshred_ingest parse deshred decode acc t w =
    (case ingest parse (dt_completed_at t) (dt_packet t) (dw_tracker w) of
       (None, ft) \<Rightarrow> w\<lparr>dw_tracker := ft\<rparr>
     | (Some r, ft) \<Rightarrow> emit_entries deshred decode acc r
         (w\<lparr> dw_tracker := ft, dw_highest := (if dw_highest w < fr_slot r then fr_slot r else dw_highest w) \<rparr>))"

definition deshred_upkeep :: "instant \<Rightarrow> deshred_worker \<Rightarrow> deshred_worker" where
  "deshred_upkeep now w =
    (if 500000000 < saturating_duration_since now (dw_last_evict w)
     then w\<lparr> dw_tracker := snd (evict_older_than now 2000000000 (dw_tracker w)),
             dw_offset := (if 2048 < length (dw_offset w) then prune_offsets (dw_highest w) (dw_offset w) else dw_offset w),
             dw_last_evict := now \<rparr>
     else w)"

definition deshred_loop ::
  "(bytes \<Rightarrow> shred option) \<Rightarrow> (bytes list \<Rightarrow> bytes option) \<Rightarrow> (bytes \<Rightarrow> sol_entry list option) \<Rightarrow> entry_observation accept \<Rightarrow>
    deshred_turn list \<Rightarrow> deshred_worker \<Rightarrow> deshred_worker" where
  "deshred_loop parse deshred decode acc ts w =
    fold (\<lambda>t w. deshred_upkeep (dt_now t) (deshred_ingest parse deshred decode acc t w)) ts w"

section \<open>The gRPC client\<close>

datatype entry_codec = Bincode | Wincode

text \<open>What the stream yields: an error ends the session.\<close>

datatype grpc_msg = GrpcError | GrpcEntries u64 bytes

record grpc_client =
  gc_tx :: "entry_observation chan"
  gc_counters :: drop_counters
  gc_codec :: "entry_codec option"
  gc_offset :: slot_offsets
  gc_highest :: u64

definition grpc_init :: "drop_counters \<Rightarrow> grpc_client" where
  "grpc_init c = \<lparr> gc_tx = [], gc_counters = c, gc_codec = None, gc_offset = [], gc_highest = 0 \<rparr>"

text \<open>The codec that decoded the first message is kept in a static cell.\<close>

definition decode_entries ::
  "(bytes \<Rightarrow> sol_entry list option) \<Rightarrow> (bytes \<Rightarrow> sol_entry list option) \<Rightarrow> entry_codec option \<Rightarrow> bytes \<Rightarrow>
    sol_entry list option \<times> entry_codec option" where
  "decode_entries bincode wincode codec b = (case codec of
     Some Bincode \<Rightarrow> (bincode b, codec)
   | Some Wincode \<Rightarrow> (wincode b, codec)
   | None \<Rightarrow> (case bincode b of Some v \<Rightarrow> (Some v, Some Bincode)
       | None \<Rightarrow> (case wincode b of Some v \<Rightarrow> (Some v, Some Wincode) | None \<Rightarrow> (None, None))))"

definition grpc_batch ::
  "entry_observation accept \<Rightarrow> instant \<Rightarrow> u64 \<Rightarrow> sol_entry list \<Rightarrow> grpc_client \<Rightarrow> grpc_client" where
  "grpc_batch acc observed slot es g =
    (case offer_entries acc slot (slot_base slot (gc_offset g)) observed None es (gc_tx g, gc_counters g) of (tx, c) \<Rightarrow>
      (let offset = advance_offset slot (length es) (gc_offset g);
           highest = (if gc_highest g < slot then slot else gc_highest g)
       in g\<lparr> gc_tx := tx, gc_counters := c, gc_highest := highest,
             gc_offset := (if 1024 < length offset then prune_offsets highest offset else offset) \<rparr>))"

definition grpc_entries ::
  "(bytes \<Rightarrow> sol_entry list option) \<Rightarrow> (bytes \<Rightarrow> sol_entry list option) \<Rightarrow> entry_observation accept \<Rightarrow>
    instant \<Rightarrow> u64 \<Rightarrow> bytes \<Rightarrow> grpc_client \<Rightarrow> grpc_client" where
  "grpc_entries bincode wincode acc observed slot b g =
    (case decode_entries bincode wincode (gc_codec g) b of
       (None, codec) \<Rightarrow> g\<lparr> gc_codec := codec, gc_counters := inc_decode_error (gc_counters g) \<rparr>
     | (Some es, codec) \<Rightarrow> grpc_batch acc observed slot es (g\<lparr>gc_codec := codec\<rparr>))"

fun grpc_messages ::
  "(bytes \<Rightarrow> sol_entry list option) \<Rightarrow> (bytes \<Rightarrow> sol_entry list option) \<Rightarrow> entry_observation accept \<Rightarrow>
    (instant \<times> grpc_msg) list \<Rightarrow> grpc_client \<Rightarrow> grpc_client \<times> bool" where
  "grpc_messages bincode wincode acc [] g = (g, True)"
| "grpc_messages bincode wincode acc ((observed, m) # ms) g = (case m of
     GrpcError \<Rightarrow> (g, False)
   | GrpcEntries slot b \<Rightarrow>
       grpc_messages bincode wincode acc ms (grpc_entries bincode wincode acc observed slot b g))"

text \<open>A session: the connection and the subscription may fail; the offsets are local to it.\<close>

definition grpc_run_once ::
  "(bytes \<Rightarrow> sol_entry list option) \<Rightarrow> (bytes \<Rightarrow> sol_entry list option) \<Rightarrow> entry_observation accept \<Rightarrow>
    (instant \<times> grpc_msg) list option \<Rightarrow> grpc_client \<Rightarrow> grpc_client \<times> bool" where
  "grpc_run_once bincode wincode acc session g = (case session of
     None \<Rightarrow> (g, False)
   | Some ms \<Rightarrow> grpc_messages bincode wincode acc ms (g\<lparr> gc_offset := [], gc_highest := 0 \<rparr>))"

text \<open>The reconnecting loop over the sessions, with the pauses slept.\<close>

definition grpc_run_loop ::
  "(bytes \<Rightarrow> sol_entry list option) \<Rightarrow> (bytes \<Rightarrow> sol_entry list option) \<Rightarrow> entry_observation accept \<Rightarrow>
    (instant \<times> grpc_msg) list option list \<Rightarrow> grpc_client \<Rightarrow> grpc_client \<times> u64 list" where
  "grpc_run_loop bincode wincode acc ss g =
    reconnect_loop (\<lambda>s g. fst (grpc_run_once bincode wincode acc s g)) ss 100 g"

section \<open>Both simulate the numbering machine\<close>

definition deshred_abs :: "deshred_worker \<Rightarrow> stamper" where
  "deshred_abs w = \<lparr> sp_offsets = dw_offset w, sp_highest = dw_highest w, sp_log = stamps (dw_tx w) \<rparr>"

definition grpc_abs :: "grpc_client \<Rightarrow> stamper" where
  "grpc_abs g = \<lparr> sp_offsets = gc_offset g, sp_highest = gc_highest g, sp_log = stamps (gc_tx g) \<rparr>"

text \<open>A batch is fresh when its slot is not more than 512 slots behind the frontier.\<close>

definition fresh_slot :: "u64 \<Rightarrow> u64 \<Rightarrow> bool" where
  "fresh_slot highest slot \<longleftrightarrow> saturating_sub (max highest slot) 512 \<le> slot"

lemma fresh_slot_frontier: "fresh_slot highest slot \<Longrightarrow> saturating_sub highest 512 \<le> slot"
  unfolding fresh_slot_def by (rule order_trans [OF saturating_sub_mono]) auto

lemma stamps_emit:
  assumes "fresh_slot (dw_highest w) (fr_slot r)"
  shows "stamp_step\<^sup>*\<^sup>* (deshred_abs w) (deshred_abs (emit_entries deshred decode acc r w))"
proof -
  have "deshred_abs (emit_entries deshred decode acc r w) = deshred_abs w \<or>
    (\<exists>n. deshred_abs (emit_entries deshred decode acc r w) = stamp_batch (fr_slot r) n (deshred_abs w))"
  proof (cases "deshred (map sh_payload (fr_data_shreds r))")
    case (Some b)
    show ?thesis
    proof (cases "decode b")
      case (Some es)
      let ?o = "offer_entries acc (fr_slot r) (slot_base (fr_slot r) (dw_offset w)) (fr_completed_at r)
        (Some (fr_first_shred_at r)) es (dw_tx w, ft_counters (dw_tracker w))"
      have e: "emit_entries deshred decode acc r w = (set_counters (snd ?o) w)\<lparr> dw_tx := fst ?o,
          dw_offset := advance_offset (fr_slot r) (length es) (dw_offset w) \<rparr>"
        using \<open>deshred (map sh_payload (fr_data_shreds r)) = Some b\<close> Some
        by (simp add: emit_entries_def Let_def case_prod_unfold)
      have "deshred_abs (emit_entries deshred decode acc r w) = stamp_batch (fr_slot r) (length es) (deshred_abs w)"
        unfolding e by (simp add: deshred_abs_def stamp_batch_def stamps_offered set_counters_def)
      then show ?thesis by blast
    qed (simp add: \<open>deshred _ = Some b\<close> emit_entries_def Let_def deshred_abs_def set_counters_def)
  qed (simp add: emit_entries_def Let_def deshred_abs_def set_counters_def)
  moreover have "stamp_step (deshred_abs w) (stamp_batch (fr_slot r) n (deshred_abs w))" for n
    by (rule stamp_step.batch) (use fresh_slot_frontier [OF assms] in \<open>simp add: deshred_abs_def\<close>)
  ultimately show ?thesis by (metis r_into_rtranclp rtranclp.rtrancl_refl)
qed

end
