(* ===== verification/Shredstream_Props.thy ===== *)
theory Shredstream_Props
  imports Shredstream_Sources
begin

text \<open>
  Properties of the Shredstream sources: the numbers of the entries of a slot, the counters of the
  refused observations, and the order of the two instants of an observation.
\<close>

section \<open>Rounds of the worker\<close>

fun deshred_fresh ::
  "(bytes \<Rightarrow> shred option) \<Rightarrow> (bytes list \<Rightarrow> bytes option) \<Rightarrow> (bytes \<Rightarrow> sol_entry list option) \<Rightarrow> entry_observation accept \<Rightarrow>
    deshred_turn list \<Rightarrow> deshred_worker \<Rightarrow> bool" where
  "deshred_fresh parse deshred decode acc [] w = True"
| "deshred_fresh parse deshred decode acc (t # ts) w =
    ((case fst (ingest parse (dt_completed_at t) (dt_packet t) (dw_tracker w)) of
        Some r \<Rightarrow> fresh_slot (dw_highest w) (fr_slot r) | None \<Rightarrow> True) \<and>
     deshred_fresh parse deshred decode acc ts
       (deshred_upkeep (dt_now t) (deshred_ingest parse deshred decode acc t w)))"

lemma steps_upkeep: "stamp_step\<^sup>*\<^sup>* (deshred_abs w) (deshred_abs (deshred_upkeep now w))"
proof -
  have "deshred_abs (deshred_upkeep now w) = deshred_abs w \<or>
      deshred_abs (deshred_upkeep now w) =
        (deshred_abs w)\<lparr>sp_offsets := prune_offsets (sp_highest (deshred_abs w)) (sp_offsets (deshred_abs w))\<rparr>"
    by (simp add: deshred_upkeep_def deshred_abs_def)
  then show ?thesis
    using stamp_step.prune [of "deshred_abs w"] by (metis r_into_rtranclp rtranclp.rtrancl_refl)
qed

lemma fresh_slot_after: "fresh_slot h s \<Longrightarrow> fresh_slot (if h < s then s else h) s"
  by (cases "h < s") (simp_all add: fresh_slot_def max_absorb2 less_imp_le)

lemma steps_ingest:
  assumes "case fst (ingest parse (dt_completed_at t) (dt_packet t) (dw_tracker w)) of
    Some r \<Rightarrow> fresh_slot (dw_highest w) (fr_slot r) | None \<Rightarrow> True"
  shows "stamp_step\<^sup>*\<^sup>* (deshred_abs w) (deshred_abs (deshred_ingest parse deshred decode acc t w))"
proof -
  obtain r ft where i: "ingest parse (dt_completed_at t) (dt_packet t) (dw_tracker w) = (r, ft)" by fastforce
  show ?thesis
  proof (cases r)
    case None
    then show ?thesis by (simp add: deshred_ingest_def i deshred_abs_def)
  next
    case (Some rd)
    let ?h = "if dw_highest w < fr_slot rd then fr_slot rd else dw_highest w"
    let ?w = "w\<lparr> dw_tracker := ft, dw_highest := ?h \<rparr>"
    have f: "fresh_slot (dw_highest w) (fr_slot rd)" using assms by (simp add: i Some)
    have "stamp_step (deshred_abs w) ((deshred_abs w)\<lparr>sp_highest := ?h\<rparr>)"
      by (rule stamp_step.frontier) (auto simp: deshred_abs_def)
    moreover have "(deshred_abs w)\<lparr>sp_highest := ?h\<rparr> = deshred_abs ?w" by (simp add: deshred_abs_def)
    moreover have "stamp_step\<^sup>*\<^sup>* (deshred_abs ?w) (deshred_abs (emit_entries deshred decode acc rd ?w))"
      by (rule stamps_emit) (use fresh_slot_after [OF f] in simp)
    ultimately have "stamp_step\<^sup>*\<^sup>* (deshred_abs w) (deshred_abs (emit_entries deshred decode acc rd ?w))"
      by (metis converse_rtranclp_into_rtranclp)
    then show ?thesis by (simp add: deshred_ingest_def i Some)
  qed
qed

lemma steps_deshred:
  "deshred_fresh parse deshred decode acc ts w \<Longrightarrow>
    stamp_step\<^sup>*\<^sup>* (deshred_abs w) (deshred_abs (deshred_loop parse deshred decode acc ts w))"
proof (induction ts arbitrary: w)
  case Nil
  then show ?case by (simp add: deshred_loop_def)
next
  case (Cons t ts)
  let ?w = "deshred_upkeep (dt_now t) (deshred_ingest parse deshred decode acc t w)"
  have "stamp_step\<^sup>*\<^sup>* (deshred_abs w) (deshred_abs ?w)"
    by (rule rtranclp_trans [OF steps_ingest steps_upkeep]) (use Cons.prems in simp)
  then show ?case using Cons.IH [of ?w] Cons.prems by (auto simp: deshred_loop_def intro: rtranclp_trans)
qed

text \<open>The numbers given to the entries of a slot, in the order they were offered.\<close>

definition slot_numbers :: "u64 \<Rightarrow> entry_observation chan \<Rightarrow> u32 list" where
  "slot_numbers slot tx = map obs_entry_index (filter (\<lambda>ob. obs_slot ob = slot) (attempts tx))"

lemma stamped_numbers: "sp_log sp = stamps tx \<Longrightarrow> stamped slot sp = slot_numbers slot tx"
  by (simp add: stamped_def stamps_def slot_numbers_def obs_index_def filter_map comp_def)

lemma numbers_of_reachable:
  assumes "stamp_step\<^sup>*\<^sup>* stamper_init sp" "sp_log sp = stamps tx"
  shows "slot_numbers slot tx = map of_nat [0..<length (slot_numbers slot tx)]"
proof -
  have "stamped slot sp = map of_nat [0..<length (stamped slot sp)]"
    using stamper_reachable [OF assms(1)] unfolding stamper_ok_def by blast
  then show ?thesis unfolding stamped_numbers [OF assms(2)] .
qed

text \<open>C12: The worker numbers the entries of every slot 0, 1, 2, ... in the order it offers them,
  although it forgets old slots, as long as no FEC set completes for a slot more than 512 slots
  behind the newest.\<close>
theorem deshred_numbers_entries:
  assumes "deshred_fresh parse deshred decode acc ts (deshred_init c now)"
  shows "slot_numbers slot (dw_tx (deshred_loop parse deshred decode acc ts (deshred_init c now))) =
    map of_nat [0..<length (slot_numbers slot (dw_tx (deshred_loop parse deshred decode acc ts (deshred_init c now))))]"
proof (rule numbers_of_reachable)
  have "deshred_abs (deshred_init c now) = stamper_init"
    by (simp add: deshred_abs_def deshred_init_def stamper_init_def stamps_def)
  then show "stamp_step\<^sup>*\<^sup>* stamper_init (deshred_abs (deshred_loop parse deshred decode acc ts (deshred_init c now)))"
    using steps_deshred [OF assms] by simp
qed (simp add: deshred_abs_def)

section \<open>Sessions of the client\<close>

fun grpc_fresh ::
  "(bytes \<Rightarrow> sol_entry list option) \<Rightarrow> (bytes \<Rightarrow> sol_entry list option) \<Rightarrow> entry_observation accept \<Rightarrow>
    (instant \<times> grpc_msg) list \<Rightarrow> grpc_client \<Rightarrow> bool" where
  "grpc_fresh bincode wincode acc [] g = True"
| "grpc_fresh bincode wincode acc ((observed, m) # ms) g = (case m of
     GrpcError \<Rightarrow> True
   | GrpcEntries slot b \<Rightarrow> fresh_slot (gc_highest g) slot \<and>
       grpc_fresh bincode wincode acc ms (grpc_entries bincode wincode acc observed slot b g))"

lemma steps_grpc_entries:
  assumes "fresh_slot (gc_highest g) slot"
  shows "stamp_step\<^sup>*\<^sup>* (grpc_abs g) (grpc_abs (grpc_entries bincode wincode acc observed slot b g))"
proof -
  obtain v codec where d: "decode_entries bincode wincode (gc_codec g) b = (v, codec)" by fastforce
  show ?thesis
  proof (cases v)
    case None
    then show ?thesis by (simp add: grpc_entries_def d grpc_abs_def)
  next
    case (Some es)
    let ?b = "stamp_batch slot (length es) (grpc_abs g)"
    let ?h = "if gc_highest g < slot then slot else gc_highest g"
    let ?f = "?b\<lparr>sp_highest := ?h\<rparr>"
    let ?g = "grpc_batch acc observed slot es (g\<lparr>gc_codec := codec\<rparr>)"
    have "stamp_step (grpc_abs g) ?b"
      by (rule stamp_step.batch) (use fresh_slot_frontier [OF assms] in \<open>simp add: grpc_abs_def\<close>)
    moreover have "stamp_step ?b ?f"
      by (rule stamp_step.frontier) (auto simp: grpc_abs_def stamp_batch_def)
    moreover have "stamp_step ?f (?f\<lparr>sp_offsets := prune_offsets (sp_highest ?f) (sp_offsets ?f)\<rparr>)"
      by (rule stamp_step.prune)
    moreover have "grpc_abs ?g = ?f \<or> grpc_abs ?g = ?f\<lparr>sp_offsets := prune_offsets (sp_highest ?f) (sp_offsets ?f)\<rparr>"
      by (simp add: grpc_batch_def case_prod_unfold Let_def grpc_abs_def stamp_batch_def stamps_offered)
    ultimately have "stamp_step\<^sup>*\<^sup>* (grpc_abs g) (grpc_abs ?g)"
      by (metis (no_types, lifting) converse_rtranclp_into_rtranclp rtranclp.rtrancl_refl)
    then show ?thesis by (simp add: grpc_entries_def d Some)
  qed
qed

lemma steps_grpc:
  "grpc_fresh bincode wincode acc ms g \<Longrightarrow>
    stamp_step\<^sup>*\<^sup>* (grpc_abs g) (grpc_abs (fst (grpc_messages bincode wincode acc ms g)))"
proof (induction bincode wincode acc ms g rule: grpc_messages.induct)
  case (2 bincode wincode acc observed m ms g)
  then show ?case
  proof (cases m)
    case (GrpcEntries slot b)
    then have "stamp_step\<^sup>*\<^sup>* (grpc_abs g) (grpc_abs (grpc_entries bincode wincode acc observed slot b g))"
      using 2 by (simp add: steps_grpc_entries)
    then show ?thesis using 2 GrpcEntries by (auto intro: rtranclp_trans)
  qed simp
qed simp

text \<open>The gRPC client numbers the entries of every slot of a session 0, 1, 2, ... in the order it
  offers them, although it forgets old slots, as long as no batch is for a slot more than 512 slots
  behind the newest.\<close>
theorem grpc_numbers_entries:
  assumes "grpc_fresh bincode wincode acc ms (grpc_init c)"
  shows "slot_numbers slot (gc_tx (fst (grpc_run_once bincode wincode acc (Some ms) (grpc_init c)))) =
    map of_nat [0..<length (slot_numbers slot (gc_tx (fst (grpc_run_once bincode wincode acc (Some ms) (grpc_init c)))))]"
proof (rule numbers_of_reachable)
  have i: "(grpc_init c)\<lparr> gc_offset := [], gc_highest := 0 \<rparr> = grpc_init c" by (simp add: grpc_init_def)
  have "grpc_abs (grpc_init c) = stamper_init"
    by (simp add: grpc_abs_def grpc_init_def stamper_init_def stamps_def)
  then show "stamp_step\<^sup>*\<^sup>* stamper_init (grpc_abs (fst (grpc_run_once bincode wincode acc (Some ms) (grpc_init c))))"
    using steps_grpc [OF assms] by (simp add: grpc_run_once_def i)
qed (simp add: grpc_abs_def)

section \<open>Refused observations are counted\<close>

definition obs_refused_counted :: "entry_observation chan \<Rightarrow> drop_counters \<Rightarrow> bool" where
  "obs_refused_counted tx c \<longleftrightarrow> sink_ok 0 (tx, c)"

lemma sink_ok_split: "sink_ok 0 s \<Longrightarrow> (case s of (tx, c) \<Rightarrow> obs_refused_counted tx c)"
  by (cases s) (simp add: obs_refused_counted_def)

lemma ingest_obs_counter:
  "dk_ss_obs_channel_full (ft_counters (snd (ingest parse now p ft))) = dk_ss_obs_channel_full (ft_counters ft)"
  by (cases "parse (rp_bytes p)") (simp_all add: ingest_def Let_def)

lemma counted_emit:
  assumes "obs_refused_counted (dw_tx w) (ft_counters (dw_tracker w))"
  shows "obs_refused_counted (dw_tx (emit_entries deshred decode acc r w)) (ft_counters (dw_tracker (emit_entries deshred decode acc r w)))"
proof -
  have "sink_ok 0 (offer_entries acc (fr_slot r) (slot_base (fr_slot r) (dw_offset w)) (fr_completed_at r)
      (Some (fr_first_shred_at r)) es (dw_tx w, ft_counters (dw_tracker w)))" for es
    by (rule sink_ok_entries) (use assms in \<open>simp add: obs_refused_counted_def\<close>)
  then show ?thesis using assms
    by (simp add: emit_entries_def Let_def set_counters_def obs_refused_counted_def case_prod_unfold
        sink_ok_def inc_deshred_error_def inc_decode_error_def split: option.split)
qed

lemma counted_round:
  assumes "obs_refused_counted (dw_tx w) (ft_counters (dw_tracker w))"
  shows "obs_refused_counted (dw_tx (deshred_upkeep now (deshred_ingest parse deshred decode acc t w)))
    (ft_counters (dw_tracker (deshred_upkeep now (deshred_ingest parse deshred decode acc t w))))"
proof -
  obtain r ft where i: "ingest parse (dt_completed_at t) (dt_packet t) (dw_tracker w) = (r, ft)" by fastforce
  have c: "obs_refused_counted (dw_tx w) (ft_counters ft)"
    using assms ingest_obs_counter [of parse "dt_completed_at t" "dt_packet t" "dw_tracker w"]
    by (simp add: obs_refused_counted_def sink_ok_def i)
  have "obs_refused_counted (dw_tx (deshred_ingest parse deshred decode acc t w))
      (ft_counters (dw_tracker (deshred_ingest parse deshred decode acc t w)))"
  proof (cases r)
    case None
    then show ?thesis using c by (simp add: deshred_ingest_def i)
  next
    case (Some rd)
    show ?thesis unfolding deshred_ingest_def i Some option.case prod.case
      by (rule counted_emit) (use c in simp)
  qed
  then show ?thesis
    by (simp add: deshred_upkeep_def evict_older_than_def Let_def obs_refused_counted_def sink_ok_def)
qed

lemma counted_loop:
  "obs_refused_counted (dw_tx w) (ft_counters (dw_tracker w)) \<Longrightarrow>
    obs_refused_counted (dw_tx (deshred_loop parse deshred decode acc ts w))
      (ft_counters (dw_tracker (deshred_loop parse deshred decode acc ts w)))"
proof (induction ts arbitrary: w)
  case Nil
  then show ?case by (simp add: deshred_loop_def)
next
  case (Cons t ts)
  from Cons.IH [OF counted_round [OF Cons.prems, of "dt_now t" parse deshred decode acc t]]
  show ?case by (simp add: deshred_loop_def)
qed

section \<open>The first shred comes first\<close>

text \<open>The clock readings of the rounds are in order, and packets are stamped before they are taken.\<close>

fun clock_in_order :: "instant \<Rightarrow> deshred_turn list \<Rightarrow> bool" where
  "clock_in_order lo [] = True"
| "clock_in_order lo (t # ts) = (rp_received_at (dt_packet t) \<le> dt_completed_at t \<and> lo \<le> dt_completed_at t \<and>
     dt_completed_at t \<le> dt_now t \<and> clock_in_order (dt_now t) ts)"

definition first_before :: "entry_observation \<Rightarrow> bool" where
  "first_before ob \<longleftrightarrow> (case obs_first_shred_at ob of Some f \<Rightarrow> f \<le> obs_observed_at ob | None \<Rightarrow> False)"

definition opened_by :: "instant \<Rightarrow> fec_set_state \<Rightarrow> bool" where
  "opened_by lo st \<longleftrightarrow> (case fs_first_shred_at st of Some f \<Rightarrow> f \<le> lo | None \<Rightarrow> True)"

definition in_time :: "instant \<Rightarrow> deshred_worker \<Rightarrow> bool" where
  "in_time lo w \<longleftrightarrow> list_all (\<lambda>e. opened_by lo (snd e)) (ft_sets (dw_tracker w)) \<and> list_all first_before (attempts (dw_tx w))"

lemma opened_by_mono: "opened_by lo st \<Longrightarrow> lo \<le> hi \<Longrightarrow> opened_by hi st"
  by (auto simp: opened_by_def split: option.splits)

lemma store_shred_first:
  "fs_first_shred_at (store_shred received s st) =
    (case fs_first_shred_at st of None \<Rightarrow> Some received | Some f \<Rightarrow> Some f)"
  by (cases "sh_type s") (auto simp: store_shred_def Let_def split: option.splits)

lemma set_after_first:
  assumes "list_all (\<lambda>e. opened_by lo (snd e)) (ft_sets ft)" "lo \<le> now" "rp_received_at p \<le> now"
  shows "\<exists>f. fs_first_shred_at (set_after p s ft) = Some f \<and> f \<le> now"
proof (cases "map_of (ft_sets ft) (shred_key s)")
  case None
  then show ?thesis using assms(3) by (simp add: set_after_def store_shred_first fec_set_default_def)
next
  case (Some st)
  then have "opened_by lo st" using assms(1) map_of_SomeD by (fastforce simp: list_all_iff)
  then show ?thesis using assms(2,3) by (auto simp: set_after_def Some store_shred_first opened_by_def split: option.splits)
qed

lemma list_all_update_value:
  "list_all (\<lambda>e. P (snd e)) m \<Longrightarrow> P v \<Longrightarrow> list_all (\<lambda>e. P (snd e)) (hm_insert k v m)"
  by (rule list_all_update) simp_all

lemma list_all_remove: "list_all P m \<Longrightarrow> list_all P (hm_remove k m)"
  by (auto simp: list_all_iff AList.delete_eq)

lemma in_time_offered: "f \<le> t \<Longrightarrow> list_all first_before (offered_entries slot base t (Some f) es)"
  by (auto simp: offered_entries_def list_all_iff first_before_def ss_observation_def)

lemma in_time_emit:
  assumes "in_time lo w" "fr_first_shred_at r \<le> fr_completed_at r"
  shows "in_time lo (emit_entries deshred decode acc r w)"
  using assms in_time_offered [OF assms(2)]
  by (simp add: in_time_def emit_entries_def Let_def set_counters_def case_prod_unfold offer_entries_attempts
      split: option.split)

lemma in_time_ingest:
  assumes "in_time lo w" "rp_received_at (dt_packet t) \<le> dt_completed_at t" "lo \<le> dt_completed_at t"
  shows "in_time (dt_completed_at t) (deshred_ingest parse deshred decode acc t w)"
proof -
  let ?p = "dt_packet t"
  have o: "list_all (\<lambda>e. opened_by (dt_completed_at t) (snd e)) (ft_sets (dw_tracker w))"
    using assms(1,3) opened_by_mono by (auto simp: in_time_def list_all_iff)
  have lo: "list_all (\<lambda>e. opened_by lo (snd e)) (ft_sets (dw_tracker w))" and
    tx: "list_all first_before (attempts (dw_tx w))" using assms(1) by (simp_all add: in_time_def)
  show ?thesis
  proof (cases "parse (rp_bytes ?p)")
    case None
    then show ?thesis using o tx by (simp add: deshred_ingest_def ingest_def in_time_def)
  next
    case (Some s)
    let ?st = "set_after ?p s (dw_tracker w)"
    obtain f where f: "fs_first_shred_at ?st = Some f" "f \<le> dt_completed_at t"
      using set_after_first [OF lo assms(3,2)] by blast
    show ?thesis
    proof (cases "data_complete ?st")
      case True
      let ?w = "w\<lparr> dw_tracker := (dw_tracker w)\<lparr>ft_sets := hm_remove (shred_key s) (ft_sets (dw_tracker w))\<rparr>,
        dw_highest := (if dw_highest w < sh_slot s then sh_slot s else dw_highest w) \<rparr>"
      have "in_time (dt_completed_at t) ?w" using o tx by (simp add: in_time_def list_all_remove)
      moreover have "deshred_ingest parse deshred decode acc t w =
          emit_entries deshred decode acc (ready_set (shred_key s) (dt_completed_at t) ?st) ?w"
        by (simp add: deshred_ingest_def ingest_cases [where parse = parse, OF Some] True) (simp add: ready_set_def shred_key_def)
      ultimately show ?thesis using f by (simp add: in_time_emit ready_set_def)
    next
      case False
      have "opened_by (dt_completed_at t) ?st" using f by (simp add: opened_by_def)
      then show ?thesis using o tx
        by (simp add: deshred_ingest_def ingest_cases [where parse = parse, OF Some] False in_time_def list_all_update_value)
    qed
  qed
qed

lemma opened_all_mono:
  "list_all (\<lambda>e. opened_by lo (snd e)) m \<Longrightarrow> lo \<le> hi \<Longrightarrow> list_all (\<lambda>e. opened_by hi (snd e)) m"
  by (erule list.pred_mono_strong) (rule opened_by_mono)

lemma list_all_filter: "list_all P m \<Longrightarrow> list_all P (filter Q m)"
  by (induction m) simp_all

lemma in_time_upkeep:
  assumes "in_time lo w" "lo \<le> hi"
  shows "in_time hi (deshred_upkeep now w)"
proof -
  have "list_all (\<lambda>e. opened_by hi (snd e)) (ft_sets (dw_tracker w))"
    by (rule opened_all_mono [OF _ assms(2)]) (use assms(1) in \<open>simp add: in_time_def\<close>)
  moreover have "list_all first_before (attempts (dw_tx w))" using assms(1) by (simp add: in_time_def)
  ultimately show ?thesis by (simp add: in_time_def deshred_upkeep_def evict_older_than_def Let_def list_all_filter)
qed

lemma in_time_loop:
  "clock_in_order lo ts \<Longrightarrow> in_time lo w \<Longrightarrow>
    list_all first_before (attempts (dw_tx (deshred_loop parse deshred decode acc ts w)))"
proof (induction ts arbitrary: lo w)
  case Nil
  then show ?case by (simp add: deshred_loop_def in_time_def)
next
  case (Cons t ts)
  have "in_time (dt_completed_at t) (deshred_ingest parse deshred decode acc t w)"
    by (rule in_time_ingest [OF Cons.prems(2)]) (use Cons.prems(1) in simp_all)
  then have "in_time (dt_now t) (deshred_upkeep (dt_now t) (deshred_ingest parse deshred decode acc t w))"
    by (rule in_time_upkeep) (use Cons.prems(1) in simp)
  moreover have "clock_in_order (dt_now t) ts" using Cons.prems(1) by simp
  ultimately show ?case using Cons.IH [of "dt_now t"] by (simp add: deshred_loop_def)
qed

text \<open>Every observation the worker offers carries the instant of the first shred of its FEC set, and
  that instant is not after the observation; and the counter of refused observations is exact. The
  decode time of the report, which is their difference, is therefore never negative.\<close>
theorem deshred_first_shred_first:
  assumes "clock_in_order lo ts"
  shows "let w = deshred_loop parse deshred decode acc ts (deshred_init drop_counters_default now)
    in list_all first_before (attempts (dw_tx w)) \<and> obs_refused_counted (dw_tx w) (ft_counters (dw_tracker w))"
proof -
  let ?i = "deshred_init drop_counters_default now"
  have "in_time lo ?i" by (simp add: in_time_def deshred_init_def fec_tracker_new_def)
  moreover have "obs_refused_counted (dw_tx ?i) (ft_counters (dw_tracker ?i))"
    by (simp add: obs_refused_counted_def sink_ok_def deshred_init_def fec_tracker_new_def drop_counters_default_def)
  ultimately show ?thesis using in_time_loop [OF assms] counted_loop by (simp add: Let_def)
qed

section \<open>Samples\<close>

definition demo_decode :: "bytes \<Rightarrow> sol_entry list option" where
  "demo_decode b = (if b = [1] then None else Some [\<lparr> en_num_hashes = 62500, en_hash = 9, en_transactions = [] \<rparr>,
     \<lparr> en_num_hashes = 1, en_hash = 8, en_transactions = [\<lparr>st_signatures = [4]\<rparr>] \<rparr>])"

definition demo_turn_of :: "u8 \<Rightarrow> deshred_turn" where
  "demo_turn_of i = \<lparr> dt_packet = \<lparr> rp_bytes = [i], rp_received_at = 7 \<rparr>, dt_completed_at = 8, dt_now = 8 \<rparr>"

lemma deshred_numbers_entries_witness:
  "slot_numbers 5 (dw_tx (deshred_loop demo_parse (\<lambda>_. Some []) demo_decode (\<lambda>_ _. True)
     [demo_turn_of 3, demo_turn_of 2] (deshred_init drop_counters_default 0))) = [0, 1]"
proof -
  let ?w = "deshred_loop demo_parse (\<lambda>_. Some []) demo_decode (\<lambda>_ _. True) [demo_turn_of 3, demo_turn_of 2]
    (deshred_init drop_counters_default 0)"
  have f: "deshred_fresh demo_parse (\<lambda>_. Some []) demo_decode (\<lambda>_ _. True) [demo_turn_of 3, demo_turn_of 2]
      (deshred_init drop_counters_default 0)"
    by (simp add: demo_turn_of_def deshred_init_def fec_tracker_new_def ingest_def demo_parse_def shred_key_def Let_def
        store_shred_def fec_set_default_def terminator_def data_complete_def deshred_ingest_def ready_set_def
        fresh_slot_def saturating_sub_def word_le_nat_alt max_def deshred_upkeep_def saturating_duration_since_def)
  have "length (slot_numbers 5 (dw_tx ?w)) = 2"
    by (simp add: deshred_loop_def demo_turn_of_def deshred_init_def fec_tracker_new_def ingest_def demo_parse_def
        shred_key_def Let_def store_shred_def fec_set_default_def terminator_def data_complete_def deshred_ingest_def
        ready_set_def word_le_nat_alt deshred_upkeep_def saturating_duration_since_def emit_entries_def demo_decode_def
        offer_entries_def offer_obs_def try_send_def slot_numbers_def ss_observation_def set_counters_def)
  then show ?thesis using deshred_numbers_entries [OF f, of 5] by (simp add: upt_rec)
qed

lemma grpc_numbers_entries_witness:
  "slot_numbers 5 (gc_tx (fst (grpc_run_once demo_decode demo_decode (\<lambda>_ _. True)
     (Some [(3, GrpcEntries 5 []), (4, GrpcEntries 5 [])]) (grpc_init drop_counters_default)))) = [0, 1, 2, 3]"
proof -
  let ?ms = "[(3, GrpcEntries 5 []), (4, GrpcEntries 5 [])]"
  have f: "grpc_fresh demo_decode demo_decode (\<lambda>_ _. True) ?ms (grpc_init drop_counters_default)"
    by (simp add: grpc_init_def fresh_slot_def saturating_sub_def word_le_nat_alt max_def grpc_entries_def decode_entries_def
        demo_decode_def grpc_batch_def offer_entries_def offer_obs_def try_send_def Let_def advance_offset_def slot_base_def)
  have "length (slot_numbers 5 (gc_tx (fst (grpc_run_once demo_decode demo_decode (\<lambda>_ _. True) (Some ?ms)
      (grpc_init drop_counters_default))))) = 4"
    by (simp add: grpc_run_once_def grpc_init_def grpc_entries_def decode_entries_def demo_decode_def grpc_batch_def
        offer_entries_def offer_obs_def try_send_def Let_def advance_offset_def slot_base_def slot_numbers_def ss_observation_def)
  then show ?thesis using grpc_numbers_entries [OF f, of 5] by (simp add: upt_rec)
qed

lemma deshred_first_shred_first_witness:
  "let w = deshred_loop demo_parse (\<lambda>_. Some []) demo_decode (\<lambda>_ _. True) [demo_turn_of 3, demo_turn_of 2]
      (deshred_init drop_counters_default 0)
    in list_all first_before (attempts (dw_tx w)) \<and> obs_refused_counted (dw_tx w) (ft_counters (dw_tracker w))"
  by (rule deshred_first_shred_first [of 0]) (simp add: demo_turn_of_def)

text \<open>A reconnection forgets the offsets: the entries of the current slot are numbered from 0 again.\<close>

lemma reconnect_restarts_numbers:
  "slot_numbers 5 (gc_tx (fst (grpc_run_loop demo_decode demo_decode (\<lambda>_ _. True)
     [Some [(3, GrpcEntries 5 []), (3, GrpcError)], Some [(4, GrpcEntries 5 [])]] (grpc_init drop_counters_default)))) =
    [0, 1, 0, 1]"
  by (simp add: grpc_run_loop_def grpc_run_once_def grpc_init_def grpc_entries_def decode_entries_def demo_decode_def grpc_batch_def
      offer_entries_def offer_obs_def try_send_def Let_def advance_offset_def slot_base_def slot_numbers_def ss_observation_def)

text \<open>The codec of the first message that decodes is used for ever: when that message decodes in both
  formats, later messages of the other format are lost.\<close>

lemma codec_fixed_by_first:
  assumes "bincode b = Some v" "bincode b' = None"
  shows "fst (decode_entries bincode wincode (snd (decode_entries bincode wincode None b)) b') = None"
  using assms by (simp add: decode_entries_def)

end
