(* ===== verification/Yellowstone_Source.thy ===== *)
theory Yellowstone_Source
  imports Observation Drop_Counters Bytes Reconnect "HOL-Library.Sublist"
begin

text \<open>
  \<open>crates/entry-sources/src/yellowstone.rs\<close>: the Yellowstone client. The transport is a parameter: what
  a connection request yields is a session (a list of stream items) or nothing when connecting or
  subscribing fails. Sessions follow each other for ever; a run is a list of them.
\<close>

record ys_update =
  yu_slot :: u64
  yu_index :: u64
  yu_num_hashes :: u64
  yu_hash :: bytes
  yu_executed_transaction_count :: u64

datatype ys_msg = YsError | YsEntry ys_update | YsOther

definition ys_decode_entry :: "ys_update \<Rightarrow> instant \<Rightarrow> entry_observation" where
  "ys_decode_entry e observed = \<lparr> obs_source = Yellowstone, obs_observed_at = observed, obs_slot = yu_slot e,
     obs_entry_index = ucast (yu_index e), obs_num_hashes = yu_num_hashes e,
     obs_entry_hash = (if length (yu_hash e) = 32 then key_of_bytes (yu_hash e) else 0),
     obs_tx_count = ucast (yu_executed_transaction_count e), obs_signatures = [],
     obs_first_shred_at = None, obs_leader = None \<rparr>"

text \<open>How a connection is asked for: the URL, whether TLS is used, the token.\<close>

record ys_request =
  yq_url :: string
  yq_tls :: bool
  yq_token :: "string option"

definition ys_request_of :: "string \<Rightarrow> string option \<Rightarrow> ys_request" where
  "ys_request_of url token = \<lparr> yq_url = url, yq_tls = prefix ''https://'' url, yq_token = token \<rparr>"

record ys_client =
  yc_tx :: "entry_observation chan"
  yc_counters :: drop_counters

definition ys_init :: "drop_counters \<Rightarrow> ys_client" where
  "ys_init c = \<lparr> yc_tx = [], yc_counters = c \<rparr>"

definition ys_offer :: "entry_observation accept \<Rightarrow> entry_observation \<Rightarrow> ys_client \<Rightarrow> ys_client" where
  "ys_offer acc ob y = (case try_send acc (yc_tx y) ob of (tx, ok) \<Rightarrow>
     y\<lparr> yc_tx := tx, yc_counters := (if ok then yc_counters y
       else (yc_counters y)\<lparr>dk_ys_channel_full := dk_ys_channel_full (yc_counters y) + 1\<rparr>) \<rparr>)"

fun ys_messages ::
  "entry_observation accept \<Rightarrow> (instant \<times> ys_msg) list \<Rightarrow> ys_client \<Rightarrow> ys_client \<times> bool" where
  "ys_messages acc [] y = (y, True)"
| "ys_messages acc ((observed, m) # ms) y = (case m of
     YsError \<Rightarrow> (y, False)
   | YsEntry e \<Rightarrow> ys_messages acc ms (ys_offer acc (ys_decode_entry e observed) y)
   | YsOther \<Rightarrow> ys_messages acc ms y)"

type_synonym ys_session = "(instant \<times> ys_msg) list option"

definition ys_run_once ::
  "entry_observation accept \<Rightarrow> ys_request \<Rightarrow> (ys_request \<Rightarrow> ys_session) \<Rightarrow> ys_client \<Rightarrow> ys_client \<times> bool" where
  "ys_run_once acc q connect y = (case connect q of None \<Rightarrow> (y, False) | Some ms \<Rightarrow> ys_messages acc ms y)"

definition ys_session_step ::
  "entry_observation accept \<Rightarrow> ys_request \<Rightarrow> (ys_request \<Rightarrow> ys_session) \<Rightarrow> ys_client \<Rightarrow> ys_client" where
  "ys_session_step acc q connect y = (case ys_run_once acc q connect y of
     (y', True) \<Rightarrow> y'
   | (y', False) \<Rightarrow> y'\<lparr>yc_counters := (yc_counters y')\<lparr>dk_ys_reconnects := dk_ys_reconnects (yc_counters y') + 1\<rparr>\<rparr>)"

definition ys_run_loop ::
  "entry_observation accept \<Rightarrow> string \<Rightarrow> string option \<Rightarrow> (ys_request \<Rightarrow> ys_session) list \<Rightarrow> ys_client \<Rightarrow>
    ys_client \<times> u64 list" where
  "ys_run_loop acc url token sessions y =
    reconnect_loop (ys_session_step acc (ys_request_of url token)) sessions 100 y"

section \<open>What a run delivers\<close>

text \<open>The entries of a session up to its first error, and whether it ended in one.\<close>

fun session_entries :: "(instant \<times> ys_msg) list \<Rightarrow> entry_observation list" where
  "session_entries [] = []"
| "session_entries ((observed, m) # ms) = (case m of
     YsError \<Rightarrow> [] | YsEntry e \<Rightarrow> ys_decode_entry e observed # session_entries ms | YsOther \<Rightarrow> session_entries ms)"

definition session_offers :: "ys_session \<Rightarrow> entry_observation list" where
  "session_offers s = (case s of None \<Rightarrow> [] | Some ms \<Rightarrow> session_entries ms)"

definition session_fails :: "ys_session \<Rightarrow> bool" where
  "session_fails s \<longleftrightarrow> (case s of None \<Rightarrow> True | Some ms \<Rightarrow> list_ex (\<lambda>(_, m). m = YsError) ms)"

text \<open>What a piece of the run adds: observations offered, sessions failed.\<close>

definition ys_gain :: "entry_observation list \<Rightarrow> nat \<Rightarrow> ys_client \<Rightarrow> ys_client \<Rightarrow> bool" where
  "ys_gain obs n y y' \<longleftrightarrow>
     attempts (yc_tx y') = attempts (yc_tx y) @ obs \<and>
     dk_ys_reconnects (yc_counters y') = dk_ys_reconnects (yc_counters y) + of_nat n \<and>
     dk_ys_channel_full (yc_counters y') - of_nat (refused (yc_tx y')) =
       dk_ys_channel_full (yc_counters y) - of_nat (refused (yc_tx y))"

lemma ys_gain_refl: "ys_gain [] 0 y y"
  by (simp add: ys_gain_def)

lemma ys_gain_trans: "ys_gain a m x y \<Longrightarrow> ys_gain b n y z \<Longrightarrow> ys_gain (a @ b) (m + n) x z"
  by (simp add: ys_gain_def)

lemma ys_gain_offer: "ys_gain [ob] 0 y (ys_offer acc ob y)"
  by (simp add: ys_gain_def ys_offer_def try_send_def)

lemma ys_gain_messages:
  "ys_gain (session_entries ms) 0 y (fst (ys_messages acc ms y)) \<and>
    snd (ys_messages acc ms y) = (\<not> list_ex (\<lambda>(_, m). m = YsError) ms)"
proof (induction acc ms y rule: ys_messages.induct)
  case (2 acc observed m ms y)
  show ?case
  proof (cases m)
    case (YsEntry e)
    show ?thesis using ys_gain_trans [OF ys_gain_offer] 2(1) [OF YsEntry] YsEntry by fastforce
  qed (use 2 in \<open>simp_all add: ys_gain_refl\<close>)
qed (simp add: ys_gain_refl)

lemma ys_gain_session:
  "ys_gain (session_offers (connect q)) (if session_fails (connect q) then 1 else 0) y (ys_session_step acc q connect y)"
proof (cases "connect q")
  case None
  then show ?thesis
    by (simp add: ys_session_step_def ys_run_once_def session_offers_def session_fails_def ys_gain_def)
next
  case (Some ms)
  obtain y' ok where m: "ys_messages acc ms y = (y', ok)" by fastforce
  then have "ys_gain (session_entries ms) 0 y y'" "ok = (\<not> session_fails (connect q))"
    using ys_gain_messages [of ms y acc] by (simp_all add: session_fails_def Some)
  then show ?thesis
    by (cases ok) (simp_all add: ys_session_step_def ys_run_once_def Some m session_offers_def ys_gain_def)
qed

lemma ys_gain_run:
  "ys_gain (concat (map (\<lambda>c. session_offers (c q)) ss)) (length (filter (\<lambda>c. session_fails (c q)) ss)) y
    (fold (ys_session_step acc q) ss y)"
proof (induction ss arbitrary: y)
  case (Cons s ss)
  show ?case
    using ys_gain_trans [OF ys_gain_session [of s q y acc] Cons.IH [of "ys_session_step acc q s y"]]
    by (cases "session_fails (s q)") simp_all
qed (simp add: ys_gain_refl)

text \<open>C34: Over any number of sessions the client offers exactly the entries the sessions delivered before
  their first error, in order, each decoded once; \<open>ys_channel_full\<close> is the number of refused
  observations, \<open>ys_reconnects\<close> the number of sessions that ended in an error, and the pause before
  the k-th reconnection is min(100 * 2^k, 5000) ms.\<close>
theorem yellowstone_delivers:
  "let (y, slept) = ys_run_loop acc url token sessions (ys_init drop_counters_default);
       got = map (\<lambda>connect. connect (ys_request_of url token)) sessions
   in attempts (yc_tx y) = concat (map session_offers got) \<and>
      dk_ys_channel_full (yc_counters y) = of_nat (refused (yc_tx y)) \<and>
      dk_ys_reconnects (yc_counters y) = of_nat (length (filter session_fails got)) \<and>
      slept = map backoff_after [0..<length sessions]"
proof -
  let ?q = "ys_request_of url token"
  have "ys_gain (concat (map (\<lambda>c. session_offers (c ?q)) sessions)) (length (filter (\<lambda>c. session_fails (c ?q)) sessions))
      (ys_init drop_counters_default) (fold (ys_session_step acc ?q) sessions (ys_init drop_counters_default))"
    by (rule ys_gain_run)
  then show ?thesis
    by (simp add: Let_def case_prod_unfold ys_run_loop_def reconnect_state reconnect_pauses_100 ys_gain_def ys_init_def
        drop_counters_default_def comp_def filter_map)
qed

end
