(* ===== verification/Rust_Parse.thy ===== *)
theory Rust_Parse
  imports Rust_String
begin

text \<open>
  Splitting a string into all its pieces and reading unsigned numbers, as \<open>str::split\<close>,
  \<open>str::strip_prefix\<close>, \<open>str::strip_suffix\<close> and \<open>str::parse\<close> of an unsigned type do.
\<close>

fun split_all :: "char \<Rightarrow> string \<Rightarrow> string list" where
  "split_all c [] = [[]]"
| "split_all c (x # xs) = (if x = c then [] # split_all c xs
     else (case split_all c xs of p # ps \<Rightarrow> (x # p) # ps | [] \<Rightarrow> [[x]]))"

lemma split_once_str_shorter: "split_once_str pat s = Some (a, b) \<Longrightarrow> pat \<noteq> [] \<Longrightarrow> length b < length s"
proof (induction pat s arbitrary: a rule: split_once_str.induct)
  case (2 pat x xs)
  then show ?case by (cases pat) (auto split: if_splits)
qed simp

function split_all_str :: "string \<Rightarrow> string \<Rightarrow> string list" where
  "split_all_str pat s = (if pat = [] then [s] else (case split_once_str pat s of
     None \<Rightarrow> [s] | Some (a, b) \<Rightarrow> a # split_all_str pat b))"
  by pat_completeness auto
termination
  by (relation "measure (\<lambda>(_, s). length s)") (auto simp: split_once_str_shorter)

declare split_all_str.simps [simp del]

definition strip_prefix :: "string \<Rightarrow> string \<Rightarrow> string option" where
  "strip_prefix p s = (if prefix p s then Some (drop (length p) s) else None)"

definition strip_suffix :: "string \<Rightarrow> string \<Rightarrow> string option" where
  "strip_suffix p s = (if suffix p s then Some (take (length s - length p) s) else None)"

section \<open>Numbers\<close>

definition is_digit :: "char \<Rightarrow> bool" where
  "is_digit c \<longleftrightarrow> 48 \<le> (of_char c :: nat) \<and> (of_char c :: nat) \<le> 57"

definition digit_val :: "char \<Rightarrow> nat" where
  "digit_val c = of_char c - 48"

definition digits_val :: "string \<Rightarrow> nat" where
  "digits_val s = foldl (\<lambda>n c. 10 * n + digit_val c) 0 s"

text \<open>A sign \<open>+\<close> is accepted in front of a digit; the largest value of the type is the parameter.\<close>

definition parse_unsigned :: "nat \<Rightarrow> string \<Rightarrow> nat option" where
  "parse_unsigned lim s =
    (let ds = (case s of c # r \<Rightarrow> if c = CHR ''+'' \<and> r \<noteq> [] then r else s | [] \<Rightarrow> [])
     in if ds \<noteq> [] \<and> list_all is_digit ds \<and> digits_val ds \<le> lim then Some (digits_val ds) else None)"

definition parse_u64 :: "string \<Rightarrow> u64 option" where
  "parse_u64 s = map_option of_nat (parse_unsigned u64_max s)"

lemma digits_val_snoc: "digits_val (s @ [c]) = 10 * digits_val s + digit_val c"
  by (simp add: digits_val_def)

lemma digit_of: "d < 10 \<Longrightarrow> is_digit (char_of (48 + d)) \<and> digit_val (char_of (48 + d)) = d"
  by (simp add: is_digit_def digit_val_def)

lemma show_nat_parts: "list_all is_digit (show_nat n) \<and> digits_val (show_nat n) = n \<and> show_nat n \<noteq> []"
proof (induction n rule: show_nat.induct)
  case (1 n)
  show ?case
  proof (cases "n < 10")
    case True
    then show ?thesis using digit_of [of n] by (subst (1 2 3) show_nat.simps) (simp add: digits_val_def)
  next
    case False
    have d: "is_digit (char_of (48 + n mod 10))" "digit_val (char_of (48 + n mod 10)) = n mod 10"
      using digit_of [of "n mod 10"] by simp_all
    have u: "show_nat n = show_nat (n div 10) @ [char_of (48 + n mod 10)]"
      using False by (subst show_nat.simps) simp
    have "10 * (n div 10) + n mod 10 = n" by simp
    then show ?thesis using 1 [OF False] d unfolding u digits_val_snoc by simp
  qed
qed

text \<open>Reading back a displayed number.\<close>

lemma parse_unsigned_show:
  assumes "n \<le> lim"
  shows "parse_unsigned lim (show_nat n) = Some n"
proof -
  obtain c r where cr: "show_nat n = c # r" using show_nat_parts [of n] by (cases "show_nat n") auto
  have "is_digit c" using show_nat_parts [of n] cr by simp
  then have "c \<noteq> CHR ''+''" by (auto simp: is_digit_def)
  then show ?thesis
    using show_nat_parts [of n] assms unfolding cr by (simp add: parse_unsigned_def)
qed

lemma parse_u64_show [simp]: "parse_u64 (show_word (w :: u64)) = Some w"
proof -
  have "unat w \<le> u64_max" using unat_lt [of w] by (simp add: u64_max_def)
  then show ?thesis by (simp add: parse_u64_def show_word_def parse_unsigned_show)
qed

lemma split_all_one: "c \<notin> set s \<Longrightarrow> split_all c s = [s]"
  by (induction s) auto

lemma split_all_app: "c \<notin> set a \<Longrightarrow> split_all c (a @ c # b) = a # split_all c b"
  by (induction a) auto

end
