(* ===== verification/Comparator_Run.thy ===== *)
theory Comparator_Run
  imports Drop_Counters Rust_Parse
begin

text \<open>
  The parts of \<open>crates/entry-comparator/src/runtime.rs\<close> and \<open>leader_schedule.rs\<close> that compute: the
  core pinning argument, the leader cache of the epoch of the first slot, and the statistics thread
  that writes the growth of the counters every second. The RPC node and the base58 parser of public
  keys are parameters; the file of the statistics thread is the list of its lines.
\<close>

section \<open>Core pinning\<close>

definition core_token :: "string \<Rightarrow> (string, nat) hash_map \<Rightarrow> (string, nat) hash_map" where
  "core_token tok m = (case split_once CHR ''='' tok of
     None \<Rightarrow> m
   | Some (k, v) \<Rightarrow> (case parse_unsigned u64_max (trim v) of None \<Rightarrow> m | Some n \<Rightarrow> hm_insert (trim k) n m))"

definition parse_cores :: "string option \<Rightarrow> (string, nat) hash_map" where
  "parse_cores spec = (case spec of None \<Rightarrow> [] | Some s \<Rightarrow> fold core_token (split_all CHR '','' s) [])"

section \<open>The leader cache\<close>

definition SLOTS_PER_EPOCH :: u64 where "SLOTS_PER_EPOCH = 432000"

datatype leader_error = LeaderRpcFailed | LeaderScheduleEmpty | LeaderKeyInvalid

fun insert_leaders ::
  "(string \<Rightarrow> pubkey option) \<Rightarrow> u64 \<Rightarrow> (string \<times> u64 list) list \<Rightarrow> (u64, pubkey) hash_map \<Rightarrow>
    leader_error + (u64, pubkey) hash_map" where
  "insert_leaders parse first [] m = Inr m"
| "insert_leaders parse first ((leader, offs) # rest) m = (case parse leader of
     None \<Rightarrow> Inl LeaderKeyInvalid
   | Some pk \<Rightarrow> insert_leaders parse first rest (fold (\<lambda>off. hm_insert (first + off) pk) offs m))"

definition leader_cache_from_rpc ::
  "(string \<Rightarrow> pubkey option) \<Rightarrow> (u64 \<Rightarrow> (string \<times> u64 list) list option option) \<Rightarrow> u64 \<Rightarrow>
    leader_error + (u64, pubkey) hash_map" where
  "leader_cache_from_rpc parse rpc current_slot = (case rpc current_slot of
     None \<Rightarrow> Inl LeaderRpcFailed
   | Some None \<Rightarrow> Inl LeaderScheduleEmpty
   | Some (Some schedule) \<Rightarrow> insert_leaders parse (current_slot - current_slot mod SLOTS_PER_EPOCH) schedule [])"

definition leader_lookup :: "(u64, pubkey) hash_map \<Rightarrow> u64 \<Rightarrow> pubkey option" where
  "leader_lookup m slot = map_of m slot"

section \<open>The statistics thread\<close>

datatype anomaly_line = CounterLine u64 string u64 | DiffDropLine u64 u64

record stats_thread =
  sx_prev :: drop_counters
  sx_prev_dropped :: u64
  sx_file :: "anomaly_line list"

text \<open>What one round reads: the counters, the nanoseconds since the anchor, the dropped records.\<close>

record stats_round =
  sr_counters :: drop_counters
  sr_now_ns :: u64
  sr_diff_dropped :: u64

definition stats_init :: "drop_counters \<Rightarrow> stats_thread" where
  "stats_init c = \<lparr> sx_prev = c, sx_prev_dropped = 0, sx_file = [] \<rparr>"

definition stats_step :: "stats_round \<Rightarrow> stats_thread \<Rightarrow> stats_thread" where
  "stats_step r x =
    (let lines = map (\<lambda>(name, delta). CounterLine (sr_now_ns r) name delta) (deltas_vs (sr_counters r) (sx_prev x));
         grown = sx_prev_dropped x < sr_diff_dropped r
     in \<lparr> sx_prev = sr_counters r,
          sx_prev_dropped = (if grown then sr_diff_dropped r else sx_prev_dropped x),
          sx_file = sx_file x @ lines @
            (if grown then [DiffDropLine (sr_now_ns r) (sr_diff_dropped r - sx_prev_dropped x)] else []) \<rparr>)"

definition stats_run :: "stats_round list \<Rightarrow> stats_thread \<Rightarrow> stats_thread" where
  "stats_run rs x = fold stats_step rs x"

section \<open>The schedule that was fetched is the schedule that is looked up\<close>

text \<open>The leaders of an offset in the schedule, by their parsed keys.\<close>

definition leads :: "(string \<Rightarrow> pubkey option) \<Rightarrow> (string \<times> u64 list) list \<Rightarrow> u64 \<Rightarrow> pubkey \<Rightarrow> bool" where
  "leads parse schedule off pk \<longleftrightarrow> (\<exists>(leader, offs) \<in> set schedule. parse leader = Some pk \<and> off \<in> set offs)"

lemma leads_Nil: "leads parse [] off = (\<lambda>_. False)"
  by (intro ext) (simp add: leads_def)

lemma fold_insert_const:
  "map_of (fold (\<lambda>off. hm_insert (f off) v) offs m) k = (if k \<in> f ` set offs then Some v else map_of m k)"
  by (induction offs arbitrary: m) (auto simp: hm.lookup_insert)

lemma insert_leaders_lookup:
  assumes "list_all (\<lambda>(leader, _). parse leader \<noteq> None) schedule" "distinct (concat (map snd schedule))"
  shows "\<exists>m'. insert_leaders parse first schedule m = Inr m' \<and> (\<forall>off. map_of m' (first + off) =
    (if \<exists>pk. leads parse schedule off pk then Some (THE pk. leads parse schedule off pk) else map_of m (first + off)))"
  using assms
proof (induction schedule arbitrary: m)
  case (Cons e schedule)
  obtain leader offs where e: "e = (leader, offs)" by (cases e)
  obtain pk where pk: "parse leader = Some pk" using Cons.prems(1) e by auto
  have d: "distinct (concat (map snd schedule))" "list_all (\<lambda>(leader, _). parse leader \<noteq> None) schedule"
    using Cons.prems by simp_all
  let ?m = "fold (\<lambda>off. hm_insert (first + off) pk) offs m"
  obtain m' where m': "insert_leaders parse first schedule ?m = Inr m'"
    "\<And>off. map_of m' (first + off) = (if \<exists>pk. leads parse schedule off pk
      then Some (THE pk. leads parse schedule off pk) else map_of ?m (first + off))"
    using Cons.IH [OF d(2,1), of ?m] by blast
  have here: "map_of ?m (first + off) = (if off \<in> set offs then Some pk else map_of m (first + off))" for off
    by (subst fold_insert_const) auto
  have split: "leads parse (e # schedule) off p \<longleftrightarrow> off \<in> set offs \<and> p = pk \<or> leads parse schedule off p" for off p
    using pk by (auto simp: leads_def e)
  have disj: "off \<in> set offs \<Longrightarrow> \<not> leads parse schedule off p" for off p
    using Cons.prems(2) by (fastforce simp: leads_def e)
  have "map_of m' (first + off) = (if \<exists>p. leads parse (e # schedule) off p
      then Some (THE p. leads parse (e # schedule) off p) else map_of m (first + off))" for off
  proof (cases "off \<in> set offs")
    case True
    then have l: "leads parse (e # schedule) off = (\<lambda>p. p = pk)" using split disj by blast
    then show ?thesis unfolding l using m'(2) [of off] disj [OF True] True here by simp
  next
    case False
    then have l: "leads parse (e # schedule) off = leads parse schedule off" using split by blast
    have "map_of ?m (first + off) = map_of m (first + off)" using here False by simp
    then show ?thesis unfolding l m'(2) [of off] by (rule arg_cong)
  qed
  then show ?case using m'(1) pk e by auto
qed (simp add: leads_Nil)

lemma leads_unique:
  assumes "distinct (concat (map snd schedule))" "leads parse schedule off p" "leads parse schedule off q"
  shows "p = q"
  using assms
proof (induction schedule)
  case (Cons e schedule)
  then show ?case by (cases e) (fastforce simp: leads_def)
qed (simp add: leads_def)

text \<open>When the RPC returns a schedule in which every offset has one leader and every key parses, the
  cache is built, and looking up a slot of the epoch gives exactly the leader the schedule names for
  its offset; a slot whose offset nobody leads has none.\<close>
theorem leader_cache_correct:
  assumes "rpc current = Some (Some schedule)"
    "list_all (\<lambda>(leader, _). parse leader \<noteq> None) schedule" "distinct (concat (map snd schedule))"
  shows "\<exists>m. leader_cache_from_rpc parse rpc current = Inr m \<and>
    (\<forall>off pk. leader_lookup m (current - current mod SLOTS_PER_EPOCH + off) = Some pk \<longleftrightarrow> leads parse schedule off pk)"
proof -
  let ?f = "current - current mod SLOTS_PER_EPOCH"
  obtain m where m: "insert_leaders parse ?f schedule [] = Inr m" "\<And>off. map_of m (?f + off) =
      (if \<exists>pk. leads parse schedule off pk then Some (THE pk. leads parse schedule off pk) else map_of [] (?f + off))"
    using insert_leaders_lookup [OF assms(2,3), of ?f "[]"] by blast
  have "leader_lookup m (?f + off) = Some pk \<longleftrightarrow> leads parse schedule off pk" for off pk
  proof (cases "\<exists>p. leads parse schedule off p")
    case True
    then obtain p where p: "leads parse schedule off p" by blast
    then have t: "(THE p. leads parse schedule off p) = p" using leads_unique [OF assms(3)] by blast
    have "map_of m (?f + off) = Some p" using m(2) [of off] True unfolding t by simp
    moreover have "leads parse schedule off pk \<longleftrightarrow> p = pk" using p leads_unique [OF assms(3) p] by blast
    ultimately show ?thesis unfolding leader_lookup_def by (simp only: option.inject)
  next
    case False
    then show ?thesis using m(2) [of off] by (simp add: leader_lookup_def)
  qed
  then show ?thesis using m(1) assms(1) by (simp add: leader_cache_from_rpc_def)
qed

lemma leader_cache_correct_witness:
  "\<exists>m. leader_cache_from_rpc (\<lambda>s. Some (of_nat (length s))) (\<lambda>_. Some (Some [(''a'', [0, 1]), (''bb'', [2])])) 432001 = Inr m \<and>
    (\<forall>off pk. leader_lookup m (432001 - 432001 mod SLOTS_PER_EPOCH + off) = Some pk \<longleftrightarrow>
      leads (\<lambda>s. Some (of_nat (length s))) [(''a'', [0, 1]), (''bb'', [2])] off pk)"
proof (rule leader_cache_correct [where rpc = "\<lambda>_. Some (Some [(''a'', [0, 1]), (''bb'', [2])])"])
  show "distinct (concat (map snd [(''a'', [0 :: u64, 1]), (''bb'', [2])]))" by simp
qed (simp_all add: list_all_iff)

section \<open>The anomaly file accounts for every counter\<close>

definition counter_names :: "string list" where
  "counter_names = [''ys_channel_full'', ''ys_decode_error'', ''ys_reconnects'', ''ss_udp_channel_full'',
     ''ss_obs_channel_full'', ''ss_shred_parse_error'', ''ss_deshred_error'', ''ss_entry_decode_error'', ''ss_fec_set_timeout'']"

lemma deltas_vs_named:
  "deltas_vs c p = concat (map (\<lambda>n. delta_of n (counter_named n c) (counter_named n p)) counter_names)"
  by (simp add: deltas_vs_def counter_names_def counter_named_def)

text \<open>The total a file reports for a counter, and for the dropped records.\<close>

definition file_total :: "string \<Rightarrow> anomaly_line list \<Rightarrow> u64" where
  "file_total n ls = sum_list (map (\<lambda>l. case l of CounterLine _ m d \<Rightarrow> if m = n then d else 0 | DiffDropLine _ _ \<Rightarrow> 0) ls)"

definition file_dropped :: "anomaly_line list \<Rightarrow> u64" where
  "file_dropped ls = sum_list (map (\<lambda>l. case l of DiffDropLine _ d \<Rightarrow> d | CounterLine _ _ _ \<Rightarrow> 0) ls)"

lemma file_total_append: "file_total n (ls @ ms) = file_total n ls + file_total n ms"
  "file_dropped (ls @ ms) = file_dropped ls + file_dropped ms"
  by (simp_all add: file_total_def file_dropped_def)

lemma file_total_delta:
  "file_total n (map (\<lambda>(m, d). CounterLine t m d) (delta_of m a b)) = (if n = m then saturating_sub a b else 0)"
  by (auto simp: delta_of_def Let_def file_total_def)

lemma file_total_deltas:
  assumes "distinct names" "n \<in> set names"
  shows "file_total n (map (\<lambda>(m, d). CounterLine t m d) (concat (map (\<lambda>m. delta_of m (f m) (g m)) names))) =
    saturating_sub (f n) (g n)"
proof -
  have absent: "n \<notin> set ms \<Longrightarrow>
      file_total n (map (\<lambda>(m, d). CounterLine t m d) (concat (map (\<lambda>m. delta_of m (f m) (g m)) ms))) = 0" for ms
    by (induction ms) (simp_all add: file_total_append file_total_delta, simp add: file_total_def)
  show ?thesis using assms
    by (induction names) (auto simp: file_total_append file_total_delta absent)
qed

lemma file_dropped_counters: "file_dropped (map (\<lambda>(m, d). CounterLine t m d) ds) = 0"
  by (induction ds) (simp_all add: file_dropped_def case_prod_unfold)

text \<open>Counters that never decrease from one reading to the next.\<close>

fun counters_grow :: "drop_counters \<Rightarrow> u64 \<Rightarrow> stats_round list \<Rightarrow> bool" where
  "counters_grow c d [] = True"
| "counters_grow c d (r # rs) = (list_all (\<lambda>n. counter_named n c \<le> counter_named n (sr_counters r)) counter_names \<and>
     d \<le> sr_diff_dropped r \<and> counters_grow (sr_counters r) (sr_diff_dropped r) rs)"

lemma distinct_names: "distinct counter_names"
  by (simp add: counter_names_def)

lemma stats_step_total:
  assumes "n \<in> set counter_names" "counter_named n (sx_prev x) \<le> counter_named n (sr_counters r)"
    "sx_prev_dropped x \<le> sr_diff_dropped r"
  shows "file_total n (sx_file (stats_step r x)) = file_total n (sx_file x) + (counter_named n (sr_counters r) - counter_named n (sx_prev x))"
    "file_dropped (sx_file (stats_step r x)) = file_dropped (sx_file x) + (sr_diff_dropped r - sx_prev_dropped x)"
    "sx_prev_dropped (stats_step r x) = sr_diff_dropped r" "sx_prev (stats_step r x) = sr_counters r"
proof -
  have "file_total n (map (\<lambda>(m, d). CounterLine (sr_now_ns r) m d) (deltas_vs (sr_counters r) (sx_prev x))) =
      counter_named n (sr_counters r) - counter_named n (sx_prev x)"
    unfolding deltas_vs_named file_total_deltas [OF distinct_names assms(1)] using assms(2) by (simp add: saturating_sub_def)
  moreover have "file_total n (if q then [DiffDropLine t d] else []) = 0" for q t d by (simp add: file_total_def)
  ultimately show "file_total n (sx_file (stats_step r x)) =
      file_total n (sx_file x) + (counter_named n (sr_counters r) - counter_named n (sx_prev x))"
    by (simp add: stats_step_def Let_def file_total_append)
  have "file_dropped (if sx_prev_dropped x < sr_diff_dropped r
      then [DiffDropLine (sr_now_ns r) (sr_diff_dropped r - sx_prev_dropped x)] else []) =
      sr_diff_dropped r - sx_prev_dropped x"
    using assms(3) by (auto simp: file_dropped_def)
  then show "file_dropped (sx_file (stats_step r x)) = file_dropped (sx_file x) + (sr_diff_dropped r - sx_prev_dropped x)"
    by (simp add: stats_step_def Let_def file_total_append file_dropped_counters)
qed (use assms(3) in \<open>auto simp: stats_step_def Let_def\<close>)

lemma stats_run_total:
  assumes "n \<in> set counter_names"
  shows "counters_grow (sx_prev x) (sx_prev_dropped x) rs \<Longrightarrow>
    file_total n (sx_file (stats_run rs x)) + counter_named n (sx_prev x) =
      file_total n (sx_file x) + counter_named n (sx_prev (stats_run rs x)) \<and>
    file_dropped (sx_file (stats_run rs x)) + sx_prev_dropped x = file_dropped (sx_file x) + sx_prev_dropped (stats_run rs x)"
proof (induction rs arbitrary: x)
  case Nil
  then show ?case by (simp add: stats_run_def)
next
  case (Cons r rs)
  have g: "counter_named n (sx_prev x) \<le> counter_named n (sr_counters r)" "sx_prev_dropped x \<le> sr_diff_dropped r"
    using Cons.prems assms by (simp_all add: list_all_iff)
  note step = stats_step_total [OF assms g]
  have "counters_grow (sx_prev (stats_step r x)) (sx_prev_dropped (stats_step r x)) rs"
    using Cons.prems by (simp add: step)
  from Cons.IH [OF this] show ?case unfolding step by (simp add: stats_run_def algebra_simps)
qed

text \<open>The anomaly file loses nothing and counts nothing twice: for every counter, the deltas written
  over a run add up to the difference between the last reading and the first, and those of the
  dropped records to the last reading.\<close>
theorem anomalies_add_up:
  assumes "counters_grow c 0 rs" "n \<in> set counter_names"
  shows "file_total n (sx_file (stats_run rs (stats_init c))) =
      counter_named n (sx_prev (stats_run rs (stats_init c))) - counter_named n c \<and>
    file_dropped (sx_file (stats_run rs (stats_init c))) = sx_prev_dropped (stats_run rs (stats_init c))"
  using stats_run_total [OF assms(2), of "stats_init c" rs] assms(1)
  by (simp add: stats_init_def file_total_def file_dropped_def eq_diff_eq)

lemma anomalies_add_up_witness:
  "file_total ''ys_reconnects'' (sx_file (stats_run
     [\<lparr> sr_counters = drop_counters_default\<lparr>dk_ys_reconnects := 2\<rparr>, sr_now_ns = 1, sr_diff_dropped = 3 \<rparr>]
     (stats_init drop_counters_default))) = 2"
proof -
  let ?r = "[\<lparr> sr_counters = drop_counters_default\<lparr>dk_ys_reconnects := 2\<rparr>, sr_now_ns = 1, sr_diff_dropped = 3 \<rparr>]"
  have "counters_grow drop_counters_default 0 ?r"
    by (simp add: counter_names_def counter_named_def drop_counters_default_def)
  from anomalies_add_up [OF this, of "''ys_reconnects''"] show ?thesis
    by (simp add: counter_names_def stats_run_def stats_step_def Let_def counter_named_def drop_counters_default_def)
qed

end
