(* ===== verification/Leader_Map.thy ===== *)
theory Leader_Map
  imports Prelude "HOL-Library.Multiset" "HOL-Library.List_Lexorder" "HOL-Library.Char_ord"
begin

text \<open>
  \<open>crates/solana-leader-map/src/domain.rs\<close> and \<open>aggregate.rs\<close>: the leader schedule of an epoch joined
  with the geography of the validators into a map from slots, and its summary per country.
  \<open>BTreeMap<String, _>\<close> is ordered as Rust orders strings (byte-wise, lexicographic). The \<open>f64\<close>
  quotient \<open>part / total * 100\<close> is a parameter into a linear order; the time of the snapshot is a
  number.
\<close>

type_synonym u128 = "128 word"

record validator_info =
  vi_identity :: string
  vi_name :: "string option"
  vi_vote_account :: "string option"
  vi_active_stake_lamports :: u64
  vi_country_code :: "string option"
  vi_data_center_key :: "string option"
  vi_asn :: "u64 option"
  vi_asn_organization :: "string option"
  vi_ip :: "string option"

record epoch_info =
  ei_epoch :: u64
  ei_absolute_slot :: u64
  ei_slot_index :: u64
  ei_slots_in_epoch :: u64

definition epoch_first_slot :: "epoch_info \<Rightarrow> u64" where
  "epoch_first_slot e = ei_absolute_slot e - ei_slot_index e"

definition epoch_last_slot :: "epoch_info \<Rightarrow> u64" where
  "epoch_last_slot e = epoch_first_slot e + ei_slots_in_epoch e - 1"

record epoch_snapshot =
  ep_fetched_at :: nat
  ep_epoch :: epoch_info
  ep_validators :: "validator_info list"
  ep_schedule :: "(string \<times> u64 list) list"

record slot_entry =
  sn_absolute_slot :: u64
  sn_identity :: string
  sn_validator_name :: "string option"
  sn_country_code :: "string option"
  sn_data_center_key :: "string option"
  sn_stake_lamports :: u64

type_synonym slot_map = "(u64, slot_entry) btree_map"

section \<open>The slot map\<close>

definition by_identity :: "validator_info list \<Rightarrow> (string, validator_info) btree_map" where
  "by_identity vs = fold (\<lambda>v. bt_insert (vi_identity v) v) vs []"

definition slot_entry_of :: "validator_info list \<Rightarrow> u64 \<Rightarrow> string \<Rightarrow> slot_entry" where
  "slot_entry_of vs slot identity = (let info = map_of (by_identity vs) identity in
    \<lparr> sn_absolute_slot = slot, sn_identity = identity,
      sn_validator_name = Option.bind info vi_name, sn_country_code = Option.bind info vi_country_code,
      sn_data_center_key = Option.bind info vi_data_center_key,
      sn_stake_lamports = (case info of Some v \<Rightarrow> vi_active_stake_lamports v | None \<Rightarrow> 0) \<rparr>)"

definition build_slot_map :: "epoch_snapshot \<Rightarrow> slot_map" where
  "build_slot_map snap =
    fold (\<lambda>(identity, idxs). fold (\<lambda>idx. let slot = epoch_first_slot (ep_epoch snap) + idx
        in bt_insert slot (slot_entry_of (ep_validators snap) slot identity)) idxs)
      (ep_schedule snap) []"

definition slot_lookup :: "slot_map \<Rightarrow> u64 \<Rightarrow> slot_entry option" where
  "slot_lookup m slot = map_of m slot"

section \<open>The summary\<close>

record 'f country_summary =
  cy_country_code :: string
  cy_slot_count :: u64
  cy_slot_percentage :: 'f
  cy_stake_lamports :: u128
  cy_stake_percentage :: 'f
  cy_validator_count :: u64

record 'f epoch_summary =
  ey_epoch :: u64
  ey_total_slots :: u64
  ey_mapped_slots :: u64
  ey_unknown_slots :: u64
  ey_countries :: "'f country_summary list"
  ey_total_stake_lamports :: u128

text \<open>\<open>*m.entry(k).or_insert(0) += d\<close>\<close>

definition bt_get :: "('k, 'a::len word) btree_map \<Rightarrow> 'k \<Rightarrow> 'a word" where
  "bt_get m k = (case map_of m k of Some n \<Rightarrow> n | None \<Rightarrow> 0)"

definition bump :: "'k::linorder \<Rightarrow> 'a::len word \<Rightarrow> ('k, 'a word) btree_map \<Rightarrow> ('k, 'a word) btree_map" where
  "bump k d m = bt_insert k (bt_get m k + d) m"

definition unknown_code :: string where "unknown_code = ''??''"

definition pct :: "(u128 \<Rightarrow> u128 \<Rightarrow> 'f) \<Rightarrow> 'f \<Rightarrow> u128 \<Rightarrow> u128 \<Rightarrow> 'f" where
  "pct share zero part whole = (if whole = 0 then zero else share part whole)"

definition count_slots :: "slot_entry list \<Rightarrow> (string, u64) btree_map \<times> u64" where
  "count_slots es = fold (\<lambda>e (m, unknown). case sn_country_code e of
     Some cc \<Rightarrow> (bump cc 1 m, unknown) | None \<Rightarrow> (m, unknown + 1)) es ([], 0)"

definition validator_country :: "validator_info \<Rightarrow> string" where
  "validator_country v = (case vi_country_code v of Some cc \<Rightarrow> cc | None \<Rightarrow> unknown_code)"

definition stake_per_country :: "validator_info list \<Rightarrow> (string, u128) btree_map" where
  "stake_per_country vs = fold (\<lambda>v. bump (validator_country v) (ucast (vi_active_stake_lamports v))) vs []"

definition validators_per_country :: "validator_info list \<Rightarrow> (string, u64) btree_map" where
  "validators_per_country vs = fold (\<lambda>v. bump (validator_country v) 1) vs []"

text \<open>A \<open>BTreeSet\<close> is a \<open>BTreeMap\<close> to \<open>()\<close>.\<close>

definition bt_set :: "'k::linorder list \<Rightarrow> 'k list" where
  "bt_set ks = map_keys (fold (\<lambda>k. bt_insert k ()) ks [])"

definition all_countries :: "(string, u64) btree_map \<Rightarrow> (string, u128) btree_map \<Rightarrow> u64 \<Rightarrow> string list" where
  "all_countries slots stakes unknown =
    bt_set (map_keys slots @ map_keys stakes @ (if 0 < unknown then [unknown_code] else []))"

definition country_summary_of ::
  "(u128 \<Rightarrow> u128 \<Rightarrow> 'f) \<Rightarrow> 'f \<Rightarrow> validator_info list \<Rightarrow> slot_map \<Rightarrow> string \<Rightarrow> 'f country_summary" where
  "country_summary_of share zero vs sm cc =
    (let (slots, unknown) = count_slots (map snd sm);
         total_slots = of_nat (length sm) :: u64;
         total_stake = sum_list (map (\<lambda>v. ucast (vi_active_stake_lamports v)) vs);
         slot_count = (if cc = unknown_code then unknown else bt_get slots cc);
         stake = bt_get (stake_per_country vs) cc
     in \<lparr> cy_country_code = cc, cy_slot_count = slot_count,
          cy_slot_percentage = pct share zero (ucast slot_count) (ucast total_slots),
          cy_stake_lamports = stake, cy_stake_percentage = pct share zero stake total_stake,
          cy_validator_count = bt_get (validators_per_country vs) cc \<rparr>)"

text \<open>\<open>sort_by\<close> with the reversed comparison is a stable descending sort.\<close>

definition sort_desc :: "('a \<Rightarrow> 'f::linorder) \<Rightarrow> 'a list \<Rightarrow> 'a list" where
  "sort_desc f xs = rev (sort_key f (rev xs))"

definition summarize ::
  "(u128 \<Rightarrow> u128 \<Rightarrow> 'f::linorder) \<Rightarrow> 'f \<Rightarrow> epoch_snapshot \<Rightarrow> slot_map \<Rightarrow> 'f epoch_summary" where
  "summarize share zero snap sm =
    (let (slots, unknown) = count_slots (map snd sm);
         total_slots = of_nat (length sm);
         countries = map (country_summary_of share zero (ep_validators snap) sm)
           (all_countries slots (stake_per_country (ep_validators snap)) unknown)
     in \<lparr> ey_epoch = ei_epoch (ep_epoch snap), ey_total_slots = total_slots,
          ey_mapped_slots = total_slots - unknown, ey_unknown_slots = unknown,
          ey_countries = sort_desc cy_slot_percentage countries,
          ey_total_stake_lamports = sum_list (map (\<lambda>v. ucast (vi_active_stake_lamports v)) (ep_validators snap)) \<rparr>)"

section \<open>Every scheduled slot is in the map\<close>

text \<open>The slots of the schedule with their entries.\<close>

definition scheduled :: "epoch_snapshot \<Rightarrow> (u64 \<times> slot_entry) list" where
  "scheduled snap = concat (map (\<lambda>(identity, idxs). map (\<lambda>idx.
     (epoch_first_slot (ep_epoch snap) + idx,
      slot_entry_of (ep_validators snap) (epoch_first_slot (ep_epoch snap) + idx) identity)) idxs) (ep_schedule snap))"

lemma slot_map_scheduled: "build_slot_map snap = fold (\<lambda>(k, v). bt_insert k v) (scheduled snap) []"
proof -
  have "fold (\<lambda>(identity, idxs). fold (\<lambda>idx. bt_insert (f idx) (g (f idx) identity)) idxs) xs m =
      fold (\<lambda>(k, v). bt_insert k v) (concat (map (\<lambda>(identity, idxs). map (\<lambda>idx. (f idx, g (f idx) identity)) idxs) xs)) m"
    for f :: "u64 \<Rightarrow> u64" and g :: "u64 \<Rightarrow> string \<Rightarrow> slot_entry" and xs and m
    by (induction xs arbitrary: m) (auto simp: fold_map comp_def)
  then show ?thesis by (simp add: build_slot_map_def scheduled_def Let_def)
qed

lemma bt_fold_insert:
  "bt_inv m \<Longrightarrow> bt_inv (fold (\<lambda>(k, v). bt_insert k v) ps m)"
  "map_of (fold (\<lambda>(k, v). bt_insert k v) ps m) k =
    (case map_of (rev ps) k of Some v \<Rightarrow> Some v | None \<Rightarrow> map_of m k)"
proof (induction ps arbitrary: m)
  case (Cons p ps)
  { case 1 then show ?case using Cons.IH(1) by (cases p) (simp add: bt_inv_insert) }
  { case 2 then show ?case using Cons.IH(2)
      by (cases p) (auto simp: map_of_bt_insert map_add_def split: option.splits) }
qed simp_all

lemma scheduled_keys: "map fst (scheduled snap) = map (\<lambda>idx. epoch_first_slot (ep_epoch snap) + idx) (concat (map snd (ep_schedule snap)))"
  by (simp add: scheduled_def map_concat comp_def case_prod_unfold)

lemma distinct_scheduled:
  "distinct (concat (map snd (ep_schedule snap))) \<Longrightarrow> distinct (map fst (scheduled snap))"
  unfolding scheduled_keys by (simp add: distinct_map inj_on_def)

text \<open>The slot map is the schedule: when no slot index has two leaders, the map has exactly one entry
  per scheduled index, in ascending order, and looking up an absolute slot gives the entry of the
  validator that leads it, with its geography when the validator list knows it.\<close>
theorem slot_map_is_schedule:
  assumes "distinct (concat (map snd (ep_schedule snap)))"
  shows "bt_inv (build_slot_map snap) \<and>
    length (build_slot_map snap) = length (concat (map snd (ep_schedule snap))) \<and>
    slot_lookup (build_slot_map snap) = map_of (scheduled snap)"
proof -
  have d: "distinct (map fst (scheduled snap))" by (rule distinct_scheduled [OF assms])
  have inv: "bt_inv (build_slot_map snap)" unfolding slot_map_scheduled by (rule bt_fold_insert) simp
  have m: "map_of (build_slot_map snap) k = map_of (scheduled snap) k" for k
  proof -
    have "map_of (rev (scheduled snap)) = map_of (scheduled snap)"
      by (rule map_of_inject_set [THEN iffD2]) (use d in \<open>simp_all flip: rev_map\<close>)
    then show ?thesis
      unfolding slot_map_scheduled bt_fold_insert(2) by (simp split: option.split)
  qed
  have "set (map_keys (build_slot_map snap)) = set (map fst (scheduled snap))"
    by (simp only: set_map_keys m)
  then have "length (map_keys (build_slot_map snap)) = length (map fst (scheduled snap))"
    using distinct_card [OF d] distinct_card [OF bt_inv_distinct [OF inv]] by metis
  then have "length (build_slot_map snap) = length (concat (map snd (ep_schedule snap)))"
    by (simp only: scheduled_keys length_map)
  with inv m show ?thesis by (auto simp: slot_lookup_def)
qed

section \<open>The summary adds up\<close>

definition total_over :: "('k::linorder, 'a::len word) btree_map \<Rightarrow> 'k list \<Rightarrow> 'a word" where
  "total_over m ks = sum_list (map (bt_get m) ks)"

lemma bt_get_bump: "bt_get (bump k d m) k' = (if k' = k then bt_get m k + d else bt_get m k')"
  by (simp add: bump_def bt_get_def map_of_bt_insert)

lemma total_over_absent: "k \<notin> set ks \<Longrightarrow> total_over (bump k d m) ks = total_over m ks"
  unfolding total_over_def by (rule arg_cong [of _ _ sum_list], rule map_cong) (auto simp: bt_get_bump)

lemma total_over_bump: "distinct ks \<Longrightarrow> k \<in> set ks \<Longrightarrow> total_over (bump k d m) ks = total_over m ks + d"
proof (induction ks)
  case (Cons a ks)
  have step: "total_over m' (a # ks) = bt_get m' a + total_over m' ks" for m' by (simp add: total_over_def)
  show ?case
  proof (cases "k = a")
    case True
    then show ?thesis using Cons.prems by (simp add: step total_over_absent bt_get_bump)
  next
    case False
    then show ?thesis using Cons by (simp add: step bt_get_bump)
  qed
qed simp

lemma total_over_bumps:
  assumes "distinct ks" "set (map f xs) \<subseteq> set ks"
  shows "total_over (fold (\<lambda>x. bump (f x) (g x)) xs m) ks = total_over m ks + sum_list (map g xs)"
  using assms(2)
proof (induction xs arbitrary: m)
  case (Cons x xs)
  then show ?case by (simp add: total_over_bump [OF assms(1)] add.assoc)
qed simp

lemma total_over_empty: "total_over [] ks = 0"
  by (induction ks) (simp_all add: total_over_def bt_get_def)

lemma keys_bump [simp]: "set (map_keys (bump k d m)) = {k} \<union> set (map_keys m)"
  unfolding bump_def by (rule set_bt_insert)

lemma keys_bumps: "set (map_keys (fold (\<lambda>x. bump (f x) (g x)) xs m)) = f ` set xs \<union> set (map_keys m)"
proof (induction xs arbitrary: m)
  case (Cons x xs)
  then show ?case using keys_bump [of "f x" "g x" m] by auto
qed simp

lemma bt_set_keys: "distinct (bt_set ks)" "set (bt_set ks) = set ks"
proof -
  have "bt_inv (fold (\<lambda>k. bt_insert k ()) ks m)" if "bt_inv m" for m
    using that by (induction ks arbitrary: m) (simp_all add: bt_inv_insert)
  then show "distinct (bt_set ks)" by (simp add: bt_set_def bt_inv_distinct)
  have "set (map_keys (fold (\<lambda>k. bt_insert k ()) ks m)) = set ks \<union> set (map_keys m)" for m
    by (induction ks arbitrary: m) (auto simp: set_bt_insert)
  then show "set (bt_set ks) = set ks" by (simp add: bt_set_def)
qed

text \<open>Counting the slots is a sequence of bumps over the entries with a country.\<close>

lemma count_slots_split:
  "fold (\<lambda>e (m, unknown). case sn_country_code e of
     Some cc \<Rightarrow> (bump cc 1 m, unknown) | None \<Rightarrow> (m, unknown + 1)) es (m, u) =
   (fold (\<lambda>cc. bump cc 1) (List.map_filter sn_country_code es) m,
    u + of_nat (length (filter (\<lambda>e. sn_country_code e = None) es)))"
proof (induction es arbitrary: m u)
  case (Cons e es)
  then show ?case by (cases "sn_country_code e") (simp_all add: map_filter_simps add.assoc)
qed (simp add: map_filter_simps)

lemma count_slots_eq:
  "count_slots es = (fold (\<lambda>cc. bump cc 1) (List.map_filter sn_country_code es) [],
     of_nat (length (filter (\<lambda>e. sn_country_code e = None) es)))"
  by (simp add: count_slots_def count_slots_split)

lemma countries_slots:
  assumes "distinct cs" "set (List.map_filter sn_country_code es) \<subseteq> set cs" "unknown_code \<notin> set (List.map_filter sn_country_code es)"
    "0 < snd (count_slots es) \<longrightarrow> unknown_code \<in> set cs"
  shows "sum_list (map (\<lambda>cc. if cc = unknown_code then snd (count_slots es) else bt_get (fst (count_slots es)) cc) cs) =
    of_nat (length es)"
proof -
  let ?m = "fst (count_slots es)" and ?u = "snd (count_slots es)" and ?ccs = "List.map_filter sn_country_code es"
  have z: "bt_get ?m unknown_code = 0"
  proof -
    have "set (map_keys ?m) = set ?ccs" unfolding count_slots_eq by (simp add: keys_bumps [of "\<lambda>x. x", simplified])
    then have "map_of ?m unknown_code = None" using assms(3) by (simp only: map_of_eq_None_iff set_map [symmetric]) simp
    then show ?thesis by (simp add: bt_get_def)
  qed
  have "sum_list (map (\<lambda>cc. if cc = unknown_code then ?u else bt_get ?m cc) ks) =
      (if unknown_code \<in> set ks then ?u else 0) + total_over ?m ks" if "distinct ks" for ks
    using that by (induction ks) (auto simp: total_over_def z)
  moreover have "total_over ?m cs = of_nat (length ?ccs)"
    using total_over_bumps [OF assms(1), of "\<lambda>x. x" ?ccs "\<lambda>_. 1" "[]"] assms(2)
    by (simp add: count_slots_eq total_over_empty sum_list_triv)
  moreover have "length ?ccs + length (filter (\<lambda>e. sn_country_code e = None) es) = length es"
    by (induction es) (auto simp: map_filter_simps split: option.split)
  then have "of_nat (length ?ccs) + ?u = of_nat (length es)"
    by (simp add: count_slots_eq flip: of_nat_add)
  moreover have "unknown_code \<in> set cs \<or> ?u = 0" using assms(4) word_neq_0_conv by blast
  ultimately show ?thesis using assms(1) by (auto simp: add.commute)
qed

lemma sort_desc_perm: "mset (sort_desc f xs) = mset xs"
  by (simp add: sort_desc_def)

lemma sort_desc_sorted: "sorted (rev (map f (sort_desc f xs)))"
  by (simp add: sort_desc_def rev_map)

lemma sum_of_table: "sum_list (map f (sort_desc key (map g xs))) = sum_list (map (f \<circ> g) xs)"
  for f :: "'a \<Rightarrow> 'b::comm_monoid_add"
proof -
  have "mset (map f (sort_desc key (map g xs))) = mset (map (f \<circ> g) xs)"
    by (simp add: sort_desc_perm image_mset.compositionality)
  then show ?thesis by (metis sum_mset_sum_list)
qed

lemma distinct_all_countries: "distinct (all_countries m st u)"
  by (simp add: all_countries_def bt_set_keys)

lemma row_fields:
  "cy_slot_count \<circ> country_summary_of share zero vs sm = (\<lambda>cc. if cc = unknown_code
    then snd (count_slots (map snd sm)) else bt_get (fst (count_slots (map snd sm))) cc)"
  "cy_stake_lamports \<circ> country_summary_of share zero vs sm = bt_get (stake_per_country vs)"
  "cy_validator_count \<circ> country_summary_of share zero vs sm = bt_get (validators_per_country vs)"
  by (rule ext, simp add: country_summary_of_def Let_def case_prod_unfold)+

lemma validators_listed: "set (map validator_country vs) \<subseteq> set (all_countries m (stake_per_country vs) u)"
  using keys_bumps [of validator_country "\<lambda>v. ucast (vi_active_stake_lamports v)" vs "[]"]
  by (auto simp: all_countries_def bt_set_keys stake_per_country_def)

lemma rows_slots:
  assumes "list_all (\<lambda>e. sn_country_code e \<noteq> Some unknown_code) (map snd sm)"
  shows "sum_list (map (cy_slot_count \<circ> country_summary_of share zero vs sm)
    (all_countries (fst (count_slots (map snd sm))) st (snd (count_slots (map snd sm))))) = of_nat (length sm)"
proof -
  let ?es = "map snd sm"
  let ?m = "fst (count_slots ?es)" and ?u = "snd (count_slots ?es)"
  let ?cs = "all_countries ?m st ?u"
  have "set (map_keys ?m) = set (List.map_filter sn_country_code ?es)"
    unfolding count_slots_eq by (simp add: keys_bumps [of "\<lambda>x. x", simplified])
  then have "set (List.map_filter sn_country_code ?es) \<subseteq> set ?cs"
    by (auto simp: all_countries_def bt_set_keys)
  moreover have "unknown_code \<notin> set (List.map_filter sn_country_code ?es)"
    using assms by (auto simp: List.map_filter_def list_all_iff)
  moreover have "0 < ?u \<longrightarrow> unknown_code \<in> set ?cs" by (simp add: all_countries_def bt_set_keys)
  ultimately show ?thesis unfolding row_fields using countries_slots [OF distinct_all_countries, of ?es] by simp
qed

lemma rows_stake:
  "sum_list (map (cy_stake_lamports \<circ> country_summary_of share zero vs sm) (all_countries m (stake_per_country vs) u)) =
    sum_list (map (\<lambda>v. ucast (vi_active_stake_lamports v)) vs)"
proof -
  have "total_over (stake_per_country vs) ks = sum_list (map (\<lambda>v. ucast (vi_active_stake_lamports v)) vs)"
    if "distinct ks" "set (map validator_country vs) \<subseteq> set ks" for ks
    using total_over_bumps [OF that, of "\<lambda>v. ucast (vi_active_stake_lamports v)" "[]"]
    by (simp add: stake_per_country_def total_over_empty)
  from this [OF distinct_all_countries validators_listed] show ?thesis by (simp add: row_fields total_over_def)
qed

lemma rows_validators:
  "sum_list (map (cy_validator_count \<circ> country_summary_of share zero vs sm) (all_countries m (stake_per_country vs) u)) =
    of_nat (length vs)"
proof -
  have "total_over (validators_per_country vs) ks = of_nat (length vs)"
    if "distinct ks" "set (map validator_country vs) \<subseteq> set ks" for ks
    using total_over_bumps [OF that, of "\<lambda>_. 1" "[]"]
    by (simp add: validators_per_country_def total_over_empty sum_list_triv)
  from this [OF distinct_all_countries validators_listed] show ?thesis by (simp add: row_fields total_over_def)
qed

text \<open>C40: The country table adds up: its rows are distinct countries in descending order of their slot
  share, their slot counts, stakes and validator counts add up to the slots of the map, the stake and
  the number of all validators, and mapped and unknown slots make up the total. The one thing needed
  is that no validator reports the code under which the unknown ones are collected.\<close>
theorem summary_adds_up:
  assumes "list_all (\<lambda>e. sn_country_code e \<noteq> Some unknown_code) (map snd sm)"
  shows "let y = summarize share zero snap sm; vs = ep_validators snap
    in distinct (map cy_country_code (ey_countries y)) \<and>
       sorted (rev (map cy_slot_percentage (ey_countries y))) \<and>
       ey_mapped_slots y + ey_unknown_slots y = ey_total_slots y \<and>
       sum_list (map cy_slot_count (ey_countries y)) = ey_total_slots y \<and>
       sum_list (map cy_stake_lamports (ey_countries y)) = ey_total_stake_lamports y \<and>
       sum_list (map cy_validator_count (ey_countries y)) = of_nat (length vs)"
proof -
  let ?vs = "ep_validators snap" and ?es = "map snd sm"
  let ?u = "snd (count_slots ?es)"
  let ?cs = "all_countries (fst (count_slots ?es)) (stake_per_country ?vs) ?u"
  let ?row = "country_summary_of share zero ?vs sm"
  let ?t = "sort_desc cy_slot_percentage (map ?row ?cs)"
  have y: "summarize share zero snap sm = \<lparr> ey_epoch = ei_epoch (ep_epoch snap), ey_total_slots = of_nat (length sm),
      ey_mapped_slots = of_nat (length sm) - ?u, ey_unknown_slots = ?u, ey_countries = ?t,
      ey_total_stake_lamports = sum_list (map (\<lambda>v. ucast (vi_active_stake_lamports v)) ?vs) \<rparr>"
    by (simp add: summarize_def Let_def case_prod_unfold)
  have d: "distinct ?cs" by (simp add: all_countries_def bt_set_keys)
  have "sum_list (map cy_slot_count ?t) = of_nat (length sm)"
    "sum_list (map cy_stake_lamports ?t) = sum_list (map (\<lambda>v. ucast (vi_active_stake_lamports v)) ?vs)"
    "sum_list (map cy_validator_count ?t) = of_nat (length ?vs)"
    unfolding sum_of_table by (rule rows_slots [OF assms] rows_stake rows_validators)+
  note totals = this
  have "distinct (map cy_country_code ?t)"
  proof -
    have "mset (map cy_country_code ?t) = mset ?cs"
      by (simp add: sort_desc_perm image_mset.compositionality comp_def country_summary_of_def Let_def case_prod_unfold)
    then show ?thesis using d mset_eq_imp_distinct_iff by blast
  qed
  then show ?thesis by (simp add: y Let_def totals sort_desc_sorted)
qed

section \<open>Samples\<close>

definition demo_validator :: "string \<Rightarrow> string option \<Rightarrow> u64 \<Rightarrow> validator_info" where
  "demo_validator identity country stake = \<lparr> vi_identity = identity, vi_name = None, vi_vote_account = None,
     vi_active_stake_lamports = stake, vi_country_code = country, vi_data_center_key = None, vi_asn = None,
     vi_asn_organization = None, vi_ip = None \<rparr>"

definition demo_snapshot :: "string option \<Rightarrow> epoch_snapshot" where
  "demo_snapshot country = \<lparr> ep_fetched_at = 0,
     ep_epoch = \<lparr> ei_epoch = 7, ei_absolute_slot = 1005, ei_slot_index = 5, ei_slots_in_epoch = 8 \<rparr>,
     ep_validators = [demo_validator ''V'' country 10], ep_schedule = [(''V'', [0, 1]), (''W'', [2])] \<rparr>"

lemma demo_slot_map:
  "build_slot_map (demo_snapshot country) =
    [(1000, \<lparr> sn_absolute_slot = 1000, sn_identity = ''V'', sn_validator_name = None, sn_country_code = country,
       sn_data_center_key = None, sn_stake_lamports = 10 \<rparr>),
     (1001, \<lparr> sn_absolute_slot = 1001, sn_identity = ''V'', sn_validator_name = None, sn_country_code = country,
       sn_data_center_key = None, sn_stake_lamports = 10 \<rparr>),
     (1002, \<lparr> sn_absolute_slot = 1002, sn_identity = ''W'', sn_validator_name = None, sn_country_code = None,
       sn_data_center_key = None, sn_stake_lamports = 0 \<rparr>)]"
  by (simp add: build_slot_map_def demo_snapshot_def demo_validator_def epoch_first_slot_def Let_def slot_entry_of_def
      by_identity_def)

lemma slot_map_is_schedule_witness:
  "slot_lookup (build_slot_map (demo_snapshot (Some ''DE''))) = map_of (scheduled (demo_snapshot (Some ''DE'')))"
proof -
  have "distinct (concat (map snd (ep_schedule (demo_snapshot (Some ''DE'')))))" by (simp add: demo_snapshot_def)
  from slot_map_is_schedule [OF this] show ?thesis by blast
qed

lemma summary_adds_up_witness:
  "sum_list (map cy_slot_count (ey_countries (summarize (\<lambda>a b. unat a) 0 (demo_snapshot (Some ''DE''))
     (build_slot_map (demo_snapshot (Some ''DE'')))))) = 3"
proof -
  have "list_all (\<lambda>e. sn_country_code e \<noteq> Some unknown_code) (map snd (build_slot_map (demo_snapshot (Some ''DE''))))"
    by (simp add: demo_slot_map unknown_code_def)
  from summary_adds_up [OF this, of "\<lambda>a b. unat a" 0 "demo_snapshot (Some ''DE'')"] show ?thesis
    by (simp add: Let_def summarize_def case_prod_unfold demo_slot_map)
qed

text \<open>A validator that reports the code of the unknown ones loses its slots in the table.\<close>

lemma explicit_unknown_code_lost:
  "sum_list (map cy_slot_count (ey_countries (summarize (\<lambda>a b. unat a) 0 (demo_snapshot (Some unknown_code))
     (build_slot_map (demo_snapshot (Some unknown_code)))))) = 1"
proof -
  let ?sm = "build_slot_map (demo_snapshot (Some unknown_code))"
  have c: "count_slots (map snd ?sm) = ([(unknown_code, 2)], 1)"
    by (simp add: demo_slot_map count_slots_def bump_def bt_get_def)
  have v: "ep_validators (demo_snapshot (Some unknown_code)) = [demo_validator ''V'' (Some unknown_code) 10]"
    by (simp add: demo_snapshot_def)
  have k: "all_countries [(unknown_code, 2)] (stake_per_country [demo_validator ''V'' (Some unknown_code) 10]) 1 = [unknown_code]"
    by (simp add: all_countries_def bt_set_def stake_per_country_def bump_def bt_get_def validator_country_def demo_validator_def)
  show ?thesis
    by (simp add: summarize_def c v k sort_desc_def Let_def) (simp add: country_summary_of_def c Let_def)
qed

end
