(* ===== verification/Leader_Store.thy ===== *)
theory Leader_Store
  imports Leader_Map Rust_Parse Sender_Base
begin

text \<open>
  \<open>crates/solana-leader-map/src/cache.rs\<close>, \<open>cli.rs\<close>, \<open>solana_rpc.rs\<close> and \<open>validators_app.rs\<close>: the JSON
  snapshots per epoch, the commands over them, the two services they come from. A directory is a map
  from file names to contents, listed in an arbitrary order; \<open>serde_json\<close> is the pair \<open>enc\<close>, \<open>dec\<close>;
  what the services answer is a parameter. The printed tables are the lists of their rows.
\<close>

datatype leader_map_error = ReadFailed string | ParseFailed string | NoSnapshot | BadRange string
  | ParseStart string | ParseEnd string | ReversedRange
  | RpcTransport string | RpcStatus string u16 | RpcBody string | RpcErrorReply string int string
  | RpcNoResult string | RpcDecode string | ValidatorsTransport | ValidatorsStatus u16 | ValidatorsBody

type_synonym directory = "(string, string) hash_map"

section \<open>The cache\<close>

definition snapshot_prefix :: string where "snapshot_prefix = ''leader-map-epoch-''"

definition snapshot_name :: "u64 \<Rightarrow> string" where
  "snapshot_name epoch = snapshot_prefix @ show_word epoch @ ''.json''"

definition cache_save :: "(epoch_snapshot \<Rightarrow> string) \<Rightarrow> epoch_snapshot \<Rightarrow> directory \<Rightarrow> directory" where
  "cache_save enc snap dir = hm_insert (snapshot_name (ei_epoch (ep_epoch snap))) (enc snap) dir"

definition cache_load :: "(string \<Rightarrow> epoch_snapshot option) \<Rightarrow> u64 \<Rightarrow> directory \<Rightarrow> leader_map_error + epoch_snapshot" where
  "cache_load dec epoch dir = (case map_of dir (snapshot_name epoch) of
     None \<Rightarrow> Inl (ReadFailed (snapshot_name epoch))
   | Some raw \<Rightarrow> (case dec raw of None \<Rightarrow> Inl (ParseFailed (snapshot_name epoch)) | Some snap \<Rightarrow> Inr snap))"

definition file_epoch :: "string \<Rightarrow> u64 option" where
  "file_epoch name = Option.bind (strip_prefix snapshot_prefix name)
     (\<lambda>rest. Option.bind (strip_suffix ''.json'' rest) parse_u64)"

definition newer :: "string \<Rightarrow> u64 option \<Rightarrow> u64 option" where
  "newer name newest = (case file_epoch name of
     None \<Rightarrow> newest
   | Some e \<Rightarrow> (case newest of None \<Rightarrow> Some e | Some n \<Rightarrow> if n < e then Some e else newest))"

definition newest_epoch :: "directory \<Rightarrow> u64 option" where
  "newest_epoch dir = fold newer (map_keys dir) None"

definition latest_snapshot :: "(string \<Rightarrow> epoch_snapshot option) \<Rightarrow> directory \<Rightarrow> leader_map_error + epoch_snapshot option" where
  "latest_snapshot dec dir = (case newest_epoch dir of
     None \<Rightarrow> Inr None
   | Some e \<Rightarrow> (case cache_load dec e dir of Inl err \<Rightarrow> Inl err | Inr s \<Rightarrow> Inr (Some s)))"

section \<open>The RPC client\<close>

definition leader_rpc_request :: "string \<Rightarrow> json \<Rightarrow> json" where
  "leader_rpc_request method params = JObject [(''jsonrpc'', JString ''2.0''), (''id'', JNumber 1),
     (''method'', JString method), (''params'', params)]"

definition leader_rpc_headers :: "string option \<Rightarrow> (string \<times> string) list" where
  "leader_rpc_headers auth = (''Content-Type'', ''application/json'') #
     (case auth of Some a \<Rightarrow> [(''Authorization'', a)] | None \<Rightarrow> [])"

definition is_success :: "u16 \<Rightarrow> bool" where
  "is_success s \<longleftrightarrow> 200 \<le> s \<and> s < 300"

text \<open>\<open>RpcError\<close>, or code 0 with the text of the value.\<close>

definition rpc_error_parts :: "(json \<Rightarrow> string) \<Rightarrow> json \<Rightarrow> int \<times> string" where
  "rpc_error_parts show_json v = (case (json_get ''code'' v, json_get ''message'' v) of
     (Some (JNumber c), Some (JString m)) \<Rightarrow> if - (2 ^ 63) \<le> c \<and> c < 2 ^ 63 then (c, m) else (0, show_json v)
   | _ \<Rightarrow> (0, show_json v))"

text \<open>What the transport yields: nothing, or a status and the body when it is JSON.\<close>

type_synonym http_reply = "(u16 \<times> json option) option"

definition leader_rpc_call ::
  "(json \<Rightarrow> string) \<Rightarrow> (json \<Rightarrow> 'a option) \<Rightarrow> string \<Rightarrow> http_reply \<Rightarrow> leader_map_error + 'a" where
  "leader_rpc_call show_json decode method reply = (case reply of
     None \<Rightarrow> Inl (RpcTransport method)
   | Some (status, body) \<Rightarrow> if \<not> is_success status then Inl (RpcStatus method status)
     else (case body of
       None \<Rightarrow> Inl (RpcBody method)
     | Some raw \<Rightarrow> (case json_get ''error'' raw of
         Some e \<Rightarrow> (case rpc_error_parts show_json e of (c, m) \<Rightarrow> Inl (RpcErrorReply method c m))
       | None \<Rightarrow> (case json_get ''result'' raw of
           None \<Rightarrow> Inl (RpcNoResult method)
         | Some v \<Rightarrow> (case decode v of None \<Rightarrow> Inl (RpcDecode method) | Some r \<Rightarrow> Inr r)))))"

definition decode_epoch_info :: "json \<Rightarrow> epoch_info option" where
  "decode_epoch_info v = (case (Option.bind (json_get ''epoch'' v) json_u64, Option.bind (json_get ''absoluteSlot'' v) json_u64,
       Option.bind (json_get ''slotIndex'' v) json_u64, Option.bind (json_get ''slotsInEpoch'' v) json_u64) of
     (Some e, Some a, Some i, Some n) \<Rightarrow>
       Some \<lparr> ei_epoch = e, ei_absolute_slot = a, ei_slot_index = i, ei_slots_in_epoch = n \<rparr>
   | _ \<Rightarrow> None)"

fun all_some :: "'a option list \<Rightarrow> 'a list option" where
  "all_some [] = Some []"
| "all_some (x # xs) = (case (x, all_some xs) of (Some y, Some ys) \<Rightarrow> Some (y # ys) | _ \<Rightarrow> None)"

definition decode_leader_schedule :: "json \<Rightarrow> (string \<times> u64 list) list option" where
  "decode_leader_schedule v = (case v of
     JObject fs \<Rightarrow> all_some (map (\<lambda>(k, w). case w of
       JArray ns \<Rightarrow> map_option (Pair k) (all_some (map json_u64 ns)) | _ \<Rightarrow> None) fs)
   | _ \<Rightarrow> None)"

section \<open>The validator list\<close>

record raw_validator =
  rv_account :: "string option"
  rv_name :: "string option"
  rv_vote_account :: "string option"
  rv_active_stake :: "u64 option"
  rv_country_code :: "string option"
  rv_data_center_key :: "string option"
  rv_autonomous_system_number :: "u64 option"
  rv_asn :: "string option"
  rv_ip :: "string option"

definition validators_url :: "string \<Rightarrow> string \<Rightarrow> string" where
  "validators_url base_url network =
    trim_end_matches CHR ''/'' base_url @ ''/api/v1/validators/'' @ network @ ''.json?per=10000''"

definition map_raw :: "raw_validator \<Rightarrow> validator_info option" where
  "map_raw r = map_option (\<lambda>identity. \<lparr> vi_identity = identity, vi_name = rv_name r, vi_vote_account = rv_vote_account r,
     vi_active_stake_lamports = (case rv_active_stake r of Some s \<Rightarrow> s | None \<Rightarrow> 0),
     vi_country_code = rv_country_code r, vi_data_center_key = rv_data_center_key r,
     vi_asn = rv_autonomous_system_number r, vi_asn_organization = rv_asn r, vi_ip = rv_ip r \<rparr>) (rv_account r)"

definition fetch_all_validators :: "(u16 \<times> raw_validator list option) option \<Rightarrow> leader_map_error + validator_info list" where
  "fetch_all_validators reply = (case reply of
     None \<Rightarrow> Inl ValidatorsTransport
   | Some (status, body) \<Rightarrow> if \<not> is_success status then Inl (ValidatorsStatus status)
     else (case body of None \<Rightarrow> Inl ValidatorsBody | Some raw \<Rightarrow> Inr (List.map_filter map_raw raw)))"

section \<open>The commands\<close>

text \<open>\<open>fetch\<close>: the epoch is asked first; \<open>try_join!\<close> fails with the first error.\<close>

definition fetch_cmd ::
  "(epoch_snapshot \<Rightarrow> string) \<Rightarrow> nat \<Rightarrow> bool \<Rightarrow> leader_map_error + epoch_info \<Rightarrow> leader_map_error + validator_info list \<Rightarrow>
    leader_map_error + (string \<times> u64 list) list \<Rightarrow> directory \<Rightarrow> leader_map_error + directory" where
  "fetch_cmd enc now force info validators schedule dir = (case info of
     Inl e \<Rightarrow> Inl e
   | Inr i \<Rightarrow> if map_of dir (snapshot_name (ei_epoch i)) \<noteq> None \<and> \<not> force then Inr dir
     else (case validators of
       Inl e \<Rightarrow> Inl e
     | Inr vs \<Rightarrow> (case schedule of
         Inl e \<Rightarrow> Inl e
       | Inr sch \<Rightarrow> Inr (cache_save enc
           \<lparr> ep_fetched_at = now, ep_epoch = i, ep_validators = vs, ep_schedule = sch \<rparr> dir))))"

definition load_snapshot ::
  "(string \<Rightarrow> epoch_snapshot option) \<Rightarrow> u64 option \<Rightarrow> directory \<Rightarrow> leader_map_error + epoch_snapshot" where
  "load_snapshot dec epoch dir = (case epoch of
     Some e \<Rightarrow> cache_load dec e dir
   | None \<Rightarrow> (case latest_snapshot dec dir of
       Inl err \<Rightarrow> Inl err | Inr None \<Rightarrow> Inl NoSnapshot | Inr (Some s) \<Rightarrow> Inr s))"

definition summary_cmd ::
  "(string \<Rightarrow> epoch_snapshot option) \<Rightarrow> (u128 \<Rightarrow> u128 \<Rightarrow> 'f::linorder) \<Rightarrow> 'f \<Rightarrow> u64 option \<Rightarrow> directory \<Rightarrow>
    leader_map_error + 'f epoch_summary" where
  "summary_cmd dec share zero epoch dir = (case load_snapshot dec epoch dir of
     Inl e \<Rightarrow> Inl e | Inr snap \<Rightarrow> Inr (summarize share zero snap (build_slot_map snap)))"

text \<open>\<open>at\<close>: the entry, or the bounds of the cached epoch.\<close>

definition at_cmd ::
  "(string \<Rightarrow> epoch_snapshot option) \<Rightarrow> u64 \<Rightarrow> u64 option \<Rightarrow> directory \<Rightarrow>
    leader_map_error + (slot_entry + u64 \<times> u64 \<times> u64)" where
  "at_cmd dec slot epoch dir = (case load_snapshot dec epoch dir of
     Inl e \<Rightarrow> Inl e
   | Inr snap \<Rightarrow> Inr (case map_of (build_slot_map snap) slot of
       Some entry \<Rightarrow> Inl entry
     | None \<Rightarrow> Inr (ei_epoch (ep_epoch snap), epoch_first_slot (ep_epoch snap), epoch_last_slot (ep_epoch snap))))"

definition parse_range :: "string \<Rightarrow> leader_map_error + u64 \<times> u64" where
  "parse_range input = (case split_all_str ''..'' input of
     [a, b] \<Rightarrow> (case parse_u64 a of
         None \<Rightarrow> Inl (ParseStart input)
       | Some start \<Rightarrow> (case parse_u64 b of None \<Rightarrow> Inl (ParseEnd input) | Some stop \<Rightarrow> Inr (start, stop)))
   | _ \<Rightarrow> Inl (BadRange input))"

text \<open>\<open>start..=end\<close>\<close>

definition slots_between :: "u64 \<Rightarrow> u64 \<Rightarrow> u64 list" where
  "slots_between a b = map of_nat [unat a..<Suc (unat b)]"

definition slots_cmd ::
  "(string \<Rightarrow> epoch_snapshot option) \<Rightarrow> string \<Rightarrow> u64 option \<Rightarrow> directory \<Rightarrow> leader_map_error + slot_entry list" where
  "slots_cmd dec spec epoch dir = (case parse_range spec of
     Inl e \<Rightarrow> Inl e
   | Inr (start, stop) \<Rightarrow> if stop < start then Inl ReversedRange
     else (case load_snapshot dec epoch dir of
       Inl e \<Rightarrow> Inl e
     | Inr snap \<Rightarrow> Inr (List.map_filter (map_of (build_slot_map snap)) (slots_between start stop))))"

end
