(* ===== verification/Leader_Store_Props.thy ===== *)
theory Leader_Store_Props
  imports Leader_Store
begin

text \<open>
  Properties of the leader-map tool: the newest snapshot is found among the saved ones, a range of
  slots is answered with exactly its slots, a fetch stores the epoch it asked for.
\<close>

section \<open>File names\<close>

lemma strip_prefix_app [simp]: "strip_prefix p (p @ s) = Some s"
  by (simp add: strip_prefix_def)

lemma strip_suffix_app [simp]: "strip_suffix p (s @ p) = Some s"
  by (simp add: strip_suffix_def suffix_def)

lemma file_epoch_name [simp]: "file_epoch (snapshot_name e) = Some e"
  by (simp add: file_epoch_def snapshot_name_def del: append_assoc)

lemma snapshot_name_inj: "snapshot_name a = snapshot_name b \<longleftrightarrow> a = b"
  by (metis file_epoch_name option.inject)

section \<open>The newest epoch\<close>

definition newest_of :: "string list \<Rightarrow> u64 option \<Rightarrow> u64 option \<Rightarrow> bool" where
  "newest_of names start r \<longleftrightarrow> (case r of
     None \<Rightarrow> start = None \<and> list_all (\<lambda>n. file_epoch n = None) names
   | Some e \<Rightarrow> (start = Some e \<or> e \<in> set (List.map_filter file_epoch names)) \<and>
       (\<forall>e' \<in> set (List.map_filter file_epoch names) \<union> set_option start. e' \<le> e))"

lemma newest_of_fold: "newest_of names start (fold newer names start)"
proof (induction names arbitrary: start)
  case Nil
  then show ?case by (cases start) (simp_all add: newest_of_def map_filter_simps)
next
  case (Cons n names)
  have s: "newer n start = (case file_epoch n of None \<Rightarrow> start | Some e \<Rightarrow>
      (case start of None \<Rightarrow> Some e | Some m \<Rightarrow> if m < e then Some e else start))"
    by (simp add: newer_def)
  show ?case
  proof (cases "file_epoch n")
    case None
    then have "newer n start = start" by (simp add: s)
    then show ?thesis using Cons.IH [of start] None
      by (cases "fold newer names start") (simp_all add: newest_of_def map_filter_simps)
  next
    case (Some e)
    have "\<exists>x. newer n start = Some x \<and> (x = e \<or> start = Some x) \<and> e \<le> x \<and> (\<forall>m \<in> set_option start. m \<le> x)"
      by (cases start) (auto simp: newer_def Some not_less less_imp_le)
    then obtain x where x: "newer n start = Some x" "x = e \<or> start = Some x" "e \<le> x" "\<forall>m \<in> set_option start. m \<le> x"
      by blast
    have "newest_of names (Some x) (fold newer names (Some x))" by (rule Cons.IH)
    then show ?thesis using Some x
      by (cases "fold newer names (Some x)") (auto simp: newest_of_def map_filter_simps intro: order_trans)
  qed
qed

lemma newest_epoch_Some:
  assumes "newest_epoch dir = Some e"
  shows "\<exists>name \<in> set (map_keys dir). file_epoch name = Some e"
    "name \<in> set (map_keys dir) \<Longrightarrow> file_epoch name = Some e' \<Longrightarrow> e' \<le> e"
proof -
  have n: "e \<in> set (List.map_filter file_epoch (map_keys dir))"
    "\<forall>e' \<in> set (List.map_filter file_epoch (map_keys dir)). e' \<le> e"
    using newest_of_fold [of "map_keys dir" None] assms by (simp_all add: newest_epoch_def newest_of_def)
  have m: "e' \<in> set (List.map_filter file_epoch ns) \<longleftrightarrow> (\<exists>n \<in> set ns. file_epoch n = Some e')" for ns e'
    by (induction ns) (auto simp: map_filter_simps split: option.splits)
  show "\<exists>name \<in> set (map_keys dir). file_epoch name = Some e" using n(1) m by blast
  show "name \<in> set (map_keys dir) \<Longrightarrow> file_epoch name = Some e' \<Longrightarrow> e' \<le> e" using n(2) m by blast
qed

lemma newest_epoch_None:
  "newest_epoch dir = None \<Longrightarrow> name \<in> set (map_keys dir) \<Longrightarrow> file_epoch name = None"
  using newest_of_fold [of "map_keys dir" None]
  by (auto simp: newest_epoch_def newest_of_def list_all_iff)

section \<open>A directory of saved snapshots\<close>

definition snap_epoch :: "epoch_snapshot \<Rightarrow> u64" where "snap_epoch s = ei_epoch (ep_epoch s)"

text \<open>The last snapshot saved for an epoch.\<close>

definition last_saved :: "epoch_snapshot list \<Rightarrow> u64 \<Rightarrow> epoch_snapshot option" where
  "last_saved snaps e = List.find (\<lambda>s. snap_epoch s = e) (rev snaps)"

lemma last_saved_snoc: "last_saved (snaps @ [s]) e = (if snap_epoch s = e then Some s else last_saved snaps e)"
  by (simp add: last_saved_def)

lemma saved_file:
  "map_of (fold (cache_save enc) snaps dir) (snapshot_name e) =
    (case last_saved snaps e of Some s \<Rightarrow> Some (enc s) | None \<Rightarrow> map_of dir (snapshot_name e))"
proof (induction snaps rule: rev_induct)
  case Nil
  then show ?case by (simp add: last_saved_def)
next
  case (snoc s snaps)
  then show ?case
    by (auto simp: last_saved_snoc cache_save_def hm.lookup_insert snapshot_name_inj snap_epoch_def split: option.splits)
qed

lemma saved_names:
  "set (map_keys (fold (cache_save enc) snaps dir)) = (\<lambda>s. snapshot_name (snap_epoch s)) ` set snaps \<union> set (map_keys dir)"
proof (induction snaps arbitrary: dir)
  case (Cons s snaps)
  have "set (map_keys (cache_save enc s dir)) = {snapshot_name (snap_epoch s)} \<union> set (map_keys dir)"
    unfolding cache_save_def snap_epoch_def by (rule hm.set_keys_insert)
  then show ?case using Cons.IH [of "cache_save enc s dir"] by auto
qed simp

lemma last_saved_in: "last_saved snaps e = Some s \<Longrightarrow> s \<in> set snaps \<and> snap_epoch s = e"
  by (auto simp: last_saved_def find_Some_iff in_set_conv_nth rev_nth) (metis diff_Suc_less gr_zeroI length_0_conv list.size(3) not_less_zero)

lemma last_saved_exists: "s \<in> set snaps \<Longrightarrow> last_saved snaps (snap_epoch s) \<noteq> None"
  by (auto simp: last_saved_def find_None_iff)

text \<open>The cache gives back what was saved: in a directory to which snapshots were saved, beside files
  that are not snapshots, the latest snapshot is the last one saved for the greatest epoch, and
  loading an epoch gives the last one saved for it.\<close>
theorem latest_is_last_of_greatest:
  assumes "list_all (\<lambda>s. dec (enc s) = Some s) snaps" "list_all (\<lambda>n. file_epoch n = None) (map_keys other)" "s \<in> set snaps"
  shows "\<exists>l. latest_snapshot dec (fold (cache_save enc) snaps other) = Inr (Some l) \<and>
    last_saved snaps (snap_epoch l) = Some l \<and> snap_epoch s \<le> snap_epoch l \<and>
    cache_load dec (snap_epoch s) (fold (cache_save enc) snaps other) = Inr (the (last_saved snaps (snap_epoch s)))"
proof -
  let ?dir = "fold (cache_save enc) snaps other"
  have load: "cache_load dec (snap_epoch t) ?dir = Inr (the (last_saved snaps (snap_epoch t)))" if "t \<in> set snaps" for t
  proof -
    obtain l where l: "last_saved snaps (snap_epoch t) = Some l" using last_saved_exists [OF \<open>t \<in> set snaps\<close>] by blast
    then have "dec (enc l) = Some l" using assms(1) last_saved_in by (simp add: list_all_iff)
    then show ?thesis by (simp add: cache_load_def saved_file l)
  qed
  have names: "set (map_keys ?dir) = (\<lambda>s. snapshot_name (snap_epoch s)) ` set snaps \<union> set (map_keys other)"
    by (rule saved_names)
  have "snapshot_name (snap_epoch s) \<in> set (map_keys ?dir)" unfolding names using assms(3) by blast
  then obtain e where e: "newest_epoch ?dir = Some e"
    using newest_epoch_None [of ?dir] by (metis file_epoch_name not_None_eq option.distinct(1))
  obtain name where "name \<in> set (map_keys ?dir)" "file_epoch name = Some e" using newest_epoch_Some(1) [OF e] by blast
  then obtain t where t: "t \<in> set snaps" "snap_epoch t = e"
    using names assms(2) by (auto simp: list_all_iff)
  obtain l where l: "last_saved snaps e = Some l" using last_saved_exists [OF t(1)] t(2) by blast
  then have "snap_epoch l = e" using last_saved_in by blast
  moreover have "latest_snapshot dec ?dir = Inr (Some l)"
    using load [OF t(1)] l t(2) by (simp add: latest_snapshot_def e)
  moreover have "snap_epoch s \<le> e"
    using newest_epoch_Some(2) [OF e \<open>snapshot_name (snap_epoch s) \<in> set (map_keys ?dir)\<close>] by simp
  ultimately show ?thesis using l load [OF assms(3)] by auto
qed

section \<open>A range of slots\<close>

lemma sorted_slots_between: "sorted_wrt (<) (slots_between a b)"
proof -
  have "sorted_wrt (<) (map of_nat [m..<n] :: u64 list)" if "n \<le> 2 ^ 64" for m n
  proof -
    have "sorted_wrt (\<lambda>i j. (of_nat i :: u64) < of_nat j) [m..<n]"
      by (rule sorted_wrt_mono_rel [OF _ sorted_wrt_upt]) (use that in \<open>auto simp: word_less_nat_alt unat_of_nat\<close>)
    then show ?thesis by (simp add: sorted_wrt_map)
  qed
  moreover have "Suc (unat b) \<le> 2 ^ 64" using unat_lt [of b] by simp
  ultimately show ?thesis by (simp add: slots_between_def del: upt_Suc)
qed

lemma set_slots_between: "set (slots_between a b) = {a..b}"
proof -
  have "set (slots_between a b) = of_nat ` {unat a..unat b}"
    by (simp add: slots_between_def atLeastLessThanSuc_atLeastAtMost del: upt_Suc)
  also have "\<dots> = of_nat ` (unat ` {a..b})"
  proof -
    have "unat ` {a..b} = {unat a..unat b}"
    proof
      show "{unat a..unat b} \<subseteq> unat ` {a..b}"
      proof
        fix x
        assume x: "x \<in> {unat a..unat b}"
        then have "x < 2 ^ 64" using unat_lt [of b] by (simp add: le_less_trans)
        then have "unat (of_nat x :: u64) = x" by (simp add: unat_of_nat)
        then show "x \<in> unat ` {a..b}" using x by (intro image_eqI [of _ _ "of_nat x"]) (simp_all add: word_le_nat_alt)
      qed
    qed (auto simp: word_le_nat_alt)
    then show ?thesis by simp
  qed
  also have "\<dots> = {a..b}" by (simp add: image_image)
  finally show ?thesis .
qed

text \<open>Looking up ascending keys one by one is filtering a map whose keys ascend.\<close>

lemma lookup_ascending:
  assumes "bt_inv m" "sorted_wrt (<) ks"
  shows "List.map_filter (map_of m) ks = map snd (filter (\<lambda>e. fst e \<in> set ks) m)"
proof -
  let ?hit = "filter (\<lambda>k. map_of m k \<noteq> None) ks"
  have "?hit = map fst (filter (\<lambda>e. fst e \<in> set ks) m)"
  proof (rule sorted_distinct_set_unique)
    have "sorted_wrt (<) ?hit" using assms(2) by (rule sorted_wrt_filter)
    then show "sorted ?hit" "distinct ?hit" by (simp_all add: strict_sorted_iff)
    have "sorted_wrt (<) (map fst (filter (\<lambda>e. fst e \<in> set ks) m))"
      using bt_inv_filter [OF assms(1)] by (simp add: bt_inv_def)
    then show "sorted (map fst (filter (\<lambda>e. fst e \<in> set ks) m))" "distinct (map fst (filter (\<lambda>e. fst e \<in> set ks) m))"
      by (simp_all add: strict_sorted_iff)
    show "set ?hit = set (map fst (filter (\<lambda>e. fst e \<in> set ks) m))"
      by (auto simp: map_of_eq_None_iff image_iff)
  qed
  moreover have "List.map_filter (map_of m) ks = map (\<lambda>k. the (map_of m k)) ?hit"
    by (simp add: List.map_filter_def comp_def)
  moreover have "map (\<lambda>k. the (map_of m k)) (map fst (filter P m)) = map snd (filter P m)" for P
    using bt_inv_distinct [OF assms(1)] by (auto simp: comp_def)
  ultimately show ?thesis by simp
qed

lemma build_slot_map_inv: "bt_inv (build_slot_map snap)"
  unfolding slot_map_scheduled by (rule bt_fold_insert) simp

lemma no_dot: "CHR ''.'' \<notin> set (show_word (w :: u64))"
proof -
  have "list_all is_digit (show_word w)" using show_nat_parts by (simp add: show_word_def)
  then show ?thesis by (auto simp: list_all_iff is_digit_def)
qed

lemma split_at_dots: "CHR ''.'' \<notin> set a \<Longrightarrow> split_once_str ''..'' (a @ ''..'' @ b) = Some (a, b)"
  by (induction a) auto

lemma split_no_dots: "CHR ''.'' \<notin> set b \<Longrightarrow> split_once_str ''..'' b = None"
  by (induction b) auto

lemma parse_range_show: "parse_range (show_word a @ ''..'' @ show_word b) = Inr (a, b)"
proof -
  have "split_all_str ''..'' (show_word a @ ''..'' @ show_word b) = [show_word a, show_word b]"
    unfolding split_all_str.simps [of "''..''" "show_word a @ ''..'' @ show_word b"] split_at_dots [OF no_dot]
    by (simp add: split_all_str.simps [of "''..''" "show_word b"] split_no_dots [OF no_dot])
  then show ?thesis by (simp add: parse_range_def)
qed

text \<open>The \<open>slots\<close> command answers a range \<open>a..b\<close> with exactly the entries of the slot map from a to b,
  both included, in ascending order, although it looks every slot of the range up by itself; a
  reversed range is an error.\<close>
theorem slots_cmd_is_range:
  assumes "load_snapshot dec epoch dir = Inr snap"
  shows "slots_cmd dec (show_word a @ ''..'' @ show_word b) epoch dir =
    (if b < a then Inl ReversedRange
     else Inr (map snd (filter (\<lambda>e. a \<le> fst e \<and> fst e \<le> b) (build_slot_map snap))))"
proof -
  have "parse_range (show_word a @ ''..'' @ show_word b) = Inr (a, b)" by (rule parse_range_show)
  then show ?thesis
    using lookup_ascending [OF build_slot_map_inv sorted_slots_between, of snap a b] assms
    by (simp add: slots_cmd_def set_slots_between)
qed

section \<open>Fetching\<close>

text \<open>A successful fetch leaves a snapshot of the epoch it asked for and touches no other file; it
  leaves the directory alone when the epoch is cached and no refetch is forced, so a second fetch in
  the same epoch changes nothing; and it fails exactly when the epoch or a needed answer fails.\<close>
theorem fetch_stores_epoch:
  "case fetch_cmd enc now force info validators schedule dir of
     Inl e \<Rightarrow> info = Inl e \<or> validators = Inl e \<or> schedule = Inl e
   | Inr dir' \<Rightarrow> (case info of Inl _ \<Rightarrow> False | Inr i \<Rightarrow>
       map_of dir' (snapshot_name (ei_epoch i)) \<noteq> None \<and>
       map_of dir' |` (- {snapshot_name (ei_epoch i)}) = map_of dir |` (- {snapshot_name (ei_epoch i)}) \<and>
       fetch_cmd enc now' False info validators' schedule' dir' = Inr dir')"
proof (cases info)
  case (Inr i)
  show ?thesis
  proof (cases "map_of dir (snapshot_name (ei_epoch i)) \<noteq> None \<and> \<not> force")
    case True
    then show ?thesis by (simp add: fetch_cmd_def Inr)
  next
    case False
    then show ?thesis
      by (cases validators; cases schedule)
        (auto simp: fetch_cmd_def Inr cache_save_def hm.lookup_insert restrict_map_def fun_eq_iff)
  qed
qed (simp add: fetch_cmd_def)

section \<open>Behaviours worth knowing\<close>

text \<open>A reply that carries \<open>"error": null\<close> beside its result is reported as an error.\<close>

lemma null_error_fails:
  "leader_rpc_call show_json decode m (Some (200, Some (JObject [(''result'', v), (''error'', JNull)]))) =
    Inl (RpcErrorReply m 0 (show_json JNull))"
  by (simp add: leader_rpc_call_def is_success_def json_get_def rpc_error_parts_def word_le_nat_alt word_less_nat_alt)

text \<open>A file whose number is written with leading zeros counts as its epoch but is not the file loaded.\<close>

lemma padded_name_not_loaded:
  "file_epoch ''leader-map-epoch-007.json'' = Some 7 \<and>
    latest_snapshot dec [(''leader-map-epoch-007.json'', raw)] = Inl (ReadFailed (snapshot_name 7))"
proof -
  have e: "file_epoch ''leader-map-epoch-007.json'' = Some 7"
    by (simp add: file_epoch_def strip_prefix_def strip_suffix_def snapshot_prefix_def suffix_def parse_u64_def
        parse_unsigned_def is_digit_def digits_val_def digit_val_def u64_max_def)
  have "char_of (55 :: nat) = CHR ''7''" by code_simp
  then have n: "snapshot_name 7 = ''leader-map-epoch-7.json''"
    by (simp add: snapshot_name_def snapshot_prefix_def show_word_def show_nat.simps)
  show ?thesis using e by (simp add: latest_snapshot_def newest_epoch_def newer_def cache_load_def n)
qed

section \<open>Samples\<close>

definition demo_enc :: "epoch_snapshot \<Rightarrow> string" where
  "demo_enc s = show_word (snap_epoch s)"

definition demo_dec :: "epoch_snapshot \<Rightarrow> string \<Rightarrow> epoch_snapshot option" where
  "demo_dec s _ = Some s"

lemma slots_cmd_is_range_witness:
  "slots_cmd (demo_dec (demo_snapshot None)) (show_word (1001 :: u64) @ ''..'' @ show_word (1005 :: u64)) (Some 7)
     [(snapshot_name 7, [])] =
   Inr (map snd (filter (\<lambda>e. 1001 \<le> fst e \<and> fst e \<le> 1005) (build_slot_map (demo_snapshot None))))"
proof -
  have "load_snapshot (demo_dec (demo_snapshot None)) (Some 7) [(snapshot_name 7, [])] = Inr (demo_snapshot None)"
    by (simp add: load_snapshot_def cache_load_def demo_dec_def)
  from slots_cmd_is_range [OF this, of 1001 1005] show ?thesis by (simp add: word_less_nat_alt)
qed

lemma latest_is_last_of_greatest_witness:
  "\<exists>l. latest_snapshot (demo_dec (demo_snapshot None)) (fold (cache_save demo_enc) [demo_snapshot None] [(''notes.txt'', [])]) = Inr (Some l) \<and>
    last_saved [demo_snapshot None] (snap_epoch l) = Some l"
proof -
  have "list_all (\<lambda>n. file_epoch n = None) (map_keys [(''notes.txt'', [] :: string)])"
    by (simp add: file_epoch_def strip_prefix_def snapshot_prefix_def)
  from latest_is_last_of_greatest [OF _ this, of "demo_dec (demo_snapshot None)" demo_enc "[demo_snapshot None]" "demo_snapshot None"]
  show ?thesis by (auto simp: demo_dec_def)
qed

end
