(* ===== verification/Bench_Pool.thy ===== *)
theory Bench_Pool
  imports Schedule Drop_Counters Bytes
begin

text \<open>
  The shared parts of \<open>crates/tick-trigger-bench\<close>: \<open>counters.rs\<close>, \<open>tx_pool.rs\<close> and \<open>schedule.rs\<close>.
  The random generator of the schedule is a sequence of draws, as in \<open>Schedule\<close>, whose rejection
  loop this older crate repeats with a fixed count of three.
\<close>

section \<open>Counters\<close>

record bench_counters =
  tc_pool_empty :: u64
  tc_send_queue_full :: u64
  tc_match_queue_full :: u64
  tc_send_http_error :: u64
  tc_send_network_error :: u64
  tc_preparer_blockhash_fail :: u64
  tc_preparer_signing_fail :: u64
  tc_fork_tick_overflow :: u64
  tc_rpc_fallback_error :: u64
  tc_tick_event_queue_full :: u64
  tc_send_event_queue_full :: u64
  tc_final_queue_full :: u64
  tc_blockhash_expired :: u64
  tc_schedule_contains_calls :: u64
  tc_schedule_contains_true :: u64

definition bench_counters_default :: bench_counters where
  "bench_counters_default = \<lparr> tc_pool_empty = 0, tc_send_queue_full = 0, tc_match_queue_full = 0, tc_send_http_error = 0,
     tc_send_network_error = 0, tc_preparer_blockhash_fail = 0, tc_preparer_signing_fail = 0, tc_fork_tick_overflow = 0,
     tc_rpc_fallback_error = 0, tc_tick_event_queue_full = 0, tc_send_event_queue_full = 0, tc_final_queue_full = 0,
     tc_blockhash_expired = 0, tc_schedule_contains_calls = 0, tc_schedule_contains_true = 0 \<rparr>"

definition bench_deltas_vs :: "bench_counters \<Rightarrow> bench_counters \<Rightarrow> (string \<times> u64) list" where
  "bench_deltas_vs cur prev =
     delta_of ''pool_empty'' (tc_pool_empty cur) (tc_pool_empty prev) @
     delta_of ''send_queue_full'' (tc_send_queue_full cur) (tc_send_queue_full prev) @
     delta_of ''match_queue_full'' (tc_match_queue_full cur) (tc_match_queue_full prev) @
     delta_of ''send_http_error'' (tc_send_http_error cur) (tc_send_http_error prev) @
     delta_of ''send_network_error'' (tc_send_network_error cur) (tc_send_network_error prev) @
     delta_of ''preparer_blockhash_fail'' (tc_preparer_blockhash_fail cur) (tc_preparer_blockhash_fail prev) @
     delta_of ''preparer_signing_fail'' (tc_preparer_signing_fail cur) (tc_preparer_signing_fail prev) @
     delta_of ''fork_tick_overflow'' (tc_fork_tick_overflow cur) (tc_fork_tick_overflow prev) @
     delta_of ''rpc_fallback_error'' (tc_rpc_fallback_error cur) (tc_rpc_fallback_error prev) @
     delta_of ''tick_event_queue_full'' (tc_tick_event_queue_full cur) (tc_tick_event_queue_full prev) @
     delta_of ''send_event_queue_full'' (tc_send_event_queue_full cur) (tc_send_event_queue_full prev) @
     delta_of ''final_queue_full'' (tc_final_queue_full cur) (tc_final_queue_full prev) @
     delta_of ''blockhash_expired'' (tc_blockhash_expired cur) (tc_blockhash_expired prev) @
     delta_of ''schedule_contains_calls'' (tc_schedule_contains_calls cur) (tc_schedule_contains_calls prev) @
     delta_of ''schedule_contains_true'' (tc_schedule_contains_true cur) (tc_schedule_contains_true prev)"

section \<open>The pool\<close>

record bench_tx =
  bx_serialized :: bytes
  bx_signature :: signature
  bx_blockhash :: hash
  bx_built_at :: instant

type_synonym bench_key = "u64 \<times> u8"
type_synonym bench_pool = "(bench_key, bench_tx) hash_map"

definition bench_pool_insert :: "u64 \<Rightarrow> u8 \<Rightarrow> bench_tx \<Rightarrow> bench_pool \<Rightarrow> bool \<times> bench_pool" where
  "bench_pool_insert slot tick tx p = (map_of p (slot, tick) = None, hm_insert (slot, tick) tx p)"

definition bench_pool_take :: "u64 \<Rightarrow> u8 \<Rightarrow> bench_pool \<Rightarrow> bench_tx option \<times> bench_pool" where
  "bench_pool_take slot tick p = (map_of p (slot, tick), hm_remove (slot, tick) p)"

definition bench_pool_len :: "bench_pool \<Rightarrow> nat" where
  "bench_pool_len p = length p"

definition bench_pool_prune :: "u64 \<Rightarrow> bench_pool \<Rightarrow> nat \<times> bench_pool" where
  "bench_pool_prune cutoff p =
    (let keys = map fst (filter (\<lambda>e. fst (fst e) < cutoff) p)
     in (length (filter (\<lambda>k. map_of p k \<noteq> None) keys), fold hm_remove keys p))"

section \<open>The schedule\<close>

definition TX_PER_SLOT :: nat where "TX_PER_SLOT = 3"

fun bench_slots :: "(nat \<Rightarrow> u8) \<Rightarrow> u64 \<Rightarrow> nat list \<Rightarrow> nat \<Rightarrow> (schedule_entry list \<times> nat) option" where
  "bench_slots rng start_slot [] pos = Some ([], pos)"
| "bench_slots rng start_slot (offset # offsets) pos = (case pick_ticks rng TX_PER_SLOT pos [] of
     None \<Rightarrow> None
   | Some (picked, pos') \<Rightarrow> (case bench_slots rng start_slot offsets pos' of
       None \<Rightarrow> None
     | Some (rest, pos'') \<Rightarrow>
         Some (map (\<lambda>t. \<lparr> se_slot = start_slot + of_nat offset, se_tick = t \<rparr>) (sort picked) @ rest, pos'')))"

record bench_schedule =
  bh_seed :: u64
  bh_start_slot :: u64
  bh_num_slots :: u64
  bh_entries :: "schedule_entry list"

definition bench_generate :: "(u64 \<Rightarrow> nat \<Rightarrow> u8) \<Rightarrow> u64 \<Rightarrow> u64 \<Rightarrow> u64 \<Rightarrow> bench_schedule option" where
  "bench_generate seeded start_slot num_slots seed =
    map_option (\<lambda>(es, _). \<lparr> bh_seed = seed, bh_start_slot = start_slot, bh_num_slots = num_slots, bh_entries = es \<rparr>)
      (bench_slots (seeded seed) start_slot [0..<unat num_slots] 0)"

section \<open>The generated schedule\<close>

definition slot_block :: "u64 \<Rightarrow> schedule_entry list \<Rightarrow> bool" where
  "slot_block slot es \<longleftrightarrow> length es = TX_PER_SLOT \<and> sorted_wrt (<) (map se_tick es) \<and>
     list_all (\<lambda>e. se_slot e = slot \<and> valid_tick (se_tick e)) es"

lemma bench_slots_blocks:
  assumes "fair_rng rng"
  shows "\<exists>blocks pos'. bench_slots rng start offsets pos = Some (concat blocks, pos') \<and>
    length blocks = length offsets \<and> list_all2 (\<lambda>off es. slot_block (start + of_nat off) es) offsets blocks"
proof (induction offsets arbitrary: pos)
  case (Cons off offsets)
  have "picked_ok 0 []" by (simp add: picked_ok_def)
  from pick_ticks_ends [OF assms this, of TX_PER_SLOT pos]
  obtain ts p where ts: "pick_ticks rng TX_PER_SLOT pos [] = Some (ts, p)" "picked_ok (min TX_PER_SLOT 64) ts" by auto
  obtain blocks pos' where b: "bench_slots rng start offsets p = Some (concat blocks, pos')"
    "length blocks = length offsets" "list_all2 (\<lambda>off es. slot_block (start + of_nat off) es) offsets blocks"
    using Cons.IH [of p] by blast
  let ?b = "map (\<lambda>t. \<lparr> se_slot = start + of_nat off, se_tick = t \<rparr>) (sort ts)"
  have "sorted_wrt (<) (sort ts)" using ts(2) by (simp add: strict_sorted_iff picked_ok_def)
  then have "slot_block (start + of_nat off) ?b"
    using ts(2) by (simp add: slot_block_def picked_ok_def TX_PER_SLOT_def list_all_iff comp_def)
  then show ?case using ts(1) b by (intro exI [of _ "?b # blocks"] exI [of _ pos']) simp
qed simp

text \<open>Generation ends and yields, slot after slot from the start slot, three different ticks between 1
  and 64 in ascending order.\<close>
theorem bench_schedule_blocks:
  assumes "fair_rng (seeded seed)"
  shows "\<exists>sch blocks. bench_generate seeded start num_slots seed = Some sch \<and> bh_entries sch = concat blocks \<and>
    list_all2 (\<lambda>off es. slot_block (start + of_nat off) es) [0..<unat num_slots] blocks"
proof -
  obtain blocks pos' where "bench_slots (seeded seed) start [0..<unat num_slots] 0 = Some (concat blocks, pos')"
    "list_all2 (\<lambda>off es. slot_block (start + of_nat off) es) [0..<unat num_slots] blocks"
    using bench_slots_blocks [OF assms, of start "[0..<unat num_slots]" 0] by blast
  then show ?thesis by (simp add: bench_generate_def) blast
qed

lemma bench_schedule_blocks_witness:
  "\<exists>sch blocks. bench_generate (\<lambda>_. cycling_rng) 1000 10 42 = Some sch \<and> bh_entries sch = concat blocks \<and>
    list_all2 (\<lambda>off es. slot_block (1000 + of_nat off) es) [0..<unat (10 :: u64)] blocks"
  by (rule bench_schedule_blocks) (rule cycling_rng_fair)

text \<open>The pool holds one transaction per key: what is taken is what was inserted last, once.\<close>

lemma bench_pool_simps:
  "map_of (snd (bench_pool_insert s t tx p)) k = (if k = (s, t) then Some tx else map_of p k)"
  "map_of (snd (bench_pool_take s t p)) k = (if k = (s, t) then None else map_of p k)"
  "fst (bench_pool_take s t p) = map_of p (s, t)"
  by (simp_all add: bench_pool_insert_def bench_pool_take_def hm.lookup_insert hm.lookup_remove)

lemma bench_pool_inv:
  "hm_inv p \<Longrightarrow> hm_inv (snd (bench_pool_insert s t tx p))"
  "hm_inv p \<Longrightarrow> hm_inv (snd (bench_pool_take s t p))"
  "hm_inv p \<Longrightarrow> hm_inv (snd (bench_pool_prune c p))"
  by (simp_all add: bench_pool_insert_def bench_pool_take_def bench_pool_prune_def Let_def hm.invar_insert hm.invar_remove
      hm.invar_fold_remove)

lemma bench_pool_pruned:
  "map_of (snd (bench_pool_prune c p)) k = (if fst k < c then None else map_of p k)"
proof -
  have "k \<in> set (map fst (filter (\<lambda>e. fst (fst e) < c) p)) \<longleftrightarrow> fst k < c \<and> map_of p k \<noteq> None"
    by (force simp: map_of_eq_None_iff)
  then show ?thesis by (simp add: bench_pool_prune_def Let_def hm.lookup_fold_remove del: set_map)
qed

end
