(* ===== verification/Bench_Observer.thy ===== *)
theory Bench_Observer
  imports Bench_Pool Observation
begin

text \<open>
  \<open>crates/tick-trigger-bench/src/observer.rs\<close>: the thread that counts hashes per slot, detects the
  ticks, takes the prepared transaction of a scheduled tick and reports pending signatures it sees
  in entries.

  The pool and the set of pending signatures are shared with other threads, so a turn is either an
  entry (with the pending signatures at that moment), a change of the pool by the preparer, or the
  stop flag.
\<close>

definition BENCH_HASHES_PER_TICK :: u64 where "BENCH_HASHES_PER_TICK = 62500"

record slot_state =
  bs_tick_idx :: u8
  bs_hash_count :: u64
  bs_cumulative :: u64
  bs_seen :: "hash set"

definition slot_state_default :: slot_state where
  "slot_state_default = \<lparr> bs_tick_idx = 0, bs_hash_count = 0, bs_cumulative = 0, bs_seen = {} \<rparr>"

record send_command =
  sk_tx :: bench_tx
  sk_schedule_slot :: u64
  sk_schedule_tick :: u8
  sk_trigger_observed_at :: instant

record bench_match_event =
  me_signature :: signature
  me_observed_at :: instant
  me_observed_slot :: u64
  me_observed_entry_index :: u32
  me_observed_tick_in_slot :: "u8 option"
  me_observed_cumulative :: "u64 option"

record tick_event =
  te_observed_at :: instant
  te_slot :: u64
  te_tick_idx :: u8
  te_num_hashes :: u64

text \<open>The three channels may refuse.\<close>

record bench_env =
  be_ticks :: "tick_event accept"
  be_sends :: "send_command accept"
  be_matches :: "bench_match_event accept"

record bench_observer =
  bo_slots :: "(u64, slot_state) hash_map"
  bo_first :: "u64 option"
  bo_current :: u64
  bo_pool :: bench_pool
  bo_ticks :: "tick_event chan"
  bo_sends :: "send_command chan"
  bo_matches :: "bench_match_event chan"
  bo_counters :: bench_counters

definition bench_observer_init :: "u64 \<Rightarrow> bench_counters \<Rightarrow> bench_observer" where
  "bench_observer_init current c = \<lparr> bo_slots = [], bo_first = None, bo_current = current, bo_pool = [],
     bo_ticks = [], bo_sends = [], bo_matches = [], bo_counters = c \<rparr>"

section \<open>Ticks\<close>

text \<open>The scheduled tick fires: its transaction leaves the pool for the send queue.\<close>

definition fire_tick :: "bench_env \<Rightarrow> instant \<Rightarrow> u64 \<Rightarrow> u8 \<Rightarrow> bench_observer \<Rightarrow> bench_observer" where
  "fire_tick env observed slot tick o' = (case bench_pool_take slot tick (bo_pool o') of
     (None, pool) \<Rightarrow> o'\<lparr> bo_pool := pool, bo_counters := (bo_counters o')\<lparr>tc_pool_empty := tc_pool_empty (bo_counters o') + 1\<rparr> \<rparr>
   | (Some tx, pool) \<Rightarrow> (case try_send (be_sends env) (bo_sends o')
         \<lparr> sk_tx = tx, sk_schedule_slot = slot, sk_schedule_tick = tick, sk_trigger_observed_at = observed \<rparr> of (ch, ok) \<Rightarrow>
       o'\<lparr> bo_pool := pool, bo_sends := ch, bo_counters := (if ok then bo_counters o'
         else (bo_counters o')\<lparr>tc_send_queue_full := tc_send_queue_full (bo_counters o') + 1\<rparr>) \<rparr>))"

definition check_schedule :: "bench_env \<Rightarrow> (u64 \<times> u8) set \<Rightarrow> instant \<Rightarrow> u64 \<Rightarrow> u8 \<Rightarrow> bench_observer \<Rightarrow> bench_observer" where
  "check_schedule env schedule observed slot tick o' =
    (let c = (bo_counters o')\<lparr>tc_schedule_contains_calls := tc_schedule_contains_calls (bo_counters o') + 1\<rparr>
     in if (slot, tick) \<in> schedule
        then fire_tick env observed slot tick
          (o'\<lparr>bo_counters := c\<lparr>tc_schedule_contains_true := tc_schedule_contains_true c + 1\<rparr>\<rparr>)
        else o'\<lparr>bo_counters := c\<rparr>)"

definition inc_fork_overflow :: "bench_observer \<Rightarrow> bench_observer" where
  "inc_fork_overflow o' = o'\<lparr>bo_counters := (bo_counters o')\<lparr>tc_fork_tick_overflow := tc_fork_tick_overflow (bo_counters o') + 1\<rparr>\<rparr>"

text \<open>The state of a slot after one entry, and whether the entry completes a tick.\<close>

definition tick_done :: "entry_observation \<Rightarrow> slot_state \<Rightarrow> bool" where
  "tick_done ob st \<longleftrightarrow> obs_tx_count ob = 0 \<and> saturating_add (bs_hash_count st) (obs_num_hashes ob) = BENCH_HASHES_PER_TICK"

definition count_entry :: "entry_observation \<Rightarrow> slot_state \<Rightarrow> slot_state" where
  "count_entry ob st = (if obs_entry_hash ob \<in> bs_seen st then st else st\<lparr>
     bs_seen := insert (obs_entry_hash ob) (bs_seen st),
     bs_hash_count := (if tick_done ob st then 0 else saturating_add (bs_hash_count st) (obs_num_hashes ob)),
     bs_cumulative := saturating_add (bs_cumulative st) (obs_num_hashes ob),
     bs_tick_idx := (if tick_done ob st then saturating_add (bs_tick_idx st) 1 else bs_tick_idx st) \<rparr>)"

text \<open>The tick event, the overflow of 64 ticks, the schedule. The result says whether \<open>continue\<close> skips
  the signatures.\<close>

definition tick_actions ::
  "bench_env \<Rightarrow> (u64 \<times> u8) set \<Rightarrow> entry_observation \<Rightarrow> u8 \<Rightarrow> bench_observer \<Rightarrow> bench_observer \<times> bool" where
  "tick_actions env schedule ob tick o' =
    (case try_send (be_ticks env) (bo_ticks o') \<lparr> te_observed_at = obs_observed_at ob, te_slot = obs_slot ob,
         te_tick_idx = tick, te_num_hashes = obs_num_hashes ob \<rparr> of (ch, ok) \<Rightarrow>
      (let o1 = o'\<lparr> bo_ticks := ch, bo_counters := (if ok then bo_counters o'
             else (bo_counters o')\<lparr>tc_tick_event_queue_full := tc_tick_event_queue_full (bo_counters o') + 1\<rparr>) \<rparr>
       in if 64 < tick then (inc_fork_overflow o1, True)
          else (check_schedule env schedule (obs_observed_at ob) (obs_slot ob) tick o1, False)))"

definition slot_entry_seen :: "u64 \<Rightarrow> bench_observer \<Rightarrow> slot_state" where
  "slot_entry_seen slot o' = (case map_of (bo_slots o') slot of Some st \<Rightarrow> st | None \<Rightarrow> slot_state_default)"

definition observe_hashes ::
  "bench_env \<Rightarrow> (u64 \<times> u8) set \<Rightarrow> entry_observation \<Rightarrow> bench_observer \<Rightarrow> bench_observer \<times> bool" where
  "observe_hashes env schedule ob o' =
    (let st = slot_entry_seen (obs_slot ob) o';
         st1 = count_entry ob st;
         o1 = o'\<lparr>bo_slots := hm_insert (obs_slot ob) st1 (bo_slots o')\<rparr>
     in if obs_entry_hash ob \<in> bs_seen st then (o1, False)
        else if obs_tx_count ob = 0
        then (if tick_done ob st then tick_actions env schedule ob (bs_tick_idx st1) o1 else (inc_fork_overflow o1, False))
        else (o1, False))"

section \<open>Signatures\<close>

definition match_event_of :: "bench_observer \<Rightarrow> entry_observation \<Rightarrow> signature \<Rightarrow> bench_match_event" where
  "match_event_of o' ob sig = (let st = map_of (bo_slots o') (obs_slot ob) in
    \<lparr> me_signature = sig, me_observed_at = obs_observed_at ob, me_observed_slot = obs_slot ob,
      me_observed_entry_index = obs_entry_index ob, me_observed_tick_in_slot = map_option bs_tick_idx st,
      me_observed_cumulative = map_option bs_cumulative st \<rparr>)"

definition report_match :: "bench_env \<Rightarrow> signature set \<Rightarrow> entry_observation \<Rightarrow> signature \<Rightarrow> bench_observer \<Rightarrow> bench_observer" where
  "report_match env pending ob sig o' =
    (if sig \<in> pending
     then (case try_send (be_matches env) (bo_matches o') (match_event_of o' ob sig) of (ch, ok) \<Rightarrow>
       o'\<lparr> bo_matches := ch, bo_counters := (if ok then bo_counters o'
         else (bo_counters o')\<lparr>tc_match_queue_full := tc_match_queue_full (bo_counters o') + 1\<rparr>) \<rparr>)
     else o')"

section \<open>The loop\<close>

definition retain_slots :: "u64 \<Rightarrow> (u64, slot_state) hash_map \<Rightarrow> (u64, slot_state) hash_map" where
  "retain_slots slot m = (if 4096 < length m then filter (\<lambda>(s, _). slot \<le> s + 200) m else m)"

definition bench_observe ::
  "bench_env \<Rightarrow> (u64 \<times> u8) set \<Rightarrow> signature set \<Rightarrow> entry_observation \<Rightarrow> bench_observer \<Rightarrow> bench_observer" where
  "bench_observe env schedule pending ob o' =
    (let slot = obs_slot ob;
         first = (case bo_first o' of None \<Rightarrow> slot | Some f \<Rightarrow> f);
         o1 = o'\<lparr> bo_slots := retain_slots slot (bo_slots o'), bo_current := slot, bo_first := Some first \<rparr>
     in case (if slot = first then (o1, False) else observe_hashes env schedule ob o1) of
          (o2, True) \<Rightarrow> o2
        | (o2, False) \<Rightarrow> fold (report_match env pending ob) (obs_signatures ob) o2)"

datatype bench_turn = BenchEntry entry_observation "signature set" | BenchPoolChange "bench_pool \<Rightarrow> bench_pool" | BenchStop

fun bench_observer_loop :: "bench_env \<Rightarrow> (u64 \<times> u8) set \<Rightarrow> bench_turn list \<Rightarrow> bench_observer \<Rightarrow> bench_observer" where
  "bench_observer_loop env schedule [] o' = o'"
| "bench_observer_loop env schedule (t # ts) o' = (case t of
     BenchStop \<Rightarrow> o'
   | BenchPoolChange f \<Rightarrow> bench_observer_loop env schedule ts (o'\<lparr>bo_pool := f (bo_pool o')\<rparr>)
   | BenchEntry ob pending \<Rightarrow> bench_observer_loop env schedule ts (bench_observe env schedule pending ob o'))"

end
