(* ===== verification/Bench_Observer_Props.thy ===== *)
theory Bench_Observer_Props
  imports Bench_Observer
begin

text \<open>
  What the observer of the older bench promises: the position it records is the sum of the hashes of
  the distinct entries of the slot, the ticks of a well-formed slot are numbered 1, 2, 3, ..., and a
  scheduled tick is sent at most once. The slot table is cut when it exceeds 4096 slots; the
  theorems are about runs that see at most that many.
\<close>

section \<open>The effect of one entry\<close>

fun bench_entries :: "bench_turn list \<Rightarrow> entry_observation list" where
  "bench_entries [] = []"
| "bench_entries (t # ts) = (case t of BenchStop \<Rightarrow> [] | BenchPoolChange f \<Rightarrow> bench_entries ts
     | BenchEntry ob _ \<Rightarrow> ob # bench_entries ts)"

definition new_tick :: "entry_observation \<Rightarrow> slot_state \<Rightarrow> bool" where
  "new_tick ob st \<longleftrightarrow> obs_entry_hash ob \<notin> bs_seen st \<and> tick_done ob st"

definition tick_of :: "entry_observation \<Rightarrow> u8 \<Rightarrow> tick_event" where
  "tick_of ob tick = \<lparr> te_observed_at = obs_observed_at ob, te_slot = obs_slot ob, te_tick_idx = tick,
     te_num_hashes = obs_num_hashes ob \<rparr>"

definition command_of :: "entry_observation \<Rightarrow> u8 \<Rightarrow> bench_tx \<Rightarrow> send_command" where
  "command_of ob tick tx = \<lparr> sk_tx = tx, sk_schedule_slot = obs_slot ob, sk_schedule_tick = tick,
     sk_trigger_observed_at = obs_observed_at ob \<rparr>"

definition commands_of :: "(u64 \<times> u8) set \<Rightarrow> entry_observation \<Rightarrow> u8 \<Rightarrow> bench_pool \<Rightarrow> send_command list" where
  "commands_of schedule ob tick pool =
    (if \<not> 64 < tick \<and> (obs_slot ob, tick) \<in> schedule
     then (case map_of pool (obs_slot ob, tick) of Some tx \<Rightarrow> [command_of ob tick tx] | None \<Rightarrow> []) else [])"

text \<open>The fields the theorems are about.\<close>

definition core :: "bench_observer \<Rightarrow> (u64, slot_state) hash_map \<times> u64 option \<times> tick_event list \<times> send_command list" where
  "core o' = (bo_slots o', bo_first o', attempts (bo_ticks o'), attempts (bo_sends o'))"

lemma core_fire:
  "core (fire_tick env observed slot tick o') = (bo_slots o', bo_first o', attempts (bo_ticks o'),
     attempts (bo_sends o') @ (case map_of (bo_pool o') (slot, tick) of None \<Rightarrow> []
       | Some tx \<Rightarrow> [\<lparr> sk_tx = tx, sk_schedule_slot = slot, sk_schedule_tick = tick, sk_trigger_observed_at = observed \<rparr>]))"
  by (cases "map_of (bo_pool o') (slot, tick)") (simp_all add: core_def fire_tick_def bench_pool_take_def try_send_def)

lemma core_actions:
  "core (fst (tick_actions env schedule ob tick o')) = (bo_slots o', bo_first o', attempts (bo_ticks o') @ [tick_of ob tick],
     attempts (bo_sends o') @ commands_of schedule ob tick (bo_pool o'))"
  by (simp add: tick_actions_def try_send_def Let_def check_schedule_def core_fire commands_of_def tick_of_def command_of_def
      split: option.split) (simp add: core_def inc_fork_overflow_def)

lemma core_hashes:
  fixes schedule :: "(u64 \<times> u8) set"
  defines "st \<equiv> \<lambda>ob o'. slot_entry_seen (obs_slot ob) o'"
  shows "core (fst (observe_hashes env schedule ob o')) =
    (hm_insert (obs_slot ob) (count_entry ob (st ob o')) (bo_slots o'), bo_first o',
     attempts (bo_ticks o') @ (if new_tick ob (st ob o') then [tick_of ob (bs_tick_idx (count_entry ob (st ob o')))] else []),
     attempts (bo_sends o') @ (if new_tick ob (st ob o')
       then commands_of schedule ob (bs_tick_idx (count_entry ob (st ob o'))) (bo_pool o') else []))"
  by (simp add: observe_hashes_def Let_def st_def new_tick_def core_actions tick_done_def)
    (simp add: core_def inc_fork_overflow_def)

lemma core_match: "core (report_match env pending ob sig o') = core o'"
  by (simp add: core_def report_match_def try_send_def)

lemma core_matches: "core (fold (report_match env pending ob) sigs o') = core o'"
  by (induction sigs arbitrary: o') (simp_all add: core_match)

lemma core_observe:
  assumes "length (bo_slots o') \<le> 4096" "obs_slot ob \<noteq> f" "bo_first o' = Some f"
  shows "core (bench_observe env schedule pending ob o') =
    core (fst (observe_hashes env schedule ob (o'\<lparr>bo_current := obs_slot ob\<rparr>)))"
proof -
  have "o'\<lparr> bo_slots := bo_slots o', bo_current := obs_slot ob, bo_first := Some f \<rparr> = o'\<lparr>bo_current := obs_slot ob\<rparr>"
    using assms(3) by (cases o') simp
  moreover have "retain_slots (obs_slot ob) (bo_slots o') = bo_slots o'" using assms(1) by (simp add: retain_slots_def)
  ultimately have "bench_observe env schedule pending ob o' =
      (case observe_hashes env schedule ob (o'\<lparr>bo_current := obs_slot ob\<rparr>) of
          (o2, True) \<Rightarrow> o2 | (o2, False) \<Rightarrow> fold (report_match env pending ob) (obs_signatures ob) o2)"
    using assms(2,3) unfolding bench_observe_def Let_def by (simp only: option.case if_False)
  then show ?thesis by (simp add: core_matches split: prod.split bool.split)
qed

lemma core_warmup:
  assumes "length (bo_slots o') \<le> 4096" "bo_first o' = None \<or> bo_first o' = Some (obs_slot ob)"
  shows "core (bench_observe env schedule pending ob o') =
    (bo_slots o', Some (obs_slot ob), attempts (bo_ticks o'), attempts (bo_sends o'))"
proof -
  have "(case bo_first o' of None \<Rightarrow> obs_slot ob | Some f \<Rightarrow> f) = obs_slot ob" using assms(2) by auto
  then show ?thesis using assms(1)
    by (simp add: bench_observe_def retain_slots_def Let_def core_matches) (simp add: core_def)
qed

section \<open>The reference\<close>

text \<open>The first occurrence of every entry of a list.\<close>

fun firsts :: "hash set \<Rightarrow> entry_observation list \<Rightarrow> entry_observation list" where
  "firsts seen [] = []"
| "firsts seen (e # es) = (if obs_entry_hash e \<in> seen then firsts seen es
     else e # firsts (insert (obs_entry_hash e) seen) es)"

definition of_slot :: "u64 \<Rightarrow> entry_observation list \<Rightarrow> entry_observation list" where
  "of_slot slot es = filter (\<lambda>e. obs_slot e = slot) es"

text \<open>The states and the tick numbers of one slot's entries.\<close>

definition slot_after :: "entry_observation list \<Rightarrow> slot_state" where
  "slot_after es = fold count_entry es slot_state_default"

fun ticks_from :: "slot_state \<Rightarrow> entry_observation list \<Rightarrow> u8 list" where
  "ticks_from st [] = []"
| "ticks_from st (e # es) = (if new_tick e st then [bs_tick_idx (count_entry e st)] else []) @ ticks_from (count_entry e st) es"

lemma ticks_from_snoc:
  "ticks_from st (es @ [e]) = ticks_from st es @
     (if new_tick e (fold count_entry es st) then [bs_tick_idx (count_entry e (fold count_entry es st))] else [])"
  by (induction es arbitrary: st) simp_all

lemma slot_after_snoc: "slot_after (es @ [e]) = count_entry e (slot_after es)"
  by (simp add: slot_after_def)

lemma of_slot_snoc: "of_slot slot (es @ [e]) = of_slot slot es @ (if obs_slot e = slot then [e] else [])"
  by (simp add: of_slot_def)

definition command_key :: "send_command \<Rightarrow> u64 \<times> u8" where
  "command_key c = (sk_schedule_slot c, sk_schedule_tick c)"

definition slot_ticks :: "u64 \<Rightarrow> tick_event list \<Rightarrow> u8 list" where
  "slot_ticks slot tes = map te_tick_idx (filter (\<lambda>te. te_slot te = slot) tes)"

text \<open>What holds after the entries \<open>es\<close>: \<open>S\<close> are the slots of the run.\<close>

definition observed :: "u64 set \<Rightarrow> (u64 \<times> u8) set \<Rightarrow> entry_observation list \<Rightarrow> bench_observer \<Rightarrow> bool" where
  "observed S schedule es o' \<longleftrightarrow> hm_inv (bo_slots o') \<and> fst ` set (bo_slots o') \<subseteq> S \<and>
     bo_first o' = (if es = [] then None else Some (obs_slot (hd es))) \<and>
     (\<forall>slot. (es \<noteq> [] \<longrightarrow> slot \<noteq> obs_slot (hd es)) \<longrightarrow>
       slot_entry_seen slot o' = slot_after (of_slot slot es) \<and>
       slot_ticks slot (attempts (bo_ticks o')) = ticks_from slot_state_default (of_slot slot es)) \<and>
     distinct (map command_key (attempts (bo_sends o'))) \<and>
     (\<forall>c \<in> set (attempts (bo_sends o')). command_key c \<in> schedule \<and>
       sk_schedule_tick c \<le> 64 \<and> sk_schedule_tick c \<le> bs_tick_idx (slot_entry_seen (sk_schedule_slot c) o'))"

lemma coreE:
  assumes "core x = (slots, first, ticks, sends)"
  shows "bo_slots x = slots" "bo_first x = first" "attempts (bo_ticks x) = ticks" "attempts (bo_sends x) = sends"
  using assms by (simp_all add: core_def)

lemma tick_le_count: "bs_tick_idx st \<le> bs_tick_idx (count_entry e st)"
  by (simp add: count_entry_def saturating_add_ge)

lemma tick_less_new:
  assumes "new_tick e st" "bs_tick_idx (count_entry e st) \<le> 64"
  shows "bs_tick_idx st < bs_tick_idx (count_entry e st)"
proof -
  have c: "bs_tick_idx (count_entry e st) = saturating_add (bs_tick_idx st) 1"
    using assms(1) by (simp add: new_tick_def count_entry_def)
  then have "unat (saturating_add (bs_tick_idx st) 1) \<le> 64" using assms(2) by (simp add: word_le_nat_alt)
  then have "unat (bs_tick_idx st) + 1 \<le> 64" by (simp add: unat_saturating_add)
  then show ?thesis unfolding c by (simp add: word_less_nat_alt unat_saturating_add)
qed

lemma commands_of_key:
  assumes "c \<in> set (commands_of schedule ob tick pool)"
  shows "sk_schedule_slot c = obs_slot ob \<and> sk_schedule_tick c = tick \<and> tick \<le> 64 \<and> (obs_slot ob, tick) \<in> schedule"
proof -
  have k: "\<not> 64 < tick \<and> (obs_slot ob, tick) \<in> schedule"
  proof (rule ccontr)
    assume "\<not> ?thesis"
    then have "commands_of schedule ob tick pool = []" unfolding commands_of_def by (rule if_not_P)
    then show False using assms by simp
  qed
  then obtain tx where "c = command_of ob tick tx"
    using assms unfolding commands_of_def if_P [OF k] by (cases "map_of pool (obs_slot ob, tick)") simp_all
  then have "sk_schedule_slot c = obs_slot ob" "sk_schedule_tick c = tick" by (simp_all add: command_of_def)
  then show ?thesis using k unfolding not_less by blast
qed

lemma commands_of_distinct: "distinct (map command_key (commands_of schedule ob tick pool))"
  by (cases "map_of pool (obs_slot ob, tick)") (simp_all add: commands_of_def)

lemma slot_ticks_append [simp]: "slot_ticks s (xs @ ys) = slot_ticks s xs @ slot_ticks s ys"
  by (simp add: slot_ticks_def)

lemma observed_counted:
  assumes o: "observed S schedule es o'" and ne: "es \<noteq> []" "obs_slot ob \<noteq> obs_slot (hd es)" and S: "obs_slot ob \<in> S"
    and small: "length (bo_slots o') \<le> 4096"
  shows "observed S schedule (es @ [ob]) (bench_observe env schedule pending ob o')"
proof -
  let ?x = "bench_observe env schedule pending ob o'"
  let ?o = "o'\<lparr>bo_current := obs_slot ob\<rparr>"
  let ?st = "slot_entry_seen (obs_slot ob) o'"
  let ?st1 = "count_entry ob ?st"
  let ?new = "if new_tick ob ?st then commands_of schedule ob (bs_tick_idx ?st1) (bo_pool o') else []"
  have first: "bo_first o' = Some (obs_slot (hd es))" using o ne(1) by (simp add: observed_def)
  have seen: "slot_entry_seen (obs_slot ob) ?o = ?st" by (simp add: slot_entry_seen_def)
  have "core ?x = (hm_insert (obs_slot ob) ?st1 (bo_slots o'), Some (obs_slot (hd es)),
      attempts (bo_ticks o') @ (if new_tick ob ?st then [tick_of ob (bs_tick_idx ?st1)] else []), attempts (bo_sends o') @ ?new)"
    unfolding core_observe [OF small ne(2) first] core_hashes seen using first by simp
  note x = coreE [OF this]
  have entry: "slot_entry_seen s ?x = (if s = obs_slot ob then ?st1 else slot_entry_seen s o')" for s
    by (simp add: slot_entry_seen_def x(1) hm.lookup_insert)
  have slots: "slot_entry_seen s o' = slot_after (of_slot s es) \<and>
      slot_ticks s (attempts (bo_ticks o')) = ticks_from slot_state_default (of_slot s es)" if "s \<noteq> obs_slot (hd es)" for s
    using o ne(1) that by (simp add: observed_def)
  have keys: "distinct (map command_key (attempts (bo_sends o')))" "\<forall>c \<in> set (attempts (bo_sends o')). command_key c \<in> schedule \<and>
       sk_schedule_tick c \<le> 64 \<and> sk_schedule_tick c \<le> bs_tick_idx (slot_entry_seen (sk_schedule_slot c) o')"
    using o by (simp_all add: observed_def)
  have fresh: "command_key c \<noteq> command_key d" if c: "c \<in> set (attempts (bo_sends o'))" and d: "d \<in> set ?new" for c d
  proof
    assume eq: "command_key c = command_key d"
    have nt: "new_tick ob ?st" and dk: "sk_schedule_slot d = obs_slot ob" "sk_schedule_tick d = bs_tick_idx ?st1" "bs_tick_idx ?st1 \<le> 64"
      using d commands_of_key by (auto split: if_splits)
    have "sk_schedule_tick c \<le> bs_tick_idx ?st" using keys(2) c eq dk(1) by (auto simp: command_key_def)
    moreover have "bs_tick_idx ?st < bs_tick_idx ?st1" by (rule tick_less_new [OF nt dk(3)])
    ultimately show False using eq dk(2) by (simp add: command_key_def)
  qed
  have hd': "hd (es @ [ob]) = hd es" using ne(1) by simp
  have "hm_inv (bo_slots ?x)" using o by (simp add: x(1) observed_def hm.invar_insert)
  moreover have "fst ` set (bo_slots ?x) \<subseteq> S"
    using o S hm.set_keys_insert [of "obs_slot ob" ?st1 "bo_slots o'"] by (simp add: x(1) observed_def)
  moreover have "slot_entry_seen s ?x = slot_after (of_slot s (es @ [ob])) \<and>
      slot_ticks s (attempts (bo_ticks ?x)) = ticks_from slot_state_default (of_slot s (es @ [ob]))"
    if "s \<noteq> obs_slot (hd es)" for s
  proof (cases "s = obs_slot ob")
    case True
    have "?st = fold count_entry (of_slot (obs_slot ob) es) slot_state_default"
      using slots [OF ne(2)] by (simp add: slot_after_def)
    then show ?thesis using slots [OF ne(2)] True unfolding entry x(3)
      by (simp add: of_slot_snoc slot_after_snoc ticks_from_snoc) (simp add: slot_ticks_def tick_of_def)
  next
    case False
    then show ?thesis using slots [OF that] unfolding entry x(3)
      by (simp add: of_slot_snoc) (simp add: slot_ticks_def tick_of_def)
  qed
  moreover have "distinct (map command_key (attempts (bo_sends ?x)))"
  proof -
    have "distinct (map command_key ?new)" by (simp add: commands_of_distinct)
    moreover have "set (map command_key (attempts (bo_sends o'))) \<inter> set (map command_key ?new) = {}"
      using fresh unfolding set_map by blast
    ultimately show ?thesis using keys(1) unfolding x(4) map_append distinct_append by blast
  qed
  moreover have "command_key c \<in> schedule \<and> sk_schedule_tick c \<le> 64 \<and> sk_schedule_tick c \<le> bs_tick_idx (slot_entry_seen (sk_schedule_slot c) ?x)"
    if "c \<in> set (attempts (bo_sends ?x))" for c
  proof -
    from that consider "c \<in> set (attempts (bo_sends o'))" | "c \<in> set ?new" unfolding x(4) by auto
    then show ?thesis
    proof cases
      case 1
      then have "command_key c \<in> schedule" "sk_schedule_tick c \<le> 64"
        "sk_schedule_tick c \<le> bs_tick_idx (slot_entry_seen (sk_schedule_slot c) o')" using keys(2) by blast+
      moreover have "bs_tick_idx (slot_entry_seen (sk_schedule_slot c) o') \<le> bs_tick_idx (slot_entry_seen (sk_schedule_slot c) ?x)"
        unfolding entry by (simp add: tick_le_count)
      ultimately show ?thesis by (simp add: order_trans)
    next
      case 2
      then show ?thesis using commands_of_key unfolding entry by (auto simp: command_key_def split: if_splits)
    qed
  qed
  ultimately show ?thesis unfolding observed_def hd' using x(2) by simp
qed

lemma observed_warmup:
  assumes o: "observed S schedule es o'" and w: "es = [] \<or> obs_slot ob = obs_slot (hd es)"
    and small: "length (bo_slots o') \<le> 4096"
  shows "observed S schedule (es @ [ob]) (bench_observe env schedule pending ob o')"
proof -
  let ?x = "bench_observe env schedule pending ob o'"
  have "bo_first o' = None \<or> bo_first o' = Some (obs_slot ob)" using o w by (auto simp: observed_def)
  note x = coreE [OF core_warmup [OF small this, of env schedule pending]]
  have entry: "slot_entry_seen s ?x = slot_entry_seen s o'" for s by (simp add: slot_entry_seen_def x(1))
  have hd': "obs_slot (hd (es @ [ob])) = obs_slot ob" using w by (cases es) auto
  have "of_slot s (es @ [ob]) = of_slot s es" if "s \<noteq> obs_slot ob" for s using that by (simp add: of_slot_snoc)
  then show ?thesis
    using o w unfolding observed_def entry x hd' by (cases "es = []") auto
qed

lemma observed_pool: "observed S schedule es o' \<Longrightarrow> observed S schedule es (o'\<lparr>bo_pool := p\<rparr>)"
  by (simp add: observed_def slot_entry_seen_def)

lemma observed_small:
  assumes "observed S schedule es o'" "finite S" "card S \<le> 4096"
  shows "length (bo_slots o') \<le> 4096"
proof -
  have "distinct (map_keys (bo_slots o'))" "set (map_keys (bo_slots o')) \<subseteq> S"
    using assms(1) by (simp_all add: observed_def hm_inv_def)
  then have "length (map_keys (bo_slots o')) \<le> card S" using assms(2) distinct_card card_mono by metis
  then show ?thesis using assms(3) by simp
qed

lemma observed_loop:
  assumes "finite S" "card S \<le> 4096"
  shows "observed S schedule es o' \<Longrightarrow> obs_slot ` set (bench_entries ts) \<subseteq> S \<Longrightarrow>
    observed S schedule (es @ bench_entries ts) (bench_observer_loop env schedule ts o')"
proof (induction ts arbitrary: es o')
  case (Cons t ts)
  show ?case
  proof (cases t)
    case (BenchEntry ob pending)
    have small: "length (bo_slots o') \<le> 4096" by (rule observed_small [OF Cons.prems(1) assms])
    have "observed S schedule (es @ [ob]) (bench_observe env schedule pending ob o')"
    proof (cases "es = [] \<or> obs_slot ob = obs_slot (hd es)")
      case True
      then show ?thesis by (rule observed_warmup [OF Cons.prems(1) _ small])
    next
      case False
      then show ?thesis using observed_counted [OF Cons.prems(1) _ _ _ small] Cons.prems(2) BenchEntry by simp
    qed
    then show ?thesis using Cons.IH Cons.prems(2) BenchEntry by fastforce
  next
    case (BenchPoolChange f)
    then show ?thesis using Cons.IH [OF observed_pool] Cons.prems by simp
  qed (use Cons.prems in simp)
qed simp

lemma observed_init: "observed S schedule [] (bench_observer_init current c)"
  by (simp add: observed_def bench_observer_init_def slot_entry_seen_def slot_after_def of_slot_def slot_ticks_def)


lemma observed_run:
  assumes "card (obs_slot ` set (bench_entries ts)) \<le> 4096"
  shows "observed (obs_slot ` set (bench_entries ts)) schedule (bench_entries ts)
    (bench_observer_loop env schedule ts (bench_observer_init current c))"
  using observed_loop [OF finite_imageI [OF finite_set] assms observed_init subset_refl] by simp

section \<open>Well-formed slots\<close>

text \<open>The entries of a slot form ticks of 62500 hashes, each ended by an entry without transactions.\<close>

fun poh_ok :: "nat \<Rightarrow> entry_observation list \<Rightarrow> bool" where
  "poh_ok acc [] = True"
| "poh_ok acc (e # es) = (if obs_tx_count e = 0 then acc + unat (obs_num_hashes e) = 62500 \<and> poh_ok 0 es
     else acc + unat (obs_num_hashes e) < 62500 \<and> poh_ok (acc + unat (obs_num_hashes e)) es)"

definition empty_entries :: "entry_observation list \<Rightarrow> nat" where
  "empty_entries es = length (filter (\<lambda>e. obs_tx_count e = 0) es)"

definition hashes_in :: "entry_observation list \<Rightarrow> nat" where
  "hashes_in es = sum_list (map (\<lambda>e. unat (obs_num_hashes e)) es)"

lemma tick_done_iff:
  "unat (bs_hash_count st) + unat (obs_num_hashes e) \<le> 62500 \<Longrightarrow>
    tick_done e st \<longleftrightarrow> obs_tx_count e = 0 \<and> unat (bs_hash_count st) + unat (obs_num_hashes e) = 62500"
  by (simp add: tick_done_def word_unat_eq_iff unat_saturating_add BENCH_HASHES_PER_TICK_def)

lemma count_entry_simps:
  "bs_seen (count_entry e st) = insert (obs_entry_hash e) (bs_seen st)"
  "obs_entry_hash e \<notin> bs_seen st \<Longrightarrow> bs_hash_count (count_entry e st) =
     (if tick_done e st then 0 else saturating_add (bs_hash_count st) (obs_num_hashes e))"
  "obs_entry_hash e \<notin> bs_seen st \<Longrightarrow> bs_tick_idx (count_entry e st) =
     (if tick_done e st then saturating_add (bs_tick_idx st) 1 else bs_tick_idx st)"
  by (auto simp: count_entry_def)

lemma count_entry_dup: "obs_entry_hash e \<in> bs_seen st \<Longrightarrow> count_entry e st = st"
  by (simp add: count_entry_def)

text \<open>The ticks of a well-formed slot are numbered in sequence.\<close>

lemma ticks_of_poh:
  assumes "poh_ok (unat (bs_hash_count st)) (firsts (bs_seen st) es)"
    "unat (bs_tick_idx st) + empty_entries (firsts (bs_seen st) es) \<le> 255"
  shows "map unat (ticks_from st es) = [Suc (unat (bs_tick_idx st))..<Suc (unat (bs_tick_idx st) + empty_entries (firsts (bs_seen st) es))]"
  using assms
proof (induction es arbitrary: st)
  case (Cons e es)
  show ?case
  proof (cases "obs_entry_hash e \<in> bs_seen st")
    case True
    then show ?thesis using Cons by (simp add: count_entry_dup new_tick_def)
  next
    case fresh: False
    let ?c = "count_entry e st"
    have rest: "firsts (bs_seen st) (e # es) = e # firsts (bs_seen ?c) es" using fresh by (simp add: count_entry_simps)
    note p = Cons.prems [unfolded rest]
    show ?thesis
    proof (cases "obs_tx_count e = 0")
      case True
      then have d: "tick_done e st" "poh_ok 0 (firsts (bs_seen ?c) es)" using p(1) by (simp_all add: tick_done_iff)
      have n: "empty_entries (e # firsts (bs_seen ?c) es) = Suc (empty_entries (firsts (bs_seen ?c) es))"
        using True by (simp add: empty_entries_def)
      have t: "unat (bs_tick_idx ?c) = Suc (unat (bs_tick_idx st))"
        using p(2) fresh d(1) unfolding n by (simp add: count_entry_simps unat_saturating_add)
      have "bs_hash_count ?c = 0" using fresh d(1) by (simp add: count_entry_simps)
      then have "map unat (ticks_from ?c es) =
          [Suc (unat (bs_tick_idx ?c))..<Suc (unat (bs_tick_idx ?c) + empty_entries (firsts (bs_seen ?c) es))]"
        using Cons.IH [of ?c] d(2) p(2) unfolding n t by simp
      then show ?thesis using fresh d(1) unfolding rest n by (simp add: new_tick_def t upt_conv_Cons)
    next
      case False
      then have d: "\<not> tick_done e st" by (simp add: tick_done_def)
      have h: "unat (bs_hash_count ?c) = unat (bs_hash_count st) + unat (obs_num_hashes e)"
        using p(1) False fresh d by (simp add: count_entry_simps unat_saturating_add)
      have t: "bs_tick_idx ?c = bs_tick_idx st" using fresh d by (simp add: count_entry_simps)
      have n: "empty_entries (e # firsts (bs_seen ?c) es) = empty_entries (firsts (bs_seen ?c) es)"
        using False by (simp add: empty_entries_def)
      have "poh_ok (unat (bs_hash_count ?c)) (firsts (bs_seen ?c) es)" using p(1) False unfolding h by simp
      then show ?thesis using Cons.IH [of ?c] p(2) d unfolding rest n t by (simp add: new_tick_def t)
    qed
  qed
qed (simp add: empty_entries_def)

lemma cumulative_is_sum:
  "unat (bs_cumulative (fold count_entry es st)) = min (unat (bs_cumulative st) + hashes_in (firsts (bs_seen st) es)) (2 ^ 64 - 1)"
proof (induction es arbitrary: st)
  case Nil
  have "Suc (unat (bs_cumulative st)) \<le> 2 ^ 64" using unat_lt [of "bs_cumulative st"] by simp
  then show ?case by (simp add: hashes_in_def)
next
  case (Cons e es)
  show ?case
  proof (cases "obs_entry_hash e \<in> bs_seen st")
    case True
    then show ?thesis by (simp add: count_entry_dup Cons.IH)
  next
    case False
    then have "unat (bs_cumulative (count_entry e st)) = min (unat (bs_cumulative st) + unat (obs_num_hashes e)) (2 ^ 64 - 1)"
      by (simp add: count_entry_def unat_saturating_add)
    then show ?thesis using False by (simp add: Cons.IH count_entry_simps(1) hashes_in_def)
  qed
qed



text \<open>One lost entry ends the ticks of its slot: the count only returns to 0 when it hits 62500 exactly, so
  once it is above, no later entry of the slot completes a tick.\<close>

lemma lost_entry_stops_ticks: "BENCH_HASHES_PER_TICK < bs_hash_count st \<Longrightarrow> ticks_from st es = []"
proof (induction es arbitrary: st)
  case (Cons e es)
  have "bs_hash_count st \<le> saturating_add (bs_hash_count st) (obs_num_hashes e)" by (rule saturating_add_ge)
  then have gt: "BENCH_HASHES_PER_TICK < saturating_add (bs_hash_count st) (obs_num_hashes e)"
    using Cons.prems by (rule less_le_trans [rotated])
  then have d: "\<not> tick_done e st" by (auto simp: tick_done_def)
  have "BENCH_HASHES_PER_TICK < bs_hash_count (count_entry e st)"
    using Cons.prems gt d by (cases "obs_entry_hash e \<in> bs_seen st") (simp_all add: count_entry_dup count_entry_simps)
  then show ?case using Cons.IH d by (simp add: new_tick_def)
qed simp


section \<open>Witnesses\<close>

text \<open>A warmup slot, then two ticks of slot 101 with the first one delivered twice; tick 2 is scheduled.\<close>

definition demo_bench :: "bench_turn list" where
  "demo_bench = [BenchEntry (demo_obs 100 0 1 0) {}, BenchPoolChange (\<lambda>p. snd (bench_pool_insert 101 2
       \<lparr> bx_serialized = [], bx_signature = 9, bx_blockhash = 0, bx_built_at = 0 \<rparr> p)),
     BenchEntry (demo_obs 101 0 2 0) {}, BenchEntry (demo_obs 101 0 2 0) {}, BenchEntry (demo_obs 101 1 3 0) {}]"

definition demo_bench_env :: bench_env where
  "demo_bench_env = \<lparr> be_ticks = (\<lambda>_ _. True), be_sends = (\<lambda>_ _. True), be_matches = (\<lambda>_ _. True) \<rparr>"

lemma demo_bench_entries: "bench_entries demo_bench = [demo_obs 100 0 1 0, demo_obs 101 0 2 0, demo_obs 101 0 2 0, demo_obs 101 1 3 0]"
  by (simp add: demo_bench_def)



end
