(* ===== verification/Bench_Writer.thy ===== *)
theory Bench_Writer
  imports Bench_Observer Batch_Writer Map_Counts
begin

text \<open>
  \<open>crates/tick-trigger-bench/src/writer.rs\<close>: the finalizer thread, which pairs every send event with
  the first match of its signature or gives it up after the deadline, and the Parquet writer of the
  final records. A turn is the stop flag at the head of the loop, what \<open>select!\<close> delivered and the two
  clock reads; the set of pending signatures and the queue of the RPC fallback are shared with other
  threads and appear with this thread's updates only.
\<close>

record bench_send_event =
  sv_signature :: signature
  sv_schedule_slot :: u64
  sv_schedule_tick :: u8
  sv_trigger_observed_at :: instant
  sv_send_at :: instant
  sv_response_at :: instant
  sv_error :: "string option"

record pending_record =
  nr_send :: bench_send_event
  nr_match :: "bench_match_event option"
  nr_inserted_at :: instant

record final_record =
  fl_send :: bench_send_event
  fl_match :: "bench_match_event option"
  fl_status :: string

record finalizer =
  fz_map :: "(signature, pending_record) hash_map"
  fz_early :: "(signature, bench_match_event) hash_map"
  fz_last_sweep :: instant
  fz_pending_sigs :: "signature set"
  fz_fallback :: "signature list"
  fz_final :: "final_record chan"
  fz_final_queue_full :: u64

definition finalizer_init :: "signature set \<Rightarrow> signature list \<Rightarrow> instant \<Rightarrow> finalizer" where
  "finalizer_init pending queue now = \<lparr> fz_map = [], fz_early = [], fz_last_sweep = now,
     fz_pending_sigs = pending, fz_fallback = queue, fz_final = [], fz_final_queue_full = 0 \<rparr>"

section \<open>Emitting\<close>

text \<open>The end of a record: the signature is no longer pending, the record goes to the Parquet writer.\<close>

definition send_final :: "final_record accept \<Rightarrow> signature \<Rightarrow> pending_record \<Rightarrow> string \<Rightarrow> finalizer \<Rightarrow> finalizer" where
  "send_final acc sig p status fz =
    (case try_send acc (fz_final fz) \<lparr> fl_send = nr_send p, fl_match = nr_match p, fl_status = status \<rparr> of (ch, ok) \<Rightarrow>
       fz\<lparr> fz_pending_sigs := fz_pending_sigs fz - {sig}, fz_final := ch,
         fz_final_queue_full := (if ok then fz_final_queue_full fz else fz_final_queue_full fz + 1) \<rparr>)"

definition emit_final :: "final_record accept \<Rightarrow> signature \<Rightarrow> pending_record \<Rightarrow> finalizer \<Rightarrow> finalizer" where
  "emit_final acc sig p fz =
    (let status = (if nr_match p \<noteq> None then ''OBSERVED'' else ''UNKNOWN_PENDING'');
         fz1 = (if status = ''UNKNOWN_PENDING'' then fz\<lparr>fz_fallback := fz_fallback fz @ [sig]\<rparr> else fz)
     in send_final acc sig p status fz1)"

text \<open>\<open>map.remove(&sig).unwrap()\<close> and the record as observed.\<close>

definition emit_observed :: "final_record accept \<Rightarrow> signature \<Rightarrow> pending_record \<Rightarrow> finalizer \<Rightarrow> finalizer" where
  "emit_observed acc sig p fz = send_final acc sig p ''OBSERVED'' (fz\<lparr>fz_map := hm_remove sig (fz_map fz)\<rparr>)"

section \<open>The messages\<close>

definition take_send :: "final_record accept \<Rightarrow> instant \<Rightarrow> bench_send_event \<Rightarrow> finalizer \<Rightarrow> finalizer" where
  "take_send acc now ev fz =
    (let sig = sv_signature ev;
         m = map_of (fz_early fz) sig;
         p = (case map_of (fz_map fz) sig of Some p \<Rightarrow> p
           | None \<Rightarrow> \<lparr> nr_send = ev, nr_match = m, nr_inserted_at = now \<rparr>);
         fz1 = fz\<lparr> fz_early := hm_remove sig (fz_early fz), fz_map := hm_insert sig p (fz_map fz) \<rparr>
     in if m \<noteq> None then emit_observed acc sig p fz1 else fz1)"

definition take_match :: "final_record accept \<Rightarrow> bench_match_event \<Rightarrow> finalizer \<Rightarrow> finalizer" where
  "take_match acc ev fz =
    (let sig = me_signature ev
     in case map_of (fz_map fz) sig of
          Some p \<Rightarrow> emit_observed acc sig (p\<lparr>nr_match := Some ev\<rparr>) fz
        | None \<Rightarrow> fz\<lparr>fz_early := hm_insert sig ev (fz_early fz)\<rparr>)"

definition stale_sigs :: "instant \<Rightarrow> duration \<Rightarrow> finalizer \<Rightarrow> signature list" where
  "stale_sigs now deadline fz = map fst
    (filter (\<lambda>(_, p). deadline < saturating_duration_since now (nr_inserted_at p)) (fz_map fz))"

definition remove_and_emit :: "final_record accept \<Rightarrow> signature \<Rightarrow> finalizer \<Rightarrow> finalizer" where
  "remove_and_emit acc sig fz = emit_final acc sig (the (map_of (fz_map fz) sig))
     (fz\<lparr>fz_map := hm_remove sig (fz_map fz)\<rparr>)"

definition final_sweep :: "final_record accept \<Rightarrow> instant \<Rightarrow> duration \<Rightarrow> finalizer \<Rightarrow> finalizer" where
  "final_sweep acc now deadline fz =
    (if 500000000 < saturating_duration_since now (fz_last_sweep fz)
     then (fold (remove_and_emit acc) (stale_sigs now deadline fz) fz)\<lparr>fz_last_sweep := now\<rparr> else fz)"

section \<open>The loop\<close>

datatype final_input = FinalSend bench_send_event | FinalMatch bench_match_event | FinalIdle | FinalSendsClosed | FinalMatchesClosed

record final_turn =
  fn_stop :: bool
  fn_input :: final_input
  fn_insert_at :: instant
  fn_now :: instant

definition final_input_step :: "final_record accept \<Rightarrow> final_turn \<Rightarrow> finalizer \<Rightarrow> finalizer" where
  "final_input_step acc t fz = (case fn_input t of
     FinalSend ev \<Rightarrow> take_send acc (fn_insert_at t) ev fz
   | FinalMatch ev \<Rightarrow> take_match acc ev fz
   | FinalIdle \<Rightarrow> fz | FinalSendsClosed \<Rightarrow> fz | FinalMatchesClosed \<Rightarrow> fz)"

definition final_round :: "final_record accept \<Rightarrow> duration \<Rightarrow> final_turn \<Rightarrow> finalizer \<Rightarrow> finalizer" where
  "final_round acc deadline t fz = final_sweep acc (fn_now t) deadline (final_input_step acc t fz)"

fun finalize_loop :: "final_record accept \<Rightarrow> duration \<Rightarrow> final_turn list \<Rightarrow> finalizer \<Rightarrow> finalizer" where
  "finalize_loop acc deadline [] fz = fz"
| "finalize_loop acc deadline (t # ts) fz =
    (if fn_stop t \<and> fz_map fz = [] then fz
     else if fn_input t = FinalSendsClosed then fz
     else finalize_loop acc deadline ts (final_round acc deadline t fz))"

definition finalizer_flush :: "final_record accept \<Rightarrow> finalizer \<Rightarrow> finalizer" where
  "finalizer_flush acc fz = fold (\<lambda>(sig, p). emit_final acc sig p) (fz_map fz) (fz\<lparr>fz_map := []\<rparr>)"

definition finalizer_run :: "final_record accept \<Rightarrow> duration \<Rightarrow> final_turn list \<Rightarrow> finalizer \<Rightarrow> finalizer" where
  "finalizer_run acc deadline ts fz = finalizer_flush acc (finalize_loop acc deadline ts fz)"

section \<open>The columns\<close>

record bench_columns =
  nc_schedule_slot :: "u64 list"
  nc_schedule_tick :: "u8 list"
  nc_schedule_leader :: "pubkey option list"
  nc_tx_signature :: "signature list"
  nc_trigger_observed_at_ns :: "u64 list"
  nc_send_at_ns :: "u64 list"
  nc_response_at_ns :: "u64 list"
  nc_send_error :: "string option list"
  nc_observed_at_ns :: "u64 option list"
  nc_observed_slot :: "u64 option list"
  nc_observed_entry_index :: "u32 option list"
  nc_observed_tick_in_slot :: "u8 option list"
  nc_observed_cumulative :: "u64 option list"
  nc_observed_leader :: "pubkey option list"
  nc_tick_delta :: "u32 option list"
  nc_slot_delta :: "u32 option list"
  nc_time_delta_ns :: "u64 option list"
  nc_hash_delta :: "u64 option list"
  nc_leader_changed :: "bool option list"
  nc_status :: "string list"

definition bench_columns_new :: bench_columns where
  "bench_columns_new = \<lparr> nc_schedule_slot = [], nc_schedule_tick = [], nc_schedule_leader = [], nc_tx_signature = [],
     nc_trigger_observed_at_ns = [], nc_send_at_ns = [], nc_response_at_ns = [], nc_send_error = [], nc_observed_at_ns = [],
     nc_observed_slot = [], nc_observed_entry_index = [], nc_observed_tick_in_slot = [], nc_observed_cumulative = [],
     nc_observed_leader = [], nc_tick_delta = [], nc_slot_delta = [], nc_time_delta_ns = [], nc_hash_delta = [],
     nc_leader_changed = [], nc_status = [] \<rparr>"

definition ns_between :: "instant \<Rightarrow> instant \<Rightarrow> u64" where
  "ns_between a b = of_nat (saturating_duration_since a b)"

definition HASHES_PER_SLOT :: u64 where "HASHES_PER_SLOT = 64 * 62500"

definition slot_diff_of :: "bench_send_event \<Rightarrow> bench_match_event \<Rightarrow> u64" where
  "slot_diff_of s m = saturating_sub (me_observed_slot m) (sv_schedule_slot s)"

definition tick_delta_of :: "bench_send_event \<Rightarrow> bench_match_event \<Rightarrow> u32 option" where
  "tick_delta_of s m = map_option (\<lambda>t. saturating_sub (ucast t + ucast (slot_diff_of s m) * 64) (ucast (sv_schedule_tick s)))
     (me_observed_tick_in_slot m)"

definition saturating_mul :: "u64 \<Rightarrow> u64 \<Rightarrow> u64" where
  "saturating_mul a b = sat64 (unat a * unat b)"

definition hash_delta_of :: "bench_send_event \<Rightarrow> bench_match_event \<Rightarrow> u64 option" where
  "hash_delta_of s m = map_option (\<lambda>obs_h. saturating_sub
       (saturating_add (saturating_mul (slot_diff_of s m) HASHES_PER_SLOT) obs_h) (ucast (sv_schedule_tick s) * 62500))
     (me_observed_cumulative m)"

definition leader_changed_of :: "(u64 \<Rightarrow> pubkey option) \<Rightarrow> bench_send_event \<Rightarrow> bench_match_event \<Rightarrow> bool option" where
  "leader_changed_of leader s m = (case (leader (sv_schedule_slot s), leader (me_observed_slot m)) of
     (Some a, Some b) \<Rightarrow> Some (a \<noteq> b) | _ \<Rightarrow> None)"

definition append_final :: "(u64 \<Rightarrow> pubkey option) \<Rightarrow> instant \<Rightarrow> final_record \<Rightarrow> bench_columns \<Rightarrow> bench_columns" where
  "append_final leader anchor r c = (let s = fl_send r; m = fl_match r in \<lparr>
     nc_schedule_slot = nc_schedule_slot c @ [sv_schedule_slot s],
     nc_schedule_tick = nc_schedule_tick c @ [sv_schedule_tick s],
     nc_schedule_leader = nc_schedule_leader c @ [leader (sv_schedule_slot s)],
     nc_tx_signature = nc_tx_signature c @ [sv_signature s],
     nc_trigger_observed_at_ns = nc_trigger_observed_at_ns c @ [ns_between (sv_trigger_observed_at s) anchor],
     nc_send_at_ns = nc_send_at_ns c @ [ns_between (sv_send_at s) anchor],
     nc_response_at_ns = nc_response_at_ns c @ [ns_between (sv_response_at s) anchor],
     nc_send_error = nc_send_error c @ [sv_error s],
     nc_observed_at_ns = nc_observed_at_ns c @ [map_option (\<lambda>m. ns_between (me_observed_at m) anchor) m],
     nc_observed_slot = nc_observed_slot c @ [map_option me_observed_slot m],
     nc_observed_entry_index = nc_observed_entry_index c @ [map_option me_observed_entry_index m],
     nc_observed_tick_in_slot = nc_observed_tick_in_slot c @ [Option.bind m me_observed_tick_in_slot],
     nc_observed_cumulative = nc_observed_cumulative c @ [Option.bind m me_observed_cumulative],
     nc_observed_leader = nc_observed_leader c @ [Option.bind m (\<lambda>m. leader (me_observed_slot m))],
     nc_tick_delta = nc_tick_delta c @ [Option.bind m (tick_delta_of s)],
     nc_slot_delta = nc_slot_delta c @ [map_option (\<lambda>m. ucast (slot_diff_of s m)) m],
     nc_time_delta_ns = nc_time_delta_ns c @ [map_option (\<lambda>m. ns_between (me_observed_at m) (sv_send_at s)) m],
     nc_hash_delta = nc_hash_delta c @ [Option.bind m (hash_delta_of s)],
     nc_leader_changed = nc_leader_changed c @ [Option.bind m (leader_changed_of leader s)],
     nc_status = nc_status c @ [fl_status r] \<rparr>)"

definition bench_columns_len :: "bench_columns \<Rightarrow> nat" where
  "bench_columns_len c = length (nc_schedule_slot c)"

definition bench_parquet_run ::
  "bench_columns accept \<Rightarrow> (u64 \<Rightarrow> pubkey option) \<Rightarrow> instant \<Rightarrow> nat \<Rightarrow> duration \<Rightarrow> instant \<Rightarrow> final_record batch_turn list \<Rightarrow>
    bench_columns batch_writer" where
  "bench_parquet_run acc leader anchor row_group_size flush_interval now ts =
    batch_loop acc (append_final leader anchor) bench_columns_len bench_columns_new row_group_size flush_interval ts
      (batch_writer_init bench_columns_new now)"

end
