(* ===== verification/Bench_Sender.thy ===== *)
theory Bench_Sender
  imports Bench_Writer Leader_Store
begin

text \<open>
  \<open>crates/tick-trigger-bench/src/helius_sender.rs\<close> and \<open>sender.rs\<close>: the HTTP client and the
  dispatcher task, which takes send commands from a channel and runs up to \<open>max_inflight\<close> of them at
  once (\<open>for_each_concurrent\<close>). The codecs are the record \<open>helius_codec\<close>.
\<close>

section \<open>The client\<close>

record helius_codec =
  hv_base64 :: "bytes \<Rightarrow> string"
  hv_to_vec :: "json \<Rightarrow> string + bytes"
  hv_parse :: "string \<Rightarrow> string + (string option \<times> string option)"

record helius_client =
  hl_endpoint :: string
  hl_api_key :: "string option"
  hl_swqos_only :: bool

definition helius_client_new :: "string \<Rightarrow> string option \<Rightarrow> bool \<Rightarrow> helius_client" where
  "helius_client_new endpoint api_key swqos_only = \<lparr> hl_endpoint = trim_end_matches CHR ''/'' endpoint,
     hl_api_key = api_key, hl_swqos_only = swqos_only \<rparr>"

datatype helius_error = HeliusHttpStatus u16 string | HeliusRpcError string | HeliusNetwork string | HeliusParse string

definition helius_body :: "helius_codec \<Rightarrow> bytes \<Rightarrow> json" where
  "helius_body hv tx = JObject [(''jsonrpc'', JString ''2.0''), (''id'', JNumber 1), (''method'', JString ''sendTransaction''),
     (''params'', JArray [JString (hv_base64 hv tx),
        JObject [(''encoding'', JString ''base64''), (''skipPreflight'', JBool True), (''maxRetries'', JNumber 0)]])]"

definition helius_query :: "helius_client \<Rightarrow> (string \<times> string) list" where
  "helius_query hl = (case hl_api_key hl of Some k \<Rightarrow> [(''api-key'', k)] | None \<Rightarrow> []) @
     [(''swqos_only'', if hl_swqos_only hl then ''true'' else ''false'')]"

fun push_query :: "(string \<times> string) list \<Rightarrow> string" where
  "push_query [] = []"
| "push_query [(k, v)] = k @ ''='' @ v"
| "push_query ((k, v) # qs) = k @ ''='' @ v @ ''&'' @ push_query qs"

definition helius_url :: "helius_client \<Rightarrow> string" where
  "helius_url hl = (let url = hl_endpoint hl @ ''/fast''; qs = helius_query hl
     in if qs = [] then url else url @ ''?'' @ push_query qs)"

text \<open>The request, or the serialization error before it is sent; the classification of the reply.\<close>

definition helius_request :: "helius_codec \<Rightarrow> helius_client \<Rightarrow> bytes \<Rightarrow> helius_error + request" where
  "helius_request hv hl tx = (case hv_to_vec hv (helius_body hv tx) of
     Inl e \<Rightarrow> Inl (HeliusParse e)
   | Inr b \<Rightarrow> Inr \<lparr> rq_url = helius_url hl, rq_headers = [(''Content-Type'', ''application/json'')], rq_body = b, rq_source = None \<rparr>)"

definition helius_reply :: "helius_codec \<Rightarrow> http_result \<Rightarrow> helius_error + string" where
  "helius_reply hv r = (case r of
     Http_Error e \<Rightarrow> Inl (HeliusNetwork e)
   | Http_Response status body \<Rightarrow> (let t = body_text body in
       if \<not> is_success status then Inl (HeliusHttpStatus status t)
       else (case hv_parse hv t of
          Inl e \<Rightarrow> Inl (HeliusParse (''body: '' @ t @ '' err: '' @ e))
        | Inr (_, Some msg) \<Rightarrow> Inl (HeliusRpcError msg)
        | Inr (Some sig, None) \<Rightarrow> Inr sig
        | Inr (None, None) \<Rightarrow> Inl (HeliusParse (''missing result: '' @ t)))))"

definition send_raw :: "helius_codec \<Rightarrow> helius_client \<Rightarrow> bytes \<Rightarrow> http_result \<Rightarrow> helius_error + string" where
  "send_raw hv hl tx r = (case helius_request hv hl tx of Inl e \<Rightarrow> Inl e | Inr _ \<Rightarrow> helius_reply hv r)"

section \<open>The dispatcher\<close>

record bench_dispatcher =
  bd_queue :: "send_command list"
  bd_inflight :: "(send_command \<times> instant) list"
  bd_pending_sigs :: "signature set"
  bd_requests :: "request list"
  bd_events :: "bench_send_event chan"
  bd_counters :: bench_counters

definition bench_dispatcher_init :: "signature set \<Rightarrow> bench_counters \<Rightarrow> bench_dispatcher" where
  "bench_dispatcher_init pending c = \<lparr> bd_queue = [], bd_inflight = [], bd_pending_sigs = pending, bd_requests = [],
     bd_events = [], bd_counters = c \<rparr>"

text \<open>\<open>process_one\<close> up to the first await: the age of the blockhash, the pending signature, the request.\<close>

definition process_start ::
  "helius_codec \<Rightarrow> helius_client \<Rightarrow> duration \<Rightarrow> instant \<Rightarrow> instant \<Rightarrow> send_command \<Rightarrow> bench_dispatcher \<Rightarrow> bench_dispatcher" where
  "process_start hv hl max_age now send_at cmd bd =
    (if max_age < saturating_duration_since now (bx_built_at (sk_tx cmd))
     then bd\<lparr>bd_counters := (bd_counters bd)\<lparr>tc_blockhash_expired := tc_blockhash_expired (bd_counters bd) + 1\<rparr>\<rparr>
     else bd\<lparr> bd_pending_sigs := insert (bx_signature (sk_tx cmd)) (bd_pending_sigs bd),
            bd_requests := bd_requests bd @ (case helius_request hv hl (bx_serialized (sk_tx cmd)) of Inl _ \<Rightarrow> [] | Inr rq \<Rightarrow> [rq]),
            bd_inflight := bd_inflight bd @ [(cmd, send_at)] \<rparr>)"

definition send_error_text :: "helius_error + string \<Rightarrow> string option" where
  "send_error_text r = (case r of
     Inr _ \<Rightarrow> None
   | Inl (HeliusHttpStatus code body) \<Rightarrow> Some (''http '' @ show_word code @ '': '' @ body)
   | Inl (HeliusNetwork e) \<Rightarrow> Some (''net: '' @ e)
   | Inl (HeliusRpcError msg) \<Rightarrow> Some (''rpc: '' @ msg)
   | Inl (HeliusParse msg) \<Rightarrow> Some (''parse: '' @ msg))"

definition count_send_error :: "helius_error + string \<Rightarrow> bench_counters \<Rightarrow> bench_counters" where
  "count_send_error r c = (case r of
     Inr _ \<Rightarrow> c
   | Inl (HeliusNetwork _) \<Rightarrow> c\<lparr>tc_send_network_error := tc_send_network_error c + 1\<rparr>
   | Inl _ \<Rightarrow> c\<lparr>tc_send_http_error := tc_send_http_error c + 1\<rparr>)"

definition send_event_of :: "send_command \<Rightarrow> instant \<Rightarrow> instant \<Rightarrow> helius_error + string \<Rightarrow> bench_send_event" where
  "send_event_of cmd send_at response_at r = \<lparr> sv_signature = bx_signature (sk_tx cmd), sv_schedule_slot = sk_schedule_slot cmd,
     sv_schedule_tick = sk_schedule_tick cmd, sv_trigger_observed_at = sk_trigger_observed_at cmd, sv_send_at = send_at,
     sv_response_at = response_at, sv_error = send_error_text r \<rparr>"

text \<open>The rest of \<open>process_one\<close>, when the reply of a request in flight has arrived.\<close>

definition process_finish ::
  "bench_send_event accept \<Rightarrow> helius_codec \<Rightarrow> helius_client \<Rightarrow> send_command \<Rightarrow> instant \<Rightarrow> http_result \<Rightarrow> instant \<Rightarrow>
    bench_dispatcher \<Rightarrow> bench_dispatcher" where
  "process_finish acc hv hl cmd send_at reply response_at bd =
    (let r = send_raw hv hl (bx_serialized (sk_tx cmd)) reply;
         c = count_send_error r (bd_counters bd)
     in case try_send acc (bd_events bd) (send_event_of cmd send_at response_at r) of (ch, ok) \<Rightarrow>
       bd\<lparr> bd_events := ch, bd_counters := (if ok then c else c\<lparr>tc_send_event_queue_full := tc_send_event_queue_full c + 1\<rparr>) \<rparr>)"

text \<open>The runs: the commands the observer queued, and the state they may have led to.\<close>

inductive bench_send_run ::
  "bench_send_event accept \<Rightarrow> helius_codec \<Rightarrow> helius_client \<Rightarrow> duration \<Rightarrow> nat \<Rightarrow> bench_dispatcher \<Rightarrow> send_command list \<Rightarrow>
    bench_dispatcher \<Rightarrow> bool"
  for acc hv hl max_age max_inflight start where
  idle: "bench_send_run acc hv hl max_age max_inflight start [] start"
| arrive: "bench_send_run acc hv hl max_age max_inflight start cmds bd \<Longrightarrow>
    bench_send_run acc hv hl max_age max_inflight start (cmds @ [cmd]) (bd\<lparr>bd_queue := bd_queue bd @ [cmd]\<rparr>)"
| launch: "bench_send_run acc hv hl max_age max_inflight start cmds bd \<Longrightarrow> bd_queue bd = cmd # queue \<Longrightarrow>
    length (bd_inflight bd) < max_inflight \<Longrightarrow>
    bench_send_run acc hv hl max_age max_inflight start cmds
      (process_start hv hl max_age now send_at cmd (bd\<lparr>bd_queue := queue\<rparr>))"
| reply: "bench_send_run acc hv hl max_age max_inflight start cmds bd \<Longrightarrow> bd_inflight bd = before @ (cmd, send_at) # after \<Longrightarrow>
    bench_send_run acc hv hl max_age max_inflight start cmds
      (process_finish acc hv hl cmd send_at r response_at (bd\<lparr>bd_inflight := before @ after\<rparr>))"

section \<open>Every command is accounted for\<close>

definition command_id :: "send_command \<Rightarrow> signature \<times> u64 \<times> u8 \<times> instant" where
  "command_id cmd = (bx_signature (sk_tx cmd), sk_schedule_slot cmd, sk_schedule_tick cmd, sk_trigger_observed_at cmd)"

definition event_id :: "bench_send_event \<Rightarrow> signature \<times> u64 \<times> u8 \<times> instant" where
  "event_id ev = (sv_signature ev, sv_schedule_slot ev, sv_schedule_tick ev, sv_trigger_observed_at ev)"

definition open_ids :: "bench_dispatcher \<Rightarrow> (signature \<times> u64 \<times> u8 \<times> instant) multiset" where
  "open_ids bd = mset (map command_id (bd_queue bd)) + mset (map (\<lambda>(cmd, _). command_id cmd) (bd_inflight bd))"

lemma event_id_of [simp]: "event_id (send_event_of cmd a b r) = command_id cmd"
  by (simp add: event_id_def send_event_of_def command_id_def)

lemma count_send_error_expired [simp]: "tc_blockhash_expired (count_send_error r c) = tc_blockhash_expired c"
  by (auto simp: count_send_error_def split: sum.split helius_error.split)


definition ids_balance :: "u64 \<Rightarrow> send_command list \<Rightarrow> bench_dispatcher \<Rightarrow> bool" where
  "ids_balance expired0 cmds bd \<longleftrightarrow> (\<exists>expired.
     mset (map command_id cmds) = open_ids bd + mset (map event_id (attempts (bd_events bd))) + expired \<and>
     tc_blockhash_expired (bd_counters bd) = expired0 + of_nat (size expired))"

definition sigs_pending :: "signature set \<Rightarrow> bench_dispatcher \<Rightarrow> bool" where
  "sigs_pending P bd \<longleftrightarrow> P \<union> (\<lambda>(cmd, _). bx_signature (sk_tx cmd)) ` set (bd_inflight bd) \<union>
     sv_signature ` set (attempts (bd_events bd)) \<subseteq> bd_pending_sigs bd"

lemma balance_arrive: "ids_balance e cmds bd \<Longrightarrow> ids_balance e (cmds @ [cmd]) (bd\<lparr>bd_queue := bd_queue bd @ [cmd]\<rparr>)"
  by (auto simp: ids_balance_def open_ids_def)

lemma balance_start:
  assumes "ids_balance e cmds bd" "bd_queue bd = cmd # queue"
  shows "ids_balance e cmds (process_start hv hl max_age now send_at cmd (bd\<lparr>bd_queue := queue\<rparr>))"
proof -
  obtain X where X: "mset (map command_id cmds) = open_ids bd + mset (map event_id (attempts (bd_events bd))) + X"
    "tc_blockhash_expired (bd_counters bd) = e + of_nat (size X)" using assms(1) by (auto simp: ids_balance_def)
  show ?thesis
  proof (cases "max_age < saturating_duration_since now (bx_built_at (sk_tx cmd))")
    case True
    then show ?thesis using X assms(2) unfolding ids_balance_def
      by (intro exI [of _ "add_mset (command_id cmd) X"]) (simp add: process_start_def open_ids_def)
  next
    case False
    then show ?thesis using X assms(2) unfolding ids_balance_def
      by (intro exI [of _ X]) (simp add: process_start_def open_ids_def)
  qed
qed

lemma balance_finish:
  assumes "ids_balance e cmds bd" "bd_inflight bd = before @ (cmd, send_at) # after"
  shows "ids_balance e cmds (process_finish acc hv hl cmd send_at r response_at (bd\<lparr>bd_inflight := before @ after\<rparr>))"
  using assms by (auto simp: ids_balance_def process_finish_def Let_def try_send_def open_ids_def)

lemma pending_start:
  "sigs_pending P bd \<Longrightarrow> sigs_pending P (process_start hv hl max_age now send_at cmd (bd\<lparr>bd_queue := queue\<rparr>))"
  by (auto simp: sigs_pending_def process_start_def)

lemma pending_finish:
  "sigs_pending P bd \<Longrightarrow> bd_inflight bd = before @ (cmd, send_at) # after \<Longrightarrow>
    sigs_pending P (process_finish acc hv hl cmd send_at r response_at (bd\<lparr>bd_inflight := before @ after\<rparr>))"
  by (auto simp: sigs_pending_def process_finish_def Let_def try_send_def send_event_of_def)

lemma start_inflight: "length (bd_inflight (process_start hv hl a now s cmd bd)) \<le> Suc (length (bd_inflight bd))"
  by (simp add: process_start_def)

lemma finish_inflight [simp]: "bd_inflight (process_finish acc hv hl cmd s r t bd) = bd_inflight bd"
  by (simp add: process_finish_def Let_def try_send_def)

lemma send_run_accounted:
  assumes "bench_send_run acc hv hl max_age max_inflight (bench_dispatcher_init P c) cmds bd"
  shows "ids_balance (tc_blockhash_expired c) cmds bd \<and> length (bd_inflight bd) \<le> max_inflight \<and> sigs_pending P bd"
  using assms
proof induction
  case idle
  show ?case by (simp add: ids_balance_def sigs_pending_def bench_dispatcher_init_def open_ids_def)
next
  case (arrive cmds bd cmd)
  then show ?case using balance_arrive by (simp add: sigs_pending_def)
next
  case (launch cmds bd cmd queue now send_at)
  have "length (bd_inflight (process_start hv hl max_age now send_at cmd (bd\<lparr>bd_queue := queue\<rparr>))) \<le> max_inflight"
    using start_inflight [of hv hl max_age now send_at cmd "bd\<lparr>bd_queue := queue\<rparr>"] launch by simp
  then show ?case using launch balance_start pending_start by blast
next
  case (reply cmds bd before cmd send_at "after" r response_at)
  then show ?case using balance_finish pending_finish by (auto simp del: map_append)
qed


definition demo_command :: send_command where
  "demo_command = \<lparr> sk_tx = \<lparr> bx_serialized = [1], bx_signature = 9, bx_blockhash = 0, bx_built_at = 5 \<rparr>,
     sk_schedule_slot = 100, sk_schedule_tick = 3, sk_trigger_observed_at = 7 \<rparr>"

definition demo_helius_codec :: helius_codec where
  "demo_helius_codec = \<lparr> hv_base64 = (\<lambda>_. ''AQ==''), hv_to_vec = (\<lambda>_. Inr []), hv_parse = (\<lambda>_. Inr (Some ''sig'', None)) \<rparr>"


end
