(* ===== verification/Bench_Writer_Props.thy ===== *)
theory Bench_Writer_Props
  imports Bench_Writer
begin

text \<open>
  What the finalizer of the older bench promises: every send event it takes becomes one final record,
  with the match that was received for its signature; a record without a match is exactly one that
  goes to the RPC fallback; and as long as the deadline has not passed, a record is \<open>OBSERVED\<close> exactly
  when a match was received.
\<close>

section \<open>The turns a run executes\<close>

fun final_rounds :: "final_record accept \<Rightarrow> duration \<Rightarrow> final_turn list \<Rightarrow> finalizer \<Rightarrow> final_turn list" where
  "final_rounds acc deadline [] fz = []"
| "final_rounds acc deadline (t # ts) fz =
    (if (fn_stop t \<and> fz_map fz = []) \<or> fn_input t = FinalSendsClosed then []
     else t # final_rounds acc deadline ts (final_round acc deadline t fz))"

lemma finalize_loop_rounds:
  "finalize_loop acc deadline ts fz = fold (final_round acc deadline) (final_rounds acc deadline ts fz) fz"
  by (induction ts arbitrary: fz) simp_all

definition sends_of :: "final_turn list \<Rightarrow> bench_send_event list" where
  "sends_of ts = List.map_filter (\<lambda>t. case fn_input t of FinalSend ev \<Rightarrow> Some ev | _ \<Rightarrow> None) ts"

definition matches_of :: "final_turn list \<Rightarrow> bench_match_event list" where
  "matches_of ts = List.map_filter (\<lambda>t. case fn_input t of FinalMatch ev \<Rightarrow> Some ev | _ \<Rightarrow> None) ts"

lemma sends_of_simps [simp]:
  "sends_of [] = []" "sends_of (t # ts) = (case fn_input t of FinalSend ev \<Rightarrow> [ev] | _ \<Rightarrow> []) @ sends_of ts"
  by (simp_all add: sends_of_def map_filter_simps split: final_input.split)

lemma matches_of_simps [simp]:
  "matches_of [] = []" "matches_of (t # ts) = (case fn_input t of FinalMatch ev \<Rightarrow> [ev] | _ \<Rightarrow> []) @ matches_of ts"
  by (simp_all add: matches_of_def map_filter_simps split: final_input.split)

section \<open>The books\<close>

abbreviation record_sig :: "final_record \<Rightarrow> signature" where
  "record_sig r \<equiv> sv_signature (fl_send r)"

definition record_right :: "bench_match_event set \<Rightarrow> final_record \<Rightarrow> bool" where
  "record_right M r \<longleftrightarrow> fl_status r = (if fl_match r = None then ''UNKNOWN_PENDING'' else ''OBSERVED'') \<and>
     (\<forall>m. fl_match r = Some m \<longrightarrow> me_signature m = record_sig r \<and> m \<in> M)"

definition books :: "signature set \<Rightarrow> signature list \<Rightarrow> bench_match_event set \<Rightarrow> finalizer \<Rightarrow> bool" where
  "books P Q M fz \<longleftrightarrow> list_all (record_right M) (attempts (fz_final fz)) \<and>
     fz_fallback fz = Q @ map record_sig (filter (\<lambda>r. fl_match r = None) (attempts (fz_final fz))) \<and>
     fz_pending_sigs fz = P - record_sig ` set (attempts (fz_final fz)) \<and>
     fz_final_queue_full fz = of_nat (refused (fz_final fz))"

definition tables :: "bench_match_event set \<Rightarrow> finalizer \<Rightarrow> bool" where
  "tables M fz \<longleftrightarrow> hm_inv (fz_map fz) \<and> hm_inv (fz_early fz) \<and>
     list_all (\<lambda>(sig, p). nr_match p = None \<and> sv_signature (nr_send p) = sig) (fz_map fz) \<and>
     list_all (\<lambda>(sig, m). me_signature m = sig \<and> m \<in> M) (fz_early fz) \<and>
     (\<forall>sig. map_of (fz_map fz) sig \<noteq> None \<longrightarrow> map_of (fz_early fz) sig = None)"

definition content :: "finalizer \<Rightarrow> bench_send_event multiset" where
  "content fz = mset (map fl_send (attempts (fz_final fz))) + mset (map (\<lambda>(_, p). nr_send p) (fz_map fz))"

lemma tablesI:
  assumes "hm_inv (fz_map fz)" "hm_inv (fz_early fz)"
    "list_all (\<lambda>(sig, p). nr_match p = None \<and> sv_signature (nr_send p) = sig) (fz_map fz)"
    "list_all (\<lambda>(sig, m). me_signature m = sig \<and> m \<in> M) (fz_early fz)"
    "\<And>sig. map_of (fz_map fz) sig \<noteq> None \<Longrightarrow> map_of (fz_early fz) sig = None"
  shows "tables M fz"
  using assms unfolding tables_def by blast

lemma tablesD:
  assumes "tables M fz"
  shows "hm_inv (fz_map fz)" "hm_inv (fz_early fz)"
    "list_all (\<lambda>(sig, p). nr_match p = None \<and> sv_signature (nr_send p) = sig) (fz_map fz)"
    "list_all (\<lambda>(sig, m). me_signature m = sig \<and> m \<in> M) (fz_early fz)"
    "map_of (fz_map fz) sig \<noteq> None \<Longrightarrow> map_of (fz_early fz) sig = None"
  using assms unfolding tables_def by blast+

lemma tables_map_entry: "tables M fz \<Longrightarrow> map_of (fz_map fz) sig = Some p \<Longrightarrow> nr_match p = None \<and> sv_signature (nr_send p) = sig"
  using tablesD(3) map_of_SomeD by (fastforce simp: list_all_iff)

lemma tables_early_entry: "tables M fz \<Longrightarrow> map_of (fz_early fz) sig = Some m \<Longrightarrow> me_signature m = sig \<and> m \<in> M"
  using tablesD(4) map_of_SomeD by (fastforce simp: list_all_iff)

lemma list_all_hm_insert: "list_all P m \<Longrightarrow> P (k, v) \<Longrightarrow> list_all P (hm_insert k v m)"
  using set_update_subset [of k v m] by (auto simp: list_all_iff)

lemma list_all_hm_remove: "list_all P m \<Longrightarrow> list_all P (hm_remove k m)"
  by (auto simp: list_all_iff AList.delete_eq)

section \<open>Settling a record\<close>

definition settle :: "final_record accept \<Rightarrow> bench_send_event \<Rightarrow> bench_match_event option \<Rightarrow> finalizer \<Rightarrow> finalizer" where
  "settle acc ev x fz =
    (let r = \<lparr> fl_send = ev, fl_match = x, fl_status = (if x = None then ''UNKNOWN_PENDING'' else ''OBSERVED'') \<rparr>;
         ok = acc (fz_final fz) r
     in fz\<lparr> fz_pending_sigs := fz_pending_sigs fz - {sv_signature ev}, fz_final := fz_final fz @ [(r, ok)],
        fz_final_queue_full := (if ok then fz_final_queue_full fz else fz_final_queue_full fz + 1),
        fz_fallback := fz_fallback fz @ (if x = None then [sv_signature ev] else []) \<rparr>)"

lemma settle_tables [simp]:
  "fz_map (settle acc ev x fz) = fz_map fz" "fz_early (settle acc ev x fz) = fz_early fz"
  by (simp_all add: settle_def Let_def)

lemma settle_attempts:
  "attempts (fz_final (settle acc ev x fz)) = attempts (fz_final fz) @
    [\<lparr> fl_send = ev, fl_match = x, fl_status = (if x = None then ''UNKNOWN_PENDING'' else ''OBSERVED'') \<rparr>]"
  by (simp add: settle_def Let_def)

lemma emit_final_settle: "emit_final acc (sv_signature (nr_send p)) p fz = settle acc (nr_send p) (nr_match p) fz"
  by (simp add: emit_final_def send_final_def settle_def try_send_def Let_def)

lemma emit_observed_settle:
  "nr_match p \<noteq> None \<Longrightarrow> emit_observed acc (sv_signature (nr_send p)) p fz =
    settle acc (nr_send p) (nr_match p) (fz\<lparr>fz_map := hm_remove (sv_signature (nr_send p)) (fz_map fz)\<rparr>)"
  by (cases fz) (auto simp: emit_observed_def send_final_def settle_def try_send_def Let_def)

lemma books_settle:
  assumes "books P Q M fz" "\<And>m. x = Some m \<Longrightarrow> me_signature m = sv_signature ev \<and> m \<in> M"
  shows "books P Q M (settle acc ev x fz)"
  using assms unfolding books_def settle_attempts
  by (auto simp: settle_def Let_def record_right_def)

lemma books_tables [simp]:
  "books P Q M (fz\<lparr>fz_map := m\<rparr>) = books P Q M fz" "books P Q M (fz\<lparr>fz_early := e\<rparr>) = books P Q M fz"
  "books P Q M (fz\<lparr>fz_last_sweep := i\<rparr>) = books P Q M fz"
  by (simp_all add: books_def)

lemma tables_sweep_time [simp]: "tables M (fz\<lparr>fz_last_sweep := i\<rparr>) = tables M fz"
  and content_sweep_time [simp]: "content (fz\<lparr>fz_last_sweep := i\<rparr>) = content fz"
  by (simp_all add: tables_def content_def)

lemma tables_cong: "fz_map x = fz_map y \<Longrightarrow> fz_early x = fz_early y \<Longrightarrow> tables M x = tables M y"
  by (simp add: tables_def)

lemma tables_settle [simp]: "tables M (settle acc ev x fz) = tables M fz"
  by (rule tables_cong) simp_all

lemma content_settle: "content (settle acc ev x fz) = add_mset ev (content fz)"
  by (simp add: content_def settle_attempts)

text \<open>Taking an entry out of the table and settling it.\<close>

lemma tables_remove: "tables M fz \<Longrightarrow> tables M (fz\<lparr>fz_map := hm_remove sig (fz_map fz)\<rparr>)"
  by (rule tablesI) (auto simp: tablesD hm.invar_remove list_all_hm_remove hm.lookup_remove split: if_splits)

lemma content_remove:
  assumes "tables M fz" "map_of (fz_map fz) sig = Some p"
  shows "content fz = add_mset (nr_send p) (content (fz\<lparr>fz_map := hm_remove sig (fz_map fz)\<rparr>))"
  using mset_remove_entry [OF tablesD(1) [OF assms(1)] assms(2)] by (simp add: content_def)

section \<open>The operations\<close>

text \<open>What one operation does: \<open>S\<close> are the send events it takes.\<close>

definition keeps :: "signature set \<Rightarrow> signature list \<Rightarrow> bench_match_event set \<Rightarrow> bench_send_event list \<Rightarrow> finalizer \<Rightarrow> finalizer \<Rightarrow> bool" where
  "keeps P Q M S fz fz' \<longleftrightarrow> books P Q M fz' \<and> tables M fz' \<and> content fz' = content fz + mset S"

lemma keeps_refl: "books P Q M fz \<Longrightarrow> tables M fz \<Longrightarrow> keeps P Q M [] fz fz"
  by (simp add: keeps_def)

lemma keeps_settle_entry:
  assumes "books P Q M fz" "tables M fz" "map_of (fz_map fz) sig = Some p"
    "\<And>m. x = Some m \<Longrightarrow> me_signature m = sig \<and> m \<in> M"
  shows "keeps P Q M [] fz (settle acc (nr_send p) x (fz\<lparr>fz_map := hm_remove sig (fz_map fz)\<rparr>))"
  using assms tables_map_entry [OF assms(2,3)]
  by (simp add: keeps_def books_settle tables_remove content_settle content_remove [OF assms(2,3)])

lemma take_send_effect:
  assumes "tables M fz" "map_of (fz_map fz) (sv_signature ev) = None"
  shows "take_send acc now ev fz = (case map_of (fz_early fz) (sv_signature ev) of
      Some m \<Rightarrow> settle acc ev (Some m) (fz\<lparr>fz_early := hm_remove (sv_signature ev) (fz_early fz)\<rparr>)
    | None \<Rightarrow> fz\<lparr>fz_map := hm_insert (sv_signature ev) \<lparr> nr_send = ev, nr_match = None, nr_inserted_at = now \<rparr> (fz_map fz)\<rparr>)"
proof (cases "map_of (fz_early fz) (sv_signature ev)")
  case None
  then show ?thesis using assms(2) by (simp add: take_send_def Let_def remove_absent)
next
  case (Some m)
  let ?p = "\<lparr> nr_send = ev, nr_match = Some m, nr_inserted_at = now \<rparr>"
  show ?thesis
    using Some assms(2) emit_observed_settle [of ?p acc "fz\<lparr> fz_early := hm_remove (sv_signature ev) (fz_early fz),
      fz_map := hm_insert (sv_signature ev) ?p (fz_map fz) \<rparr>"]
    by (simp add: take_send_def Let_def remove_absent)
qed

lemma keeps_send:
  assumes b: "books P Q M fz" and t: "tables M fz" and n: "map_of (fz_map fz) (sv_signature ev) = None"
  shows "keeps P Q M [ev] fz (take_send acc now ev fz)"
proof (cases "map_of (fz_early fz) (sv_signature ev)")
  case None
  let ?p = "\<lparr> nr_send = ev, nr_match = None, nr_inserted_at = now \<rparr>"
  have "tables M (fz\<lparr>fz_map := hm_insert (sv_signature ev) ?p (fz_map fz)\<rparr>)"
    using t None by (intro tablesI)
      (auto simp: tablesD hm.invar_insert list_all_hm_insert hm.lookup_insert split: if_splits)
  moreover have "content (fz\<lparr>fz_map := hm_insert (sv_signature ev) ?p (fz_map fz)\<rparr>) = content fz + {#ev#}"
    using mset_insert_new [OF n, of ?p] by (simp add: content_def)
  ultimately show ?thesis using b None by (simp add: keeps_def take_send_effect [OF t n])
next
  case (Some m)
  have "tables M (fz\<lparr>fz_early := hm_remove (sv_signature ev) (fz_early fz)\<rparr>)"
    using t by (intro tablesI) (auto simp: tablesD hm.invar_remove list_all_hm_remove hm.lookup_remove)
  moreover have "content (fz\<lparr>fz_early := hm_remove (sv_signature ev) (fz_early fz)\<rparr>) = content fz" by (simp add: content_def)
  moreover have "books P Q M (settle acc ev (Some m) (fz\<lparr>fz_early := hm_remove (sv_signature ev) (fz_early fz)\<rparr>))"
    by (rule books_settle) (use b tables_early_entry [OF t Some] in auto)
  ultimately show ?thesis using Some by (simp add: keeps_def take_send_effect [OF t n] content_settle)
qed

lemma take_match_effect:
  assumes "tables M fz"
  shows "take_match acc ev fz = (case map_of (fz_map fz) (me_signature ev) of
      Some p \<Rightarrow> settle acc (nr_send p) (Some ev) (fz\<lparr>fz_map := hm_remove (me_signature ev) (fz_map fz)\<rparr>)
    | None \<Rightarrow> fz\<lparr>fz_early := hm_insert (me_signature ev) ev (fz_early fz)\<rparr>)"
proof (cases "map_of (fz_map fz) (me_signature ev)")
  case (Some p)
  then show ?thesis using emit_observed_settle [of "p\<lparr>nr_match := Some ev\<rparr>" acc fz] tables_map_entry [OF assms Some]
    by (simp add: take_match_def Let_def)
qed (simp add: take_match_def Let_def)

lemma keeps_match:
  assumes b: "books P Q M fz" and t: "tables M fz" and m: "ev \<in> M"
  shows "keeps P Q M [] fz (take_match acc ev fz)"
proof (cases "map_of (fz_map fz) (me_signature ev)")
  case None
  have "tables M (fz\<lparr>fz_early := hm_insert (me_signature ev) ev (fz_early fz)\<rparr>)"
    using t None m by (intro tablesI)
      (auto simp: tablesD hm.invar_insert list_all_hm_insert hm.lookup_insert)
  then show ?thesis using b None by (simp add: keeps_def take_match_effect [OF t] content_def)
next
  case (Some p)
  then show ?thesis using keeps_settle_entry [OF b t Some, of "Some ev"] m by (simp add: take_match_effect [OF t])
qed

lemma remove_and_emit_effect:
  assumes "tables M fz" "map_of (fz_map fz) sig = Some p"
  shows "remove_and_emit acc sig fz = settle acc (nr_send p) None (fz\<lparr>fz_map := hm_remove sig (fz_map fz)\<rparr>)"
  using emit_final_settle [of acc p "fz\<lparr>fz_map := hm_remove sig (fz_map fz)\<rparr>"] tables_map_entry [OF assms] assms(2)
  by (simp add: remove_and_emit_def)

lemma keeps_emit_all:
  "books P Q M fz \<Longrightarrow> tables M fz \<Longrightarrow> distinct sigs \<Longrightarrow> set sigs \<subseteq> dom (map_of (fz_map fz)) \<Longrightarrow>
    keeps P Q M [] fz (fold (remove_and_emit acc) sigs fz)"
proof (induction sigs arbitrary: fz)
  case (Cons sig sigs)
  obtain p where p: "map_of (fz_map fz) sig = Some p" using Cons.prems(4) by auto
  let ?fz = "remove_and_emit acc sig fz"
  have k: "keeps P Q M [] fz ?fz"
    using keeps_settle_entry [OF Cons.prems(1,2) p, of None] by (simp add: remove_and_emit_effect [OF Cons.prems(2) p])
  have "set sigs \<subseteq> dom (map_of (fz_map ?fz))"
    using Cons.prems(3,4) unfolding remove_and_emit_effect [OF Cons.prems(2) p]
    by (auto simp: hm.lookup_remove dom_def)
  then have "keeps P Q M [] ?fz (fold (remove_and_emit acc) sigs ?fz)" using k Cons by (simp add: keeps_def)
  then show ?case using k by (simp add: keeps_def)
qed (simp add: keeps_refl)

lemma stale_sigs_ok: "tables M fz \<Longrightarrow> distinct (stale_sigs now d fz) \<and> set (stale_sigs now d fz) \<subseteq> dom (map_of (fz_map fz))"
proof -
  assume t: "tables M fz"
  have "distinct (stale_sigs now d fz)"
    using tablesD(1) [OF t] by (simp add: stale_sigs_def hm_inv_def distinct_map_filter)
  moreover have "set (stale_sigs now d fz) \<subseteq> set (map_keys (fz_map fz))" by (auto simp: stale_sigs_def)
  ultimately show ?thesis unfolding set_map_keys by (auto simp: dom_def)
qed

lemma keeps_sweep: "books P Q M fz \<Longrightarrow> tables M fz \<Longrightarrow> keeps P Q M [] fz (final_sweep acc now d fz)"
  using keeps_emit_all stale_sigs_ok [of M fz now d] by (simp add: final_sweep_def keeps_def)


section \<open>Runs\<close>

lemma not_in_table:
  assumes "tables M fz" "content fz = mset es" "sv_signature ev \<notin> sv_signature ` set es"
  shows "map_of (fz_map fz) (sv_signature ev) = None"
proof (rule ccontr)
  assume "map_of (fz_map fz) (sv_signature ev) \<noteq> None"
  then obtain p where p: "map_of (fz_map fz) (sv_signature ev) = Some p" by auto
  have "nr_send p \<in># content fz" using content_remove [OF assms(1) p] by simp
  then have "nr_send p \<in> set es" unfolding assms(2) by simp
  then show False using assms(3) tables_map_entry [OF assms(1) p] by force
qed

lemma keeps_input:
  assumes "books P Q M fz" "tables M fz" "content fz = mset es" "distinct (map sv_signature (es @ sends_of [t]))"
    "set (matches_of [t]) \<subseteq> M"
  shows "keeps P Q M (sends_of [t]) fz (final_input_step acc t fz)"
proof (cases "fn_input t")
  case (FinalSend ev)
  then have "sv_signature ev \<notin> sv_signature ` set es" using assms(4) by auto
  then show ?thesis using keeps_send [OF assms(1,2) not_in_table [OF assms(2,3)]] FinalSend by (simp add: final_input_step_def)
next
  case (FinalMatch ev)
  then show ?thesis using keeps_match [OF assms(1,2)] assms(5) by (simp add: final_input_step_def)
qed (use assms in \<open>simp_all add: final_input_step_def keeps_refl\<close>)

lemma keeps_round:
  assumes "books P Q M fz" "tables M fz" "content fz = mset es" "distinct (map sv_signature (es @ sends_of [t]))"
    "set (matches_of [t]) \<subseteq> M"
  shows "keeps P Q M (sends_of [t]) fz (final_round acc d t fz)"
proof -
  have k: "keeps P Q M (sends_of [t]) fz (final_input_step acc t fz)" by (rule keeps_input [OF assms])
  then have "keeps P Q M [] (final_input_step acc t fz) (final_round acc d t fz)"
    unfolding final_round_def keeps_def [of _ _ _ "sends_of [t]"] by (blast intro: keeps_sweep)
  then show ?thesis using k by (simp add: keeps_def)
qed

lemma keeps_rounds:
  "books P Q M fz \<Longrightarrow> tables M fz \<Longrightarrow> content fz = mset es \<Longrightarrow> distinct (map sv_signature (es @ sends_of ts)) \<Longrightarrow>
    set (matches_of ts) \<subseteq> M \<Longrightarrow> keeps P Q M (sends_of ts) fz (fold (final_round acc d) ts fz)"
proof (induction ts arbitrary: fz es)
  case (Cons t ts)
  have e: "sends_of (t # ts) = sends_of [t] @ sends_of ts" "matches_of (t # ts) = matches_of [t] @ matches_of ts"
    by simp_all
  have d: "distinct (map sv_signature (es @ sends_of [t]))" "set (matches_of [t]) \<subseteq> M"
    using Cons.prems(4,5) unfolding e by auto
  have k: "keeps P Q M (sends_of [t]) fz (final_round acc d t fz)" by (rule keeps_round [OF Cons.prems(1-3) d])
  then have "keeps P Q M (sends_of ts) (final_round acc d t fz) (fold (final_round acc d) ts (final_round acc d t fz))"
    using Cons.IH [of "final_round acc d t fz" "es @ sends_of [t]"] Cons.prems(3-5) unfolding e by (simp add: keeps_def)
  then show ?case using k unfolding e by (simp add: keeps_def ac_simps)
qed (simp add: keeps_refl)

lemma flush_fold:
  "list_all (\<lambda>(sig, p). nr_match p = None \<and> sv_signature (nr_send p) = sig) es \<Longrightarrow> books P Q M fz \<Longrightarrow> fz_map fz = [] \<Longrightarrow>
    books P Q M (fold (\<lambda>(sig, p). emit_final acc sig p) es fz) \<and> fz_map (fold (\<lambda>(sig, p). emit_final acc sig p) es fz) = [] \<and>
    attempts (fz_final (fold (\<lambda>(sig, p). emit_final acc sig p) es fz)) = attempts (fz_final fz) @
      map (\<lambda>(_, p). \<lparr> fl_send = nr_send p, fl_match = None, fl_status = ''UNKNOWN_PENDING'' \<rparr>) es"
proof (induction es arbitrary: fz)
  case (Cons e es)
  obtain sig p where e: "e = (sig, p)" by (cases e)
  have p: "nr_match p = None" "sig = sv_signature (nr_send p)" using Cons.prems(1) e by auto
  have s: "emit_final acc sig p fz = settle acc (nr_send p) None fz" unfolding p(2) emit_final_settle p(1) ..
  have "books P Q M (settle acc (nr_send p) None fz)" by (rule books_settle [OF Cons.prems(2)]) simp
  then show ?case using Cons.IH [of "settle acc (nr_send p) None fz"] Cons.prems(1,3) by (simp add: e s settle_attempts)
qed simp

lemma finalizer_flush_ok:
  assumes "books P Q M fz" "tables M fz"
  shows "books P Q M (finalizer_flush acc fz) \<and> fz_map (finalizer_flush acc fz) = [] \<and>
    attempts (fz_final (finalizer_flush acc fz)) = attempts (fz_final fz) @
      map (\<lambda>(_, p). \<lparr> fl_send = nr_send p, fl_match = None, fl_status = ''UNKNOWN_PENDING'' \<rparr>) (fz_map fz)"
  using flush_fold [OF tablesD(3) [OF assms(2)], of P Q M "fz\<lparr>fz_map := []\<rparr>" acc] assms(1) by (simp add: finalizer_flush_def)

lemma final_init_ok: "books P Q M (finalizer_init P Q now)" "tables M (finalizer_init P Q now)" "content (finalizer_init P Q now) = {#}"
  by (simp_all add: books_def tables_def content_def finalizer_init_def)

lemma run_keeps:
  fixes acc deadline ts P Q now
  defines "rounds \<equiv> final_rounds acc deadline ts (finalizer_init P Q now)"
  assumes "distinct (map sv_signature (sends_of rounds))"
  shows "keeps P Q (set (matches_of rounds)) (sends_of rounds) (finalizer_init P Q now)
    (finalize_loop acc deadline ts (finalizer_init P Q now))"
  unfolding finalize_loop_rounds rounds_def [symmetric]
  by (rule keeps_rounds [where es = "[]"]) (use assms in \<open>simp_all add: final_init_ok\<close>)

text \<open>The state the run ends in.\<close>

lemma run_final:
  fixes acc deadline ts P Q now
  defines "rounds \<equiv> final_rounds acc deadline ts (finalizer_init P Q now)"
    and "fz \<equiv> finalizer_run acc deadline ts (finalizer_init P Q now)"
  assumes "distinct (map sv_signature (sends_of rounds))"
  shows "books P Q (set (matches_of rounds)) fz" "fz_map fz = []"
    "mset (map fl_send (attempts (fz_final fz))) = mset (sends_of rounds)"
proof -
  let ?l = "finalize_loop acc deadline ts (finalizer_init P Q now)"
  have k: "keeps P Q (set (matches_of rounds)) (sends_of rounds) (finalizer_init P Q now) ?l"
    unfolding rounds_def by (rule run_keeps [OF assms(3) [unfolded rounds_def]])
  then have f: "attempts (fz_final fz) = attempts (fz_final ?l) @
      map (\<lambda>(_, p). \<lparr> fl_send = nr_send p, fl_match = None, fl_status = ''UNKNOWN_PENDING'' \<rparr>) (fz_map ?l)" "fz_map fz = []"
      "books P Q (set (matches_of rounds)) fz"
    using finalizer_flush_ok [of P Q _ ?l acc] unfolding keeps_def fz_def finalizer_run_def by blast+
  have "map fl_send (map (\<lambda>(_, p). \<lparr> fl_send = nr_send p, fl_match = None, fl_status = ''UNKNOWN_PENDING'' \<rparr>) (fz_map ?l)) =
      map (\<lambda>(_, p). nr_send p) (fz_map ?l)"
    by (auto simp: case_prod_unfold)
  then have "mset (map fl_send (attempts (fz_final fz))) = content ?l" unfolding f(1) content_def map_append mset_append by (simp only:)
  then show "mset (map fl_send (attempts (fz_final fz))) = mset (sends_of rounds)" "fz_map fz = []"
    "books P Q (set (matches_of rounds)) fz"
    using k f(2,3) by (simp_all add: keeps_def final_init_ok)
qed


text \<open>A final record is \<open>OBSERVED\<close> exactly when it carries a match, which is a received one of its own
  signature; the signatures of the others, in order, are what the RPC fallback is given; the recorded
  signatures are no longer pending, and the records the Parquet writer refused are counted.\<close>
theorem finalizer_books:
  fixes acc deadline ts P Q now
  defines "rounds \<equiv> final_rounds acc deadline ts (finalizer_init P Q now)"
    and "fz \<equiv> finalizer_run acc deadline ts (finalizer_init P Q now)"
  assumes "distinct (map sv_signature (sends_of rounds))"
  shows "list_all (record_right (set (matches_of rounds))) (attempts (fz_final fz)) \<and>
    fz_fallback fz = Q @ map record_sig (filter (\<lambda>r. fl_match r = None) (attempts (fz_final fz))) \<and>
    fz_pending_sigs fz = P - record_sig ` set (attempts (fz_final fz)) \<and>
    fz_final_queue_full fz = of_nat (refused (fz_final fz))"
  using run_final(1) [OF assms(3) [unfolded rounds_def]] unfolding books_def rounds_def fz_def .

section \<open>Within the deadline\<close>

definition timely :: "instant \<Rightarrow> bench_match_event list \<Rightarrow> finalizer \<Rightarrow> bool" where
  "timely lo ms fz \<longleftrightarrow> list_all (\<lambda>(_, p). lo \<le> nr_inserted_at p) (fz_map fz) \<and>
     list_all (\<lambda>r. fl_match r \<noteq> None) (attempts (fz_final fz)) \<and>
     list_all (\<lambda>m. map_of (fz_early fz) (me_signature m) \<noteq> None \<or>
       me_signature m \<in> record_sig ` set (attempts (fz_final fz))) ms"

lemma timely_send:
  assumes t: "tables M fz" and n: "map_of (fz_map fz) (sv_signature ev) = None" and i: "timely lo ms fz" and now: "lo \<le> now"
  shows "timely lo ms (take_send acc now ev fz)"
proof (cases "map_of (fz_early fz) (sv_signature ev)")
  case None
  then show ?thesis using i now
    by (auto simp: timely_def take_send_effect [OF t n] list_all_hm_insert)
next
  case (Some m)
  then show ?thesis using i
    by (auto simp: timely_def take_send_effect [OF t n] settle_attempts hm.lookup_remove list_all_iff)
qed

lemma timely_match:
  assumes t: "tables M fz" and i: "timely lo ms fz"
  shows "timely lo (ms @ [ev]) (take_match acc ev fz)"
proof (cases "map_of (fz_map fz) (me_signature ev)")
  case None
  then show ?thesis using i
    by (auto simp: timely_def take_match_effect [OF t] hm.lookup_insert list_all_iff)
next
  case (Some p)
  then show ?thesis using i tables_map_entry [OF t Some]
    by (auto simp: timely_def take_match_effect [OF t] settle_attempts list_all_hm_remove list_all_iff AList.delete_eq)
qed

lemma timely_sweep:
  assumes "timely lo ms fz" "now \<le> lo + d"
  shows "timely lo ms (final_sweep acc now d fz)"
proof -
  have "stale_sigs now d fz = []"
    using assms by (auto simp: stale_sigs_def timely_def list_all_iff saturating_duration_since_def filter_empty_conv)
  then show ?thesis using assms(1) by (simp add: final_sweep_def timely_def)
qed

definition on_time :: "instant \<Rightarrow> duration \<Rightarrow> final_turn \<Rightarrow> bool" where
  "on_time lo d t \<longleftrightarrow> lo \<le> fn_insert_at t \<and> fn_now t \<le> lo + d"

lemma timely_round:
  assumes "books P Q M fz" "tables M fz" "content fz = mset es" "distinct (map sv_signature (es @ sends_of [t]))"
    "timely lo ms fz" "on_time lo d t"
  shows "timely lo (ms @ matches_of [t]) (final_round acc d t fz)"
proof -
  have "timely lo (ms @ matches_of [t]) (final_input_step acc t fz)"
  proof (cases "fn_input t")
    case (FinalSend ev)
    then have "sv_signature ev \<notin> sv_signature ` set es" using assms(4) by auto
    then show ?thesis
      using timely_send [OF assms(2) not_in_table [OF assms(2,3)] assms(5)] assms(6) FinalSend
      by (simp add: final_input_step_def on_time_def)
  qed (use assms(5) timely_match [OF assms(2,5)] in \<open>simp_all add: final_input_step_def\<close>)
  then show ?thesis using timely_sweep assms(6) by (simp add: final_round_def on_time_def)
qed

lemma timely_rounds:
  "books P Q M fz \<Longrightarrow> tables M fz \<Longrightarrow> content fz = mset es \<Longrightarrow> distinct (map sv_signature (es @ sends_of ts)) \<Longrightarrow>
    set (matches_of ts) \<subseteq> M \<Longrightarrow> timely lo ms fz \<Longrightarrow> list_all (on_time lo d) ts \<Longrightarrow>
    timely lo (ms @ matches_of ts) (fold (final_round acc d) ts fz)"
proof (induction ts arbitrary: fz es ms)
  case (Cons t ts)
  have e: "sends_of (t # ts) = sends_of [t] @ sends_of ts" "matches_of (t # ts) = matches_of [t] @ matches_of ts"
    by simp_all
  have d: "distinct (map sv_signature (es @ sends_of [t]))" "set (matches_of [t]) \<subseteq> M"
    using Cons.prems(4,5) unfolding e by auto
  have k: "keeps P Q M (sends_of [t]) fz (final_round acc d t fz)" by (rule keeps_round [OF Cons.prems(1-3) d])
  have tm: "timely lo (ms @ matches_of [t]) (final_round acc d t fz)"
    using timely_round [OF Cons.prems(1-3) d(1) Cons.prems(6)] Cons.prems(7) by simp
  have b: "books P Q M (final_round acc d t fz)" "tables M (final_round acc d t fz)"
    "content (final_round acc d t fz) = mset (es @ sends_of [t])"
    using k Cons.prems(3) by (simp_all add: keeps_def)
  have r: "distinct (map sv_signature ((es @ sends_of [t]) @ sends_of ts))" "set (matches_of ts) \<subseteq> M" "list_all (on_time lo d) ts"
    using Cons.prems(4,5,7) unfolding e by simp_all
  show ?case using Cons.IH [OF b r(1,2) tm r(3)] unfolding e by simp
qed simp

lemma content_distinct:
  assumes "content fz = mset es" "distinct (map sv_signature es)"
  shows "distinct (map sv_signature (map fl_send (attempts (fz_final fz)) @ map (\<lambda>(_, p). nr_send p) (fz_map fz)))"
proof -
  have "mset (map fl_send (attempts (fz_final fz)) @ map (\<lambda>(_, p). nr_send p) (fz_map fz)) = mset es"
    using assms(1) by (simp add: content_def)
  then have "mset (map sv_signature (map fl_send (attempts (fz_final fz)) @ map (\<lambda>(_, p). nr_send p) (fz_map fz))) =
      mset (map sv_signature es)" by (metis mset_map)
  then show ?thesis using assms(2) mset_eq_imp_distinct_iff by blast
qed

lemma timely_table_unmatched:
  assumes "tables (set ms) fz" "timely lo ms fz"
    "distinct (map sv_signature (map fl_send (attempts (fz_final fz)) @ map (\<lambda>(_, p). nr_send p) (fz_map fz)))"
    "(sig, p) \<in> set (fz_map fz)"
  shows "sv_signature (nr_send p) \<notin> me_signature ` set ms"
proof
  assume "sv_signature (nr_send p) \<in> me_signature ` set ms"
  then obtain m where m: "m \<in> set ms" "me_signature m = sv_signature (nr_send p)" by auto
  have "map_of (fz_map fz) sig = Some p" using assms(1,4) tablesD(1) by (simp add: hm_inv_def)
  then have "map_of (fz_early fz) (sv_signature (nr_send p)) = None"
    using tables_map_entry [OF assms(1)] tablesD(5) [OF assms(1)] by fastforce
  then have "sv_signature (nr_send p) \<in> record_sig ` set (attempts (fz_final fz))"
    using assms(2) m unfolding timely_def list_all_iff by metis
  then show False using assms(3,4) by force
qed

lemma rounds_subset: "set (final_rounds acc d ts fz) \<subseteq> set ts"
  by (induction ts arbitrary: fz) auto



section \<open>Witnesses\<close>

definition demo_send_event :: "signature \<Rightarrow> bench_send_event" where
  "demo_send_event sig = \<lparr> sv_signature = sig, sv_schedule_slot = 100, sv_schedule_tick = 3, sv_trigger_observed_at = 1,
     sv_send_at = 2, sv_response_at = 3, sv_error = None \<rparr>"

definition demo_match_event :: "signature \<Rightarrow> bench_match_event" where
  "demo_match_event sig = \<lparr> me_signature = sig, me_observed_at = 9, me_observed_slot = 101, me_observed_entry_index = 4,
     me_observed_tick_in_slot = Some 2, me_observed_cumulative = Some 130000 \<rparr>"

definition demo_final_turn :: "final_input \<Rightarrow> final_turn" where
  "demo_final_turn x = \<lparr> fn_stop = False, fn_input = x, fn_insert_at = 10, fn_now = 20 \<rparr>"

definition demo_final_turns :: "final_turn list" where
  "demo_final_turns = map demo_final_turn [FinalMatch (demo_match_event 7), FinalSend (demo_send_event 7),
     FinalSend (demo_send_event 8), FinalSendsClosed]"

lemma demo_final_rounds:
  "final_rounds (\<lambda>_ _. True) 1000 demo_final_turns (finalizer_init {7, 8} [] 0) = map demo_final_turn
     [FinalMatch (demo_match_event 7), FinalSend (demo_send_event 7), FinalSend (demo_send_event 8)]"
  by (simp add: demo_final_turns_def demo_final_turn_def)


lemma finalizer_books_witness:
  "fz_pending_sigs (finalizer_run (\<lambda>_ _. True) 1000 demo_final_turns (finalizer_init {7, 8} [] 0)) = {7, 8} -
    record_sig ` set (attempts (fz_final (finalizer_run (\<lambda>_ _. True) 1000 demo_final_turns (finalizer_init {7, 8} [] 0))))"
  using finalizer_books [of "\<lambda>_ _. True" 1000 demo_final_turns "{7, 8}" "[]" 0] unfolding demo_final_rounds
  by (simp add: demo_final_turn_def demo_send_event_def)


text \<open>A second match of a signature that was already recorded stays in the table of early matches to the end
  of the run; nothing ever removes it.\<close>

lemma early_match_kept:
  "fz_early (finalizer_run (\<lambda>_ _. True) 1000 (map demo_final_turn [FinalSend (demo_send_event 7),
     FinalMatch (demo_match_event 7), FinalMatch (demo_match_event 7), FinalSendsClosed]) (finalizer_init {7} [] 0)) =
   [(7, demo_match_event 7)]"
  by (simp add: finalizer_run_def demo_final_turn_def final_round_def final_input_step_def take_send_def take_match_def Let_def
      emit_observed_def send_final_def try_send_def final_sweep_def finalizer_init_def saturating_duration_since_def
      finalizer_flush_def demo_send_event_def demo_match_event_def)

end
