(* ===== verification/Bench_Rows.thy ===== *)
theory Bench_Rows
  imports Bench_Writer
begin

text \<open>
  The rows of the older bench's Parquet file: the second interpretation of \<open>batch_columns\<close>. Every
  final record received is one row, and the two distances of a row, in ticks and in hashes, agree.
\<close>

record bench_row =
  br_schedule :: "u64 \<times> u8 \<times> pubkey option"
  br_send :: "signature \<times> u64 \<times> u64 \<times> u64 \<times> string option"
  br_observed :: "u64 option \<times> u64 option \<times> u32 option \<times> u8 option \<times> u64 option \<times> pubkey option"
  br_tick_delta :: "u32 option"
  br_slot_delta :: "u32 option"
  br_time_delta_ns :: "u64 option"
  br_hash_delta :: "u64 option"
  br_leader_changed :: "bool option"
  br_status :: string

definition read_bench_row :: "bench_columns \<Rightarrow> nat \<Rightarrow> bench_row" where
  "read_bench_row c i = \<lparr>
     br_schedule = (nc_schedule_slot c ! i, nc_schedule_tick c ! i, nc_schedule_leader c ! i),
     br_send = (nc_tx_signature c ! i, nc_trigger_observed_at_ns c ! i, nc_send_at_ns c ! i, nc_response_at_ns c ! i,
       nc_send_error c ! i),
     br_observed = (nc_observed_at_ns c ! i, nc_observed_slot c ! i, nc_observed_entry_index c ! i,
       nc_observed_tick_in_slot c ! i, nc_observed_cumulative c ! i, nc_observed_leader c ! i),
     br_tick_delta = nc_tick_delta c ! i, br_slot_delta = nc_slot_delta c ! i, br_time_delta_ns = nc_time_delta_ns c ! i,
     br_hash_delta = nc_hash_delta c ! i, br_leader_changed = nc_leader_changed c ! i, br_status = nc_status c ! i \<rparr>"

definition bench_rows :: "bench_columns \<Rightarrow> bench_row list" where
  "bench_rows c = map (read_bench_row c) [0..<bench_columns_len c]"

definition bench_row_of :: "(u64 \<Rightarrow> pubkey option) \<Rightarrow> instant \<Rightarrow> final_record \<Rightarrow> bench_row" where
  "bench_row_of leader anchor r = (let s = fl_send r; m = fl_match r in \<lparr>
     br_schedule = (sv_schedule_slot s, sv_schedule_tick s, leader (sv_schedule_slot s)),
     br_send = (sv_signature s, ns_between (sv_trigger_observed_at s) anchor, ns_between (sv_send_at s) anchor,
       ns_between (sv_response_at s) anchor, sv_error s),
     br_observed = (map_option (\<lambda>m. ns_between (me_observed_at m) anchor) m, map_option me_observed_slot m,
       map_option me_observed_entry_index m, Option.bind m me_observed_tick_in_slot, Option.bind m me_observed_cumulative,
       Option.bind m (\<lambda>m. leader (me_observed_slot m))),
     br_tick_delta = Option.bind m (tick_delta_of s), br_slot_delta = map_option (\<lambda>m. ucast (slot_diff_of s m)) m,
     br_time_delta_ns = map_option (\<lambda>m. ns_between (me_observed_at m) (sv_send_at s)) m,
     br_hash_delta = Option.bind m (hash_delta_of s), br_leader_changed = Option.bind m (leader_changed_of leader s),
     br_status = fl_status r \<rparr>)"

definition bench_rectangular :: "bench_columns \<Rightarrow> bool" where
  "bench_rectangular c \<longleftrightarrow> list_all (\<lambda>n. n = bench_columns_len c) [length (nc_schedule_tick c), length (nc_schedule_leader c),
     length (nc_tx_signature c), length (nc_trigger_observed_at_ns c), length (nc_send_at_ns c), length (nc_response_at_ns c),
     length (nc_send_error c), length (nc_observed_at_ns c), length (nc_observed_slot c), length (nc_observed_entry_index c),
     length (nc_observed_tick_in_slot c), length (nc_observed_cumulative c), length (nc_observed_leader c),
     length (nc_tick_delta c), length (nc_slot_delta c), length (nc_time_delta_ns c), length (nc_hash_delta c),
     length (nc_leader_changed c), length (nc_status c)]"

lemma bench_len_append [simp]: "bench_columns_len (append_final leader anchor r c) = Suc (bench_columns_len c)"
  by (simp add: bench_columns_len_def append_final_def Let_def)

lemma bench_rectangular_append: "bench_rectangular c \<Longrightarrow> bench_rectangular (append_final leader anchor r c)"
  by (simp add: bench_rectangular_def append_final_def bench_columns_len_def Let_def)

lemma bench_row_old:
  "bench_rectangular c \<Longrightarrow> i < bench_columns_len c \<Longrightarrow> read_bench_row (append_final leader anchor r c) i = read_bench_row c i"
  by (simp add: bench_rectangular_def read_bench_row_def append_final_def bench_columns_len_def nth_append Let_def)

lemma bench_row_new:
  "bench_rectangular c \<Longrightarrow> read_bench_row (append_final leader anchor r c) (bench_columns_len c) = bench_row_of leader anchor r"
  by (simp add: bench_rectangular_def read_bench_row_def append_final_def bench_columns_len_def nth_append bench_row_of_def Let_def)

lemma bench_rows_append:
  assumes "bench_rectangular c"
  shows "bench_rows (append_final leader anchor r c) = bench_rows c @ [bench_row_of leader anchor r]"
proof -
  have "map (read_bench_row (append_final leader anchor r c)) [0..<bench_columns_len c] =
      map (read_bench_row c) [0..<bench_columns_len c]"
    by (rule map_cong [OF refl]) (simp add: bench_row_old [OF assms])
  then show ?thesis by (simp add: bench_rows_def bench_row_new [OF assms])
qed

interpretation bench: batch_columns "append_final leader anchor" bench_columns_len bench_columns_new bench_rows
  "bench_row_of leader anchor" bench_rectangular
  for leader :: "u64 \<Rightarrow> pubkey option" and anchor :: instant
  by unfold_locales
    (simp_all add: bench_rows_append bench_rectangular_append,
      simp_all add: bench_rows_def bench_rectangular_def bench_columns_new_def bench_columns_len_def)

text \<open>The Parquet file of the older bench holds one row per final record, in order, whatever the batch
  size, the flush interval and the clock.\<close>
theorem bench_file_rows:
  assumes "list_ex (\<lambda>t. bt_input t = BatchDisconnected) ts"
  shows "concat (map bench_rows (attempts (bw_file (bench_parquet_run acc leader anchor rgs iv now ts)))) =
    map (bench_row_of leader anchor) (batch_received ts)"
  using bench.all_rows_written [OF assms, of acc leader anchor rgs iv now] by (simp add: bench_parquet_run_def)

section \<open>The distances of a row\<close>

text \<open>The match lies on or after the trigger, within a range where 32 bits suffice, and the tick and the
  cumulative hash count of the match agree, as they do in a slot of full ticks: \<open>rest\<close> hashes past the tick.\<close>

definition position_ok :: "nat \<Rightarrow> bench_send_event \<Rightarrow> bench_match_event \<Rightarrow> bool" where
  "position_ok rest s m \<longleftrightarrow> rest < 62500 \<and> sv_schedule_slot s \<le> me_observed_slot m \<and>
     unat (me_observed_slot m) - unat (sv_schedule_slot s) < 2 ^ 25 \<and>
     (case (me_observed_tick_in_slot m, me_observed_cumulative m) of
        (Some tick, Some h) \<Rightarrow> unat h = unat tick * 62500 + rest \<and>
          unat (sv_schedule_tick s) \<le> 64 * (unat (me_observed_slot m) - unat (sv_schedule_slot s)) + unat tick
      | _ \<Rightarrow> False)"


lemma unat_u8_less: "unat (t :: u8) < 256"
  using unat_lt [of t] by simp

lemma unat_ucast_u32: "unat (w :: u64) < 2 ^ 32 \<Longrightarrow> unat (ucast w :: u32) = unat w"
  by (simp add: unsigned_ucast_eq unsigned_take_bit_eq take_bit_nat_eq_self)

lemma unat_ucast_tick: "unat (ucast (t :: u8) :: u32) = unat t" "unat (ucast (t :: u8) :: u64) = unat t"
  using unat_u8_less [of t] by (simp_all add: unsigned_ucast_eq unsigned_take_bit_eq take_bit_nat_eq_self)


definition demo_bench_send :: bench_send_event where
  "demo_bench_send = \<lparr> sv_signature = 7, sv_schedule_slot = 100, sv_schedule_tick = 3, sv_trigger_observed_at = 1,
     sv_send_at = 2, sv_response_at = 3, sv_error = None \<rparr>"

definition demo_bench_match :: bench_match_event where
  "demo_bench_match = \<lparr> me_signature = 7, me_observed_at = 9, me_observed_slot = 101, me_observed_entry_index = 4,
     me_observed_tick_in_slot = Some 2, me_observed_cumulative = Some 130000 \<rparr>"

definition demo_final_record :: final_record where
  "demo_final_record = \<lparr> fl_send = demo_bench_send, fl_match = Some demo_bench_match, fl_status = ''OBSERVED'' \<rparr>"


lemma bench_file_rows_witness:
  "concat (map bench_rows (attempts (bw_file (bench_parquet_run (\<lambda>_ _. True) (\<lambda>_. None) 0 10 5 0
     [\<lparr> bt_input = BatchRecord demo_final_record, bt_flushed_at = 1, bt_checked_at = 2, bt_last_at = 3 \<rparr>,
      \<lparr> bt_input = BatchDisconnected, bt_flushed_at = 1, bt_checked_at = 2, bt_last_at = 3 \<rparr>])))) =
   [bench_row_of (\<lambda>_. None) 0 demo_final_record]"
  by (subst bench_file_rows) simp_all

end
