(* ===== verification/Bench_Pipeline.thy ===== *)
theory Bench_Pipeline
  imports Bench_Observer_Props Bench_Sender Bench_Writer_Props Bench_Rows "HOL-Library.Sublist"
begin

text \<open>
  The threads of \<open>crates/tick-trigger-bench\<close> together: the observer sends commands, the dispatcher turns
  them into send events, the finalizer pairs these with the observer's matches, and the Parquet writer
  stores the final records. Every channel is first in, first out, so what a thread has taken is a prefix
  of what the channel accepted.
\<close>

section \<open>Channels\<close>

lemma mset_prefix: "prefix xs ys \<Longrightarrow> mset xs \<subseteq># mset ys"
  by (auto simp: prefix_def)

lemma mset_delivered: "mset (delivered c) \<subseteq># mset (attempts c)"
  by (simp add: delivered_def attempts_def image_mset_subseteq_mono multiset_filter_subset)

lemma taken_subset: "prefix xs (delivered c) \<Longrightarrow> mset (map f xs) \<subseteq># mset (map f (attempts c))"
  using subset_mset.order_trans [OF mset_prefix mset_delivered] image_mset_subseteq_mono by fastforce

lemma distinct_submset: "mset xs \<subseteq># mset ys \<Longrightarrow> distinct ys \<Longrightarrow> distinct xs"
proof -
  assume s: "mset xs \<subseteq># mset ys" and d: "distinct ys"
  have le: "count (mset xs) a \<le> 1" for a
  proof -
    have "count (mset xs) a \<le> count (mset ys) a" using s by (simp add: subseteq_mset_def)
    also have "\<dots> \<le> 1" using d by (simp add: distinct_count_atmost_1)
    finally show ?thesis .
  qed
  have "count (mset xs) a = (if a \<in> set xs then 1 else 0)" for a
  proof (cases "a \<in> set xs")
    case True
    then have "0 < count (mset xs) a" by simp
    then have "count (mset xs) a = 1" using le [of a] by linarith
    then show ?thesis using True by simp
  qed (simp add: count_eq_zero_iff)
  then show ?thesis by (simp add: distinct_count_atmost_1)
qed

lemma taken_distinct: "prefix xs (delivered c) \<Longrightarrow> distinct (map f (attempts c)) \<Longrightarrow> distinct (map f xs)"
  using taken_subset distinct_submset by blast

lemma taken_set: "prefix xs (delivered c) \<Longrightarrow> set xs \<subseteq> set (attempts c)"
  using set_mset_mono [OF subset_mset.order_trans [OF mset_prefix mset_delivered]] by simp

section \<open>From the commands to the rows\<close>

definition id_key :: "signature \<times> u64 \<times> u8 \<times> instant \<Rightarrow> u64 \<times> u8" where
  "id_key x = (fst (snd x), fst (snd (snd x)))"

definition event_key :: "bench_send_event \<Rightarrow> u64 \<times> u8" where
  "event_key ev = (sv_schedule_slot ev, sv_schedule_tick ev)"

definition row_key :: "bench_row \<Rightarrow> u64 \<times> u8" where
  "row_key r = (fst (br_schedule r), fst (snd (br_schedule r)))"

lemma id_key_simps: "id_key (command_id cmd) = command_key cmd" "id_key (event_id ev) = event_key ev"
  by (simp_all add: id_key_def command_id_def event_id_def command_key_def event_key_def)

lemma row_key_of: "row_key (bench_row_of leader anchor r) = event_key (fl_send r)"
  by (simp add: row_key_def bench_row_of_def event_key_def Let_def)

text \<open>The send events are among the commands, by identity.\<close>

lemma events_among_commands:
  assumes "bench_send_run acc hv hl max_age k (bench_dispatcher_init P c) cmds bd"
  shows "mset (map (f \<circ> event_id) (attempts (bd_events bd))) \<subseteq># mset (map (f \<circ> command_id) cmds)"
proof -
  obtain X where "mset (map command_id cmds) = open_ids bd + mset (map event_id (attempts (bd_events bd))) + X"
    using send_run_accounted [OF assms] by (auto simp: ids_balance_def)
  then have "mset (map event_id (attempts (bd_events bd))) \<subseteq># mset (map command_id cmds)" by simp
  then have "image_mset f (mset (map event_id (attempts (bd_events bd)))) \<subseteq># image_mset f (mset (map command_id cmds))"
    by (rule image_mset_subseteq_mono)
  then show ?thesis by (simp only: mset_map [symmetric] map_map)
qed

text \<open>What a row shows of the match it was written for.\<close>

definition row_shows :: "(u64 \<Rightarrow> pubkey option) \<Rightarrow> instant \<Rightarrow> bench_match_event set \<Rightarrow> bench_row \<Rightarrow> bool" where
  "row_shows leader anchor M r \<longleftrightarrow>
    (br_status r = ''UNKNOWN_PENDING'' \<and> br_observed r = (None, None, None, None, None, None)) \<or>
    (br_status r = ''OBSERVED'' \<and> (\<exists>m\<in>M. me_signature m = fst (br_send r) \<and>
       br_observed r = (Some (ns_between (me_observed_at m) anchor), Some (me_observed_slot m), Some (me_observed_entry_index m),
         me_observed_tick_in_slot m, me_observed_cumulative m, leader (me_observed_slot m))))"

lemma row_shows_right: "record_right M r \<Longrightarrow> row_shows leader anchor M (bench_row_of leader anchor r)"
  by (cases "fl_match r") (auto simp: record_right_def row_shows_def bench_row_of_def Let_def)

lemma record_right_mono: "record_right M r \<Longrightarrow> M \<subseteq> M' \<Longrightarrow> record_right M' r"
  by (auto simp: record_right_def)


section \<open>Witness\<close>

text \<open>Slot 101 after a warm-up slot: tick 1 is scheduled, its transaction 9 is sent and then seen in an entry.\<close>

definition demo_bench_tx :: bench_tx where
  "demo_bench_tx = \<lparr> bx_serialized = [], bx_signature = 9, bx_blockhash = 0, bx_built_at = 0 \<rparr>"

definition demo_tx_entry :: entry_observation where
  "demo_tx_entry = demo_obs 101 1 3 1\<lparr>obs_signatures := [9]\<rparr>"

definition demo_run :: "bench_turn list" where
  "demo_run = [BenchEntry (demo_obs 100 0 1 0) {}, BenchPoolChange (\<lambda>_. [((101, 1), demo_bench_tx)]),
     BenchEntry (demo_obs 101 0 2 0) {}, BenchEntry demo_tx_entry {9}]"

definition demo_run_end :: bench_observer where
  "demo_run_end = bench_observer_loop demo_bench_env {(101, 1)} demo_run (bench_observer_init 0 bench_counters_default)"

definition demo_run_command :: send_command where
  "demo_run_command = \<lparr> sk_tx = demo_bench_tx, sk_schedule_slot = 101, sk_schedule_tick = 1, sk_trigger_observed_at = 0 \<rparr>"

definition demo_run_match :: bench_match_event where
  "demo_run_match = \<lparr> me_signature = 9, me_observed_at = 0, me_observed_slot = 101, me_observed_entry_index = 1,
     me_observed_tick_in_slot = Some 1, me_observed_cumulative = Some 125000 \<rparr>"

lemma demo_warm: "bench_observe demo_bench_env sch {} (demo_obs 100 0 1 0) (bench_observer_init 0 c) =
    bench_observer_init 0 c\<lparr> bo_current := 100, bo_first := Some 100 \<rparr>"
  by (simp add: bench_observe_def bench_observer_init_def retain_slots_def demo_obs_def)

lemma demo_tick: "\<exists>c' ch. bench_observe demo_bench_env {(101, 1)} {} (demo_obs 101 0 2 0)
      (bench_observer_init 0 c\<lparr> bo_current := 100, bo_first := Some 100, bo_pool := [((101, 1), demo_bench_tx)] \<rparr>) =
    \<lparr> bo_slots = [(101, \<lparr> bs_tick_idx = 1, bs_hash_count = 0, bs_cumulative = 62500, bs_seen = {2} \<rparr>)], bo_first = Some 100,
      bo_current = 101, bo_pool = [], bo_ticks = ch, bo_sends = [(demo_run_command, True)], bo_matches = [], bo_counters = c' \<rparr>"
  by (simp add: bench_observe_def bench_observer_init_def retain_slots_def demo_obs_def observe_hashes_def slot_entry_seen_def
      slot_state_default_def count_entry_def tick_done_def BENCH_HASHES_PER_TICK_def saturating_add_def
      tick_actions_def try_send_def demo_bench_env_def check_schedule_def fire_tick_def bench_pool_take_def demo_run_command_def Let_def)

lemma demo_match: "\<exists>o1. bench_observe demo_bench_env {(101, 1)} {9} demo_tx_entry
    \<lparr> bo_slots = [(101, \<lparr> bs_tick_idx = 1, bs_hash_count = 0, bs_cumulative = 62500, bs_seen = {2} \<rparr>)], bo_first = Some 100,
      bo_current = 101, bo_pool = [], bo_ticks = ch, bo_sends = [(demo_run_command, True)], bo_matches = [], bo_counters = c' \<rparr> = o1 \<and>
    bo_sends o1 = [(demo_run_command, True)] \<and> bo_matches o1 = [(demo_run_match, True)]"
  by (simp add: bench_observe_def demo_tx_entry_def retain_slots_def demo_obs_def observe_hashes_def slot_entry_seen_def
      count_entry_def tick_done_def BENCH_HASHES_PER_TICK_def saturating_add_def report_match_def match_event_of_def
      try_send_def demo_bench_env_def demo_run_match_def Let_def)

lemma demo_run_chans:
  "bo_sends demo_run_end = [(demo_run_command, True)]" "bo_matches demo_run_end = [(demo_run_match, True)]"
proof -
  have r: "demo_run_end = bench_observe demo_bench_env {(101, 1)} {9} demo_tx_entry
    (bench_observe demo_bench_env {(101, 1)} {} (demo_obs 101 0 2 0) (bench_observer_init 0 bench_counters_default
      \<lparr> bo_current := 100, bo_first := Some 100, bo_pool := [((101, 1), demo_bench_tx)] \<rparr>))"
    by (simp add: demo_run_end_def demo_run_def demo_warm)
  show "bo_sends demo_run_end = [(demo_run_command, True)]" "bo_matches demo_run_end = [(demo_run_match, True)]"
    using demo_tick [of bench_counters_default] demo_match unfolding r by (metis (no_types))+
qed

text \<open>The dispatcher sends the command and gets a reply, the finalizer pairs it with the match.\<close>

definition demo_run_event :: bench_send_event where
  "demo_run_event = send_event_of demo_run_command 11 20 (Inr ''sig'')"

definition demo_run_rounds :: "final_turn list" where
  "demo_run_rounds = map demo_final_turn [FinalSend demo_run_event, FinalMatch demo_run_match]"

definition demo_run_record :: final_record where
  "demo_run_record = \<lparr> fl_send = demo_run_event, fl_match = Some demo_run_match, fl_status = ''OBSERVED'' \<rparr>"

definition demo_batches :: "final_record batch_turn list" where
  "demo_batches = [\<lparr> bt_input = BatchRecord demo_run_record, bt_flushed_at = 1, bt_checked_at = 2, bt_last_at = 3 \<rparr>,
     \<lparr> bt_input = BatchDisconnected, bt_flushed_at = 1, bt_checked_at = 2, bt_last_at = 3 \<rparr>]"

lemma demo_send_run: "\<exists>bd. bench_send_run (\<lambda>_ _. True) demo_helius_codec (helius_client_new ''http://x/'' None True) 50 8
    (bench_dispatcher_init {} bench_counters_default) [demo_run_command] bd \<and> bd_events bd = [(demo_run_event, True)]"
proof -
  let ?hl = "helius_client_new ''http://x/'' None True" and ?i = "bench_dispatcher_init {} bench_counters_default"
  let ?run = "bench_send_run (\<lambda>_ _. True) demo_helius_codec ?hl 50 8 ?i"
  let ?q = "?i\<lparr>bd_queue := [demo_run_command]\<rparr>"
  let ?b = "process_start demo_helius_codec ?hl 50 10 11 demo_run_command (?q\<lparr>bd_queue := []\<rparr>)"
  let ?e = "process_finish (\<lambda>_ _. True) demo_helius_codec ?hl demo_run_command 11 (Http_Response 200 (Some ''ok'')) 20
    (?b\<lparr>bd_inflight := []\<rparr>)"
  have 1: "?run [demo_run_command] ?q"
    using bench_send_run.arrive [OF bench_send_run.idle, of _ _ _ _ _ ?i demo_run_command] by (simp add: bench_dispatcher_init_def)
  have 2: "?run [demo_run_command] ?b"
    by (rule bench_send_run.launch [OF 1]) (simp_all add: bench_dispatcher_init_def)
  have i: "bd_inflight ?b = [(demo_run_command, 11)]" "bd_events ?b = []"
    by (simp_all add: process_start_def demo_run_command_def demo_bench_tx_def bench_dispatcher_init_def saturating_duration_since_def)
  have "?run [demo_run_command] ?e"
    using bench_send_run.reply [OF 2, of "[]" demo_run_command 11 "[]" "Http_Response 200 (Some ''ok'')" 20] i(1) by simp
  moreover have "send_raw demo_helius_codec ?hl (bx_serialized (sk_tx demo_run_command)) (Http_Response 200 (Some ''ok'')) = Inr ''sig''"
    by (simp add: send_raw_def helius_request_def helius_reply_def demo_helius_codec_def Let_def is_success_def)
  then have "bd_events ?e = [(demo_run_event, True)]"
    using i(2) by (simp add: process_finish_def Let_def try_send_def demo_run_event_def)
  ultimately show ?thesis by blast
qed

lemma demo_run_finals:
  "final_rounds (\<lambda>_ _. True) 1000 demo_run_rounds (finalizer_init {9} [] 0) = demo_run_rounds"
  "fz_final (finalizer_run (\<lambda>_ _. True) 1000 demo_run_rounds (finalizer_init {9} [] 0)) = [(demo_run_record, True)]"
  by (simp_all add: demo_run_rounds_def demo_final_turn_def finalizer_run_def final_round_def final_input_step_def
      take_send_def take_match_def Let_def emit_observed_def send_final_def try_send_def final_sweep_def finalizer_init_def
      saturating_duration_since_def finalizer_flush_def demo_run_event_def demo_run_match_def demo_run_command_def
      demo_bench_tx_def send_event_of_def demo_run_record_def)


end
