(* ===== verification/Bench_Preparer.thy ===== *)
theory Bench_Preparer
  imports Bench_Pool Tx_Builder
begin

text \<open>
  \<open>build_self_transfer\<close> of \<open>crates/tick-trigger-bench/src/wallet.rs\<close> and the thread of
  \<open>preparer.rs\<close>, which keeps a signed transaction in the pool for every scheduled tick of the next
  slots. Message compilation, signing and \<open>bincode\<close> belong to \<open>solana_sdk\<close>: \<open>sign\<close> and
  \<open>encode\<close> are parameters. A cycle is what the RPC node and the clocks return in it.
\<close>

section \<open>The transaction\<close>

record bench_wallet =
  bv_payer :: pubkey
  bv_tip_account :: pubkey
  bv_priority_fee :: u64
  bv_tip_lamports :: u64

definition self_transfer_instructions :: "bench_wallet \<Rightarrow> u64 \<Rightarrow> instruction list" where
  "self_transfer_instructions w amount =
     (if bv_priority_fee w > 0 then [SetComputeUnitPrice (bv_priority_fee w)] else []) @
     [SetComputeUnitLimit 2000] @
     (if bv_tip_lamports w > 0 then [Transfer (bv_payer w) (bv_tip_account w) (bv_tip_lamports w)] else []) @
     [Transfer (bv_payer w) (bv_payer w) amount]"

definition build_self_transfer :: "bench_wallet \<Rightarrow> u64 \<Rightarrow> hash \<Rightarrow> transaction" where
  "build_self_transfer w amount blockhash = \<lparr> tx_payer = bv_payer w,
     tx_instructions = self_transfer_instructions w amount, tx_blockhash = blockhash \<rparr>"

section \<open>The preparer\<close>

definition BLOCKHASH_MAX_AGE :: duration where "BLOCKHASH_MAX_AGE = 50 * 1000000000"

record bench_preparer_cfg =
  bf_schedule :: "schedule_entry list"
  bf_wallet :: bench_wallet
  bf_sign :: "transaction \<Rightarrow> signature"
  bf_encode :: "transaction \<Rightarrow> bytes"
  bf_look_ahead_slots :: u64
  bf_amount_lamports :: u64

record bench_preparer =
  bq_signed :: "(bench_key, instant) hash_map"
  bq_pool :: bench_pool
  bq_counters :: bench_counters

definition bench_preparer_init :: "bench_counters \<Rightarrow> bench_preparer" where
  "bench_preparer_init c = \<lparr> bq_signed = [], bq_pool = [], bq_counters = c \<rparr>"

definition expired_signed :: "instant \<Rightarrow> bench_preparer \<Rightarrow> bench_key list" where
  "expired_signed now bq = map fst (filter (\<lambda>(_, built). BLOCKHASH_MAX_AGE \<le> saturating_duration_since now built) (bq_signed bq))"

definition evict_signed :: "bench_key \<Rightarrow> bench_preparer \<Rightarrow> bench_preparer" where
  "evict_signed key bq = bq\<lparr> bq_signed := hm_remove key (bq_signed bq),
     bq_pool := snd (bench_pool_take (fst key) (snd key) (bq_pool bq)) \<rparr>"

definition in_window :: "bench_preparer_cfg \<Rightarrow> u64 \<Rightarrow> schedule_entry \<Rightarrow> bool" where
  "in_window bf now_slot e \<longleftrightarrow> \<not> (se_slot e < now_slot \<or> now_slot + bf_look_ahead_slots bf \<le> se_slot e)"

definition prepared_tx :: "bench_preparer_cfg \<Rightarrow> hash \<Rightarrow> nat \<Rightarrow> instant \<Rightarrow> bench_tx" where
  "prepared_tx bf blockhash n built_at =
    (let tx = build_self_transfer (bf_wallet bf) (saturating_add (bf_amount_lamports bf) (of_nat n)) blockhash
     in \<lparr> bx_serialized = bf_encode bf tx, bx_signature = bf_sign bf tx, bx_blockhash = blockhash, bx_built_at = built_at \<rparr>)"

text \<open>One entry of the schedule; \<open>clock n\<close> is the time at which the n-th transaction of the cycle is built.\<close>

definition sign_entry ::
  "bench_preparer_cfg \<Rightarrow> hash \<Rightarrow> (nat \<Rightarrow> instant) \<Rightarrow> u64 \<Rightarrow> schedule_entry \<Rightarrow> nat \<times> bench_preparer \<Rightarrow> nat \<times> bench_preparer" where
  "sign_entry bf blockhash clock now_slot e st = (case st of (n, bq) \<Rightarrow>
    (let key = (se_slot e, se_tick e)
     in if \<not> in_window bf now_slot e \<or> map_of (bq_signed bq) key \<noteq> None then (n, bq)
        else (n + 1, bq\<lparr>
          bq_pool := snd (bench_pool_insert (se_slot e) (se_tick e) (prepared_tx bf blockhash n (clock n)) (bq_pool bq)),
          bq_signed := hm_insert key (clock n) (bq_signed bq) \<rparr>)))"

text \<open>What a cycle meets: the reply of the RPC node, the clock, the slot the observer has reached and what
  the observer took from the pool since.\<close>

record bench_cycle =
  by_taken :: "bench_key list"
  by_blockhash :: "hash option"
  by_now :: instant
  by_now_slot :: u64
  by_clock :: "nat \<Rightarrow> instant"

datatype cycle_end = BlockhashFailed | ObserverNotStarted | CycleComplete nat nat

definition bench_cycle_step :: "bench_preparer_cfg \<Rightarrow> bench_cycle \<Rightarrow> bench_preparer \<Rightarrow> bench_preparer \<times> cycle_end" where
  "bench_cycle_step bf cy bq0 =
    (let bq = bq0\<lparr>bq_pool := fold (\<lambda>k p. snd (bench_pool_take (fst k) (snd k) p)) (by_taken cy) (bq_pool bq0)\<rparr>
     in case by_blockhash cy of
       None \<Rightarrow> (bq\<lparr>bq_counters := (bq_counters bq)\<lparr>tc_preparer_blockhash_fail := tc_preparer_blockhash_fail (bq_counters bq) + 1\<rparr>\<rparr>,
          BlockhashFailed)
     | Some bh \<Rightarrow> (let bq1 = fold evict_signed (expired_signed (by_now cy) bq) bq
         in if by_now_slot cy = 0 then (bq1, ObserverNotStarted)
            else (let (n, bq2) = fold (sign_entry bf bh (by_clock cy) (by_now_slot cy)) (bf_schedule bf) (0, bq1);
                      (pruned, pool) = bench_pool_prune (saturating_sub (by_now_slot cy) 2) (bq_pool bq2)
                  in (bq2\<lparr>bq_pool := pool\<rparr>, CycleComplete n pruned))))"

definition bench_preparer_loop :: "bench_preparer_cfg \<Rightarrow> bench_cycle list \<Rightarrow> bench_preparer \<Rightarrow> bench_preparer" where
  "bench_preparer_loop bf cycles bq = fold (\<lambda>cy b. fst (bench_cycle_step bf cy b)) cycles bq"

section \<open>The pool is what was signed\<close>

definition bench_pool_ok :: "bench_preparer \<Rightarrow> bool" where
  "bench_pool_ok bq \<longleftrightarrow> hm_inv (bq_signed bq) \<and> hm_inv (bq_pool bq) \<and>
     (\<forall>k tx. map_of (bq_pool bq) k = Some tx \<longrightarrow> map_of (bq_signed bq) k = Some (bx_built_at tx))"

lemma bench_pool_okI:
  assumes "hm_inv (bq_signed bq)" "hm_inv (bq_pool bq)"
    "\<And>k tx. map_of (bq_pool bq) k = Some tx \<Longrightarrow> map_of (bq_signed bq) k = Some (bx_built_at tx)"
  shows "bench_pool_ok bq"
  using assms unfolding bench_pool_ok_def by blast

lemma bench_pool_okD:
  assumes "bench_pool_ok bq"
  shows "hm_inv (bq_signed bq)" "hm_inv (bq_pool bq)"
    "map_of (bq_pool bq) k = Some tx \<Longrightarrow> map_of (bq_signed bq) k = Some (bx_built_at tx)"
  using assms unfolding bench_pool_ok_def by blast+

lemma bench_pool_ok_take: "bench_pool_ok bq \<Longrightarrow> bench_pool_ok (bq\<lparr>bq_pool := snd (bench_pool_take s t (bq_pool bq))\<rparr>)"
  by (rule bench_pool_okI) (auto simp: bench_pool_okD bench_pool_inv bench_pool_simps split: if_splits)

lemma bench_pool_ok_takes: "bench_pool_ok bq \<Longrightarrow> bench_pool_ok (bq\<lparr>bq_pool := fold (\<lambda>k p. snd (bench_pool_take (fst k) (snd k) p)) ks (bq_pool bq)\<rparr>)"
proof (induction ks arbitrary: bq)
  case (Cons k ks)
  from Cons.IH [OF bench_pool_ok_take [OF Cons.prems, of "fst k" "snd k"]] show ?case by simp
qed simp

lemma bench_pool_ok_evict: "bench_pool_ok bq \<Longrightarrow> bench_pool_ok (evict_signed key bq)"
  unfolding evict_signed_def
  by (rule bench_pool_okI) (auto simp: bench_pool_okD bench_pool_inv bench_pool_simps hm.invar_remove hm.lookup_remove split: if_splits)

lemma bench_pool_ok_evicts: "bench_pool_ok bq \<Longrightarrow> bench_pool_ok (fold evict_signed ks bq)"
  by (induction ks arbitrary: bq) (simp_all add: bench_pool_ok_evict)

lemma built_prepared [simp]: "bx_built_at (prepared_tx bf bh n t) = t"
  by (simp add: prepared_tx_def Let_def)

lemma bench_pool_ok_sign: "bench_pool_ok (snd st) \<Longrightarrow> bench_pool_ok (snd (sign_entry bf bh clock slot e st))"
  unfolding sign_entry_def case_prod_unfold Let_def
  by (cases "\<not> in_window bf slot e \<or> map_of (bq_signed (snd st)) (se_slot e, se_tick e) \<noteq> None")
    (auto intro!: bench_pool_okI simp: bench_pool_okD bench_pool_inv bench_pool_simps hm.invar_insert hm.lookup_insert split: if_splits)

lemma bench_pool_ok_signs: "bench_pool_ok (snd st) \<Longrightarrow> bench_pool_ok (snd (fold (sign_entry bf bh clock slot) es st))"
  by (induction es arbitrary: st) (simp_all add: bench_pool_ok_sign)

lemma bench_pool_ok_prune: "bench_pool_ok bq \<Longrightarrow> bench_pool_ok (bq\<lparr>bq_pool := snd (bench_pool_prune c (bq_pool bq))\<rparr>)"
  by (rule bench_pool_okI) (auto simp: bench_pool_okD bench_pool_inv bench_pool_pruned split: if_splits)


lemma bench_pool_ok_cycle: "bench_pool_ok bq \<Longrightarrow> bench_pool_ok (fst (bench_cycle_step bf cy bq))"
proof -
  assume ok: "bench_pool_ok bq"
  let ?t = "bq\<lparr>bq_pool := fold (\<lambda>k p. snd (bench_pool_take (fst k) (snd k) p)) (by_taken cy) (bq_pool bq)\<rparr>"
  have t: "bench_pool_ok ?t" by (rule bench_pool_ok_takes [OF ok])
  show ?thesis
  proof (cases "by_blockhash cy")
    case None
    have "bench_pool_ok (?t\<lparr>bq_counters := c\<rparr>)" for c using t by (simp add: bench_pool_ok_def)
    then show ?thesis using None by (simp add: bench_cycle_step_def Let_def)
  next
    case (Some bh)
    let ?e = "fold evict_signed (expired_signed (by_now cy) ?t) ?t"
    have e: "bench_pool_ok ?e" by (rule bench_pool_ok_evicts [OF t])
    let ?s = "fold (sign_entry bf bh (by_clock cy) (by_now_slot cy)) (bf_schedule bf) (0, ?e)"
    have "bench_pool_ok (snd ?s)" by (rule bench_pool_ok_signs) (simp add: e)
    then show ?thesis using Some e bench_pool_ok_prune
      by (simp add: bench_cycle_step_def Let_def case_prod_unfold)
  qed
qed

lemma bench_pool_ok_loop: "bench_pool_ok bq \<Longrightarrow> bench_pool_ok (bench_preparer_loop bf cycles bq)"
  unfolding bench_preparer_loop_def by (induction cycles arbitrary: bq) (simp_all add: bench_pool_ok_cycle)

lemma bench_pool_ok_init: "bench_pool_ok (bench_preparer_init c)"
  by (simp add: bench_pool_ok_def bench_preparer_init_def)

section \<open>A cycle covers its window\<close>

definition signed_at :: "bench_preparer \<Rightarrow> bench_key \<Rightarrow> instant option" where
  "signed_at bq k = map_of (bq_signed bq) k"

definition signed_fresh :: "instant \<Rightarrow> bench_preparer \<Rightarrow> bool" where
  "signed_fresh now bq \<longleftrightarrow> (\<forall>k b. signed_at bq k = Some b \<longrightarrow> saturating_duration_since now b < BLOCKHASH_MAX_AGE)"

lemma signed_evicts: "signed_at (fold evict_signed ks bq) k = (if k \<in> set ks then None else signed_at bq k)"
  by (induction ks arbitrary: bq) (auto simp: signed_at_def evict_signed_def hm.lookup_remove)

lemma signed_fresh_evicts:
  assumes "bench_pool_ok bq"
  shows "signed_fresh now (fold evict_signed (expired_signed now bq) bq)"
proof -
  have "k \<in> set (expired_signed now bq)" if "signed_at bq k = Some b" "\<not> saturating_duration_since now b < BLOCKHASH_MAX_AGE" for k b
    using that map_of_SomeD [of "bq_signed bq" k b] by (force simp: expired_signed_def signed_at_def)
  then show ?thesis by (auto simp: signed_fresh_def signed_evicts)
qed

lemma signed_sign:
  "signed_at (snd (sign_entry bf bh clock slot e st)) k =
    (if in_window bf slot e \<and> signed_at (snd st) (se_slot e, se_tick e) = None \<and> k = (se_slot e, se_tick e)
     then Some (clock (fst st)) else signed_at (snd st) k)"
  by (simp add: sign_entry_def Let_def case_prod_unfold signed_at_def hm.lookup_insert)

lemma signed_signs:
  "signed_at (snd st) k = Some b \<Longrightarrow> signed_at (snd (fold (sign_entry bf bh clock slot) es st)) k = Some b"
proof (induction es arbitrary: st)
  case (Cons e es)
  have "signed_at (snd (sign_entry bf bh clock slot e st)) k = Some b" using Cons.prems by (auto simp: signed_sign)
  then show ?case by (simp add: Cons.IH)
qed simp

lemma window_signed:
  "list_all (\<lambda>e. in_window bf slot e \<longrightarrow> signed_at (snd (fold (sign_entry bf bh clock slot) es st)) (se_slot e, se_tick e) \<noteq> None) es"
proof (induction es arbitrary: st)
  case (Cons e es)
  have "signed_at (snd (sign_entry bf bh clock slot e st)) (se_slot e, se_tick e) \<noteq> None" if "in_window bf slot e"
    using that by (simp add: signed_sign)
  then show ?case using Cons signed_signs by (cases "in_window bf slot e") fastforce+
qed simp

lemma signed_fresh_signs:
  assumes "\<And>n. now \<le> clock n"
  shows "signed_fresh now (snd st) \<Longrightarrow> signed_fresh now (snd (fold (sign_entry bf bh clock slot) es st))"
proof (induction es arbitrary: st)
  case (Cons e es)
  have "signed_fresh now (snd (sign_entry bf bh clock slot e st))"
    using Cons.prems assms by (auto simp: signed_fresh_def signed_sign saturating_duration_since_def BLOCKHASH_MAX_AGE_def)
  then show ?case by (simp add: Cons.IH)
qed simp

text \<open>The keys of the pool are keys of the schedule.\<close>

definition pool_keys_in :: "bench_key set \<Rightarrow> bench_preparer \<Rightarrow> bool" where
  "pool_keys_in K bq \<longleftrightarrow> (\<forall>k. map_of (bq_pool bq) k \<noteq> None \<longrightarrow> k \<in> K)"

lemma map_of_pool_takes:
  "map_of (fold (\<lambda>k p. snd (bench_pool_take (fst k) (snd k) p)) ks p) k = (if k \<in> set ks then None else map_of p k)"
  by (induction ks arbitrary: p) (auto simp: bench_pool_simps)

lemma pool_evicts: "map_of (bq_pool (fold evict_signed ks bq)) k = (if k \<in> set ks then None else map_of (bq_pool bq) k)"
  by (induction ks arbitrary: bq) (auto simp: evict_signed_def bench_pool_simps)

lemma pool_sign:
  "map_of (bq_pool (snd (sign_entry bf bh clock slot e st))) k =
    (if in_window bf slot e \<and> signed_at (snd st) (se_slot e, se_tick e) = None \<and> k = (se_slot e, se_tick e)
     then Some (prepared_tx bf bh (fst st) (clock (fst st))) else map_of (bq_pool (snd st)) k)"
  by (simp add: sign_entry_def Let_def case_prod_unfold signed_at_def bench_pool_simps)

lemma pool_keys_signs:
  "pool_keys_in K (snd st) \<Longrightarrow> (\<lambda>e. (se_slot e, se_tick e)) ` set es \<subseteq> K \<Longrightarrow>
    pool_keys_in K (snd (fold (sign_entry bf bh clock slot) es st))"
proof (induction es arbitrary: st)
  case (Cons e es)
  have "pool_keys_in K (snd (sign_entry bf bh clock slot e st))"
    using Cons.prems by (simp add: pool_keys_in_def pool_sign)
  then show ?case using Cons by simp
qed simp

abbreviation schedule_keys :: "bench_preparer_cfg \<Rightarrow> bench_key set" where
  "schedule_keys bf \<equiv> (\<lambda>e. (se_slot e, se_tick e)) ` set (bf_schedule bf)"

lemma pool_keys_cycle:
  assumes "pool_keys_in (schedule_keys bf) bq"
  shows "pool_keys_in (schedule_keys bf) (fst (bench_cycle_step bf cy bq))"
proof (cases "by_blockhash cy")
  case None
  then show ?thesis using assms by (simp add: bench_cycle_step_def Let_def pool_keys_in_def map_of_pool_takes)
next
  case (Some bh)
  let ?t = "bq\<lparr>bq_pool := fold (\<lambda>k p. snd (bench_pool_take (fst k) (snd k) p)) (by_taken cy) (bq_pool bq)\<rparr>"
  let ?e = "fold evict_signed (expired_signed (by_now cy) ?t) ?t"
  let ?s = "fold (sign_entry bf bh (by_clock cy) (by_now_slot cy)) (bf_schedule bf) (0, ?e)"
  have e: "pool_keys_in (schedule_keys bf) ?e" using assms by (simp add: pool_keys_in_def pool_evicts map_of_pool_takes)
  have "pool_keys_in (schedule_keys bf) (snd ?s)" by (rule pool_keys_signs) (simp_all add: e)
  then show ?thesis using Some e
    by (simp add: bench_cycle_step_def Let_def case_prod_unfold pool_keys_in_def bench_pool_pruned)
qed

lemma pool_keys_loop:
  "pool_keys_in (schedule_keys bf) bq \<Longrightarrow> pool_keys_in (schedule_keys bf) (bench_preparer_loop bf cycles bq)"
  unfolding bench_preparer_loop_def by (induction cycles arbitrary: bq) (simp_all add: pool_keys_cycle)

text \<open>When a cycle completes, every scheduled tick of the next \<open>look_ahead_slots\<close> slots has been signed,
  and the pool holds only transactions for scheduled ticks that are not past, none of them built 50 seconds
  or more before the cycle.\<close>
theorem bench_prepares_window:
  fixes bf cycles c cy
  defines "bq \<equiv> fst (bench_cycle_step bf cy (bench_preparer_loop bf cycles (bench_preparer_init c)))"
  assumes "by_blockhash cy = Some bh" "by_now_slot cy \<noteq> 0" "\<And>n. by_now cy \<le> by_clock cy n"
  shows "list_all (\<lambda>e. in_window bf (by_now_slot cy) e \<longrightarrow> signed_at bq (se_slot e, se_tick e) \<noteq> None) (bf_schedule bf) \<and>
    list_all (\<lambda>(k, tx). k \<in> schedule_keys bf \<and> saturating_sub (by_now_slot cy) 2 \<le> fst k \<and>
      saturating_duration_since (by_now cy) (bx_built_at tx) < BLOCKHASH_MAX_AGE) (bq_pool bq)"
proof -
  let ?b = "bench_preparer_loop bf cycles (bench_preparer_init c)"
  let ?t = "?b\<lparr>bq_pool := fold (\<lambda>k p. snd (bench_pool_take (fst k) (snd k) p)) (by_taken cy) (bq_pool ?b)\<rparr>"
  let ?e = "fold evict_signed (expired_signed (by_now cy) ?t) ?t"
  let ?s = "fold (sign_entry bf bh (by_clock cy) (by_now_slot cy)) (bf_schedule bf) (0, ?e)"
  have ok: "bench_pool_ok ?b" by (rule bench_pool_ok_loop [OF bench_pool_ok_init])
  have bq: "bq = (snd ?s)\<lparr>bq_pool := snd (bench_pool_prune (saturating_sub (by_now_slot cy) 2) (bq_pool (snd ?s)))\<rparr>"
    using assms(2,3) unfolding bq_def by (simp add: bench_cycle_step_def Let_def case_prod_unfold)
  have same: "signed_at bq k = signed_at (snd ?s) k" for k unfolding bq by (simp add: signed_at_def)
  have okq: "bench_pool_ok bq" unfolding bq_def by (rule bench_pool_ok_cycle [OF ok])
  have "signed_fresh (by_now cy) (snd ?s)"
    by (rule signed_fresh_signs [OF assms(4)]) (simp add: signed_fresh_evicts bench_pool_ok_takes [OF ok])
  then have fresh: "signed_fresh (by_now cy) bq" unfolding signed_fresh_def same .
  have "pool_keys_in (schedule_keys bf) (bench_preparer_init c)" by (simp add: pool_keys_in_def bench_preparer_init_def)
  then have keys: "pool_keys_in (schedule_keys bf) bq" unfolding bq_def by (intro pool_keys_cycle pool_keys_loop)
  have "k \<in> schedule_keys bf \<and> saturating_sub (by_now_slot cy) 2 \<le> fst k \<and>
      saturating_duration_since (by_now cy) (bx_built_at tx) < BLOCKHASH_MAX_AGE" if kt: "(k, tx) \<in> set (bq_pool bq)" for k tx
  proof -
    have m: "map_of (bq_pool bq) k = Some tx" using kt bench_pool_okD(2) [OF okq] by (simp add: hm_inv_def)
    then have "\<not> fst k < saturating_sub (by_now_slot cy) 2" unfolding bq by (auto simp: bench_pool_pruned split: if_splits)
    moreover have "k \<in> schedule_keys bf" using keys m unfolding pool_keys_in_def by blast
    moreover have "saturating_duration_since (by_now cy) (bx_built_at tx) < BLOCKHASH_MAX_AGE"
      using fresh bench_pool_okD(3) [OF okq m] unfolding signed_fresh_def signed_at_def by blast
    ultimately show ?thesis by simp
  qed
  then show ?thesis using window_signed [of bf "by_now_slot cy" bh "by_clock cy" "bf_schedule bf" "(0, ?e)"]
    unfolding same by (auto simp: list_all_iff)
qed


section \<open>No two transactions of the pool share a signature\<close>

definition nth_tx :: "bench_preparer_cfg \<Rightarrow> hash \<times> nat \<Rightarrow> transaction" where
  "nth_tx bf x = build_self_transfer (bf_wallet bf) (saturating_add (bf_amount_lamports bf) (of_nat (snd x))) (fst x)"

text \<open>The signer does not map two of the transactions the run may build to one signature.\<close>

definition collision_free :: "bench_preparer_cfg \<Rightarrow> hash set \<Rightarrow> bool" where
  "collision_free bf B \<longleftrightarrow> inj_on (bf_sign bf) (nth_tx bf ` (B \<times> {..<length (bf_schedule bf)}))"

lemma nth_tx_inj:
  assumes "unat (bf_amount_lamports bf) + L < 2 ^ 64"
  shows "inj_on (nth_tx bf) (B \<times> {..<L})"
proof (rule inj_onI)
  fix x y assume x: "x \<in> B \<times> {..<L}" and y: "y \<in> B \<times> {..<L}" and "nth_tx bf x = nth_tx bf y"
  then have eq: "tx_blockhash (nth_tx bf x) = tx_blockhash (nth_tx bf y)"
    "last (tx_instructions (nth_tx bf x)) = last (tx_instructions (nth_tx bf y))" by simp_all
  have n: "unat (saturating_add (bf_amount_lamports bf) (of_nat k)) = unat (bf_amount_lamports bf) + k" if "k < L" for k
    using assms that by (simp add: unat_saturating_add unat_of_nat)
  have "fst x = fst y" "saturating_add (bf_amount_lamports bf) (of_nat (snd x)) = saturating_add (bf_amount_lamports bf) (of_nat (snd y))"
    using eq by (simp_all add: nth_tx_def build_self_transfer_def self_transfer_instructions_def)
  moreover have "snd x < L" "snd y < L" using x y by (simp_all add: mem_Times_iff)
  ultimately have "unat (bf_amount_lamports bf) + snd x = unat (bf_amount_lamports bf) + snd y" using n by metis
  then show "x = y" using \<open>fst x = fst y\<close> by (simp add: prod_eq_iff)
qed

text \<open>Every transaction of the pool is one of them, at a place of its own.\<close>

definition places :: "bench_preparer_cfg \<Rightarrow> (hash \<times> nat) set \<Rightarrow> ('k, bench_tx) hash_map \<Rightarrow> bool" where
  "places bf X p \<longleftrightarrow> (\<exists>f. inj_on f (dom (map_of p)) \<and> f ` dom (map_of p) \<subseteq> X \<and>
     (\<forall>k tx. map_of p k = Some tx \<longrightarrow> bx_signature tx = bf_sign bf (nth_tx bf (f k))))"

lemma places_sub: "places bf X p \<Longrightarrow> map_of q \<subseteq>\<^sub>m map_of p \<Longrightarrow> X \<subseteq> Y \<Longrightarrow> places bf Y q"
proof -
  assume p: "places bf X p" and q: "map_of q \<subseteq>\<^sub>m map_of p" and X: "X \<subseteq> Y"
  obtain f where f: "inj_on f (dom (map_of p))" "f ` dom (map_of p) \<subseteq> X"
    "\<forall>k tx. map_of p k = Some tx \<longrightarrow> bx_signature tx = bf_sign bf (nth_tx bf (f k))" using p unfolding places_def by blast
  have d: "dom (map_of q) \<subseteq> dom (map_of p)" by (rule map_le_implies_dom_le [OF q])
  have "map_of p k = Some tx" if "map_of q k = Some tx" for k tx using q that by (auto simp: map_le_def dom_def)
  then show ?thesis using f d X inj_on_subset [OF f(1) d] unfolding places_def by (intro exI [of _ f]) blast
qed

lemma places_insert:
  assumes "places bf X p" "x \<notin> X" "bx_signature tx = bf_sign bf (nth_tx bf x)"
  shows "places bf (insert x X) (hm_insert key tx p)"
proof -
  obtain f where f: "inj_on f (dom (map_of p))" "f ` dom (map_of p) \<subseteq> X"
    "\<forall>k tx. map_of p k = Some tx \<longrightarrow> bx_signature tx = bf_sign bf (nth_tx bf (f k))" using assms(1) unfolding places_def by blast
  have d: "dom (map_of (hm_insert key tx p)) = insert key (dom (map_of p))" by (auto simp: dom_def hm.lookup_insert)
  have "x \<notin> f ` dom (map_of p)" using f(2) assms(2) by blast
  then have "inj_on (f(key := x)) (insert key (dom (map_of p)))" using f(1) by (auto simp: inj_on_def)
  moreover have "(f(key := x)) ` insert key (dom (map_of p)) \<subseteq> insert x X" using f(2) by auto
  moreover have "\<forall>k t. map_of (hm_insert key tx p) k = Some t \<longrightarrow> bx_signature t = bf_sign bf (nth_tx bf ((f(key := x)) k))"
    using f(3) assms(3) by (simp add: hm.lookup_insert)
  ultimately show ?thesis unfolding places_def d by (intro exI [of _ "f(key := x)"]) blast
qed

lemma places_signs:
  "bh \<notin> B \<Longrightarrow> places bf (B \<times> {..<L} \<union> {bh} \<times> {..<fst st}) (bq_pool (snd st)) \<Longrightarrow>
    places bf (B \<times> {..<L} \<union> {bh} \<times> {..<fst st + length es}) (bq_pool (snd (fold (sign_entry bf bh clock slot) es st)))"
proof (induction es arbitrary: st)
  case (Cons e es)
  let ?st = "sign_entry bf bh clock slot e st"
  let ?more = "B \<times> {..<L} \<union> {bh} \<times> {..<fst st + length (e # es)}"
  show ?case
  proof (cases "in_window bf slot e \<and> map_of (bq_signed (snd st)) (se_slot e, se_tick e) = None")
    case True
    have "bq_pool (snd ?st) = hm_insert (se_slot e, se_tick e) (prepared_tx bf bh (fst st) (clock (fst st))) (bq_pool (snd st))"
      and n: "fst ?st = Suc (fst st)"
      using True by (simp_all add: sign_entry_def Let_def case_prod_unfold bench_pool_insert_def)
    moreover have "places bf (insert (bh, fst st) (B \<times> {..<L} \<union> {bh} \<times> {..<fst st}))
        (hm_insert (se_slot e, se_tick e) (prepared_tx bf bh (fst st) (clock (fst st))) (bq_pool (snd st)))"
      using Cons.prems by (intro places_insert) (auto simp: prepared_tx_def nth_tx_def Let_def)
    moreover have "insert (bh, fst st) (B \<times> {..<L} \<union> {bh} \<times> {..<fst st}) = B \<times> {..<L} \<union> {bh} \<times> {..<fst ?st}"
      unfolding n by (auto simp: lessThan_Suc)
    ultimately show ?thesis using Cons.IH [of ?st] Cons.prems(1) by (simp add: n)
  next
    case False
    then have "?st = st" by (cases st) (auto simp: sign_entry_def Let_def)
    then have "places bf (B \<times> {..<L} \<union> {bh} \<times> {..<fst st + length es}) (bq_pool (snd (fold (sign_entry bf bh clock slot) es ?st)))"
      using Cons.IH [of st] Cons.prems by simp
    then show ?thesis by (rule places_sub) (auto simp: map_le_def)
  qed
qed simp

definition blockhashes :: "bench_cycle list \<Rightarrow> hash list" where
  "blockhashes cycles = List.map_filter by_blockhash cycles"

lemma places_cycle:
  assumes "places bf (B \<times> {..<length (bf_schedule bf)}) (bq_pool bq)" "set (blockhashes [cy]) \<inter> B = {}"
  shows "places bf ((B \<union> set (blockhashes [cy])) \<times> {..<length (bf_schedule bf)}) (bq_pool (fst (bench_cycle_step bf cy bq)))"
proof -
  let ?L = "length (bf_schedule bf)"
  let ?t = "bq\<lparr>bq_pool := fold (\<lambda>k p. snd (bench_pool_take (fst k) (snd k) p)) (by_taken cy) (bq_pool bq)\<rparr>"
  have t: "places bf (B \<times> {..<?L}) (bq_pool ?t)"
    by (rule places_sub [OF assms(1)]) (auto simp: map_le_def map_of_pool_takes split: if_splits)
  show ?thesis
  proof (cases "by_blockhash cy")
    case None
    then show ?thesis using t by (simp add: bench_cycle_step_def Let_def blockhashes_def map_filter_simps)
  next
    case (Some bh)
    let ?e = "fold evict_signed (expired_signed (by_now cy) ?t) ?t"
    let ?s = "fold (sign_entry bf bh (by_clock cy) (by_now_slot cy)) (bf_schedule bf) (0, ?e)"
    have B: "set (blockhashes [cy]) = {bh}" using Some by (simp add: blockhashes_def map_filter_simps)
    have e: "places bf (B \<times> {..<?L}) (bq_pool ?e)"
      by (rule places_sub [OF t]) (auto simp: map_le_def pool_evicts split: if_splits)
    have "places bf (B \<times> {..<?L} \<union> {bh} \<times> {..<0 + ?L}) (bq_pool (snd ?s))"
      using places_signs [of bh B bf ?L "(0, ?e)"] e assms(2) B by simp
    then have s: "places bf ((B \<union> {bh}) \<times> {..<?L}) (bq_pool (snd ?s))" by (rule places_sub) auto
    have "places bf ((B \<union> {bh}) \<times> {..<?L}) (snd (bench_pool_prune c (bq_pool (snd ?s))))" for c
      by (rule places_sub [OF s]) (auto simp: map_le_def bench_pool_pruned split: if_splits)
    moreover have "places bf ((B \<union> {bh}) \<times> {..<?L}) (bq_pool ?e)" by (rule places_sub [OF e]) auto
    ultimately show ?thesis using Some unfolding B by (simp add: bench_cycle_step_def Let_def case_prod_unfold)
  qed
qed

lemma places_loop:
  "places bf (B \<times> {..<length (bf_schedule bf)}) (bq_pool bq) \<Longrightarrow> distinct (blockhashes cycles) \<Longrightarrow> set (blockhashes cycles) \<inter> B = {} \<Longrightarrow>
    places bf ((B \<union> set (blockhashes cycles)) \<times> {..<length (bf_schedule bf)}) (bq_pool (bench_preparer_loop bf cycles bq))"
proof (induction cycles arbitrary: bq B)
  case Nil
  then show ?case by (simp add: bench_preparer_loop_def blockhashes_def map_filter_simps)
next
  case (Cons cy cycles)
  have b: "blockhashes (cy # cycles) = blockhashes [cy] @ blockhashes cycles"
    by (simp add: blockhashes_def map_filter_simps split: option.split)
  have "places bf ((B \<union> set (blockhashes [cy])) \<times> {..<length (bf_schedule bf)}) (bq_pool (fst (bench_cycle_step bf cy bq)))"
    using Cons.prems unfolding b by (intro places_cycle) auto
  from Cons.IH [OF this] show ?case
    using Cons.prems unfolding b by (simp add: bench_preparer_loop_def Un_assoc) blast
qed

text \<open>As long as the node never repeats a blockhash, no two transactions in the pool have the same
  signature, provided the amounts do not reach the end of their type and the signer does not collide on the
  transactions in question.\<close>
theorem bench_signatures_distinct:
  assumes "distinct (blockhashes cycles)" "unat (bf_amount_lamports bf) + length (bf_schedule bf) < 2 ^ 64"
    and "collision_free bf (set (blockhashes cycles))"
  shows "distinct (map (\<lambda>(_, tx). bx_signature tx) (bq_pool (bench_preparer_loop bf cycles (bench_preparer_init c))))"
proof -
  let ?p = "bq_pool (bench_preparer_loop bf cycles (bench_preparer_init c))"
  let ?X = "set (blockhashes cycles) \<times> {..<length (bf_schedule bf)}"
  have "places bf ({} \<times> {..<length (bf_schedule bf)}) (bq_pool (bench_preparer_init c))"
    by (simp add: places_def bench_preparer_init_def)
  from places_loop [OF this assms(1)] have "places bf ?X ?p" by simp
  then obtain f where f: "inj_on f (dom (map_of ?p))" "f ` dom (map_of ?p) \<subseteq> ?X"
    "\<forall>k tx. map_of ?p k = Some tx \<longrightarrow> bx_signature tx = bf_sign bf (nth_tx bf (f k))" unfolding places_def by blast
  have inv: "hm_inv ?p" by (rule bench_pool_okD(2) [OF bench_pool_ok_loop [OF bench_pool_ok_init]])
  have "inj_on (\<lambda>x. bf_sign bf (nth_tx bf x)) ?X"
    using comp_inj_on [OF nth_tx_inj [OF assms(2)]] assms(3) unfolding collision_free_def comp_def by blast
  then have "inj_on (\<lambda>k. bf_sign bf (nth_tx bf (f k))) (dom (map_of ?p))"
    using comp_inj_on [OF f(1)] inj_on_subset [OF _ f(2)] unfolding comp_def by blast
  moreover have d: "dom (map_of ?p) = set (map_keys ?p)" unfolding set_map_keys by (auto simp: dom_def)
  ultimately have "distinct (map (\<lambda>k. bf_sign bf (nth_tx bf (f k))) (map_keys ?p))"
    using inv unfolding distinct_map hm_inv_def by simp
  moreover have "map (\<lambda>(_, tx). bx_signature tx) ?p = map (\<lambda>k. bf_sign bf (nth_tx bf (f k))) (map_keys ?p)"
    using f(3) inv by (auto simp: hm_inv_def)
  ultimately show ?thesis by (simp only:)
qed


section \<open>Witnesses\<close>

definition demo_signer :: "transaction \<Rightarrow> signature" where
  "demo_signer tx = ucast (tx_blockhash tx) * 1000 + (case last (tx_instructions tx) of Transfer _ _ a \<Rightarrow> ucast a | _ \<Rightarrow> 0)"

definition demo_bench_cfg :: bench_preparer_cfg where
  "demo_bench_cfg = \<lparr> bf_schedule = [\<lparr> se_slot = 100, se_tick = 3 \<rparr>, \<lparr> se_slot = 101, se_tick = 5 \<rparr>],
     bf_wallet = \<lparr> bv_payer = 1, bv_tip_account = 2, bv_priority_fee = 0, bv_tip_lamports = 5000 \<rparr>,
     bf_sign = demo_signer, bf_encode = (\<lambda>_. []), bf_look_ahead_slots = 1, bf_amount_lamports = 10 \<rparr>"

definition demo_cycle :: "hash \<Rightarrow> u64 \<Rightarrow> bench_cycle" where
  "demo_cycle bh slot = \<lparr> by_taken = [], by_blockhash = Some bh, by_now = 0, by_now_slot = slot, by_clock = (\<lambda>n. n) \<rparr>"

lemma demo_blockhashes: "blockhashes [demo_cycle 7 100, demo_cycle 8 101] = [7, 8]"
  by (simp add: blockhashes_def map_filter_simps demo_cycle_def)

lemma demo_nth_sig: "demo_signer (nth_tx demo_bench_cfg (bh, n)) = ucast bh * 1000 + ucast (saturating_add 10 (of_nat n :: u64))"
  by (simp add: demo_bench_cfg_def nth_tx_def build_self_transfer_def self_transfer_instructions_def demo_signer_def)

lemma demo_collision_free: "collision_free demo_bench_cfg {7, 8}"
proof -
  have two: "{..<length (bf_schedule demo_bench_cfg)} = {0, 1}" by (auto simp: demo_bench_cfg_def)
  have "inj_on (demo_signer \<circ> nth_tx demo_bench_cfg) {(7, 0), (7, 1), (8, 0), (8, 1)}"
    by (simp add: demo_nth_sig saturating_add_def)
  moreover have "({7, 8} :: hash set) \<times> {0, 1 :: nat} = {(7, 0), (7, 1), (8, 0), (8, 1)}" by auto
  moreover have "bf_sign demo_bench_cfg = demo_signer" by (simp add: demo_bench_cfg_def)
  ultimately show ?thesis unfolding collision_free_def two by (metis inj_on_imageI)
qed

lemma bench_signatures_distinct_witness:
  "distinct (map (\<lambda>(_, tx). bx_signature tx)
    (bq_pool (bench_preparer_loop demo_bench_cfg [demo_cycle 7 100, demo_cycle 8 101] (bench_preparer_init bench_counters_default))))"
  by (rule bench_signatures_distinct) (simp_all add: demo_blockhashes demo_collision_free, simp_all add: demo_bench_cfg_def)

lemma bench_prepares_window_witness:
  "signed_at (fst (bench_cycle_step demo_bench_cfg (demo_cycle 7 100)
     (bench_preparer_loop demo_bench_cfg [] (bench_preparer_init bench_counters_default)))) (100, 3) \<noteq> None"
  using bench_prepares_window [of "demo_cycle 7 100" 7 demo_bench_cfg "[]" bench_counters_default]
  by (simp add: demo_cycle_def) (simp add: demo_bench_cfg_def in_window_def)

text \<open>The amounts start again in every cycle, so when two cycles get the same blockhash, the first new
  transaction of each is the same transaction for two scheduled ticks.\<close>

lemma same_blockhash_same_transaction:
  "map (\<lambda>(k, tx). (k, bx_signature tx)) (bq_pool (bench_preparer_loop demo_bench_cfg [demo_cycle 7 100, demo_cycle 7 101]
     (bench_preparer_init bench_counters_default))) = [((100, 3), 7010), ((101, 5), 7010)]"
  by (simp add: bench_preparer_loop_def bench_cycle_step_def demo_cycle_def demo_bench_cfg_def bench_preparer_init_def Let_def
      sign_entry_def in_window_def expired_signed_def saturating_duration_since_def BLOCKHASH_MAX_AGE_def bench_pool_insert_def
      bench_pool_prune_def prepared_tx_def build_self_transfer_def self_transfer_instructions_def demo_signer_def
      saturating_add_def saturating_sub_def)

end
