(* ===== verification/Bench_Run.thy ===== *)
theory Bench_Run
  imports Bench_Sender
begin

text \<open>
  The smaller threads of \<open>crates/tick-trigger-bench\<close>: the RPC fallback (\<open>rpc_fallback.rs\<close>), the tick
  file (\<open>sidecar.rs\<close>) and the waiting loop of \<open>runtime.rs\<close>. A poll
  of the fallback is what was pushed before it and the node's answers, as a function of the batch.
\<close>

section \<open>The RPC fallback\<close>

record signature_status =
  ss_confirmations :: "nat option"
  ss_confirmation_status :: "string option"

record annotation =
  an_sig :: signature
  an_rpc_landed :: bool
  an_status :: string

definition rpc_landed :: "signature_status option \<Rightarrow> bool" where
  "rpc_landed st = (case st of None \<Rightarrow> False | Some s \<Rightarrow> ss_confirmations s = None \<or> ss_confirmation_status s \<noteq> None)"

definition annotate :: "signature \<times> signature_status option \<Rightarrow> annotation" where
  "annotate x = (let landed = rpc_landed (snd x) in \<lparr> an_sig = fst x, an_rpc_landed = landed,
     an_status = (if landed then ''MISSING_FROM_STREAM'' else ''TRULY_MISSING'') \<rparr>)"

record rpc_fallback =
  rf_queue :: "signature list"
  rf_annotations :: "annotation list"
  rf_counters :: bench_counters

definition fallback_push :: "signature \<Rightarrow> rpc_fallback \<Rightarrow> rpc_fallback" where
  "fallback_push sig rf = rf\<lparr>rf_queue := rf_queue rf @ [sig]\<rparr>"

definition drain_up_to :: "nat \<Rightarrow> rpc_fallback \<Rightarrow> signature list \<times> rpc_fallback" where
  "drain_up_to n rf = (let k = min (length (rf_queue rf)) n in (take k (rf_queue rf), rf\<lparr>rf_queue := drop k (rf_queue rf)\<rparr>))"

type_synonym status_rpc = "signature list \<Rightarrow> signature_status option list option"

definition fallback_batch :: "status_rpc \<Rightarrow> signature list \<Rightarrow> rpc_fallback \<Rightarrow> rpc_fallback" where
  "fallback_batch rpc batch rf = (case rpc batch of
     Some statuses \<Rightarrow> rf\<lparr>rf_annotations := rf_annotations rf @ map annotate (zip batch statuses)\<rparr>
   | None \<Rightarrow> rf\<lparr>rf_counters := (rf_counters rf)\<lparr>tc_rpc_fallback_error := tc_rpc_fallback_error (rf_counters rf) + 1\<rparr>\<rparr>)"

lemma fallback_batch_queue [simp]: "rf_queue (fallback_batch rpc b rf) = rf_queue rf"
  by (simp add: fallback_batch_def split: option.split)

function fallback_drain :: "status_rpc \<Rightarrow> nat \<Rightarrow> rpc_fallback \<Rightarrow> rpc_fallback" where
  "fallback_drain rpc batch_size rf = (case drain_up_to batch_size rf of (batch, rf1) \<Rightarrow>
     if batch = [] then rf1 else fallback_drain rpc batch_size (fallback_batch rpc batch rf1))"
  by pat_completeness auto
termination
  by (relation "measure (\<lambda>(_, _, rf). length (rf_queue rf))") (auto simp: drain_up_to_def Let_def)

declare fallback_drain.simps [simp del]

record fallback_poll =
  fp_stop :: bool
  fp_pushed :: "signature list"
  fp_rpc :: status_rpc

fun fallback_loop :: "nat \<Rightarrow> fallback_poll list \<Rightarrow> rpc_fallback \<Rightarrow> rpc_fallback" where
  "fallback_loop batch_size [] rf = rf"
| "fallback_loop batch_size (p # ps) rf = (if fp_stop p then rf
     else fallback_loop batch_size ps (fallback_drain (fp_rpc p) batch_size (fold fallback_push (fp_pushed p) rf)))"

section \<open>The tick file\<close>

datatype side_input = SideTick tick_event | SideTimeout bool | SideDisconnected

definition side_line :: "instant \<Rightarrow> tick_event \<Rightarrow> string" where
  "side_line anchor ev = ''{\"ts_ns\":'' @ show_word (ns_between (te_observed_at ev) anchor) @ '',\"slot\":'' @ show_word (te_slot ev) @
     '',\"tick_idx\":'' @ show_word (te_tick_idx ev) @ '',\"num_hashes\":'' @ show_word (te_num_hashes ev) @ ''}''"

fun sidecar_loop :: "instant \<Rightarrow> side_input list \<Rightarrow> string list" where
  "sidecar_loop anchor [] = []"
| "sidecar_loop anchor (x # xs) = (case x of
     SideTick ev \<Rightarrow> side_line anchor ev # sidecar_loop anchor xs
   | SideTimeout stop \<Rightarrow> if stop then [] else sidecar_loop anchor xs
   | SideDisconnected \<Rightarrow> [])"

section \<open>The waiting loop\<close>

datatype bench_end = BenchTimeUp | BenchStopped | BenchCovered duration

record bench_wait =
  ba_elapsed :: duration
  ba_stop :: bool
  ba_now_slot :: u64

definition bench_wait_step :: "duration \<Rightarrow> duration \<Rightarrow> schedule_entry list \<Rightarrow> bench_wait \<Rightarrow> bench_end option" where
  "bench_wait_step max_duration deadline entries r =
    (if max_duration \<le> ba_elapsed r then Some BenchTimeUp
     else if ba_stop r then Some BenchStopped
     else if entries \<noteq> [] \<and> se_slot (last entries) + 10 < ba_now_slot r then Some (BenchCovered deadline)
     else None)"

fun bench_wait_loop :: "duration \<Rightarrow> duration \<Rightarrow> schedule_entry list \<Rightarrow> bench_wait list \<Rightarrow> bench_end option" where
  "bench_wait_loop max_duration deadline entries [] = None"
| "bench_wait_loop max_duration deadline entries (r # rs) =
    (case bench_wait_step max_duration deadline entries r of Some e \<Rightarrow> Some e
     | None \<Rightarrow> bench_wait_loop max_duration deadline entries rs)"

section \<open>What the fallback annotates\<close>

text \<open>An RPC node that answers every signature of every batch.\<close>

definition answers_all :: "(signature \<Rightarrow> signature_status option) \<Rightarrow> status_rpc \<Rightarrow> bool" where
  "answers_all node rpc \<longleftrightarrow> (\<forall>b. rpc b = Some (map node b))"

definition annotated :: "(signature \<Rightarrow> signature_status option) \<Rightarrow> signature list \<Rightarrow> annotation list" where
  "annotated node sigs = map (\<lambda>s. annotate (s, node s)) sigs"

lemma annotate_zip: "map annotate (zip b (map node b)) = annotated node b"
  by (induction b) (simp_all add: annotated_def)

lemma fallback_drain_all:
  assumes "answers_all node rpc" "0 < n"
  shows "rf_queue (fallback_drain rpc n rf) = [] \<and>
    rf_annotations (fallback_drain rpc n rf) = rf_annotations rf @ annotated node (rf_queue rf) \<and>
    rf_counters (fallback_drain rpc n rf) = rf_counters rf"
proof (induction "length (rf_queue rf)" arbitrary: rf rule: less_induct)
  case less
  let ?k = "min (length (rf_queue rf)) n"
  let ?b = "take ?k (rf_queue rf)"
  let ?rf = "fallback_batch rpc ?b (rf\<lparr>rf_queue := drop ?k (rf_queue rf)\<rparr>)"
  have step: "fallback_drain rpc n rf = (if ?b = [] then rf\<lparr>rf_queue := drop ?k (rf_queue rf)\<rparr> else fallback_drain rpc n ?rf)"
    by (subst fallback_drain.simps) (simp add: drain_up_to_def Let_def)
  show ?case
  proof (cases "rf_queue rf = []")
    case True
    then show ?thesis by (simp add: step annotated_def)
  next
    case False
    then have b: "?b \<noteq> []" using assms(2) by simp
    have l: "length (rf_queue ?rf) < length (rf_queue rf)" using False assms(2) by simp
    have a: "rf_annotations ?rf = rf_annotations rf @ annotated node ?b" "rf_counters ?rf = rf_counters rf"
      using assms(1) by (simp_all add: fallback_batch_def answers_all_def annotate_zip)
    have "annotated node ?b @ annotated node (drop ?k (rf_queue rf)) = annotated node (rf_queue rf)"
      unfolding annotated_def map_append [symmetric] append_take_drop_id ..
    then show ?thesis using less [OF l] b unfolding step a by simp
  qed
qed

lemma fallback_pushes: "fold fallback_push sigs rf = rf\<lparr>rf_queue := rf_queue rf @ sigs\<rparr>"
  by (induction sigs arbitrary: rf) (simp_all add: fallback_push_def)

text \<open>With a node that answers, the fallback annotates every signature pushed before a poll, once and in
  order, and leaves the queue empty; the annotation says \<open>MISSING_FROM_STREAM\<close> exactly for those the node
  reports as landed.\<close>
theorem fallback_annotates_all:
  assumes "list_all (\<lambda>p. \<not> fp_stop p \<and> answers_all node (fp_rpc p)) polls" "0 < batch_size" "rf_queue rf = []"
  shows "rf_queue (fallback_loop batch_size polls rf) = [] \<and>
    rf_annotations (fallback_loop batch_size polls rf) = rf_annotations rf @ annotated node (concat (map fp_pushed polls)) \<and>
    tc_rpc_fallback_error (rf_counters (fallback_loop batch_size polls rf)) = tc_rpc_fallback_error (rf_counters rf)"
  using assms(1,3)
proof (induction polls arbitrary: rf)
  case Nil
  then show ?case by (simp add: annotated_def)
next
  case (Cons p ps)
  let ?rf = "fallback_drain (fp_rpc p) batch_size (fold fallback_push (fp_pushed p) rf)"
  have d: "rf_queue ?rf = []" "rf_annotations ?rf = rf_annotations rf @ annotated node (fp_pushed p)"
    "rf_counters ?rf = rf_counters rf"
    using fallback_drain_all [OF _ assms(2), of node "fp_rpc p" "fold fallback_push (fp_pushed p) rf"] Cons.prems
    by (simp_all add: fallback_pushes)
  show ?case using Cons.IH [OF _ d(1)] Cons.prems(1) by (simp add: d) (simp add: annotated_def)
qed

definition demo_poll :: fallback_poll where
  "demo_poll = \<lparr> fp_stop = False, fp_pushed = [7, 8], fp_rpc = (\<lambda>b. Some (map (\<lambda>s. if s = 7
     then Some \<lparr> ss_confirmations = None, ss_confirmation_status = None \<rparr> else None) b)) \<rparr>"

lemma fallback_annotates_all_witness:
  "map an_status (rf_annotations (fallback_loop 1 [demo_poll]
     \<lparr> rf_queue = [], rf_annotations = [], rf_counters = bench_counters_default \<rparr>)) = [''MISSING_FROM_STREAM'', ''TRULY_MISSING'']"
proof -
  let ?node = "\<lambda>s :: signature. if s = 7 then Some \<lparr> ss_confirmations = None, ss_confirmation_status = None \<rparr> else None"
  have "list_all (\<lambda>p. \<not> fp_stop p \<and> answers_all ?node (fp_rpc p)) [demo_poll]" by (simp add: demo_poll_def answers_all_def)
  from fallback_annotates_all [OF this, of 1 "\<lparr> rf_queue = [], rf_annotations = [], rf_counters = bench_counters_default \<rparr>"]
  show ?thesis by (simp add: annotated_def demo_poll_def annotate_def rpc_landed_def)
qed

text \<open>A batch whose request fails is gone: its signatures are neither annotated nor queued again.\<close>

lemma failed_batch_lost:
  "fallback_drain (\<lambda>_. None) 256 \<lparr> rf_queue = [7, 8], rf_annotations = [], rf_counters = bench_counters_default \<rparr> =
    \<lparr> rf_queue = [], rf_annotations = [], rf_counters = bench_counters_default\<lparr>tc_rpc_fallback_error := 1\<rparr> \<rparr>"
  by (simp add: fallback_drain.simps drain_up_to_def Let_def fallback_batch_def bench_counters_default_def)

text \<open>What is pushed when the run stops, the whole table of the finalizer, is never polled.\<close>

lemma stopped_fallback_annotates_nothing: "fp_stop p \<Longrightarrow> fallback_loop n (p # ps) rf = rf"
  by simp

section \<open>The waiting loop ends\<close>

text \<open>The run ends: a round lasts five seconds at least, so by the time the rounds cover the maximal
  duration one of the three conditions has ended it.\<close>
theorem bench_wait_ends:
  assumes "sorted_wrt (\<lambda>a b. ba_elapsed a + 5000000000 \<le> ba_elapsed b) rs" "max_duration div 5000000000 + 1 < length rs"
  shows "bench_wait_loop max_duration deadline entries rs \<noteq> None"
proof -
  have far: "ba_elapsed r + 5000000000 * length rs' \<le> ba_elapsed (last (r # rs'))"
    if "sorted_wrt (\<lambda>a b. ba_elapsed a + 5000000000 \<le> ba_elapsed b) (r # rs')" for r rs'
    using that
  proof (induction rs' arbitrary: r)
    case (Cons x xs)
    have "ba_elapsed x + 5000000000 * length xs \<le> ba_elapsed (last (x # xs))" using Cons by simp
    moreover have "ba_elapsed r + 5000000000 \<le> ba_elapsed x" using Cons.prems by simp
    ultimately show ?case by simp
  qed simp
  obtain r rs' where rs: "rs = r # rs'" using assms(2) by (cases rs) auto
  have "max_duration < 5000000000 * (max_duration div 5000000000 + 1)" using dividend_less_times_div [of 5000000000 max_duration] by simp
  also have "\<dots> \<le> 5000000000 * length rs'" using assms(2) unfolding rs by simp
  finally have "max_duration \<le> ba_elapsed (last rs)" using far assms(1) unfolding rs by fastforce
  then have "bench_wait_step max_duration deadline entries (last rs) \<noteq> None" by (simp add: bench_wait_step_def)
  moreover have "last rs \<in> set rs" unfolding rs by simp
  moreover have "bench_wait_loop max_duration deadline entries xs \<noteq> None"
    if "x \<in> set xs" "bench_wait_step max_duration deadline entries x \<noteq> None" for x xs
    using that by (induction xs) (auto split: option.split)
  ultimately show ?thesis by blast
qed

lemma bench_wait_ends_witness:
  "bench_wait_loop 6000000000 90 [] (map (\<lambda>n. \<lparr> ba_elapsed = n * 5000000000, ba_stop = False, ba_now_slot = 0 \<rparr>) [0, 1, 2]) \<noteq> None"
  by (rule bench_wait_ends) simp_all

end
