(* ===== verification/Wallet.thy ===== *)
theory Wallet
  imports Rust_Parse Nonce_Sources
begin

text \<open>
  Loading the wallet: \<open>crates/tick-trigger-fan-out-bench/src/wallet.rs\<close> and the loader of
  \<open>crates/tick-trigger-bench/src/wallet.rs\<close>. The file system, \<open>serde_json\<close>, \<open>bs58\<close> and the
  Ed25519 library are the record \<open>wallet_env\<close>; a key pair is an abstract value with its public key.
\<close>

record 'k wallet_env =
  wv_home :: "string option"
  wv_read :: "string \<Rightarrow> string option"
  wv_json_bytes :: "string \<Rightarrow> bytes option"
  wv_json_object :: "string \<Rightarrow> (string \<times> string option) option"
  wv_bs58 :: "string \<Rightarrow> bytes option"
  wv_bs58_encode :: "bytes \<Rightarrow> string"
  wv_try_from :: "bytes \<Rightarrow> 'k option"
  wv_verifying :: "bytes \<Rightarrow> bytes"
  wv_from_seed :: "bytes \<Rightarrow> 'k"
  wv_pubkey :: "'k \<Rightarrow> bytes"
  wv_read_keypair_file :: "string \<Rightarrow> 'k option"

datatype wallet_error = WalletRead | WalletPrivBase58 | WalletPubBase58 | WalletPubLength nat | WalletFormat
  | WalletBadKeypair | WalletSeed | WalletLength nat | WalletMismatch

section \<open>The fan-out bench\<close>

definition keypair_of_bytes :: "'k wallet_env \<Rightarrow> bytes \<Rightarrow> wallet_error + 'k" where
  "keypair_of_bytes wv b =
    (if length b = 64 then (case wv_try_from wv b of None \<Rightarrow> Inl WalletBadKeypair | Some kp \<Rightarrow> Inr kp)
     else if length b = 32 then
       (case wv_try_from wv (b @ wv_verifying wv b) of None \<Rightarrow> Inl WalletSeed | Some kp \<Rightarrow> Inr kp)
     else Inl (WalletLength (length b)))"

definition keypair_from_bytes :: "'k wallet_env \<Rightarrow> bytes \<Rightarrow> bytes option \<Rightarrow> wallet_error + 'k" where
  "keypair_from_bytes wv b expected = (case keypair_of_bytes wv b of
     Inl e \<Rightarrow> Inl e
   | Inr kp \<Rightarrow> (case expected of
       None \<Rightarrow> Inr kp
     | Some pk \<Rightarrow> if pk \<noteq> wv_pubkey wv kp then Inl WalletMismatch else Inr kp))"

definition expected_pubkey :: "'k wallet_env \<Rightarrow> string option \<Rightarrow> wallet_error + bytes option" where
  "expected_pubkey wv pub_key = (case pub_key of
     Some s \<Rightarrow> if s = [] then Inr None
       else (case wv_bs58 wv s of
          None \<Rightarrow> Inl WalletPubBase58
        | Some pk \<Rightarrow> if length pk \<noteq> 32 then Inl (WalletPubLength (length pk)) else Inr (Some pk))
   | None \<Rightarrow> Inr None)"

definition parse_keypair_text :: "'k wallet_env \<Rightarrow> string \<Rightarrow> wallet_error + 'k" where
  "parse_keypair_text wv content = (let trimmed = trim content
     in case wv_json_bytes wv trimmed of
          Some b \<Rightarrow> keypair_from_bytes wv b None
        | None \<Rightarrow> (case wv_json_object wv trimmed of
            Some (priv_key, pub_key) \<Rightarrow> (case wv_bs58 wv priv_key of
                None \<Rightarrow> Inl WalletPrivBase58
              | Some b \<Rightarrow> (case expected_pubkey wv pub_key of
                  Inl e \<Rightarrow> Inl e
                | Inr expected \<Rightarrow> keypair_from_bytes wv b expected))
          | None \<Rightarrow> Inl WalletFormat))"

definition load_keypair :: "'k wallet_env \<Rightarrow> string \<Rightarrow> wallet_error + 'k" where
  "load_keypair wv path = (case wv_read wv (expand_tilde (wv_home wv) path) of
     None \<Rightarrow> Inl WalletRead | Some content \<Rightarrow> parse_keypair_text wv content)"

section \<open>The older bench\<close>

definition keypair_from_base58 :: "'k wallet_env \<Rightarrow> string \<Rightarrow> wallet_error + 'k" where
  "keypair_from_base58 wv s = (case wv_bs58 wv (trim s) of
     None \<Rightarrow> Inl WalletPrivBase58
   | Some b \<Rightarrow> if length b = 64 then Inr (wv_from_seed wv (take 32 b))
       else if length b = 32 then Inr (wv_from_seed wv b)
       else Inl (WalletLength (length b)))"

definition bench_load_keypair :: "'k wallet_env \<Rightarrow> string \<Rightarrow> wallet_error + 'k" where
  "bench_load_keypair wv path = (case wv_read wv path of
     None \<Rightarrow> Inl WalletRead
   | Some content \<Rightarrow> (let trimmed = trim content
       in case wv_json_object wv trimmed of
            Some (priv_key, pub_key) \<Rightarrow> (case keypair_from_base58 wv priv_key of
                Inl e \<Rightarrow> Inl e
              | Inr kp \<Rightarrow> (case pub_key of
                  None \<Rightarrow> Inr kp
                | Some claimed \<Rightarrow> if trim claimed \<noteq> wv_bs58_encode wv (wv_pubkey wv kp) then Inl WalletMismatch else Inr kp))
          | None \<Rightarrow> (case wv_read_keypair_file wv path of
              Some kp \<Rightarrow> Inr kp
            | None \<Rightarrow> keypair_from_base58 wv trimmed)))"

section \<open>A claimed public key is checked\<close>

text \<open>C35: Loading succeeds only with the key of the file: a byte array or private key of 64 bytes is that key
  pair, one of 32 bytes is the seed of the key pair, every other length is an error, and a public key the
  file claims is the public key of the result.\<close>
theorem loaded_keypair_matches:
  assumes "load_keypair wv path = Inr kp"
  shows "\<exists>content secret claimed. wv_read wv (expand_tilde (wv_home wv) path) = Some content \<and>
    (wv_json_bytes wv (trim content) = Some secret \<and> claimed = None \<or>
     wv_json_bytes wv (trim content) = None \<and> (\<exists>priv. wv_json_object wv (trim content) = Some (priv, claimed) \<and> wv_bs58 wv priv = Some secret)) \<and>
    (length secret = 64 \<and> wv_try_from wv secret = Some kp \<or>
     length secret = 32 \<and> wv_try_from wv (secret @ wv_verifying wv secret) = Some kp) \<and>
    (claimed = None \<or> claimed = Some [] \<or> wv_bs58 wv (the claimed) = Some (wv_pubkey wv kp))"
proof -
  obtain content where content: "wv_read wv (expand_tilde (wv_home wv) path) = Some content" "parse_keypair_text wv content = Inr kp"
    using assms by (auto simp: load_keypair_def split: option.splits)
  have bytes: "length b = 64 \<and> wv_try_from wv b = Some kp \<or> length b = 32 \<and> wv_try_from wv (b @ wv_verifying wv b) = Some kp"
    and claim: "expected = None \<or> expected = Some (wv_pubkey wv kp)"
    if "keypair_from_bytes wv b expected = Inr kp" for b expected
    using that by (auto simp: keypair_from_bytes_def keypair_of_bytes_def split: sum.splits option.splits if_splits)
  show ?thesis
  proof (cases "wv_json_bytes wv (trim content)")
    case (Some b)
    then have "keypair_from_bytes wv b None = Inr kp" using content(2) by (simp add: parse_keypair_text_def Let_def)
    then show ?thesis using content(1) Some bytes by (intro exI [of _ content] exI [of _ b] exI [of _ None]) blast
  next
    case None
    obtain priv pub b expected where o: "wv_json_object wv (trim content) = Some (priv, pub)" "wv_bs58 wv priv = Some b"
      "expected_pubkey wv pub = Inr expected" "keypair_from_bytes wv b expected = Inr kp"
      using content(2) None by (auto simp: parse_keypair_text_def Let_def split: option.splits prod.splits sum.splits)
    have "pub = None \<or> pub = Some [] \<or> wv_bs58 wv (the pub) = Some (wv_pubkey wv kp)"
      using o(3) claim [OF o(4)] by (auto simp: expected_pubkey_def split: option.splits if_splits)
    then show ?thesis using content(1) None o(1,2) bytes [OF o(4)] by (intro exI [of _ content] exI [of _ b] exI [of _ pub]) blast
  qed
qed

text \<open>The older loader never looks at the public half of a 64 byte secret: two files that differ only there
  load as the same key.\<close>

lemma public_half_ignored:
  assumes "wv_bs58 wv (trim s) = Some b" "length b = 64" "wv_bs58 wv (trim s') = Some (take 32 b @ other)" "length other = 32"
  shows "keypair_from_base58 wv s = keypair_from_base58 wv s'"
  using assms by (simp add: keypair_from_base58_def)

definition demo_wallet_env :: "bytes wallet_env" where
  "demo_wallet_env = \<lparr> wv_home = Some ''/root'', wv_read = (\<lambda>p. if p = ''/root/w.json'' then Some ''k'' else None),
     wv_json_bytes = (\<lambda>_. None), wv_json_object = (\<lambda>_. Some (''priv'', Some ''pub'')),
     wv_bs58 = (\<lambda>s. if s = ''priv'' then Some (replicate 32 1) else Some (replicate 32 2)), wv_bs58_encode = (\<lambda>_. ''pub''),
     wv_try_from = (\<lambda>b. Some b), wv_verifying = (\<lambda>_. replicate 32 2), wv_from_seed = (\<lambda>b. b @ replicate 32 2),
     wv_pubkey = drop 32, wv_read_keypair_file = (\<lambda>_. None) \<rparr>"

lemma trim_letter: "trim ''k'' = ''k''"
  by code_simp

lemma demo_load: "load_keypair demo_wallet_env ''~/w.json'' = Inr (replicate 32 1 @ replicate 32 2)"
  by (simp add: load_keypair_def expand_tilde_def demo_wallet_env_def path_push_def parse_keypair_text_def Let_def
      expected_pubkey_def keypair_from_bytes_def keypair_of_bytes_def)

lemma loaded_keypair_matches_witness:
  "\<exists>content secret claimed. wv_read demo_wallet_env (expand_tilde (wv_home demo_wallet_env) ''~/w.json'') = Some content \<and>
    (claimed = None \<or> claimed = Some [] \<or> wv_bs58 demo_wallet_env (the claimed) = Some (replicate 32 2 :: bytes)) \<and>
    (length (secret :: bytes) = 64 \<or> length secret = 32)"
proof -
  have "wv_pubkey demo_wallet_env (replicate 32 1 @ replicate 32 2) = replicate 32 2" by (simp add: demo_wallet_env_def)
  then show ?thesis using loaded_keypair_matches [OF demo_load] by metis
qed

end
