(* ===== verification/Tip_Updater.thy ===== *)
theory Tip_Updater
  imports Prelude
begin

text \<open>
  \<open>crates/tick-trigger-fan-out-bench/src/senders/jito/tip_updater.rs\<close>: the task that polls the tip
  floor of Jito. \<open>f64\<close> is an arbitrary type with the operations of \<open>float_ops\<close>; the HTTP client is
  what a poll returns. \<open>u64::clamp\<close> panics when its bounds are reversed, which ends the task: None.
\<close>

record 'f float_ops =
  fo_of_int :: "int \<Rightarrow> 'f"
  fo_add :: "'f \<Rightarrow> 'f \<Rightarrow> 'f"
  fo_sub :: "'f \<Rightarrow> 'f \<Rightarrow> 'f"
  fo_mul :: "'f \<Rightarrow> 'f \<Rightarrow> 'f"
  fo_div :: "'f \<Rightarrow> 'f \<Rightarrow> 'f"
  fo_ln :: "'f \<Rightarrow> 'f"
  fo_exp :: "'f \<Rightarrow> 'f"
  fo_le :: "'f \<Rightarrow> 'f \<Rightarrow> bool"
  fo_lt :: "'f \<Rightarrow> 'f \<Rightarrow> bool"
  fo_to_u64 :: "'f \<Rightarrow> u64"

record 'f tip_amounts =
  ta_25 :: 'f
  ta_50 :: 'f
  ta_75 :: 'f
  ta_95 :: 'f
  ta_99 :: 'f

record tip_updater =
  tu_current_lamports :: u64
  tu_percentile :: u32
  tu_floor_lamports :: u64
  tu_ceiling_lamports :: u64
  tu_refresh_interval :: duration

definition tip_updater_new :: "u32 \<Rightarrow> u64 \<Rightarrow> u64 \<Rightarrow> u64 \<Rightarrow> tip_updater" where
  "tip_updater_new percentile floor ceiling refresh_interval_ms = \<lparr> tu_current_lamports = floor, tu_percentile = percentile,
     tu_floor_lamports = floor, tu_ceiling_lamports = ceiling, tu_refresh_interval = unat refresh_interval_ms * 1000000 \<rparr>"

definition clamp_u64 :: "u64 \<Rightarrow> u64 \<Rightarrow> u64 \<Rightarrow> u64 option" where
  "clamp_u64 v lo hi = (if \<not> lo \<le> hi then None else if v < lo then Some lo else if hi < v then Some hi else Some v)"

section \<open>Interpolation\<close>

definition tip_points :: "'f float_ops \<Rightarrow> 'f tip_amounts \<Rightarrow> ('f \<times> 'f) list" where
  "tip_points fo ta = [(fo_of_int fo 25, fo_ln fo (ta_25 ta)), (fo_of_int fo 50, fo_ln fo (ta_50 ta)),
     (fo_of_int fo 75, fo_ln fo (ta_75 ta)), (fo_of_int fo 95, fo_ln fo (ta_95 ta)), (fo_of_int fo 99, fo_ln fo (ta_99 ta))]"

fun pair_around :: "'f float_ops \<Rightarrow> 'f \<Rightarrow> ('f \<times> 'f) list \<Rightarrow> (('f \<times> 'f) \<times> ('f \<times> 'f)) option" where
  "pair_around fo target (a # b # ps) =
    (if fo_le fo (fst a) target \<and> fo_le fo target (fst b) then Some (a, b) else pair_around fo target (b # ps))"
| "pair_around fo target ps = None"

definition surrounding_pair :: "'f float_ops \<Rightarrow> ('f \<times> 'f) list \<Rightarrow> 'f \<Rightarrow> ('f \<times> 'f) \<times> ('f \<times> 'f)" where
  "surrounding_pair fo points target = (case pair_around fo target points of
     Some p \<Rightarrow> p
   | None \<Rightarrow> if fo_lt fo target (fst (points ! 0)) then (points ! 0, points ! 1)
       else (let last = length points - 1 in (points ! (last - 1), points ! last)))"

definition log_interpolate_percentile :: "'f float_ops \<Rightarrow> 'f tip_amounts \<Rightarrow> 'f \<Rightarrow> 'f" where
  "log_interpolate_percentile fo ta target =
    (case surrounding_pair fo (tip_points fo ta) target of (lower, upper) \<Rightarrow>
       fo_exp fo (fo_add fo (snd lower) (fo_div fo (fo_mul fo (fo_sub fo target (fst lower)) (fo_sub fo (snd upper) (snd lower)))
         (fo_sub fo (fst upper) (fst lower)))))"

section \<open>The task\<close>

text \<open>A poll that fails is None, an empty answer is an error as well.\<close>

definition fetch_and_compute :: "'f float_ops \<Rightarrow> u32 \<Rightarrow> u64 \<Rightarrow> u64 \<Rightarrow> 'f tip_amounts list option \<Rightarrow> (string + u64) option" where
  "fetch_and_compute fo percentile floor ceiling raw = (case raw of
     None \<Rightarrow> Some (Inl ''request'')
   | Some [] \<Rightarrow> Some (Inl ''empty tip floor response'')
   | Some (amounts # _) \<Rightarrow>
       (let tip_sol = log_interpolate_percentile fo amounts (fo_of_int fo (int (unat percentile)));
            tip_lamports = fo_to_u64 fo (fo_mul fo tip_sol (fo_of_int fo 1000000000))
        in map_option Inr (clamp_u64 tip_lamports floor ceiling)))"

record 'f tip_round =
  tr_stop :: bool
  tr_reply :: "'f tip_amounts list option"

fun tip_loop :: "'f float_ops \<Rightarrow> 'f tip_round list \<Rightarrow> tip_updater \<Rightarrow> tip_updater option" where
  "tip_loop fo [] tu = Some tu"
| "tip_loop fo (r # rs) tu = (if tr_stop r then Some tu
     else (case fetch_and_compute fo (tu_percentile tu) (tu_floor_lamports tu) (tu_ceiling_lamports tu) (tr_reply r) of
        None \<Rightarrow> None
      | Some (Inl e) \<Rightarrow> tip_loop fo rs tu
      | Some (Inr v) \<Rightarrow> tip_loop fo rs (tu\<lparr>tu_current_lamports := v\<rparr>)))"

section \<open>The tip stays within its bounds\<close>

lemma clamp_bounds: "clamp_u64 v lo hi = Some w \<Longrightarrow> lo \<le> w \<and> w \<le> hi"
  by (auto simp: clamp_u64_def split: if_splits)

lemma fetch_within:
  assumes "lo \<le> hi"
  obtains (error) e where "fetch_and_compute fo p lo hi raw = Some (Inl e)"
    | (tip) v where "fetch_and_compute fo p lo hi raw = Some (Inr v)" "lo \<le> v" "v \<le> hi"
proof (cases "raw = None \<or> raw = Some []")
  case True
  then show ?thesis using error by (auto simp: fetch_and_compute_def)
next
  case False
  then obtain a as where r: "raw = Some (a # as)" by (metis not_Some_eq neq_Nil_conv)
  obtain w where w: "clamp_u64 (fo_to_u64 fo (fo_mul fo (log_interpolate_percentile fo a (fo_of_int fo (int (unat p)))) (fo_of_int fo 1000000000))) lo hi
      = Some w" using assms by (cases "clamp_u64 (fo_to_u64 fo (fo_mul fo (log_interpolate_percentile fo a (fo_of_int fo (int (unat p))))
        (fo_of_int fo 1000000000))) lo hi") (auto simp: clamp_u64_def split: if_splits)
  then have "fetch_and_compute fo p lo hi raw = Some (Inr w)" by (simp add: fetch_and_compute_def r Let_def)
  then show ?thesis using tip clamp_bounds [OF w] by blast
qed

text \<open>C33: With a floor not above the ceiling the updater never panics, and the tip it offers lies between the
  two from the start on, whatever the endpoint answers and however floating point behaves.\<close>
theorem tip_within_bounds:
  assumes "floor \<le> ceiling"
  shows "\<exists>tu. tip_loop fo rounds (tip_updater_new percentile floor ceiling ms) = Some tu \<and>
    floor \<le> tu_current_lamports tu \<and> tu_current_lamports tu \<le> ceiling"
proof -
  have "\<exists>tu'. tip_loop fo rounds tu = Some tu' \<and> floor \<le> tu_current_lamports tu' \<and> tu_current_lamports tu' \<le> ceiling"
    if "tu_floor_lamports tu = floor" "tu_ceiling_lamports tu = ceiling" "floor \<le> tu_current_lamports tu" "tu_current_lamports tu \<le> ceiling" for tu
    using that
  proof (induction rounds arbitrary: tu)
    case (Cons r rs)
    show ?case
    proof (cases "tr_stop r")
      case False
      from assms show ?thesis
      proof (cases rule: fetch_within [where fo = fo and p = "tu_percentile tu" and raw = "tr_reply r"])
        case (error e)
        then show ?thesis using Cons False by simp
      next
        case (tip v)
        then show ?thesis using Cons.IH [of "tu\<lparr>tu_current_lamports := v\<rparr>"] Cons.prems False by simp
      qed
    qed (use Cons.prems in simp)
  qed auto
  then show ?thesis using assms by (simp add: tip_updater_new_def)
qed

definition demo_floats :: "int float_ops" where
  "demo_floats = \<lparr> fo_of_int = (\<lambda>n. n), fo_add = (+), fo_sub = (-), fo_mul = (*), fo_div = (div), fo_ln = (\<lambda>x. x), fo_exp = (\<lambda>x. x),
     fo_le = (\<le>), fo_lt = (<), fo_to_u64 = of_int \<rparr>"

lemma tip_within_bounds_witness:
  "\<exists>tu. tip_loop demo_floats [\<lparr> tr_stop = False, tr_reply = Some [\<lparr> ta_25 = 1, ta_50 = 2, ta_75 = 3, ta_95 = 4, ta_99 = 5 \<rparr>] \<rparr>]
     (tip_updater_new 50 15000 2000000 5000) = Some tu \<and> 15000 \<le> tu_current_lamports tu \<and> tu_current_lamports tu \<le> 2000000"
  by (rule tip_within_bounds) simp

text \<open>With reversed bounds the first answer ends the task.\<close>

lemma reversed_bounds_panic:
  "tip_loop demo_floats [\<lparr> tr_stop = False, tr_reply = Some [\<lparr> ta_25 = 1, ta_50 = 2, ta_75 = 3, ta_95 = 4, ta_99 = 5 \<rparr>] \<rparr>]
     (tip_updater_new 50 20 10 5000) = None"
  by (simp add: fetch_and_compute_def clamp_u64_def tip_updater_new_def)

text \<open>A percentile between two points is interpolated between exactly those two.\<close>

lemma pair_around_brackets:
  "pair_around fo target ps = Some (a, b) \<Longrightarrow> fo_le fo (fst a) target \<and> fo_le fo target (fst b) \<and>
    (\<exists>i. Suc i < length ps \<and> a = ps ! i \<and> b = ps ! Suc i)"
proof (induction fo target ps rule: pair_around.induct)
  case (1 fo target x y ps)
  show ?case
  proof (cases "fo_le fo (fst x) target \<and> fo_le fo target (fst y)")
    case True
    then show ?thesis using 1 by (auto intro: exI [of _ 0])
  next
    case False
    then obtain i where "fo_le fo (fst a) target \<and> fo_le fo target (fst b)" "Suc i < length (y # ps)" "a = (y # ps) ! i" "b = (y # ps) ! Suc i"
      using 1 by auto
    then show ?thesis by (intro conjI exI [of _ "Suc i"]) auto
  qed
qed simp_all

end
