(* ===== verification/Phase_Observe.thy ===== *)
theory Phase_Observe
  imports Warmup Merger Ordering_Tracker Poh_Supervisor_Props
begin

text \<open>
  The two observation binaries, \<open>bin/phase1_observe.rs\<close> and \<open>bin/phase2_observe.rs\<close>: the warm-up gate
  that feeds several channels, the tracker threads, the waiting loop both binaries have, the
  consumer that checks the order of the supervisor's events, and the reports. A percentage is a
  function \<open>share\<close> of the two counts, as floating point is not modelled.
\<close>

section \<open>Phase 1: the gate with several outputs\<close>

record warmup_fanout =
  wf_startup_slot :: "u64 option"
  wf_warm :: bool
  wf_dropped :: u64
  wf_first_full_slot :: u64
  wf_outs :: "entry_observation chan list"

definition warmup_fanout_init :: "nat \<Rightarrow> warmup_fanout" where
  "warmup_fanout_init n = \<lparr> wf_startup_slot = None, wf_warm = False, wf_dropped = 0, wf_first_full_slot = 0,
     wf_outs = replicate n [] \<rparr>"

text \<open>Every output gets its own \<open>try_send\<close>; output \<open>i\<close> accepts as \<open>accs i\<close> says.\<close>

definition fan_send :: "(nat \<Rightarrow> entry_observation accept) \<Rightarrow> entry_observation \<Rightarrow> entry_observation chan list \<Rightarrow>
    entry_observation chan list" where
  "fan_send accs ob outs = map (\<lambda>(i, ch). fst (try_send (accs i) ch ob)) (enumerate 0 outs)"

definition fanout_obs :: "(nat \<Rightarrow> entry_observation accept) \<Rightarrow> entry_observation \<Rightarrow> warmup_fanout \<Rightarrow> warmup_fanout" where
  "fanout_obs accs ob w =
    (if wf_warm w then w\<lparr>wf_outs := fan_send accs ob (wf_outs w)\<rparr>
     else (case wf_startup_slot w of
       None \<Rightarrow> w\<lparr> wf_startup_slot := Some (obs_slot ob), wf_dropped := wf_dropped w + 1 \<rparr>
     | Some s0 \<Rightarrow> if obs_slot ob \<le> s0 then w\<lparr>wf_dropped := wf_dropped w + 1\<rparr>
         else w\<lparr> wf_warm := True, wf_first_full_slot := obs_slot ob, wf_outs := fan_send accs ob (wf_outs w) \<rparr>))"

fun fanout_loop :: "(nat \<Rightarrow> entry_observation accept) \<Rightarrow> warmup_turn list \<Rightarrow> warmup_fanout \<Rightarrow> warmup_fanout" where
  "fanout_loop accs [] w = w"
| "fanout_loop accs (t # ts) w = (case t of
     WarmStop \<Rightarrow> w | WarmDisconnected \<Rightarrow> w | WarmTimeout \<Rightarrow> fanout_loop accs ts w
   | WarmObs ob \<Rightarrow> fanout_loop accs ts (fanout_obs accs ob w))"

text \<open>The tracker threads: an observation, or a merged entry whose observation is tracked.\<close>

fun obs_tracker_loop :: "warmup_turn list \<Rightarrow> ordering_tracker \<Rightarrow> ordering_tracker" where
  "obs_tracker_loop [] tr = tr"
| "obs_tracker_loop (t # ts) tr = (case t of
     WarmStop \<Rightarrow> tr | WarmDisconnected \<Rightarrow> tr | WarmTimeout \<Rightarrow> obs_tracker_loop ts tr
   | WarmObs ob \<Rightarrow> obs_tracker_loop ts (fst (observe ob tr)))"

datatype merged_turn = MergedObs merged_entry | MergedTimeout | MergedStop | MergedDisconnected

fun merger_tracker_loop :: "merged_turn list \<Rightarrow> ordering_tracker \<Rightarrow> ordering_tracker" where
  "merger_tracker_loop [] tr = tr"
| "merger_tracker_loop (t # ts) tr = (case t of
     MergedStop \<Rightarrow> tr | MergedDisconnected \<Rightarrow> tr | MergedTimeout \<Rightarrow> merger_tracker_loop ts tr
   | MergedObs m \<Rightarrow> merger_tracker_loop ts (fst (observe (me_observation m) tr)))"

section \<open>The waiting loop\<close>

text \<open>What a round reads: the stop flag, the clock and the first full slots. The log is what is announced.\<close>

record phase_round =
  pr_stop :: bool
  pr_now :: instant
  pr_ss_first :: u64
  pr_ys_first :: u64

datatype phase_log = WarmupComplete u64 u64 | PhaseSummary instant

record phase_main =
  pm_next_summary :: instant
  pm_announced :: bool
  pm_log :: "phase_log list"
  pm_ended :: bool

definition phase_main_init :: "instant \<Rightarrow> duration \<Rightarrow> phase_main" where
  "phase_main_init start interval = \<lparr> pm_next_summary = start + interval, pm_announced = False, pm_log = [], pm_ended = False \<rparr>"

definition phase_main_step :: "instant \<Rightarrow> duration \<Rightarrow> duration \<Rightarrow> phase_round \<Rightarrow> phase_main \<Rightarrow> phase_main" where
  "phase_main_step start duration interval r m =
    (if pr_stop r \<or> start + duration \<le> pr_now r then m\<lparr>pm_ended := True\<rparr>
     else (let m1 = (if \<not> pm_announced m \<and> 0 < pr_ss_first r \<and> 0 < pr_ys_first r
             then m\<lparr> pm_announced := True, pm_log := pm_log m @ [WarmupComplete (pr_ss_first r) (pr_ys_first r)] \<rparr> else m)
       in if pm_next_summary m1 \<le> pr_now r
          then m1\<lparr> pm_next_summary := pr_now r + interval, pm_log := pm_log m1 @ [PhaseSummary (pr_now r)] \<rparr> else m1))"

fun phase_main_loop :: "instant \<Rightarrow> duration \<Rightarrow> duration \<Rightarrow> phase_round list \<Rightarrow> phase_main \<Rightarrow> phase_main" where
  "phase_main_loop start duration interval [] m = m"
| "phase_main_loop start duration interval (r # rs) m =
    (let m1 = phase_main_step start duration interval r m
     in if pm_ended m1 then m1 else phase_main_loop start duration interval rs m1)"

section \<open>The reports\<close>

record phase1_report =
  p1_merger :: merger_counters
  p1_ss_ordering :: ordering_counters
  p1_ys_ordering :: ordering_counters
  p1_unified_ordering :: ordering_counters
  p1_ss_per_slot :: "slot_ordering_report list"
  p1_ys_per_slot :: "slot_ordering_report list"
  p1_unified_per_slot :: "slot_ordering_report list"
  p1_ss_warmup_dropped :: u64
  p1_ys_warmup_dropped :: u64
  p1_ss_first_full_slot :: u64
  p1_ys_first_full_slot :: u64

text \<open>The end of \<open>main\<close>: the trackers are flushed, then everything is read.\<close>

definition phase1_report_of ::
  "merger_counters \<Rightarrow> warmup_fanout \<Rightarrow> warmup_fanout \<Rightarrow> ordering_tracker \<Rightarrow> ordering_tracker \<Rightarrow> ordering_tracker \<Rightarrow> phase1_report" where
  "phase1_report_of mc ss ys ss_tr ys_tr un_tr =
    (let ss_fl = fst (flush_all ss_tr); ys_fl = fst (flush_all ys_tr); un_fl = fst (flush_all un_tr)
     in \<lparr> p1_merger = mc, p1_ss_ordering = ot_counters ss_fl, p1_ys_ordering = ot_counters ys_fl,
       p1_unified_ordering = ot_counters un_fl, p1_ss_per_slot = ot_sealed_reports ss_fl,
       p1_ys_per_slot = ot_sealed_reports ys_fl, p1_unified_per_slot = ot_sealed_reports un_fl,
       p1_ss_warmup_dropped = wf_dropped ss, p1_ys_warmup_dropped = wf_dropped ys,
       p1_ss_first_full_slot = wf_first_full_slot ss, p1_ys_first_full_slot = wf_first_full_slot ys \<rparr>)"

definition phase_pct :: "(u64 \<Rightarrow> u64 \<Rightarrow> 'f) \<Rightarrow> 'f \<Rightarrow> u64 \<Rightarrow> u64 \<Rightarrow> 'f" where
  "phase_pct share zero num den = (if den = 0 then zero else share num den)"

definition phase_avg :: "(u64 \<Rightarrow> u64 \<Rightarrow> 'f) \<Rightarrow> 'f \<Rightarrow> u64 \<Rightarrow> u64 \<Rightarrow> 'f" where
  "phase_avg quot zero num den = (if den = 0 then zero else quot num den)"

section \<open>Phase 2: the consumer\<close>

record slot_summary =
  ts_slot :: u64
  ts_is_complete :: bool
  ts_is_incomplete :: bool
  ts_total_entries :: u32
  ts_missing_count :: u32
  ts_last_tick_observed :: u8

record consumer =
  cn_expected_next :: "(u64, u32) hash_map"
  cn_summaries :: "(u64, slot_summary) hash_map"
  cn_violations :: u64

definition consumer_init :: consumer where
  "consumer_init = \<lparr> cn_expected_next = [], cn_summaries = [], cn_violations = 0 \<rparr>"

text \<open>\<open>*expected_next.entry(slot).or_insert(0)\<close>, and the check of an index against it.\<close>

definition expected_index :: "u64 \<Rightarrow> consumer \<Rightarrow> u32" where
  "expected_index slot cn = (case map_of (cn_expected_next cn) slot of Some n \<Rightarrow> n | None \<Rightarrow> 0)"

definition check_index :: "u64 \<Rightarrow> u32 \<Rightarrow> consumer \<Rightarrow> consumer" where
  "check_index slot idx cn = cn\<lparr>
     cn_violations := (if idx \<noteq> expected_index slot cn then cn_violations cn + 1 else cn_violations cn),
     cn_expected_next := hm_insert slot (idx + 1) (cn_expected_next cn) \<rparr>"

definition complete_summary :: "ordered_slot_complete \<Rightarrow> slot_summary" where
  "complete_summary c = \<lparr> ts_slot = osc_slot c, ts_is_complete = True, ts_is_incomplete = False,
     ts_total_entries = osc_total_entries c, ts_missing_count = osc_missing_count c,
     ts_last_tick_observed = osc_last_tick_observed c \<rparr>"

definition incomplete_summary :: "ordered_slot_incomplete \<Rightarrow> slot_summary" where
  "incomplete_summary i = \<lparr> ts_slot = osi_slot i, ts_is_complete = False, ts_is_incomplete = True,
     ts_total_entries = saturating_add (osi_last_seen_index i) 1, ts_missing_count = osi_missing_count i,
     ts_last_tick_observed = osi_last_tick_observed i \<rparr>"

definition process_event :: "ordered_event \<Rightarrow> consumer \<Rightarrow> consumer" where
  "process_event ev cn = (case ev of
     Entry e \<Rightarrow> check_index (oe_slot e) (oe_entry_index e) cn
   | Missing m \<Rightarrow> check_index (om_slot m) (om_entry_index m) cn
   | SlotComplete c \<Rightarrow> cn\<lparr>cn_summaries := hm_insert (osc_slot c) (complete_summary c) (cn_summaries cn)\<rparr>
   | SlotIncomplete i \<Rightarrow> cn\<lparr>cn_summaries := hm_insert (osi_slot i) (incomplete_summary i) (cn_summaries cn)\<rparr>)"

text \<open>When the stop flag is seen, what is still queued is drained.\<close>

datatype consumer_turn = ConsEvent ordered_event | ConsTimeout | ConsDisconnected | ConsStop "ordered_event list"

fun consumer_loop :: "consumer_turn list \<Rightarrow> consumer \<Rightarrow> consumer" where
  "consumer_loop [] cn = cn"
| "consumer_loop (t # ts) cn = (case t of
     ConsEvent ev \<Rightarrow> consumer_loop ts (process_event ev cn)
   | ConsTimeout \<Rightarrow> consumer_loop ts cn
   | ConsDisconnected \<Rightarrow> cn
   | ConsStop queued \<Rightarrow> fold process_event queued cn)"

record phase2_report =
  p2_merger :: merger_counters
  p2_supervisor :: supervisor_counters
  p2_sample_slots :: "slot_summary list"
  p2_ss_warmup_dropped :: u64
  p2_ys_warmup_dropped :: u64
  p2_ss_first_full_slot :: u64
  p2_ys_first_full_slot :: u64

definition phase2_report_of :: "merger_counters \<Rightarrow> supervisor_counters \<Rightarrow> consumer \<Rightarrow> warmup_fanout \<Rightarrow> warmup_fanout \<Rightarrow> phase2_report" where
  "phase2_report_of mc sc cn ss ys = \<lparr> p2_merger = mc, p2_supervisor = sc,
     p2_sample_slots = sort_key ts_slot (map snd (cn_summaries cn)), p2_ss_warmup_dropped = wf_dropped ss,
     p2_ys_warmup_dropped = wf_dropped ys, p2_ss_first_full_slot = wf_first_full_slot ss,
     p2_ys_first_full_slot = wf_first_full_slot ys \<rparr>"

section \<open>The gate\<close>

lemma fan_send_attempts: "map attempts (fan_send accs ob outs) = map (\<lambda>ch. attempts ch @ [ob]) outs"
proof -
  have "map attempts (map (\<lambda>(i, ch). fst (try_send (accs i) ch ob)) (enumerate n outs)) = map (\<lambda>ch. attempts ch @ [ob]) outs" for n
    by (induction outs arbitrary: n) simp_all
  then show ?thesis by (simp only: fan_send_def)
qed

text \<open>What the outputs were offered, relative to a start.\<close>

definition offered :: "entry_observation chan list \<Rightarrow> entry_observation list \<Rightarrow> entry_observation chan list \<Rightarrow> bool" where
  "offered outs obs outs' \<longleftrightarrow> map attempts outs' = map (\<lambda>ch. attempts ch @ obs) outs"

lemma offered_nil [simp]: "offered outs [] outs" by (simp add: offered_def)

lemma offered_send: "offered outs [ob] (fan_send accs ob outs)" by (simp add: offered_def fan_send_attempts)

lemma offered_append: "offered outs xs outs' \<Longrightarrow> offered outs' ys outs'' \<Longrightarrow> offered outs (xs @ ys) outs''"
proof -
  assume a: "offered outs xs outs'" and b: "offered outs' ys outs''"
  have "map (\<lambda>ch. attempts ch @ ys) outs' = map (\<lambda>at. at @ ys) (map attempts outs')" by simp
  also have "\<dots> = map (\<lambda>ch. attempts ch @ (xs @ ys)) outs" using a by (simp add: offered_def)
  finally show ?thesis using b by (simp add: offered_def)
qed

lemmas offered_cons = offered_append [OF offered_send, simplified]

lemma fanout_warm: "wf_warm w \<Longrightarrow>
    offered (wf_outs w) (warmup_received ts) (wf_outs (fanout_loop accs ts w)) \<and>
    wf_first_full_slot (fanout_loop accs ts w) = wf_first_full_slot w \<and> wf_dropped (fanout_loop accs ts w) = wf_dropped w"
proof (induction ts arbitrary: w)
  case (Cons t ts)
  show ?case
  proof (cases t)
    case (WarmObs ob)
    show ?thesis using Cons.IH [of "fanout_obs accs ob w"] Cons.prems WarmObs
      by (auto simp: fanout_obs_def intro: offered_cons)
  qed (use Cons in simp_all)
qed simp

abbreviation keep_after :: "u64 \<Rightarrow> entry_observation list \<Rightarrow> entry_observation list" where
  "keep_after s0 \<equiv> dropWhile (\<lambda>x. obs_slot x \<le> s0)"

lemma fanout_started: "wf_startup_slot w = Some s0 \<Longrightarrow> \<not> wf_warm w \<Longrightarrow>
    offered (wf_outs w) (keep_after s0 (warmup_received ts)) (wf_outs (fanout_loop accs ts w)) \<and>
    wf_first_full_slot (fanout_loop accs ts w) = first_slot (wf_first_full_slot w) (keep_after s0 (warmup_received ts)) \<and>
    wf_dropped (fanout_loop accs ts w) =
      wf_dropped w + of_nat (length (takeWhile (\<lambda>x. obs_slot x \<le> s0) (warmup_received ts)))"
proof (induction ts arbitrary: w)
  case (Cons t ts)
  show ?case
  proof (cases t)
    case (WarmObs ob)
    show ?thesis
    proof (cases "obs_slot ob \<le> s0")
      case True
      then show ?thesis using Cons.IH [of "fanout_obs accs ob w"] Cons.prems WarmObs by (simp add: fanout_obs_def add_ac)
    next
      case False
      then show ?thesis using fanout_warm [of "fanout_obs accs ob w"] Cons.prems WarmObs
        by (auto simp: fanout_obs_def intro: offered_cons)
    qed
  qed (use Cons in simp_all)
qed simp

lemma fanout_fresh: "wf_startup_slot w = None \<Longrightarrow> \<not> wf_warm w \<Longrightarrow>
    offered (wf_outs w) (skip_startup (warmup_received ts)) (wf_outs (fanout_loop accs ts w)) \<and>
    wf_first_full_slot (fanout_loop accs ts w) = first_slot (wf_first_full_slot w) (skip_startup (warmup_received ts)) \<and>
    wf_dropped (fanout_loop accs ts w) =
      wf_dropped w + of_nat (length (warmup_received ts) - length (skip_startup (warmup_received ts)))"
proof (induction ts arbitrary: w)
  case (Cons t ts)
  show ?case
  proof (cases t)
    case (WarmObs ob)
    have "length (takeWhile P xs) = length xs - length (dropWhile P xs)" for P and xs :: "entry_observation list"
      using length_append [of "takeWhile P xs" "dropWhile P xs"] by simp
    moreover have "Suc (length xs) - length (dropWhile P xs) = Suc (length xs - length (dropWhile P xs))" for P and xs :: "entry_observation list"
      using length_dropWhile_le [of P xs] by simp
    ultimately show ?thesis using fanout_started [of "fanout_obs accs ob w" "obs_slot ob" ts accs] Cons.prems WarmObs
      by (simp add: fanout_obs_def add_ac)
  qed (use Cons in simp_all)
qed simp

text \<open>The gate offers every output the same observations, namely those the reference function keeps, in
  order; it counts every observation it dropped and reports the slot of the first one it passed on.\<close>
theorem fanout_same_for_all:
  "list_all (\<lambda>ch. attempts ch = skip_startup (warmup_received ts)) (wf_outs (fanout_loop accs ts (warmup_fanout_init n))) \<and>
   length (wf_outs (fanout_loop accs ts (warmup_fanout_init n))) = n \<and>
   wf_first_full_slot (fanout_loop accs ts (warmup_fanout_init n)) = first_slot 0 (skip_startup (warmup_received ts)) \<and>
   wf_dropped (fanout_loop accs ts (warmup_fanout_init n)) =
     of_nat (length (warmup_received ts) - length (skip_startup (warmup_received ts)))"
proof -
  let ?w = "fanout_loop accs ts (warmup_fanout_init n)" and ?k = "skip_startup (warmup_received ts)"
  have f: "offered (wf_outs (warmup_fanout_init n)) ?k (wf_outs ?w)"
    "wf_first_full_slot ?w = first_slot 0 ?k"
    "wf_dropped ?w = of_nat (length (warmup_received ts) - length ?k)"
    using fanout_fresh [of "warmup_fanout_init n" ts accs] by (simp_all add: warmup_fanout_init_def)
  then have m: "map attempts (wf_outs ?w) = replicate n ?k" by (simp add: offered_def warmup_fanout_init_def)
  then have "length (wf_outs ?w) = n" by (metis length_map length_replicate)
  moreover have "attempts ch = ?k" if "ch \<in> set (wf_outs ?w)" for ch
    using m that by (metis in_set_replicate image_eqI list.set_map)
  ultimately show ?thesis using f(2,3) by (simp add: list_all_iff)
qed

section \<open>The consumer\<close>

text \<open>The events a consumer takes over its turns.\<close>

fun consumed :: "consumer_turn list \<Rightarrow> ordered_event list" where
  "consumed [] = []"
| "consumed (t # ts) = (case t of
     ConsEvent ev \<Rightarrow> ev # consumed ts | ConsTimeout \<Rightarrow> consumed ts | ConsDisconnected \<Rightarrow> [] | ConsStop queued \<Rightarrow> queued)"

lemma consumer_loop_fold: "consumer_loop ts cn = fold process_event (consumed ts) cn"
  by (induction ts arbitrary: cn) (auto split: consumer_turn.splits)

abbreviation of_slot :: "u64 \<Rightarrow> ordered_event list \<Rightarrow> ordered_event list" where
  "of_slot s \<equiv> filter (\<lambda>e. ev_slot e = s)"

text \<open>A slot whose events are one block: no seal but the last event.\<close>

definition one_block :: "ordered_event list \<Rightarrow> bool" where
  "one_block es \<longleftrightarrow> (\<exists>b. block_run block_empty es = Some b) \<and> filter is_seal (butlast es) = []"

lemma one_block_prefix:
  assumes "one_block (xs @ e # ys)"
  obtains b where "block_run block_empty xs = Some b" "filter is_seal xs = []" "block_step b e \<noteq> None"
  using assms by (auto simp: one_block_def block_run_append butlast_append split: option.splits if_splits)

lemma block_step_next: "block_step b e = Some b' \<Longrightarrow> \<not> is_seal e \<Longrightarrow> bk_next b' = Suc (bk_next b)"
  by (cases e) (auto split: if_splits)

text \<open>The state of the consumer after the events \<open>xs\<close>.\<close>

definition consumer_ok :: "ordered_event list \<Rightarrow> consumer \<Rightarrow> bool" where
  "consumer_ok xs cn \<longleftrightarrow> cn_violations cn = 0 \<and>
     (\<forall>s b. block_run block_empty (of_slot s xs) = Some b \<longrightarrow> filter is_seal (of_slot s xs) = [] \<longrightarrow>
        expected_index s cn = of_nat (bk_next b)) \<and>
     set (map_keys (cn_summaries cn)) = ev_slot ` set (filter is_seal xs)"

lemma consumer_ok_expected: "consumer_ok xs cn \<Longrightarrow> block_run block_empty (of_slot s xs) = Some b \<Longrightarrow>
    filter is_seal (of_slot s xs) = [] \<Longrightarrow> expected_index s cn = of_nat (bk_next b)"
  by (simp add: consumer_ok_def)

lemma consumer_ok_init: "consumer_ok [] consumer_init"
  by (simp add: consumer_ok_def consumer_init_def expected_index_def block_empty_def)

text \<open>The index an event carries, and what checking it does.\<close>

fun ev_index :: "ordered_event \<Rightarrow> u32" where
  "ev_index (Entry e) = oe_entry_index e"
| "ev_index (Missing m) = om_entry_index m"
| "ev_index _ = 0"

lemma process_unsealed: "\<not> is_seal e \<Longrightarrow> process_event e cn = check_index (ev_slot e) (ev_index e) cn"
  by (cases e) (simp_all add: process_event_def)

lemma process_sealed: "is_seal e \<Longrightarrow>
    cn_violations (process_event e cn) = cn_violations cn \<and> expected_index s (process_event e cn) = expected_index s cn \<and>
    set (map_keys (cn_summaries (process_event e cn))) = insert (ev_slot e) (set (map_keys (cn_summaries cn)))"
  by (cases e) (simp_all add: process_event_def expected_index_def dom_update)

lemma block_step_index: "block_step b e \<noteq> None \<Longrightarrow> \<not> is_seal e \<Longrightarrow> ev_index e = of_nat (bk_next b)"
  by (cases e) (auto simp: entry_ok_def split: if_splits)

lemma expected_check: "expected_index s (check_index s' i cn) = (if s = s' then i + 1 else expected_index s cn)"
  by (simp add: expected_index_def check_index_def update_conv')

lemma consumer_ok_step:
  assumes ok: "consumer_ok xs cn" and one: "one_block (of_slot (ev_slot e) (xs @ e # ys))"
  shows "consumer_ok (xs @ [e]) (process_event e cn)"
proof -
  have "one_block (of_slot (ev_slot e) xs @ e # of_slot (ev_slot e) ys)" using one by simp
  then obtain b where b: "block_run block_empty (of_slot (ev_slot e) xs) = Some b"
    "filter is_seal (of_slot (ev_slot e) xs) = []" "block_step b e \<noteq> None" by (rule one_block_prefix)
  show ?thesis
  proof (cases "is_seal e")
    case True
    show ?thesis
      unfolding consumer_ok_def
    proof (intro conjI allI impI)
      fix s b' assume p: "block_run block_empty (of_slot s (xs @ [e])) = Some b'" "filter is_seal (of_slot s (xs @ [e])) = []"
      have "s \<noteq> ev_slot e" using p(2) True by auto
      then show "expected_index s (process_event e cn) = of_nat (bk_next b')"
        using p consumer_ok_expected [OF ok] process_sealed [OF True] by simp
    qed (use ok process_sealed [OF True] True in \<open>auto simp: consumer_ok_def\<close>)
  next
    case False
    have idx: "ev_index e = expected_index (ev_slot e) cn"
      using block_step_index [OF b(3) False] consumer_ok_expected [OF ok b(1,2)] by simp
    show ?thesis
      unfolding consumer_ok_def
    proof (intro conjI allI impI)
      fix s b' assume p: "block_run block_empty (of_slot s (xs @ [e])) = Some b'" "filter is_seal (of_slot s (xs @ [e])) = []"
      show "expected_index s (process_event e cn) = of_nat (bk_next b')"
      proof (cases "s = ev_slot e")
        case True
        have "block_step b e = Some b'" using p(1) b(1) True by (auto simp: block_run_append split: option.splits)
        then show ?thesis
          using True False block_step_next block_step_index [OF b(3) False] by (simp add: process_unsealed expected_check)
      next
        case other: False
        then show ?thesis
          using p consumer_ok_expected [OF ok, of s b'] False by (simp add: process_unsealed expected_check)
      qed
    qed (use ok idx False in \<open>simp_all add: consumer_ok_def process_unsealed check_index_def\<close>)
  qed
qed

lemma consumer_ok_fold:
  assumes "\<And>s. one_block (of_slot s (xs @ ys @ zs))" "consumer_ok xs cn"
  shows "consumer_ok (xs @ ys) (fold process_event ys cn)"
  using assms
proof (induction ys arbitrary: xs cn)
  case (Cons y ys)
  have "consumer_ok (xs @ [y]) (process_event y cn)"
    by (rule consumer_ok_step [OF Cons.prems(2), of _ "ys @ zs"]) (use Cons.prems(1) [of "ev_slot y"] in simp)
  from Cons.IH [OF _ this] Cons.prems(1) show ?case by simp
qed simp

lemma same_slot_short: "distinct (map ev_slot (of_slot s es)) \<Longrightarrow> length (of_slot s es) \<le> 1"
proof (cases "of_slot s es")
  case (Cons e fs)
  assume d: "distinct (map ev_slot (of_slot s es))"
  have "ev_slot f = s" if "f \<in> set (e # fs)" for f using that arg_cong [OF Cons, of set] by auto
  then show ?thesis using d Cons by (cases fs) auto
qed simp

text \<open>At shutdown the events of a slot are one block if the slot was sealed once.\<close>

lemma run_one_block:
  assumes "evs = attempts (env_out (sv_env (supervisor_run acc cfg start ts now)))"
    and "distinct (map ev_slot (filter is_seal evs))"
  shows "one_block (of_slot s evs)"
proof -
  let ?sv = "supervisor_run acc cfg start ts now"
  have ev: "slot_events s (sv_env ?sv) = of_slot s evs" using assms(1) by (simp add: slot_events_def)
  have r: "block_run block_empty (of_slot s evs) = Some block_empty"
  proof (rule run_slot_inv [of cfg ts acc start now s])
    fix ost assume "slot_inv cfg (received ts) (sv_max_slot ?sv) s (sv_env ?sv) ost" "ost = None \<or> sealed_state ost"
    then show ?thesis using ev by (auto simp: slot_inv_def split: if_splits)
  qed
  have "distinct (map ev_slot (of_slot s (filter is_seal evs)))"
    using assms(2) by (rule distinct_map_filter)
  moreover have "of_slot s (filter is_seal evs) = filter is_seal (of_slot s evs)" by (simp add: conj_commute)
  ultimately have l: "length (filter is_seal (of_slot s evs)) \<le> 1" using same_slot_short by metis
  have "filter is_seal (butlast (of_slot s evs)) = []"
  proof (cases "of_slot s evs" rule: rev_cases)
    case (snoc es e)
    then show ?thesis using l block_run_closed [OF r] by simp
  qed simp
  then show ?thesis using r by (simp add: one_block_def)
qed


text \<open>Slot 100 has a gap at index 1 and is sealed once slot 120 has come.\<close>

definition demo_consumed :: "consumer_turn list" where
  "demo_consumed = [ConsTimeout, ConsStop (attempts (env_out (sv_env
     (supervisor_run (\<lambda>_ _. True) demo_cfg 0 demo_turns 30))))]"


text \<open>The comment at the summary of an incomplete slot says that the number of entries is off by at most
  one; it is the last index plus one, so every \<open>Missing\<close> index below it is counted as an entry.\<close>

lemma incomplete_total_counts_missing:
  assumes "block_run block_empty [Missing m, Missing m', Entry e, SlotIncomplete i] = Some block_empty"
  shows "ts_total_entries (incomplete_summary i) = 3"
  using assms by (auto simp: incomplete_summary_def block_empty_def entry_ok_def last_index_def saturating_add_def split: if_splits)

text \<open>The consumer never forgets the index it expects: a slot that is opened again starts with index 0 and
  is reported as a violation.\<close>

lemma reopened_slot_is_violation:
  assumes "oe_slot e = s" "oe_entry_index e = 0" "oe_slot e' = s" "oe_entry_index e' = 0" "osi_slot i = s"
  shows "cn_violations (fold process_event [Entry e, SlotIncomplete i, Entry e'] consumer_init) = 1"
  using assms by (simp add: process_event_def check_index_def expected_index_def consumer_init_def update_conv')

end
