(* ===== verification/Jito_Diagnostics.thy ===== *)
theory Jito_Diagnostics
  imports Sender_Base Tip_Accounts Tx_Builder Rust_Parse
begin

text \<open>
  The two diagnostic programs \<open>bin/minimal_jito_swap_test.rs\<close> and \<open>bin/minimal_jito_test.rs\<close>: they build
  one transaction with the tip inside, simulate it, post it as a bundle and poll its status. The RPC node,
  Jupiter, the block engine and the libraries that compile and sign are the record \<open>diag_env\<close>; a run is
  the list of its POST requests and how it ended. An error of \<open>anyhow\<close> is its outermost context.
\<close>

named_theorems result_iff "when a step of a fallible computation succeeds"

section \<open>Results\<close>

definition ctx :: "string \<Rightarrow> 'a option \<Rightarrow> string + 'a" where
  "ctx msg x = (case x of Some a \<Rightarrow> Inr a | None \<Rightarrow> Inl msg)"

definition and_then :: "'e + 'a \<Rightarrow> ('a \<Rightarrow> 'e + 'b) \<Rightarrow> 'e + 'b" where
  "and_then x f = (case x of Inl e \<Rightarrow> Inl e | Inr a \<Rightarrow> f a)"

text \<open>\<open>collect::<Result<_>>\<close> and loops that leave with \<open>?\<close>.\<close>

fun try_all :: "('a \<Rightarrow> 'e + 'b) \<Rightarrow> 'a list \<Rightarrow> 'e + 'b list" where
  "try_all f [] = Inr []"
| "try_all f (x # xs) = and_then (f x) (\<lambda>y. and_then (try_all f xs) (\<lambda>ys. Inr (y # ys)))"

definition recontext :: "string \<Rightarrow> string + 'a \<Rightarrow> string + 'a" where
  "recontext msg x = (case x of Inl _ \<Rightarrow> Inl msg | Inr a \<Rightarrow> Inr a)"

lemma ctx_iff [result_iff]: "ctx msg x = Inr a \<longleftrightarrow> x = Some a"
  by (simp add: ctx_def split: option.split)

lemma and_then_iff [result_iff]: "and_then x f = Inr b \<longleftrightarrow> (\<exists>a. x = Inr a \<and> f a = Inr b)"
  by (simp add: and_then_def split: sum.split)

lemma recontext_iff [result_iff]: "recontext msg x = Inr a \<longleftrightarrow> x = Inr a"
  by (simp add: recontext_def split: sum.split)

lemma try_all_iff [result_iff]: "try_all f xs = Inr ys \<longleftrightarrow> list_all2 (\<lambda>x y. f x = Inr y) xs ys"
  by (induction xs arbitrary: ys) (auto simp: and_then_iff list_all2_Cons1)

section \<open>JSON values\<close>

fun json_array :: "json \<Rightarrow> json list option" where
  "json_array (JArray xs) = Some xs" | "json_array _ = None"

fun json_bool :: "json \<Rightarrow> bool option" where
  "json_bool (JBool b) = Some b" | "json_bool _ = None"

definition get_flag :: "string \<Rightarrow> json \<Rightarrow> bool" where
  "get_flag k v = or_default False (Option.bind (json_get k v) json_bool)"

text \<open>\<open>v.pointer("/result/value/0/status")\<close> and its string.\<close>

fun json_first :: "json \<Rightarrow> json option" where
  "json_first (JArray (x # _)) = Some x" | "json_first (JObject kvs) = map_of kvs ''0''" | "json_first _ = None"

definition first_value :: "json \<Rightarrow> json option" where
  "first_value v = Option.bind (json_get ''result'' v) (\<lambda>r. Option.bind (json_get ''value'' r) json_first)"

definition bundle_status :: "json \<Rightarrow> string" where
  "bundle_status v = or_default ''unknown'' (Option.bind (first_value v) (json_str ''status''))"

section \<open>URLs\<close>

definition JITO_BUNDLES_URL :: string where
  "JITO_BUNDLES_URL = ''https://frankfurt.mainnet.block-engine.jito.wtf/api/v1/bundles''"

definition default_jito_bundles_url :: "config \<Rightarrow> string" where
  "default_jito_bundles_url cfg =
    (case find (\<lambda>s. sd_kind s = Jito \<and> sd_enabled s \<and> sd_regions s \<noteq> []) (cf_senders cfg) of
       Some s \<Rightarrow> str_replace ''{region}'' (sd_regions s ! 0) (sd_endpoint_url s)
     | None \<Rightarrow> JITO_BUNDLES_URL)"

definition jito_method_url :: "string \<Rightarrow> string \<Rightarrow> string" where
  "jito_method_url bundles_url method =
    (let (url, query) = (case split_once CHR ''?'' bundles_url of Some (u, q) \<Rightarrow> (u, Some q) | None \<Rightarrow> (bundles_url, None));
         method_url = (case strip_suffix ''/bundles'' url of Some p \<Rightarrow> p @ ''/'' @ method | None \<Rightarrow> url)
     in case query of Some q \<Rightarrow> method_url @ ''?'' @ q | None \<Rightarrow> method_url)"

section \<open>Instructions from Jupiter\<close>

record account_meta =
  am_pubkey :: pubkey
  am_is_signer :: bool
  am_is_writable :: bool

record raw_instruction =
  ri_program_id :: pubkey
  ri_accounts :: "account_meta list"
  ri_data :: bytes

datatype work_ix = Plain instruction | Raw raw_instruction

definition parse_jup_meta :: "(string \<Rightarrow> pubkey option) \<Rightarrow> json \<Rightarrow> string + account_meta" where
  "parse_jup_meta from_str a =
    and_then (ctx ''account.pubkey missing'' (json_str ''pubkey'' a)) (\<lambda>s.
    and_then (ctx ''account.pubkey parse'' (from_str s)) (\<lambda>pk.
      Inr \<lparr> am_pubkey = pk, am_is_signer = get_flag ''isSigner'' a, am_is_writable = get_flag ''isWritable'' a \<rparr>))"

definition parse_jup_ix :: "(string \<Rightarrow> pubkey option) \<Rightarrow> (string \<Rightarrow> bytes option) \<Rightarrow> json \<Rightarrow> string + raw_instruction" where
  "parse_jup_ix from_str decode v =
    and_then (ctx ''ix.programId missing'' (json_str ''programId'' v)) (\<lambda>p.
    and_then (ctx ''ix.programId parse'' (from_str p)) (\<lambda>program_id.
    and_then (ctx ''ix.accounts missing'' (Option.bind (json_get ''accounts'' v) json_array)) (\<lambda>accounts.
    and_then (try_all (parse_jup_meta from_str) accounts) (\<lambda>metas.
    and_then (ctx ''ix.data missing'' (json_str ''data'' v)) (\<lambda>data_b64.
    and_then (ctx ''ix.data base64 decode'' (decode data_b64)) (\<lambda>data.
      Inr \<lparr> ri_program_id = program_id, ri_accounts = metas, ri_data = data \<rparr>))))))"

section \<open>The outside\<close>

text \<open>A simulation that cannot be made is \<open>None\<close>; otherwise it says whether the transaction failed. A poll is
  the time elapsed and the reply, if there was one.\<close>

record diag_env =
  dv_from_str :: "string \<Rightarrow> pubkey option"
  dv_decode :: "string \<Rightarrow> bytes option"
  dv_base64 :: "bytes \<Rightarrow> string"
  dv_balance :: "u64 option"
  dv_quote :: "string \<Rightarrow> json option"
  dv_swap_instructions :: "string \<Rightarrow> json \<Rightarrow> json option"
  dv_account :: "pubkey \<Rightarrow> bytes option"
  dv_table :: "bytes \<Rightarrow> pubkey list option"
  dv_blockhash :: "hash option"
  dv_compile :: "pubkey \<Rightarrow> work_ix list \<Rightarrow> (pubkey \<times> pubkey list) list \<Rightarrow> hash \<Rightarrow> signed_tx option"
  dv_show_sig :: "signature \<Rightarrow> string"
  dv_show_key :: "pubkey \<Rightarrow> string"
  dv_simulate :: "signed_tx \<Rightarrow> bool option"
  dv_reply :: "string option"
  dv_json :: "string \<Rightarrow> json option"
  dv_polls :: "(duration \<times> json option) list"
  dv_statuses :: "json option"
  dv_signatures :: "json option"

definition fetch_alts :: "diag_env \<Rightarrow> pubkey list \<Rightarrow> string + (pubkey \<times> pubkey list) list" where
  "fetch_alts dv keys = try_all (\<lambda>key.
     and_then (ctx ''get ALT'' (dv_account dv key)) (\<lambda>acc.
     and_then (ctx ''deserialize ALT'' (dv_table dv acc)) (\<lambda>addresses. Inr (key, addresses)))) keys"

definition jito_tip_account :: "diag_env \<Rightarrow> string + pubkey" where
  "jito_tip_account dv = ctx ''no jito tip accounts'' (Option.bind (tip_accounts_for (dv_from_str dv) Jito)
     (\<lambda>ks. case ks of [] \<Rightarrow> None | k # _ \<Rightarrow> Some k))"

section \<open>The swap\<close>

record swap_args =
  wa_tip_lamports :: u64
  wa_priority_fee :: "u64 option"
  wa_wait_secs :: u64
  wa_jito_url :: "string option"
  wa_input_mint :: string
  wa_output_mint :: string
  wa_amount_in :: u64
  wa_slippage_bps :: u16
  wa_jupiter_url :: string
  wa_jito_auth :: "string option"

definition quote_url :: "swap_args \<Rightarrow> string" where
  "quote_url wa = trim_end_matches CHR ''/'' (wa_jupiter_url wa) @ ''/quote?inputMint='' @ wa_input_mint wa @ ''&outputMint='' @
     wa_output_mint wa @ ''&amount='' @ show_word (wa_amount_in wa) @ ''&slippageBps='' @ show_word (wa_slippage_bps wa) @
     ''&onlyDirectRoutes=true''"

definition swap_request :: "diag_env \<Rightarrow> pubkey \<Rightarrow> json \<Rightarrow> json" where
  "swap_request dv payer quote = JObject [(''userPublicKey'', JString (dv_show_key dv payer)), (''quoteResponse'', quote),
     (''wrapAndUnwrapSol'', JBool True), (''dynamicComputeUnitLimit'', JBool True), (''useSharedAccounts'', JBool True)]"

definition compute_unit_limit :: "json \<Rightarrow> u64" where
  "compute_unit_limit resp = or_default 400000 (Option.bind (json_get ''computeUnitLimit'' resp) json_u64)"

text \<open>Price and limit, setup, swap, cleanup, and the tip as the last instruction.\<close>

definition budget_ixs :: "u64 \<Rightarrow> json \<Rightarrow> work_ix list" where
  "budget_ixs fee resp = (if fee > 0 then [Plain (SetComputeUnitPrice fee)] else []) @
     [Plain (SetComputeUnitLimit (ucast (compute_unit_limit resp)))]"

definition setup_values :: "json \<Rightarrow> json list" where
  "setup_values resp = or_default [] (Option.bind (json_get ''setupInstructions'' resp) json_array)"

definition cleanup_values :: "json \<Rightarrow> json list" where
  "cleanup_values resp = (case json_get ''cleanupInstruction'' resp of None \<Rightarrow> [] | Some JNull \<Rightarrow> [] | Some v \<Rightarrow> [v])"

definition swap_instructions :: "diag_env \<Rightarrow> swap_args \<Rightarrow> u64 \<Rightarrow> pubkey \<Rightarrow> pubkey \<Rightarrow> json \<Rightarrow> string + work_ix list" where
  "swap_instructions dv wa fee payer tip resp =
    (let parse = (\<lambda>msg v. recontext msg (parse_jup_ix (dv_from_str dv) (dv_decode dv) v)) in
     and_then (try_all (parse ''parse setup ix'') (setup_values resp)) (\<lambda>setup.
     and_then (ctx ''missing swapInstruction'' (json_get ''swapInstruction'' resp)) (\<lambda>v.
     and_then (parse ''parse swap ix'' v) (\<lambda>swap.
     and_then (try_all (parse ''parse cleanup ix'') (cleanup_values resp)) (\<lambda>cleanup.
       Inr (budget_ixs fee resp @ map Raw (setup @ [swap] @ cleanup) @ [Plain (Transfer payer tip (wa_tip_lamports wa))]))))))"

definition alt_keys :: "diag_env \<Rightarrow> json \<Rightarrow> pubkey list" where
  "alt_keys dv resp = (case Option.bind (json_get ''addressLookupTableAddresses'' resp) json_array of
     None \<Rightarrow> [] | Some arr \<Rightarrow> List.map_filter (dv_from_str dv) (List.map_filter (\<lambda>v. case v of JString s \<Rightarrow> Some s | _ \<Rightarrow> None) arr))"

definition jupiter_reply :: "diag_env \<Rightarrow> swap_args \<Rightarrow> pubkey \<Rightarrow> string + json" where
  "jupiter_reply dv wa payer =
    and_then (ctx ''jupiter quote'' (dv_quote dv (quote_url wa))) (\<lambda>quote.
    and_then (ctx ''jupiter swap-instructions'' (dv_swap_instructions dv
        (trim_end_matches CHR ''/'' (wa_jupiter_url wa) @ ''/swap-instructions'') (swap_request dv payer quote))) (\<lambda>resp.
      case json_get ''error'' resp of Some _ \<Rightarrow> Inl ''jupiter swap-instructions error'' | None \<Rightarrow> Inr resp))"

definition compile_tx ::
  "diag_env \<Rightarrow> pubkey \<Rightarrow> work_ix list \<Rightarrow> (pubkey \<times> pubkey list) list \<Rightarrow> hash \<Rightarrow> string + signed_tx" where
  "compile_tx dv payer ixs alts blockhash =
    and_then (ctx ''compile and sign v0 tx'' (dv_compile dv payer ixs alts blockhash)) (\<lambda>tx.
    and_then (ctx ''bincode serialize'' (sx_bincode tx)) (\<lambda>_. Inr tx))"

definition swap_prepare :: "diag_env \<Rightarrow> swap_args \<Rightarrow> config \<Rightarrow> pubkey \<Rightarrow> string + signed_tx" where
  "swap_prepare dv wa cfg payer =
    and_then (ctx ''get balance'' (dv_balance dv)) (\<lambda>_.
    and_then (jito_tip_account dv) (\<lambda>tip.
    and_then (jupiter_reply dv wa payer) (\<lambda>resp.
    and_then (swap_instructions dv wa (or_default (tc_priority_fee_microlamports (cf_tx cfg)) (wa_priority_fee wa)) payer tip resp) (\<lambda>ixs.
    and_then (recontext ''fetch ALTs'' (fetch_alts dv (alt_keys dv resp))) (\<lambda>alts.
    and_then (ctx ''get_latest_blockhash'' (dv_blockhash dv)) (\<lambda>blockhash.
      compile_tx dv payer ixs alts blockhash))))))"

section \<open>The plain transfer\<close>

record test_args =
  ta_tip_lamports :: u64
  ta_no_self_transfer :: bool
  ta_transfer_to :: "string option"
  ta_transfer_lamports :: u64
  ta_wait_secs :: u64
  ta_jito_url :: "string option"
  ta_use_send_transaction :: bool
  ta_jito_auth :: "string option"

definition transfer_work :: "diag_env \<Rightarrow> test_args \<Rightarrow> pubkey \<Rightarrow> string + work_ix list" where
  "transfer_work dv ta payer =
    (if ta_no_self_transfer ta then Inr []
     else and_then (case ta_transfer_to ta of None \<Rightarrow> Inr payer
         | Some s \<Rightarrow> ctx ''parse --transfer-to pubkey'' (dv_from_str dv s)) (\<lambda>recipient.
       Inr [Plain (Transfer payer recipient (ta_transfer_lamports ta))]))"

definition transfer_prepare :: "diag_env \<Rightarrow> test_args \<Rightarrow> pubkey \<Rightarrow> string + signed_tx" where
  "transfer_prepare dv ta payer =
    and_then (ctx ''get balance'' (dv_balance dv)) (\<lambda>_.
    and_then (jito_tip_account dv) (\<lambda>tip.
    and_then (ctx ''get_latest_blockhash'' (dv_blockhash dv)) (\<lambda>blockhash.
    and_then (transfer_work dv ta payer) (\<lambda>work.
      compile_tx dv payer (Plain (Memo payer (as_bytes ''minimal_jito_test'')) # work @
        [Plain (Transfer payer tip (ta_tip_lamports ta))]) [] blockhash))))"

section \<open>Sending and polling\<close>

record post =
  po_url :: string
  po_body :: json
  po_auth :: "string option"

datatype diag_end = DiagFailed string | SimulationFailed | NotAccepted | DiagOver json | DiagPolling

definition rpc_body :: "string \<Rightarrow> json list \<Rightarrow> json" where
  "rpc_body method params = JObject [(''jsonrpc'', JString ''2.0''), (''id'', JNumber 1), (''method'', JString method),
     (''params'', JArray params)]"

definition bundle_body :: "diag_env \<Rightarrow> signed_tx \<Rightarrow> json" where
  "bundle_body dv tx = rpc_body ''sendBundle'' [JArray [JString (dv_base64 dv (wire_bytes tx))],
     JObject [(''encoding'', JString ''base64'')]]"

definition transaction_body :: "diag_env \<Rightarrow> signed_tx \<Rightarrow> json" where
  "transaction_body dv tx = rpc_body ''sendTransaction'' [JString (dv_base64 dv (wire_bytes tx)),
     JObject [(''encoding'', JString ''base64''), (''skipPreflight'', JBool True)]]"

definition status_post :: "string \<Rightarrow> string \<Rightarrow> string \<Rightarrow> post" where
  "status_post jito_url method bundle_id = \<lparr> po_url = jito_method_url jito_url method,
     po_body = rpc_body method [JArray [JString bundle_id]], po_auth = None \<rparr>"

definition signature_post :: "diag_env \<Rightarrow> string \<Rightarrow> signed_tx \<Rightarrow> post" where
  "signature_post dv rpc_url tx = \<lparr> po_url = rpc_url, po_body = rpc_body ''getSignatureStatuses''
     [JArray [JString (dv_show_sig dv (local_signature tx))], JObject [(''searchTransactionHistory'', JBool True)]], po_auth = None \<rparr>"

fun poll_loop :: "duration \<Rightarrow> post \<Rightarrow> (duration \<times> json option) list \<Rightarrow> post list \<times> diag_end" where
  "poll_loop wait p [] = ([], DiagPolling)"
| "poll_loop wait p ((elapsed, reply) # rs) = (case reply of
     None \<Rightarrow> ([p], DiagFailed ''getInflightBundleStatuses'')
   | Some v \<Rightarrow> if bundle_status v \<in> {''Landed'', ''Failed''} \<or> wait \<le> elapsed then ([p], DiagOver v)
       else (case poll_loop wait p rs of (ps, e) \<Rightarrow> (p # ps, e)))"

text \<open>After the bundle: its status until it is final or the time is up, then the two closing queries.\<close>

definition closing_query :: "post \<Rightarrow> string \<Rightarrow> json option \<Rightarrow> (post list \<times> diag_end) \<Rightarrow> post list \<times> diag_end" where
  "closing_query p msg reply r = (case r of
     (ps, DiagOver v) \<Rightarrow> (ps @ [p], case reply of Some _ \<Rightarrow> DiagOver v | None \<Rightarrow> DiagFailed msg)
   | _ \<Rightarrow> r)"

definition follow_bundle :: "diag_env \<Rightarrow> duration \<Rightarrow> string \<Rightarrow> string \<Rightarrow> string \<Rightarrow> signed_tx \<Rightarrow> post list \<times> diag_end" where
  "follow_bundle dv wait jito_url rpc_url bundle_id tx =
    closing_query (signature_post dv rpc_url tx) ''getSignatureStatuses'' (dv_signatures dv)
     (closing_query (status_post jito_url ''getBundleStatuses'' bundle_id) ''getBundleStatuses'' (dv_statuses dv)
       (poll_loop wait (status_post jito_url ''getInflightBundleStatuses'' bundle_id) (dv_polls dv)))"

definition result_id :: "diag_env \<Rightarrow> string \<Rightarrow> string option" where
  "result_id dv text' = json_str ''result'' (or_default JNull (dv_json dv text'))"

text \<open>The simulation, the post, and what follows on its reply.\<close>

definition send_checked :: "string \<Rightarrow> diag_env \<Rightarrow> post \<Rightarrow> (string \<Rightarrow> post list \<times> diag_end) \<Rightarrow> signed_tx \<Rightarrow> post list \<times> diag_end" where
  "send_checked msg dv p follow tx =
    (if dv_simulate dv tx = Some True then ([], SimulationFailed)
     else (case dv_reply dv of
       None \<Rightarrow> ([p], DiagFailed msg)
     | Some text' \<Rightarrow> (case result_id dv text' of
         None \<Rightarrow> ([p], NotAccepted)
       | Some bundle_id \<Rightarrow> (case follow bundle_id of (ps, e) \<Rightarrow> (p # ps, e)))))"

definition swap_main :: "diag_env \<Rightarrow> swap_args \<Rightarrow> config \<Rightarrow> pubkey \<Rightarrow> post list \<times> diag_end" where
  "swap_main dv wa cfg payer = (case swap_prepare dv wa cfg payer of
     Inl e \<Rightarrow> ([], DiagFailed e)
   | Inr tx \<Rightarrow> (let jito_url = or_default (default_jito_bundles_url cfg) (wa_jito_url wa)
       in send_checked ''POST sendBundle'' dv \<lparr> po_url = jito_url, po_body = bundle_body dv tx, po_auth = wa_jito_auth wa \<rparr>
            (\<lambda>id'. follow_bundle dv (unat (wa_wait_secs wa) * 1000000000) jito_url (rc_url (cf_rpc cfg)) id' tx) tx))"

definition transfer_main :: "diag_env \<Rightarrow> test_args \<Rightarrow> config \<Rightarrow> pubkey \<Rightarrow> post list \<times> diag_end" where
  "transfer_main dv ta cfg payer = (case transfer_prepare dv ta payer of
     Inl e \<Rightarrow> ([], DiagFailed e)
   | Inr tx \<Rightarrow> (let jito_url = or_default (default_jito_bundles_url cfg) (ta_jito_url ta)
       in if ta_use_send_transaction ta
          then send_checked ''POST to Jito'' dv \<lparr> po_url = str_replace ''/bundles'' ''/transactions'' jito_url, po_body = transaction_body dv tx,
                 po_auth = ta_jito_auth ta \<rparr>
               (\<lambda>_. closing_query (signature_post dv (rc_url (cf_rpc cfg)) tx) ''getSignatureStatuses'' (dv_signatures dv) ([], DiagOver JNull)) tx
          else send_checked ''POST to Jito'' dv \<lparr> po_url = jito_url, po_body = bundle_body dv tx, po_auth = ta_jito_auth ta \<rparr>
            (\<lambda>id'. follow_bundle dv (unat (ta_wait_secs ta) * 1000000000) jito_url (rc_url (cf_rpc cfg)) id' tx) tx))"

section \<open>The status URL\<close>

lemma strip_bundles: "strip_suffix ''/bundles'' (base @ ''/bundles'') = Some base"
  by (simp add: strip_suffix_def suffix_def)

text \<open>A status request goes to the host and path of the bundles URL with the last part replaced by the
  method, and it keeps the query, which may hold the API key.\<close>
theorem method_url_keeps_query:
  assumes "CHR ''?'' \<notin> set base"
  shows "jito_method_url (base @ ''/bundles'') m = base @ ''/'' @ m \<and>
    jito_method_url (base @ ''/bundles?'' @ q) m = base @ ''/'' @ m @ ''?'' @ q"
proof -
  have n: "CHR ''?'' \<notin> set (base @ ''/bundles'')" using assms by simp
  then have "split_once CHR ''?'' (base @ ''/bundles'') = None"
    "split_once CHR ''?'' ((base @ ''/bundles'') @ CHR ''?'' # q) = Some (base @ ''/bundles'', q)"
    using split_once_key [OF n] split_once_None by auto
  then show ?thesis using strip_bundles [of base] by (simp add: jito_method_url_def)
qed

lemma method_url_keeps_query_witness:
  "jito_method_url ''http://h/api/v1/bundles?uuid=k'' ''getBundleStatuses'' = ''http://h/api/v1/getBundleStatuses?uuid=k''"
  using method_url_keeps_query [of "''http://h/api/v1''" "''getBundleStatuses''" "''uuid=k''"] by simp

section \<open>The poll\<close>

text \<open>The poll ends, at the latest with the first poll at which the waiting time is up, and every request
  before the last found the bundle neither landed nor failed.\<close>
theorem poll_ends:
  assumes "list_ex (\<lambda>r. wait \<le> fst r) polls"
  shows "snd (poll_loop wait p polls) \<noteq> DiagPolling \<and>
    length (fst (poll_loop wait p polls)) \<le> Suc (length (takeWhile (\<lambda>r. fst r < wait) polls)) \<and>
    set (fst (poll_loop wait p polls)) = {p}"
  using assms
proof (induction wait p polls rule: poll_loop.induct)
  case (2 wait p elapsed reply rs)
  show ?case
  proof (cases reply)
    case (Some v)
    show ?thesis
    proof (cases "bundle_status v \<in> {''Landed'', ''Failed''} \<or> wait \<le> elapsed")
      case False
      then have "list_ex (\<lambda>r. wait \<le> fst r) rs" using "2.prems" by simp
      from "2.IH" [OF Some False this] show ?thesis using Some False by (auto simp: case_prod_unfold)
    qed (use Some in auto)
  qed simp
qed simp

lemma poll_ends_witness:
  "length (fst (poll_loop 10 (status_post ''u'' ''m'' ''b'') [(3, Some JNull), (12, Some JNull), (20, None)])) \<le> 2"
  using poll_ends [of 10 "[(3, Some JNull), (12, Some JNull), (20, None)]" "status_post ''u'' ''m'' ''b''"] by simp

section \<open>What is sent\<close>

lemma poll_posts: "set (fst (poll_loop wait p polls)) \<subseteq> {p}"
  by (induction wait p polls rule: poll_loop.induct) (auto simp: case_prod_unfold split: option.splits)

lemma closing_posts: "set (fst (closing_query p msg reply r)) \<subseteq> insert p (set (fst r))"
  by (cases r; cases "snd r") (auto simp: closing_query_def split: option.splits)

lemma follow_posts: "set (fst (follow_bundle dv wait jito_url rpc_url id' tx)) \<subseteq>
    {status_post jito_url ''getInflightBundleStatuses'' id', status_post jito_url ''getBundleStatuses'' id', signature_post dv rpc_url tx}"
proof -
  let ?poll = "poll_loop wait (status_post jito_url ''getInflightBundleStatuses'' id') (dv_polls dv)"
  let ?inner = "closing_query (status_post jito_url ''getBundleStatuses'' id') ''getBundleStatuses'' (dv_statuses dv) ?poll"
  have "set (fst (follow_bundle dv wait jito_url rpc_url id' tx)) \<subseteq> insert (signature_post dv rpc_url tx) (set (fst ?inner))"
    unfolding follow_bundle_def by (rule closing_posts)
  moreover have "set (fst ?inner) \<subseteq> insert (status_post jito_url ''getBundleStatuses'' id') (set (fst ?poll))" by (rule closing_posts)
  ultimately show ?thesis using poll_posts by fastforce
qed

lemma status_post_auth [simp]: "po_auth (status_post u m b) = None" "po_auth (signature_post dv r tx) = None"
  by (simp_all add: status_post_def signature_post_def)

text \<open>The instruction list of a prepared swap.\<close>

definition tip_last :: "diag_env \<Rightarrow> pubkey \<Rightarrow> u64 \<Rightarrow> signed_tx \<Rightarrow> bool" where
  "tip_last dv payer amount tx \<longleftrightarrow> (\<exists>tip ixs alts blockhash. jito_tip_account dv = Inr tip \<and>
     dv_compile dv payer (ixs @ [Plain (Transfer payer tip amount)]) alts blockhash = Some tx)"

lemma compile_tx_iff: "compile_tx dv payer ixs alts bh = Inr tx \<longleftrightarrow> dv_compile dv payer ixs alts bh = Some tx \<and> sx_bincode tx \<noteq> None"
  by (auto simp: compile_tx_def result_iff)

lemma swap_instructions_tip:
  "swap_instructions dv wa fee payer tip resp = Inr ixs \<Longrightarrow> \<exists>work. ixs = work @ [Plain (Transfer payer tip (wa_tip_lamports wa))]"
  by (auto simp: swap_instructions_def Let_def and_then_iff)

lemma tip_lastI: "jito_tip_account dv = Inr tip \<Longrightarrow> compile_tx dv payer (ixs @ [Plain (Transfer payer tip amount)]) alts bh = Inr tx \<Longrightarrow>
    tip_last dv payer amount tx"
  unfolding tip_last_def compile_tx_iff by blast

lemma swap_prepared:
  assumes "swap_prepare dv wa cfg payer = Inr tx"
  shows "tip_last dv payer (wa_tip_lamports wa) tx"
proof -
  obtain tip resp fee ixs alts bh where t: "jito_tip_account dv = Inr tip" "swap_instructions dv wa fee payer tip resp = Inr ixs"
    "compile_tx dv payer ixs alts bh = Inr tx"
    using assms unfolding swap_prepare_def and_then_iff by blast
  then show ?thesis using swap_instructions_tip [OF t(2)] tip_lastI by blast
qed

lemma transfer_prepared:
  assumes "transfer_prepare dv ta payer = Inr tx"
  shows "tip_last dv payer (ta_tip_lamports ta) tx"
proof -
  obtain tip memo work bh where t: "jito_tip_account dv = Inr tip"
    "compile_tx dv payer ((memo # work) @ [Plain (Transfer payer tip (ta_tip_lamports ta))]) [] bh = Inr tx"
    using assms unfolding transfer_prepare_def and_then_iff append_Cons [symmetric] by blast
  show ?thesis by (rule tip_lastI [OF t])
qed

lemma checked_posts:
  assumes "fst (send_checked msg dv p follow tx) \<noteq> []" "\<And>id'. set (fst (follow id')) \<subseteq> {q. po_auth q = None}"
  shows "dv_simulate dv tx \<noteq> Some True \<and> (\<exists>ps. fst (send_checked msg dv p follow tx) = p # ps \<and> list_all (\<lambda>q. po_auth q = None) ps)"
  using assms by (auto simp: send_checked_def case_prod_unfold list_all_iff split: if_splits option.splits)

text \<open>The post that carries a transaction.\<close>

definition carries :: "diag_env \<Rightarrow> signed_tx \<Rightarrow> string option \<Rightarrow> post \<Rightarrow> bool" where
  "carries dv tx auth p \<longleftrightarrow> po_auth p = auth \<and> (po_body p = bundle_body dv tx \<or> po_body p = transaction_body dv tx)"


definition demo_diag :: diag_env where
  "demo_diag = \<lparr> dv_from_str = (\<lambda>_. Some 7), dv_decode = (\<lambda>_. Some []), dv_base64 = (\<lambda>_. ''AQ==''), dv_balance = Some 5,
     dv_quote = (\<lambda>_. None), dv_swap_instructions = (\<lambda>_ _. None), dv_account = (\<lambda>_. None), dv_table = (\<lambda>_. None),
     dv_blockhash = Some 3, dv_compile = (\<lambda>_ _ _ _. Some \<lparr> sx_signatures = [9], sx_bincode = Some [1] \<rparr>),
     dv_show_sig = (\<lambda>_. ''s''), dv_show_key = (\<lambda>_. ''k''), dv_simulate = (\<lambda>_. Some False), dv_reply = Some ''r'',
     dv_json = (\<lambda>_. Some (JObject [(''result'', JString ''b'')])), dv_polls = [(0, Some JNull)], dv_statuses = None,
     dv_signatures = None \<rparr>"

definition demo_test_args :: test_args where
  "demo_test_args = \<lparr> ta_tip_lamports = 200000, ta_no_self_transfer = False, ta_transfer_to = None, ta_transfer_lamports = 1,
     ta_wait_secs = 0, ta_jito_url = Some ''http://h/bundles'', ta_use_send_transaction = False, ta_jito_auth = None \<rparr>"

definition demo_diag_config :: config where
  "demo_diag_config = config_of (rpc_config_of ''http://rpc'' None) \<lparr> wc_keypair_path = ''w'' \<rparr> (sources_config_of ''s'' ''y'' None None)
     (supervisor_config_of None None) (schedule_config_of None None None) (tx_config_of None None None) []
     (run_config_of ''o'' None None ''1h'' None) None"

lemma demo_tip: "jito_tip_account demo_diag = Inr 7"
  by (simp add: jito_tip_account_def demo_diag_def tip_accounts_for_def JITO_TIP_ACCOUNTS_STR_def ctx_def)

lemma demo_prepared: "transfer_prepare demo_diag demo_test_args 5 = Inr \<lparr> sx_signatures = [9], sx_bincode = Some [1] \<rparr>"
  by (simp add: transfer_prepare_def demo_tip) (simp add: demo_diag_def demo_test_args_def transfer_work_def compile_tx_def ctx_def and_then_def)

lemma demo_posts: "length (fst (transfer_main demo_diag demo_test_args demo_diag_config 5)) = 3"
  by (simp add: transfer_main_def demo_prepared)
    (simp add: demo_diag_def demo_test_args_def send_checked_def result_id_def json_str_def json_get_def or_default_def follow_bundle_def closing_query_def Let_def)


section \<open>What the programs do not notice\<close>

text \<open>The endpoint of the example configuration ends in \<open>/transactions\<close>: no method replaces it, so bundles and
  status requests all go there.\<close>

lemma configured_url_not_bundles:
  "jito_method_url ''https://frankfurt.mainnet.block-engine.jito.wtf/api/v1/transactions'' m =
    ''https://frankfurt.mainnet.block-engine.jito.wtf/api/v1/transactions''"
  by (simp add: jito_method_url_def strip_suffix_def suffix_def)

text \<open>The limit is cut to 32 bits.\<close>

lemma limit_is_truncated: "budget_ixs 0 (JObject [(''computeUnitLimit'', JNumber 4294967296)]) = [Plain (SetComputeUnitLimit 0)]"
  by (simp add: budget_ixs_def compute_unit_limit_def or_default_def json_get_def json_u64_def u64_max_def)

end
